(* ===== verification/Go_Prelude.thy ===== *)
theory Go_Prelude
  imports Main "HOL-Library.AList" "HOL-Library.Char_ord" "HOL-Library.List_Lexorder"
    "HOL-Library.Multiset" "HOL-Library.Word"
begin

text \<open>
  What the components share: the model's types for Go values, the pieces of the Go standard
  library the sources call, and generic lemmas.

  \<^item> A Go \<open>string\<close> or \<open>[]byte\<close> is a HOL \<open>string\<close>: a HOL \<open>char\<close> is a byte, so lengths
    and indices count bytes as Go's do.
  \<^item> A \<open>time.Time\<close> is an \<open>int\<close>, nanoseconds since Go's zero time, so \<open>IsZero\<close> is
    equality with 0; a \<open>time.Duration\<close> is an \<open>int\<close> too.
  \<^item> A Go map is an association list with distinct keys (\<open>gomap_ok\<close>). The list order stands
    for one iteration order of the map; where a result must not depend on it, a lemma says so.
  \<^item> \<open>sort.Slice\<close> with comparator \<open>lt\<close> is \<open>go_sort lt\<close>. The locale \<open>strict_total\<close>
    shows that for a strict total order the result is the same for every permutation of the
    input, in particular for every iteration order of the map the slice was collected from.
\<close>

section \<open>Types and collections of rules\<close>

type_synonym gotime = int
type_synonym duration = int
type_synonym ('k, 'v) gomap = "('k \<times> 'v) list"

text \<open>\<open>Time.Sub\<close> saturates at the range of a duration.\<close>

definition maxDuration :: int where "maxDuration = 2 ^ 63 - 1"

definition time_Sub :: "gotime \<Rightarrow> gotime \<Rightarrow> duration" where
  "time_Sub t u = max (- (2 ^ 63)) (min maxDuration (t - u))"

named_theorems go_defs \<open>unfolding rules for the small standard-library helpers\<close>
named_theorems inv_intros \<open>invariant preservation, one rule per operation\<close>

section \<open>Maps\<close>

abbreviation gomap_ok :: "('k, 'v) gomap \<Rightarrow> bool" where
  "gomap_ok m \<equiv> distinct (map fst m)"

lemma gomap_update_ok [simp, intro]: "gomap_ok m \<Longrightarrow> gomap_ok (AList.update k v m)"
  by (rule distinct_update)

lemma gomap_delete_ok [simp, intro]: "gomap_ok m \<Longrightarrow> gomap_ok (AList.delete k m)"
  by (rule distinct_delete)

lemma gomap_length_update:
  "gomap_ok m \<Longrightarrow> length (AList.update k v m) = (if k \<in> fst ` set m then length m else Suc (length m))"
  by (induction m) auto

lemma gomap_delete_absent [simp]: "k \<notin> fst ` set m \<Longrightarrow> AList.delete k m = m"
  by (induction m) (auto simp: AList.delete_eq)

lemma gomap_length_delete:
  "gomap_ok m \<Longrightarrow> length (AList.delete k m) = (if k \<in> fst ` set m then length m - 1 else length m)"
proof (induction m)
  case Nil
  then show ?case by simp
next
  case (Cons x m)
  obtain a b where x: "x = (a, b)" by (cases x)
  show ?case
  proof (cases "a = k")
    case True
    with Cons.prems x have "k \<notin> fst ` set m" by auto
    with True x show ?thesis by simp
  next
    case False
    with Cons x show ?thesis
      by (cases m) (auto simp: image_iff)
  qed
qed

lemma gomap_set_card: "gomap_ok m \<Longrightarrow> card (fst ` set m) = length m"
  by (metis distinct_card length_map list.set_map)

lemma map_of_in_set: "gomap_ok m \<Longrightarrow> map_of m k = Some v \<longleftrightarrow> (k, v) \<in> set m"
  by (rule map_of_eq_Some_iff)

lemma gomap_keys_update [simp]: "fst ` set (AList.update k v m) = insert k (fst ` set m)"
  using dom_update [of k v m] by (simp add: dom_map_of_conv_image_fst)

lemma gomap_set_update: "set (AList.update k v m) \<subseteq> insert (k, v) (set m)"
  by (induction m) auto

lemma gomap_set_delete: "set (AList.delete k m) \<subseteq> set m"
  by (auto simp: AList.delete_eq)

lemma gomap_Ball_update:
  "\<forall>x \<in> set m. P x \<Longrightarrow> P (k, v) \<Longrightarrow> \<forall>x \<in> set (AList.update k v m). P x"
  using gomap_set_update [of k v m] by auto

lemma gomap_keys_delete [simp]: "fst ` set (AList.delete k m) = fst ` set m - {k}"
  by (force simp: AList.delete_eq)

lemma map_of_absent: "k \<notin> fst ` set m \<Longrightarrow> map_of m k = None"
  by (simp add: map_of_eq_None_iff)

lemma gomap_filter_ok [simp, intro]: "gomap_ok m \<Longrightarrow> gomap_ok (filter P m)"
  by (induction m) auto

lemma gomap_perm_ok: "mset m = mset m' \<Longrightarrow> gomap_ok m \<longleftrightarrow> gomap_ok m'"
  by (metis mset_eq_imp_distinct_iff mset_map)

text \<open>Sums over a map, and what an update changes of them.\<close>

definition gomap_sum :: "('k \<Rightarrow> 'v \<Rightarrow> nat) \<Rightarrow> ('k, 'v) gomap \<Rightarrow> nat" where
  "gomap_sum f m = (\<Sum>(k, v) \<leftarrow> m. f k v)"

lemma gomap_sum_simps [simp]:
  "gomap_sum f [] = 0"
  "gomap_sum f ((k, v) # m) = f k v + gomap_sum f m"
  "gomap_sum f (m @ m') = gomap_sum f m + gomap_sum f m'"
  by (simp_all add: gomap_sum_def)

lemma gomap_sum_mset: "mset m = mset m' \<Longrightarrow> gomap_sum f m = gomap_sum f m'"
  unfolding gomap_sum_def by (metis mset_map sum_mset_sum_list)

lemma gomap_sum_ge: "map_of m k = Some v \<Longrightarrow> f k v \<le> gomap_sum f m"
  by (induction m) (auto split: if_splits)

lemma gomap_sum_update:
  "gomap_sum f (AList.update k v m) + (case map_of m k of None \<Rightarrow> 0 | Some w \<Rightarrow> f k w)
     = gomap_sum f m + f k v"
  by (induction m) (auto split: option.splits)

text \<open>
  The read-or-create-then-update idiom on a map of states, and what a run of it leaves under a key:
  the steps of that key alone, in order.
\<close>

definition gomap_modify :: "'s \<Rightarrow> ('v \<Rightarrow> 's \<Rightarrow> 's) \<Rightarrow> 'k \<times> 'v \<Rightarrow> ('k, 's) gomap \<Rightarrow> ('k, 's) gomap" where
  "gomap_modify init step x m =
     AList.update (fst x) (step (snd x) (case map_of m (fst x) of None \<Rightarrow> init | Some s \<Rightarrow> s)) m"

definition values_of :: "'k \<Rightarrow> ('k \<times> 'v) list \<Rightarrow> 'v list" where
  "values_of k xs = map snd (filter (\<lambda>x. fst x = k) xs)"

lemma values_of_simps [simp]:
  "values_of k [] = []"
  "values_of k ((k', v) # xs) = (if k' = k then v # values_of k xs else values_of k xs)"
  "values_of k (xs @ ys) = values_of k xs @ values_of k ys"
  by (simp_all add: values_of_def)

lemma values_of_empty_iff: "values_of k xs = [] \<longleftrightarrow> k \<notin> fst ` set xs"
  by (auto simp: values_of_def filter_empty_conv)

lemma map_of_fold_modify:
  "map_of (fold (gomap_modify init step) xs m) k =
     (if values_of k xs = [] then map_of m k
      else Some (fold step (values_of k xs) (case map_of m k of None \<Rightarrow> init | Some s \<Rightarrow> s)))"
proof (induction xs arbitrary: m)
  case Nil
  then show ?case by simp
next
  case (Cons x xs)
  then show ?case
    by (cases x) (auto simp: gomap_modify_def update_conv' split: option.splits)
qed

lemma gomap_ok_fold_modify: "gomap_ok m \<Longrightarrow> gomap_ok (fold (gomap_modify init step) xs m)"
  by (induction xs arbitrary: m) (auto simp: gomap_modify_def)

section \<open>Sorting with a comparator\<close>

fun go_insert :: "('a \<Rightarrow> 'a \<Rightarrow> bool) \<Rightarrow> 'a \<Rightarrow> 'a list \<Rightarrow> 'a list" where
  "go_insert lt x [] = [x]"
| "go_insert lt x (y # ys) = (if lt y x then y # go_insert lt x ys else x # y # ys)"

fun go_sort :: "('a \<Rightarrow> 'a \<Rightarrow> bool) \<Rightarrow> 'a list \<Rightarrow> 'a list" where
  "go_sort lt [] = []"
| "go_sort lt (x # xs) = go_insert lt x (go_sort lt xs)"

lemma mset_go_insert [simp]: "mset (go_insert lt x ys) = add_mset x (mset ys)"
  by (induction ys) auto

lemma mset_go_sort [simp]: "mset (go_sort lt xs) = mset xs"
  by (induction xs) auto

lemma set_go_sort [simp]: "set (go_sort lt xs) = set xs"
  by (metis mset_go_sort set_mset_mset)

lemma length_go_sort [simp]: "length (go_sort lt xs) = length xs"
  by (metis mset_go_sort size_mset)

lemma distinct_go_sort [simp]: "distinct (go_sort lt xs) = distinct xs"
  by (metis mset_go_sort mset_eq_imp_distinct_iff)

lemma distinct_map_go_sort: "distinct (map f (go_sort lt xs)) = distinct (map f xs)"
  by (rule mset_eq_imp_distinct_iff) simp

locale strict_total =
  fixes lt :: "'a \<Rightarrow> 'a \<Rightarrow> bool" and carrier :: "'a set"
  assumes lt_irrefl: "x \<in> carrier \<Longrightarrow> \<not> lt x x"
    and lt_trans: "x \<in> carrier \<Longrightarrow> y \<in> carrier \<Longrightarrow> z \<in> carrier \<Longrightarrow>
      lt x y \<Longrightarrow> lt y z \<Longrightarrow> lt x z"
    and lt_total: "x \<in> carrier \<Longrightarrow> y \<in> carrier \<Longrightarrow> x \<noteq> y \<Longrightarrow> lt x y \<or> lt y x"
begin

lemma insert_sorted:
  assumes "sorted_wrt lt ys" and "set ys \<subseteq> carrier" and "x \<in> carrier" and "x \<notin> set ys"
  shows "sorted_wrt lt (go_insert lt x ys)"
  using assms
proof (induction ys)
  case Nil
  then show ?case by simp
next
  case (Cons y ys)
  have set_ins: "set (go_insert lt x ys) = insert x (set ys)"
    by (metis mset_go_insert set_mset_add_mset_insert set_mset_mset)
  show ?case
  proof (cases "lt y x")
    case True
    with Cons set_ins show ?thesis by auto
  next
    case False
    with Cons.prems lt_total have xy: "lt x y" by (metis insert_subset list.simps(15) list.set_intros(1))
    with Cons.prems have "\<forall>z \<in> set ys. lt x z"
      by (auto intro: lt_trans)
    with False xy Cons.prems show ?thesis by auto
  qed
qed

lemma sort_sorted:
  "set xs \<subseteq> carrier \<Longrightarrow> distinct xs \<Longrightarrow> sorted_wrt lt (go_sort lt xs)"
  by (induction xs) (auto intro!: insert_sorted)

lemma sorted_unique:
  assumes "sorted_wrt lt xs" and "sorted_wrt lt ys" and "mset xs = mset ys"
    and "set xs \<subseteq> carrier"
  shows "xs = ys"
  using assms
proof (induction xs arbitrary: ys)
  case Nil
  then show ?case by simp
next
  case (Cons x xs)
  then obtain y ys' where ys: "ys = y # ys'" by (cases ys) auto
  have xin: "x \<in> set ys" and yin: "y \<in> set (x # xs)"
    using Cons.prems(3) ys by (metis list.set_intros(1) set_mset_mset)+
  have carr: "x \<in> carrier" "y \<in> carrier" using Cons.prems(4) yin by auto
  have "x = y"
  proof (rule ccontr)
    assume ne: "x \<noteq> y"
    with xin ys Cons.prems(2) have "lt y x" by auto
    moreover from ne yin Cons.prems(1) have "lt x y" by auto
    ultimately show False using carr lt_trans lt_irrefl by blast
  qed
  with Cons ys show ?case by auto
qed

text \<open>The sorted slice does not depend on the order in which its elements were collected.\<close>

lemma sort_order_independent:
  assumes "mset xs = mset ys" and "set xs \<subseteq> carrier" and "distinct xs"
  shows "go_sort lt xs = go_sort lt ys"
proof (rule sorted_unique)
  have "distinct ys" and "set ys = set xs"
    using assms(1,3) by (auto dest: mset_eq_setD mset_eq_imp_distinct_iff)
  then show "sorted_wrt lt (go_sort lt ys)"
    using assms(2) by (simp add: sort_sorted)
  show "sorted_wrt lt (go_sort lt xs)"
    using assms(2,3) by (rule sort_sorted)
qed (use assms in simp_all)

end

text \<open>
  The comparators of the sources order by a number, highest first, and break ties by a key: a strict
  total order wherever the key tells the elements apart.
\<close>

lemma strict_total_desc_then_key:
  fixes rank :: "'a \<Rightarrow> 'b::linorder" and key :: "'a \<Rightarrow> 'c::linorder"
  assumes "inj_on key carrier"
    and "\<And>x y. lt x y \<longleftrightarrow> (if rank x \<noteq> rank y then rank x > rank y else key x < key y)"
  shows "strict_total lt carrier"
proof
  fix x y
  assume "x \<in> carrier" "y \<in> carrier" "x \<noteq> y"
  with assms(1) have "key x \<noteq> key y" by (auto dest: inj_onD)
  then show "lt x y \<or> lt y x" by (auto simp: assms(2))
qed (auto simp: assms(2) split: if_splits)

text \<open>\<open>sort.Strings\<close>: bytewise, which is the lexicographic order of byte strings.\<close>

definition sort_Strings :: "string list \<Rightarrow> string list" where
  "sort_Strings = go_sort (<)"

interpretation str_less: strict_total "(<) :: string \<Rightarrow> string \<Rightarrow> bool" UNIV
  by unfold_locales auto

lemma sort_Strings_perm: "distinct xs \<Longrightarrow> mset xs = mset ys \<Longrightarrow> sort_Strings xs = sort_Strings ys"
  unfolding sort_Strings_def by (rule str_less.sort_order_independent) auto

lemma set_sort_Strings [simp]: "set (sort_Strings xs) = set xs"
  by (simp add: sort_Strings_def)

section \<open>Sets as lists of distinct elements\<close>

text \<open>Inserting into a Go set (\<open>map[T]struct{}\<close>): new elements go to the end.\<close>

definition set_insert :: "'a \<Rightarrow> 'a list \<Rightarrow> 'a list" where
  "set_insert x xs = (if x \<in> set xs then xs else xs @ [x])"

lemma set_set_insert [simp]: "set (set_insert x xs) = insert x (set xs)"
  by (auto simp: set_insert_def)

lemma distinct_set_insert [simp]: "distinct (set_insert x xs) = distinct xs"
  by (auto simp: set_insert_def)

lemma distinct_set_singleton: "distinct xs \<Longrightarrow> set xs = {x} \<Longrightarrow> xs = [x]"
proof (cases xs)
  case (Cons y ys)
  moreover assume "distinct xs" "set xs = {x}"
  ultimately show ?thesis by (cases ys) auto
qed simp

definition first_occurrences :: "'a list \<Rightarrow> 'a list" where
  "first_occurrences xs = rev (remdups (rev xs))"

lemma first_occurrences_Nil [simp]: "first_occurrences [] = []"
  by (simp add: first_occurrences_def)

lemma first_occurrences_snoc: "first_occurrences (xs @ [x]) = set_insert x (first_occurrences xs)"
  by (simp add: first_occurrences_def set_insert_def)

lemma set_first_occurrences [simp]: "set (first_occurrences xs) = set xs"
  by (simp add: first_occurrences_def)

lemma distinct_first_occurrences [simp]: "distinct (first_occurrences xs)"
  by (simp add: first_occurrences_def)

lemma length_first_occurrences: "length (first_occurrences xs) = card (set xs)"
  by (metis distinct_card distinct_first_occurrences set_first_occurrences)

section \<open>Strings\<close>

definition strings_HasPrefix :: "string \<Rightarrow> string \<Rightarrow> bool" where [go_defs]:
  "strings_HasPrefix s p \<longleftrightarrow> take (length p) s = p"

definition strings_HasSuffix :: "string \<Rightarrow> string \<Rightarrow> bool" where [go_defs]:
  "strings_HasSuffix s p \<longleftrightarrow> length p \<le> length s \<and> drop (length s - length p) s = p"

definition strings_CutPrefix :: "string \<Rightarrow> string \<Rightarrow> string option" where [go_defs]:
  "strings_CutPrefix s p = (if strings_HasPrefix s p then Some (drop (length p) s) else None)"

definition strings_CutSuffix :: "string \<Rightarrow> string \<Rightarrow> string option" where [go_defs]:
  "strings_CutSuffix s p =
     (if strings_HasSuffix s p then Some (take (length s - length p) s) else None)"

lemma HasPrefix_append [simp]: "strings_HasPrefix (p @ s) p"
  by (simp add: strings_HasPrefix_def)

lemma HasPrefix_iff: "strings_HasPrefix s p \<longleftrightarrow> (\<exists>t. s = p @ t)"
  by (metis HasPrefix_append append_take_drop_id strings_HasPrefix_def)

lemma HasSuffix_append [simp]: "strings_HasSuffix (s @ p) p"
  by (simp add: strings_HasSuffix_def)

lemma HasSuffix_iff: "strings_HasSuffix s p \<longleftrightarrow> (\<exists>t. s = t @ p)"
  by (metis HasSuffix_append append_take_drop_id strings_HasSuffix_def)

lemma CutPrefix_append [simp]: "strings_CutPrefix (p @ s) p = Some s"
  by (simp add: strings_CutPrefix_def)

lemma CutSuffix_append [simp]: "strings_CutSuffix (s @ p) p = Some s"
  by (simp add: strings_CutSuffix_def)

lemma CutPrefix_Some_iff: "strings_CutPrefix s p = Some t \<longleftrightarrow> s = p @ t"
  by (auto simp: strings_CutPrefix_def HasPrefix_iff)

lemma CutSuffix_Some_iff: "strings_CutSuffix s p = Some t \<longleftrightarrow> s = t @ p"
  by (auto simp: strings_CutSuffix_def HasSuffix_iff)

section \<open>The last n elements\<close>

definition lastn :: "nat \<Rightarrow> 'a list \<Rightarrow> 'a list" where
  "lastn n xs = drop (length xs - n) xs"

lemma length_lastn [simp]: "length (lastn n xs) = min n (length xs)"
  by (simp add: lastn_def)

lemma lastn_short [simp]: "length xs \<le> n \<Longrightarrow> lastn n xs = xs"
  by (simp add: lastn_def)

lemma lastn_tl: "n < length xs \<Longrightarrow> lastn n (tl xs) = lastn n xs"
  by (cases xs) (auto simp: lastn_def Suc_diff_le)

lemma lastn_append1: "lastn n (lastn n xs @ ys) = lastn n (xs @ ys)"
  by (cases "length xs \<le> n") (auto simp: lastn_def add.commute)

end
