(* ===== verification/Ring_Buffer.thy ===== *)
theory Ring_Buffer
  imports Go_Prelude
begin

text \<open>
  \<open>src/internal/ringbuf/ringbuf.go\<close>: the fixed-capacity ring behind the status page's
  sparklines. The model keeps the code's four fields, the wrap-around index arithmetic and the
  in-place slice writes; a nil receiver is \<open>None\<close>. The locale \<open>bounded_history\<close> is the
  contract a client sees (the retained values are the last \<open>cap\<close> of everything added) and the
  ring is an interpretation of it.
\<close>

section \<open>Model\<close>

record 'a Ring =
  ring_buf :: "'a list"
  ring_head :: nat
  ring_n :: nat
  ring_cap :: nat

definition ring_New :: "'a \<Rightarrow> int \<Rightarrow> 'a Ring" where
  \<comment> \<open>the first argument is the element type's zero value, which \<open>make\<close> fills the slice with\<close>
  "ring_New zero capacity =
     (let c = nat (if capacity < 1 then 1 else capacity)
      in \<lparr>ring_buf = replicate c zero, ring_head = 0, ring_n = 0, ring_cap = c\<rparr>)"

definition ring_Add :: "'a \<Rightarrow> 'a Ring \<Rightarrow> 'a Ring" where
  "ring_Add v r =
     (if ring_n r < ring_cap r
      then r\<lparr>ring_buf := (ring_buf r)[(ring_head r + ring_n r) mod ring_cap r := v], ring_n := ring_n r + 1\<rparr>
      else r\<lparr>ring_buf := (ring_buf r)[ring_head r := v], ring_head := (ring_head r + 1) mod ring_cap r\<rparr>)"

definition ring_Values :: "'a Ring \<Rightarrow> 'a list" where
  "ring_Values r = map (\<lambda>i. ring_buf r ! ((ring_head r + i) mod ring_cap r)) [0..<ring_n r]"

definition ring_Len :: "'a Ring \<Rightarrow> nat" where
  "ring_Len r = ring_n r"

definition ring_Cap :: "'a Ring \<Rightarrow> nat" where
  "ring_Cap r = ring_cap r"

text \<open>Every method on a nil receiver is a no-op or reports empty.\<close>

definition ring_Add_nil :: "'a \<Rightarrow> 'a Ring option \<Rightarrow> 'a Ring option" where
  "ring_Add_nil v r = (case r of None \<Rightarrow> None | Some r' \<Rightarrow> Some (ring_Add v r'))"

definition ring_Values_nil :: "'a Ring option \<Rightarrow> 'a list" where
  "ring_Values_nil r = (case r of None \<Rightarrow> [] | Some r' \<Rightarrow> ring_Values r')"

definition ring_ok :: "'a Ring \<Rightarrow> bool" where
  "ring_ok r \<longleftrightarrow> 0 < ring_cap r \<and> length (ring_buf r) = ring_cap r \<and> ring_head r < ring_cap r \<and> ring_n r \<le> ring_cap r \<and>
     (ring_n r < ring_cap r \<longrightarrow> ring_head r = 0)"

section \<open>The contract of a bounded history\<close>

locale bounded_history =
  fixes add :: "'a \<Rightarrow> 's \<Rightarrow> 's" and vals :: "'s \<Rightarrow> 'a list" and bound :: "'s \<Rightarrow> nat"
    and ok :: "'s \<Rightarrow> bool"
  assumes add_ok: "ok s \<Longrightarrow> ok (add x s)"
    and bound_pos: "ok s \<Longrightarrow> 0 < bound s"
    and bound_add: "ok s \<Longrightarrow> bound (add x s) = bound s"
    and vals_add: "ok s \<Longrightarrow> vals (add x s) = lastn (bound s) (vals s @ [x])"
    and vals_bounded: "ok s \<Longrightarrow> length (vals s) \<le> bound s"
begin

lemma fold_ok: "ok s \<Longrightarrow> ok (fold add xs s)"
  by (induction xs arbitrary: s) (auto simp: add_ok)

lemma fold_bound: "ok s \<Longrightarrow> bound (fold add xs s) = bound s"
  by (induction xs arbitrary: s) (auto simp: add_ok bound_add)

lemma fold_vals: "ok s \<Longrightarrow> vals (fold add xs s) = lastn (bound s) (vals s @ xs)"
proof (induction xs arbitrary: s)
  case Nil
  then show ?case by (simp add: vals_bounded)
next
  case (Cons x xs)
  then have "vals (fold add (x # xs) s) = lastn (bound s) (lastn (bound s) (vals s @ [x]) @ xs)"
    by (simp add: add_ok bound_add vals_add)
  then show ?case by (simp add: lastn_append1)
qed

end

section \<open>The ring implements it\<close>

lemma ring_New_ok: "ring_ok (ring_New z c)"
  by (simp add: ring_New_def ring_ok_def Let_def)

lemma ring_New_empty [simp]: "ring_Values (ring_New z c) = []"
  by (simp add: ring_New_def ring_Values_def Let_def)

lemma ring_New_cap [simp]: "ring_Cap (ring_New z c) = nat (max 1 c)"
  by (auto simp: ring_New_def ring_Cap_def Let_def)

lemma ring_Add_ok: "ring_ok r \<Longrightarrow> ring_ok (ring_Add v r)"
  by (auto simp: ring_ok_def ring_Add_def)

lemma ring_Cap_Add [simp]: "ring_Cap (ring_Add v r) = ring_Cap r"
  by (simp add: ring_Cap_def ring_Add_def)

lemma ring_Values_length [simp]: "length (ring_Values r) = ring_n r"
  by (simp add: ring_Values_def)

lemma ring_Add_filling:
  assumes "ring_ok r" and "ring_n r < ring_cap r"
  shows "ring_Values (ring_Add v r) = ring_Values r @ [v]"
proof (rule nth_equalityI)
  show "length (ring_Values (ring_Add v r)) = length (ring_Values r @ [v])"
    using assms by (simp add: ring_Add_def)
next
  fix i assume "i < length (ring_Values (ring_Add v r))"
  then have i: "i \<le> ring_n r" using assms by (simp add: ring_Add_def)
  then show "ring_Values (ring_Add v r) ! i = (ring_Values r @ [v]) ! i"
    using assms by (auto simp: ring_ok_def ring_Add_def ring_Values_def nth_append less_Suc_eq
        simp del: upt_Suc)
qed

lemma ring_slot_distinct:
  assumes "h < c" and "Suc i < c"
  shows "(Suc h + i) mod c \<noteq> (h :: nat)"
  using assms by (auto simp: mod_if not_less)

lemma ring_Add_full:
  assumes "ring_ok r" and "ring_n r = ring_cap r"
  shows "ring_Values (ring_Add v r) = tl (ring_Values r) @ [v]"
proof (rule nth_equalityI)
  show "length (ring_Values (ring_Add v r)) = length (tl (ring_Values r) @ [v])"
    using assms by (auto simp: ring_Add_def ring_ok_def)
next
  fix i assume "i < length (ring_Values (ring_Add v r))"
  then have i: "i < ring_cap r" using assms by (simp add: ring_Add_def)
  have h: "ring_head r < ring_cap r" "0 < ring_cap r" "length (ring_buf r) = ring_cap r"
    using assms by (auto simp: ring_ok_def)
  have idx: "((ring_head r + 1) mod ring_cap r + i) mod ring_cap r = (Suc (ring_head r) + i) mod ring_cap r"
    by (simp add: mod_simps)
  show "ring_Values (ring_Add v r) ! i = (tl (ring_Values r) @ [v]) ! i"
  proof (cases "Suc i < ring_cap r")
    case True
    then have "(Suc (ring_head r) + i) mod ring_cap r \<noteq> ring_head r" using h by (intro ring_slot_distinct)
    moreover have "i < ring_cap r - 1" using True by simp
    ultimately show ?thesis using True assms h i idx
      by (simp add: ring_Add_def ring_Values_def nth_append nth_tl)
  next
    case False
    with i have "Suc i = ring_cap r" by simp
    then have "(Suc (ring_head r) + i) mod ring_cap r = ring_head r"
      using h by (metis add_Suc_shift mod_add_self2 mod_less)
    moreover have "\<not> i < ring_cap r - 1" using False by simp
    ultimately show ?thesis using False assms h i idx
      by (simp add: ring_Add_def ring_Values_def nth_append)
  qed
qed

lemma ring_vals_add:
  assumes "ring_ok r"
  shows "ring_Values (ring_Add v r) = lastn (ring_cap r) (ring_Values r @ [v])"
proof (cases "ring_n r < ring_cap r")
  case True
  with assms show ?thesis by (simp add: ring_Add_filling)
next
  case False
  with assms have full: "ring_n r = ring_cap r" and pos: "0 < ring_cap r" by (auto simp: ring_ok_def)
  then have "lastn (ring_cap r) (ring_Values r @ [v]) = tl (ring_Values r) @ [v]"
    by (cases "ring_Values r") (auto simp: lastn_def drop_Suc dest: arg_cong [where f = length])
  with full assms show ?thesis by (simp add: ring_Add_full)
qed

interpretation rh: bounded_history ring_Add ring_Values ring_Cap ring_ok
proof unfold_locales
  fix r :: "'a Ring" and x
  assume r: "ring_ok r"
  show "ring_ok (ring_Add x r)" using r by (rule ring_Add_ok)
  show "0 < ring_Cap r" and "length (ring_Values r) \<le> ring_Cap r"
    using r by (auto simp: ring_ok_def ring_Cap_def)
  show "ring_Values (ring_Add x r) = lastn (ring_Cap r) (ring_Values r @ [x])"
    using r by (simp add: ring_vals_add ring_Cap_def)
qed simp

text \<open>
  After any sequence of additions to a fresh ring, \<open>Values\<close> is exactly the last
  \<open>max 1 capacity\<close> values added, oldest first, whatever the wrap-around position.
\<close>

theorem ring_Values_are_last_added:
  "ring_Values (fold ring_Add xs (ring_New z c)) = lastn (nat (max 1 c)) xs"
  by (simp add: rh.fold_vals ring_New_ok)

end
