(* ===== verification/Sha256.thy ===== *)
theory Sha256
  imports Go_Prelude
begin

text \<open>
  The standard library's \<open>crypto/sha256\<close> and \<open>encoding/hex\<close> and the big-endian part of
  \<open>encoding/binary\<close>, as the sources use them: \<open>sha256.Sum256\<close> over a byte string (FIPS 180-4
  on 32-bit words), \<open>hex.EncodeToString\<close>/\<open>DecodeString\<close>, and
  \<open>binary.BigEndian.PutUint64\<close>/\<open>Uint64\<close>. The lemmas are those the record formats need:
  digests are 32 bytes, hex and big-endian round trip.
\<close>

unbundle bit_operations_syntax

section \<open>Big-endian integers\<close>

definition byte_at :: "nat \<Rightarrow> nat \<Rightarrow> char" where
  "byte_at i x = char_of (x div 256 ^ i)"

definition be_put :: "nat \<Rightarrow> nat \<Rightarrow> string" where
  "be_put k x = map (\<lambda>i. byte_at i x) (rev [0..<k])"

fun be_get :: "string \<Rightarrow> nat" where
  "be_get [] = 0"
| "be_get (c # bs) = of_char c * 256 ^ length bs + be_get bs"

abbreviation PutUint64 :: "64 word \<Rightarrow> string" where
  "PutUint64 w \<equiv> be_put 8 (unat w)"

definition Uint64 :: "string \<Rightarrow> 64 word" where
  "Uint64 bs = of_nat (be_get bs)"

lemma length_be_put [simp]: "length (be_put k x) = k"
  by (simp add: be_put_def)

lemma be_put_Suc: "be_put (Suc k) x = byte_at k x # be_put k x"
  by (simp add: be_put_def)

lemma of_char_byte_at: "(of_char (byte_at i x) :: nat) = x div 256 ^ i mod 256"
  by (simp add: byte_at_def)

lemma be_get_put: "be_get (be_put k x) = x mod 256 ^ k"
proof (induction k)
  case 0
  then show ?case by (simp add: be_put_def)
next
  case (Suc k)
  have "be_get (be_put (Suc k) x) = x div 256 ^ k mod 256 * 256 ^ k + x mod 256 ^ k"
    by (simp add: be_put_Suc of_char_byte_at Suc)
  also have "\<dots> = x mod 256 ^ Suc k"
    by (metis add.commute mod_mult2_eq mult.commute power_Suc2)
  finally show ?case .
qed

lemma Uint64_Put [simp]: "Uint64 (PutUint64 w) = w"
proof -
  have "unat w < 256 ^ 8" using unsigned_less [of w] by simp
  then show ?thesis by (simp add: Uint64_def be_get_put)
qed

text \<open>A length prefix makes a concatenation of fields uniquely readable.\<close>

lemma length_prefix_inject:
  assumes "length s < 2 ^ 64" "length t < 2 ^ 64"
  shows "be_put 8 (length s) @ s @ u = be_put 8 (length t) @ t @ v \<longleftrightarrow> s = t \<and> u = v"
proof
  assume eq: "be_put 8 (length s) @ s @ u = be_put 8 (length t) @ t @ v"
  then have "be_put 8 (length s) = be_put 8 (length t)" by simp
  then have "length s mod 256 ^ 8 = length t mod 256 ^ 8" by (metis be_get_put)
  with assms have "length s = length t" by simp
  with eq show "s = t \<and> u = v" by simp
qed simp

section \<open>SHA-256\<close>

type_synonym u32 = "32 word"

definition sha_K :: "u32 list" where
  "sha_K = [
     1116352408, 1899447441, 3049323471, 3921009573,
     961987163, 1508970993, 2453635748, 2870763221,
     3624381080, 310598401, 607225278, 1426881987,
     1925078388, 2162078206, 2614888103, 3248222580,
     3835390401, 4022224774, 264347078, 604807628,
     770255983, 1249150122, 1555081692, 1996064986,
     2554220882, 2821834349, 2952996808, 3210313671,
     3336571891, 3584528711, 113926993, 338241895,
     666307205, 773529912, 1294757372, 1396182291,
     1695183700, 1986661051, 2177026350, 2456956037,
     2730485921, 2820302411, 3259730800, 3345764771,
     3516065817, 3600352804, 4094571909, 275423344,
     430227734, 506948616, 659060556, 883997877,
     958139571, 1322822218, 1537002063, 1747873779,
     1955562222, 2024104815, 2227730452, 2361852424,
     2428436474, 2756734187, 3204031479, 3329325298
   ]"

definition sha_H0 :: "u32 list" where
  "sha_H0 = [
     1779033703, 3144134277, 1013904242, 2773480762,
     1359893119, 2600822924, 528734635, 1541459225
   ]"

definition rotr :: "nat \<Rightarrow> u32 \<Rightarrow> u32" where
  "rotr k x = drop_bit k x OR push_bit (32 - k) x"

definition sigma0 :: "u32 \<Rightarrow> u32" where
  "sigma0 x = rotr 7 x XOR rotr 18 x XOR drop_bit 3 x"

definition sigma1 :: "u32 \<Rightarrow> u32" where
  "sigma1 x = rotr 17 x XOR rotr 19 x XOR drop_bit 10 x"

definition Sigma0 :: "u32 \<Rightarrow> u32" where
  "Sigma0 x = rotr 2 x XOR rotr 13 x XOR rotr 22 x"

definition Sigma1 :: "u32 \<Rightarrow> u32" where
  "Sigma1 x = rotr 6 x XOR rotr 11 x XOR rotr 25 x"

text \<open>The message schedule, newest word first: \<open>ws\<close> holds \<open>W[t-1], W[t-2], \<dots>\<close>.\<close>

fun sha_expand :: "nat \<Rightarrow> u32 list \<Rightarrow> u32 list" where
  "sha_expand 0 ws = rev ws"
| "sha_expand (Suc k) ws =
     sha_expand k ((sigma1 (ws ! 1) + ws ! 6 + sigma0 (ws ! 14) + ws ! 15) # ws)"

fun sha_words :: "string \<Rightarrow> u32 list" where
  "sha_words (a # b # c # d # bs) = of_nat (be_get [a, b, c, d]) # sha_words bs"
| "sha_words bs = []"

record sha_regs =
  reg_a :: u32
  reg_b :: u32
  reg_c :: u32
  reg_d :: u32
  reg_e :: u32
  reg_f :: u32
  reg_g :: u32
  reg_h :: u32

definition sha_round :: "u32 \<times> u32 \<Rightarrow> sha_regs \<Rightarrow> sha_regs" where
  "sha_round kw r =
     (let t1 = reg_h r + Sigma1 (reg_e r) + ((reg_e r AND reg_f r) XOR (NOT (reg_e r) AND reg_g r)) + fst kw + snd kw;
          t2 = Sigma0 (reg_a r) + ((reg_a r AND reg_b r) XOR (reg_a r AND reg_c r) XOR (reg_b r AND reg_c r))
      in \<lparr>reg_a = t1 + t2, reg_b = reg_a r, reg_c = reg_b r, reg_d = reg_c r,
          reg_e = reg_d r + t1, reg_f = reg_e r, reg_g = reg_f r, reg_h = reg_g r\<rparr>)"

definition sha_block :: "string \<Rightarrow> u32 list \<Rightarrow> u32 list" where
  "sha_block blk hs =
     (let ws = sha_expand 48 (rev (sha_words blk));
          r = fold sha_round (zip sha_K ws)
            \<lparr>reg_a = hs ! 0, reg_b = hs ! 1, reg_c = hs ! 2, reg_d = hs ! 3,
             reg_e = hs ! 4, reg_f = hs ! 5, reg_g = hs ! 6, reg_h = hs ! 7\<rparr>
      in [hs ! 0 + reg_a r, hs ! 1 + reg_b r, hs ! 2 + reg_c r, hs ! 3 + reg_d r,
          hs ! 4 + reg_e r, hs ! 5 + reg_f r, hs ! 6 + reg_g r, hs ! 7 + reg_h r])"

definition sha_pad :: "string \<Rightarrow> string" where
  "sha_pad bs =
     bs @ char_of (128 :: nat) # replicate ((119 - length bs mod 64) mod 64) (char_of (0 :: nat))
        @ be_put 8 (8 * length bs)"

function sha_blocks :: "string \<Rightarrow> u32 list \<Rightarrow> u32 list" where
  "sha_blocks bs hs = (if bs = [] then hs else sha_blocks (drop 64 bs) (sha_block (take 64 bs) hs))"
  by pat_completeness auto
termination
  by (relation "measure (\<lambda>(bs, hs). length bs)") (auto simp: length_greater_0_conv [symmetric] simp del: length_greater_0_conv)

declare sha_blocks.simps [simp del]

definition sha256 :: "string \<Rightarrow> string" where
  "sha256 bs = concat (map (\<lambda>w. be_put 4 (unat w)) (sha_blocks (sha_pad bs) sha_H0))"

lemma length_sha_blocks: "length hs = 8 \<Longrightarrow> length (sha_blocks bs hs) = 8"
proof (induction bs hs rule: sha_blocks.induct)
  case (1 bs hs)
  have "length (sha_block (take 64 bs) hs) = 8" by (simp add: sha_block_def Let_def)
  with 1 show ?case by (simp add: sha_blocks.simps [of bs hs])
qed

lemma length_sha256 [simp]: "length (sha256 bs) = 32"
proof -
  have "length (concat (map (\<lambda>w. be_put 4 (unat w)) ws)) = 4 * length ws" for ws :: "u32 list"
    by (induction ws) auto
  then show ?thesis by (simp add: sha256_def length_sha_blocks sha_H0_def)
qed

section \<open>Hexadecimal\<close>

definition hex_digits :: string where
  "hex_digits = ''0123456789abcdef''"

definition hex_enc_byte :: "char \<Rightarrow> string" where
  "hex_enc_byte c = [hex_digits ! (of_char c div 16), hex_digits ! (of_char c mod 16)]"

definition hex_EncodeToString :: "string \<Rightarrow> string" where
  "hex_EncodeToString bs = concat (map hex_enc_byte bs)"

definition hex_val :: "char \<Rightarrow> nat option" where
  "hex_val c = (let x = of_char c in
     if 48 \<le> x \<and> x \<le> 57 then Some (x - 48)
     else if 97 \<le> x \<and> x \<le> 102 then Some (x - 87)
     else if 65 \<le> x \<and> x \<le> 70 then Some (x - 55) else None)"

fun hex_DecodeString :: "string \<Rightarrow> string option" where
  "hex_DecodeString [] = Some []"
| "hex_DecodeString [c] = None"
| "hex_DecodeString (c # d # cs) =
     (case (hex_val c, hex_val d, hex_DecodeString cs) of
        (Some x, Some y, Some bs) \<Rightarrow> Some (char_of (16 * x + y) # bs)
      | _ \<Rightarrow> None)"

lemma hex_val_digit: "x < 16 \<Longrightarrow> hex_val (hex_digits ! x) = Some x"
  by (auto simp: hex_val_def hex_digits_def numeral_eq_Suc less_Suc_eq)

lemma hex_Decode_Encode [simp]: "hex_DecodeString (hex_EncodeToString bs) = Some bs"
proof (induction bs)
  case Nil
  then show ?case by (simp add: hex_EncodeToString_def)
next
  case (Cons c bs)
  have "(of_char c :: nat) < 256" by simp
  then have "hex_val (hex_digits ! (of_char c div 16)) = Some (of_char c div 16)"
    by (intro hex_val_digit) (simp add: less_mult_imp_div_less)
  moreover have "hex_val (hex_digits ! (of_char c mod 16)) = Some (of_char c mod 16)"
    by (intro hex_val_digit) simp
  moreover have "char_of (16 * ((of_char c :: nat) div 16) + of_char c mod 16) = c"
    by simp
  ultimately show ?case using Cons
    by (simp add: hex_EncodeToString_def hex_enc_byte_def)
qed

lemma length_hex_Encode [simp]: "length (hex_EncodeToString bs) = 2 * length bs"
  by (induction bs) (auto simp: hex_EncodeToString_def hex_enc_byte_def)

lemma length_hex_Decode: "hex_DecodeString s = Some bs \<Longrightarrow> length s = 2 * length bs"
  by (induction s arbitrary: bs rule: hex_DecodeString.induct) (auto split: option.splits)

lemma hex_digit_lower: "c \<in> set (hex_EncodeToString bs) \<Longrightarrow> c \<in> set hex_digits"
proof -
  have "hex_digits ! x \<in> set hex_digits" if "x < 16" for x
    using that by (intro nth_mem) (simp add: hex_digits_def)
  then show "c \<in> set (hex_EncodeToString bs) \<Longrightarrow> ?thesis"
    by (auto simp: hex_EncodeToString_def hex_enc_byte_def less_mult_imp_div_less)
qed

end
