(* ===== verification/Dedup.thy ===== *)
theory Dedup
  imports Sha256
begin

text \<open>
  \<open>src/internal/dedup/dedup.go\<close>: the bounded first-in-first-out de-duplication set that keeps
  poll overlaps and the webhook/audit pair from being counted twice. The model keeps the code's
  state: the digest map \<open>seen\<close>, the insertion-order slice with its consumed prefix (\<open>head\<close>),
  the counters, and the two youngest-eviction marks. The slice's allocated capacity, which steers
  the compaction, follows a growth policy of the Go runtime, so it is a parameter (\<open>grow\<close>).
  The abstract specification is the list of remembered (key, value) digests, oldest first; the
  refinement shows that one \<open>CompareAndAdd\<close> either leaves it alone or appends and keeps the
  last \<open>capacity\<close> entries, whatever the compaction did.
\<close>

section \<open>Model\<close>

type_synonym digest = string

record dedup_entry =
  de_key :: digest
  de_insertedAt :: gotime

record dedup_Set =
  ds_capacity :: nat
  ds_seen :: "(digest, digest) gomap"
  ds_order :: "dedup_entry list"
  ds_order_cap :: nat
  ds_head :: nat
  ds_evictions :: "64 word"
  ds_hits :: "64 word"
  ds_youngestEvictionAge :: duration
  ds_hasYoungestEviction :: bool
  ds_pendingEvictionAge :: duration
  ds_hasPendingEviction :: bool

datatype dedup_Result = ResultNew | ResultExact | ResultConflict

definition dedup_defaultCapacity :: nat where
  "dedup_defaultCapacity = 4096"

definition dedup_New :: "int \<Rightarrow> dedup_Set" where
  "dedup_New capacity =
     (let c = (if capacity \<le> 0 then dedup_defaultCapacity else nat capacity)
      in \<lparr>ds_capacity = c, ds_seen = [], ds_order = [], ds_order_cap = c, ds_head = 0,
          ds_evictions = 0, ds_hits = 0, ds_youngestEvictionAge = 0, ds_hasYoungestEviction = False,
          ds_pendingEvictionAge = 0, ds_hasPendingEviction = False\<rparr>)"

text \<open>One turn of the eviction loop: the oldest live key leaves and its residency age is noted.\<close>

definition dedup_zero_entry :: dedup_entry where
  "dedup_zero_entry = \<lparr>de_key = replicate 32 (char_of (0 :: nat)), de_insertedAt = 0\<rparr>"

definition dedup_evict_one :: "gotime \<Rightarrow> dedup_Set \<Rightarrow> dedup_Set" where
  "dedup_evict_one now s =
     (let oldest = ds_order s ! ds_head s;
          age = max 0 (now - de_insertedAt oldest);
          s1 = s\<lparr>ds_seen := AList.delete (de_key oldest) (ds_seen s),
                 ds_order := (ds_order s)[ds_head s := dedup_zero_entry],
                 ds_head := ds_head s + 1,
                 ds_evictions := ds_evictions s + 1\<rparr>;
          s2 = (if \<not> ds_hasYoungestEviction s1 \<or> age < ds_youngestEvictionAge s1
                then s1\<lparr>ds_youngestEvictionAge := age, ds_hasYoungestEviction := True\<rparr> else s1)
      in if \<not> ds_hasPendingEviction s2 \<or> age < ds_pendingEvictionAge s2
         then s2\<lparr>ds_pendingEvictionAge := age, ds_hasPendingEviction := True\<rparr> else s2)"

text \<open>The loop; \<open>None\<close> is the index-out-of-range panic of \<open>s.order[s.head]\<close>.\<close>

lemma dedup_evict_one_order [simp]:
  "ds_order (dedup_evict_one now s) = (ds_order s)[ds_head s := dedup_zero_entry]"
  "ds_head (dedup_evict_one now s) = Suc (ds_head s)"
  "ds_capacity (dedup_evict_one now s) = ds_capacity s"
  "ds_order_cap (dedup_evict_one now s) = ds_order_cap s"
  "ds_seen (dedup_evict_one now s) = AList.delete (de_key (ds_order s ! ds_head s)) (ds_seen s)"
  "ds_evictions (dedup_evict_one now s) = ds_evictions s + 1"
  "ds_hits (dedup_evict_one now s) = ds_hits s"
  by (auto simp: dedup_evict_one_def Let_def)

function dedup_evict_loop :: "gotime \<Rightarrow> dedup_Set \<Rightarrow> dedup_Set option" where
  "dedup_evict_loop now s =
     (if length (ds_seen s) > ds_capacity s
      then if ds_head s < length (ds_order s)
           then dedup_evict_loop now (dedup_evict_one now s)
           else None
      else Some s)"
  by pat_completeness auto
termination
  by (relation "measure (\<lambda>(now, s). length (ds_order s) - ds_head s)") auto

declare dedup_evict_loop.simps [simp del]

definition dedup_compact :: "dedup_Set \<Rightarrow> dedup_Set" where
  "dedup_compact s =
     (if ds_head s > 0 \<and> ds_head s \<ge> length (ds_order s) then s\<lparr>ds_order := [], ds_head := 0\<rparr>
      else if ds_head s > ds_order_cap s div 2
           then s\<lparr>ds_order := drop (ds_head s) (ds_order s), ds_head := 0\<rparr>
           else s)"

definition dedup_evictLocked :: "gotime \<Rightarrow> dedup_Set \<Rightarrow> dedup_Set option" where
  "dedup_evictLocked now s = map_option dedup_compact (dedup_evict_loop now s)"

text \<open>\<open>append\<close>: the slice grows by the runtime's policy when it is full.\<close>

definition dedup_append :: "(nat \<Rightarrow> nat) \<Rightarrow> dedup_entry \<Rightarrow> dedup_Set \<Rightarrow> dedup_Set" where
  "dedup_append grow e s =
     s\<lparr>ds_order := ds_order s @ [e],
       ds_order_cap := (if length (ds_order s) < ds_order_cap s then ds_order_cap s
                        else max (length (ds_order s) + 1) (grow (ds_order_cap s)))\<rparr>"

definition dedup_CompareAndAdd ::
  "(nat \<Rightarrow> nat) \<Rightarrow> gotime \<Rightarrow> string \<Rightarrow> string \<Rightarrow> dedup_Set \<Rightarrow> (dedup_Result \<times> dedup_Set) option" where
  "dedup_CompareAndAdd grow now key val s =
     (let keyDigest = sha256 key; valueDigest = sha256 val in
      case map_of (ds_seen s) keyDigest of
        Some prior \<Rightarrow>
          Some (if prior = valueDigest then ResultExact else ResultConflict,
                s\<lparr>ds_hits := ds_hits s + 1\<rparr>)
      | None \<Rightarrow>
          (let s1 = s\<lparr>ds_seen := AList.update keyDigest valueDigest (ds_seen s)\<rparr>;
               s2 = dedup_append grow \<lparr>de_key = keyDigest, de_insertedAt = now\<rparr> s1
           in map_option (\<lambda>s3. (ResultNew, s3)) (dedup_evictLocked now s2)))"

definition dedup_Add ::
  "(nat \<Rightarrow> nat) \<Rightarrow> gotime \<Rightarrow> string \<Rightarrow> dedup_Set \<Rightarrow> (bool \<times> dedup_Set) option" where
  "dedup_Add grow now key s =
     map_option (\<lambda>(r, s'). (r = ResultNew, s')) (dedup_CompareAndAdd grow now key [] s)"

definition dedup_Len :: "dedup_Set \<Rightarrow> nat" where
  "dedup_Len s = length (ds_seen s)"

definition dedup_TakeYoungestEvictionAge :: "dedup_Set \<Rightarrow> (duration \<times> bool) \<times> dedup_Set" where
  "dedup_TakeYoungestEvictionAge s =
     ((ds_pendingEvictionAge s, ds_hasPendingEviction s),
      s\<lparr>ds_pendingEvictionAge := 0, ds_hasPendingEviction := False\<rparr>)"

section \<open>Invariant and abstraction\<close>

definition dedup_live :: "dedup_Set \<Rightarrow> digest list" where
  "dedup_live s = map de_key (drop (ds_head s) (ds_order s))"

definition dedup_wf :: "dedup_Set \<Rightarrow> bool" where
  \<comment> \<open>everything but the size bound, which fails for a moment inside \<open>CompareAndAdd\<close>\<close>
  "dedup_wf s \<longleftrightarrow> 0 < ds_capacity s \<and> gomap_ok (ds_seen s) \<and> distinct (dedup_live s) \<and>
     set (dedup_live s) = fst ` set (ds_seen s) \<and> ds_head s \<le> length (ds_order s)"

definition dedup_ok :: "dedup_Set \<Rightarrow> bool" where
  "dedup_ok s \<longleftrightarrow> dedup_wf s \<and> length (ds_seen s) \<le> ds_capacity s"

definition dedup_abs :: "dedup_Set \<Rightarrow> (digest \<times> digest) list" where
  "dedup_abs s = map (\<lambda>k. (k, the (map_of (ds_seen s) k))) (dedup_live s)"

text \<open>The specification of one operation on the remembered entries.\<close>

definition dedup_spec ::
  "nat \<Rightarrow> digest \<Rightarrow> digest \<Rightarrow> (digest \<times> digest) list \<Rightarrow> dedup_Result \<times> (digest \<times> digest) list" where
  "dedup_spec c k v xs =
     (case map_of xs k of
        Some p \<Rightarrow> (if p = v then ResultExact else ResultConflict, xs)
      | None \<Rightarrow> (ResultNew, lastn c (xs @ [(k, v)])))"

lemma dedup_live_length:
  assumes "dedup_wf s"
  shows "length (dedup_live s) = length (ds_seen s)"
  using assms gomap_set_card [of "ds_seen s"] distinct_card [of "dedup_live s"]
  by (simp add: dedup_wf_def)

lemma dedup_abs_length: "dedup_wf s \<Longrightarrow> length (dedup_abs s) = length (ds_seen s)"
  by (simp add: dedup_abs_def dedup_live_length)

lemma dedup_abs_map_of:
  assumes "dedup_wf s"
  shows "map_of (dedup_abs s) = map_of (ds_seen s)"
proof
  fix k
  have "map_of (dedup_abs s) k =
      (if k \<in> set (dedup_live s) then Some (the (map_of (ds_seen s) k)) else None)"
    by (simp add: dedup_abs_def map_of_map_restrict restrict_map_def)
  also have "\<dots> = map_of (ds_seen s) k"
    using assms by (auto simp: dedup_wf_def map_of_absent)
  finally show "map_of (dedup_abs s) k = map_of (ds_seen s) k" .
qed

lemma dedup_New_ok: "dedup_ok (dedup_New c)"
  by (auto simp: dedup_New_def dedup_ok_def dedup_wf_def dedup_live_def Let_def
      dedup_defaultCapacity_def)

section \<open>Eviction\<close>

lemma dedup_evict_one_live:
  assumes "ds_head s < length (ds_order s)"
  shows "dedup_live (dedup_evict_one now s) = tl (dedup_live s)"
    and "dedup_live s = de_key (ds_order s ! ds_head s) # tl (dedup_live s)"
  using assms by (simp_all add: dedup_live_def Cons_nth_drop_Suc [symmetric])

lemma dedup_evict_one_wf:
  assumes "dedup_wf s" and "ds_head s < length (ds_order s)"
  shows "dedup_wf (dedup_evict_one now s)" and "dedup_abs (dedup_evict_one now s) = tl (dedup_abs s)"
proof -
  let ?k = "de_key (ds_order s ! ds_head s)"
  note live = dedup_evict_one_live [OF assms(2)]
  from assms(1) live(2) have k: "?k \<notin> set (tl (dedup_live s))" "distinct (tl (dedup_live s))"
    "set (tl (dedup_live s)) = fst ` set (ds_seen s) - {?k}"
    unfolding dedup_wf_def by (metis distinct.simps(2), metis distinct_tl,
        metis Diff_insert_absorb distinct.simps(2) list.simps(15))
  then show "dedup_wf (dedup_evict_one now s)"
    using assms live(1) unfolding dedup_wf_def by simp
  have "map (\<lambda>k. (k, the (map_of (AList.delete ?k (ds_seen s)) k))) (tl (dedup_live s)) =
      map (\<lambda>k. (k, the (map_of (ds_seen s) k))) (tl (dedup_live s))"
    using k(1) by (auto simp: delete_conv)
  then show "dedup_abs (dedup_evict_one now s) = tl (dedup_abs s)"
    using live(1) by (simp add: dedup_abs_def map_tl)
qed

lemma dedup_loop_needs_entry:
  assumes "dedup_wf s" and "length (ds_seen s) > ds_capacity s"
  shows "ds_head s < length (ds_order s)"
  using dedup_live_length [OF assms(1)] assms(2) by (simp add: dedup_live_def)

lemma dedup_evict_loop_spec:
  assumes "dedup_wf s"
  shows "\<exists>s'. dedup_evict_loop now s = Some s' \<and> dedup_ok s' \<and> ds_capacity s' = ds_capacity s \<and>
    dedup_abs s' = lastn (ds_capacity s) (dedup_abs s)"
  using assms
proof (induction now s rule: dedup_evict_loop.induct)
  case (1 now s)
  show ?case
  proof (cases "length (ds_seen s) > ds_capacity s")
    case False
    with 1 show ?thesis
      by (auto simp: dedup_evict_loop.simps [of now s] dedup_ok_def dedup_abs_length)
  next
    case True
    note hd = dedup_loop_needs_entry [OF "1.prems" True]
    note step = dedup_evict_one_wf [OF "1.prems" hd]
    from "1.IH" [OF True hd] step obtain s' where
      s': "dedup_evict_loop now (dedup_evict_one now s) = Some s'" "dedup_ok s'"
      "ds_capacity s' = ds_capacity s"
      "dedup_abs s' = lastn (ds_capacity s) (tl (dedup_abs s))" by auto
    have "lastn (ds_capacity s) (tl (dedup_abs s)) = lastn (ds_capacity s) (dedup_abs s)"
      using True dedup_abs_length [OF "1.prems"] by (simp add: lastn_tl)
    with s' True hd show ?thesis by (auto simp: dedup_evict_loop.simps [of now s])
  qed
qed

lemma dedup_compact_same [simp]:
  "dedup_live (dedup_compact s) = dedup_live s" "ds_seen (dedup_compact s) = ds_seen s"
  "ds_capacity (dedup_compact s) = ds_capacity s"
  by (auto simp: dedup_compact_def dedup_live_def)

lemma dedup_compact_abs [simp]: "dedup_abs (dedup_compact s) = dedup_abs s"
  by (simp add: dedup_abs_def)

lemma dedup_compact_ok: "dedup_ok s \<Longrightarrow> dedup_ok (dedup_compact s)"
  by (auto simp: dedup_ok_def dedup_wf_def) (auto simp: dedup_compact_def)

section \<open>Refinement\<close>

lemma dedup_insert_wf:
  fixes k v now grow
  defines "ins \<equiv> \<lambda>s. dedup_append grow \<lparr>de_key = k, de_insertedAt = now\<rparr>
    (s\<lparr>ds_seen := AList.update k v (ds_seen s)\<rparr>)"
  assumes "dedup_wf s" and "map_of (ds_seen s) k = None"
  shows "dedup_wf (ins s)" and "dedup_abs (ins s) = dedup_abs s @ [(k, v)]"
    and "ds_capacity (ins s) = ds_capacity s"
proof -
  have live: "dedup_live (ins s) = dedup_live s @ [k]"
    using assms(2) by (simp add: ins_def dedup_append_def dedup_live_def dedup_wf_def)
  have seen: "ds_seen (ins s) = AList.update k v (ds_seen s)"
    by (simp add: ins_def dedup_append_def)
  have k: "k \<notin> fst ` set (ds_seen s)" using assms(3) by (simp add: map_of_eq_None_iff)
  show cap: "ds_capacity (ins s) = ds_capacity s" by (simp add: ins_def dedup_append_def)
  show "dedup_wf (ins s)"
    using assms(2) k live seen cap
    by (auto simp: dedup_wf_def ins_def dedup_append_def)
  have "\<forall>x \<in> set (dedup_live s). x \<noteq> k" using assms(2) k by (auto simp: dedup_wf_def)
  then show "dedup_abs (ins s) = dedup_abs s @ [(k, v)]"
    using live seen by (auto simp: dedup_abs_def update_conv)
qed

lemma dedup_evictLocked_spec:
  assumes "dedup_wf s"
  shows "\<exists>s'. dedup_evictLocked now s = Some s' \<and> dedup_ok s' \<and> ds_capacity s' = ds_capacity s \<and>
    dedup_abs s' = lastn (ds_capacity s) (dedup_abs s)"
  using dedup_evict_loop_spec [OF assms, of now]
  by (auto simp: dedup_evictLocked_def intro!: dedup_compact_ok)

lemma dedup_CompareAndAdd_step:
  assumes "dedup_ok s"
  shows "\<exists>r s'. dedup_CompareAndAdd grow now key val s = Some (r, s') \<and> dedup_ok s' \<and>
    ds_capacity s' = ds_capacity s \<and>
    (r, dedup_abs s') = dedup_spec (ds_capacity s) (sha256 key) (sha256 val) (dedup_abs s)"
proof (cases "map_of (ds_seen s) (sha256 key)")
  case None
  from assms have wf: "dedup_wf s" by (simp add: dedup_ok_def)
  note ins = dedup_insert_wf [OF wf None, of grow now "sha256 val"]
  from dedup_evictLocked_spec [OF ins(1), of now] ins(2,3) None show ?thesis
    by (auto simp: dedup_CompareAndAdd_def dedup_spec_def dedup_abs_map_of [OF wf] Let_def)
next
  case (Some p)
  from assms have wf: "dedup_wf s" by (simp add: dedup_ok_def)
  let ?s = "s\<lparr>ds_hits := ds_hits s + 1\<rparr>"
  have "dedup_ok ?s" "dedup_abs ?s = dedup_abs s"
    using assms by (simp_all add: dedup_ok_def dedup_wf_def dedup_abs_def dedup_live_def)
  with Some show ?thesis
    by (auto simp: dedup_CompareAndAdd_def dedup_spec_def dedup_abs_map_of [OF wf] Let_def)
qed

text \<open>
  C17. \<open>CompareAndAdd\<close> refines the bounded first-in-first-out list of remembered (key, value)
  digests: it never panics, keeps the invariant and the capacity, answers \<open>Exact\<close> or
  \<open>Conflict\<close> for a remembered key without changing the remembered entries, and otherwise
  answers \<open>New\<close> and keeps the last \<open>capacity\<close> entries, whatever the slice compaction does.
\<close>

theorem dedup_CompareAndAdd_refines:
  assumes "dedup_ok s"
  shows "\<exists>r s'. dedup_CompareAndAdd grow now key val s = Some (r, s') \<and> dedup_ok s' \<and>
    ds_capacity s' = ds_capacity s \<and>
    (r, dedup_abs s') = dedup_spec (ds_capacity s) (sha256 key) (sha256 val) (dedup_abs s)"
  using assms by (rule dedup_CompareAndAdd_step)

theorem dedup_CompareAndAdd_refines_witness:
  "dedup_ok (dedup_New 2) \<and>
   (\<exists>r s'. dedup_CompareAndAdd (\<lambda>n. 2 * n) 7 ''k'' ''v'' (dedup_New 2) = Some (r, s') \<and>
      dedup_ok s' \<and> r = ResultNew)"
  using dedup_New_ok [of 2]
    dedup_CompareAndAdd_refines [OF dedup_New_ok [of 2], of "\<lambda>n. 2 * n" 7 "''k''" "''v''"]
  by (auto simp: dedup_spec_def dedup_abs_def dedup_live_def dedup_New_def Let_def)

section \<open>The retention guarantee\<close>

text \<open>A run of further operations: the time and the key and value of each call.\<close>

fun dedup_run :: "(nat \<Rightarrow> nat) \<Rightarrow> (gotime \<times> string \<times> string) list \<Rightarrow> dedup_Set \<Rightarrow> dedup_Set option" where
  "dedup_run grow [] s = Some s"
| "dedup_run grow ((t, k, v) # ops) s =
     (case dedup_CompareAndAdd grow t k v s of
        None \<Rightarrow> None | Some (r, s') \<Rightarrow> dedup_run grow ops s')"

definition dedup_within :: "digest \<Rightarrow> nat \<Rightarrow> (digest \<times> digest) list \<Rightarrow> bool" where
  \<comment> \<open>the key is remembered and fewer than \<open>m\<close> entries are younger\<close>
  "dedup_within k m xs \<longleftrightarrow> (\<exists>pre v suf. xs = pre @ (k, v) # suf \<and> length suf < m)"

lemma dedup_within_key: "dedup_within k m xs \<Longrightarrow> map_of xs k \<noteq> None"
  by (auto simp: dedup_within_def map_of_eq_None_iff)

lemma dedup_within_lastn:
  assumes "dedup_within k m xs" and "m \<le> c"
  shows "dedup_within k m (lastn c xs)"
proof -
  obtain pre v suf where xs: "xs = pre @ (k, v) # suf" "length suf < m"
    using assms(1) by (auto simp: dedup_within_def)
  then have "lastn c xs = drop (length xs - c) pre @ (k, v) # suf"
    using assms(2) by (simp add: lastn_def)
  with xs(2) show ?thesis by (auto simp: dedup_within_def)
qed

lemma dedup_within_spec:
  assumes "dedup_within k m xs" and "Suc m \<le> c"
  shows "dedup_within k (Suc m) (snd (dedup_spec c k' v' xs))"
proof -
  have "dedup_within k (Suc m) xs" and "dedup_within k (Suc m) (xs @ [(k', v')])"
    using assms(1) unfolding dedup_within_def by (force, force)
  with assms(2) show ?thesis
    by (auto simp: dedup_spec_def intro: dedup_within_lastn split: option.splits)
qed

lemma dedup_run_within:
  assumes "dedup_ok s" and "dedup_within k m (dedup_abs s)" and "m + length ops \<le> ds_capacity s"
  shows "\<exists>s'. dedup_run grow ops s = Some s' \<and> dedup_ok s' \<and>
    dedup_within k (m + length ops) (dedup_abs s')"
  using assms
proof (induction ops arbitrary: s m)
  case Nil
  then show ?case by simp
next
  case (Cons x ops)
  obtain t k' v' where x: "x = (t, k', v')" by (cases x)
  from dedup_CompareAndAdd_step [OF Cons.prems(1), of grow t k' v'] obtain r s' where
    s': "dedup_CompareAndAdd grow t k' v' s = Some (r, s')" "dedup_ok s'"
      "ds_capacity s' = ds_capacity s"
      "(r, dedup_abs s') = dedup_spec (ds_capacity s) (sha256 k') (sha256 v') (dedup_abs s)"
    by blast
  have "dedup_within k (Suc m) (dedup_abs s')"
    using dedup_within_spec [OF Cons.prems(2), of "ds_capacity s" "sha256 k'" "sha256 v'"]
      s'(4) Cons.prems(3) by (metis add_Suc_right add_leD1 add_Suc length_Cons snd_conv)
  from Cons.IH [OF s'(2) this] Cons.prems(3) s' x show ?case by auto
qed

lemma dedup_Add_new_within:
  assumes "dedup_ok s" and "dedup_Add grow t k s = Some (True, s1)"
  shows "dedup_ok s1" and "ds_capacity s1 = ds_capacity s"
    and "dedup_within (sha256 k) 1 (dedup_abs s1)"
proof -
  from dedup_CompareAndAdd_step [OF assms(1), of grow t k "[]"] assms(2)
  have s1: "dedup_ok s1" "ds_capacity s1 = ds_capacity s"
    "(ResultNew, dedup_abs s1) = dedup_spec (ds_capacity s) (sha256 k) (sha256 []) (dedup_abs s)"
    by (auto simp: dedup_Add_def)
  then show "dedup_ok s1" "ds_capacity s1 = ds_capacity s" by blast+
  from s1(3) have "dedup_abs s1 = lastn (ds_capacity s) (dedup_abs s @ [(sha256 k, sha256 [])])"
    by (auto simp: dedup_spec_def split: option.splits if_splits)
  moreover have "0 < ds_capacity s" using assms(1) by (simp add: dedup_ok_def dedup_wf_def)
  moreover have "dedup_within (sha256 k) 1 (dedup_abs s @ [(sha256 k, sha256 [])])"
    by (auto simp: dedup_within_def)
  ultimately show "dedup_within (sha256 k) 1 (dedup_abs s1)"
    using dedup_within_lastn by simp
qed

lemma dedup_Add_known:
  assumes "dedup_ok s" and "dedup_within (sha256 k) m (dedup_abs s)"
  shows "\<exists>s'. dedup_Add grow t k s = Some (False, s')"
proof -
  from assms(2) obtain p where "map_of (dedup_abs s) (sha256 k) = Some p"
    using dedup_within_key by blast
  with dedup_CompareAndAdd_step [OF assms(1), of grow t k "[]"] show ?thesis
    by (auto simp: dedup_Add_def dedup_spec_def split: if_splits)
qed

text \<open>
  The retention guarantee that keeps a poll overlap from being counted twice: a key that
  \<open>Add\<close> reported as new is still reported as a duplicate after any run of fewer than
  \<open>capacity\<close> further calls (with any keys, values, clocks and slice growth), and none of
  these calls panics.
\<close>

theorem dedup_retains_new_key:
  assumes "dedup_ok s" and "dedup_Add grow t k s = Some (True, s1)"
    and "length ops < ds_capacity s"
  shows "\<exists>s2 s3. dedup_run grow ops s1 = Some s2 \<and> dedup_Add grow t' k s2 = Some (False, s3)"
proof -
  note new = dedup_Add_new_within [OF assms(1,2)]
  obtain s2 where "dedup_run grow ops s1 = Some s2" "dedup_ok s2"
    "dedup_within (sha256 k) (1 + length ops) (dedup_abs s2)"
    using dedup_run_within [OF new(1,3), of ops grow] new(2) assms(3) by auto
  with dedup_Add_known show ?thesis by blast
qed

theorem dedup_retains_new_key_witness:
  "\<exists>s1 s2 s3. dedup_Add Suc 1 ''a'' (dedup_New 2) = Some (True, s1) \<and>
     dedup_run Suc [(2, ''b'', [])] s1 = Some s2 \<and> dedup_Add Suc 3 ''a'' s2 = Some (False, s3)"
proof -
  have cap: "length [(2 :: int, ''b'', [] :: string)] < ds_capacity (dedup_New 2)"
    by (simp add: dedup_New_def Let_def)
  from dedup_CompareAndAdd_step [OF dedup_New_ok, of Suc 1 "''a''" "[]" 2]
  obtain s1 where s1: "dedup_Add Suc 1 ''a'' (dedup_New 2) = Some (True, s1)"
    by (auto simp: dedup_Add_def dedup_spec_def dedup_abs_def dedup_live_def dedup_New_def Let_def)
  from dedup_retains_new_key [OF dedup_New_ok s1 cap, of 3] s1 show ?thesis by blast
qed

end
