(* ===== verification/Go_Strings.thy ===== *)
theory Go_Strings
  imports Go_Prelude
begin

text \<open>
  The parts of \<open>strings\<close>, \<open>strconv\<close> and \<open>fmt\<close> the sources use on byte strings: searching,
  trimming, decimal numbers and zero-padded formatting, with the print/parse round trip of a
  zero-padded number.
\<close>

section \<open>Searching, trimming and numbers in strings\<close>

fun strings_IndexByte :: "string \<Rightarrow> char \<Rightarrow> nat option" where
  "strings_IndexByte [] c = None"
| "strings_IndexByte (x # xs) c = (if x = c then Some 0 else map_option Suc (strings_IndexByte xs c))"

definition strings_LastIndexByte :: "string \<Rightarrow> char \<Rightarrow> nat option" where
  "strings_LastIndexByte s c = map_option (\<lambda>i. length s - Suc i) (strings_IndexByte (rev s) c)"

definition strings_TrimPrefix :: "string \<Rightarrow> string \<Rightarrow> string" where
  "strings_TrimPrefix s p = (case strings_CutPrefix s p of Some t \<Rightarrow> t | None \<Rightarrow> s)"

text \<open>
  \<open>strings.TrimSpace\<close> removes the UTF-8 encodings of the runes with Unicode's White Space
  property from both ends. \<open>strings.ToLower\<close> is modelled on ASCII letters.
\<close>

definition space_encodings :: "string list" where
  "space_encodings = map (map (char_of :: nat \<Rightarrow> char))
     ([[9], [10], [11], [12], [13], [32], [194, 133], [194, 160], [225, 154, 128]]
      @ map (\<lambda>x. [226, 128, x]) [128, 129, 130, 131, 132, 133, 134, 135, 136, 137, 138, 168, 169, 175]
      @ [[226, 129, 159], [227, 128, 128]])"

definition cut_space_front :: "string \<Rightarrow> string option" where
  "cut_space_front s =
     (case List.find (\<lambda>e. strings_HasPrefix s e) space_encodings of
        None \<Rightarrow> None | Some e \<Rightarrow> Some (drop (length e) s))"

definition cut_space_back :: "string \<Rightarrow> string option" where
  "cut_space_back s =
     (case List.find (\<lambda>e. strings_HasSuffix s e) space_encodings of
        None \<Rightarrow> None | Some e \<Rightarrow> Some (take (length s - length e) s))"

lemma space_encodings_nonempty: "e \<in> set space_encodings \<Longrightarrow> e \<noteq> []"
  by (auto simp: space_encodings_def)

lemma cut_space_front_shorter: "cut_space_front s = Some t \<Longrightarrow> length t < length s"
  by (auto simp: cut_space_front_def find_Some_iff HasPrefix_iff split: option.splits
      dest!: nth_mem space_encodings_nonempty)

lemma cut_space_back_shorter: "cut_space_back s = Some t \<Longrightarrow> length t < length s"
  by (auto simp: cut_space_back_def find_Some_iff HasSuffix_iff split: option.splits
      dest!: nth_mem space_encodings_nonempty)

function trim_front :: "string \<Rightarrow> string" where
  "trim_front s = (case cut_space_front s of None \<Rightarrow> s | Some t \<Rightarrow> trim_front t)"
  by pat_completeness auto
termination
  by (relation "measure length") (auto dest: cut_space_front_shorter)

function trim_back :: "string \<Rightarrow> string" where
  "trim_back s = (case cut_space_back s of None \<Rightarrow> s | Some t \<Rightarrow> trim_back t)"
  by pat_completeness auto
termination
  by (relation "measure length") (auto dest: cut_space_back_shorter)

declare trim_front.simps [simp del] trim_back.simps [simp del]

definition strings_TrimSpace :: "string \<Rightarrow> string" where
  "strings_TrimSpace s = trim_back (trim_front s)"

text \<open>A string that starts and ends with a visible ASCII character is its own trimming.\<close>

definition visible_ascii :: "char \<Rightarrow> bool" where
  "visible_ascii c \<longleftrightarrow> 32 < (of_char c :: nat) \<and> (of_char c :: nat) < 128"

lemma space_encodings_not_visible:
  "e \<in> set space_encodings \<Longrightarrow> \<not> visible_ascii (hd e) \<and> \<not> visible_ascii (last e)"
  by (auto simp: space_encodings_def visible_ascii_def of_char_of)

lemma cut_space_front_visible: "visible_ascii c \<Longrightarrow> cut_space_front (c # s) = None"
  using space_encodings_not_visible space_encodings_nonempty
  by (fastforce simp: cut_space_front_def find_None_iff HasPrefix_iff neq_Nil_conv split: option.splits)

lemma cut_space_back_visible:
  assumes "visible_ascii (last s)" "s \<noteq> []"
  shows "cut_space_back s = None"
proof -
  have "\<not> strings_HasSuffix s e" if "e \<in> set space_encodings" for e
    using assms space_encodings_not_visible [OF that] space_encodings_nonempty [OF that]
    by (auto simp: HasSuffix_iff)
  then show ?thesis
    by (auto simp: cut_space_back_def find_Some_iff split: option.splits dest!: nth_mem)
qed

lemma TrimSpace_visible:
  "visible_ascii c \<Longrightarrow> visible_ascii (last (c # s)) \<Longrightarrow> strings_TrimSpace (c # s) = c # s"
  by (simp add: strings_TrimSpace_def trim_front.simps [of "c # s"] trim_back.simps [of "c # s"]
      cut_space_front_visible cut_space_back_visible)

definition ascii_lower :: "char \<Rightarrow> char" where
  "ascii_lower c = (if 65 \<le> (of_char c :: nat) \<and> (of_char c :: nat) \<le> 90
     then char_of ((of_char c :: nat) + 32) else c)"

definition strings_ToLower :: "string \<Rightarrow> string" where
  "strings_ToLower s = map ascii_lower s"

definition is_digit :: "char \<Rightarrow> bool" where
  "is_digit c \<longleftrightarrow> 48 \<le> (of_char c :: nat) \<and> (of_char c :: nat) \<le> 57"

fun dec_value :: "string \<Rightarrow> nat" where
  "dec_value [] = 0"
| "dec_value (c # s) = (of_char c - 48) * 10 ^ length s + dec_value s"

text \<open>\<open>utf8.ValidString\<close>: well-formed sequences of one to four bytes, no surrogates, no overlong form.\<close>

definition in_range :: "nat \<Rightarrow> nat \<Rightarrow> char \<Rightarrow> bool" where
  "in_range lo hi c \<longleftrightarrow> lo \<le> of_char c \<and> (of_char c :: nat) \<le> hi"

abbreviation continuation :: "char \<Rightarrow> bool" where
  "continuation \<equiv> in_range 128 191"

fun utf8_valid :: "string \<Rightarrow> bool" where
  "utf8_valid [] = True"
| "utf8_valid (a # s) =
     (if in_range 0 127 a then utf8_valid s
      else case s of
        [] \<Rightarrow> False
      | b # s2 \<Rightarrow>
          (if in_range 194 223 a then continuation b \<and> utf8_valid s2
           else case s2 of
             [] \<Rightarrow> False
           | c # s3 \<Rightarrow>
               (if in_range 224 239 a
                then in_range (if of_char a = (224 :: nat) then 160 else 128)
                       (if of_char a = (237 :: nat) then 159 else 191) b \<and> continuation c \<and> utf8_valid s3
                else case s3 of
                  [] \<Rightarrow> False
                | d # s4 \<Rightarrow>
                    in_range 240 244 a \<and>
                    in_range (if of_char a = (240 :: nat) then 144 else 128)
                      (if of_char a = (244 :: nat) then 143 else 191) b \<and>
                    continuation c \<and> continuation d \<and> utf8_valid s4)))"

lemma utf8_valid_ascii: "list_all (in_range 0 127) s \<Longrightarrow> utf8_valid s"
  by (induction s) auto

text \<open>\<open>strconv.ParseUint(s, 10, bits)\<close>: no sign, at least one digit, the value in range.\<close>

definition strconv_ParseUint :: "nat \<Rightarrow> string \<Rightarrow> nat option" where
  "strconv_ParseUint bits s =
     (if s \<noteq> [] \<and> list_all is_digit s \<and> dec_value s < 2 ^ bits then Some (dec_value s) else None)"

text \<open>Decimal formatting, and \<open>fmt\<close>'s zero-padded \<open>%0<w>d\<close>.\<close>

fun dec_digits :: "nat \<Rightarrow> string" where
  "dec_digits x = (if x < 10 then [char_of (48 + x)] else dec_digits (x div 10) @ [char_of (48 + x mod 10)])"

declare dec_digits.simps [simp del]

definition zero_padded :: "nat \<Rightarrow> nat \<Rightarrow> string" where
  "zero_padded w x = replicate (w - length (dec_digits x)) (CHR ''0'') @ dec_digits x"

lemma dec_value_append: "dec_value (s @ t) = dec_value s * 10 ^ length t + dec_value t"
  by (induction s) (auto simp: algebra_simps power_add)

lemma of_char_digit: "d < 10 \<Longrightarrow> (of_char (char_of (48 + d :: nat)) :: nat) = 48 + d"
  by (simp add: of_char_of)

lemma dec_value_digits [simp]: "dec_value (dec_digits x) = x"
proof (induction x rule: dec_digits.induct)
  case (1 x)
  show ?case
  proof (cases "x < 10")
    case True
    then show ?thesis
      using of_char_digit [of x] by (simp add: dec_digits.simps [of x])
  next
    case False
    have "dec_value [char_of (48 + x mod 10)] = x mod 10"
      using of_char_digit [of "x mod 10"] by simp
    with False 1 show ?thesis by (simp add: dec_digits.simps [of x] dec_value_append)
  qed
qed

lemma dec_digits_are_digits: "list_all is_digit (dec_digits x)"
proof (induction x rule: dec_digits.induct)
  case (1 x)
  have "is_digit (char_of (48 + d))" if "d < 10" for d :: nat
    using that of_char_digit [OF that] by (simp add: is_digit_def)
  with 1 show ?case by (cases "x < 10") (auto simp: dec_digits.simps [of x])
qed

lemma dec_value_zeros [simp]: "dec_value (replicate k (CHR ''0'')) = 0"
  by (induction k) simp_all

lemma zero_padded_value [simp]: "dec_value (zero_padded w x) = x"
  by (simp add: zero_padded_def dec_value_append)

lemma zero_padded_digits: "list_all is_digit (zero_padded w x)"
proof -
  have "is_digit (CHR ''0'')" by (simp add: is_digit_def)
  then show ?thesis
    using dec_digits_are_digits [of x] by (auto simp: zero_padded_def list_all_iff)
qed

lemma length_dec_digits: "x < 10 ^ k \<Longrightarrow> 0 < k \<Longrightarrow> length (dec_digits x) \<le> k"
proof (induction x arbitrary: k rule: dec_digits.induct)
  case (1 x)
  show ?case
  proof (cases "x < 10")
    case True
    with 1 show ?thesis by (simp add: dec_digits.simps [of x])
  next
    case False
    with "1.prems" obtain j where k: "k = Suc j" by (cases k) auto
    with "1.prems" False have j: "0 < j" by (cases j) auto
    from k "1.prems" have "x div 10 < 10 ^ j" by (simp add: less_mult_imp_div_less mult.commute)
    with 1 False k j show ?thesis by (simp add: dec_digits.simps [of x])
  qed
qed

lemma length_zero_padded: "x < 10 ^ w \<Longrightarrow> 0 < w \<Longrightarrow> length (zero_padded w x) = w"
  using length_dec_digits by (simp add: zero_padded_def)

lemma ParseUint_zero_padded:
  "x < 2 ^ bits \<Longrightarrow> strconv_ParseUint bits (zero_padded w x) = Some x"
proof -
  have "zero_padded w x \<noteq> []" by (simp add: zero_padded_def dec_digits.simps [of x])
  then show "x < 2 ^ bits \<Longrightarrow> ?thesis"
    by (simp add: strconv_ParseUint_def zero_padded_digits)
qed

text \<open>\<open>strings.Split\<close> and \<open>strings.Join\<close> for a one-byte separator.\<close>

fun split_byte :: "char \<Rightarrow> string \<Rightarrow> string list" where
  "split_byte c [] = [[]]"
| "split_byte c (x # s) = (if x = c then [] # split_byte c s else (x # hd (split_byte c s)) # tl (split_byte c s))"

fun join_byte :: "char \<Rightarrow> string list \<Rightarrow> string" where
  "join_byte c [] = []"
| "join_byte c [p] = p"
| "join_byte c (p # q # ps) = p @ c # join_byte c (q # ps)"

lemma split_byte_nonempty [simp]: "split_byte c s \<noteq> []"
  by (induction s) auto

lemma join_split [simp]: "join_byte c (split_byte c s) = s"
proof (induction s)
  case (Cons x s)
  obtain p ps where "split_byte c s = p # ps" by (cases "split_byte c s") auto
  with Cons show ?case by (cases ps) auto
qed simp

lemma join_byte_take:
  assumes "0 < k" "k \<le> length ps"
  shows "\<exists>t. join_byte c ps = join_byte c (take k ps) @ t \<and> (t = [] \<or> (\<exists>u. t = c # u))"
  using assms
proof (induction ps arbitrary: k rule: join_byte.induct [of _ c])
  case (3 c p q ps)
  show ?case
  proof (cases "k = 1")
    case False
    with 3(2,3) obtain j where k: "k = Suc j" "0 < j" "j \<le> length (q # ps)" by (cases k) auto
    from 3(1) [OF k(2,3)] obtain t where "join_byte c (q # ps) = join_byte c (take j (q # ps)) @ t"
      "t = [] \<or> (\<exists>u. t = c # u)" by blast
    with k show ?thesis by (cases j) auto
  qed auto
qed auto

end
