(* ===== verification/Acl_Policy.thy ===== *)
theory Acl_Policy
  imports Go_Strings Sha256
begin

text \<open>
  \<open>src/internal/aclpolicy/aclpolicy.go\<close>, \<open>match.go\<close> and \<open>version.go\<close>: compiling a tailnet
  policy document and deciding, three-valued, whether an observed connection is explained by it.
  The selectors of the code are the constructors of \<open>selector\<close>; \<open>matchSide\<close>,
  \<open>matchPorts\<close>, \<open>evaluateOneWay\<close> and \<open>Evaluate\<close> are the code's loops with their
  accumulators. The parsers of \<open>net/netip\<close>, the HuJSON standardizer and the JSON decoder are
  parameters (\<open>acl_lib\<close>); \<open>netip.Prefix.Contains\<close> is defined on words. The specification is
  Kleene's three-valued logic: a rule is the conjunction of its sides and ports, a side the
  disjunction of its selectors, and a policy the disjunction of its rules in both directions.
\<close>

unbundle bit_operations_syntax

section \<open>Addresses and prefixes\<close>

datatype netip_Addr = Addr4 "32 word" | Addr6 "128 word" string

datatype netip_Prefix = Prefix netip_Addr nat

fun netip_BitLen :: "netip_Addr \<Rightarrow> nat" where
  "netip_BitLen (Addr4 a) = 32"
| "netip_BitLen (Addr6 a z) = 128"

fun netip_withoutZone :: "netip_Addr \<Rightarrow> netip_Addr" where
  "netip_withoutZone (Addr4 a) = Addr4 a"
| "netip_withoutZone (Addr6 a z) = Addr6 a []"

definition netip_PrefixFrom :: "netip_Addr \<Rightarrow> nat \<Rightarrow> netip_Prefix" where
  "netip_PrefixFrom a bits = Prefix (netip_withoutZone a) bits"

fun netip_Contains :: "netip_Prefix \<Rightarrow> netip_Addr \<Rightarrow> bool" where
  "netip_Contains (Prefix (Addr4 p) bits) (Addr4 a) \<longleftrightarrow>
     bits \<le> 32 \<and> drop_bit (32 - bits) (a XOR p) = 0"
| "netip_Contains (Prefix (Addr6 p pz) bits) (Addr6 a z) \<longleftrightarrow>
     bits \<le> 128 \<and> z = [] \<and> drop_bit (128 - bits) (a XOR p) = 0"
| "netip_Contains _ _ \<longleftrightarrow> False"

section \<open>Data model\<close>

datatype Verdict = Undetermined | Permitted | NoRule

datatype tri = triNo | triYes | triUnknown

record Directory =
  Roles :: "(string, string) gomap"

record Endpoint =
  ep_User :: string
  ep_Tags :: "string list"
  ep_Addr :: "netip_Addr option"

record Conn =
  c_Src :: Endpoint
  c_Dst :: Endpoint
  c_Proto :: string
  c_DstPort :: "16 word"
  c_HasPort :: bool
  c_SrcPort :: "16 word"
  c_HasSrcPort :: bool
  c_IsExit :: bool

record acl_Result =
  res_Verdict :: Verdict
  res_Rule :: int
  res_Reversed :: bool
  res_Reason :: string

datatype selector =
    anySelector
  | unknownSelector string
  | tagSelector string
  | userSetSelector "string list" string
  | roleSelector "string list" string Directory
  | memberSelector Directory
  | selfSelector
  | internetSelector
  | prefixSelector "netip_Prefix list"

record portSpec =
  ps_any :: bool
  ps_proto :: string
  ps_lo :: "16 word"
  ps_hi :: "16 word"
  ps_allPorts :: bool

record Rule =
  ru_Kind :: string
  ru_Source :: string
  ru_src :: "selector list"
  ru_dst :: "selector list"
  ru_ports :: "portSpec list"

record Policy =
  po_rules :: "Rule list"
  po_version :: string

record acl_grant =
  g_Src :: "string list"
  g_Dst :: "string list"
  g_IP :: "string list"

record legacyACL =
  a_Action :: string
  a_Src :: "string list"
  a_Dst :: "string list"

record acl_document =
  d_Groups :: "(string, string list) gomap"
  d_Hosts :: "(string, string) gomap"
  d_IPSets :: "(string, string list) gomap"
  d_Grants :: "acl_grant list"
  d_ACLs :: "legacyACL list"

record compileCtx =
  ctx_groups :: "(string, string list) gomap"
  ctx_hosts :: "(string, string) gomap"
  ctx_ipsets :: "(string, netip_Prefix list) gomap"
  ctx_dir :: Directory

text \<open>Code outside the repository: the address parsers, the HuJSON/JSON decoders and the encoder.\<close>

record acl_lib =
  lib_ParseAddr :: "string \<Rightarrow> netip_Addr option"
  lib_ParsePrefix :: "string \<Rightarrow> netip_Prefix option"
  lib_Standardize :: "string \<Rightarrow> string option"
  lib_Unmarshal :: "string \<Rightarrow> acl_document option"
  lib_MarshalGrant :: "acl_grant \<Rightarrow> string option"
  lib_MarshalACL :: "legacyACL \<Rightarrow> string option"

section \<open>Compiling\<close>

definition acl_parsePrefix :: "acl_lib \<Rightarrow> string \<Rightarrow> netip_Prefix option" where
  "acl_parsePrefix lib s =
     (if CHR ''/'' \<in> set s then lib_ParsePrefix lib s
      else map_option (\<lambda>a. netip_PrefixFrom a (netip_BitLen a)) (lib_ParseAddr lib s))"

definition acl_compileIPSets ::
  "acl_lib \<Rightarrow> (string, string list) gomap \<Rightarrow> (string, netip_Prefix list) gomap" where
  "acl_compileIPSets lib sets =
     map (\<lambda>(name, entries).
       (name, List.map_filter (\<lambda>e. acl_parsePrefix lib
          (strings_TrimSpace (strings_TrimPrefix (strings_TrimSpace e) ''add ''))) entries)) sets"

definition acl_compileAutogroup :: "string \<Rightarrow> compileCtx \<Rightarrow> selector" where
  "acl_compileAutogroup name ctx =
     (if name = ''internet'' then internetSelector
      else if name = ''self'' then selfSelector
      else if name = ''owner'' then roleSelector [''owner''] ''autogroup:owner'' (ctx_dir ctx)
      else if name = ''admin'' then roleSelector [''owner'', ''admin''] ''autogroup:admin'' (ctx_dir ctx)
      else if name = ''member'' then memberSelector (ctx_dir ctx)
      else unknownSelector (''autogroup:'' @ name @ '' cannot be evaluated from flow data''))"

definition acl_compileSelector :: "acl_lib \<Rightarrow> string \<Rightarrow> compileCtx \<Rightarrow> selector" where
  "acl_compileSelector lib s ctx =
     (if s = ''*'' then anySelector
      else if strings_HasPrefix s ''tag:'' then tagSelector s
      else if strings_HasPrefix s ''group:'' then
        (case map_of (ctx_groups ctx) s of
           None \<Rightarrow> unknownSelector (''group '' @ s @ '' is referenced but not declared in the policy'')
         | Some members \<Rightarrow> userSetSelector members s)
      else if strings_HasPrefix s ''ipset:'' then
        (case map_of (ctx_ipsets ctx) s of
           None \<Rightarrow> unknownSelector (''ipset '' @ s @ '' is referenced but not declared in the policy'')
         | Some pfx \<Rightarrow> prefixSelector pfx)
      else if strings_HasPrefix s ''svc:'' then
        unknownSelector (''VIP service '' @ s @ '' cannot be resolved to addresses here'')
      else if strings_HasPrefix s ''autogroup:'' then
        acl_compileAutogroup (strings_TrimPrefix s ''autogroup:'') ctx
      else if CHR ''@'' \<in> set s then userSetSelector [s] s
      else
        (let s' = (case map_of (ctx_hosts ctx) s of Some v \<Rightarrow> v | None \<Rightarrow> s) in
         case acl_parsePrefix lib s' of
           Some p \<Rightarrow> prefixSelector [p]
         | None \<Rightarrow> unknownSelector (''selector '' @ s' @ '' is not a form this evaluator understands'')))"

definition acl_compileSelectors :: "acl_lib \<Rightarrow> string list \<Rightarrow> compileCtx \<Rightarrow> selector list" where
  "acl_compileSelectors lib ss ctx = map (\<lambda>s. acl_compileSelector lib (strings_TrimSpace s) ctx) ss"

definition acl_parsePortRange :: "string \<Rightarrow> (16 word \<times> 16 word) option" where
  "acl_parsePortRange s =
     (case strings_IndexByte s (CHR ''-'') of
        Some i \<Rightarrow>
          (case (strconv_ParseUint 16 (take i s), strconv_ParseUint 16 (drop (i + 1) s)) of
             (Some a, Some b) \<Rightarrow> Some (of_nat a, of_nat b)
           | _ \<Rightarrow> None)
      | None \<Rightarrow> map_option (\<lambda>v. (of_nat v, of_nat v)) (strconv_ParseUint 16 s))"

definition acl_zero_port :: portSpec where
  "acl_zero_port = \<lparr>ps_any = False, ps_proto = [], ps_lo = 0, ps_hi = 0, ps_allPorts = False\<rparr>"

definition acl_compilePort :: "string \<Rightarrow> portSpec option" where
  "acl_compilePort spec =
     (let s = strings_TrimSpace spec in
      if s = [] then None
      else if s = ''*'' then Some (acl_zero_port\<lparr>ps_any := True\<rparr>)
      else
        (let (proto, rest) = (case strings_IndexByte s (CHR '':'') of
             Some i \<Rightarrow> (strings_ToLower (take i s), drop (i + 1) s) | None \<Rightarrow> ([], s))
         in if rest = ''*'' then Some (acl_zero_port\<lparr>ps_proto := proto, ps_allPorts := True\<rparr>)
            else case acl_parsePortRange rest of
                   None \<Rightarrow> None
                 | Some (lo, hi) \<Rightarrow> Some (acl_zero_port\<lparr>ps_proto := proto, ps_lo := lo, ps_hi := hi\<rparr>)))"

definition acl_compilePorts :: "string list \<Rightarrow> portSpec list" where
  "acl_compilePorts specs = List.map_filter acl_compilePort specs"

definition acl_splitLegacyDst :: "string \<Rightarrow> string \<times> string" where
  "acl_splitLegacyDst s =
     (let plain = (case strings_LastIndexByte s (CHR '':'') of
          Some i \<Rightarrow> (take i s, drop (i + 1) s) | None \<Rightarrow> (s, ''*''))
      in if strings_HasPrefix s ''['' then
           (case strings_LastIndexByte s (CHR '']'') of
              Some e \<Rightarrow> (take (e - 1) (drop 1 s), strings_TrimPrefix (drop (e + 1) s) '':'')
            | None \<Rightarrow> plain)
         else plain)"

definition acl_compactJSON :: "string option \<Rightarrow> string" where
  "acl_compactJSON b = (case b of None \<Rightarrow> [] | Some s \<Rightarrow> s)"

text \<open>\<open>version.go\<close>: length-prefixed rule texts, hashed; eight bytes of the digest in hex.\<close>

definition acl_version_field :: "string \<Rightarrow> string" where
  "acl_version_field s = be_put 8 (length s) @ s"

definition acl_version_bytes :: "Rule list \<Rightarrow> string" where
  "acl_version_bytes rules =
     concat (map (\<lambda>r. acl_version_field (ru_Kind r) @ acl_version_field (ru_Source r)) rules)"

definition acl_computeVersion :: "Rule list \<Rightarrow> string" where
  "acl_computeVersion rules = take 16 (hex_EncodeToString (sha256 (acl_version_bytes rules)))"

definition acl_compileGrant :: "acl_lib \<Rightarrow> compileCtx \<Rightarrow> acl_grant \<Rightarrow> Rule" where
  "acl_compileGrant lib ctx g =
     \<lparr>ru_Kind = ''grant'', ru_Source = acl_compactJSON (lib_MarshalGrant lib g),
      ru_src = acl_compileSelectors lib (g_Src g) ctx,
      ru_dst = acl_compileSelectors lib (g_Dst g) ctx,
      ru_ports = acl_compilePorts (g_IP g)\<rparr>"

definition acl_compileACL :: "acl_lib \<Rightarrow> compileCtx \<Rightarrow> legacyACL \<Rightarrow> Rule option" where
  "acl_compileACL lib ctx a =
     (if a_Action a \<noteq> ''accept'' then None
      else
        (let pairs = map acl_splitLegacyDst (a_Dst a) in
         Some \<lparr>ru_Kind = ''acl'', ru_Source = acl_compactJSON (lib_MarshalACL lib a),
               ru_src = acl_compileSelectors lib (a_Src a) ctx,
               ru_dst = acl_compileSelectors lib (map fst pairs) ctx,
               ru_ports = acl_compilePorts (map snd pairs)\<rparr>))"

datatype acl_error = StandardizePolicy | ParsePolicy

definition acl_compileDoc :: "acl_lib \<Rightarrow> acl_document \<Rightarrow> Directory \<Rightarrow> Policy" where
  "acl_compileDoc lib d dir =
     (let ctx = \<lparr>ctx_groups = d_Groups d, ctx_hosts = d_Hosts d,
                 ctx_ipsets = acl_compileIPSets lib (d_IPSets d), ctx_dir = dir\<rparr>;
          rules = map (acl_compileGrant lib ctx) (d_Grants d)
                  @ List.map_filter (acl_compileACL lib ctx) (d_ACLs d)
      in \<lparr>po_rules = rules, po_version = acl_computeVersion rules\<rparr>)"

definition acl_Compile :: "acl_lib \<Rightarrow> string \<Rightarrow> Directory \<Rightarrow> acl_error + Policy" where
  "acl_Compile lib doc dir =
     (case lib_Standardize lib doc of
        None \<Rightarrow> Inl StandardizePolicy
      | Some std \<Rightarrow>
          (case lib_Unmarshal lib std of
             None \<Rightarrow> Inl ParsePolicy
           | Some d \<Rightarrow> Inr (acl_compileDoc lib d dir)))"

section \<open>Matching\<close>

definition ep_identified :: "Endpoint \<Rightarrow> bool" where
  "ep_identified e \<longleftrightarrow> ep_User e \<noteq> [] \<or> ep_Tags e \<noteq> [] \<or> ep_Addr e \<noteq> None"

definition conn_reversed :: "Conn \<Rightarrow> Conn" where
  "conn_reversed c =
     \<lparr>c_Src = c_Dst c, c_Dst = c_Src c, c_Proto = c_Proto c,
      c_DstPort = c_SrcPort c, c_HasPort = c_HasSrcPort c,
      c_SrcPort = c_DstPort c, c_HasSrcPort = c_HasPort c, c_IsExit = c_IsExit c\<rparr>"

fun sel_match :: "selector \<Rightarrow> Endpoint \<Rightarrow> Endpoint \<Rightarrow> Conn \<Rightarrow> tri" where
  "sel_match anySelector ep other c = triYes"
| "sel_match (unknownSelector reason) ep other c = triUnknown"
| "sel_match (tagSelector tag) ep other c =
     (if tag \<in> set (ep_Tags ep) then triYes
      else if ep_User ep \<noteq> [] \<or> ep_Tags ep \<noteq> [] then triNo
      else if ep_Addr ep \<noteq> None then triNo
      else triUnknown)"
| "sel_match (userSetSelector users label) ep other c =
     (if ep_User ep = [] then
        (if ep_Tags ep \<noteq> [] \<or> ep_Addr ep \<noteq> None then triNo else triUnknown)
      else if ep_User ep \<in> set users then triYes else triNo)"
| "sel_match (roleSelector roles label dir) ep other c =
     (if ep_User ep = [] then
        (if ep_Tags ep \<noteq> [] \<or> ep_Addr ep \<noteq> None then triNo else triUnknown)
      else case map_of (Roles dir) (ep_User ep) of
             None \<Rightarrow> triUnknown
           | Some role \<Rightarrow> (if role \<in> set roles then triYes else triNo))"
| "sel_match (memberSelector dir) ep other c =
     (if ep_Tags ep \<noteq> [] then triNo
      else if ep_User ep = [] then (if ep_Addr ep \<noteq> None then triNo else triUnknown)
      else triYes)"
| "sel_match selfSelector ep other c =
     (if ep_User ep = [] \<or> ep_User other = [] then
        (if (ep_User ep = [] \<and> ep_Tags ep \<noteq> []) \<or> (ep_User other = [] \<and> ep_Tags other \<noteq> []) then triNo
         else if ep_identified ep \<and> ep_identified other then triNo
         else triUnknown)
      else if ep_User ep = ep_User other then triYes else triNo)"
| "sel_match internetSelector ep other c = (if c_IsExit c then triYes else triNo)"
| "sel_match (prefixSelector pfxs) ep other c =
     (case ep_Addr ep of
        None \<Rightarrow> triUnknown
      | Some a \<Rightarrow> (if list_ex (\<lambda>p. netip_Contains p a) pfxs then triYes else triNo))"

fun sel_why :: "selector \<Rightarrow> string" where
  "sel_why (unknownSelector reason) = reason"
| "sel_why (roleSelector roles label dir) =
     ''the tailnet role of an endpoint's owner is not known (is the users collector enabled?)''"
| "sel_why _ = []"

text \<open>The loop of \<open>matchSide\<close>, with its \<open>unknown\<close> and \<open>reason\<close> variables.\<close>

fun matchSide_loop ::
  "selector list \<Rightarrow> Endpoint \<Rightarrow> Endpoint \<Rightarrow> Conn \<Rightarrow> bool \<Rightarrow> string \<Rightarrow> tri \<times> string" where
  "matchSide_loop [] ep other c unknown reason =
     (if unknown
      then (triUnknown, if reason = [] then ''an endpoint carries no identity to match on'' else reason)
      else (triNo, []))"
| "matchSide_loop (s # ss) ep other c unknown reason =
     (case sel_match s ep other c of
        triYes \<Rightarrow> (triYes, [])
      | triUnknown \<Rightarrow> matchSide_loop ss ep other c True (if reason = [] then sel_why s else reason)
      | triNo \<Rightarrow> matchSide_loop ss ep other c unknown reason)"

definition acl_matchSide :: "selector list \<Rightarrow> Endpoint \<Rightarrow> Endpoint \<Rightarrow> Conn \<Rightarrow> tri \<times> string" where
  "acl_matchSide sels ep other c =
     (if sels = [] then (triNo, []) else matchSide_loop sels ep other c False [])"

fun matchPorts_loop :: "portSpec list \<Rightarrow> Conn \<Rightarrow> bool \<Rightarrow> tri" where
  "matchPorts_loop [] c unknown = (if unknown then triUnknown else triNo)"
| "matchPorts_loop (p # ps) c unknown =
     (if ps_any p then triYes
      else if ps_proto p \<noteq> [] \<and> ps_proto p \<noteq> c_Proto c then matchPorts_loop ps c unknown
      else if ps_proto p = [] \<and> c_Proto c \<noteq> ''tcp'' \<and> c_Proto c \<noteq> ''udp'' then matchPorts_loop ps c unknown
      else if ps_allPorts p then triYes
      else if \<not> c_HasPort c then matchPorts_loop ps c True
      else if ps_lo p \<le> c_DstPort c \<and> c_DstPort c \<le> ps_hi p then triYes
      else matchPorts_loop ps c unknown)"

definition acl_matchPorts :: "portSpec list \<Rightarrow> Conn \<Rightarrow> tri" where
  "acl_matchPorts specs c = matchPorts_loop specs c False"

section \<open>Evaluation\<close>

fun oneWay_loop :: "Rule list \<Rightarrow> Conn \<Rightarrow> nat \<Rightarrow> bool \<Rightarrow> string \<Rightarrow> acl_Result" where
  "oneWay_loop [] c i unknown reason =
     (if unknown
      then \<lparr>res_Verdict = Undetermined, res_Rule = -1, res_Reversed = False, res_Reason = reason\<rparr>
      else \<lparr>res_Verdict = NoRule, res_Rule = -1, res_Reversed = False, res_Reason = []\<rparr>)"
| "oneWay_loop (r # rs) c i unknown reason =
     (let (srcT, srcWhy) = acl_matchSide (ru_src r) (c_Src c) (c_Dst c) c in
      if srcT = triNo then oneWay_loop rs c (Suc i) unknown reason else
      let (dstT, dstWhy) = acl_matchSide (ru_dst r) (c_Dst c) (c_Src c) c in
      if dstT = triNo then oneWay_loop rs c (Suc i) unknown reason else
      let portT = acl_matchPorts (ru_ports r) c in
      if portT = triNo then oneWay_loop rs c (Suc i) unknown reason
      else if srcT = triYes \<and> dstT = triYes \<and> portT = triYes
      then \<lparr>res_Verdict = Permitted, res_Rule = int i, res_Reversed = False, res_Reason = []\<rparr>
      else
        let note = (if srcWhy \<noteq> [] then srcWhy else if dstWhy \<noteq> [] then dstWhy
                    else ''a rule names specific ports but the record carries none'')
        in oneWay_loop rs c (Suc i) True (if reason = [] then note else reason))"

definition acl_evaluateOneWay :: "Policy \<Rightarrow> Conn \<Rightarrow> acl_Result" where
  "acl_evaluateOneWay p c = oneWay_loop (po_rules p) c 0 False []"

definition acl_Evaluate :: "Policy \<Rightarrow> Conn \<Rightarrow> acl_Result" where
  "acl_Evaluate p c =
     (let res = acl_evaluateOneWay p c in
      if res_Verdict res = Permitted then res else
      let back = acl_evaluateOneWay p (conn_reversed c) in
      if res_Verdict back = Permitted then back\<lparr>res_Reversed := True\<rparr>
      else if res_Verdict res = Undetermined then res
      else if res_Verdict back = Undetermined then back\<lparr>res_Reversed := True\<rparr>
      else res)"

section \<open>The three-valued specification\<close>

definition tri_or :: "tri list \<Rightarrow> tri" where
  "tri_or ts = (if triYes \<in> set ts then triYes else if triUnknown \<in> set ts then triUnknown else triNo)"

definition tri_and :: "tri list \<Rightarrow> tri" where
  "tri_and ts = (if triNo \<in> set ts then triNo else if triUnknown \<in> set ts then triUnknown else triYes)"

definition port_match :: "portSpec \<Rightarrow> Conn \<Rightarrow> tri" where
  "port_match p c =
     (if ps_any p then triYes
      else if (ps_proto p \<noteq> [] \<and> ps_proto p \<noteq> c_Proto c) \<or>
              (ps_proto p = [] \<and> c_Proto c \<noteq> ''tcp'' \<and> c_Proto c \<noteq> ''udp'') then triNo
      else if ps_allPorts p then triYes
      else if \<not> c_HasPort c then triUnknown
      else if ps_lo p \<le> c_DstPort c \<and> c_DstPort c \<le> ps_hi p then triYes else triNo)"

definition side_match :: "selector list \<Rightarrow> Endpoint \<Rightarrow> Endpoint \<Rightarrow> Conn \<Rightarrow> tri" where
  "side_match sels ep other c = tri_or (map (\<lambda>s. sel_match s ep other c) sels)"

definition rule_match :: "Rule \<Rightarrow> Conn \<Rightarrow> tri" where
  "rule_match r c = tri_and [side_match (ru_src r) (c_Src c) (c_Dst c) c,
     side_match (ru_dst r) (c_Dst c) (c_Src c) c, tri_or (map (\<lambda>p. port_match p c) (ru_ports r))]"

fun tri_verdict :: "tri \<Rightarrow> Verdict" where
  "tri_verdict triYes = Permitted"
| "tri_verdict triUnknown = Undetermined"
| "tri_verdict triNo = NoRule"

lemma tri_or_simps [simp]:
  "tri_or [] = triNo"
  "tri_or (t # ts) = (case t of triYes \<Rightarrow> triYes | triNo \<Rightarrow> tri_or ts
     | triUnknown \<Rightarrow> (if tri_or ts = triYes then triYes else triUnknown))"
  by (auto simp: tri_or_def split: tri.splits)

lemma tri_or_No_iff: "tri_or ts = triNo \<longleftrightarrow> (\<forall>t \<in> set ts. t = triNo)"
  by (auto simp: tri_or_def) (metis tri.exhaust)

lemma tri_or_Yes_iff: "tri_or ts = triYes \<longleftrightarrow> triYes \<in> set ts"
  by (simp add: tri_or_def)

lemma tri_unknownI: "t \<noteq> triNo \<Longrightarrow> t \<noteq> triYes \<Longrightarrow> t = triUnknown"
  by (cases t) auto

lemma matchSide_loop_fst:
  "fst (matchSide_loop ss ep other c unknown reason) =
     (let t = side_match ss ep other c in if t = triNo \<and> unknown then triUnknown else t)"
  by (induction ss arbitrary: unknown reason)
    (auto simp: side_match_def Let_def intro: tri_unknownI split: tri.splits)

lemma acl_matchSide_fst [simp]: "fst (acl_matchSide ss ep other c) = side_match ss ep other c"
  by (simp add: acl_matchSide_def matchSide_loop_fst Let_def) (simp add: side_match_def)

lemma matchPorts_loop_Cons:
  "matchPorts_loop (p # ps) c unknown =
     (case port_match p c of triYes \<Rightarrow> triYes | triNo \<Rightarrow> matchPorts_loop ps c unknown
      | triUnknown \<Rightarrow> matchPorts_loop ps c True)"
  by (simp add: port_match_def)

lemma matchPorts_loop_eq:
  "matchPorts_loop ps c unknown =
     (let t = tri_or (map (\<lambda>p. port_match p c) ps) in if t = triNo \<and> unknown then triUnknown else t)"
  by (induction ps arbitrary: unknown)
    (auto simp: matchPorts_loop_Cons Let_def simp del: matchPorts_loop.simps(2)
      intro: tri_unknownI split: tri.splits)

lemma acl_matchPorts_eq [simp]: "acl_matchPorts ps c = tri_or (map (\<lambda>p. port_match p c) ps)"
  by (simp add: acl_matchPorts_def matchPorts_loop_eq Let_def)

section \<open>Evaluation implements the specification\<close>

lemma rule_match_alt:
  "rule_match r c =
     (let s = side_match (ru_src r) (c_Src c) (c_Dst c) c;
          d = side_match (ru_dst r) (c_Dst c) (c_Src c) c;
          p = acl_matchPorts (ru_ports r) c
      in if s = triNo \<or> d = triNo \<or> p = triNo then triNo
         else if s = triYes \<and> d = triYes \<and> p = triYes then triYes else triUnknown)"
  by (auto simp: rule_match_def tri_and_def Let_def dest: tri_unknownI) (metis tri.exhaust)+

lemma matchSide_pair:
  "acl_matchSide ss ep other c = (side_match ss ep other c, snd (acl_matchSide ss ep other c))"
  by (metis acl_matchSide_fst prod.collapse)

declare oneWay_loop.simps(2) [simp del]

lemma oneWay_loop_No:
  "rule_match r c = triNo \<Longrightarrow> oneWay_loop (r # rs) c i u reason = oneWay_loop rs c (Suc i) u reason"
  by (subst oneWay_loop.simps(2), subst (1 2) matchSide_pair)
    (auto simp: rule_match_alt Let_def simp del: oneWay_loop.simps split: if_splits)

lemma oneWay_loop_Yes:
  "rule_match r c = triYes \<Longrightarrow> oneWay_loop (r # rs) c i u reason =
     \<lparr>res_Verdict = Permitted, res_Rule = int i, res_Reversed = False, res_Reason = []\<rparr>"
  by (subst oneWay_loop.simps(2), subst (1 2) matchSide_pair)
    (auto simp: rule_match_alt Let_def simp del: oneWay_loop.simps split: if_splits)

lemma oneWay_loop_Unknown:
  "rule_match r c = triUnknown \<Longrightarrow>
     \<exists>reason'. oneWay_loop (r # rs) c i u reason = oneWay_loop rs c (Suc i) True reason'"
  by (subst oneWay_loop.simps(2), subst (1 2) matchSide_pair)
    (auto simp: rule_match_alt Let_def simp del: oneWay_loop.simps split: if_splits)

lemma tri_verdict_eq_iff [simp]:
  "tri_verdict t = Permitted \<longleftrightarrow> t = triYes"
  "tri_verdict t = NoRule \<longleftrightarrow> t = triNo"
  "tri_verdict t = Undetermined \<longleftrightarrow> t = triUnknown"
  by (cases t; simp)+

lemma oneWay_loop_verdict:
  "res_Verdict (oneWay_loop rs c i u reason) =
     (let t = tri_or (map (\<lambda>r. rule_match r c) rs)
      in tri_verdict (if t = triNo \<and> u then triUnknown else t))"
proof (induction rs arbitrary: i u reason)
  case Nil
  then show ?case by simp
next
  case (Cons r rs)
  show ?case
  proof (cases "rule_match r c")
    case triNo
    with Cons show ?thesis by (simp add: oneWay_loop_No Let_def)
  next
    case triYes
    then show ?thesis by (simp add: oneWay_loop_Yes Let_def)
  next
    case triUnknown
    from oneWay_loop_Unknown [OF this] obtain reason' where
      "oneWay_loop (r # rs) c i u reason = oneWay_loop rs c (Suc i) True reason'" by blast
    with Cons triUnknown show ?thesis
      by (auto simp: Let_def intro: tri_unknownI)
  qed
qed

lemma oneWay_loop_rule:
  assumes "res_Verdict (oneWay_loop rs c i u reason) = Permitted"
  shows "\<exists>k < length rs. res_Rule (oneWay_loop rs c i u reason) = int (i + k) \<and>
    rule_match (rs ! k) c = triYes \<and> (\<forall>j < k. rule_match (rs ! j) c \<noteq> triYes)"
  using assms
proof (induction rs arbitrary: i u reason)
  case Nil
  then show ?case by (simp split: if_splits)
next
  case (Cons r rs)
  show ?case
  proof (cases "rule_match r c = triYes")
    case True
    then show ?thesis by (intro exI [of _ 0]) (simp add: oneWay_loop_Yes)
  next
    case False
    then obtain u' reason' where
      step: "oneWay_loop (r # rs) c i u reason = oneWay_loop rs c (Suc i) u' reason'"
      using oneWay_loop_No oneWay_loop_Unknown by (cases "rule_match r c") blast+
    with Cons.prems have "res_Verdict (oneWay_loop rs c (Suc i) u' reason') = Permitted" by simp
    from Cons.IH [OF this] obtain k where k: "k < length rs"
      "res_Rule (oneWay_loop rs c (Suc i) u' reason') = int (Suc i + k)"
      "rule_match (rs ! k) c = triYes" "\<forall>j < k. rule_match (rs ! j) c \<noteq> triYes" by blast
    have "\<forall>j < Suc k. rule_match ((r # rs) ! j) c \<noteq> triYes"
      using k(4) False by (simp add: All_less_Suc2)
    with k step show ?thesis by (intro exI [of _ "Suc k"]) simp
  qed
qed

lemma oneWay_loop_not_reversed: "\<not> res_Reversed (oneWay_loop rs c i u reason)"
proof (induction rs arbitrary: i u reason)
  case Nil
  then show ?case by simp
next
  case (Cons r rs)
  show ?case
  proof (cases "rule_match r c")
    case triUnknown
    from oneWay_loop_Unknown [OF this] Cons show ?thesis by metis
  qed (use Cons in \<open>simp_all add: oneWay_loop_No oneWay_loop_Yes\<close>)
qed

definition policy_tri :: "Policy \<Rightarrow> Conn \<Rightarrow> tri" where
  "policy_tri p c = tri_or (map (\<lambda>r. rule_match r c) (po_rules p))"

lemma policy_tri_Yes: "policy_tri p c = triYes \<longleftrightarrow> (\<exists>r \<in> set (po_rules p). rule_match r c = triYes)"
  by (force simp: policy_tri_def tri_or_Yes_iff)

lemma policy_tri_No: "policy_tri p c = triNo \<longleftrightarrow> (\<forall>r \<in> set (po_rules p). rule_match r c = triNo)"
  by (simp add: policy_tri_def tri_or_No_iff)

lemma evaluateOneWay_verdict [simp]:
  "res_Verdict (acl_evaluateOneWay p c) = tri_verdict (policy_tri p c)"
  by (simp add: acl_evaluateOneWay_def oneWay_loop_verdict policy_tri_def Let_def)

lemma acl_Evaluate_verdict:
  "res_Verdict (acl_Evaluate p c) = tri_verdict (tri_or [policy_tri p c, policy_tri p (conn_reversed c)])"
  by (auto simp: acl_Evaluate_def Let_def split: tri.splits)

text \<open>
  C8. \<open>Evaluate\<close> is Kleene's disjunction over the rules in both directions: it reports a
  connection as unexplained exactly when every rule definitively fails to cover it as observed
  and as its return half, permits it exactly when some rule definitively covers one of the two,
  and is undetermined otherwise. An undecidable selector or port is never read as "no".
\<close>

theorem acl_Evaluate_three_valued:
  "(res_Verdict (acl_Evaluate p c) = NoRule \<longleftrightarrow>
      list_all (\<lambda>r. rule_match r c = triNo \<and> rule_match r (conn_reversed c) = triNo) (po_rules p)) \<and>
   (res_Verdict (acl_Evaluate p c) = Permitted \<longleftrightarrow>
      list_ex (\<lambda>r. rule_match r c = triYes \<or> rule_match r (conn_reversed c) = triYes) (po_rules p))"
  unfolding acl_Evaluate_verdict tri_verdict_eq_iff tri_or_No_iff tri_or_Yes_iff
  by (auto simp: eq_commute [of triYes] policy_tri_No policy_tri_Yes list_all_iff list_ex_iff)

text \<open>
  A permitted connection names a rule that really covers it: the reported index is the first
  rule of the policy that definitively matches the connection in the reported direction, and the
  return direction is only reported when no rule covers the connection as observed.
\<close>

theorem acl_Evaluate_names_first_rule:
  assumes "res_Verdict (acl_Evaluate p c) = Permitted"
  shows "\<exists>k < length (po_rules p). res_Rule (acl_Evaluate p c) = int k \<and>
     rule_match (po_rules p ! k) (if res_Reversed (acl_Evaluate p c) then conn_reversed c else c) = triYes \<and>
     (\<forall>j < k. rule_match (po_rules p ! j)
        (if res_Reversed (acl_Evaluate p c) then conn_reversed c else c) \<noteq> triYes) \<and>
     (res_Reversed (acl_Evaluate p c) \<longrightarrow> (\<forall>r \<in> set (po_rules p). rule_match r c \<noteq> triYes))"
proof (cases "policy_tri p c = triYes")
  case True
  then have "acl_Evaluate p c = acl_evaluateOneWay p c" by (simp add: acl_Evaluate_def Let_def)
  with True oneWay_loop_rule [of "po_rules p" c 0 False "[]"] show ?thesis
    using oneWay_loop_not_reversed [of "po_rules p" c 0 False "[]"] evaluateOneWay_verdict [of p c]
    by (auto simp: acl_evaluateOneWay_def)
next
  case False
  with assms have returning: "policy_tri p (conn_reversed c) = triYes"
    by (auto simp: acl_Evaluate_verdict tri_or_Yes_iff simp del: tri_or_simps)
  with False have rev: "acl_Evaluate p c = (acl_evaluateOneWay p (conn_reversed c))\<lparr>res_Reversed := True\<rparr>"
    by (simp add: acl_Evaluate_def Let_def)
  with returning False oneWay_loop_rule [of "po_rules p" "conn_reversed c" 0 False "[]"] show ?thesis
    using evaluateOneWay_verdict [of p "conn_reversed c"]
    by (auto simp: acl_evaluateOneWay_def policy_tri_Yes)
qed

definition sample_ep :: "string \<Rightarrow> string list \<Rightarrow> Endpoint" where
  "sample_ep user tags = \<lparr>ep_User = user, ep_Tags = tags, ep_Addr = None\<rparr>"

definition sample_conn :: "Endpoint \<Rightarrow> Endpoint \<Rightarrow> nat \<Rightarrow> Conn" where
  "sample_conn s d port = \<lparr>c_Src = s, c_Dst = d, c_Proto = ''tcp'', c_DstPort = of_nat port,
     c_HasPort = True, c_SrcPort = 0, c_HasSrcPort = False, c_IsExit = False\<rparr>"

definition sample_lib :: acl_lib where
  "sample_lib = \<lparr>lib_ParseAddr = (\<lambda>_. None), lib_ParsePrefix = (\<lambda>_. None), lib_Standardize = Some,
     lib_Unmarshal = (\<lambda>_. None), lib_MarshalGrant = (\<lambda>_. Some ''{}''),
     lib_MarshalACL = (\<lambda>_. Some ''{}'')\<rparr>"

definition sample_doc :: "legacyACL list \<Rightarrow> acl_document" where
  "sample_doc acls = \<lparr>d_Groups = [], d_Hosts = [], d_IPSets = [], d_Grants = [], d_ACLs = acls\<rparr>"

definition sample_policy :: "string list \<Rightarrow> Policy" where
  "sample_policy dsts = acl_compileDoc sample_lib
     (sample_doc [\<lparr>a_Action = ''accept'', a_Src = [''*''], a_Dst = dsts\<rparr>]) \<lparr>Roles = []\<rparr>"

lemmas sample_compile_defs = sample_policy_def acl_compileDoc_def sample_doc_def sample_lib_def
  List.map_filter_def acl_compileACL_def acl_compileSelectors_def acl_compileSelector_def
  acl_compilePorts_def acl_compilePort_def acl_parsePortRange_def acl_splitLegacyDst_def
  strings_LastIndexByte_def strings_HasPrefix_def strconv_ParseUint_def is_digit_def
  TrimSpace_visible visible_ascii_def acl_compactJSON_def Let_def acl_zero_port_def

lemma sample_rule_two:
  "po_rules (sample_policy [''tag:a:22'', ''tag:b:443'']) =
     [\<lparr>ru_Kind = ''acl'', ru_Source = ''{}'', ru_src = [anySelector],
       ru_dst = [tagSelector ''tag:a'', tagSelector ''tag:b''],
       ru_ports = [acl_zero_port\<lparr>ps_lo := 22, ps_hi := 22\<rparr>,
                   acl_zero_port\<lparr>ps_lo := 443, ps_hi := 443\<rparr>]\<rparr>]"
  by (simp add: sample_compile_defs)

lemma sample_rule_comma:
  "po_rules (sample_policy [''tag:web:80,443'']) =
     [\<lparr>ru_Kind = ''acl'', ru_Source = ''{}'', ru_src = [anySelector],
       ru_dst = [tagSelector ''tag:web''], ru_ports = []\<rparr>]"
  by (simp add: sample_compile_defs)

lemmas sample_match_defs = rule_match_def side_match_def port_match_def sample_conn_def sample_ep_def
  conn_reversed_def acl_zero_port_def tri_and_def

theorem acl_Evaluate_names_first_rule_witness:
  "res_Verdict (acl_Evaluate (sample_policy [''tag:a:22'', ''tag:b:443''])
      (sample_conn (sample_ep ''u'' []) (sample_ep [] [''tag:b'']) 443)) = Permitted \<and>
   res_Rule (acl_Evaluate (sample_policy [''tag:a:22'', ''tag:b:443''])
      (sample_conn (sample_ep ''u'' []) (sample_ep [] [''tag:b'']) 443)) = 0"
proof -
  let ?p = "sample_policy [''tag:a:22'', ''tag:b:443'']"
  let ?c = "sample_conn (sample_ep ''u'' []) (sample_ep [] [''tag:b'']) 443"
  have "res_Verdict (acl_Evaluate ?p ?c) = Permitted"
    by (simp add: acl_Evaluate_verdict policy_tri_def sample_rule_two sample_match_defs)
  with acl_Evaluate_names_first_rule [OF this] show ?thesis by (simp add: sample_rule_two)
qed

text \<open>
  Two consequences of how legacy rules are compiled. All destinations of one \<open>acls\<close> entry share
  one port list, so an entry naming \<open>tag:a:22\<close> and \<open>tag:b:443\<close> also explains a connection to port
  443 of \<open>tag:a\<close>; and a destination with a comma separated port list is compiled to no port at
  all, so a connection the policy allows is definitively reported as unexplained.
\<close>

lemma legacy_ports_shared_by_destinations:
  "res_Verdict (acl_Evaluate (sample_policy [''tag:a:22'', ''tag:b:443''])
     (sample_conn (sample_ep ''u'' []) (sample_ep [] [''tag:a'']) 443)) = Permitted"
  by (simp add: acl_Evaluate_verdict policy_tri_def sample_rule_two sample_match_defs)

lemma legacy_comma_ports_unexplained:
  "res_Verdict (acl_Evaluate (sample_policy [''tag:web:80,443''])
     (sample_conn (sample_ep ''u'' []) (sample_ep [] [''tag:web'']) 443)) = NoRule"
  by (simp add: acl_Evaluate_verdict policy_tri_def sample_rule_comma sample_match_defs)

lemma acl_version_field_inject:
  assumes "length s < 2 ^ 64" "length t < 2 ^ 64"
  shows "acl_version_field s @ u = acl_version_field t @ v \<longleftrightarrow> s = t \<and> u = v"
  using length_prefix_inject [OF assms] by (simp add: acl_version_field_def)

definition rule_texts_fit :: "Rule list \<Rightarrow> bool" where
  "rule_texts_fit rules \<longleftrightarrow> list_all (\<lambda>r. length (ru_Kind r) < 2 ^ 64 \<and> length (ru_Source r) < 2 ^ 64) rules"

definition rule_text :: "Rule \<Rightarrow> string \<times> string" where
  "rule_text r = (ru_Kind r, ru_Source r)"

lemma acl_version_bytes_inject:
  "rule_texts_fit rs \<Longrightarrow> rule_texts_fit rs' \<Longrightarrow> acl_version_bytes rs = acl_version_bytes rs' \<Longrightarrow>
   map rule_text rs = map rule_text rs'"
proof (induction rs arbitrary: rs')
  case Nil
  then show ?case by (cases rs') (auto simp: acl_version_bytes_def acl_version_field_def be_put_def)
next
  case (Cons r rs)
  from Cons.prems obtain r' rt where rs': "rs' = r' # rt"
    by (cases rs') (auto simp: acl_version_bytes_def acl_version_field_def be_put_def)
  with Cons.prems have "ru_Kind r = ru_Kind r'" "ru_Source r = ru_Source r'"
    "acl_version_bytes rs = acl_version_bytes rt"
    by (auto simp: acl_version_bytes_def rule_texts_fit_def acl_version_field_inject)
  with Cons rs' show ?case by (simp add: rule_texts_fit_def rule_text_def)
qed

lemma acl_version_bytes_texts:
  "acl_version_bytes rs =
     concat (map (\<lambda>(k, s). acl_version_field k @ acl_version_field s) (map rule_text rs))"
  by (simp add: acl_version_bytes_def rule_text_def comp_def)

text \<open>
  The policy version identifies the rule list: the bytes that \<open>computeVersion\<close> hashes determine
  the kind, the text and the position of every rule (for texts shorter than two to the 64 bytes),
  and the version depends on nothing else; so two policies with different rule texts share a
  version only when the truncated digest collides.
\<close>

theorem acl_version_identifies_rules:
  assumes "rule_texts_fit rs" "rule_texts_fit rs'"
  shows "(acl_version_bytes rs = acl_version_bytes rs' \<longleftrightarrow> map rule_text rs = map rule_text rs') \<and>
    (map rule_text rs = map rule_text rs' \<longrightarrow> acl_computeVersion rs = acl_computeVersion rs')"
  using acl_version_bytes_inject [OF assms]
  by (auto simp: acl_version_bytes_texts acl_computeVersion_def simp del: map_map)

definition sample_rules :: "string list \<Rightarrow> Rule list" where
  "sample_rules texts =
     map (\<lambda>t. \<lparr>ru_Kind = ''acl'', ru_Source = t, ru_src = [], ru_dst = [], ru_ports = []\<rparr>) texts"

theorem acl_version_identifies_rules_witness:
  "acl_version_bytes (sample_rules [''ab'', ''c'']) \<noteq> acl_version_bytes (sample_rules [''a'', ''bc''])"
proof -
  have "rule_texts_fit (sample_rules [''ab'', ''c''])" "rule_texts_fit (sample_rules [''a'', ''bc''])"
    by (simp_all add: rule_texts_fit_def sample_rules_def)
  from acl_version_identifies_rules [OF this] show ?thesis by (simp add: sample_rules_def rule_text_def)
qed

end
