(* ===== verification/Rollup.thy ===== *)
theory Rollup
  imports Go_Prelude
begin

text \<open>
  \<open>src/internal/flowlog/rollup.go\<close>: the bounded top-N accumulator of flow metrics. The record
  \<open>rollupAccumulator\<close> holds the code's three maps; one operation per method (\<open>record\<close>,
  \<open>observeUnique\<close>, \<open>Flush\<close>, \<open>Stage\<close>), each returning the updated accumulator and, where the
  code emits telemetry, the list of emitted points.

  A \<open>float64\<close> here only ever holds a non-negative whole number of bytes or packets; it is a
  \<open>nat\<close> and addition rounds to the nearest representable value (\<open>f64_add\<close>), so exactness of
  the totals is a theorem with its bound, not an assumption.
\<close>

section \<open>Whole numbers held in a float64\<close>

fun bit_length :: "nat \<Rightarrow> nat" where
  "bit_length x = (if x = 0 then 0 else Suc (bit_length (x div 2)))"

declare bit_length.simps [simp del]

text \<open>Round to nearest, ties to even, with a 53-bit significand.\<close>

definition f64_round :: "nat \<Rightarrow> nat" where
  "f64_round x =
     (if x \<le> 2 ^ 53 then x
      else let u = 2 ^ (bit_length x - 53); q = x div u; r = x mod u
           in (if 2 * r < u \<or> (2 * r = u \<and> even q) then q else q + 1) * u)"

definition f64_add :: "nat \<Rightarrow> nat \<Rightarrow> nat" where
  "f64_add x y = f64_round (x + y)"

lemma f64_add_exact: "x + y \<le> 2 ^ 53 \<Longrightarrow> f64_add x y = x + y"
  by (simp add: f64_add_def f64_round_def)

section \<open>Data model\<close>

definition defaultRollupTopN :: int where "defaultRollupTopN = 500"

definition maxRollupKeys :: nat where "maxRollupKeys = 8000"

definition maxUniqueSrcNodes :: nat where "maxUniqueSrcNodes = 2000"

definition maxUniquePerSrc :: nat where "maxUniquePerSrc = 65536"

definition RollupOther :: string where "RollupOther = ''__other__''"

record identityKey =
  srcUser :: string
  srcTags :: string
  srcOS :: string
  dstUser :: string
  dstTags :: string
  dstOS :: string

record geoKey =
  srcCountry :: string
  srcContinent :: string
  dstCountry :: string
  dstContinent :: string

definition zero_identity :: identityKey where
  "zero_identity = \<lparr>srcUser = [], srcTags = [], srcOS = [], dstUser = [], dstTags = [], dstOS = []\<rparr>"

definition zero_geo :: geoKey where
  "zero_geo = \<lparr>srcCountry = [], srcContinent = [], dstCountry = [], dstContinent = []\<rparr>"

record rollupKey =
  rk_transport :: string
  rk_trafficType :: string
  rk_srcNode :: string
  rk_dstNode :: string
  rk_dstService :: string
  rk_path :: string
  rk_derpRegion :: string
  rk_identity :: identityKey
  rk_geo :: geoKey

text \<open>\<open>rollupDims\<close> has the fields of a key, before the gates decide what enters it.\<close>

type_synonym rollupDims = rollupKey

record rollupEntry =
  txBytes :: nat
  rxBytes :: nat
  txPkts :: nat
  rxPkts :: nat

definition zero_entry :: rollupEntry where
  "zero_entry = \<lparr>txBytes = 0, rxBytes = 0, txPkts = 0, rxPkts = 0\<rparr>"

definition rollupEntry_add :: "rollupEntry \<Rightarrow> rollupEntry \<Rightarrow> rollupEntry" where
  "rollupEntry_add e o' =
     \<lparr>txBytes = f64_add (txBytes e) (txBytes o'), rxBytes = f64_add (rxBytes e) (rxBytes o'),
      txPkts = f64_add (txPkts e) (txPkts o'), rxPkts = f64_add (rxPkts e) (rxPkts o')\<rparr>"

record rollupAccumulator =
  acc_topN :: int
  acc_nodes :: bool
  acc_identity :: bool
  acc_geo :: bool
  acc_entries :: "(rollupKey, rollupEntry) gomap"
  acc_dstPeers :: "(string, string list) gomap"
  acc_dstPorts :: "(string, string list) gomap"

definition newRollupAccumulator :: "int \<Rightarrow> bool \<Rightarrow> bool \<Rightarrow> bool \<Rightarrow> rollupAccumulator" where
  "newRollupAccumulator topN nodes ident geo =
     \<lparr>acc_topN = (if topN \<le> 0 then defaultRollupTopN else topN), acc_nodes = nodes,
      acc_identity = (ident \<and> nodes), acc_geo = geo,
      acc_entries = [], acc_dstPeers = [], acc_dstPorts = []\<rparr>"

section \<open>Recording\<close>

definition rollup_key :: "rollupAccumulator \<Rightarrow> rollupDims \<Rightarrow> rollupKey" where
  "rollup_key a d =
     \<lparr>rk_transport = rk_transport d, rk_trafficType = rk_trafficType d,
      rk_srcNode = (if acc_nodes a then rk_srcNode d else []),
      rk_dstNode = (if acc_nodes a then rk_dstNode d else []),
      rk_dstService = rk_dstService d, rk_path = rk_path d, rk_derpRegion = rk_derpRegion d,
      rk_identity = (if acc_identity a then rk_identity d else zero_identity),
      rk_geo = (if acc_geo a then rk_geo d else zero_geo)\<rparr>"

definition rollup_otherKey :: "rollupAccumulator \<Rightarrow> rollupDims \<Rightarrow> rollupKey" where
  "rollup_otherKey a d =
     \<lparr>rk_transport = rk_transport d, rk_trafficType = rk_trafficType d,
      rk_srcNode = (if acc_nodes a then RollupOther else []),
      rk_dstNode = (if acc_nodes a then RollupOther else []),
      rk_dstService = rk_dstService d, rk_path = rk_path d, rk_derpRegion = rk_derpRegion d,
      rk_identity = zero_identity, rk_geo = zero_geo\<rparr>"

definition rollup_record ::
  "rollupDims \<Rightarrow> rollupEntry \<Rightarrow> rollupAccumulator \<Rightarrow> rollupAccumulator" where
  "rollup_record d v a =
     (let k0 = rollup_key a d; e0 = map_of (acc_entries a) k0;
          (k, e) = (if e0 = None \<and> maxRollupKeys \<le> length (acc_entries a)
                    then (rollup_otherKey a d, map_of (acc_entries a) (rollup_otherKey a d))
                    else (k0, e0));
          e' = (case e of None \<Rightarrow> zero_entry | Some e' \<Rightarrow> e')
      in a\<lparr>acc_entries := AList.update k (rollupEntry_add e' v) (acc_entries a)\<rparr>)"

definition addToSet ::
  "string \<Rightarrow> string \<Rightarrow> (string, string list) gomap \<Rightarrow> (string, string list) gomap" where
  "addToSet key val m =
     (let put = (\<lambda>s m. if maxUniquePerSrc \<le> length s then m else AList.update key (List.insert val s) m)
      in case map_of m key of
           None \<Rightarrow> (if maxUniqueSrcNodes \<le> length m then m else put [] (AList.update key [] m))
         | Some s \<Rightarrow> put s m)"

definition rollup_observeUnique ::
  "string \<Rightarrow> string \<Rightarrow> string \<Rightarrow> rollupAccumulator \<Rightarrow> rollupAccumulator" where
  "rollup_observeUnique srcNode dstNode dstPort a =
     (if \<not> acc_nodes a \<or> srcNode = [] then a
      else
        (let a1 = (if dstNode \<noteq> [] then a\<lparr>acc_dstPeers := addToSet srcNode dstNode (acc_dstPeers a)\<rparr> else a)
         in if dstPort \<noteq> [] then a1\<lparr>acc_dstPorts := addToSet srcNode dstPort (acc_dstPorts a1)\<rparr> else a1))"

section \<open>Emission\<close>

type_synonym attrs = "(string, string) gomap"

datatype point =
    Counter (pt_name: string) (pt_value: nat) (pt_attrs: attrs)
  | Gauge (pt_name: string) (pt_value: nat) (pt_attrs: attrs)

definition setIfNotEmpty :: "string \<Rightarrow> string \<Rightarrow> attrs \<Rightarrow> attrs" where
  "setIfNotEmpty key v a = (if v \<noteq> [] then AList.update key v a else a)"

definition addPathAttrs :: "string \<Rightarrow> string \<Rightarrow> attrs \<Rightarrow> attrs" where
  "addPathAttrs path derpRegion a =
     (if path = [] then a
      else setIfNotEmpty ''tailscale.derp.region_id'' derpRegion (AList.update ''tailscale.path'' path a))"

definition rollupKey_attrs :: "rollupKey \<Rightarrow> attrs" where
  "rollupKey_attrs k =
     (let a0 = [(''network.transport'', rk_transport k), (''tailscale.traffic_type'', rk_trafficType k)];
          a1 = setIfNotEmpty ''tailscale.src.node'' (rk_srcNode k) a0;
          a2 = setIfNotEmpty ''tailscale.dst.node'' (rk_dstNode k) a1;
          a3 = setIfNotEmpty ''tailscale.dst.service'' (rk_dstService k) a2;
          a4 = addPathAttrs (rk_path k) (rk_derpRegion k) a3;
          a5 = setIfNotEmpty ''tailscale.src.user'' (srcUser (rk_identity k)) a4;
          a6 = setIfNotEmpty ''tailscale.src.tags'' (srcTags (rk_identity k)) a5;
          a7 = setIfNotEmpty ''tailscale.src.os'' (srcOS (rk_identity k)) a6;
          a8 = setIfNotEmpty ''tailscale.dst.user'' (dstUser (rk_identity k)) a7;
          a9 = setIfNotEmpty ''tailscale.dst.tags'' (dstTags (rk_identity k)) a8;
          a10 = setIfNotEmpty ''tailscale.dst.os'' (dstOS (rk_identity k)) a9;
          a11 = setIfNotEmpty ''source.geo.country.iso_code'' (srcCountry (rk_geo k)) a10;
          a12 = setIfNotEmpty ''source.geo.continent.code'' (srcContinent (rk_geo k)) a11;
          a13 = setIfNotEmpty ''destination.geo.country.iso_code'' (dstCountry (rk_geo k)) a12
      in setIfNotEmpty ''destination.geo.continent.code'' (dstContinent (rk_geo k)) a13)"

definition dirAttrs :: "attrs \<Rightarrow> string \<Rightarrow> attrs" where
  "dirAttrs base direction = AList.update ''network.io.direction'' direction base"

definition MetricIORollup :: string where
  "MetricIORollup = ''tailscale.network.io.rollup''"

definition MetricPacketsRollup :: string where
  "MetricPacketsRollup = ''tailscale.network.packets.rollup''"

definition rollup_emitEntry :: "rollupKey \<Rightarrow> rollupEntry \<Rightarrow> point list" where
  "rollup_emitEntry k en =
     (let base = rollupKey_attrs k in
      (if 0 < txBytes en then [Counter MetricIORollup (txBytes en) (dirAttrs base ''transmit'')] else [])
      @ (if 0 < rxBytes en then [Counter MetricIORollup (rxBytes en) (dirAttrs base ''receive'')] else [])
      @ (if 0 < txPkts en then [Counter MetricPacketsRollup (txPkts en) (dirAttrs base ''transmit'')] else [])
      @ (if 0 < rxPkts en then [Counter MetricPacketsRollup (rxPkts en) (dirAttrs base ''receive'')] else []))"

definition rollupKey_fields :: "rollupKey \<Rightarrow> string list" where
  "rollupKey_fields k =
     [rk_transport k, rk_trafficType k, rk_srcNode k, rk_dstNode k, rk_dstService k, rk_path k,
      rk_derpRegion k, srcUser (rk_identity k), srcTags (rk_identity k), srcOS (rk_identity k),
      dstUser (rk_identity k), dstTags (rk_identity k), dstOS (rk_identity k),
      srcCountry (rk_geo k), srcContinent (rk_geo k), dstCountry (rk_geo k), dstContinent (rk_geo k)]"

fun less_fields :: "(string \<times> string) list \<Rightarrow> bool" where
  "less_fields [] = False"
| "less_fields ((p0, p1) # ps) = (if p0 \<noteq> p1 then p0 < p1 else less_fields ps)"

definition lessRollupKey :: "rollupKey \<Rightarrow> rollupKey \<Rightarrow> bool" where
  "lessRollupKey a b = less_fields (zip (rollupKey_fields a) (rollupKey_fields b))"

definition keyedEntry_less :: "rollupKey \<times> rollupEntry \<Rightarrow> rollupKey \<times> rollupEntry \<Rightarrow> bool" where
  "keyedEntry_less x y =
     (let ti = f64_add (txBytes (snd x)) (rxBytes (snd x));
          tj = f64_add (txBytes (snd y)) (rxBytes (snd y))
      in if ti \<noteq> tj then ti > tj else lessRollupKey (fst x) (fst y))"

text \<open>The remainder groups: the fields of a key that come from fixed tables.\<close>

type_synonym otherGroup = "string \<times> string \<times> string \<times> string \<times> string"

definition key_group :: "rollupKey \<Rightarrow> otherGroup" where
  "key_group k = (rk_transport k, rk_trafficType k, rk_dstService k, rk_path k, rk_derpRegion k)"

fun group_key :: "bool \<Rightarrow> otherGroup \<Rightarrow> rollupKey" where
  "group_key nodes (tr, tt, svc, path, derp) =
     \<lparr>rk_transport = tr, rk_trafficType = tt,
      rk_srcNode = (if nodes then RollupOther else []), rk_dstNode = (if nodes then RollupOther else []),
      rk_dstService = svc, rk_path = path, rk_derpRegion = derp,
      rk_identity = zero_identity, rk_geo = zero_geo\<rparr>"

fun fold_remainder ::
  "(rollupKey \<times> rollupEntry) list \<Rightarrow> (otherGroup, rollupEntry) gomap \<Rightarrow> (otherGroup, rollupEntry) gomap" where
  "fold_remainder [] other = other"
| "fold_remainder ((k, en) # rest) other =
     (let e = (case map_of other (key_group k) of None \<Rightarrow> zero_entry | Some e \<Rightarrow> e)
      in fold_remainder rest (AList.update (key_group k) (rollupEntry_add e en) other))"

definition rollup_kept :: "rollupAccumulator \<Rightarrow> (rollupKey \<times> rollupEntry) list \<times> (rollupKey \<times> rollupEntry) list" where
  "rollup_kept a =
     (let ks = go_sort keyedEntry_less (acc_entries a); cut = min (nat (acc_topN a)) (length ks)
      in (take cut ks, drop cut ks))"

definition rollup_flushCounters :: "rollupAccumulator \<Rightarrow> point list" where
  "rollup_flushCounters a =
     (let (kept, rest) = rollup_kept a in
      concat (map (\<lambda>(k, en). rollup_emitEntry k en) kept)
      @ concat (map (\<lambda>(g, en). rollup_emitEntry (group_key (acc_nodes a) g) en) (fold_remainder rest [])))"

definition rollup_flushUnique :: "rollupAccumulator \<Rightarrow> point list" where
  "rollup_flushUnique a =
     map (\<lambda>(src, s). Gauge ''tailscale.network.unique.dst_peers'' (length s) [(''tailscale.src.node'', src)])
       (acc_dstPeers a)
     @ map (\<lambda>(src, s). Gauge ''tailscale.network.unique.dst_ports'' (length s) [(''tailscale.src.node'', src)])
       (acc_dstPorts a)"

definition rollup_reset :: "rollupAccumulator \<Rightarrow> rollupAccumulator" where
  "rollup_reset a = a\<lparr>acc_entries := [], acc_dstPeers := [], acc_dstPorts := []\<rparr>"

definition rollup_Flush :: "rollupAccumulator \<Rightarrow> point list \<times> rollupAccumulator" where
  "rollup_Flush a = (rollup_flushCounters a @ rollup_flushUnique a, rollup_reset a)"

definition rollup_Stage :: "rollupAccumulator \<Rightarrow> point list option \<times> rollupAccumulator" where
  "rollup_Stage a =
     (if acc_entries a = [] \<and> acc_dstPeers a = [] \<and> acc_dstPorts a = [] then (None, a)
      else
        (let detached = (newRollupAccumulator (acc_topN a) (acc_nodes a) (acc_identity a) (acc_geo a))
               \<lparr>acc_entries := acc_entries a, acc_dstPeers := acc_dstPeers a, acc_dstPorts := acc_dstPorts a\<rparr>
         in (Some (fst (rollup_Flush detached)), rollup_reset a)))"

section \<open>The order of the top-N selection\<close>

lemma less_fields_lex: "length xs = length ys \<Longrightarrow> less_fields (zip xs ys) \<longleftrightarrow> xs < ys"
  by (induction xs ys rule: list_induct2) auto

lemma length_rollupKey_fields [simp]: "length (rollupKey_fields k) = 17"
  by (simp add: rollupKey_fields_def)

lemma rollupKey_fields_inject: "rollupKey_fields a = rollupKey_fields b \<longleftrightarrow> a = b"
  by (auto simp: rollupKey_fields_def intro!: rollupKey.equality identityKey.equality geoKey.equality)

lemma lessRollupKey_lex: "lessRollupKey a b \<longleftrightarrow> rollupKey_fields a < rollupKey_fields b"
  by (simp add: lessRollupKey_def less_fields_lex)

interpretation rk: strict_total lessRollupKey UNIV
proof
  fix x y :: rollupKey
  show "x \<noteq> y \<Longrightarrow> lessRollupKey x y \<or> lessRollupKey y x"
    unfolding lessRollupKey_lex using rollupKey_fields_inject [of x y] by (metis neq_iff)
qed (auto simp: lessRollupKey_lex)

definition total_bytes :: "rollupEntry \<Rightarrow> nat" where
  "total_bytes e = f64_add (txBytes e) (rxBytes e)"

lemma keyedEntry_less_total:
  assumes "gomap_ok m"
  shows "strict_total keyedEntry_less (set m)"
proof (rule strict_total_desc_then_key)
  show "inj_on (rollupKey_fields \<circ> fst) (set m)"
    using assms by (intro comp_inj_on inj_onI)
      (auto simp: rollupKey_fields_inject distinct_map dest: inj_onD)
  show "keyedEntry_less x y \<longleftrightarrow>
    (if total_bytes (snd x) \<noteq> total_bytes (snd y) then total_bytes (snd x) > total_bytes (snd y)
     else (rollupKey_fields \<circ> fst) x < (rollupKey_fields \<circ> fst) y)" for x y
    by (simp add: keyedEntry_less_def total_bytes_def lessRollupKey_lex Let_def)
qed

lemma sorted_entries_order_independent:
  assumes "gomap_ok m" "mset m = mset m'"
  shows "go_sort keyedEntry_less m = go_sort keyedEntry_less m'"
proof (rule strict_total.sort_order_independent [OF keyedEntry_less_total [OF assms(1)] assms(2)])
  from assms(1) show "distinct m" using distinct_map by blast
qed simp

lemma kept_is_busiest:
  assumes "gomap_ok (acc_entries a)" "rollup_kept a = (kept, rest)" "x \<in> set kept" "y \<in> set rest"
  shows "total_bytes (snd y) \<le> total_bytes (snd x)"
proof -
  let ?ks = "go_sort keyedEntry_less (acc_entries a)"
  have "distinct (acc_entries a)" using assms(1) distinct_map by blast
  with strict_total.sort_sorted [OF keyedEntry_less_total [OF assms(1)]]
  have sorted: "sorted_wrt keyedEntry_less ?ks" by simp
  from assms(2) have "?ks = kept @ rest" by (auto simp: rollup_kept_def Let_def)
  with sorted assms(3,4) have "keyedEntry_less x y" by (simp add: sorted_wrt_append)
  then show ?thesis by (auto simp: keyedEntry_less_def total_bytes_def Let_def split: if_splits)
qed

section \<open>Conservation of totals\<close>

text \<open>The four series of an entry, and what a list of emitted points adds to one of them.\<close>

datatype series = TxBytes | RxBytes | TxPkts | RxPkts

fun series_field :: "series \<Rightarrow> rollupEntry \<Rightarrow> nat" where
  "series_field TxBytes e = txBytes e"
| "series_field RxBytes e = rxBytes e"
| "series_field TxPkts e = txPkts e"
| "series_field RxPkts e = rxPkts e"

definition series_name :: "series \<Rightarrow> string" where
  "series_name s = (if s = TxBytes \<or> s = RxBytes then MetricIORollup else MetricPacketsRollup)"

definition series_dir :: "series \<Rightarrow> string" where
  "series_dir s = (if s = TxBytes \<or> s = TxPkts then ''transmit'' else ''receive'')"

definition attr_get :: "attrs \<Rightarrow> string \<Rightarrow> string" where
  "attr_get a k = (case map_of a k of None \<Rightarrow> [] | Some v \<Rightarrow> v)"

definition attrs_group :: "attrs \<Rightarrow> otherGroup" where
  "attrs_group a = (attr_get a ''network.transport'', attr_get a ''tailscale.traffic_type'',
     attr_get a ''tailscale.dst.service'', attr_get a ''tailscale.path'',
     attr_get a ''tailscale.derp.region_id'')"

text \<open>A region without a path is not emitted, so a group is seen with its region dropped then.\<close>

definition seen_group :: "rollupKey \<Rightarrow> otherGroup" where
  "seen_group k = (rk_transport k, rk_trafficType k, rk_dstService k, rk_path k,
     if rk_path k = [] then [] else rk_derpRegion k)"

fun point_in :: "series \<Rightarrow> otherGroup \<Rightarrow> point \<Rightarrow> bool" where
  "point_in s g (Counter name v a) \<longleftrightarrow>
     name = series_name s \<and> attr_get a ''network.io.direction'' = series_dir s \<and> attrs_group a = g"
| "point_in s g (Gauge name v a) \<longleftrightarrow> False"

definition emitted :: "series \<Rightarrow> otherGroup \<Rightarrow> point list \<Rightarrow> nat" where
  "emitted s g pts = sum_list (map pt_value (filter (point_in s g) pts))"

lemma emitted_append [simp]: "emitted s g (xs @ ys) = emitted s g xs + emitted s g ys"
  by (simp add: emitted_def)

lemma emitted_Nil [simp]: "emitted s g [] = 0"
  by (simp add: emitted_def)

lemma attr_get_update: "attr_get (AList.update k v a) k' = (if k = k' then v else attr_get a k')"
  by (simp add: attr_get_def update_Some_unfold update_conv')

lemma attr_get_setIfNotEmpty:
  "attr_get (setIfNotEmpty k v a) k' = (if k = k' \<and> v \<noteq> [] then v else attr_get a k')"
  by (simp add: setIfNotEmpty_def attr_get_update)

lemmas attr_get_rules = attr_get_update attr_get_setIfNotEmpty dirAttrs_def addPathAttrs_def

lemma attrs_group_emitted: "attrs_group (dirAttrs (rollupKey_attrs k) d) = seen_group k"
  by (simp add: attrs_group_def rollupKey_attrs_def Let_def attr_get_rules seen_group_def)
    (simp add: attr_get_def)

lemma attr_get_dirAttrs: "attr_get (dirAttrs a d) ''network.io.direction'' = d"
  by (simp add: attr_get_rules)

lemma emitted_emitEntry:
  "emitted s g (rollup_emitEntry k e) = (if seen_group k = g then series_field s e else 0)"
proof -
  have [simp]: "MetricIORollup \<noteq> MetricPacketsRollup" "MetricPacketsRollup \<noteq> MetricIORollup"
    by (simp_all add: MetricIORollup_def MetricPacketsRollup_def)
  show ?thesis
    by (cases s) (auto simp: rollup_emitEntry_def Let_def emitted_def attrs_group_emitted
        series_name_def series_dir_def attr_get_dirAttrs)
qed

definition wt :: "series \<Rightarrow> otherGroup \<Rightarrow> rollupKey \<Rightarrow> rollupEntry \<Rightarrow> nat" where
  "wt s g k e = (if seen_group k = g then series_field s e else 0)"

lemma seen_group_group_key: "seen_group (group_key b (key_group k)) = seen_group k"
  by (simp add: seen_group_def key_group_def)

lemma wt_groups:
  "wt s g (group_key b (key_group k)) e = (if seen_group k = g then series_field s e else 0)"
  by (simp add: wt_def seen_group_group_key)

lemma emitted_entries:
  "emitted s g (concat (map (\<lambda>(k, e). rollup_emitEntry k e) m)) = gomap_sum (wt s g) m"
  by (induction m) (auto simp: emitted_emitEntry wt_def)

lemma emitted_groups:
  "emitted s g (concat (map (\<lambda>(h, e). rollup_emitEntry (group_key b h) e) m)) =
     gomap_sum (\<lambda>h. wt s g (group_key b h)) m"
  by (induction m) (auto simp: emitted_emitEntry wt_def)

lemma series_field_zero [simp]: "series_field s zero_entry = 0"
  by (cases s) (simp_all add: zero_entry_def)

lemma series_field_add:
  "series_field s x + series_field s y \<le> 2 ^ 53 \<Longrightarrow>
   series_field s (rollupEntry_add x y) = series_field s x + series_field s y"
  by (cases s) (simp_all add: rollupEntry_add_def f64_add_exact)

text \<open>Adding an entry under a key of its group adds its counts to the sums, exactly below the bound.\<close>

lemma gomap_sum_add_entry:
  assumes bound: "gomap_sum (\<lambda>_. series_field s) m + series_field s v \<le> 2 ^ 53"
    and w: "\<And>e. w k e = (if b then series_field s e else 0)"
    and e: "e = (case map_of m k of None \<Rightarrow> zero_entry | Some e \<Rightarrow> e)"
  shows "gomap_sum w (AList.update k (rollupEntry_add e v) m) =
    gomap_sum w m + (if b then series_field s v else 0)"
proof -
  have "series_field s e \<le> gomap_sum (\<lambda>_. series_field s) m"
    using gomap_sum_ge [of m k _ "\<lambda>_. series_field s"] e by (cases "map_of m k") auto
  with bound have "series_field s (rollupEntry_add e v) = series_field s e + series_field s v"
    by (intro series_field_add) linarith
  with gomap_sum_update [of w k "rollupEntry_add e v" m] e show ?thesis
    by (auto simp: w split: option.splits)
qed

lemma fold_remainder_conserves:
  "gomap_sum (\<lambda>_. series_field s) m + gomap_sum (\<lambda>_. series_field s) other \<le> 2 ^ 53 \<Longrightarrow>
   gomap_sum (\<lambda>h. wt s g (group_key b h)) (fold_remainder m other) =
     gomap_sum (wt s g) m + gomap_sum (\<lambda>h. wt s g (group_key b h)) other"
proof (induction m other rule: fold_remainder.induct)
  case (1 other)
  then show ?case by simp
next
  case (2 k v m other)
  define e where "e = (case map_of other (key_group k) of None \<Rightarrow> zero_entry | Some e \<Rightarrow> e)"
  have bound: "gomap_sum (\<lambda>_. series_field s) other + series_field s v \<le> 2 ^ 53"
    using "2.prems" by simp
  note step = gomap_sum_add_entry [OF bound _ e_def]
  from step [of "\<lambda>_. series_field s" True] "2.prems"
  have "gomap_sum (\<lambda>_. series_field s) m +
      gomap_sum (\<lambda>_. series_field s) (AList.update (key_group k) (rollupEntry_add e v) other) \<le> 2 ^ 53"
    by simp
  from "2.IH" [OF e_def this] step [of "\<lambda>h. wt s g (group_key b h)" "seen_group k = g"]
  show ?case by (simp add: e_def [symmetric] wt_groups wt_def [of s g k v])
qed

lemma flushCounters_conserves:
  assumes "gomap_sum (\<lambda>_. series_field s) (acc_entries a) \<le> 2 ^ 53"
  shows "emitted s g (rollup_flushCounters a) = gomap_sum (wt s g) (acc_entries a)"
proof -
  obtain kept rest where kr: "rollup_kept a = (kept, rest)" by fastforce
  then have "kept @ rest = go_sort keyedEntry_less (acc_entries a)"
    by (auto simp: rollup_kept_def Let_def)
  then have "mset (kept @ rest) = mset (acc_entries a)" by simp
  from gomap_sum_mset [OF this]
  have sums: "gomap_sum f kept + gomap_sum f rest = gomap_sum f (acc_entries a)" for f by simp
  from sums [of "\<lambda>_. series_field s"] assms have "gomap_sum (\<lambda>_. series_field s) rest \<le> 2 ^ 53" by linarith
  then show ?thesis
    using sums [of "wt s g"] kr
    by (simp add: rollup_flushCounters_def emitted_entries emitted_groups fold_remainder_conserves)
qed

section \<open>Runs of the accumulator\<close>

datatype rollup_op = Record rollupDims rollupEntry | ObserveUnique string string string

fun rollup_step :: "rollup_op \<Rightarrow> rollupAccumulator \<Rightarrow> rollupAccumulator" where
  "rollup_step (Record d v) a = rollup_record d v a"
| "rollup_step (ObserveUnique s d p) a = rollup_observeUnique s d p a"

fun op_wt :: "(rollupKey \<Rightarrow> rollupEntry \<Rightarrow> nat) \<Rightarrow> rollup_op \<Rightarrow> nat" where
  "op_wt w (Record d v) = w d v"
| "op_wt w (ObserveUnique s d p) = 0"

lemma seen_group_keys [simp]:
  "seen_group (rollup_key a d) = seen_group d" "seen_group (rollup_otherKey a d) = seen_group d"
  by (simp_all add: seen_group_def rollup_key_def rollup_otherKey_def)

lemma record_conserves:
  assumes "gomap_sum (\<lambda>_. series_field s) (acc_entries a) + series_field s v \<le> 2 ^ 53"
    and w: "\<And>k e. seen_group k = seen_group d \<Longrightarrow> w k e = (if b then series_field s e else 0)"
  shows "gomap_sum w (acc_entries (rollup_record d v a)) =
    gomap_sum w (acc_entries a) + (if b then series_field s v else 0)"
  using gomap_sum_add_entry [OF assms(1), where w = w and b = b and k = "rollup_key a d", OF _ refl]
    gomap_sum_add_entry [OF assms(1), where w = w and b = b and k = "rollup_otherKey a d", OF _ refl]
  by (simp add: rollup_record_def Let_def w)

lemma observeUnique_entries [simp]: "acc_entries (rollup_observeUnique s d p a) = acc_entries a"
  by (simp add: rollup_observeUnique_def Let_def)

lemma run_conserves:
  "gomap_sum (\<lambda>_. series_field s) (acc_entries a) + sum_list (map (op_wt (\<lambda>_. series_field s)) ops) \<le> 2 ^ 53 \<Longrightarrow>
   gomap_sum (\<lambda>_. series_field s) (acc_entries (fold rollup_step ops a)) =
     gomap_sum (\<lambda>_. series_field s) (acc_entries a) + sum_list (map (op_wt (\<lambda>_. series_field s)) ops) \<and>
   gomap_sum (wt s g) (acc_entries (fold rollup_step ops a)) =
     gomap_sum (wt s g) (acc_entries a) + sum_list (map (op_wt (wt s g)) ops)"
proof (induction ops arbitrary: a)
  case Nil
  then show ?case by simp
next
  case (Cons x ops)
  show ?case
  proof (cases x)
    case (Record d v)
    from Cons.prems Record
    have bound: "gomap_sum (\<lambda>_. series_field s) (acc_entries a) + series_field s v \<le> 2 ^ 53" by simp
    note all = record_conserves [OF bound, of d "\<lambda>_. series_field s" True, simplified]
    note grp = record_conserves [OF bound, of d "wt s g" "seen_group d = g", unfolded wt_def, simplified]
    from Cons.IH [of "rollup_record d v a"] Cons.prems Record all grp show ?thesis
      by (simp add: wt_def [abs_def])
  next
    case (ObserveUnique src dst p)
    with Cons.IH [of "rollup_observeUnique src dst p a"] Cons.prems show ?thesis by simp
  qed
qed

lemma flushUnique_no_counters [simp]: "emitted s g (rollup_flushUnique a) = 0"
  by (auto simp: emitted_def rollup_flushUnique_def filter_empty_conv)

text \<open>
  C9. Totals are exact: whatever connections are recorded into a fresh accumulator, in whatever
  order, and however many of them overflow the live-key cap or the top-N cut, the points a flush
  emits for a group and one of the four series add up to what was recorded for that group, as long
  as the total of the series stays within the integers a float64 represents exactly.
\<close>

theorem rollup_totals_conserved:
  assumes "sum_list (map (op_wt (\<lambda>_. series_field s)) ops) \<le> 2 ^ 53"
  shows "emitted s g (fst (rollup_Flush (fold rollup_step ops (newRollupAccumulator topN nodes ident geo)))) =
    (\<Sum>x \<leftarrow> ops. op_wt (\<lambda>d v. if seen_group d = g then series_field s v else 0) x)"
  using run_conserves [of s "newRollupAccumulator topN nodes ident geo" ops g] assms
  by (simp add: rollup_Flush_def flushCounters_conserves newRollupAccumulator_def wt_def [abs_def])

definition sample_dims :: "string \<Rightarrow> rollupDims" where
  "sample_dims src = \<lparr>rk_transport = ''tcp'', rk_trafficType = ''virtual'', rk_srcNode = src,
     rk_dstNode = ''db'', rk_dstService = ''ssh'', rk_path = [], rk_derpRegion = [],
     rk_identity = zero_identity, rk_geo = zero_geo\<rparr>"

definition sample_entry :: "nat \<Rightarrow> rollupEntry" where
  "sample_entry x = \<lparr>txBytes = x, rxBytes = 0, txPkts = 1, rxPkts = 0\<rparr>"

definition sample_ops :: "rollup_op list" where
  "sample_ops = [Record (sample_dims ''a'') (sample_entry 10), ObserveUnique ''a'' ''db'' ''22'',
     Record (sample_dims ''b'') (sample_entry 30), Record (sample_dims ''a'') (sample_entry 5)]"

theorem rollup_totals_conserved_witness:
  "emitted TxBytes (''tcp'', ''virtual'', ''ssh'', [], [])
     (fst (rollup_Flush (fold rollup_step sample_ops (newRollupAccumulator 1 True True False)))) = 45"
proof -
  have "sum_list (map (op_wt (\<lambda>_. series_field TxBytes)) sample_ops) \<le> 2 ^ 53"
    by (simp add: sample_ops_def sample_entry_def)
  from rollup_totals_conserved [OF this] show ?thesis
    by (simp add: sample_ops_def sample_entry_def sample_dims_def seen_group_def)
qed

section \<open>Invariant and memory bounds\<close>

definition is_other_key :: "bool \<Rightarrow> rollupKey \<Rightarrow> bool" where
  "is_other_key nodes k \<longleftrightarrow> k = group_key nodes (key_group k)"

definition unique_ok :: "(string, string list) gomap \<Rightarrow> bool" where
  "unique_ok m \<longleftrightarrow> gomap_ok m \<and> length m \<le> maxUniqueSrcNodes \<and>
     (\<forall>(k, s) \<in> set m. distinct s \<and> length s \<le> maxUniquePerSrc)"

definition rollup_ok :: "rollupAccumulator \<Rightarrow> bool" where
  "rollup_ok a \<longleftrightarrow> 0 < acc_topN a \<and> (acc_identity a \<longrightarrow> acc_nodes a) \<and> gomap_ok (acc_entries a) \<and>
     length (filter (\<lambda>k. \<not> is_other_key (acc_nodes a) k) (map fst (acc_entries a))) \<le> maxRollupKeys \<and>
     unique_ok (acc_dstPeers a) \<and> unique_ok (acc_dstPorts a)"

lemma otherKey_is_other: "is_other_key (acc_nodes a) (rollup_otherKey a d)"
  by (simp add: is_other_key_def rollup_otherKey_def key_group_def)

lemma record_ok [inv_intros]:
  assumes ok: "rollup_ok a"
  shows "rollup_ok (rollup_record d v a)"
proof -
  let ?m = "acc_entries a"
  let ?live = "\<lambda>m. length (filter (\<lambda>k. \<not> is_other_key (acc_nodes a) k) (map fst m))"
  have le: "?live m \<le> length m" for m :: "(rollupKey, rollupEntry) gomap"
    by (metis length_filter_le length_map)
  from ok have live: "?live ?m \<le> maxRollupKeys" by (simp add: rollup_ok_def)
  have upd: "?live (AList.update k e ?m) \<le> maxRollupKeys"
    if "k \<in> fst ` set ?m \<or> length ?m < maxRollupKeys \<or> is_other_key (acc_nodes a) k" for k e
    using that live le_less_trans [OF le, of ?m maxRollupKeys] by (auto simp: update_keys Suc_le_eq)
  define k where "k = (if map_of ?m (rollup_key a d) = None \<and> maxRollupKeys \<le> length ?m
    then rollup_otherKey a d else rollup_key a d)"
  have "k \<in> fst ` set ?m \<or> length ?m < maxRollupKeys \<or> is_other_key (acc_nodes a) k"
    using otherKey_is_other [of a d] by (auto simp: k_def map_of_eq_None_iff)
  then have "?live (AList.update k e ?m) \<le> maxRollupKeys" for e by (rule upd)
  moreover obtain e where "rollup_record d v a = a\<lparr>acc_entries := AList.update k e ?m\<rparr>"
    by (fastforce simp: rollup_record_def Let_def k_def split: if_splits)
  ultimately show ?thesis using ok by (simp add: rollup_ok_def)
qed

lemma addToSet_ok [inv_intros]:
  assumes "unique_ok m"
  shows "unique_ok (addToSet key val m)"
proof -
  have upd: "unique_ok (AList.update key s m)"
    if "distinct s" "length s \<le> maxUniquePerSrc" "key \<in> fst ` set m \<or> length m < maxUniqueSrcNodes" for s
    using assms that unfolding unique_ok_def
    by (intro conjI gomap_Ball_update) (auto simp: gomap_length_update)
  show ?thesis
  proof (cases "map_of m key")
    case None
    with assms upd [of "[val]"] upd [of "[]"] show ?thesis
      by (simp add: addToSet_def maxUniquePerSrc_def)
  next
    case (Some s)
    then have "(key, s) \<in> set m" by (rule map_of_SomeD)
    with assms have "distinct s" "key \<in> fst ` set m" by (force simp: unique_ok_def)+
    with Some assms upd [of "List.insert val s"] show ?thesis
      by (simp add: addToSet_def List.insert_def Suc_le_eq)
  qed
qed

lemma observeUnique_ok [inv_intros]: "rollup_ok a \<Longrightarrow> rollup_ok (rollup_observeUnique s d p a)"
  by (cases "acc_nodes a") (simp_all add: rollup_observeUnique_def Let_def rollup_ok_def addToSet_ok)

lemma new_ok [inv_intros]: "rollup_ok (newRollupAccumulator topN nodes ident geo)"
  by (simp add: rollup_ok_def newRollupAccumulator_def defaultRollupTopN_def unique_ok_def)

lemma reset_ok [inv_intros]: "rollup_ok a \<Longrightarrow> rollup_ok (rollup_reset a)"
  by (simp add: rollup_ok_def rollup_reset_def unique_ok_def)

lemma step_ok [inv_intros]: "rollup_ok a \<Longrightarrow> rollup_ok (rollup_step x a)"
  by (cases x) (auto intro: inv_intros)

lemma run_ok: "rollup_ok a \<Longrightarrow> rollup_ok (fold rollup_step ops a)"
  by (induction ops arbitrary: a) (auto intro: inv_intros)

text \<open>
  C31. Memory stays bounded between flushes: after any run of operations on a fresh accumulator the
  live map has at most 8000 keys besides the folded remainder keys (one per group), and each unique
  gauge tracks at most 2000 source nodes with at most 65536 distinct values each.
\<close>

theorem rollup_memory_bounded:
  "rollup_ok (fold rollup_step ops (newRollupAccumulator topN nodes ident geo))"
  by (rule run_ok) (rule new_ok)

lemma detached_is_same:
  "rollup_ok a \<Longrightarrow> (newRollupAccumulator (acc_topN a) (acc_nodes a) (acc_identity a) (acc_geo a))
     \<lparr>acc_entries := acc_entries a, acc_dstPeers := acc_dstPeers a, acc_dstPorts := acc_dstPorts a\<rparr> = a"
  by (auto simp: rollup_ok_def newRollupAccumulator_def intro!: rollupAccumulator.equality)

text \<open>
  C32. Staging the accumulator at a collection boundary is a flush: the staged program holds exactly
  the points a flush would emit, the accumulator is left as a flush leaves it, and nothing is staged
  only when a flush would emit nothing.
\<close>

theorem rollup_Stage_is_Flush:
  assumes "a = fold rollup_step ops (newRollupAccumulator topN nodes ident geo)"
  shows "(case rollup_Stage a of
     (Some pts, a') \<Rightarrow> (pts, a') = rollup_Flush a
   | (None, a') \<Rightarrow> a' = a \<and> rollup_Flush a = ([], a))"
  using detached_is_same [OF run_ok [OF new_ok, of ops topN nodes ident geo]]
  by (auto simp: assms [symmetric] rollup_Stage_def rollup_Flush_def Let_def rollup_flushCounters_def
      rollup_kept_def rollup_flushUnique_def rollup_reset_def)

theorem rollup_Stage_is_Flush_witness:
  "rollup_Stage (fold rollup_step [ObserveUnique ''a'' ''db'' ''22''] (newRollupAccumulator 1 True True False)) =
     (Some (rollup_flushUnique (rollup_observeUnique ''a'' ''db'' ''22'' (newRollupAccumulator 1 True True False))),
      newRollupAccumulator 1 True True False)"
proof -
  let ?a = "rollup_observeUnique ''a'' ''db'' ''22'' (newRollupAccumulator 1 True True False)"
  have a: "acc_dstPeers ?a \<noteq> []" "rollup_reset ?a = newRollupAccumulator 1 True True False"
    "rollup_flushCounters ?a = []"
    by (simp_all add: newRollupAccumulator_def rollup_observeUnique_def addToSet_def Let_def rollup_reset_def
        maxUniqueSrcNodes_def maxUniquePerSrc_def rollup_flushCounters_def rollup_kept_def)
  from rollup_Stage_is_Flush [of ?a "[ObserveUnique ''a'' ''db'' ''22'']" 1 True True False] a show ?thesis
    by (auto simp: rollup_Stage_def rollup_Flush_def Let_def)
qed

text \<open>
  The top-N selection is deterministic and right: for every iteration order of the live map the
  flush emits the same counter points, and no folded entry is busier than an entry emitted under
  its own key.
\<close>

theorem rollup_topN_deterministic:
  assumes "gomap_ok (acc_entries a)" "mset m = mset (acc_entries a)"
  shows "rollup_flushCounters (a\<lparr>acc_entries := m\<rparr>) = rollup_flushCounters a \<and>
    length (fst (rollup_kept a)) = min (nat (acc_topN a)) (length (acc_entries a)) \<and>
    (\<forall>x \<in> set (fst (rollup_kept a)). \<forall>y \<in> set (snd (rollup_kept a)).
       total_bytes (snd y) \<le> total_bytes (snd x))"
proof (intro conjI ballI)
  have "go_sort keyedEntry_less m = go_sort keyedEntry_less (acc_entries a)"
    using sorted_entries_order_independent [OF assms(1) assms(2) [symmetric]] by simp
  then show "rollup_flushCounters (a\<lparr>acc_entries := m\<rparr>) = rollup_flushCounters a"
    by (simp add: rollup_flushCounters_def rollup_kept_def)
  show "length (fst (rollup_kept a)) = min (nat (acc_topN a)) (length (acc_entries a))"
    by (simp add: rollup_kept_def Let_def)
qed (use kept_is_busiest [OF assms(1)] in \<open>cases "rollup_kept a"; simp\<close>)

theorem rollup_topN_deterministic_witness:
  "rollup_flushCounters ((newRollupAccumulator 1 True False False)\<lparr>acc_entries :=
     [(sample_dims ''b'', sample_entry 3), (sample_dims ''a'', sample_entry 3)]\<rparr>) =
   rollup_flushCounters ((newRollupAccumulator 1 True False False)\<lparr>acc_entries :=
     [(sample_dims ''a'', sample_entry 3), (sample_dims ''b'', sample_entry 3)]\<rparr>)"
  using rollup_topN_deterministic [of "(newRollupAccumulator 1 True False False)\<lparr>acc_entries :=
     [(sample_dims ''a'', sample_entry 3), (sample_dims ''b'', sample_entry 3)]\<rparr>"
     "[(sample_dims ''b'', sample_entry 3), (sample_dims ''a'', sample_entry 3)]"]
  by (simp add: sample_dims_def add_mset_commute)

end
