(* ===== verification/Series_Cardinality.thy ===== *)
theory Series_Cardinality
  imports Go_Strings "HOL-Library.Product_Lexorder"
begin

text \<open>
  \<open>src/internal/telemetry/cardinality.go\<close>: the tracker that counts the distinct attribute sets
  emitted per metric within an export interval. An attribute value is one of the dynamic types the
  code's type switches name; \<open>strconv.FormatFloat(v, 'g', -1, 64)\<close> is an argument (\<open>fmtf\<close>) of
  the definitions that render values, on the bits of the float.
\<close>

unbundle bit_operations_syntax

section \<open>Attribute values and their fingerprint\<close>

datatype attr_value =
    VString string
  | VBool bool
  | VInt int
  | VInt64 int
  | VFloat64 "64 word"
  | VStrings "string list"
  | VOther

type_synonym Attrs = "(string, attr_value) gomap"

definition strconv_FormatInt :: "int \<Rightarrow> string" where
  "strconv_FormatInt i = (if i < 0 then CHR ''-'' # dec_digits (nat (- i)) else dec_digits (nat i))"

fun strings_Join :: "string list \<Rightarrow> string \<Rightarrow> string" where
  "strings_Join [] sep = []"
| "strings_Join [s] sep = s"
| "strings_Join (s # ss) sep = s @ sep @ strings_Join ss sep"

fun valueString :: "(64 word \<Rightarrow> string) \<Rightarrow> attr_value \<Rightarrow> string" where
  "valueString fmtf (VString s) = s"
| "valueString fmtf (VBool b) = (if b then ''true'' else ''false'')"
| "valueString fmtf (VInt i) = strconv_FormatInt i"
| "valueString fmtf (VInt64 i) = strconv_FormatInt i"
| "valueString fmtf (VFloat64 f) = fmtf f"
| "valueString fmtf (VStrings ss) = strings_Join ss '',''"
| "valueString fmtf VOther = []"

definition fp_offset :: "64 word" where "fp_offset = 1469598103934665603"

definition fp_prime :: "64 word" where "fp_prime = 1099511628211"

definition fp_writeByte :: "char \<Rightarrow> 64 word \<Rightarrow> 64 word" where
  "fp_writeByte b h = (h XOR of_nat (of_char b)) * fp_prime"

definition fp_writeString :: "string \<Rightarrow> 64 word \<Rightarrow> 64 word" where
  "fp_writeString s h = fold fp_writeByte s h"

definition fp_field_sep :: char where "fp_field_sep = CHR 0x1f"

definition fp_pair_sep :: char where "fp_pair_sep = CHR 0x1e"

fun fp_writeStrings :: "bool \<Rightarrow> string list \<Rightarrow> 64 word \<Rightarrow> 64 word" where
  "fp_writeStrings isfirst [] h = h"
| "fp_writeStrings isfirst (s # ss) h =
     fp_writeStrings False ss (fp_writeString s (if isfirst then h else fp_writeByte fp_field_sep h))"

fun fp_writeValue :: "(64 word \<Rightarrow> string) \<Rightarrow> attr_value \<Rightarrow> 64 word \<Rightarrow> 64 word" where
  "fp_writeValue fmtf (VString s) h = fp_writeString s h"
| "fp_writeValue fmtf (VBool b) h = fp_writeByte (if b then CHR ''1'' else CHR ''0'') h"
| "fp_writeValue fmtf (VInt i) h = fp_writeString (strconv_FormatInt i) h"
| "fp_writeValue fmtf (VInt64 i) h = fp_writeString (strconv_FormatInt i) h"
| "fp_writeValue fmtf (VFloat64 f) h = fp_writeString (fmtf f) h"
| "fp_writeValue fmtf (VStrings ss) h = fp_writeStrings True ss h"
| "fp_writeValue fmtf VOther h = h"

definition attr_lookup :: "Attrs \<Rightarrow> string \<Rightarrow> attr_value" where
  "attr_lookup a k = (case map_of a k of None \<Rightarrow> VOther | Some v \<Rightarrow> v)"

definition fingerprint :: "(64 word \<Rightarrow> string) \<Rightarrow> Attrs \<Rightarrow> 64 word" where
  "fingerprint fmtf a =
     (if a = [] then fp_offset
      else fold (\<lambda>k h. fp_writeByte fp_pair_sep (fp_writeValue fmtf (attr_lookup a k)
             (fp_writeByte fp_field_sep (fp_writeString k h))))
           (sort_Strings (map fst a)) fp_offset)"

section \<open>The tracker\<close>

record labelValueSet =
  lv_values :: "string list"
  lv_capped :: bool

record seriesSet =
  ss_fps :: "64 word list"
  ss_capped :: bool
  ss_labels :: "(string, labelValueSet) gomap"

record SeriesCount =
  sc_Metric :: string
  sc_Count :: nat
  sc_Capped :: bool

record LabelStat =
  ls_Metric :: string
  ls_Label :: string
  ls_Distinct :: nat
  ls_Capped :: bool
  ls_Examples :: "string list"

record CardinalityTracker =
  ct_sets :: "(string, seriesSet) gomap"
  ct_seriesCap :: int
  ct_labelValueCap :: int
  ct_configuredLimit :: int
  ct_last :: "SeriesCount list option"
  ct_lastLabels :: "LabelStat list option"

definition seriesSelfPrefix :: string where
  "seriesSelfPrefix = ''tailscale2otel.series.''"

definition defaultSeriesCap :: int where "defaultSeriesCap = 10000"

definition defaultLabelValueCap :: int where "defaultLabelValueCap = 100"

definition NewCardinalityTrackerWithLimits :: "int \<Rightarrow> int \<Rightarrow> CardinalityTracker" where
  "NewCardinalityTrackerWithLimits seriesCap labelValueCap =
     \<lparr>ct_sets = [], ct_seriesCap = (if seriesCap \<le> 0 then defaultSeriesCap else seriesCap),
      ct_labelValueCap = (if labelValueCap < 0 then 0 else labelValueCap),
      ct_configuredLimit = seriesCap, ct_last = None, ct_lastLabels = None\<rparr>"

definition NewCardinalityTrackerWithCap :: "int \<Rightarrow> CardinalityTracker" where
  "NewCardinalityTrackerWithCap seriesCap = NewCardinalityTrackerWithLimits seriesCap defaultLabelValueCap"

definition NewCardinalityTracker :: CardinalityTracker where
  "NewCardinalityTracker = NewCardinalityTrackerWithLimits defaultSeriesCap defaultLabelValueCap"

definition observeValue :: "(64 word \<Rightarrow> string) \<Rightarrow> int \<Rightarrow> attr_value \<Rightarrow> labelValueSet \<Rightarrow> labelValueSet" where
  "observeValue fmtf labelCap v lv =
     (if lv_capped lv then lv
      else let val = valueString fmtf v in
           if val \<in> set (lv_values lv) then lv
           else if labelCap \<le> int (length (lv_values lv)) then lv\<lparr>lv_capped := True\<rparr>
           else lv\<lparr>lv_values := set_insert val (lv_values lv)\<rparr>)"

definition observeLabels :: "(64 word \<Rightarrow> string) \<Rightarrow> int \<Rightarrow> Attrs \<Rightarrow> seriesSet \<Rightarrow> seriesSet" where
  "observeLabels fmtf labelCap a s =
     s\<lparr>ss_labels := fold (\<lambda>(k, v) ls.
         let lv = (case map_of ls k of None \<Rightarrow> \<lparr>lv_values = [], lv_capped = False\<rparr> | Some lv \<Rightarrow> lv)
         in AList.update k (observeValue fmtf labelCap v lv) ls) a (ss_labels s)\<rparr>"

definition Observe ::
  "(64 word \<Rightarrow> string) \<Rightarrow> string \<Rightarrow> Attrs \<Rightarrow> CardinalityTracker \<Rightarrow> CardinalityTracker" where
  "Observe fmtf name a t =
     (if strings_HasPrefix name seriesSelfPrefix then t
      else
        (let fp = fingerprint fmtf a;
             s0 = (case map_of (ct_sets t) name of
                     None \<Rightarrow> \<lparr>ss_fps = [], ss_capped = False, ss_labels = []\<rparr> | Some s \<Rightarrow> s);
             s1 = (if 0 < ct_labelValueCap t then observeLabels fmtf (ct_labelValueCap t) a s0 else s0);
             s2 = (if ct_seriesCap t \<le> int (length (ss_fps s1)) then s1\<lparr>ss_capped := True\<rparr>
                   else s1\<lparr>ss_fps := set_insert fp (ss_fps s1)\<rparr>)
         in t\<lparr>ct_sets := AList.update name s2 (ct_sets t)\<rparr>))"

definition labelStat :: "string \<Rightarrow> string \<Rightarrow> labelValueSet \<Rightarrow> LabelStat" where
  "labelStat metric label lv =
     \<lparr>ls_Metric = metric, ls_Label = label, ls_Distinct = length (lv_values lv),
      ls_Capped = lv_capped lv, ls_Examples = sort_Strings (lv_values lv)\<rparr>"

definition labelStat_less :: "LabelStat \<Rightarrow> LabelStat \<Rightarrow> bool" where
  "labelStat_less x y =
     (if ls_Distinct x \<noteq> ls_Distinct y then ls_Distinct x > ls_Distinct y
      else if ls_Metric x \<noteq> ls_Metric y then ls_Metric x < ls_Metric y
      else ls_Label x < ls_Label y)"

definition seriesCount_less :: "SeriesCount \<Rightarrow> SeriesCount \<Rightarrow> bool" where
  "seriesCount_less x y =
     (if sc_Count x \<noteq> sc_Count y then sc_Count x > sc_Count y else sc_Metric x < sc_Metric y)"

type_synonym gauge_call = "string \<times> int \<times> (string, string) gomap"

definition report_entry :: "bool \<Rightarrow> SeriesCount \<Rightarrow> gauge_call list" where
  "report_entry limited en =
     [(''tailscale2otel.series.active'', int (sc_Count en), [(''metric.name'', sc_Metric en)]),
      (''tailscale2otel.series.overflowing'', if limited \<and> sc_Capped en then 1 else 0,
       [(''metric.name'', sc_Metric en)])]"

definition Report :: "CardinalityTracker \<Rightarrow> gauge_call list \<times> CardinalityTracker" where
  "Report t =
     (let counts = map (\<lambda>(name, s). \<lparr>sc_Metric = name, sc_Count = length (ss_fps s), sc_Capped = ss_capped s\<rparr>)
            (ct_sets t);
          labels = concat (map (\<lambda>(name, s). map (\<lambda>(key, lv). labelStat name key lv) (ss_labels s)) (ct_sets t));
          labels' = go_sort labelStat_less labels; counts' = go_sort seriesCount_less counts;
          limited = 0 < ct_configuredLimit t
      in (concat (map (report_entry limited) counts')
            @ (if limited then [(''tailscale2otel.series.limit'', ct_configuredLimit t, [])] else []),
          t\<lparr>ct_sets := [], ct_lastLabels := (if labels = [] then None else Some labels'),
            ct_last := Some counts'\<rparr>))"

definition cardinality_Snapshot :: "CardinalityTracker \<Rightarrow> SeriesCount list option" where
  "cardinality_Snapshot t = ct_last t"

definition cardinality_LabelSnapshot :: "CardinalityTracker \<Rightarrow> LabelStat list option" where
  "cardinality_LabelSnapshot t = ct_lastLabels t"

section \<open>The fingerprint does not depend on the iteration order\<close>

lemma map_of_perm: "gomap_ok m \<Longrightarrow> mset m = mset m' \<Longrightarrow> map_of m = map_of m'"
  by (metis gomap_perm_ok map_of_inject_set mset_eq_setD)

lemma fingerprint_perm:
  assumes "gomap_ok a" "mset a = mset a'"
  shows "fingerprint fmtf a = fingerprint fmtf a'"
proof -
  have "sort_Strings (map fst a) = sort_Strings (map fst a')"
    using assms by (intro sort_Strings_perm) simp_all
  moreover have "attr_lookup a = attr_lookup a'"
    using map_of_perm [OF assms] by (simp add: attr_lookup_def [abs_def])
  ultimately show ?thesis using assms(2) by (auto simp: fingerprint_def)
qed

section \<open>What the tracker counts\<close>

definition empty_labels :: labelValueSet where
  "empty_labels = \<lparr>lv_values = [], lv_capped = False\<rparr>"

definition empty_series :: seriesSet where
  "empty_series = \<lparr>ss_fps = [], ss_capped = False, ss_labels = []\<rparr>"

definition series_step :: "(64 word \<Rightarrow> string) \<Rightarrow> int \<Rightarrow> int \<Rightarrow> Attrs \<Rightarrow> seriesSet \<Rightarrow> seriesSet" where
  "series_step fmtf cap labelCap a s =
     (let s1 = (if 0 < labelCap then observeLabels fmtf labelCap a s else s)
      in if cap \<le> int (length (ss_fps s1)) then s1\<lparr>ss_capped := True\<rparr>
         else s1\<lparr>ss_fps := set_insert (fingerprint fmtf a) (ss_fps s1)\<rparr>)"

lemma Observe_modify:
  "Observe fmtf name a t =
     (if strings_HasPrefix name seriesSelfPrefix then t
      else t\<lparr>ct_sets := gomap_modify empty_series (series_step fmtf (ct_seriesCap t) (ct_labelValueCap t))
              (name, a) (ct_sets t)\<rparr>)"
  by (simp add: Observe_def gomap_modify_def series_step_def empty_series_def Let_def)

lemma observeLabels_modify:
  "observeLabels fmtf cap a s =
     s\<lparr>ss_labels := fold (gomap_modify empty_labels (observeValue fmtf cap)) a (ss_labels s)\<rparr>"
  by (simp add: observeLabels_def gomap_modify_def [abs_def] empty_labels_def Let_def case_prod_unfold)

definition counted :: "(string \<times> Attrs) list \<Rightarrow> (string \<times> Attrs) list" where
  "counted obs = filter (\<lambda>(n, a). \<not> strings_HasPrefix n seriesSelfPrefix) obs"

definition observe_all ::
  "(64 word \<Rightarrow> string) \<Rightarrow> (string \<times> Attrs) list \<Rightarrow> CardinalityTracker \<Rightarrow> CardinalityTracker" where
  "observe_all fmtf obs t = fold (\<lambda>(n, a). Observe fmtf n a) obs t"

lemma observe_all_sets:
  "observe_all fmtf obs t =
     t\<lparr>ct_sets := fold (gomap_modify empty_series
         (series_step fmtf (ct_seriesCap t) (ct_labelValueCap t))) (counted obs) (ct_sets t)\<rparr>"
  unfolding observe_all_def counted_def
  by (induction obs arbitrary: t) (auto simp: Observe_modify)

lemma fps_step:
  assumes "0 < cap" "ss_fps s = take (nat cap) (first_occurrences fl)"
  shows "ss_fps (series_step fmtf cap lc a s) =
      take (nat cap) (first_occurrences (fl @ [fingerprint fmtf a])) \<and>
    ss_capped (series_step fmtf cap lc a s) = (ss_capped s \<or> nat cap \<le> card (set fl))"
proof -
  have eq: "ss_fps (if 0 < lc then observeLabels fmtf lc a s else s) = ss_fps s"
    "ss_capped (if 0 < lc then observeLabels fmtf lc a s else s) = ss_capped s"
    by (simp_all add: observeLabels_def)
  have len: "cap \<le> int (length (ss_fps s)) \<longleftrightarrow> nat cap \<le> card (set fl)"
    using assms by (auto simp: length_first_occurrences)
  show ?thesis
  proof (cases "nat cap \<le> card (set fl)")
    case True
    with assms len eq show ?thesis
      by (simp add: series_step_def Let_def first_occurrences_snoc set_insert_def length_first_occurrences)
  next
    case False
    then have "ss_fps s = first_occurrences fl" using assms by (simp add: length_first_occurrences)
    moreover from False have "length (set_insert x (first_occurrences fl)) \<le> nat cap" for x
      by (simp add: set_insert_def length_first_occurrences)
    ultimately show ?thesis
      using False len eq by (simp add: series_step_def Let_def first_occurrences_snoc)
  qed
qed

lemma fps_fold:
  assumes "0 < cap"
  shows "ss_fps (fold (series_step fmtf cap lc) as empty_series) =
      take (nat cap) (first_occurrences (map (fingerprint fmtf) as)) \<and>
    ss_capped (fold (series_step fmtf cap lc) as empty_series) =
      (nat cap \<le> card (set (butlast (map (fingerprint fmtf) as))))"
proof (induction as rule: rev_induct)
  case Nil
  then show ?case using assms by (simp add: empty_series_def)
next
  case (snoc a as)
  let ?s = "fold (series_step fmtf cap lc) as empty_series"
  have "card (set (butlast (map (fingerprint fmtf) as))) \<le> card (set (map (fingerprint fmtf) as))"
    by (intro card_mono) (auto dest: in_set_butlastD)
  with snoc fps_step [OF assms, of ?s "map (fingerprint fmtf) as" fmtf lc a] show ?case
    by (auto intro: le_trans)
qed

lemma value_step:
  assumes "0 < cap" and vals: "lv_values lv = take (nat cap) (first_occurrences xs)"
    and capd: "lv_capped lv = (nat cap < card (set xs))" and x: "x = valueString fmtf v"
  shows "lv_values (observeValue fmtf cap v lv) = take (nat cap) (first_occurrences (xs @ [x])) \<and>
    lv_capped (observeValue fmtf cap v lv) = (nat cap < card (set (xs @ [x])))"
proof -
  note defs = observeValue_def Let_def x first_occurrences_snoc set_insert_def length_first_occurrences
  consider (capped) "nat cap < card (set xs)" | (known) "card (set xs) \<le> nat cap" "x \<in> set xs"
    | (full) "card (set xs) = nat cap" "x \<notin> set xs" | (room) "card (set xs) < nat cap" "x \<notin> set xs"
    by linarith
  then show ?thesis
    by cases (use assms in \<open>simp_all add: defs card_insert_if\<close>)
qed

lemma value_fold:
  assumes "0 < cap"
  shows "lv_values (fold (observeValue fmtf cap) vs empty_labels) =
      take (nat cap) (first_occurrences (map (valueString fmtf) vs)) \<and>
    lv_capped (fold (observeValue fmtf cap) vs empty_labels) =
      (nat cap < card (set (map (valueString fmtf) vs)))"
proof (induction vs rule: rev_induct)
  case Nil
  then show ?case by (simp add: empty_labels_def)
next
  case (snoc v vs)
  then have "lv_values (fold (observeValue fmtf cap) vs empty_labels) =
      take (nat cap) (first_occurrences (map (valueString fmtf) vs))"
    "lv_capped (fold (observeValue fmtf cap) vs empty_labels) =
      (nat cap < card (set (map (valueString fmtf) vs)))" by blast+
  from value_step [OF assms this refl] show ?case by simp
qed

lemma labels_step:
  "ss_labels (series_step fmtf cap lc a s) =
     (if 0 < lc then fold (gomap_modify empty_labels (observeValue fmtf lc)) a (ss_labels s) else ss_labels s)"
  by (simp add: series_step_def Let_def observeLabels_modify)

lemma labels_fold:
  "ss_labels (fold (series_step fmtf cap lc) as empty_series) =
     (if 0 < lc then fold (gomap_modify empty_labels (observeValue fmtf lc)) (concat as) [] else [])"
proof (induction as rule: rev_induct)
  case Nil
  then show ?case by (simp add: empty_series_def)
next
  case (snoc a as)
  then show ?case by (simp add: labels_step)
qed

text \<open>The count that an interval's observations of one metric must produce.\<close>

definition series_spec ::
  "(64 word \<Rightarrow> string) \<Rightarrow> int \<Rightarrow> (string \<times> Attrs) list \<Rightarrow> string \<Rightarrow> SeriesCount" where
  "series_spec fmtf cap obs m =
     (let fl = map (fingerprint fmtf) (values_of m obs)
      in \<lparr>sc_Metric = m, sc_Count = min (nat cap) (card (set fl)),
          sc_Capped = (nat cap \<le> card (set (butlast fl)))\<rparr>)"

lemma fold_modify_keys:
  "fst ` set (fold (gomap_modify init step) xs []) = fst ` set xs"
proof -
  have "k \<in> fst ` set (fold (gomap_modify init step) xs []) \<longleftrightarrow> k \<in> fst ` set xs" for k
    using map_of_fold_modify [of init step xs "[]" k]
    by (metis (no_types, lifting) map_of.simps(1) map_of_eq_None_iff option.distinct(1) values_of_empty_iff)
  then show ?thesis by blast
qed

lemma values_of_counted: "m \<in> fst ` set (counted obs) \<Longrightarrow> values_of m (counted obs) = values_of m obs"
  by (auto simp: counted_def values_of_def intro!: arg_cong [of _ _ "map snd"] filter_cong)

lemma gomap_set_conv: "gomap_ok m \<Longrightarrow> set m = (\<lambda>k. (k, the (map_of m k))) ` (fst ` set m)"
  by (force simp: image_image)

lemma sorted_counts:
  assumes "distinct (map sc_Metric xs)"
  shows "sorted_wrt seriesCount_less (go_sort seriesCount_less xs)"
proof -
  have "strict_total seriesCount_less (set xs)"
    using assms
    by (intro strict_total_desc_then_key [of sc_Metric _ _ sc_Count]) (auto simp: distinct_map seriesCount_less_def)
  then show ?thesis using assms distinct_map by (intro strict_total.sort_sorted) auto
qed

lemma Report_last:
  assumes "ct_sets t = []" "0 < ct_seriesCap t"
  shows "\<exists>counts. ct_last (snd (Report (observe_all fmtf obs t))) = Some counts \<and>
    distinct (map sc_Metric counts) \<and> sorted_wrt seriesCount_less counts \<and>
    set counts = series_spec fmtf (ct_seriesCap t) obs ` (fst ` set (counted obs))"
proof -
  let ?step = "series_step fmtf (ct_seriesCap t) (ct_labelValueCap t)"
  let ?m = "fold (gomap_modify empty_series ?step) (counted obs) []"
  let ?count = "\<lambda>(name, s). \<lparr>sc_Metric = name, sc_Count = length (ss_fps s), sc_Capped = ss_capped s\<rparr>"
  have ok: "gomap_ok ?m" by (rule gomap_ok_fold_modify) simp
  have last: "ct_last (snd (Report (observe_all fmtf obs t))) = Some (go_sort seriesCount_less (map ?count ?m))"
    using assms(1) by (simp add: observe_all_sets Report_def Let_def)
  have spec: "?count (n, the (map_of ?m n)) = series_spec fmtf (ct_seriesCap t) obs n"
    if "n \<in> fst ` set (counted obs)" for n
    using that values_of_empty_iff [of n "counted obs"]
      fps_fold [OF assms(2), of fmtf "ct_labelValueCap t" "values_of n obs"]
    by (simp add: map_of_fold_modify values_of_counted series_spec_def Let_def length_first_occurrences
        min.commute)
  have "set (map ?count ?m) = ?count ` ((\<lambda>n. (n, the (map_of ?m n))) ` (fst ` set (counted obs)))"
    by (simp only: set_map arg_cong [OF gomap_set_conv [OF ok], of "image ?count"] fold_modify_keys)
  also have "\<dots> = (\<lambda>n. ?count (n, the (map_of ?m n))) ` (fst ` set (counted obs))"
    by (simp only: image_image)
  also have "\<dots> = series_spec fmtf (ct_seriesCap t) obs ` (fst ` set (counted obs))"
    using spec by (rule image_cong [OF refl])
  finally have set: "set (map ?count ?m) = series_spec fmtf (ct_seriesCap t) obs ` (fst ` set (counted obs))" .
  have metrics: "distinct (map sc_Metric (map ?count ?m))"
    using ok by (simp add: comp_def case_prod_unfold)
  then have "distinct (map sc_Metric (go_sort seriesCount_less (map ?count ?m)))"
    by (simp only: distinct_map_go_sort)
  with last set sorted_counts [OF metrics] show ?thesis by simp
qed

text \<open>
  C33. The tracker counts exactly: for every iteration order of the attribute maps, an interval's
  report lists each metric observed in it once (the tracker's own series excepted), highest count
  first, with the number of distinct fingerprints of its observations, pinned at the cap; and it
  marks a metric capped exactly when an observation arrived after the cap was already reached.
\<close>

theorem cardinality_counts_exact:
  assumes "ct_sets t = []" "0 < ct_seriesCap t"
  shows "\<exists>counts. cardinality_Snapshot (snd (Report (observe_all fmtf obs t))) = Some counts \<and>
    distinct (map sc_Metric counts) \<and> sorted_wrt seriesCount_less counts \<and>
    set counts = (\<lambda>m. let fl = map (fingerprint fmtf) (values_of m obs)
       in \<lparr>sc_Metric = m, sc_Count = min (nat (ct_seriesCap t)) (card (set fl)),
           sc_Capped = (nat (ct_seriesCap t) \<le> card (set (butlast fl)))\<rparr>) `
       {m \<in> fst ` set obs. \<not> strings_HasPrefix m seriesSelfPrefix}"
proof -
  have "fst ` set (counted obs) = {m \<in> fst ` set obs. \<not> strings_HasPrefix m seriesSelfPrefix}"
    by (force simp: counted_def)
  with Report_last [OF assms, of fmtf obs] show ?thesis
    by (simp add: cardinality_Snapshot_def series_spec_def [abs_def])
qed

definition sample_obs :: "(string \<times> Attrs) list" where
  "sample_obs = [(''m'', [(''a'', VString ''x'')]), (''m'', [(''a'', VString ''x'')]),
     (''tailscale2otel.series.active'', [])]"

theorem cardinality_counts_exact_witness:
  "cardinality_Snapshot (snd (Report (observe_all (\<lambda>_. []) sample_obs (NewCardinalityTrackerWithLimits 1 10)))) =
     Some [\<lparr>sc_Metric = ''m'', sc_Count = 1, sc_Capped = True\<rparr>]"
proof -
  let ?t = "NewCardinalityTrackerWithLimits 1 10"
  have t: "ct_sets ?t = []" "0 < ct_seriesCap ?t" "ct_seriesCap ?t = 1"
    by (simp_all add: NewCardinalityTrackerWithLimits_def)
  have names: "{m \<in> fst ` set sample_obs. \<not> strings_HasPrefix m seriesSelfPrefix} = {''m''}"
    by (auto simp: sample_obs_def strings_HasPrefix_def seriesSelfPrefix_def)
  from cardinality_counts_exact [OF t(1,2), of "\<lambda>_. []" sample_obs]
  obtain counts where c: "cardinality_Snapshot (snd (Report (observe_all (\<lambda>_. []) sample_obs ?t))) = Some counts"
    "distinct (map sc_Metric counts)" "set counts = {\<lparr>sc_Metric = ''m'', sc_Count = 1, sc_Capped = True\<rparr>}"
    unfolding names by (auto simp: t sample_obs_def Let_def)
  then have "counts = [\<lparr>sc_Metric = ''m'', sc_Count = 1, sc_Capped = True\<rparr>]"
    by (intro distinct_set_singleton) (auto simp: distinct_map)
  with c show ?thesis by simp
qed

lemma labels_report:
  assumes "ct_sets t = []" "0 < ct_labelValueCap t" "m \<in> fst ` set (counted obs)"
  shows "\<exists>s. map_of (ct_sets (observe_all fmtf obs t)) m = Some s \<and>
    map_of (ss_labels s) k =
      (if values_of k (concat (values_of m obs)) = [] then None
       else Some (fold (observeValue fmtf (ct_labelValueCap t)) (values_of k (concat (values_of m obs))) empty_labels))"
  using assms values_of_empty_iff [of m "counted obs"]
  by (auto simp: observe_all_sets map_of_fold_modify labels_fold values_of_counted)

text \<open>
  The label view is exact too, and its cap flag is sharper: for each metric and attribute key the
  tracker keeps the first distinct rendered values up to the cap, and marks the key capped exactly
  when more distinct values than the cap were observed.
\<close>

theorem cardinality_label_values_exact:
  assumes "ct_sets t = []" "0 < ct_labelValueCap t"
    and "\<not> strings_HasPrefix m seriesSelfPrefix"
    and "values_of k (concat (values_of m obs)) \<noteq> []"
  shows "\<exists>s lv. map_of (ct_sets (observe_all fmtf obs t)) m = Some s \<and> map_of (ss_labels s) k = Some lv \<and>
    lv_values lv = take (nat (ct_labelValueCap t))
      (first_occurrences (map (valueString fmtf) (values_of k (concat (values_of m obs))))) \<and>
    lv_capped lv = (nat (ct_labelValueCap t) <
      card (set (map (valueString fmtf) (values_of k (concat (values_of m obs))))))"
proof -
  from assms(4) have "values_of m obs \<noteq> []" by auto
  with assms(3) have "m \<in> fst ` set (counted obs)"
    unfolding values_of_empty_iff by (force simp: counted_def)
  from labels_report [OF assms(1,2) this, of fmtf k] assms(4)
    value_fold [OF assms(2), of fmtf "values_of k (concat (values_of m obs))"]
  show ?thesis by auto
qed

theorem cardinality_label_values_exact_witness:
  "\<exists>s lv. map_of (ct_sets (observe_all (\<lambda>_. []) sample_obs (NewCardinalityTrackerWithLimits 1 1))) ''m'' = Some s \<and>
     map_of (ss_labels s) ''a'' = Some lv \<and> lv_values lv = [''x''] \<and> \<not> lv_capped lv"
proof -
  let ?t = "NewCardinalityTrackerWithLimits 1 1"
  have "ct_sets ?t = []" "0 < ct_labelValueCap ?t" "ct_labelValueCap ?t = 1"
    "\<not> strings_HasPrefix ''m'' seriesSelfPrefix"
    by (simp_all add: NewCardinalityTrackerWithLimits_def strings_HasPrefix_def seriesSelfPrefix_def)
  with cardinality_label_values_exact [of ?t "''m''" "''a''" sample_obs "\<lambda>_. []"] show ?thesis
    by (simp add: sample_obs_def first_occurrences_def)
qed

text \<open>
  The fingerprint of an attribute set does not depend on the order in which Go iterates the map.
\<close>

theorem fingerprint_order_independent:
  assumes "gomap_ok a" "mset a = mset a'"
  shows "fingerprint fmtf a = fingerprint fmtf a'"
  using assms by (rule fingerprint_perm)

theorem fingerprint_order_independent_witness:
  "fingerprint (\<lambda>_. []) [(''a'', VInt 1), (''b'', VBool True)] =
   fingerprint (\<lambda>_. []) [(''b'', VBool True), (''a'', VInt 1)]"
  using fingerprint_order_independent [of "[(''a'', VInt 1), (''b'', VBool True)]"
    "[(''b'', VBool True), (''a'', VInt 1)]" "\<lambda>_. []"]
  by (simp add: add_mset_commute)

text \<open>
  Two places where the code does not do what its comments say. The separators do not keep attribute
  sets apart when a value contains them, and \<open>valueString\<close> identifies string slices that the
  fingerprint treats as different inputs.
\<close>

lemma fingerprint_separator_collision:
  "fingerprint fmtf [(''a'', VString (''x'' @ [fp_pair_sep] @ ''b'' @ [fp_field_sep] @ ''y''))] =
   fingerprint fmtf [(''a'', VString ''x''), (''b'', VString ''y'')]"
  by (simp add: fingerprint_def sort_Strings_def attr_lookup_def fp_writeString_def)

lemma valueString_joins_slices:
  "valueString fmtf (VStrings [''a,b'']) = valueString fmtf (VStrings [''a'', ''b''])"
  by simp

end
