(* ===== verification/Wal_Format.thy ===== *)
theory Wal_Format
  imports Go_Strings Sha256
begin

text \<open>
  \<open>src/internal/ingresswal/record.go\<close> and the name and marker formats of \<open>wal.go\<close>: what the ingress
  write-ahead log puts on disk. An entry file is a header (magic, version, big-endian payload
  length), a JSON payload and a SHA-256 checksum; a completion marker has two sequence numbers and
  the identity; file names carry a zero-padded sequence and the identity. \<open>encoding/json\<close> and the
  RFC 3339 formatting of times are parameters (\<open>wal_lib\<close>), with their documented round trip as the
  hypothesis \<open>wal_lib_ok\<close>: JSON strings survive when they are valid UTF-8, times when their year has
  four digits. Sequence numbers are natural numbers below two to the 64; the code refuses to count
  past that.
\<close>

section \<open>Errors\<close>

datatype CapacityLimit = LimitBytes | LimitEntries

datatype wal_error =
    ErrClosed
  | FullError CapacityLimit int int int
  | CorruptError string
  | IncompatibleError char
  | OwnershipError string
  | ErrPreparedToken
  | CtxErr
  | PlainError string
  | JoinError "wal_error list"

text \<open>\<open>errors.Join\<close> drops nil errors and is nil when nothing is left.\<close>

definition errors_Join :: "wal_error option list \<Rightarrow> wal_error option" where
  "errors_Join es = (case List.map_filter id es of [] \<Rightarrow> None | xs \<Rightarrow> Some (JoinError xs))"

section \<open>Envelopes and identities\<close>

record Envelope =
  env_ID :: string
  env_Tailnet :: string
  env_Source :: string
  env_Signal :: string
  env_Accepted :: gotime
  env_Body :: string

record diskEnvelope =
  de_Sequence :: nat
  de_ID :: string
  de_Tailnet :: string
  de_Source :: string
  de_Signal :: string
  de_Accepted :: string
  de_Body :: string

record storedRecord =
  sr_Sequence :: nat
  sr_Envelope :: Envelope

datatype json_next = NextEOF | NextValue | NextError

record wal_lib =
  lib_Marshal :: "diskEnvelope \<Rightarrow> string option"
  lib_Decode :: "string \<Rightarrow> (diskEnvelope \<times> string) option"
  lib_Next :: "string \<Rightarrow> json_next"
  lib_FormatTime :: "gotime \<Rightarrow> string"
  lib_ParseTime :: "string \<Rightarrow> gotime option"

definition recordVersion :: char where "recordVersion = CHR 0x01"

definition recordMagic :: string where "recordMagic = ''TS2WAL01''"

definition recordHeaderBytes :: nat where "recordHeaderBytes = 17"

definition checksumBytes :: nat where "checksumBytes = 32"

definition idLength :: nat where "idLength = 64"

definition maxTailnetBytes :: nat where "maxTailnetBytes = 1024"

definition maxSourceBytes :: nat where "maxSourceBytes = 64"

definition maxSignalBytes :: nat where "maxSignalBytes = 64"

definition maxBodyBytes :: nat where "maxBodyBytes = 64 * 2 ^ 20"

definition validateField :: "string \<Rightarrow> string \<Rightarrow> nat \<Rightarrow> wal_error option" where
  "validateField name v maxlen =
     (if v = [] then Some (PlainError (''ingress WAL identity: '' @ name @ '' is required''))
      else if maxlen < length v then Some (PlainError (''ingress WAL identity: '' @ name @ '' exceeds its bound''))
      else None)"

definition validateIdentityInputs :: "string \<Rightarrow> string \<Rightarrow> string \<Rightarrow> string \<Rightarrow> wal_error option" where
  "validateIdentityInputs tailnet source signal body =
     (case validateField ''tailnet'' tailnet maxTailnetBytes of
        Some e \<Rightarrow> Some e
      | None \<Rightarrow>
          (case validateField ''source'' source maxSourceBytes of
             Some e \<Rightarrow> Some e
           | None \<Rightarrow>
               (case validateField ''signal'' signal maxSignalBytes of
                  Some e \<Rightarrow> Some e
                | None \<Rightarrow>
                    (if maxBodyBytes < length body
                     then Some (PlainError ''ingress WAL identity: body exceeds its bound'') else None))))"

definition id_field :: "string \<Rightarrow> string" where
  "id_field s = be_put 8 (length s) @ s"

definition id_bytes :: "string \<Rightarrow> string \<Rightarrow> string \<Rightarrow> string \<Rightarrow> string" where
  "id_bytes tailnet source signal body =
     [recordVersion] @ id_field tailnet @ id_field source @ id_field signal @ id_field body"

definition NewID :: "string \<Rightarrow> string \<Rightarrow> string \<Rightarrow> string \<Rightarrow> wal_error + string" where
  "NewID tailnet source signal body =
     (case validateIdentityInputs tailnet source signal body of
        Some e \<Rightarrow> Inl e
      | None \<Rightarrow> Inr (hex_EncodeToString (sha256 (id_bytes tailnet source signal body))))"

definition validID :: "string \<Rightarrow> bool" where
  "validID i \<longleftrightarrow> length i = idLength \<and> i = strings_ToLower i \<and>
     (case hex_DecodeString i of Some d \<Rightarrow> length d = 32 | None \<Rightarrow> False)"

definition validateEnvelope :: "Envelope \<Rightarrow> wal_error option" where
  "validateEnvelope e =
     (if \<not> validID (env_ID e) then Some (PlainError ''ingress WAL envelope: invalid opaque ID'')
      else if env_Accepted e = 0 then Some (PlainError ''ingress WAL envelope: accepted time is required'')
      else case NewID (env_Tailnet e) (env_Source e) (env_Signal e) (env_Body e) of
             Inl err \<Rightarrow> Some err
           | Inr want \<Rightarrow>
               (if env_ID e \<noteq> want
                then Some (PlainError ''ingress WAL envelope: opaque ID does not match route and body'')
                else None))"

section \<open>Entry records\<close>

definition record_header :: "nat \<Rightarrow> string" where
  "record_header len = recordMagic @ [recordVersion] @ be_put 8 len"

definition disk_of :: "wal_lib \<Rightarrow> Envelope \<Rightarrow> nat \<Rightarrow> diskEnvelope" where
  "disk_of lib e sequence =
     \<lparr>de_Sequence = sequence, de_ID = env_ID e, de_Tailnet = env_Tailnet e, de_Source = env_Source e,
      de_Signal = env_Signal e, de_Accepted = lib_FormatTime lib (env_Accepted e), de_Body = env_Body e\<rparr>"

definition encodeRecord :: "wal_lib \<Rightarrow> Envelope \<Rightarrow> nat \<Rightarrow> wal_error + string" where
  "encodeRecord lib e sequence =
     (if sequence = 0 then Inl (PlainError ''ingress WAL encode record: sequence must be positive'')
      else case validateEnvelope e of
        Some err \<Rightarrow> Inl err
      | None \<Rightarrow>
          (case lib_Marshal lib (disk_of lib e sequence) of
             None \<Rightarrow> Inl (PlainError ''ingress WAL encode record'')
           | Some payload \<Rightarrow>
               (let covered = record_header (length payload) @ payload in Inr (covered @ sha256 covered))))"

definition decodePayload :: "wal_lib \<Rightarrow> string \<Rightarrow> wal_error + storedRecord" where
  "decodePayload lib payload =
     (case lib_Decode lib payload of
        None \<Rightarrow> Inl (CorruptError ''entry envelope is malformed'')
      | Some (disk, rest) \<Rightarrow>
          (if lib_Next lib rest \<noteq> NextEOF then Inl (CorruptError ''entry envelope has trailing JSON'')
           else if de_Sequence disk = 0 then Inl (CorruptError ''entry sequence is invalid'')
           else case lib_ParseTime lib (de_Accepted disk) of
             None \<Rightarrow> Inl (CorruptError ''entry accepted time is invalid'')
           | Some accepted \<Rightarrow>
               (let e = \<lparr>env_ID = de_ID disk, env_Tailnet = de_Tailnet disk, env_Source = de_Source disk,
                         env_Signal = de_Signal disk, env_Accepted = accepted, env_Body = de_Body disk\<rparr>
                in if validateEnvelope e \<noteq> None then Inl (CorruptError ''entry envelope is invalid'')
                   else Inr \<lparr>sr_Sequence = de_Sequence disk, sr_Envelope = e\<rparr>)))"

definition decodeRecord :: "wal_lib \<Rightarrow> string \<Rightarrow> wal_error + storedRecord" where
  "decodeRecord lib data =
     (if length data < recordHeaderBytes + checksumBytes then Inl (CorruptError ''entry is truncated'')
      else if take (length recordMagic) data \<noteq> recordMagic then Inl (CorruptError ''entry magic is invalid'')
      else if data ! length recordMagic \<noteq> recordVersion
      then Inl (IncompatibleError (data ! length recordMagic))
      else
        (let payloadLength = be_get (take 8 (drop (length recordMagic + 1) data));
             actual = length data - recordHeaderBytes - checksumBytes;
             payloadEnd = recordHeaderBytes + actual
         in if payloadLength \<noteq> actual then Inl (CorruptError ''entry is truncated or has trailing data'')
            else if drop payloadEnd data \<noteq> sha256 (take payloadEnd data)
            then Inl (CorruptError ''entry checksum mismatch'')
            else decodePayload lib (take actual (drop recordHeaderBytes data))))"

definition envelopesEquivalent :: "Envelope \<Rightarrow> Envelope \<Rightarrow> bool" where
  "envelopesEquivalent l r \<longleftrightarrow> env_ID l = env_ID r \<and> env_Tailnet l = env_Tailnet r \<and>
     env_Source l = env_Source r \<and> env_Signal l = env_Signal r \<and> env_Body l = env_Body r"

section \<open>File names\<close>

definition entrySuffix :: string where "entrySuffix = ''.wal''"

definition completionPrefix :: string where "completionPrefix = ''.completed-''"

definition completionSuffix :: string where "completionSuffix = ''.mark''"

definition appendStagePrefix :: string where "appendStagePrefix = ''.ingresswal-append-''"

definition doneStagePrefix :: string where "doneStagePrefix = ''.ingresswal-complete-''"

definition stageSuffix :: string where "stageSuffix = ''.tmp''"

definition sequenceDigits :: nat where "sequenceDigits = 20"

definition stageRandomBytes :: nat where "stageRandomBytes = 16"

definition entryName :: "nat \<Rightarrow> string \<Rightarrow> string" where
  "entryName sequence i = zero_padded 20 sequence @ ''-'' @ i @ entrySuffix"

definition markerName :: "nat \<Rightarrow> string \<Rightarrow> string" where
  "markerName sequence i = completionPrefix @ zero_padded 20 sequence @ ''-'' @ i @ completionSuffix"

definition parseSequencedName :: "string \<Rightarrow> string \<Rightarrow> string \<Rightarrow> (nat \<times> string) option" where
  "parseSequencedName name pre suf =
     (case strings_CutPrefix name pre of
        None \<Rightarrow> None
      | Some v0 \<Rightarrow>
          (case strings_CutSuffix v0 suf of
             None \<Rightarrow> None
           | Some v \<Rightarrow>
               (if length v \<noteq> sequenceDigits + 1 + idLength \<or> v ! sequenceDigits \<noteq> CHR ''-'' then None
                else case strconv_ParseUint 64 (take sequenceDigits v) of
                       None \<Rightarrow> None
                     | Some sequence \<Rightarrow>
                         (let i = drop (sequenceDigits + 1) v
                          in if 0 < sequence \<and> validID i then Some (sequence, i) else None))))"

definition parseEntryName :: "string \<Rightarrow> (nat \<times> string) option" where
  "parseEntryName name = parseSequencedName name [] entrySuffix"

definition parseMarkerName :: "string \<Rightarrow> (nat \<times> string) option" where
  "parseMarkerName name = parseSequencedName name completionPrefix completionSuffix"

definition inStageNamespace :: "string \<Rightarrow> bool" where
  "inStageNamespace name \<longleftrightarrow>
     strings_HasPrefix name appendStagePrefix \<or> strings_HasPrefix name doneStagePrefix"

fun validStageName_loop :: "string list \<Rightarrow> string \<Rightarrow> bool" where
  "validStageName_loop [] name = False"
| "validStageName_loop (p # ps) name =
     (case strings_CutPrefix name p of
        None \<Rightarrow> validStageName_loop ps name
      | Some r \<Rightarrow>
          (case strings_CutSuffix r stageSuffix of
             None \<Rightarrow> False
           | Some random \<Rightarrow>
               length random = stageRandomBytes * 2 \<and> random = strings_ToLower random \<and>
               (case hex_DecodeString random of Some d \<Rightarrow> length d = stageRandomBytes | None \<Rightarrow> False)))"

definition validStageName :: "string \<Rightarrow> bool" where
  "validStageName name = validStageName_loop [appendStagePrefix, doneStagePrefix] name"

section \<open>Completion markers\<close>

definition markerMagic :: string where "markerMagic = ''TS2DONE1''"

definition markerHeaderBytes :: nat where "markerHeaderBytes = 25"

definition encodeMarker :: "string \<Rightarrow> nat \<Rightarrow> nat \<Rightarrow> wal_error + string" where
  "encodeMarker i sequence entrySequence =
     (if \<not> validID i then Inl (PlainError ''ingress WAL marker: invalid opaque ID'')
      else if sequence = 0 then Inl (PlainError ''ingress WAL marker: invalid sequence'')
      else if entrySequence = 0 then Inl (PlainError ''ingress WAL marker: invalid entry sequence'')
      else
        (let covered = markerMagic @ [recordVersion] @ be_put 8 sequence @ be_put 8 entrySequence @ i
         in Inr (covered @ sha256 covered)))"

text \<open>The decoding half of \<open>readMarker\<close>, on the bytes that \<open>readBounded\<close> returned.\<close>

definition decodeMarker :: "string \<Rightarrow> wal_error + (string \<times> nat \<times> nat)" where
  "decodeMarker data =
     (if length data \<noteq> markerHeaderBytes + idLength + checksumBytes \<or>
         take (length markerMagic) data \<noteq> markerMagic
      then Inl (CorruptError ''completion marker is malformed'')
      else if data ! length markerMagic \<noteq> recordVersion
      then Inl (IncompatibleError (data ! length markerMagic))
      else
        (let checksumAt = markerHeaderBytes + idLength;
             sequence = be_get (take 8 (drop (length markerMagic + 1) data));
             entrySequence = be_get (take 8 (drop (length markerMagic + 9) data));
             i = take idLength (drop markerHeaderBytes data)
         in if drop checksumAt data \<noteq> sha256 (take checksumAt data)
            then Inl (CorruptError ''completion marker checksum mismatch'')
            else if sequence = 0 then Inl (CorruptError ''completion marker sequence is invalid'')
            else if entrySequence = 0 then Inl (CorruptError ''completion marker entry sequence is invalid'')
            else if \<not> validID i then Inl (CorruptError ''completion marker identity is invalid'')
            else Inr (i, sequence, entrySequence)))"

section \<open>Identities\<close>

lemma hex_digits_fixed: "c \<in> set hex_digits \<Longrightarrow> ascii_lower c = c"
  by (auto simp: hex_digits_def ascii_lower_def)

lemma hex_Encode_lower [simp]: "strings_ToLower (hex_EncodeToString bs) = hex_EncodeToString bs"
  unfolding strings_ToLower_def by (rule map_idI) (auto dest: hex_digit_lower hex_digits_fixed)

lemma validID_digest: "validID (hex_EncodeToString (sha256 bs))"
  by (simp add: validID_def idLength_def)

lemma NewID_valid: "NewID t s g b = Inr i \<Longrightarrow> validID i"
  by (auto simp: NewID_def validID_digest split: option.splits)

lemma validID_length: "validID i \<Longrightarrow> length i = 64"
  by (simp add: validID_def idLength_def)

lemma validateIdentityInputs_None_iff:
  "validateIdentityInputs t s g b = None \<longleftrightarrow>
     t \<noteq> [] \<and> length t \<le> 1024 \<and> s \<noteq> [] \<and> length s \<le> 64 \<and> g \<noteq> [] \<and> length g \<le> 64 \<and>
     length b \<le> maxBodyBytes"
  by (auto simp: validateIdentityInputs_def validateField_def maxTailnetBytes_def maxSourceBytes_def
      maxSignalBytes_def)

lemma validateEnvelope_None_iff:
  "validateEnvelope e = None \<longleftrightarrow>
     env_Accepted e \<noteq> 0 \<and>
     NewID (env_Tailnet e) (env_Source e) (env_Signal e) (env_Body e) = Inr (env_ID e)"
  by (auto simp: validateEnvelope_def dest: NewID_valid split: sum.splits)

lemma validateEnvelope_validID: "validateEnvelope e = None \<Longrightarrow> validID (env_ID e)"
  by (auto simp: validateEnvelope_None_iff dest: NewID_valid)

lemma id_bytes_inject:
  assumes "list_all (\<lambda>s. length s < 2 ^ 64) [t, s, g, b, t', s', g', b']"
  shows "id_bytes t s g b = id_bytes t' s' g' b' \<longleftrightarrow> t = t' \<and> s = s' \<and> g = g' \<and> b = b'"
proof -
  have field: "id_field x @ u = id_field y @ v \<longleftrightarrow> x = y \<and> u = v"
    if "length x < 2 ^ 64" "length y < 2 ^ 64" for x y u v
    using length_prefix_inject [OF that] by (simp add: id_field_def)
  from assms field [of b b' "[]" "[]"] show ?thesis by (simp add: id_bytes_def field)
qed

section \<open>Round trips\<close>

definition env_utf8 :: "Envelope \<Rightarrow> bool" where
  "env_utf8 e \<longleftrightarrow> utf8_valid (env_Tailnet e) \<and> utf8_valid (env_Source e) \<and> utf8_valid (env_Signal e)"

text \<open>Years 1 to 9999, the range in which RFC 3339 has a four-digit year.\<close>

definition rfc3339_range :: "gotime \<Rightarrow> bool" where
  "rfc3339_range t \<longleftrightarrow> 0 \<le> t \<and> t < 3652059 * 86400 * 1000000000"

definition disk_fits :: "diskEnvelope \<Rightarrow> bool" where
  "disk_fits d \<longleftrightarrow> de_Sequence d < 2 ^ 64 \<and> length (de_Body d) \<le> maxBodyBytes \<and>
     list_all (\<lambda>s. utf8_valid s \<and> length s \<le> 1024)
       [de_ID d, de_Tailnet d, de_Source d, de_Signal d, de_Accepted d]"

definition wal_lib_ok :: "wal_lib \<Rightarrow> bool" where
  "wal_lib_ok lib \<longleftrightarrow>
     (\<forall>d. disk_fits d \<longrightarrow> (\<exists>s. lib_Marshal lib d = Some s \<and> length s < 2 ^ 62 \<and>
        lib_Decode lib s = Some (d, []))) \<and>
     lib_Next lib [] = NextEOF \<and>
     (\<forall>t. rfc3339_range t \<longrightarrow> lib_ParseTime lib (lib_FormatTime lib t) = Some t \<and>
        utf8_valid (lib_FormatTime lib t) \<and> length (lib_FormatTime lib t) \<le> 1024)"

lemma utf8_valid_hex: "utf8_valid (hex_EncodeToString bs)"
  by (rule utf8_valid_ascii) (auto simp: list_all_iff in_range_def hex_digits_def dest!: hex_digit_lower)

lemma header_length [simp]: "length (record_header k) = recordHeaderBytes"
  by (simp add: record_header_def recordMagic_def recordHeaderBytes_def)

lemma header_fields:
  assumes "data = record_header k @ payload @ checksum"
  shows "take (length recordMagic) data = recordMagic" "data ! length recordMagic = recordVersion"
    "take 8 (drop (length recordMagic + 1) data) = be_put 8 k"
  using assms by (simp_all add: record_header_def nth_append)

lemma decodeRecord_framed:
  assumes "length payload < 2 ^ 64"
  shows "decodeRecord lib (record_header (length payload) @ payload
      @ sha256 (record_header (length payload) @ payload)) = decodePayload lib payload"
proof -
  let ?covered = "record_header (length payload) @ payload"
  let ?data = "record_header (length payload) @ payload @ sha256 ?covered"
  note fields = header_fields [OF refl, of "length payload" payload "sha256 ?covered"]
  have len: "length ?data = recordHeaderBytes + length payload + checksumBytes"
    by (simp add: checksumBytes_def)
  have "be_get (be_put 8 (length payload)) = length payload" using assms by (simp add: be_get_put)
  with fields len show ?thesis by (simp add: decodeRecord_def Let_def)
qed

lemma disk_of_fits:
  assumes "wal_lib_ok lib" "validateEnvelope e = None" "sequence < 2 ^ 64" "env_utf8 e"
    "rfc3339_range (env_Accepted e)"
  shows "disk_fits (disk_of lib e sequence)"
proof -
  from assms(2) have "NewID (env_Tailnet e) (env_Source e) (env_Signal e) (env_Body e) = Inr (env_ID e)"
    by (simp add: validateEnvelope_None_iff)
  then have "validateIdentityInputs (env_Tailnet e) (env_Source e) (env_Signal e) (env_Body e) = None"
    "env_ID e = hex_EncodeToString (sha256 (id_bytes (env_Tailnet e) (env_Source e) (env_Signal e) (env_Body e)))"
    by (auto simp: NewID_def split: option.splits)
  with assms show ?thesis
    by (simp add: disk_fits_def disk_of_def env_utf8_def wal_lib_ok_def validateIdentityInputs_None_iff
        utf8_valid_hex)
qed

lemma encodeRecord_Inr:
  assumes "wal_lib_ok lib" "validateEnvelope e = None" "0 < sequence" "sequence < 2 ^ 64" "env_utf8 e"
    "rfc3339_range (env_Accepted e)"
  shows "\<exists>s. lib_Decode lib s = Some (disk_of lib e sequence, []) \<and> length s < 2 ^ 62 \<and>
    encodeRecord lib e sequence = Inr (record_header (length s) @ s @ sha256 (record_header (length s) @ s))"
proof -
  from disk_of_fits [OF assms(1,2,4,5,6)] assms(1) obtain s where
    "lib_Marshal lib (disk_of lib e sequence) = Some s" "length s < 2 ^ 62"
    "lib_Decode lib s = Some (disk_of lib e sequence, [])"
    by (auto simp: wal_lib_ok_def)
  with assms(2,3) show ?thesis by (intro exI [of _ s]) (simp add: encodeRecord_def Let_def)
qed

lemma decodeRecord_encodeRecord:
  assumes lib: "wal_lib_ok lib" and enc: "encodeRecord lib e sequence = Inr data"
    and "sequence < 2 ^ 64" "env_utf8 e" and time: "rfc3339_range (env_Accepted e)"
  shows "decodeRecord lib data = Inr \<lparr>sr_Sequence = sequence, sr_Envelope = e\<rparr>"
proof -
  from enc have ok: "0 < sequence" "validateEnvelope e = None"
    by (auto simp: encodeRecord_def split: if_splits option.splits)
  from encodeRecord_Inr [OF lib ok(2,1) assms(3-5)] enc obtain s where
    s: "lib_Decode lib s = Some (disk_of lib e sequence, [])" "length s < 2 ^ 62"
      "data = record_header (length s) @ s @ sha256 (record_header (length s) @ s)"
    by auto
  have rebuild: "\<lparr>env_ID = env_ID e, env_Tailnet = env_Tailnet e, env_Source = env_Source e,
      env_Signal = env_Signal e, env_Accepted = env_Accepted e, env_Body = env_Body e\<rparr> = e" by simp
  from s have "decodeRecord lib data = decodePayload lib s" by (simp add: decodeRecord_framed)
  also have "\<dots> = Inr \<lparr>sr_Sequence = sequence, sr_Envelope = e\<rparr>"
    unfolding decodePayload_def using s ok lib time
    by (simp add: disk_of_def wal_lib_ok_def Let_def rebuild)
  finally show ?thesis .
qed

lemma decodeRecord_valid:
  "decodeRecord lib data = Inr r \<Longrightarrow> validateEnvelope (sr_Envelope r) = None \<and> sr_Sequence r \<noteq> 0"
  by (auto simp: decodeRecord_def decodePayload_def Let_def split: if_splits option.splits)

lemma parseSequencedName_format:
  assumes "0 < sequence" "sequence < 2 ^ 64" "validID i"
  shows "parseSequencedName (pre @ zero_padded 20 sequence @ ''-'' @ i @ suf) pre suf = Some (sequence, i)"
proof -
  have len: "length (zero_padded 20 sequence) = 20" using assms(2) by (intro length_zero_padded) auto
  have "strings_CutSuffix (zero_padded 20 sequence @ ''-'' @ i @ suf) suf = Some (zero_padded 20 sequence @ ''-'' @ i)"
    using CutSuffix_append [of "zero_padded 20 sequence @ ''-'' @ i" suf] by simp
  with len assms ParseUint_zero_padded [OF assms(2), of 20] show ?thesis
    by (simp add: parseSequencedName_def sequenceDigits_def idLength_def nth_append validID_length Let_def)
qed

lemma parseEntryName_entryName:
  "0 < sequence \<Longrightarrow> sequence < 2 ^ 64 \<Longrightarrow> validID i \<Longrightarrow> parseEntryName (entryName sequence i) = Some (sequence, i)"
  using parseSequencedName_format [of sequence i "[]" entrySuffix] by (simp add: parseEntryName_def entryName_def)

lemma parseMarkerName_markerName:
  "0 < sequence \<Longrightarrow> sequence < 2 ^ 64 \<Longrightarrow> validID i \<Longrightarrow> parseMarkerName (markerName sequence i) = Some (sequence, i)"
  using parseSequencedName_format [of sequence i completionPrefix completionSuffix]
  by (simp add: parseMarkerName_def markerName_def)

lemma decodeMarker_encodeMarker:
  assumes "encodeMarker i sequence entrySequence = Inr data" "sequence < 2 ^ 64" "entrySequence < 2 ^ 64"
  shows "decodeMarker data = Inr (i, sequence, entrySequence)"
proof -
  from assms(1) have ok: "validID i" "sequence \<noteq> 0" "entrySequence \<noteq> 0"
    by (auto simp: encodeMarker_def split: if_splits)
  let ?covered = "markerMagic @ [recordVersion] @ be_put 8 sequence @ be_put 8 entrySequence @ i"
  from assms(1) ok have data: "data = ?covered @ sha256 ?covered" by (simp add: encodeMarker_def Let_def)
  have len: "length markerMagic = 8" "length i = 64"
    using ok(1) by (simp_all add: markerMagic_def validID_length)
  have cov: "length ?covered = markerHeaderBytes + idLength"
    using len by (simp add: markerHeaderBytes_def idLength_def)
  have parts: "take (length markerMagic) data = markerMagic" "data ! length markerMagic = recordVersion"
    "take 8 (drop (length markerMagic + 1) data) = be_put 8 sequence"
    "take 8 (drop (length markerMagic + 9) data) = be_put 8 entrySequence"
    "take idLength (drop markerHeaderBytes data) = i"
    "drop (markerHeaderBytes + idLength) data = sha256 ?covered"
    "take (markerHeaderBytes + idLength) data = ?covered"
    "length data = markerHeaderBytes + idLength + checksumBytes"
    unfolding data using len cov
    by (simp_all add: nth_append markerHeaderBytes_def idLength_def checksumBytes_def)
  have "be_get (be_put 8 sequence) = sequence" "be_get (be_put 8 entrySequence) = entrySequence"
    using assms(2,3) by (simp_all add: be_get_put)
  with parts ok show ?thesis by (simp add: decodeMarker_def Let_def)
qed

section \<open>The name spaces of the directory\<close>

lemma entryName_inject:
  assumes "0 < a" "a < 2 ^ 64" "validID i" "0 < b" "b < 2 ^ 64" "validID j"
  shows "entryName a i = entryName b j \<longleftrightarrow> a = b \<and> i = j"
proof
  assume "entryName a i = entryName b j"
  with parseEntryName_entryName [OF assms(1-3)] have "Some (a, i) = Some (b, j)"
    by (simp only: parseEntryName_entryName [OF assms(4-6)])
  then show "a = b \<and> i = j" by simp
qed simp

lemma zero_padded_head: "\<exists>c s. zero_padded w x = c # s \<and> is_digit c"
proof -
  have "zero_padded w x \<noteq> []" by (simp add: zero_padded_def dec_digits.simps [of x])
  with zero_padded_digits [of w x] show ?thesis by (cases "zero_padded w x") auto
qed

lemma entryName_head: "entryName a i \<noteq> CHR ''.'' # s"
proof -
  obtain c t where "zero_padded 20 a = c # t" "is_digit c" using zero_padded_head by blast
  then show ?thesis by (auto simp: entryName_def is_digit_def)
qed

lemma entry_not_stage: "\<not> inStageNamespace (entryName a i)"
  using entryName_head by (auto simp: inStageNamespace_def HasPrefix_iff appendStagePrefix_def doneStagePrefix_def)

lemma marker_not_stage: "\<not> inStageNamespace (markerName a i)"
  by (auto simp: inStageNamespace_def HasPrefix_iff appendStagePrefix_def doneStagePrefix_def markerName_def
      completionPrefix_def)

lemma entry_not_marker: "entryName a i \<noteq> markerName b j"
  using entryName_head [of a i] by (auto simp: markerName_def completionPrefix_def)

lemma entryName_suffix: "strings_HasSuffix (entryName a i) entrySuffix"
  using HasSuffix_append [of "zero_padded 20 a @ ''-'' @ i" entrySuffix] by (simp add: entryName_def)

lemma suffix_last: "strings_HasSuffix s t \<Longrightarrow> t \<noteq> [] \<Longrightarrow> last s = last t"
  by (auto simp: HasSuffix_iff)

lemma marker_not_entry_suffix: "\<not> strings_HasSuffix (markerName a i) entrySuffix"
proof
  assume "strings_HasSuffix (markerName a i) entrySuffix"
  from suffix_last [OF this] show False
    by (simp add: entrySuffix_def markerName_def completionSuffix_def completionPrefix_def)
qed

lemma stage_in_namespace:
  "pre = appendStagePrefix \<or> pre = doneStagePrefix \<Longrightarrow> inStageNamespace (pre @ s)"
  by (auto simp: inStageNamespace_def)

section \<open>A concrete codec\<close>

text \<open>
  A codec that satisfies the hypothesis on the library: fields with a length prefix instead of JSON,
  times as decimal nanoseconds. It serves the witnesses.
\<close>

definition read_field :: "string \<Rightarrow> (string \<times> string) option" where
  "read_field s = (let k = be_get (take 8 s) in
     if length s < 8 + k then None else Some (take k (drop 8 s), drop (8 + k) s))"

definition toy_lib :: wal_lib where
  "toy_lib = \<lparr>
     lib_Marshal = (\<lambda>d. Some (be_put 8 (de_Sequence d) @ id_field (de_ID d) @ id_field (de_Tailnet d)
        @ id_field (de_Source d) @ id_field (de_Signal d) @ id_field (de_Accepted d) @ id_field (de_Body d))),
     lib_Decode = (\<lambda>s.
       (case read_field (drop 8 s) of None \<Rightarrow> None | Some (i, s1) \<Rightarrow>
       (case read_field s1 of None \<Rightarrow> None | Some (t, s2) \<Rightarrow>
       (case read_field s2 of None \<Rightarrow> None | Some (o', s3) \<Rightarrow>
       (case read_field s3 of None \<Rightarrow> None | Some (g, s4) \<Rightarrow>
       (case read_field s4 of None \<Rightarrow> None | Some (a, s5) \<Rightarrow>
       (case read_field s5 of None \<Rightarrow> None | Some (b, s6) \<Rightarrow>
          Some (\<lparr>de_Sequence = be_get (take 8 s), de_ID = i, de_Tailnet = t, de_Source = o', de_Signal = g,
                 de_Accepted = a, de_Body = b\<rparr>, s6)))))))),
     lib_Next = (\<lambda>s. if s = [] then NextEOF else NextValue),
     lib_FormatTime = (\<lambda>t. dec_digits (nat t)),
     lib_ParseTime = (\<lambda>s. map_option int (strconv_ParseUint 70 s))\<rparr>"

lemma length_id_field [simp]: "length (id_field s) = 8 + length s"
  by (simp add: id_field_def)

lemma read_field_id_field: "length s < 2 ^ 64 \<Longrightarrow> read_field (id_field s @ u) = Some (s, u)"
  by (simp add: read_field_def id_field_def be_get_put Let_def)

lemma ParseUint_dec_digits: "x < 2 ^ bits \<Longrightarrow> strconv_ParseUint bits (dec_digits x) = Some x"
  using ParseUint_zero_padded [of x bits 0] by (simp add: zero_padded_def)

lemma utf8_valid_digits: "utf8_valid (dec_digits x)"
  using dec_digits_are_digits [of x]
  by (intro utf8_valid_ascii) (auto simp: list_all_iff is_digit_def in_range_def)

lemma toy_lib_ok: "wal_lib_ok toy_lib"
proof -
  have field: "read_field (id_field s) = Some (s, [])" if "length s < 2 ^ 64" for s
    using read_field_id_field [OF that, of "[]"] by simp
  have codec: "\<exists>s. lib_Marshal toy_lib d = Some s \<and> length s < 2 ^ 62 \<and> lib_Decode toy_lib s = Some (d, [])"
    if fits: "disk_fits d" for d
  proof -
    from fits have "length (de_ID d) < 2 ^ 64" "length (de_Tailnet d) < 2 ^ 64" "length (de_Source d) < 2 ^ 64"
      "length (de_Signal d) < 2 ^ 64" "length (de_Accepted d) < 2 ^ 64" "length (de_Body d) < 2 ^ 64"
      "be_get (be_put 8 (de_Sequence d)) = de_Sequence d"
      by (simp_all add: disk_fits_def maxBodyBytes_def be_get_put)
    with fits show ?thesis
      by (simp add: toy_lib_def read_field_id_field field disk_fits_def maxBodyBytes_def)
  qed
  have "lib_ParseTime toy_lib (lib_FormatTime toy_lib t) = Some t \<and> utf8_valid (lib_FormatTime toy_lib t) \<and>
      length (lib_FormatTime toy_lib t) \<le> 1024" if "rfc3339_range t" for t
  proof -
    from that have "nat t < 10 ^ 21" "nat t < 2 ^ 70" "0 \<le> t" by (simp_all add: rfc3339_range_def nat_less_iff)
    with length_dec_digits [of "nat t" 21] ParseUint_dec_digits [of "nat t" 70] show ?thesis
      by (simp add: toy_lib_def utf8_valid_digits)
  qed
  with codec show ?thesis by (simp add: wal_lib_ok_def toy_lib_def)
qed

definition toy_envelope :: Envelope where
  "toy_envelope = \<lparr>env_ID = hex_EncodeToString (sha256 (id_bytes ''t'' ''stream'' ''hec'' ''{}'')),
     env_Tailnet = ''t'', env_Source = ''stream'', env_Signal = ''hec'', env_Accepted = 1, env_Body = ''{}''\<rparr>"

lemma toy_envelope_valid:
  "validateEnvelope toy_envelope = None" "env_utf8 toy_envelope" "rfc3339_range (env_Accepted toy_envelope)"
  by (simp_all add: validateEnvelope_None_iff toy_envelope_def NewID_def validateIdentityInputs_def
      validateField_def maxTailnetBytes_def maxSourceBytes_def maxSignalBytes_def maxBodyBytes_def
      env_utf8_def rfc3339_range_def in_range_def)

section \<open>Properties of the formats\<close>

text \<open>
  C23. An entry record round trips: decoding what \<open>encodeRecord\<close> produced gives back the sequence and the
  whole envelope, for every valid envelope with valid UTF-8 route names and a printable time.
\<close>

theorem wal_record_roundtrip:
  assumes "wal_lib_ok lib" "validateEnvelope e = None" "0 < sequence" "sequence < 2 ^ 64" "env_utf8 e"
    "rfc3339_range (env_Accepted e)"
  shows "\<exists>data. encodeRecord lib e sequence = Inr data \<and>
    decodeRecord lib data = Inr \<lparr>sr_Sequence = sequence, sr_Envelope = e\<rparr>"
  using encodeRecord_Inr [OF assms] decodeRecord_encodeRecord [OF assms(1) _ assms(4-6)] by blast

theorem wal_record_roundtrip_witness:
  "\<exists>data. encodeRecord toy_lib toy_envelope 7 = Inr data \<and>
    decodeRecord toy_lib data = Inr \<lparr>sr_Sequence = 7, sr_Envelope = toy_envelope\<rparr>"
  using wal_record_roundtrip [OF toy_lib_ok toy_envelope_valid(1), of 7] toy_envelope_valid by simp

text \<open>
  File names and completion markers round trip: parsing the name of an entry or of a marker gives
  back its sequence and identity, and decoding an encoded marker gives back the identity and both
  sequences.
\<close>

theorem wal_names_and_markers_roundtrip:
  assumes "validID i" "0 < a" "a < 2 ^ 64" "0 < b" "b < 2 ^ 64"
  shows "parseEntryName (entryName a i) = Some (a, i) \<and> parseMarkerName (markerName a i) = Some (a, i) \<and>
    (\<exists>data. encodeMarker i a b = Inr data \<and> decodeMarker data = Inr (i, a, b))"
proof -
  from assms obtain data where "encodeMarker i a b = Inr data" by (auto simp: encodeMarker_def Let_def)
  with decodeMarker_encodeMarker [OF this] parseEntryName_entryName parseMarkerName_markerName assms
  show ?thesis by blast
qed

theorem wal_names_and_markers_roundtrip_witness:
  "parseEntryName (entryName 3 (env_ID toy_envelope)) = Some (3, env_ID toy_envelope)"
  using wal_names_and_markers_roundtrip [OF validateEnvelope_validID [OF toy_envelope_valid(1)], of 3 9] by simp

text \<open>
  The identity covers the whole route and body unambiguously: two inputs hash the same bytes only if
  tailnet, source, signal and body all agree, so different inputs share an ID only when SHA-256
  collides, and an ID is always accepted by \<open>validID\<close>.
\<close>

theorem wal_identity_unambiguous:
  assumes "NewID t s g b = Inr i" "NewID t' s' g' b' = Inr i'"
  shows "validID i \<and> (id_bytes t s g b = id_bytes t' s' g' b' \<longleftrightarrow> t = t' \<and> s = s' \<and> g = g' \<and> b = b')"
proof -
  have "list_all (\<lambda>s. length s < 2 ^ 64) [t, s, g, b, t', s', g', b']"
    using assms by (auto simp: NewID_def validateIdentityInputs_None_iff maxBodyBytes_def split: option.splits)
  from id_bytes_inject [OF this] NewID_valid [OF assms(1)] show ?thesis by blast
qed

theorem wal_identity_unambiguous_witness:
  "id_bytes ''ab'' ''c'' ''flow'' [] \<noteq> id_bytes ''a'' ''bc'' ''flow'' []"
  using wal_identity_unambiguous [of "''ab''" "''c''" "''flow''" "[]" _ "''a''" "''bc''" "''flow''" "[]"]
  by (simp add: NewID_def validateIdentityInputs_def validateField_def maxTailnetBytes_def
      maxSourceBytes_def maxSignalBytes_def maxBodyBytes_def)

end
