(* ===== verification/State_Hoare.thy ===== *)
theory State_Hoare
  imports Main "HOL-Library.State_Monad"
begin

text \<open>
  Pre- and postconditions for the state monad in which the stateful components are written:
  \<open>triple P m Q\<close>, the special case of a kept invariant \<open>keeps J m\<close>, and one introduction rule per
  construct the sources' control flow is translated to. The rules are collected in \<open>hoare\<close> so that a
  proof about an operation follows its text.
\<close>

named_theorems hoare \<open>rules for the constructs of the state monad\<close>

definition triple :: "('s \<Rightarrow> bool) \<Rightarrow> ('s, 'a) state \<Rightarrow> ('a \<Rightarrow> 's \<Rightarrow> bool) \<Rightarrow> bool" where
  "triple P m Q \<longleftrightarrow> (\<forall>s. P s \<longrightarrow> Q (fst (run_state m s)) (snd (run_state m s)))"

definition keeps :: "('s \<Rightarrow> bool) \<Rightarrow> ('s, 'a) state \<Rightarrow> bool" where
  "keeps J m \<longleftrightarrow> triple J m (\<lambda>_. J)"

lemma triple_elim: "triple P m Q \<Longrightarrow> P s \<Longrightarrow> run_state m s = (r, s') \<Longrightarrow> Q r s'"
  by (auto simp: triple_def)

lemma keeps_elim: "keeps J m \<Longrightarrow> J s \<Longrightarrow> run_state m s = (r, s') \<Longrightarrow> J s'"
  by (auto simp: keeps_def dest: triple_elim)

lemma triple_return: "(\<And>s. P s \<Longrightarrow> Q x s) \<Longrightarrow> triple P (State_Monad.return x) Q"
  by (simp add: triple_def)

lemma triple_bind: "triple P m R \<Longrightarrow> (\<And>x. triple (R x) (f x) Q) \<Longrightarrow> triple P (State_Monad.bind m f) Q"
  by (auto simp: triple_def case_prod_unfold)

lemma triple_any: "triple P m (\<lambda>_ _. True)"
  by (simp add: triple_def)

lemma triple_pre: "triple P m Q \<Longrightarrow> (\<And>s. P' s \<Longrightarrow> P s) \<Longrightarrow> triple P' m Q"
  by (simp add: triple_def)

lemma triple_post: "triple P m R \<Longrightarrow> (\<And>r s. R r s \<Longrightarrow> Q r s) \<Longrightarrow> triple P m Q"
  by (simp add: triple_def)

lemma triple_conj: "triple P m Q \<Longrightarrow> triple P' m Q' \<Longrightarrow> triple (\<lambda>s. P s \<and> P' s) m (\<lambda>r s. Q r s \<and> Q' r s)"
  by (simp add: triple_def)

lemma triple_keeps: "triple P m Q \<Longrightarrow> keeps J m \<Longrightarrow> triple (\<lambda>s. P s \<and> J s) m (\<lambda>r s. Q r s \<and> J s)"
  unfolding keeps_def by (rule triple_conj)

lemma triple_pure: "(c \<Longrightarrow> triple P m Q) \<Longrightarrow> triple (\<lambda>s. c \<and> P s) m Q"
  by (simp add: triple_def)

lemma triple_value: "(\<And>v. triple (\<lambda>s. P s \<and> f s = v) m Q) \<Longrightarrow> triple P m Q"
  by (simp add: triple_def)

lemma triple_if: "(c \<Longrightarrow> triple P a Q) \<Longrightarrow> (\<not> c \<Longrightarrow> triple P b Q) \<Longrightarrow> triple P (if c then a else b) Q"
  by simp

lemma triple_option:
  "(x = None \<Longrightarrow> triple P a Q) \<Longrightarrow> (\<And>y. x = Some y \<Longrightarrow> triple P (f y) Q) \<Longrightarrow>
   triple P (case x of None \<Rightarrow> a | Some y \<Rightarrow> f y) Q"
  by (cases x) simp_all

lemma triple_sum:
  "(\<And>y. x = Inl y \<Longrightarrow> triple P (f y) Q) \<Longrightarrow> (\<And>y. x = Inr y \<Longrightarrow> triple P (g y) Q) \<Longrightarrow>
   triple P (case x of Inl y \<Rightarrow> f y | Inr y \<Rightarrow> g y) Q"
  by (cases x) simp_all

lemma triple_prod: "(\<And>a b. x = (a, b) \<Longrightarrow> triple P (f a b) Q) \<Longrightarrow> triple P (case x of (a, b) \<Rightarrow> f a b) Q"
  by (cases x) simp_all

lemma triple_State: "(\<And>s. P s \<Longrightarrow> Q (fst (f s)) (snd (f s))) \<Longrightarrow> triple P (State f) Q"
  by (simp add: triple_def)

lemma keeps_return [hoare]: "keeps J (State_Monad.return x)"
  by (simp add: keeps_def triple_def)

lemma keeps_bind [hoare]: "keeps J m \<Longrightarrow> (\<And>x. keeps J (f x)) \<Longrightarrow> keeps J (State_Monad.bind m f)"
  unfolding keeps_def by (rule triple_bind)

lemma keeps_if [hoare]: "(c \<Longrightarrow> keeps J a) \<Longrightarrow> (\<not> c \<Longrightarrow> keeps J b) \<Longrightarrow> keeps J (if c then a else b)"
  by simp

lemma keeps_option [hoare]:
  "(x = None \<Longrightarrow> keeps J a) \<Longrightarrow> (\<And>y. x = Some y \<Longrightarrow> keeps J (f y)) \<Longrightarrow>
   keeps J (case x of None \<Rightarrow> a | Some y \<Rightarrow> f y)"
  by (cases x) simp_all

lemma keeps_sum [hoare]:
  "(\<And>y. x = Inl y \<Longrightarrow> keeps J (f y)) \<Longrightarrow> (\<And>y. x = Inr y \<Longrightarrow> keeps J (g y)) \<Longrightarrow>
   keeps J (case x of Inl y \<Rightarrow> f y | Inr y \<Rightarrow> g y)"
  by (cases x) simp_all

lemma keeps_prod [hoare]: "(\<And>a b. x = (a, b) \<Longrightarrow> keeps J (f a b)) \<Longrightarrow> keeps J (case x of (a, b) \<Rightarrow> f a b)"
  by (cases x) simp_all

lemma keeps_State: "(\<And>s. J s \<Longrightarrow> J (snd (f s))) \<Longrightarrow> keeps J (State f)"
  by (simp add: keeps_def triple_def)

lemma keeps_get [hoare]: "keeps J State_Monad.get"
  by (simp add: keeps_def triple_def State_Monad.get_def)

lemma keeps_conj: "keeps J m \<Longrightarrow> keeps K m \<Longrightarrow> keeps (\<lambda>s. J s \<and> K s) m"
  by (simp add: keeps_def triple_def)

lemma triple_get: "(\<And>s. P s \<Longrightarrow> Q s s) \<Longrightarrow> triple P State_Monad.get Q"
  by (simp add: triple_def State_Monad.get_def)

lemma triple_update: "(\<And>s. P s \<Longrightarrow> Q () (f s)) \<Longrightarrow> triple P (State_Monad.update f) Q"
  by (simp add: triple_def State_Monad.update_def State_Monad.get_def State_Monad.set_def)

lemma keeps_update: "(\<And>s. J s \<Longrightarrow> J (f s)) \<Longrightarrow> keeps J (State_Monad.update f)"
  unfolding keeps_def by (rule triple_update)

text \<open>Facts about the returned value alone.\<close>

definition returns :: "('s, 'a) state \<Rightarrow> ('a \<Rightarrow> bool) \<Rightarrow> bool" where
  "returns m R \<longleftrightarrow> (\<forall>s. R (fst (run_state m s)))"

named_theorems result \<open>rules about returned values\<close>

lemma returns_return [result]: "R x \<Longrightarrow> returns (State_Monad.return x) R"
  by (simp add: returns_def)

lemma returns_weaken: "returns m R \<Longrightarrow> (\<And>r. R r \<Longrightarrow> S r) \<Longrightarrow> returns m S"
  by (simp add: returns_def)

lemma returns_bind: "returns m S \<Longrightarrow> (\<And>x. S x \<Longrightarrow> returns (f x) R) \<Longrightarrow> returns (State_Monad.bind m f) R"
  by (simp add: returns_def case_prod_unfold)

lemma returns_bind_any [result]: "(\<And>x. returns (f x) R) \<Longrightarrow> returns (State_Monad.bind m f) R"
  by (rule returns_bind [of m "\<lambda>_. True"]) (auto simp: returns_def)

lemma returns_if [result]: "(c \<Longrightarrow> returns a R) \<Longrightarrow> (\<not> c \<Longrightarrow> returns b R) \<Longrightarrow> returns (if c then a else b) R"
  by simp

lemma returns_option [result]:
  "(x = None \<Longrightarrow> returns a R) \<Longrightarrow> (\<And>y. x = Some y \<Longrightarrow> returns (f y) R) \<Longrightarrow>
   returns (case x of None \<Rightarrow> a | Some y \<Rightarrow> f y) R"
  by (cases x) simp_all

lemma returns_sum [result]:
  "(\<And>y. x = Inl y \<Longrightarrow> returns (f y) R) \<Longrightarrow> (\<And>y. x = Inr y \<Longrightarrow> returns (g y) R) \<Longrightarrow>
   returns (case x of Inl y \<Rightarrow> f y | Inr y \<Rightarrow> g y) R"
  by (cases x) simp_all

lemma keeps_bind_returns:
  "keeps K m \<Longrightarrow> returns m R \<Longrightarrow> (\<And>x. R x \<Longrightarrow> keeps K (f x)) \<Longrightarrow> keeps K (State_Monad.bind m f)"
  by (auto simp: keeps_def triple_def returns_def case_prod_unfold)

lemma triple_bind_returns:
  "triple P m S \<Longrightarrow> returns m R \<Longrightarrow> (\<And>x. R x \<Longrightarrow> triple (S x) (f x) Q) \<Longrightarrow> triple P (State_Monad.bind m f) Q"
  by (auto simp: triple_def returns_def case_prod_unfold)

lemma triple_returns: "triple P m Q \<Longrightarrow> returns m R \<Longrightarrow> triple P m (\<lambda>r s. Q r s \<and> R r)"
  by (simp add: triple_def returns_def)

end
