(* ===== verification/Wal_Disk.thy ===== *)
theory Wal_Disk
  imports Go_Prelude State_Hoare
begin

text \<open>
  The directory the ingress write-ahead log works on, and the file operations of \<open>fileOps\<close>
  (\<open>src/internal/ingresswal/wal.go\<close>) with their failures.

  The disk keeps the name space the process sees (\<open>d_cur\<close>) and, for every name, the set of bindings that
  may be on stable storage (\<open>d_maybe\<close>): every binding the name had since the last successful
  directory sync. A crash keeps an arbitrary one of them for each name, and arbitrary contents for a
  file that was not synced itself (\<open>crash_image\<close>). \<open>d_past\<close> records the possible durable states after
  every single operation, so a statement about all of them is a statement about a crash at any
  instant.

  Each operation takes its outcome from a script: it succeeds, or it reports an error having had its
  effect or not. Operations are total functions of the script; a theorem that holds for every script
  holds under every combination of faults. An exhausted script means no further fault.
\<close>

section \<open>Disk state\<close>

record dfile =
  f_data :: string
  f_synced :: bool

datatype outcome = Fine | Fault bool

datatype os_err = ErrNotExist | ErrExist | OsErr

type_synonym durable_state = "string \<Rightarrow> dfile option set"

record disk =
  d_cur :: "(string, dfile) gomap"
  d_maybe :: durable_state
  d_past :: "durable_state list"
  d_script :: "outcome list"
  d_random :: "string list"

definition disk_bind :: "string \<Rightarrow> dfile option \<Rightarrow> disk \<Rightarrow> disk" where
  "disk_bind n v d =
     (let m = (d_maybe d)(n := insert v (d_maybe d n))
      in d\<lparr>d_cur := (case v of None \<Rightarrow> AList.delete n (d_cur d) | Some x \<Rightarrow> AList.update n x (d_cur d)),
           d_maybe := m, d_past := m # d_past d\<rparr>)"

definition disk_barrier :: "disk \<Rightarrow> disk" where
  "disk_barrier d =
     (let m = (\<lambda>n. {map_of (d_cur d) n}) in d\<lparr>d_maybe := m, d_past := m # d_past d\<rparr>)"

text \<open>What may be found after a crash.\<close>

definition crash_image :: "durable_state \<Rightarrow> (string \<rightharpoonup> string) \<Rightarrow> bool" where
  "crash_image m img \<longleftrightarrow>
     (\<forall>n. \<exists>v \<in> m n. case v of
        None \<Rightarrow> img n = None
      | Some x \<Rightarrow> (\<exists>data. img n = Some data \<and> (f_synced x \<longrightarrow> data = f_data x)))"

section \<open>Operations\<close>

definition disk_outcome :: "(disk, outcome) state" where
  "disk_outcome = State (\<lambda>d. case d_script d of
     [] \<Rightarrow> (Fine, d) | x # xs \<Rightarrow> (x, d\<lparr>d_script := xs\<rparr>))"

text \<open>An operation that performs \<open>f\<close> when it succeeds, or when a fault lets its effect happen.\<close>

definition disk_effect :: "(disk \<Rightarrow> disk) \<Rightarrow> (disk, os_err option) state" where
  "disk_effect f = do {
     x \<leftarrow> disk_outcome;
     State (\<lambda>d. case x of Fine \<Rightarrow> (None, f d) | Fault b \<Rightarrow> (Some OsErr, if b then f d else d))
   }"

definition disk_check :: "(disk, bool) state" where
  "disk_check = do { x \<leftarrow> disk_outcome; State_Monad.return (x = Fine) }"

definition disk_exists :: "string \<Rightarrow> (disk, bool) state" where
  "disk_exists n = State (\<lambda>d. (map_of (d_cur d) n \<noteq> None, d))"

definition disk_create :: "string \<Rightarrow> (disk, os_err option) state" where
  "disk_create n = do {
     present \<leftarrow> disk_exists n;
     if present then State_Monad.return (Some ErrExist)
     else disk_effect (disk_bind n (Some \<lparr>f_data = [], f_synced = False\<rparr>))
   }"

text \<open>\<open>write\<close> returns the count and an error; a fault is a short count or an error after the bytes.\<close>

definition disk_write :: "string \<Rightarrow> string \<Rightarrow> (disk, nat \<times> os_err option) state" where
  "disk_write n data = do {
     x \<leftarrow> disk_outcome;
     State (\<lambda>d. case x of
        Fine \<Rightarrow> ((length data, None), disk_bind n (Some \<lparr>f_data = data, f_synced = False\<rparr>) d)
      | Fault True \<Rightarrow> ((length data, Some OsErr), disk_bind n (Some \<lparr>f_data = data, f_synced = False\<rparr>) d)
      | Fault False \<Rightarrow> ((if data = [] then 1 else 0, None), d))
   }"

definition disk_sync_file :: "string \<Rightarrow> disk \<Rightarrow> disk" where
  "disk_sync_file n d =
     (case map_of (d_cur d) n of None \<Rightarrow> d | Some x \<Rightarrow> disk_bind n (Some (x\<lparr>f_synced := True\<rparr>)) d)"

definition disk_syncFile :: "string \<Rightarrow> (disk, os_err option) state" where
  "disk_syncFile n = disk_effect (disk_sync_file n)"

definition disk_close :: "(disk, os_err option) state" where
  "disk_close = disk_effect (\<lambda>d. d)"

definition disk_publish :: "string \<Rightarrow> string \<Rightarrow> (disk, os_err option) state" where
  "disk_publish src dst = do {
     taken \<leftarrow> disk_exists dst;
     if taken then State_Monad.return (Some ErrExist)
     else disk_effect (\<lambda>d. disk_bind dst (map_of (d_cur d) src) d)
   }"

definition disk_remove :: "string \<Rightarrow> (disk, os_err option) state" where
  "disk_remove n = do {
     present \<leftarrow> disk_exists n;
     if \<not> present then State_Monad.return (Some ErrNotExist) else disk_effect (disk_bind n None)
   }"

definition disk_syncDir :: "(disk, os_err option) state" where
  "disk_syncDir = disk_effect disk_barrier"

definition disk_read :: "string \<Rightarrow> (disk, string option) state" where
  "disk_read n = do {
     x \<leftarrow> disk_outcome;
     State (\<lambda>d. (if x = Fine then map_option f_data (map_of (d_cur d) n) else None, d))
   }"

definition disk_readDir :: "(disk, string list option) state" where
  "disk_readDir = do {
     x \<leftarrow> disk_outcome;
     State (\<lambda>d. (if x = Fine then Some (map fst (d_cur d)) else None, d))
   }"

definition disk_randomRead :: "(disk, string option) state" where
  "disk_randomRead = do {
     x \<leftarrow> disk_outcome;
     State (\<lambda>d. case (x, d_random d) of
        (Fine, r # rs) \<Rightarrow> (Some r, d\<lparr>d_random := rs\<rparr>) | _ \<Rightarrow> (None, d))
   }"

section \<open>Invariants of the operations\<close>

text \<open>
  The interface between the disk and what is proved about it: a property of the disk that survives
  rebinding the names in \<open>touch\<close>, a directory sync and the use of the script is kept by every
  operation on those names.
\<close>

locale disk_inv =
  fixes J :: "disk \<Rightarrow> bool" and touch :: "string \<Rightarrow> bool"
  assumes J_bind: "J d \<Longrightarrow> touch n \<Longrightarrow> J (disk_bind n v d)"
    and J_barrier: "J d \<Longrightarrow> J (disk_barrier d)"
    and J_script: "J d \<Longrightarrow> J (d\<lparr>d_script := xs\<rparr>)"
    and J_random: "J d \<Longrightarrow> J (d\<lparr>d_random := rs\<rparr>)"
begin

lemma keeps_outcome [hoare]: "keeps J disk_outcome"
  unfolding disk_outcome_def by (rule keeps_State) (auto intro: J_script split: list.splits)

lemma keeps_effect: "(\<And>d. J d \<Longrightarrow> J (f d)) \<Longrightarrow> keeps J (disk_effect f)"
  unfolding disk_effect_def by (intro hoare keeps_State) (auto split: outcome.splits)

lemma keeps_check [hoare]: "keeps J disk_check"
  unfolding disk_check_def by (intro hoare)

lemma keeps_exists [hoare]: "keeps J (disk_exists n)"
  unfolding disk_exists_def by (rule keeps_State) simp

lemma keeps_create [hoare]: "touch n \<Longrightarrow> keeps J (disk_create n)"
  unfolding disk_create_def by (intro hoare keeps_effect J_bind)

lemma keeps_write [hoare]: "touch n \<Longrightarrow> keeps J (disk_write n data)"
  unfolding disk_write_def by (intro hoare keeps_State) (auto intro: J_bind split: outcome.splits bool.splits)

lemma keeps_syncFile [hoare]: "touch n \<Longrightarrow> keeps J (disk_syncFile n)"
  unfolding disk_syncFile_def disk_sync_file_def
  by (intro keeps_effect) (auto intro: J_bind split: option.splits)

lemma keeps_close [hoare]: "keeps J disk_close"
  unfolding disk_close_def by (intro keeps_effect)

lemma keeps_publish [hoare]: "touch dst \<Longrightarrow> keeps J (disk_publish src dst)"
  unfolding disk_publish_def by (intro hoare keeps_effect J_bind)

lemma keeps_remove [hoare]: "touch n \<Longrightarrow> keeps J (disk_remove n)"
  unfolding disk_remove_def by (intro hoare keeps_effect J_bind)

lemma keeps_syncDir [hoare]: "keeps J disk_syncDir"
  unfolding disk_syncDir_def by (intro keeps_effect J_barrier)

lemma keeps_read [hoare]: "keeps J (disk_read n)"
  unfolding disk_read_def by (intro hoare keeps_State) simp

lemma keeps_readDir [hoare]: "keeps J disk_readDir"
  unfolding disk_readDir_def by (intro hoare keeps_State) simp

lemma keeps_randomRead [hoare]: "keeps J disk_randomRead"
  unfolding disk_randomRead_def
  by (intro hoare keeps_State) (auto intro: J_random split: outcome.splits list.splits)

end

text \<open>What the process sees is one of the states that may be durable.\<close>

definition disk_wf :: "disk \<Rightarrow> bool" where
  "disk_wf d \<longleftrightarrow> gomap_ok (d_cur d) \<and> (\<forall>n. map_of (d_cur d) n \<in> d_maybe d n)"

text \<open>A file is in place for good: now, and after every operation of the recorded past.\<close>

definition stored :: "string \<Rightarrow> dfile \<Rightarrow> disk \<Rightarrow> bool" where
  "stored n x d \<longleftrightarrow> map_of (d_cur d) n = Some x \<and> d_maybe d n = {Some x}"

definition kept :: "string \<Rightarrow> dfile \<Rightarrow> disk \<Rightarrow> bool" where
  "kept n x d \<longleftrightarrow> stored n x d \<and> (\<forall>m \<in> set (d_past d). m n = {Some x})"

lemma disk_bind_lookup:
  "map_of (d_cur (disk_bind n v d)) k = (if k = n then v else map_of (d_cur d) k)"
  by (auto simp: disk_bind_def Let_def update_conv' delete_conv' split: option.splits)

interpretation wf: disk_inv disk_wf "\<lambda>_. True"
proof
  show "disk_wf (disk_bind n v d)" if "disk_wf d" for n v d
    using that unfolding disk_wf_def disk_bind_lookup
    by (auto simp: disk_bind_def Let_def split: option.splits)
qed (auto simp: disk_wf_def disk_barrier_def Let_def)

interpretation kept: disk_inv "kept n x" "\<lambda>k. k \<noteq> n" for n x
proof
  show "kept n x (disk_bind k v d)" if "kept n x d" "k \<noteq> n" for k v d
    using that unfolding kept_def stored_def disk_bind_lookup by (auto simp: disk_bind_def Let_def)
qed (auto simp: kept_def stored_def disk_barrier_def Let_def)

text \<open>A synced file that is stored is in every crash image, with its contents.\<close>

lemma crash_image_stored:
  "m n = {Some x} \<Longrightarrow> f_synced x \<Longrightarrow> crash_image m img \<Longrightarrow> img n = Some (f_data x)"
  unfolding crash_image_def by (drule spec [of _ n]) auto

lemma crash_image_exists: "(\<And>n. m n \<noteq> {}) \<Longrightarrow> \<exists>img. crash_image m img"
proof -
  assume ne: "\<And>n. m n \<noteq> {}"
  define img where "img n = map_option f_data (SOME v. v \<in> m n)" for n
  have "(SOME v. v \<in> m n) \<in> m n" for n using ne [of n] by (simp add: some_in_eq)
  then have "crash_image m img"
    unfolding crash_image_def img_def by (intro allI bexI) (auto split: option.split)
  then show ?thesis by blast
qed

text \<open>What the process sees under one name, and a stored file, as invariants of operations on other names.\<close>

interpretation sees: disk_inv "\<lambda>d. map_of (d_cur d) n = v" "\<lambda>k. k \<noteq> n" for n v
proof
  show "map_of (d_cur (disk_bind k w d)) n = v" if "map_of (d_cur d) n = v" "k \<noteq> n" for k w d
    using that by (simp add: disk_bind_lookup)
qed (auto simp: disk_barrier_def Let_def)

interpretation stored: disk_inv "stored n x" "\<lambda>k. k \<noteq> n" for n x
proof
  show "stored n x (disk_bind k v d)" if "stored n x d" "k \<noteq> n" for k v d
    using that unfolding stored_def disk_bind_lookup by (auto simp: disk_bind_def Let_def)
qed (auto simp: stored_def disk_barrier_def Let_def)

lemma triple_outcome: "triple P disk_outcome (\<lambda>_ d. \<exists>xs. P (d\<lparr>d_script := xs\<rparr>))"
  unfolding disk_outcome_def
proof (rule triple_State)
  fix d :: disk
  assume "P d"
  then have "P (d\<lparr>d_script := d_script d\<rparr>)" "P (d\<lparr>d_script := ys\<rparr>\<lparr>d_script := d_script d\<rparr>)" for ys
    by simp_all
  then show "\<exists>xs. P (snd (case d_script d of [] \<Rightarrow> (Fine, d) | x # xs \<Rightarrow> (x, d\<lparr>d_script := xs\<rparr>))\<lparr>d_script := xs\<rparr>)"
    by (cases "d_script d") (auto intro: exI)
qed

text \<open>The effects of a successful operation.\<close>

lemma triple_effect:
  "triple (\<lambda>_. True) (disk_effect f) (\<lambda>r d. r = None \<longrightarrow> (\<exists>d0. d = f d0))"
  unfolding disk_effect_def
  by (intro triple_bind [where R = "\<lambda>_ _. True"] triple_State) (auto simp: triple_def split: outcome.splits)

lemma triple_effect_keep:
  assumes "\<And>d xs. Q (d\<lparr>d_script := xs\<rparr>) = Q d" "\<And>d. Q d \<Longrightarrow> R (f d)"
  shows "triple Q (disk_effect f) (\<lambda>r d. r = None \<longrightarrow> R d)"
  unfolding disk_effect_def
proof (rule triple_bind [where R = "\<lambda>_. Q"])
  show "triple Q disk_outcome (\<lambda>_. Q)"
    using triple_outcome [of Q] by (rule triple_post) (auto simp: assms(1))
qed (auto intro!: triple_State assms(2) split: outcome.splits)

lemma disk_write_ok:
  "triple (\<lambda>_. True) (disk_write n data)
     (\<lambda>r d. snd r = None \<and> fst r = length data \<longrightarrow>
        map_of (d_cur d) n = Some \<lparr>f_data = data, f_synced = False\<rparr>)"
  unfolding disk_write_def
  by (intro triple_bind [where R = "\<lambda>_ _. True"] triple_State)
    (auto simp: triple_def disk_bind_lookup split: outcome.splits bool.splits)

lemma disk_syncFile_ok:
  "triple (\<lambda>d. map_of (d_cur d) n = Some x) (disk_syncFile n)
     (\<lambda>r d. r = None \<longrightarrow> map_of (d_cur d) n = Some (x\<lparr>f_synced := True\<rparr>))"
  unfolding disk_syncFile_def disk_sync_file_def
  by (rule triple_effect_keep) (auto simp: disk_bind_lookup)

lemma disk_publish_ok:
  "triple (\<lambda>d. map_of (d_cur d) src = v) (disk_publish src dst)
     (\<lambda>r d. r = None \<longrightarrow> map_of (d_cur d) dst = v)"
  unfolding disk_publish_def disk_exists_def
proof (intro triple_bind [where R = "\<lambda>_ d. map_of (d_cur d) src = v"] triple_if triple_State triple_return)
  show "triple (\<lambda>d. map_of (d_cur d) src = v) (disk_effect (\<lambda>d. disk_bind dst (map_of (d_cur d) src) d))
     (\<lambda>r d. r = None \<longrightarrow> map_of (d_cur d) dst = v)"
    by (rule triple_effect_keep) (auto simp: disk_bind_lookup)
qed auto

lemma disk_syncDir_ok:
  "triple (\<lambda>d. map_of (d_cur d) n = Some x) disk_syncDir (\<lambda>r d. r = None \<longrightarrow> stored n x d)"
  unfolding disk_syncDir_def
  by (rule triple_effect_keep) (auto simp: stored_def disk_barrier_def Let_def)

lemma disk_syncDir_all:
  "triple (\<lambda>_. True) disk_syncDir (\<lambda>r d. r = None \<longrightarrow> (\<forall>n. d_maybe d n = {map_of (d_cur d) n}))"
  unfolding disk_syncDir_def
  by (rule triple_effect_keep) (auto simp: disk_barrier_def Let_def)

end
