(* ===== verification/Ingress_Wal.thy ===== *)
theory Ingress_Wal
  imports Wal_Format Wal_Disk
begin

text \<open>
  \<open>src/internal/ingresswal/wal.go\<close>: the owner-locked, bounded write-ahead log of the receivers. The
  record \<open>Store\<close> has the fields of the Go struct and the disk; every method is a program in the
  state monad over it, with the code's checks and early returns in the code's order, taking the
  outcome of each file operation, of each inspection of the directory and of each \<open>ctx.Err()\<close> from
  the script of the disk. Methods run under the store's mutex, so each is atomic here; \<open>Replay\<close>
  releases the mutex around a handler call, and the handler is modelled as not calling back. Error
  texts are kept short of their wrapped causes.
\<close>

section \<open>State\<close>

record pendingEntry =
  pe_name :: string
  pe_size :: int
  pe_sequence :: nat
  pe_durable :: bool

record completionMarker =
  cm_name :: string
  cm_sequence :: nat
  cm_entrySequence :: nat

datatype PreparedOutcome = PreparedPending | PreparedRetired

record Generation =
  gen_owner :: nat
  gen_id :: string
  gen_sequence :: nat

record Store =
  st_self :: nat
  st_MaxBytes :: int
  st_MaxEntries :: int
  st_pending :: "(string, pendingEntry) gomap"
  st_completed :: "(string, completionMarker) gomap"
  st_orphanStages :: "(string, int) gomap"
  st_bytes :: int
  st_orphanBytes :: int
  st_nextEntry :: nat
  st_nextMarker :: nat
  st_closed :: bool
  st_prepared :: "(Generation, PreparedOutcome) gomap"
  st_disk :: disk

type_synonym 'a wal = "(Store, 'a) state"

definition on_disk :: "(disk, 'a) state \<Rightarrow> 'a wal" where
  "on_disk m = State (\<lambda>s. case run_state m (st_disk s) of (r, d) \<Rightarrow> (r, s\<lparr>st_disk := d\<rparr>))"

abbreviation gets :: "(Store \<Rightarrow> 'a) \<Rightarrow> 'a wal" where
  "gets f \<equiv> State (\<lambda>s. (f s, s))"

abbreviation modify :: "(Store \<Rightarrow> Store) \<Rightarrow> unit wal" where
  "modify f \<equiv> State (\<lambda>s. ((), f s))"

abbreviation ret :: "'a \<Rightarrow> 'a wal" where
  "ret \<equiv> State_Monad.return"

text \<open>A call that only inspects: its answer comes from the script.\<close>

definition require :: "wal_error \<Rightarrow> wal_error option wal" where
  "require e = do { ok \<leftarrow> on_disk disk_check; ret (if ok then None else Some e) }"

definition ctx_Err :: "bool \<Rightarrow> wal_error option wal" where
  "ctx_Err cancellable = (if cancellable then require CtxErr else ret None)"

text \<open>Run the second step only when the first reported no error.\<close>

definition and_then :: "wal_error option wal \<Rightarrow> wal_error option wal \<Rightarrow> wal_error option wal" where
  "and_then a b = do { e \<leftarrow> a; case e of Some x \<Rightarrow> ret (Some x) | None \<Rightarrow> b }"

definition removed :: "os_err option \<Rightarrow> bool" where
  "removed e \<longleftrightarrow> e = None \<or> e = Some ErrNotExist"

section \<open>Directory and files\<close>

definition wal_revalidateDirectory :: "wal_error option wal" where
  "wal_revalidateDirectory =
     and_then (require (OwnershipError ''held directory cannot be inspected''))
       (and_then (require (OwnershipError ''configured directory was replaced''))
          (require (OwnershipError ''WAL directory ownership changed'')))"

definition wal_syncDir :: "string \<Rightarrow> wal_error option wal" where
  "wal_syncDir what = do {
     e \<leftarrow> on_disk disk_syncDir;
     ret (if e = None then None else Some (PlainError what))
   }"

definition wal_syncAndRevalidate :: "wal_error option wal" where
  "wal_syncAndRevalidate = and_then (wal_syncDir ''ingress WAL sync directory'') wal_revalidateDirectory"

definition wal_requireOwnedRegularAt :: "string \<Rightarrow> wal_error option wal" where
  "wal_requireOwnedRegularAt name =
     and_then (require (PlainError ''ingress WAL inspect state file''))
       (and_then (require (OwnershipError ''state file is not an owner-only regular file''))
          (require (OwnershipError ''state file is not owned by the effective service UID'')))"

definition wal_readBounded :: "string \<Rightarrow> (wal_error + string) wal" where
  "wal_readBounded name = do {
     present \<leftarrow> on_disk (disk_exists name);
     opened \<leftarrow> on_disk disk_check;
     if \<not> present \<or> \<not> opened
     then ret (Inl (OwnershipError ''state file cannot be opened without following links''))
     else do {
       e \<leftarrow> and_then (require (PlainError ''ingress WAL inspect state file''))
             (and_then (require (OwnershipError ''state file is not an owner-only regular file''))
               (require (OwnershipError ''state file is not owned by the effective service UID'')));
       case e of
         Some err \<Rightarrow> ret (Inl err)
       | None \<Rightarrow> do {
           r \<leftarrow> on_disk (disk_read name);
           limit \<leftarrow> gets st_MaxBytes;
           case r of
             None \<Rightarrow> ret (Inl (PlainError ''ingress WAL read state file''))
           | Some bytes \<Rightarrow>
               ret (if limit < int (length bytes)
                    then Inl (CorruptError ''state file exceeds configured byte capacity'') else Inr bytes)
         }
     }
   }"

section \<open>Capacity\<close>

definition wal_reserve :: "int \<Rightarrow> wal_error option wal" where
  "wal_reserve sz = State (\<lambda>s.
     if st_MaxEntries s \<le> int (length (st_pending s))
     then (Some (FullError LimitEntries (st_MaxEntries s) (int (length (st_pending s))) 1), s)
     else if st_MaxBytes s - st_bytes s - st_orphanBytes s < sz
     then (Some (FullError LimitBytes (st_MaxBytes s) (st_bytes s + st_orphanBytes s) sz), s)
     else (None, s\<lparr>st_bytes := st_bytes s + sz\<rparr>))"

definition wal_release :: "int \<Rightarrow> unit wal" where
  "wal_release sz = modify (\<lambda>s. s\<lparr>st_bytes := max 0 (st_bytes s - sz)\<rparr>)"

section \<open>Atomic creation\<close>

fun wal_createStage_loop :: "nat \<Rightarrow> string \<Rightarrow> (wal_error + string) wal" where
  "wal_createStage_loop 0 pre =
     ret (Inl (OwnershipError ''could not allocate a unique staging name''))"
| "wal_createStage_loop (Suc k) pre = do {
     r \<leftarrow> on_disk disk_randomRead;
     case r of
       None \<Rightarrow> ret (Inl (PlainError ''ingress WAL staging random source''))
     | Some random \<Rightarrow>
         if length random \<noteq> stageRandomBytes
         then ret (Inl (PlainError ''ingress WAL staging random source''))
         else do {
           let name = pre @ hex_EncodeToString random @ stageSuffix;
           e \<leftarrow> on_disk (disk_create name);
           if e = Some ErrExist then wal_createStage_loop k pre
           else if e \<noteq> None then ret (Inl (PlainError ''ingress WAL create exclusive staging file''))
           else do {
             ok \<leftarrow> on_disk disk_check;
             if ok then ret (Inr name)
             else do {
               _ \<leftarrow> on_disk disk_close;
               _ \<leftarrow> on_disk (disk_remove name);
               ret (Inl (PlainError ''ingress WAL secure staging file''))
             }
           }
         }
   }"

definition wal_createStage :: "string \<Rightarrow> (wal_error + string) wal" where
  "wal_createStage pre = wal_createStage_loop 32 pre"

type_synonym atomicCreateResult = "bool \<times> string option"

definition wal_cleanupFailure ::
  "bool \<Rightarrow> string \<Rightarrow> wal_error \<Rightarrow> (atomicCreateResult \<times> wal_error option) wal" where
  "wal_cleanupFailure closed stage cause = do {
     closeErr \<leftarrow> (if closed then ret None else on_disk disk_close);
     let cerr = (if closeErr = None then None else Some (PlainError ''close''));
     removeErr \<leftarrow> on_disk (disk_remove stage);
     if removed removeErr then ret ((False, None), errors_Join [Some cause, cerr])
     else ret ((False, Some stage),
       errors_Join [Some cause, cerr, Some (PlainError ''ingress WAL remove failed staging file'')])
   }"

definition wal_publishStage ::
  "string \<Rightarrow> string \<Rightarrow> (atomicCreateResult \<times> wal_error option) wal" where
  "wal_publishStage stage destination = do {
     perr \<leftarrow> on_disk (disk_publish stage destination);
     if perr = Some ErrExist
     then wal_cleanupFailure True stage
       (OwnershipError ''destination already exists outside the active index'')
     else if perr \<noteq> None
     then wal_cleanupFailure True stage
       (PlainError ''ingress WAL publish staging file without replacement'')
     else do {
       merr \<leftarrow> on_disk (disk_remove stage);
       if merr \<noteq> None
       then ret ((True, Some stage), Some (PlainError ''ingress WAL remove published staging name''))
       else do { err \<leftarrow> wal_syncAndRevalidate; ret ((True, None), err) }
     }
   }"

definition wal_atomicCreate ::
  "bool \<Rightarrow> string \<Rightarrow> string \<Rightarrow> string \<Rightarrow> (atomicCreateResult \<times> wal_error option) wal" where
  "wal_atomicCreate cancellable destination pre bytes = do {
     e0 \<leftarrow> wal_revalidateDirectory;
     case e0 of Some e \<Rightarrow> ret ((False, None), Some e) | None \<Rightarrow> do {
     created \<leftarrow> wal_createStage pre;
     case created of Inl e \<Rightarrow> ret ((False, None), Some e) | Inr stage \<Rightarrow> do {
     w \<leftarrow> on_disk (disk_write stage bytes);
     if snd w \<noteq> None
     then wal_cleanupFailure False stage (PlainError ''ingress WAL write staging file'')
     else if fst w \<noteq> length bytes
     then wal_cleanupFailure False stage (PlainError ''ingress WAL write staging file: short write'')
     else do {
     serr \<leftarrow> on_disk (disk_syncFile stage);
     if serr \<noteq> None
     then wal_cleanupFailure False stage (PlainError ''ingress WAL sync staging file'')
     else do {
     cerr \<leftarrow> on_disk disk_close;
     if cerr \<noteq> None
     then wal_cleanupFailure True stage (PlainError ''ingress WAL close staging file'')
     else do {
     err \<leftarrow> and_then (ctx_Err cancellable) wal_revalidateDirectory;
     case err of
       Some e \<Rightarrow> wal_cleanupFailure True stage e
     | None \<Rightarrow> wal_publishStage stage destination
     }}}}}
   }"

section \<open>Cleanup\<close>

fun wal_removeAll :: "string \<Rightarrow> string list \<Rightarrow> wal_error option wal" where
  "wal_removeAll what [] = ret None"
| "wal_removeAll what (n # ns) = do {
     e \<leftarrow> on_disk (disk_remove n);
     if removed e then wal_removeAll what ns else ret (Some (PlainError what))
   }"

definition drop_orphan :: "string \<Rightarrow> Store \<Rightarrow> Store" where
  "drop_orphan name s =
     s\<lparr>st_orphanBytes := st_orphanBytes s - (case map_of (st_orphanStages s) name of None \<Rightarrow> 0 | Some k \<Rightarrow> k),
       st_orphanStages := AList.delete name (st_orphanStages s)\<rparr>"

definition wal_cleanupOrphanNames :: "string list \<Rightarrow> wal_error option wal" where
  "wal_cleanupOrphanNames names =
     and_then (wal_removeAll ''ingress WAL retry staging cleanup'' names)
       (and_then (wal_syncDir ''ingress WAL sync staging cleanup retry'')
         (do {
            modify (fold drop_orphan names);
            modify (\<lambda>s. s\<lparr>st_orphanBytes := max 0 (st_orphanBytes s)\<rparr>);
            wal_revalidateDirectory
          }))"

definition wal_cleanupOrphansLocked :: "wal_error option wal" where
  "wal_cleanupOrphansLocked = do {
     orphans \<leftarrow> gets st_orphanStages;
     if orphans = [] then ret None else wal_cleanupOrphanNames (sort_Strings (map fst orphans))
   }"

definition wal_removeEntry :: "string \<Rightarrow> pendingEntry \<Rightarrow> (wal_error + bool) wal" where
  "wal_removeEntry i entry = do {
     r \<leftarrow> on_disk (disk_remove (pe_name entry));
     if \<not> removed r then ret (Inl (PlainError ''ingress WAL remove completed entry''))
     else do {
       e \<leftarrow> wal_syncDir ''ingress WAL sync completed entry cleanup'';
       case e of
         Some err \<Rightarrow> ret (Inl err)
       | None \<Rightarrow> do {
           modify (\<lambda>s. s\<lparr>st_pending := AList.delete i (st_pending s)\<rparr>);
           wal_release (pe_size entry);
           ret (Inr True)
         }
     }
   }"

definition wal_dropEntry :: "string \<Rightarrow> completionMarker \<Rightarrow> (wal_error + bool) wal" where
  "wal_dropEntry i marker = do {
     found \<leftarrow> gets (\<lambda>s. map_of (st_pending s) i);
     case found of
       None \<Rightarrow> ret (Inr True)
     | Some entry \<Rightarrow>
         if pe_sequence entry \<noteq> cm_entrySequence marker then ret (Inr False) else wal_removeEntry i entry
   }"

definition wal_removeMarker :: "string \<Rightarrow> completionMarker \<Rightarrow> bool \<Rightarrow> (bool \<times> bool \<times> wal_error option) wal" where
  "wal_removeMarker i marker notify = do {
     r \<leftarrow> on_disk (disk_remove (cm_name marker));
     if \<not> removed r then ret (False, False, Some (PlainError ''ingress WAL remove completion marker''))
     else do {
       e \<leftarrow> wal_syncDir ''ingress WAL sync completion marker cleanup'';
       case e of
         Some err \<Rightarrow> ret (False, False, Some err)
       | None \<Rightarrow> do {
           modify (\<lambda>s. s\<lparr>st_completed := AList.delete i (st_completed s)\<rparr>);
           v \<leftarrow> wal_revalidateDirectory;
           case v of Some err \<Rightarrow> ret (False, False, Some err) | None \<Rightarrow> ret (notify, True, None)
         }
     }
   }"

definition wal_retire :: "string \<Rightarrow> completionMarker \<Rightarrow> (bool \<times> bool \<times> wal_error option) wal" where
  "wal_retire i marker = do {
     dropped \<leftarrow> wal_dropEntry i marker;
     case dropped of
       Inl e \<Rightarrow> ret (False, False, Some e)
     | Inr notify \<Rightarrow> wal_removeMarker i marker notify
   }"

definition wal_cleanupCompletionLocked ::
  "string \<Rightarrow> completionMarker option \<Rightarrow> (bool \<times> bool \<times> wal_error option) wal" where
  "wal_cleanupCompletionLocked i expected = do {
     found \<leftarrow> gets (\<lambda>s. map_of (st_completed s) i);
     case found of
       None \<Rightarrow> ret (False, False, None)
     | Some marker \<Rightarrow>
         if expected \<noteq> None \<and> expected \<noteq> Some marker then ret (False, False, None) else wal_retire i marker
   }"

section \<open>Appending and committing\<close>

definition MaxUint64 :: nat where "MaxUint64 = 2 ^ 64 - 1"

definition wal_confirmExisting :: "Envelope \<Rightarrow> pendingEntry \<Rightarrow> storedRecord \<Rightarrow> wal_error option wal" where
  "wal_confirmExisting envelope existing record =
     (if \<not> envelopesEquivalent (sr_Envelope record) envelope
      then ret (Some (OwnershipError ''opaque ID already belongs to a different entry''))
      else if pe_durable existing then ret None
      else and_then wal_syncAndRevalidate
        (do {
           modify (\<lambda>s. s\<lparr>st_pending :=
             AList.update (env_ID envelope) (existing\<lparr>pe_durable := True\<rparr>) (st_pending s)\<rparr>);
           ret None
         }))"

definition wal_appendExisting :: "wal_lib \<Rightarrow> Envelope \<Rightarrow> pendingEntry \<Rightarrow> wal_error option wal" where
  "wal_appendExisting lib envelope existing = do {
     r \<leftarrow> wal_readBounded (pe_name existing);
     case r of
       Inl e \<Rightarrow> ret (Some e)
     | Inr onDisk \<Rightarrow>
         (case decodeRecord lib onDisk of
            Inl e \<Rightarrow> ret (Some e)
          | Inr record \<Rightarrow> wal_confirmExisting envelope existing record)
   }"

definition wal_finishAppend ::
  "string \<Rightarrow> pendingEntry \<Rightarrow> atomicCreateResult \<times> wal_error option \<Rightarrow> wal_error option wal" where
  "wal_finishAppend i entry outcome =
     (case outcome of
        ((False, None), writeErr) \<Rightarrow> do { wal_release (pe_size entry); ret writeErr }
      | ((False, Some orphan), writeErr) \<Rightarrow> do {
          wal_release (pe_size entry);
          modify (\<lambda>s. s\<lparr>st_orphanBytes := st_orphanBytes s + pe_size entry,
            st_orphanStages := AList.update orphan (pe_size entry) (st_orphanStages s)\<rparr>);
          ret writeErr
        }
      | ((True, orphan), writeErr) \<Rightarrow> do {
          modify (\<lambda>s. s\<lparr>st_orphanStages := (case orphan of None \<Rightarrow> st_orphanStages s
              | Some o' \<Rightarrow> AList.update o' 0 (st_orphanStages s)),
            st_pending := AList.update i (entry\<lparr>pe_durable := (writeErr = None)\<rparr>) (st_pending s),
            st_nextEntry := pe_sequence entry\<rparr>);
          ret writeErr
        })"

definition wal_appendNew :: "wal_lib \<Rightarrow> Envelope \<Rightarrow> wal_error option wal" where
  "wal_appendNew lib envelope = do {
     next \<leftarrow> gets st_nextEntry;
     if next = MaxUint64 then ret (Some (CorruptError ''entry sequence exhausted''))
     else case encodeRecord lib envelope (Suc next) of
       Inl e \<Rightarrow> ret (Some e)
     | Inr bytes \<Rightarrow>
         and_then (wal_reserve (int (length bytes))) (do {
           let name = entryName (Suc next) (env_ID envelope);
           result \<leftarrow> wal_atomicCreate True name appendStagePrefix bytes;
           wal_finishAppend (env_ID envelope)
             \<lparr>pe_name = name, pe_size = int (length bytes), pe_sequence = Suc next, pe_durable = False\<rparr> result
         })
   }"

text \<open>\<open>Append\<close> once the orphans are gone.\<close>

definition wal_appendLocked :: "wal_lib \<Rightarrow> Envelope \<Rightarrow> wal_error option wal" where
  "wal_appendLocked lib envelope = do {
     done \<leftarrow> gets (\<lambda>s. map_of (st_completed s) (env_ID envelope) \<noteq> None);
     err \<leftarrow> (if done then do { (_, _, e) \<leftarrow> wal_cleanupCompletionLocked (env_ID envelope) None; ret e }
             else ret None);
     case err of
       Some e \<Rightarrow> ret (Some e)
     | None \<Rightarrow> do {
         existing \<leftarrow> gets (\<lambda>s. map_of (st_pending s) (env_ID envelope));
         case existing of
           Some entry \<Rightarrow> wal_appendExisting lib envelope entry
         | None \<Rightarrow> wal_appendNew lib envelope
       }
   }"

definition wal_Append :: "wal_lib \<Rightarrow> Envelope \<Rightarrow> wal_error option wal" where
  "wal_Append lib envelope = do {
     c \<leftarrow> ctx_Err True;
     case c of Some e \<Rightarrow> ret (Some e) | None \<Rightarrow>
     (case validateEnvelope envelope of Some e \<Rightarrow> ret (Some e) | None \<Rightarrow> do {
     closed \<leftarrow> gets st_closed;
     if closed then ret (Some ErrClosed)
     else and_then wal_cleanupOrphansLocked (wal_appendLocked lib envelope)
     })
   }"

definition wal_makeDurable :: "string \<Rightarrow> pendingEntry \<Rightarrow> wal_error option wal" where
  "wal_makeDurable i entry =
     (if pe_durable entry then ret None
      else and_then wal_syncAndRevalidate
        (do {
           modify (\<lambda>s. s\<lparr>st_pending := AList.update i (entry\<lparr>pe_durable := True\<rparr>) (st_pending s)\<rparr>);
           ret None
         }))"

definition wal_remember :: "string \<Rightarrow> completionMarker \<Rightarrow> Store \<Rightarrow> Store" where
  "wal_remember i marker s =
     s\<lparr>st_completed := AList.update i marker (st_completed s), st_nextMarker := cm_sequence marker\<rparr>"

definition wal_finishMarker ::
  "string \<Rightarrow> completionMarker \<Rightarrow> atomicCreateResult \<times> wal_error option \<Rightarrow> (bool \<times> wal_error option) wal" where
  "wal_finishMarker i marker outcome = do {
     modify (\<lambda>s. s\<lparr>st_orphanStages := (case snd (fst outcome) of None \<Rightarrow> st_orphanStages s
       | Some o' \<Rightarrow> AList.update o' 0 (st_orphanStages s))\<rparr>);
     case snd outcome of
       Some e \<Rightarrow>
         if \<not> fst (fst outcome) then ret (False, Some e)
         else do {
           removeErr \<leftarrow> on_disk (disk_remove (cm_name marker));
           syncErr \<leftarrow> on_disk disk_syncDir;
           if \<not> removed removeErr \<or> syncErr \<noteq> None
           then do {
             modify (wal_remember i marker);
             ret (False, errors_Join [Some e,
               if removeErr = None then None else Some (PlainError ''remove''),
               if syncErr = None then None else Some (PlainError ''sync'')])
           }
           else ret (False, Some e)
         }
     | None \<Rightarrow> do {
         modify (wal_remember i marker);
         (notify, _, err) \<leftarrow> wal_cleanupCompletionLocked i None;
         ret (notify, err)
       }
   }"

definition wal_writeMarker :: "string \<Rightarrow> nat \<Rightarrow> (bool \<times> wal_error option) wal" where
  "wal_writeMarker i entrySequence = do {
     next \<leftarrow> gets st_nextMarker;
     if next = MaxUint64 then ret (False, Some (CorruptError ''completion sequence exhausted''))
     else case encodeMarker i (Suc next) entrySequence of
       Inl err \<Rightarrow> ret (False, Some err)
     | Inr bytes \<Rightarrow> do {
         let name = markerName (Suc next) i;
         result \<leftarrow> wal_atomicCreate False name doneStagePrefix bytes;
         wal_finishMarker i \<lparr>cm_name = name, cm_sequence = Suc next, cm_entrySequence = entrySequence\<rparr> result
       }
   }"

definition wal_commitPending :: "string \<Rightarrow> nat \<Rightarrow> (bool \<times> wal_error option) wal" where
  "wal_commitPending i expectedSequence = do {
     found \<leftarrow> gets (\<lambda>s. map_of (st_pending s) i);
     case found of
       None \<Rightarrow> ret (False, None)
     | Some entry \<Rightarrow>
         if expectedSequence \<noteq> 0 \<and> pe_sequence entry \<noteq> expectedSequence then ret (False, None)
         else do {
           e \<leftarrow> wal_makeDurable i entry;
           case e of
             Some err \<Rightarrow> ret (False, Some err)
           | None \<Rightarrow> wal_writeMarker i (pe_sequence entry)
         }
   }"

definition wal_commitGeneration :: "string \<Rightarrow> nat \<Rightarrow> (bool \<times> wal_error option) wal" where
  "wal_commitGeneration i expectedSequence = do {
     c \<leftarrow> ctx_Err True;
     case c of Some e \<Rightarrow> ret (False, Some e) | None \<Rightarrow>
     if \<not> validID i then ret (False, Some (PlainError ''ingress WAL commit: invalid opaque ID''))
     else do {
     closed \<leftarrow> gets st_closed;
     if closed then ret (False, Some ErrClosed)
     else do {
     o' \<leftarrow> wal_cleanupOrphansLocked;
     case o' of Some e \<Rightarrow> ret (False, Some e) | None \<Rightarrow> do {
     found \<leftarrow> gets (\<lambda>s. map_of (st_completed s) i);
     case found of
       Some marker \<Rightarrow>
         if expectedSequence \<noteq> 0 \<and> cm_entrySequence marker \<noteq> expectedSequence then ret (False, None)
         else do { (notify, _, err) \<leftarrow> wal_cleanupCompletionLocked i None; ret (notify, err) }
     | None \<Rightarrow> wal_commitPending i expectedSequence
     }}}
   }"

definition wal_Commit :: "string \<Rightarrow> wal_error option wal" where
  "wal_Commit i = do { (_, err) \<leftarrow> wal_commitGeneration i 0; ret err }"

section \<open>Replay\<close>

definition completed_less :: "string \<times> completionMarker \<Rightarrow> string \<times> completionMarker \<Rightarrow> bool" where
  "completed_less x y =
     (if cm_sequence (snd x) = cm_sequence (snd y) then fst x < fst y
      else cm_sequence (snd x) < cm_sequence (snd y))"

definition pending_less :: "string \<times> pendingEntry \<Rightarrow> string \<times> pendingEntry \<Rightarrow> bool" where
  "pending_less x y \<longleftrightarrow> pe_sequence (snd x) < pe_sequence (snd y)"

definition wal_cleanupCompletedSnapshot :: "string \<times> completionMarker \<Rightarrow> (bool \<times> wal_error option) wal" where
  "wal_cleanupCompletedSnapshot snapshot = do {
     c \<leftarrow> ctx_Err True;
     case c of Some e \<Rightarrow> ret (False, Some e) | None \<Rightarrow> do {
     closed \<leftarrow> gets st_closed;
     if closed then ret (False, Some ErrClosed)
     else do {
     o' \<leftarrow> wal_cleanupOrphansLocked;
     case o' of Some e \<Rightarrow> ret (False, Some e) | None \<Rightarrow> do {
     (notify, _, err) \<leftarrow> wal_cleanupCompletionLocked (fst snapshot) (Some (snd snapshot));
     ret (notify, err)
     }}}
   }"

text \<open>The loops return what the caller sees of them: the identities given to the observer, the
  envelopes given to the handler, and the error.\<close>

fun wal_cleanupSnapshots ::
  "(string \<times> completionMarker) list \<Rightarrow> (string list \<times> wal_error option) wal" where
  "wal_cleanupSnapshots [] = ret ([], None)"
| "wal_cleanupSnapshots (x # xs) = do {
     (notify, err) \<leftarrow> wal_cleanupCompletedSnapshot x;
     case err of
       Some e \<Rightarrow> ret ([], Some e)
     | None \<Rightarrow> do {
         (ids, err') \<leftarrow> wal_cleanupSnapshots xs;
         ret (if notify then fst x # ids else ids, err')
       }
   }"

definition wal_readEntry :: "string \<Rightarrow> wal_lib \<Rightarrow> string \<Rightarrow> pendingEntry \<Rightarrow> (wal_error + storedRecord \<times> string) wal" where
  "wal_readEntry mismatch lib i entry = do {
     r \<leftarrow> wal_readBounded (pe_name entry);
     case r of
       Inl e \<Rightarrow> ret (Inl e)
     | Inr bytes \<Rightarrow>
         (case decodeRecord lib bytes of
            Inl e \<Rightarrow> ret (Inl e)
          | Inr record \<Rightarrow>
              ret (if env_ID (sr_Envelope record) \<noteq> i \<or> sr_Sequence record \<noteq> pe_sequence entry
                   then Inl (CorruptError mismatch) else Inr (record, bytes)))
   }"

fun wal_replayEntries ::
  "wal_lib \<Rightarrow> (Envelope \<Rightarrow> wal_error option) \<Rightarrow> (string \<times> pendingEntry) list \<Rightarrow>
   (Envelope list \<times> string list \<times> wal_error option) wal" where
  "wal_replayEntries lib handler [] = ret ([], [], None)"
| "wal_replayEntries lib handler ((i, snapshot) # rest) = do {
     c \<leftarrow> ctx_Err True;
     case c of Some e \<Rightarrow> ret ([], [], Some e) | None \<Rightarrow> do {
     found \<leftarrow> gets (\<lambda>s. map_of (st_pending s) i);
     case found of
       None \<Rightarrow> wal_replayEntries lib handler rest
     | Some entry \<Rightarrow>
         if \<not> pe_durable entry \<or> pe_sequence entry \<noteq> pe_sequence snapshot
         then wal_replayEntries lib handler rest
         else do {
           r \<leftarrow> wal_readEntry ''entry filename does not match record'' lib i entry;
           case r of
             Inl e \<Rightarrow> ret ([], [], Some e)
           | Inr (record, _) \<Rightarrow>
               (case handler (sr_Envelope record) of
                  Some e \<Rightarrow> ret ([sr_Envelope record], [], Some e)
                | None \<Rightarrow> do {
                    (committed, err) \<leftarrow> wal_commitGeneration i (pe_sequence snapshot);
                    case err of
                      Some e \<Rightarrow> ret ([sr_Envelope record], [], Some e)
                    | None \<Rightarrow> do {
                        (handled, ids, err') \<leftarrow> wal_replayEntries lib handler rest;
                        ret (sr_Envelope record # handled, if committed then i # ids else ids, err')
                      }
                  })
         }
     }
   }"

definition replay_candidates :: "Store \<Rightarrow> (string \<times> pendingEntry) list" where
  "replay_candidates s = go_sort pending_less
     (filter (\<lambda>(i, entry). pe_durable entry \<and> map_of (st_completed s) i = None) (st_pending s))"

definition wal_Replay ::
  "wal_lib \<Rightarrow> (Envelope \<Rightarrow> wal_error option) \<Rightarrow> (Envelope list \<times> string list \<times> wal_error option) wal" where
  "wal_Replay lib handler = do {
     closed \<leftarrow> gets st_closed;
     if closed then ret ([], [], Some ErrClosed)
     else do {
     o' \<leftarrow> wal_cleanupOrphansLocked;
     case o' of Some e \<Rightarrow> ret ([], [], Some e) | None \<Rightarrow> do {
     completed \<leftarrow> gets (\<lambda>s. go_sort completed_less (st_completed s));
     (ids, err) \<leftarrow> wal_cleanupSnapshots completed;
     case err of Some e \<Rightarrow> ret ([], ids, Some e) | None \<Rightarrow> do {
     entries \<leftarrow> gets replay_candidates;
     (handled, ids', err') \<leftarrow> wal_replayEntries lib handler entries;
     ret (handled, ids @ ids', err')
     }}}
   }"

section \<open>Opening\<close>

fun wal_sweepStages_loop :: "string list \<Rightarrow> bool \<Rightarrow> (wal_error option \<times> bool) wal" where
  "wal_sweepStages_loop [] gone = ret (None, gone)"
| "wal_sweepStages_loop (name # names) gone =
     (if \<not> inStageNamespace name then wal_sweepStages_loop names gone
      else if \<not> validStageName name then ret (Some (CorruptError ''malformed staging filename''), gone)
      else do {
        e \<leftarrow> and_then (require (PlainError ''ingress WAL inspect staging file''))
              (and_then (require (OwnershipError ''staging entry is not a regular file''))
                (require (OwnershipError ''staging entry is not owned by the effective service UID'')));
        case e of Some err \<Rightarrow> ret (Some err, gone) | None \<Rightarrow> do {
          r \<leftarrow> on_disk (disk_remove name);
          if r \<noteq> None then ret (Some (PlainError ''ingress WAL remove staging file''), gone)
          else wal_sweepStages_loop names True
        }
      })"

definition wal_sweepStages :: "wal_error option wal" where
  "wal_sweepStages = do {
     names \<leftarrow> on_disk disk_readDir;
     case names of
       None \<Rightarrow> ret (Some (PlainError ''ingress WAL list staging files''))
     | Some ns \<Rightarrow> do {
         (e, gone) \<leftarrow> wal_sweepStages_loop ns False;
         case e of
           Some err \<Rightarrow> ret (Some err)
         | None \<Rightarrow> if gone then wal_syncDir ''ingress WAL sync staging cleanup'' else ret None
       }
   }"

definition wal_readMarker :: "string \<Rightarrow> (wal_error + (string \<times> nat \<times> nat)) wal" where
  "wal_readMarker name = do {
     r \<leftarrow> wal_readBounded name;
     ret (case r of Inl e \<Rightarrow> Inl e | Inr bytes \<Rightarrow> decodeMarker bytes)
   }"

definition wal_loadMarker :: "string \<Rightarrow> nat list \<Rightarrow> (wal_error + nat) wal" where
  "wal_loadMarker name markerSequences =
     (case parseMarkerName name of
        None \<Rightarrow> ret (Inl (CorruptError ''malformed completion filename''))
      | Some (sequence, i) \<Rightarrow>
          if sequence \<in> set markerSequences then ret (Inl (CorruptError ''duplicate completion sequence''))
          else do {
            dup \<leftarrow> gets (\<lambda>s. map_of (st_completed s) i \<noteq> None);
            if dup then ret (Inl (CorruptError ''duplicate completion identity''))
            else do {
              e \<leftarrow> wal_requireOwnedRegularAt name;
              case e of Some err \<Rightarrow> ret (Inl err) | None \<Rightarrow> do {
                r \<leftarrow> wal_readMarker name;
                case r of
                  Inl err \<Rightarrow> ret (Inl err)
                | Inr (markerID, markerSequence, entrySequence) \<Rightarrow>
                    if markerID \<noteq> i then ret (Inl (CorruptError ''completion marker identity mismatch''))
                    else if markerSequence \<noteq> sequence
                    then ret (Inl (CorruptError ''completion marker sequence mismatch''))
                    else do {
                      modify (\<lambda>s. s\<lparr>st_completed := AList.update i
                          \<lparr>cm_name = name, cm_sequence = sequence, cm_entrySequence = entrySequence\<rparr>
                          (st_completed s),
                        st_nextMarker := max (st_nextMarker s) sequence\<rparr>);
                      ret (Inr sequence)
                    }
              }
            }
          })"

fun wal_loadNames ::
  "string list \<Rightarrow> (string, string) gomap \<Rightarrow> nat list \<Rightarrow> nat list \<Rightarrow> (wal_error + (string, string) gomap) wal" where
  "wal_loadNames [] entryNames entrySequences markerSequences = ret (Inr entryNames)"
| "wal_loadNames (name # names) entryNames entrySequences markerSequences =
     (if strings_HasSuffix name entrySuffix then
        (case parseEntryName name of
           None \<Rightarrow> ret (Inl (CorruptError ''malformed entry filename''))
         | Some (sequence, i) \<Rightarrow>
             if sequence \<in> set entrySequences then ret (Inl (CorruptError ''duplicate entry sequence''))
             else if map_of entryNames i \<noteq> None then ret (Inl (CorruptError ''duplicate entry identity''))
             else do {
               modify (\<lambda>s. s\<lparr>st_nextEntry := max (st_nextEntry s) sequence\<rparr>);
               wal_loadNames names (AList.update i name entryNames) (sequence # entrySequences) markerSequences
             })
      else if strings_HasPrefix name completionPrefix then do {
        r \<leftarrow> wal_loadMarker name markerSequences;
        case r of
          Inl e \<Rightarrow> ret (Inl e)
        | Inr sequence \<Rightarrow> wal_loadNames names entryNames entrySequences (sequence # markerSequences)
      }
      else if inStageNamespace name
      then ret (Inl (CorruptError ''staging entry remained after startup sweep''))
      else wal_loadNames names entryNames entrySequences markerSequences)"

fun wal_loadEntries :: "wal_lib \<Rightarrow> (string, string) gomap \<Rightarrow> wal_error option wal" where
  "wal_loadEntries lib [] = ret None"
| "wal_loadEntries lib ((i, name) # rest) =
     (case parseEntryName name of
        None \<Rightarrow> ret (Some (CorruptError ''malformed entry filename''))
      | Some (sequence, filenameID) \<Rightarrow>
          and_then (wal_requireOwnedRegularAt name) (do {
            r \<leftarrow> wal_readBounded name;
            case r of
              Inl e \<Rightarrow> ret (Some e)
            | Inr bytes \<Rightarrow>
                (case decodeRecord lib bytes of
                   Inl e \<Rightarrow> ret (Some e)
                 | Inr record \<Rightarrow>
                     if env_ID (sr_Envelope record) \<noteq> filenameID \<or> sr_Sequence record \<noteq> sequence
                     then ret (Some (CorruptError ''entry filename does not match record''))
                     else and_then (wal_reserve (int (length bytes))) (do {
                       modify (\<lambda>s. s\<lparr>st_pending := AList.update i
                         \<lparr>pe_name = name, pe_size = int (length bytes), pe_sequence = sequence,
                          pe_durable = False\<rparr> (st_pending s)\<rparr>);
                       wal_loadEntries lib rest
                     }))
          }))"

definition wal_load :: "wal_lib \<Rightarrow> wal_error option wal" where
  "wal_load lib = do {
     names \<leftarrow> on_disk disk_readDir;
     case names of
       None \<Rightarrow> ret (Some (PlainError ''ingress WAL list directory''))
     | Some ns \<Rightarrow> do {
         r \<leftarrow> wal_loadNames ns [] [] [];
         case r of Inl e \<Rightarrow> ret (Some e) | Inr entryNames \<Rightarrow> wal_loadEntries lib entryNames
       }
   }"

definition wal_acquireLock :: "wal_error option wal" where
  "wal_acquireLock =
     and_then (require (OwnershipError ''owner lock cannot be opened safely''))
      (and_then (require (OwnershipError ''owner lock cannot be inspected safely''))
        (and_then (require (OwnershipError ''owner lock is not a regular file''))
          (and_then (require (OwnershipError ''owner lock is not owned by the effective service UID''))
            (and_then (require (PlainError ''ingress WAL secure owner lock''))
              (and_then (require (OwnershipError ''owner lock is not an owner-only regular file''))
                (require (OwnershipError ''another writer owns the directory'')))))))"

definition wal_recoveryBarrier :: "wal_error option wal" where
  "wal_recoveryBarrier = do {
     busy \<leftarrow> gets (\<lambda>s. st_pending s \<noteq> [] \<or> st_completed s \<noteq> []);
     if \<not> busy then ret None
     else and_then wal_syncAndRevalidate (do {
       modify (\<lambda>s. s\<lparr>st_pending := map (\<lambda>(i, entry). (i, entry\<lparr>pe_durable := True\<rparr>)) (st_pending s)\<rparr>);
       ret None
     })
   }"

text \<open>The first half of \<open>open\<close>: holding the directory, created when it does not exist. The parent's answers
  come from the script, the sync of the parent included.\<close>

definition wal_childDirectory :: "(bool \<times> wal_error option) wal" where
  "wal_childDirectory = do {
     opened \<leftarrow> on_disk disk_check;
     if opened then ret (True, None)
     else do {
       notExist \<leftarrow> on_disk disk_check;
       if notExist then do { e \<leftarrow> require (PlainError ''ingress WAL create final directory''); ret (False, e) }
       else ret (False, Some (OwnershipError ''WAL path is not a no-follow directory''))
     }
   }"

definition wal_holdDirectory :: "wal_error option wal" where
  "wal_holdDirectory =
     and_then (require (OwnershipError ''directory must name one final child''))
      (and_then (require (PlainError ''ingress WAL open existing parent directory''))
        (do {
           (opened, err) \<leftarrow> wal_childDirectory;
           and_then (ret err)
             (and_then (require (PlainError ''ingress WAL sync parent directory''))
               (if opened then ret None
                else require (OwnershipError ''WAL path is not a no-follow directory'')))
         }))"

definition wal_open :: "wal_lib \<Rightarrow> wal_error option wal" where
  "wal_open lib =
     and_then wal_holdDirectory
      (and_then (require (OwnershipError ''WAL directory is not owned by the effective service UID''))
        (and_then (require (PlainError ''ingress WAL secure directory''))
          (and_then wal_revalidateDirectory
            (and_then wal_acquireLock
              (and_then wal_sweepStages
                (and_then (wal_load lib) wal_recoveryBarrier))))))"

definition wal_newStore :: "nat \<Rightarrow> int \<Rightarrow> int \<Rightarrow> disk \<Rightarrow> Store" where
  "wal_newStore self maxBytes maxEntries d =
     \<lparr>st_self = self, st_MaxBytes = maxBytes, st_MaxEntries = maxEntries, st_pending = [], st_completed = [],
      st_orphanStages = [], st_bytes = 0, st_orphanBytes = 0, st_nextEntry = 0, st_nextMarker = 0,
      st_closed = False, st_prepared = [], st_disk = d\<rparr>"

definition wal_New :: "wal_lib \<Rightarrow> nat \<Rightarrow> string \<Rightarrow> int \<Rightarrow> int \<Rightarrow> disk \<Rightarrow> wal_error + Store" where
  "wal_New lib self directory maxBytes maxEntries d =
     (if directory = [] then Inl (PlainError ''ingress WAL directory is required'')
      else if maxBytes \<le> 0 \<or> maxEntries \<le> 0
      then Inl (PlainError ''ingress WAL MaxBytes and MaxEntries must both be positive'')
      else case run_state (and_then (require (PlainError ''platform not supported'')) (wal_open lib))
                  (wal_newStore self maxBytes maxEntries d) of
             (Some e, s) \<Rightarrow> Inl e
           | (None, s) \<Rightarrow> Inr s)"

section \<open>Health and closing\<close>

record Health =
  h_PendingBytes :: int
  h_PendingEntries :: int
  h_CompletionMarkers :: int
  h_OrphanStages :: int
  h_OrphanBytes :: int
  h_MaxBytes :: int
  h_MaxEntries :: int
  h_Closed :: bool

definition wal_Health :: "Store \<Rightarrow> Health" where
  "wal_Health s =
     \<lparr>h_PendingBytes = st_bytes s, h_PendingEntries = int (length (st_pending s)),
      h_CompletionMarkers = int (length (st_completed s)), h_OrphanStages = int (length (st_orphanStages s)),
      h_OrphanBytes = st_orphanBytes s, h_MaxBytes = st_MaxBytes s, h_MaxEntries = st_MaxEntries s,
      h_Closed = st_closed s\<rparr>"

definition wal_releaseResources :: "wal_error option wal" where
  "wal_releaseResources = do {
     a \<leftarrow> require (PlainError ''unlock'');
     b \<leftarrow> require (PlainError ''close lock'');
     c \<leftarrow> require (PlainError ''close directory'');
     ret (errors_Join [a, b, c])
   }"

definition wal_Close :: "wal_error option wal" where
  "wal_Close = do {
     closed \<leftarrow> gets st_closed;
     if closed then ret None
     else do { modify (\<lambda>s. s\<lparr>st_closed := True\<rparr>); wal_releaseResources }
   }"

end
