(* ===== verification/Ingress_Wal_Inv.thy ===== *)
theory Ingress_Wal_Inv
  imports Ingress_Wal
begin

text \<open>
  Invariants of the write-ahead log. \<open>wf\<close> says what the in-memory index looks like (names derived
  from sequences and identities, sequences positive and distinct, staging names in their name
  space). The locale \<open>wal_inv\<close> is the interface between the programs and a property \<open>J\<close> of the index and
  the disk: if \<open>J\<close> survives the elementary steps (rebinding a name that is not an entry's, dropping a
  retired entry, recording a marker, entering a file that is in place), then every method keeps it,
  whatever the file operations do.
\<close>

declare map_of_eq_Some_iff [simp del]

section \<open>Steps that only touch the disk\<close>

definition disk_free :: "(Store \<Rightarrow> bool) \<Rightarrow> bool" where
  "disk_free F \<longleftrightarrow> (\<forall>s d. F (s\<lparr>st_disk := d\<rparr>) = F s)"

definition disk_only :: "'a wal \<Rightarrow> bool" where
  "disk_only m \<longleftrightarrow> (\<forall>s. \<exists>d. snd (run_state m s) = s\<lparr>st_disk := d\<rparr>)"

named_theorems disk_ops \<open>operations that leave the index alone\<close>

lemma disk_only_keeps: "disk_only m \<Longrightarrow> disk_free F \<Longrightarrow> keeps F m"
  by (metis disk_free_def disk_only_def keeps_def triple_def)

lemma disk_free_conj [simp]: "disk_free F \<Longrightarrow> disk_free G \<Longrightarrow> disk_free (\<lambda>s. F s \<and> G s)"
  by (simp add: disk_free_def)

lemma disk_only_on_disk [disk_ops]: "disk_only (on_disk m)"
  by (auto simp: disk_only_def on_disk_def split: prod.splits)

lemma disk_only_return [disk_ops]: "disk_only (ret x)"
proof -
  have "snd (run_state (ret x) s) = s\<lparr>st_disk := st_disk s\<rparr>" for s :: Store by simp
  then show ?thesis unfolding disk_only_def by blast
qed

lemma disk_only_gets [disk_ops]: "disk_only (gets f)"
proof -
  have "snd (run_state (gets f) s) = s\<lparr>st_disk := st_disk s\<rparr>" for s :: Store by simp
  then show ?thesis unfolding disk_only_def by blast
qed

lemma disk_only_bind [disk_ops]:
  assumes "disk_only m" "\<And>x. disk_only (f x)"
  shows "disk_only (State_Monad.bind m f)"
  unfolding disk_only_def
proof
  fix s :: Store
  obtain x s1 where m: "run_state m s = (x, s1)" by fastforce
  with assms(1) obtain d where "s1 = s\<lparr>st_disk := d\<rparr>" by (metis disk_only_def snd_conv)
  moreover obtain d' where "snd (run_state (f x) s1) = s1\<lparr>st_disk := d'\<rparr>"
    using assms(2) [of x] by (auto simp: disk_only_def)
  ultimately show "\<exists>d. snd (run_state (State_Monad.bind m f) s) = s\<lparr>st_disk := d\<rparr>"
    using m by (auto simp: State_Monad.bind_def)
qed

lemma disk_only_if [disk_ops]: "disk_only a \<Longrightarrow> disk_only b \<Longrightarrow> disk_only (if c then a else b)"
  by simp

lemma disk_only_option [disk_ops]:
  "disk_only a \<Longrightarrow> (\<And>y. disk_only (f y)) \<Longrightarrow> disk_only (case x of None \<Rightarrow> a | Some y \<Rightarrow> f y)"
  by (cases x) simp_all

lemma disk_only_sum [disk_ops]:
  "(\<And>y. disk_only (f y)) \<Longrightarrow> (\<And>y. disk_only (g y)) \<Longrightarrow> disk_only (case x of Inl y \<Rightarrow> f y | Inr y \<Rightarrow> g y)"
  by (cases x) simp_all

lemma disk_only_require [disk_ops]: "disk_only (require e)"
  unfolding require_def by (intro disk_ops)

lemma disk_only_ctx_Err [disk_ops]: "disk_only (ctx_Err c)"
  unfolding ctx_Err_def by (intro disk_ops)

lemma disk_only_and_then [disk_ops]: "disk_only a \<Longrightarrow> disk_only b \<Longrightarrow> disk_only (and_then a b)"
  unfolding and_then_def by (intro disk_ops)

lemma disk_only_revalidate [disk_ops]: "disk_only wal_revalidateDirectory"
  unfolding wal_revalidateDirectory_def by (intro disk_ops)

lemma disk_only_syncDir [disk_ops]: "disk_only (wal_syncDir what)"
  unfolding wal_syncDir_def by (intro disk_ops)

lemma disk_only_syncAndRevalidate [disk_ops]: "disk_only wal_syncAndRevalidate"
  unfolding wal_syncAndRevalidate_def by (intro disk_ops)

lemma disk_only_requireOwned [disk_ops]: "disk_only (wal_requireOwnedRegularAt name)"
  unfolding wal_requireOwnedRegularAt_def by (intro disk_ops)

lemma disk_only_readBounded [disk_ops]: "disk_only (wal_readBounded name)"
  unfolding wal_readBounded_def by (intro disk_ops)

lemma disk_only_createStage [disk_ops]: "disk_only (wal_createStage pre)"
proof -
  have "disk_only (wal_createStage_loop k pre)" for k
    by (induction k) (auto intro!: disk_ops simp: Let_def)
  then show ?thesis by (simp add: wal_createStage_def)
qed

lemma disk_only_cleanupFailure [disk_ops]: "disk_only (wal_cleanupFailure closed stage cause)"
  unfolding wal_cleanupFailure_def Let_def by (intro disk_ops)

lemma disk_only_publishStage [disk_ops]: "disk_only (wal_publishStage stage destination)"
  unfolding wal_publishStage_def by (intro disk_ops)

lemma disk_only_atomicCreate [disk_ops]: "disk_only (wal_atomicCreate c destination pre bytes)"
  unfolding wal_atomicCreate_def by (intro disk_ops)

lemma disk_only_removeAll [disk_ops]: "disk_only (wal_removeAll what names)"
  by (induction names) (auto intro!: disk_ops)

lemma disk_only_readEntry [disk_ops]: "disk_only (wal_readEntry what lib i entry)"
  unfolding wal_readEntry_def by (intro disk_ops)

section \<open>The shape of the index\<close>

type_synonym pending_map = "(string, pendingEntry) gomap"
type_synonym completed_map = "(string, completionMarker) gomap"

definition pending_wf :: "nat \<Rightarrow> pending_map \<Rightarrow> bool" where
  "pending_wf next P \<longleftrightarrow> gomap_ok P \<and>
     (\<forall>i e. map_of P i = Some e \<longrightarrow> validID i \<and> 0 < pe_sequence e \<and> pe_sequence e \<le> next \<and>
        pe_name e = entryName (pe_sequence e) i) \<and>
     (\<forall>i e j f. map_of P i = Some e \<longrightarrow> map_of P j = Some f \<longrightarrow> pe_sequence e = pe_sequence f \<longrightarrow> i = j)"

definition completed_wf :: "nat \<Rightarrow> completed_map \<Rightarrow> bool" where
  "completed_wf next C \<longleftrightarrow> gomap_ok C \<and>
     (\<forall>i m. map_of C i = Some m \<longrightarrow> validID i \<and> 0 < cm_sequence m \<and> cm_sequence m \<le> next \<and>
        cm_name m = markerName (cm_sequence m) i)"

definition wf :: "Store \<Rightarrow> bool" where
  "wf s \<longleftrightarrow> st_nextEntry s \<le> MaxUint64 \<and> st_nextMarker s \<le> MaxUint64 \<and>
     pending_wf (st_nextEntry s) (st_pending s) \<and> completed_wf (st_nextMarker s) (st_completed s) \<and>
     gomap_ok (st_orphanStages s) \<and> (\<forall>n \<in> fst ` set (st_orphanStages s). inStageNamespace n)"

lemma disk_free_wf [simp]: "disk_free wf"
  by (simp add: disk_free_def wf_def)

lemma MaxUint64_bound: "q \<le> MaxUint64 \<Longrightarrow> q < 2 ^ 64"
  by (simp add: MaxUint64_def)

text \<open>An entry is being retired when the completion marker of its generation is recorded.\<close>

definition retiring :: "completed_map \<Rightarrow> string \<Rightarrow> pendingEntry \<Rightarrow> bool" where
  "retiring C i e \<longleftrightarrow> (\<exists>m. map_of C i = Some m \<and> cm_entrySequence m = pe_sequence e)"

definition entry_names :: "pending_map \<Rightarrow> string \<Rightarrow> bool" where
  "entry_names P n \<longleftrightarrow> (\<exists>i e. map_of P i = Some e \<and> pe_name e = n)"

lemma pending_wfD:
  assumes "pending_wf k P" "map_of P i = Some e"
  shows "validID i" "0 < pe_sequence e" "pe_sequence e \<le> k" "pe_name e = entryName (pe_sequence e) i"
  using assms by (auto simp: pending_wf_def)

lemma wf_stage_not_entry: "pending_wf k P \<Longrightarrow> inStageNamespace n \<Longrightarrow> \<not> entry_names P n"
  by (auto simp: pending_wf_def entry_names_def entry_not_stage)

lemma wf_marker_not_entry: "pending_wf k P \<Longrightarrow> \<not> entry_names P (markerName a i)"
  by (auto simp: pending_wf_def entry_names_def entry_not_marker)

lemma wf_new_not_entry:
  "pending_wf k P \<Longrightarrow> k < MaxUint64 \<Longrightarrow> validID i \<Longrightarrow> \<not> entry_names P (entryName (Suc k) i)"
proof
  assume P: "pending_wf k P" "k < MaxUint64" "validID i" and "entry_names P (entryName (Suc k) i)"
  then obtain j e where e: "map_of P j = Some e" "pe_name e = entryName (Suc k) i"
    by (auto simp: entry_names_def)
  with P have "validID j" "0 < pe_sequence e" "pe_sequence e \<le> k" "pe_name e = entryName (pe_sequence e) j"
    by (auto simp: pending_wf_def)
  with e P entryName_inject [of "pe_sequence e" j "Suc k" i] show False
    by (simp add: MaxUint64_def)
qed

lemma wf_names_differ:
  assumes "pending_wf k P" "k \<le> MaxUint64" "map_of P i = Some e" "map_of P j = Some f" "pe_name e = pe_name f"
  shows "i = j"
proof -
  note e = pending_wfD [OF assms(1,3)] and f = pending_wfD [OF assms(1,4)]
  have "pe_sequence e < 2 ^ 64" "pe_sequence f < 2 ^ 64"
    using e(3) f(3) assms(2) by (simp_all add: MaxUint64_def)
  with e f assms(5) entryName_inject [of "pe_sequence e" i "pe_sequence f" j] show ?thesis by simp
qed

lemma pending_wf_delete: "pending_wf k P \<Longrightarrow> pending_wf k (AList.delete i P)"
  by (auto simp: pending_wf_def delete_conv' split: if_splits)

lemma pending_wf_durable:
  "pending_wf k P \<Longrightarrow> map_of P i = Some e \<Longrightarrow> pending_wf k (AList.update i (e\<lparr>pe_durable := b\<rparr>) P)"
  by (auto simp: pending_wf_def update_conv' split: if_splits)

lemma pending_wf_new:
  assumes "pending_wf k P" "validID i" "pe_sequence e = Suc k" "pe_name e = entryName (Suc k) i" "map_of P i = None"
  shows "pending_wf (Suc k) (AList.update i e P)"
proof -
  have "pe_sequence f \<noteq> Suc k" "Suc k \<noteq> pe_sequence f" if "map_of P j = Some f" for j f
    using pending_wfD(3) [OF assms(1) that] by auto
  with assms show ?thesis
    by (auto simp: pending_wf_def update_conv' le_SucI split: if_splits)
qed

lemma completed_wf_delete: "completed_wf k C \<Longrightarrow> completed_wf k (AList.delete i C)"
  by (auto simp: completed_wf_def delete_conv' split: if_splits)

lemma completed_wf_new:
  "completed_wf k C \<Longrightarrow> validID i \<Longrightarrow> cm_sequence m = Suc k \<Longrightarrow> cm_name m = markerName (Suc k) i \<Longrightarrow>
   completed_wf (Suc k) (AList.update i m C)"
  by (auto simp: completed_wf_def update_conv' le_SucI split: if_splits)

section \<open>The invariant interface\<close>

definition held :: "(pending_map \<Rightarrow> completed_map \<Rightarrow> disk \<Rightarrow> bool) \<Rightarrow> Store \<Rightarrow> bool" where
  "held J s \<longleftrightarrow> J (st_pending s) (st_completed s) (st_disk s)"

text \<open>An index fact that is about the index only and implies its well-formedness.\<close>

definition index :: "(Store \<Rightarrow> bool) \<Rightarrow> bool" where
  "index F \<longleftrightarrow> disk_free F \<and> (\<forall>s. F s \<longrightarrow> wf s)"

lemma index_wf [simp]: "index wf"
  by (simp add: index_def)

lemma index_conj: "index F \<Longrightarrow> disk_free G \<Longrightarrow> index (\<lambda>s. F s \<and> G s)"
  by (simp add: index_def)

text \<open>The file of an entry is in place: complete and synced, decodable as this generation, and on
  stable storage if the entry is marked durable.\<close>

definition file_in_place :: "wal_lib \<Rightarrow> string \<Rightarrow> pendingEntry \<Rightarrow> disk \<Rightarrow> bool" where
  "file_in_place lib i e d \<longleftrightarrow>
     (\<exists>bytes env. map_of (d_cur d) (pe_name e) = Some \<lparr>f_data = bytes, f_synced = True\<rparr> \<and>
        decodeRecord lib bytes = Inr \<lparr>sr_Sequence = pe_sequence e, sr_Envelope = env\<rparr> \<and> env_ID env = i \<and>
        pe_size e = int (length bytes) \<and>
        (pe_durable e \<longrightarrow> d_maybe d (pe_name e) = {Some \<lparr>f_data = bytes, f_synced = True\<rparr>}))"

locale wal_inv =
  fixes lib :: wal_lib and J :: "pending_map \<Rightarrow> completed_map \<Rightarrow> disk \<Rightarrow> bool" and may_commit :: "string \<Rightarrow> bool"
  assumes J_disk: "disk_inv (J P C) (\<lambda>n. \<not> entry_names P n)"
    and J_drop_file: "J P C d \<Longrightarrow> pending_wf k P \<Longrightarrow> k \<le> MaxUint64 \<Longrightarrow> map_of P i = Some e \<Longrightarrow> retiring C i e \<Longrightarrow>
      J P C (disk_bind (pe_name e) None d)"
    and J_forget_entry: "J P C d \<Longrightarrow> map_of P i = Some e \<Longrightarrow> retiring C i e \<Longrightarrow> J (AList.delete i P) C d"
    and J_forget_marker: "J P C d \<Longrightarrow> (\<And>e. map_of P i = Some e \<Longrightarrow> \<not> retiring C i e) \<Longrightarrow> J P (AList.delete i C) d"
    and J_mark: "J P C d \<Longrightarrow> map_of C i = None \<Longrightarrow> may_commit i \<Longrightarrow> J P (AList.update i m C) d"
    and J_enter: "J P C d \<Longrightarrow> map_of P i = None \<Longrightarrow> file_in_place lib i e d \<Longrightarrow> J (AList.update i e P) C d"
    and J_durable: "J P C d \<Longrightarrow> map_of P i = Some e \<Longrightarrow> d_maybe d (pe_name e) = {map_of (d_cur d) (pe_name e)} \<Longrightarrow>
      J (AList.update i (e\<lparr>pe_durable := True\<rparr>) P) C d"

lemma keeps_gets: "keeps J (gets f)"
  by (rule keeps_State) simp

lemma keeps_gets_bind: "(\<And>s. K s \<Longrightarrow> keeps K (g (f s))) \<Longrightarrow> keeps K (State_Monad.bind (gets f) g)"
  by (simp add: keeps_def triple_def State_Monad.bind_def)

lemma triple_gets_bind:
  "(\<And>s0. P s0 \<Longrightarrow> triple (\<lambda>s. P s \<and> f s = f s0) (g (f s0)) Q) \<Longrightarrow> triple P (State_Monad.bind (gets f) g) Q"
  by (simp add: triple_def State_Monad.bind_def)

lemma keeps_and_then [hoare]: "keeps K a \<Longrightarrow> keeps K b \<Longrightarrow> keeps K (and_then a b)"
  unfolding and_then_def by (intro hoare)

context wal_inv
begin

lemma on_disk_keeps:
  assumes "disk_free F" "\<And>s. F s \<Longrightarrow> keeps (J (st_pending s) (st_completed s)) m"
  shows "keeps (\<lambda>s. F s \<and> held J s) (on_disk m)"
  unfolding keeps_def triple_def
proof (intro allI impI)
  fix s
  assume s: "F s \<and> held J s"
  obtain r d where m: "run_state m (st_disk s) = (r, d)" by fastforce
  from s assms(2) have "keeps (J (st_pending s) (st_completed s)) m" by blast
  from keeps_elim [OF this _ m] s have "J (st_pending s) (st_completed s) d" by (simp add: held_def)
  with s assms(1) show "F (snd (run_state (on_disk m) s)) \<and> held J (snd (run_state (on_disk m) s))"
    by (simp add: on_disk_def m held_def disk_free_def)
qed

lemma free_keeps:
  "index F \<Longrightarrow> (\<And>P C. keeps (J P C) m) \<Longrightarrow> keeps (\<lambda>s. F s \<and> held J s) (on_disk m)"
  by (rule on_disk_keeps) (auto simp: index_def)

lemma name_keeps:
  "index F \<Longrightarrow> (\<And>s. F s \<Longrightarrow> \<not> entry_names (st_pending s) n) \<Longrightarrow>
   (\<And>P C. \<not> entry_names P n \<Longrightarrow> keeps (J P C) m) \<Longrightarrow> keeps (\<lambda>s. F s \<and> held J s) (on_disk m)"
  by (rule on_disk_keeps) (auto simp: index_def)

lemma stage_keeps:
  "index F \<Longrightarrow> inStageNamespace n \<Longrightarrow> (\<And>P C. \<not> entry_names P n \<Longrightarrow> keeps (J P C) m) \<Longrightarrow>
   keeps (\<lambda>s. F s \<and> held J s) (on_disk m)"
  by (rule name_keeps) (auto simp: index_def wf_def dest: wf_stage_not_entry)

lemma keeps_check [hoare]: "index F \<Longrightarrow> keeps (\<lambda>s. F s \<and> held J s) (on_disk disk_check)"
  by (rule free_keeps) (auto intro: disk_inv.keeps_check [OF J_disk])

lemma keeps_close [hoare]: "index F \<Longrightarrow> keeps (\<lambda>s. F s \<and> held J s) (on_disk disk_close)"
  by (rule free_keeps) (auto intro: disk_inv.keeps_close [OF J_disk])

lemma keeps_disk_syncDir [hoare]: "index F \<Longrightarrow> keeps (\<lambda>s. F s \<and> held J s) (on_disk disk_syncDir)"
  by (rule free_keeps) (auto intro: disk_inv.keeps_syncDir [OF J_disk])

lemma keeps_exists [hoare]: "index F \<Longrightarrow> keeps (\<lambda>s. F s \<and> held J s) (on_disk (disk_exists n))"
  by (rule free_keeps) (auto intro: disk_inv.keeps_exists [OF J_disk])

lemma keeps_read [hoare]: "index F \<Longrightarrow> keeps (\<lambda>s. F s \<and> held J s) (on_disk (disk_read n))"
  by (rule free_keeps) (auto intro: disk_inv.keeps_read [OF J_disk])

lemma keeps_readDir [hoare]: "index F \<Longrightarrow> keeps (\<lambda>s. F s \<and> held J s) (on_disk disk_readDir)"
  by (rule free_keeps) (auto intro: disk_inv.keeps_readDir [OF J_disk])

lemma keeps_randomRead [hoare]: "index F \<Longrightarrow> keeps (\<lambda>s. F s \<and> held J s) (on_disk disk_randomRead)"
  by (rule free_keeps) (auto intro: disk_inv.keeps_randomRead [OF J_disk])

lemma keeps_remove_stage [hoare]:
  "index F \<Longrightarrow> inStageNamespace n \<Longrightarrow> keeps (\<lambda>s. F s \<and> held J s) (on_disk (disk_remove n))"
  by (rule stage_keeps) (auto intro: disk_inv.keeps_remove [OF J_disk])

lemma keeps_remove_name:
  "index F \<Longrightarrow> (\<And>s. F s \<Longrightarrow> \<not> entry_names (st_pending s) n) \<Longrightarrow>
   keeps (\<lambda>s. F s \<and> held J s) (on_disk (disk_remove n))"
  by (rule name_keeps) (auto intro: disk_inv.keeps_remove [OF J_disk])

lemma keeps_publish:
  "index F \<Longrightarrow> (\<And>s. F s \<Longrightarrow> \<not> entry_names (st_pending s) dst) \<Longrightarrow>
   keeps (\<lambda>s. F s \<and> held J s) (on_disk (disk_publish src dst))"
  by (rule name_keeps) (auto intro: disk_inv.keeps_publish [OF J_disk])

lemma keeps_create [hoare]:
  "index F \<Longrightarrow> inStageNamespace n \<Longrightarrow> keeps (\<lambda>s. F s \<and> held J s) (on_disk (disk_create n))"
  by (rule stage_keeps) (auto intro: disk_inv.keeps_create [OF J_disk])

lemma keeps_write [hoare]:
  "index F \<Longrightarrow> inStageNamespace n \<Longrightarrow> keeps (\<lambda>s. F s \<and> held J s) (on_disk (disk_write n bytes))"
  by (rule stage_keeps) (auto intro: disk_inv.keeps_write [OF J_disk])

lemma keeps_syncFile [hoare]:
  "index F \<Longrightarrow> inStageNamespace n \<Longrightarrow> keeps (\<lambda>s. F s \<and> held J s) (on_disk (disk_syncFile n))"
  by (rule stage_keeps) (auto intro: disk_inv.keeps_syncFile [OF J_disk])

lemma keeps_require [hoare]: "index F \<Longrightarrow> keeps (\<lambda>s. F s \<and> held J s) (require e)"
  unfolding require_def by (intro hoare)

lemma keeps_ctx_Err [hoare]: "index F \<Longrightarrow> keeps (\<lambda>s. F s \<and> held J s) (ctx_Err c)"
  unfolding ctx_Err_def by (intro hoare)

lemma keeps_revalidate [hoare]: "index F \<Longrightarrow> keeps (\<lambda>s. F s \<and> held J s) wal_revalidateDirectory"
  unfolding wal_revalidateDirectory_def by (intro hoare)

lemma keeps_syncDir [hoare]: "index F \<Longrightarrow> keeps (\<lambda>s. F s \<and> held J s) (wal_syncDir what)"
  unfolding wal_syncDir_def by (intro hoare)

lemma keeps_syncAndRevalidate [hoare]: "index F \<Longrightarrow> keeps (\<lambda>s. F s \<and> held J s) wal_syncAndRevalidate"
  unfolding wal_syncAndRevalidate_def by (intro hoare)

lemma keeps_requireOwned [hoare]: "index F \<Longrightarrow> keeps (\<lambda>s. F s \<and> held J s) (wal_requireOwnedRegularAt n)"
  unfolding wal_requireOwnedRegularAt_def by (intro hoare)

lemma keeps_readBounded [hoare]: "index F \<Longrightarrow> keeps (\<lambda>s. F s \<and> held J s) (wal_readBounded n)"
  unfolding wal_readBounded_def by (intro hoare keeps_gets)

lemma keeps_readEntry [hoare]: "index F \<Longrightarrow> keeps (\<lambda>s. F s \<and> held J s) (wal_readEntry what lib' i e)"
  unfolding wal_readEntry_def by (intro hoare)

lemma keeps_removeAll [hoare]:
  "index F \<Longrightarrow> \<forall>n \<in> set names. inStageNamespace n \<Longrightarrow> keeps (\<lambda>s. F s \<and> held J s) (wal_removeAll what names)"
  by (induction names) (auto intro!: hoare)

end

section \<open>Atomic creation\<close>

definition stage_result :: "wal_error + string \<Rightarrow> bool" where
  "stage_result r \<longleftrightarrow> (\<forall>n. r = Inr n \<longrightarrow> inStageNamespace n)"

definition orphan_result :: "atomicCreateResult \<times> wal_error option \<Rightarrow> bool" where
  "orphan_result r \<longleftrightarrow> (\<forall>n. snd (fst r) = Some n \<longrightarrow> inStageNamespace n)"

abbreviation stage_prefix :: "string \<Rightarrow> bool" where
  "stage_prefix pre \<equiv> pre = appendStagePrefix \<or> pre = doneStagePrefix"

lemma createStage_result: "stage_prefix pre \<Longrightarrow> returns (wal_createStage pre) stage_result"
proof -
  assume pre: "stage_prefix pre"
  have "returns (wal_createStage_loop k pre) stage_result" for k
    by (induction k)
      (use stage_in_namespace [OF pre] in \<open>auto intro!: result simp: stage_result_def Let_def\<close>)
  then show ?thesis by (simp add: wal_createStage_def)
qed

lemma cleanupFailure_result: "inStageNamespace stage \<Longrightarrow> returns (wal_cleanupFailure c stage e) orphan_result"
  unfolding wal_cleanupFailure_def Let_def by (intro result) (auto simp: orphan_result_def)

lemma publishStage_result: "inStageNamespace stage \<Longrightarrow> returns (wal_publishStage stage dst) orphan_result"
  unfolding wal_publishStage_def
  by (intro result cleanupFailure_result) (auto simp: orphan_result_def)

lemma atomicCreate_result:
  assumes "stage_prefix pre"
  shows "returns (wal_atomicCreate c dst pre bytes) orphan_result"
proof -
  have none: "orphan_result ((False, None), e)" for e by (simp add: orphan_result_def)
  have stage: "inStageNamespace stage" if "stage_result x" "x = Inr stage" for x stage
    using that by (simp add: stage_result_def)
  show ?thesis
    unfolding wal_atomicCreate_def
    by (rule returns_bind_any, rule returns_option,
        rule returns_bind [OF createStage_result [OF assms]], rule returns_sum)
      (blast intro: result none cleanupFailure_result publishStage_result stage)+
qed

context wal_inv
begin

lemma keeps_createStage:
  assumes "index F" "stage_prefix pre"
  shows "keeps (\<lambda>s. F s \<and> held J s) (wal_createStage pre)"
proof -
  have "keeps (\<lambda>s. F s \<and> held J s) (wal_createStage_loop k pre)" for k
    using assms stage_in_namespace [OF assms(2)]
    by (induction k) (auto intro!: hoare simp: Let_def)
  then show ?thesis by (simp add: wal_createStage_def)
qed

lemma keeps_cleanupFailure [hoare]:
  "index F \<Longrightarrow> inStageNamespace stage \<Longrightarrow> keeps (\<lambda>s. F s \<and> held J s) (wal_cleanupFailure c stage e)"
  unfolding wal_cleanupFailure_def Let_def by (intro hoare)

lemma keeps_publishStage:
  "index F \<Longrightarrow> inStageNamespace stage \<Longrightarrow> (\<And>s. F s \<Longrightarrow> \<not> entry_names (st_pending s) dst) \<Longrightarrow>
   keeps (\<lambda>s. F s \<and> held J s) (wal_publishStage stage dst)"
  unfolding wal_publishStage_def by (intro hoare keeps_publish)

lemma keeps_atomicCreate:
  assumes "index F" "stage_prefix pre" "\<And>s. F s \<Longrightarrow> \<not> entry_names (st_pending s) dst"
  shows "keeps (\<lambda>s. F s \<and> held J s) (wal_atomicCreate c dst pre bytes)"
proof -
  have stage: "inStageNamespace stage" if "stage_result x" "x = Inr stage" for x stage
    using that by (simp add: stage_result_def)
  show ?thesis
    unfolding wal_atomicCreate_def
    by (intro keeps_bind keeps_option keeps_revalidate keeps_return
        keeps_bind_returns [OF keeps_createStage createStage_result] keeps_sum assms)
      (intro hoare keeps_publishStage assms stage; assumption?)+
qed

end

section \<open>What a creation leaves on disk\<close>

lemma triple_on_disk: "triple P m Q \<Longrightarrow> triple (\<lambda>s. P (st_disk s)) (on_disk m) (\<lambda>r s. Q r (st_disk s))"
  by (auto simp: triple_def on_disk_def split: prod.splits)

lemma keeps_on_disk: "keeps J m \<Longrightarrow> keeps (\<lambda>s. J (st_disk s)) (on_disk m)"
  unfolding keeps_def by (rule triple_on_disk)

context disk_inv
begin

lemma keeps_wal_require [hoare]: "keeps (\<lambda>s. J (st_disk s)) (require e)"
  unfolding require_def by (intro hoare keeps_on_disk)

lemma keeps_wal_ctx_Err [hoare]: "keeps (\<lambda>s. J (st_disk s)) (ctx_Err c)"
  unfolding ctx_Err_def by (intro hoare)

lemma keeps_wal_revalidate [hoare]: "keeps (\<lambda>s. J (st_disk s)) wal_revalidateDirectory"
  unfolding wal_revalidateDirectory_def by (intro hoare)

end

definition created :: "string \<Rightarrow> dfile \<Rightarrow> atomicCreateResult \<times> wal_error option \<Rightarrow> Store \<Rightarrow> bool" where
  "created dst x r s \<longleftrightarrow>
     (fst (fst r) \<longrightarrow> map_of (d_cur (st_disk s)) dst = Some x) \<and>
     (snd r = None \<longrightarrow> fst (fst r) \<and> snd (fst r) = None \<and> stored dst x (st_disk s))"

lemma errors_Join_Some: "errors_Join (Some e # es) \<noteq> None"
  by (simp add: errors_Join_def List.map_filter_def split: list.splits)

lemma cleanupFailure_not_created: "triple P (wal_cleanupFailure c stage e) (created dst x)"
proof -
  have "returns (wal_cleanupFailure c stage e) (\<lambda>r. \<not> fst (fst r) \<and> snd r \<noteq> None)"
    unfolding wal_cleanupFailure_def Let_def by (intro result) (simp_all add: errors_Join_Some)
  then show ?thesis by (auto simp: triple_def returns_def created_def)
qed

lemma failed_not_created: "triple P (ret ((False, None), Some e)) (created dst x)"
  by (rule triple_return) (simp add: created_def)

lemma syncAndRevalidate_stores:
  "triple (\<lambda>s. map_of (d_cur (st_disk s)) n = Some x) wal_syncAndRevalidate
     (\<lambda>e s. map_of (d_cur (st_disk s)) n = Some x \<and> (e = None \<longrightarrow> stored n x (st_disk s)))"
proof -
  let ?sees = "\<lambda>s. map_of (d_cur (st_disk s)) n = Some x"
  have "triple ?sees (on_disk disk_syncDir) (\<lambda>r s. (r = None \<longrightarrow> stored n x (st_disk s)) \<and> ?sees s)"
    using triple_on_disk [OF disk_syncDir_ok] keeps_on_disk [OF sees.keeps_syncDir]
    by (auto simp: triple_def keeps_def)
  then have "triple ?sees (wal_syncDir what) (\<lambda>e s. (e = None \<longrightarrow> stored n x (st_disk s)) \<and> ?sees s)" for what
    unfolding wal_syncDir_def by (rule triple_bind) (auto intro: triple_return)
  then show ?thesis
    unfolding wal_syncAndRevalidate_def and_then_def
  proof (rule triple_bind)
    fix e
    show "triple (\<lambda>s. (e = None \<longrightarrow> stored n x (st_disk s)) \<and> ?sees s)
       (case e of None \<Rightarrow> wal_revalidateDirectory | Some y \<Rightarrow> ret (Some y))
       (\<lambda>e s. ?sees s \<and> (e = None \<longrightarrow> stored n x (st_disk s)))"
      using stored.keeps_wal_revalidate [of n x] sees.keeps_wal_revalidate [of n "Some x"]
      by (cases e) (auto intro: triple_return simp: triple_def keeps_def)
  qed
qed

lemma publishStage_creates:
  assumes "stage \<noteq> dst"
  shows "triple (\<lambda>s. map_of (d_cur (st_disk s)) stage = Some x) (wal_publishStage stage dst) (created dst x)"
  unfolding wal_publishStage_def
proof (rule triple_bind [OF triple_on_disk [OF disk_publish_ok]])
  fix p :: "os_err option"
  let ?at = "\<lambda>s. p = None \<longrightarrow> map_of (d_cur (st_disk s)) dst = Some x"
  have rm: "triple ?at (on_disk (disk_remove stage)) (\<lambda>_. ?at)"
    using keeps_on_disk [OF sees.keeps_remove [of stage dst], of "Some x"] assms
    by (cases p) (auto simp: triple_def keeps_def)
  have sync: "triple ?at (State_Monad.bind wal_syncAndRevalidate (\<lambda>err. ret ((True, None), err))) (created dst x)"
    if "p = None"
    using syncAndRevalidate_stores [of dst x] that
    by (auto intro!: triple_bind triple_return simp: created_def)
  have "triple ?at (State_Monad.bind (on_disk (disk_remove stage)) (\<lambda>m.
      if m \<noteq> None then ret ((True, Some stage), Some (PlainError ''ingress WAL remove published staging name''))
      else State_Monad.bind wal_syncAndRevalidate (\<lambda>err. ret ((True, None), err)))) (created dst x)"
    if "p = None"
    using that
    by (intro triple_bind [OF rm] triple_if triple_return sync) (auto simp: created_def)
  then show "triple ?at
     (if p = Some ErrExist then wal_cleanupFailure True stage
        (OwnershipError ''destination already exists outside the active index'')
      else if p \<noteq> None then wal_cleanupFailure True stage
        (PlainError ''ingress WAL publish staging file without replacement'')
      else State_Monad.bind (on_disk (disk_remove stage)) (\<lambda>m.
        if m \<noteq> None then ret ((True, Some stage), Some (PlainError ''ingress WAL remove published staging name''))
        else State_Monad.bind wal_syncAndRevalidate (\<lambda>err. ret ((True, None), err)))) (created dst x)"
    by (simp add: cleanupFailure_not_created)
qed

lemma atomicCreate_creates:
  assumes "stage_prefix pre" "\<not> inStageNamespace dst"
  shows "triple (\<lambda>_. True) (wal_atomicCreate c dst pre bytes)
    (created dst \<lparr>f_data = bytes, f_synced = True\<rparr>)"
proof -
  let ?x = "\<lparr>f_data = bytes, f_synced = True\<rparr>"
  let ?sees = "\<lambda>stage v s. map_of (d_cur (st_disk s)) stage = Some v"
  have close: "triple (?sees n v) (on_disk disk_close) (\<lambda>_. ?sees n v)" for n v
    using keeps_on_disk [OF sees.keeps_close] by (simp add: keeps_def)
  have check: "triple (?sees n v) (and_then (ctx_Err c) wal_revalidateDirectory) (\<lambda>_. ?sees n v)" for n v
    using keeps_and_then [OF sees.keeps_wal_ctx_Err sees.keeps_wal_revalidate] by (simp add: keeps_def)
  note fails = cleanupFailure_not_created failed_not_created
  show ?thesis
    unfolding wal_atomicCreate_def
  proof (intro triple_bind_returns [OF triple_any createStage_result [OF assms(1)]]
      triple_bind [OF triple_any [where m = wal_revalidateDirectory]] triple_option triple_sum fails)
    fix r stage
    assume "stage_result r" "r = Inr stage"
    with assms(2) have ne: "stage \<noteq> dst" by (auto simp: stage_result_def)
    note wrote = triple_on_disk [OF disk_write_ok, of stage bytes]
      and sync = triple_on_disk [OF disk_syncFile_ok, of stage "\<lparr>f_data = bytes, f_synced = False\<rparr>", simplified]
    show "triple (\<lambda>_. True) (State_Monad.bind (on_disk (disk_write stage bytes)) (\<lambda>w.
        if snd w \<noteq> None then wal_cleanupFailure False stage (PlainError ''ingress WAL write staging file'')
        else if fst w \<noteq> length bytes
        then wal_cleanupFailure False stage (PlainError ''ingress WAL write staging file: short write'')
        else State_Monad.bind (on_disk (disk_syncFile stage)) (\<lambda>serr.
        if serr \<noteq> None then wal_cleanupFailure False stage (PlainError ''ingress WAL sync staging file'')
        else State_Monad.bind (on_disk disk_close) (\<lambda>cerr.
        if cerr \<noteq> None then wal_cleanupFailure True stage (PlainError ''ingress WAL close staging file'')
        else State_Monad.bind (and_then (ctx_Err c) wal_revalidateDirectory) (\<lambda>err.
        case err of None \<Rightarrow> wal_publishStage stage dst | Some e \<Rightarrow> wal_cleanupFailure True stage e)))))
       (created dst ?x)"
      by (intro triple_bind [OF wrote] triple_if fails
          triple_bind [OF triple_pre [OF sync]] triple_bind [OF triple_pre [OF close [of stage ?x]]]
          triple_bind [OF check] triple_option publishStage_creates ne) auto
  qed
qed

section \<open>Cleaning up\<close>

lemma keeps_modify: "(\<And>s. K s \<Longrightarrow> K (f s)) \<Longrightarrow> keeps K (modify f)"
  by (rule keeps_State) simp

lemma triple_modify: "(\<And>s. P s \<Longrightarrow> Q () (f s)) \<Longrightarrow> triple P (modify f) Q"
  by (rule triple_State) simp

lemma drop_orphan_fields [simp]:
  "st_pending (drop_orphan n s) = st_pending s" "st_completed (drop_orphan n s) = st_completed s"
  "st_disk (drop_orphan n s) = st_disk s" "st_nextEntry (drop_orphan n s) = st_nextEntry s"
  "st_nextMarker (drop_orphan n s) = st_nextMarker s"
  "st_orphanStages (drop_orphan n s) = AList.delete n (st_orphanStages s)"
  by (simp_all add: drop_orphan_def)

lemma drop_orphan_keeps: "wf s \<and> held J s \<Longrightarrow> wf (drop_orphan n s) \<and> held J (drop_orphan n s)"
  unfolding wf_def held_def drop_orphan_fields gomap_keys_delete by auto

lemma drop_orphans_keep:
  "wf s \<and> held J s \<Longrightarrow> wf (fold drop_orphan ns s) \<and> held J (fold drop_orphan ns s)"
proof (induction ns arbitrary: s)
  case (Cons n ns)
  from Cons.IH [OF drop_orphan_keeps [OF Cons.prems]] show ?case by simp
qed simp

text \<open>Dropping the entry of a recorded marker; afterwards no entry of that generation is left.\<close>

definition marked :: "string \<Rightarrow> completionMarker \<Rightarrow> Store \<Rightarrow> bool" where
  "marked i marker s \<longleftrightarrow> wf s \<and> map_of (st_completed s) i = Some marker"

definition entry_gone :: "string \<Rightarrow> completionMarker \<Rightarrow> Store \<Rightarrow> bool" where
  "entry_gone i marker s \<longleftrightarrow> marked i marker s \<and>
     (\<forall>e. map_of (st_pending s) i = Some e \<longrightarrow> \<not> retiring (st_completed s) i e)"

lemma index_marked: "index (marked i marker)" "index (entry_gone i marker)"
  by (auto simp: index_def marked_def entry_gone_def disk_free_def wf_def)

context wal_inv
begin

lemma keeps_cleanupOrphans [hoare]: "keeps (\<lambda>s. wf s \<and> held J s) wal_cleanupOrphansLocked"
  unfolding wal_cleanupOrphansLocked_def
proof (rule keeps_gets_bind, goal_cases)
  case (1 s)
  then have names: "\<forall>n \<in> set (sort_Strings (map fst (st_orphanStages s))). inStageNamespace n"
    by (auto simp: wf_def)
  have clamp: "keeps (\<lambda>s. wf s \<and> held J s) (modify (\<lambda>s. s\<lparr>st_orphanBytes := max 0 (st_orphanBytes s)\<rparr>))"
    by (rule keeps_modify) (simp add: wf_def held_def)
  show ?case
    unfolding wal_cleanupOrphanNames_def
    by (intro hoare index_wf names clamp keeps_modify drop_orphans_keep)
qed

lemma removeEntry_spec:
  assumes seq: "pe_sequence e = cm_entrySequence marker"
  shows "triple (\<lambda>s. (marked i marker s \<and> map_of (st_pending s) i = Some e) \<and> held J s) (wal_removeEntry i e)
    (\<lambda>r s. marked i marker s \<and> held J s \<and> (isl r \<or> entry_gone i marker s))"
proof -
  define F where "F s \<longleftrightarrow> marked i marker s \<and> map_of (st_pending s) i = Some e" for s
  have F: "index F"
    unfolding F_def by (rule index_conj [OF index_marked(1)]) (simp add: disk_free_def)
  have ret: "retiring (st_completed s) i e" if "F s" for s
    using that seq by (auto simp: F_def marked_def retiring_def)
  have rm: "keeps (\<lambda>s. F s \<and> held J s) (on_disk (disk_remove (pe_name e)))"
  proof (rule on_disk_keeps)
    show "keeps (J (st_pending s) (st_completed s)) (disk_remove (pe_name e))" if "F s" for s
      unfolding disk_remove_def using that ret [OF that]
      by (intro hoare disk_inv.keeps_exists [OF J_disk] disk_inv.keeps_effect [OF J_disk])
        (auto simp: F_def marked_def wf_def intro: J_drop_file)
  qed (use F in \<open>simp add: index_def\<close>)
  have fin: "triple (\<lambda>s. F s \<and> held J s) (modify (\<lambda>s. s\<lparr>st_pending := AList.delete i (st_pending s)\<rparr>))
      (\<lambda>_ s. entry_gone i marker s \<and> held J s)"
    using ret
    by (intro triple_modify)
      (auto simp: F_def marked_def entry_gone_def wf_def held_def pending_wf_delete delete_conv'
        intro: J_forget_entry)
  have rel: "triple (\<lambda>s. entry_gone i marker s \<and> held J s) (wal_release z)
      (\<lambda>_ s. entry_gone i marker s \<and> held J s)" for z
    unfolding wal_release_def
    by (rule triple_modify) (auto simp: entry_gone_def marked_def wf_def held_def)
  note keep = rm [unfolded keeps_def] keeps_syncDir [OF F, unfolded keeps_def]
  show ?thesis
    unfolding wal_removeEntry_def F_def [symmetric]
    by (intro triple_bind [OF keep(1)] triple_if triple_bind [OF keep(2)] triple_option
        triple_bind [OF fin] triple_bind [OF rel] triple_return) (auto simp: F_def entry_gone_def)
qed

lemma dropEntry_spec:
  "triple (\<lambda>s. marked i marker s \<and> held J s) (wal_dropEntry i marker)
     (\<lambda>r s. marked i marker s \<and> held J s \<and> (isl r \<or> entry_gone i marker s))"
  unfolding wal_dropEntry_def
proof (rule triple_gets_bind, goal_cases)
  case (1 s0)
  show ?case
  proof (cases "map_of (st_pending s0) i")
    case None
    then show ?thesis by (auto intro!: triple_return simp: entry_gone_def)
  next
    case (Some e)
    show ?thesis
    proof (cases "pe_sequence e = cm_entrySequence marker")
      case True
      with Some show ?thesis by (auto intro: triple_pre [OF removeEntry_spec])
    next
      case False
      with Some show ?thesis by (auto intro!: triple_return simp: entry_gone_def marked_def retiring_def)
    qed
  qed
qed

lemma removeMarker_spec:
  "triple (\<lambda>s. entry_gone i marker s \<and> held J s) (wal_removeMarker i marker notify) (\<lambda>_ s. wf s \<and> held J s)"
proof -
  note F = index_marked(2) [of i marker]
  have name: "\<not> entry_names (st_pending s) (cm_name marker)" if "entry_gone i marker s" for s
    using that by (auto simp: entry_gone_def marked_def wf_def completed_wf_def dest: wf_marker_not_entry)
  note keep = keeps_remove_name [OF F name, unfolded keeps_def] keeps_syncDir [OF F, unfolded keeps_def]
    keeps_revalidate [OF index_wf, unfolded keeps_def]
  have forget: "triple (\<lambda>s. entry_gone i marker s \<and> held J s)
      (modify (\<lambda>s. s\<lparr>st_completed := AList.delete i (st_completed s)\<rparr>)) (\<lambda>_ s. wf s \<and> held J s)"
    by (intro triple_modify)
      (auto simp: entry_gone_def marked_def wf_def held_def completed_wf_delete intro: J_forget_marker)
  show ?thesis
    unfolding wal_removeMarker_def
    by (intro triple_bind [OF keep(1)] triple_if triple_bind [OF keep(2)] triple_option
        triple_bind [OF forget] triple_bind [OF keep(3)] triple_return)
      (auto simp: entry_gone_def marked_def)
qed

lemma retire_spec:
  "triple (\<lambda>s. marked i marker s \<and> held J s) (wal_retire i marker) (\<lambda>_ s. wf s \<and> held J s)"
  unfolding wal_retire_def
  by (intro triple_bind [OF dropEntry_spec] triple_sum triple_pre [OF removeMarker_spec] triple_return)
    (auto simp: marked_def)

lemma keeps_cleanupCompletion [hoare]: "keeps (\<lambda>s. wf s \<and> held J s) (wal_cleanupCompletionLocked i expected)"
  unfolding wal_cleanupCompletionLocked_def keeps_def
proof (rule triple_gets_bind, goal_cases)
  case (1 s0)
  show ?case
    by (intro triple_option triple_if triple_return triple_pre [OF retire_spec]) (auto simp: marked_def)
qed

end

section \<open>Appending and committing\<close>

definition settled :: "disk \<Rightarrow> bool" where
  "settled d \<longleftrightarrow> (\<forall>n. d_maybe d n = {map_of (d_cur d) n})"

interpretation settled: disk_inv settled "\<lambda>_. False"
  by unfold_locales (auto simp: settled_def disk_barrier_def Let_def)

lemma syncAndRevalidate_settles:
  "triple (\<lambda>_. True) wal_syncAndRevalidate (\<lambda>e s. e = None \<longrightarrow> settled (st_disk s))"
proof -
  have sync: "triple (\<lambda>_. True) (wal_syncDir what) (\<lambda>e s. e = None \<longrightarrow> settled (st_disk s))" for what
    unfolding wal_syncDir_def
    by (intro triple_bind [OF triple_on_disk [OF disk_syncDir_all]] triple_return) (simp add: settled_def)
  show ?thesis
    unfolding wal_syncAndRevalidate_def and_then_def
    by (intro triple_bind [OF sync] triple_option triple_return)
      (use settled.keeps_wal_revalidate in \<open>auto simp: triple_def keeps_def\<close>)
qed

text \<open>The hypothesis on an appended envelope under which its record decodes again.\<close>

definition append_ok :: "wal_lib \<Rightarrow> Envelope \<Rightarrow> bool" where
  "append_ok lib e \<longleftrightarrow> wal_lib_ok lib \<and> env_utf8 e \<and> rfc3339_range (env_Accepted e)"

lemma decode_appended:
  assumes "append_ok lib env" "encodeRecord lib env (Suc k) = Inr bytes" "k < MaxUint64"
  shows "decodeRecord lib bytes = Inr \<lparr>sr_Sequence = Suc k, sr_Envelope = env\<rparr>"
  using assms by (intro decodeRecord_encodeRecord) (auto simp: append_ok_def MaxUint64_def)

lemma created_in_place:
  assumes "created (entryName q i) \<lparr>f_data = bytes, f_synced = True\<rparr> ((True, o'), err) s"
    and "decodeRecord lib bytes = Inr \<lparr>sr_Sequence = q, sr_Envelope = env\<rparr>" "env_ID env = i"
  shows "file_in_place lib i \<lparr>pe_name = entryName q i, pe_size = int (length bytes), pe_sequence = q,
    pe_durable = (err = None)\<rparr> (st_disk s)"
  using assms by (auto simp: file_in_place_def created_def stored_def)

context wal_inv
begin

lemma syncAndRevalidate_spec:
  "index F \<Longrightarrow> triple (\<lambda>s. F s \<and> held J s) wal_syncAndRevalidate
     (\<lambda>e s. (F s \<and> held J s) \<and> (e = None \<longrightarrow> settled (st_disk s)))"
  using triple_conj [OF keeps_syncAndRevalidate [unfolded keeps_def] syncAndRevalidate_settles]
  by (rule triple_post [OF triple_pre]) auto

lemma mark_durable:
  assumes "wf s \<and> held J s" "map_of (st_pending s) i = Some e" "settled (st_disk s)"
  shows "wf (s\<lparr>st_pending := AList.update i (e\<lparr>pe_durable := True\<rparr>) (st_pending s)\<rparr>) \<and>
    held J (s\<lparr>st_pending := AList.update i (e\<lparr>pe_durable := True\<rparr>) (st_pending s)\<rparr>)"
  using assms
  by (auto simp: wf_def held_def settled_def pending_wf_durable intro: J_durable)

lemma makeDurable_spec:
  "triple (\<lambda>s. ((wf s \<and> map_of (st_pending s) i = Some e) \<and> map_of (st_completed s) i = c) \<and> held J s)
     (wal_makeDurable i e) (\<lambda>_ s. (wf s \<and> map_of (st_completed s) i = c) \<and> held J s)"
  (is "triple (\<lambda>s. ?F s \<and> _) _ _")
proof -
  have F: "index ?F"
    by (auto simp: index_def disk_free_def wf_def)
  have fin: "triple (\<lambda>s. (?F s \<and> held J s) \<and> (None = None \<longrightarrow> settled (st_disk s)))
      (modify (\<lambda>s. s\<lparr>st_pending := AList.update i (e\<lparr>pe_durable := True\<rparr>) (st_pending s)\<rparr>))
      (\<lambda>_ s. (wf s \<and> map_of (st_completed s) i = c) \<and> held J s)"
    by (intro triple_modify) (use mark_durable in auto)
  show ?thesis
    unfolding wal_makeDurable_def and_then_def
    by (intro triple_if triple_return triple_bind [OF syncAndRevalidate_spec [OF F]] triple_option
        triple_bind [OF triple_pre [OF fin]]) auto
qed

lemma keeps_appendExisting:
  "triple (\<lambda>s. (wf s \<and> map_of (st_pending s) (env_ID env) = Some e) \<and> held J s)
     (wal_appendExisting lib' env e) (\<lambda>_ s. wf s \<and> held J s)"
  (is "triple (\<lambda>s. ?F s \<and> _) _ _")
proof -
  have F: "index ?F" by (auto simp: index_def disk_free_def wf_def)
  have fin: "triple (\<lambda>s. (?F s \<and> held J s) \<and> settled (st_disk s))
      (modify (\<lambda>s. s\<lparr>st_pending := AList.update (env_ID env) (e\<lparr>pe_durable := True\<rparr>) (st_pending s)\<rparr>))
      (\<lambda>_ s. wf s \<and> held J s)"
    by (intro triple_modify) (use mark_durable in auto)
  show ?thesis
    unfolding wal_appendExisting_def wal_confirmExisting_def and_then_def
    by (intro triple_bind [OF keeps_readBounded [OF F, unfolded keeps_def]] triple_sum triple_if triple_return
        triple_bind [OF syncAndRevalidate_spec [OF F]] triple_option triple_bind [OF triple_pre [OF fin]]) auto
qed

end

definition fresh_id :: "string \<Rightarrow> nat \<Rightarrow> Store \<Rightarrow> bool" where
  "fresh_id i k s \<longleftrightarrow> (wf s \<and> map_of (st_pending s) i = None) \<and> st_nextEntry s = k"

definition fresh_marker :: "string \<Rightarrow> nat \<Rightarrow> Store \<Rightarrow> bool" where
  "fresh_marker i k s \<longleftrightarrow> (wf s \<and> map_of (st_completed s) i = None) \<and> st_nextMarker s = k"

lemma index_fresh: "index (fresh_id i k)" "index (fresh_marker i k)"
  by (auto simp: fresh_id_def fresh_marker_def index_def disk_free_def wf_def)

lemma wf_orphans:
  "wf s \<Longrightarrow> (\<And>n. o' = Some n \<Longrightarrow> inStageNamespace n) \<Longrightarrow>
   wf (s\<lparr>st_orphanStages := (case o' of None \<Rightarrow> st_orphanStages s | Some n \<Rightarrow> AList.update n k (st_orphanStages s))\<rparr>)"
  unfolding wf_def by (cases o') auto

context wal_inv
begin

lemma atomicCreate_spec:
  assumes "index F" "stage_prefix pre" "\<not> inStageNamespace dst" "\<And>s. F s \<Longrightarrow> \<not> entry_names (st_pending s) dst"
  shows "triple (\<lambda>s. F s \<and> held J s) (wal_atomicCreate c dst pre bytes)
    (\<lambda>r s. ((F s \<and> held J s) \<and> created dst \<lparr>f_data = bytes, f_synced = True\<rparr> r s) \<and> orphan_result r)"
  using triple_returns [OF triple_conj [OF keeps_atomicCreate [OF assms(1,2,4), unfolded keeps_def]
    atomicCreate_creates [OF assms(2,3)]] atomicCreate_result [OF assms(2)]]
  by (rule triple_pre) auto

lemma keeps_reserve:
  "(\<And>s b. F (s\<lparr>st_bytes := b\<rparr>) = F s) \<Longrightarrow> keeps (\<lambda>s. F s \<and> held J s) (wal_reserve k)"
  unfolding wal_reserve_def by (rule keeps_State) (simp add: held_def)

lemma triple_release: "triple (\<lambda>s. wf s \<and> held J s) (wal_release k) (\<lambda>_ s. wf s \<and> held J s)"
  unfolding wal_release_def by (rule triple_modify) (simp add: wf_def held_def)

lemma enter_new:
  assumes "fresh_id i k s" "held J s" "validID i" "k < MaxUint64" "file_in_place lib i e (st_disk s)"
    and "pe_sequence e = Suc k" "pe_name e = entryName (Suc k) i" "\<And>n. o' = Some n \<Longrightarrow> inStageNamespace n"
    and t: "t = s\<lparr>st_orphanStages := (case o' of None \<Rightarrow> st_orphanStages s
        | Some n \<Rightarrow> AList.update n 0 (st_orphanStages s)),
      st_pending := AList.update i e (st_pending s), st_nextEntry := Suc k\<rparr>"
  shows "wf t \<and> held J t"
proof
  from assms(1) wf_orphans [of s o' 0, OF _ assms(8)]
  have "wf (s\<lparr>st_orphanStages := (case o' of None \<Rightarrow> st_orphanStages s
        | Some n \<Rightarrow> AList.update n 0 (st_orphanStages s))\<rparr>)" by (simp add: fresh_id_def)
  with assms(1,3,4,6,7) pending_wf_new [of k "st_pending s" i e] show "wf t"
    unfolding t by (auto simp: fresh_id_def wf_def)
  from assms(1,2,5) J_enter show "held J t" unfolding t by (simp add: fresh_id_def held_def)
qed

lemma finishAppend_spec:
  assumes "validID i" "k < MaxUint64" "decodeRecord lib bytes = Inr \<lparr>sr_Sequence = Suc k, sr_Envelope = env\<rparr>"
    "env_ID env = i" "orphan_result r"
    and e: "e = \<lparr>pe_name = entryName (Suc k) i, pe_size = int (length bytes), pe_sequence = Suc k, pe_durable = False\<rparr>"
  shows "triple (\<lambda>s. (fresh_id i k s \<and> held J s) \<and> created (entryName (Suc k) i) \<lparr>f_data = bytes, f_synced = True\<rparr> r s)
    (wal_finishAppend i e r) (\<lambda>_ s. wf s \<and> held J s)"
proof -
  obtain landed o' err where r: "r = ((landed, o'), err)" by (metis prod.collapse)
  have orphan: "inStageNamespace n" if "o' = Some n" for n
    using assms(5) that by (simp add: r orphan_result_def)
  have release: "triple (\<lambda>s. (fresh_id i k s \<and> held J s) \<and> c s) (wal_release z) (\<lambda>_ s. wf s \<and> held J s)" for c z
    by (rule triple_pre [OF triple_release]) (simp add: fresh_id_def)
  have add: "triple (\<lambda>s. wf s \<and> held J s)
      (modify (\<lambda>s. s\<lparr>st_orphanBytes := f s, st_orphanStages := AList.update n z (st_orphanStages s)\<rparr>))
      (\<lambda>_ s. wf s \<and> held J s)" if "inStageNamespace n" for n z f
    using that by (intro triple_modify) (auto simp: wf_def held_def)
  have land: "triple (\<lambda>s. (fresh_id i k s \<and> held J s) \<and>
        created (entryName (Suc k) i) \<lparr>f_data = bytes, f_synced = True\<rparr> ((True, o'), err) s)
      (modify (\<lambda>s. s\<lparr>st_orphanStages := (case o' of None \<Rightarrow> st_orphanStages s
           | Some n \<Rightarrow> AList.update n 0 (st_orphanStages s)),
         st_pending := AList.update i (e\<lparr>pe_durable := (err = None)\<rparr>) (st_pending s),
         st_nextEntry := pe_sequence e\<rparr>)) (\<lambda>_ s. wf s \<and> held J s)"
  proof (rule triple_modify)
    fix s
    assume s: "(fresh_id i k s \<and> held J s) \<and>
      created (entryName (Suc k) i) \<lparr>f_data = bytes, f_synced = True\<rparr> ((True, o'), err) s"
    then have "file_in_place lib i (e\<lparr>pe_durable := (err = None)\<rparr>) (st_disk s)"
      using created_in_place [OF _ assms(3,4)] by (auto simp: e)
    with s show "wf (s\<lparr>st_orphanStages := (case o' of None \<Rightarrow> st_orphanStages s
           | Some n \<Rightarrow> AList.update n 0 (st_orphanStages s)),
         st_pending := AList.update i (e\<lparr>pe_durable := (err = None)\<rparr>) (st_pending s),
         st_nextEntry := pe_sequence e\<rparr>) \<and>
       held J (s\<lparr>st_orphanStages := (case o' of None \<Rightarrow> st_orphanStages s
           | Some n \<Rightarrow> AList.update n 0 (st_orphanStages s)),
         st_pending := AList.update i (e\<lparr>pe_durable := (err = None)\<rparr>) (st_pending s),
         st_nextEntry := pe_sequence e\<rparr>)"
      by (intro enter_new [OF _ _ assms(1,2)]) (auto simp: e orphan)
  qed
  have fin: "triple (\<lambda>s. wf s \<and> held J s) (ret err) (\<lambda>_ s. wf s \<and> held J s)"
    by (rule triple_return) simp
  show ?thesis
  proof (cases landed)
    case True
    with triple_bind [OF land fin] show ?thesis by (simp add: wal_finishAppend_def r)
  next
    case False
    show ?thesis
    proof (cases o')
      case None
      with False triple_bind [OF release fin] show ?thesis by (simp add: wal_finishAppend_def r)
    next
      case (Some n)
      with False triple_bind [OF release triple_bind [OF add [OF orphan [OF Some]] fin]] show ?thesis
        by (simp add: wal_finishAppend_def r)
    qed
  qed
qed

lemma appendNew_spec:
  assumes "append_ok lib env" "validID (env_ID env)"
  shows "triple (\<lambda>s. (wf s \<and> map_of (st_pending s) (env_ID env) = None) \<and> held J s)
    (wal_appendNew lib env) (\<lambda>_ s. wf s \<and> held J s)"
  unfolding wal_appendNew_def
proof (rule triple_gets_bind, goal_cases)
  case (1 s0)
  let ?k = "st_nextEntry s0" and ?i = "env_ID env"
  have reserve: "triple (\<lambda>s. fresh_id ?i ?k s \<and> held J s) (wal_reserve z) (\<lambda>_ s. fresh_id ?i ?k s \<and> held J s)" for z
    using keeps_reserve [of "fresh_id ?i ?k"] by (simp add: keeps_def fresh_id_def wf_def)
  have create: "triple (\<lambda>s. fresh_id ?i ?k s \<and> held J s)
      (State_Monad.bind (wal_atomicCreate True (entryName (Suc ?k) ?i) appendStagePrefix bytes)
        (wal_finishAppend ?i \<lparr>pe_name = entryName (Suc ?k) ?i, pe_size = int (length bytes),
           pe_sequence = Suc ?k, pe_durable = False\<rparr>)) (\<lambda>_ s. wf s \<and> held J s)"
    if bytes: "encodeRecord lib env (Suc ?k) = Inr bytes" and k: "?k < MaxUint64" for bytes
  proof (rule triple_bind [OF atomicCreate_spec [OF index_fresh(1)]], goal_cases)
    case (3 s)
    with wf_new_not_entry [of ?k "st_pending s", OF _ k assms(2)] show ?case by (auto simp: fresh_id_def wf_def)
  next
    case (4 r)
    show ?case
    proof (cases "orphan_result r")
      case True
      from finishAppend_spec [OF assms(2) k decode_appended [OF assms(1) bytes k] refl True refl]
      show ?thesis by (rule triple_pre) auto
    qed (simp add: triple_def)
  qed (simp_all add: entry_not_stage)
  from 1 have k: "?k \<noteq> MaxUint64 \<Longrightarrow> ?k < MaxUint64" by (auto simp: wf_def)
  show ?case
    unfolding and_then_def Let_def
    by (intro triple_if triple_sum triple_return triple_bind [OF triple_pre [OF reserve]] triple_option
        triple_pre [OF create] k) (auto simp: fresh_id_def)
qed

end

context wal_inv
begin

lemma remember_spec:
  assumes "fresh_marker i k s" "held J s" "validID i" "may_commit i" "k < MaxUint64"
    and "m = \<lparr>cm_name = markerName (Suc k) i, cm_sequence = Suc k, cm_entrySequence = q\<rparr>"
  shows "wf (wal_remember i m s) \<and> held J (wal_remember i m s)"
  using assms completed_wf_new [of k "st_completed s" i m] J_mark [of "st_pending s" "st_completed s" "st_disk s" i m]
  by (auto simp: fresh_marker_def wf_def held_def wal_remember_def)

lemma finishMarker_spec:
  assumes "validID i" "may_commit i" "k < MaxUint64" "orphan_result r"
    and m: "m = \<lparr>cm_name = markerName (Suc k) i, cm_sequence = Suc k, cm_entrySequence = q\<rparr>"
  shows "triple (\<lambda>s. fresh_marker i k s \<and> held J s) (wal_finishMarker i m r) (\<lambda>_ s. wf s \<and> held J s)"
proof -
  note F = index_fresh(2) [of i k]
  have orphan: "triple (\<lambda>s. fresh_marker i k s \<and> held J s)
      (modify (\<lambda>s. s\<lparr>st_orphanStages := (case snd (fst r) of None \<Rightarrow> st_orphanStages s
         | Some n \<Rightarrow> AList.update n 0 (st_orphanStages s))\<rparr>)) (\<lambda>_ s. fresh_marker i k s \<and> held J s)"
    using assms(4) wf_orphans [of _ "snd (fst r)" 0]
    by (intro triple_modify) (auto simp: fresh_marker_def held_def orphan_result_def)
  have name: "\<not> entry_names (st_pending s) (cm_name m)" if "fresh_marker i k s" for s
    using that by (auto simp: m fresh_marker_def wf_def dest: wf_marker_not_entry)
  have remember: "triple (\<lambda>s. fresh_marker i k s \<and> held J s) (modify (wal_remember i m)) (\<lambda>_ s. wf s \<and> held J s)"
    using remember_spec [OF _ _ assms(1-3) m] by (intro triple_modify) auto
  note keep = keeps_remove_name [OF F name, unfolded keeps_def] keeps_disk_syncDir [OF F, unfolded keeps_def]
    keeps_cleanupCompletion [unfolded keeps_def]
  show ?thesis
    unfolding wal_finishMarker_def
    by (intro triple_bind [OF orphan] triple_option triple_if triple_bind [OF keep(1)] triple_bind [OF keep(2)]
        triple_bind [OF remember] triple_bind [OF keep(3)] triple_prod triple_return)
      (auto simp: fresh_marker_def)
qed

lemma writeMarker_spec:
  assumes "validID i" "may_commit i"
  shows "triple (\<lambda>s. (wf s \<and> map_of (st_completed s) i = None) \<and> held J s) (wal_writeMarker i q)
    (\<lambda>_ s. wf s \<and> held J s)"
  unfolding wal_writeMarker_def
proof (rule triple_gets_bind, goal_cases)
  case (1 s0)
  let ?k = "st_nextMarker s0"
  have create: "triple (\<lambda>s. fresh_marker i ?k s \<and> held J s)
      (State_Monad.bind (wal_atomicCreate False (markerName (Suc ?k) i) doneStagePrefix bytes)
        (wal_finishMarker i \<lparr>cm_name = markerName (Suc ?k) i, cm_sequence = Suc ?k, cm_entrySequence = q\<rparr>))
      (\<lambda>_ s. wf s \<and> held J s)" if k: "?k < MaxUint64" for bytes
  proof (rule triple_bind [OF atomicCreate_spec [OF index_fresh(2)]], goal_cases)
    case (3 s)
    then show ?case by (auto simp: fresh_marker_def wf_def dest: wf_marker_not_entry)
  next
    case (4 r)
    show ?case
    proof (cases "orphan_result r")
      case True
      from finishMarker_spec [OF assms k True refl] show ?thesis by (rule triple_pre) auto
    qed (simp add: triple_def)
  qed (simp_all add: marker_not_stage)
  from 1 have k: "?k \<noteq> MaxUint64 \<Longrightarrow> ?k < MaxUint64" by (auto simp: wf_def)
  show ?case
    unfolding Let_def
    by (intro triple_if triple_sum triple_return triple_pre [OF create] k) (auto simp: fresh_marker_def)
qed

lemma commitPending_spec:
  assumes "validID i" "may_commit i"
  shows "triple (\<lambda>s. (wf s \<and> map_of (st_completed s) i = None) \<and> held J s) (wal_commitPending i q)
    (\<lambda>_ s. wf s \<and> held J s)"
  unfolding wal_commitPending_def
proof (rule triple_gets_bind, goal_cases)
  case (1 s0)
  show ?case
    by (intro triple_option triple_if triple_return triple_bind [OF triple_pre [OF makeDurable_spec [where c = None]]]
        writeMarker_spec [OF assms]) auto
qed

lemma keeps_commitGeneration:
  assumes "may_commit i"
  shows "keeps (\<lambda>s. wf s \<and> held J s) (wal_commitGeneration i q)"
proof -
  let ?K = "\<lambda>s. wf s \<and> held J s"
  have marked: "keeps ?K (State_Monad.bind (wal_cleanupCompletionLocked i None) (\<lambda>(notify, _, err). ret (notify, err)))"
    by (intro hoare)
  have tail: "keeps ?K (State_Monad.bind (gets (\<lambda>s. map_of (st_completed s) i)) (\<lambda>found. case found of
      None \<Rightarrow> wal_commitPending i q
    | Some marker \<Rightarrow> if q \<noteq> 0 \<and> cm_entrySequence marker \<noteq> q then ret (False, None)
        else State_Monad.bind (wal_cleanupCompletionLocked i None) (\<lambda>(notify, _, err). ret (notify, err))))"
    if "validID i"
    unfolding keeps_def
    by (intro triple_gets_bind triple_option triple_if triple_return triple_pre [OF commitPending_spec [OF that assms]]
        triple_pre [OF marked [unfolded keeps_def]]) auto
  show ?thesis
    unfolding wal_commitGeneration_def
    by (intro tail keeps_bind keeps_option keeps_if keeps_return keeps_ctx_Err index_wf keeps_gets
        keeps_cleanupOrphans) simp
qed

lemma keeps_Append:
  assumes "append_ok lib env"
  shows "keeps (\<lambda>s. wf s \<and> held J s) (wal_Append lib env)"
proof -
  let ?K = "\<lambda>s. wf s \<and> held J s" and ?i = "env_ID env"
  have tail: "keeps ?K (State_Monad.bind (gets (\<lambda>s. map_of (st_pending s) ?i)) (\<lambda>existing.
      case existing of None \<Rightarrow> wal_appendNew lib env | Some entry \<Rightarrow> wal_appendExisting lib env entry))"
    if "validateEnvelope env = None"
    unfolding keeps_def
    by (intro triple_gets_bind triple_option triple_pre [OF appendNew_spec [OF assms validateEnvelope_validID [OF that]]]
        triple_pre [OF keeps_appendExisting]) auto
  show ?thesis
    unfolding wal_Append_def wal_appendLocked_def
    by (intro tail keeps_bind keeps_option keeps_if keeps_return keeps_ctx_Err index_wf keeps_gets keeps_and_then
        keeps_cleanupOrphans keeps_cleanupCompletion keeps_prod)
qed

lemma keeps_cleanupSnapshots: "keeps (\<lambda>s. wf s \<and> held J s) (wal_cleanupSnapshots xs)"
proof (induction xs)
  case Nil
  then show ?case by (simp add: keeps_return)
next
  case (Cons x xs)
  have "keeps (\<lambda>s. wf s \<and> held J s) (wal_cleanupCompletedSnapshot x)"
    unfolding wal_cleanupCompletedSnapshot_def by (intro hoare keeps_gets index_wf)
  with Cons show ?case by (auto intro!: hoare)
qed

end

text \<open>A handler that does not accept the entries that must not be committed.\<close>

definition replay_mismatch :: string where
  "replay_mismatch = ''entry filename does not match record''"

definition refuses ::
  "(Store \<Rightarrow> bool) \<Rightarrow> (string \<Rightarrow> bool) \<Rightarrow> wal_lib \<Rightarrow> (Envelope \<Rightarrow> wal_error option) \<Rightarrow> bool" where
  "refuses K may lib handler \<longleftrightarrow> (\<forall>i e. may i \<or>
     triple (\<lambda>s. K s \<and> map_of (st_pending s) i = Some e) (wal_readEntry replay_mismatch lib i e)
       (\<lambda>r _. case r of Inl _ \<Rightarrow> True | Inr (record, _) \<Rightarrow> handler (sr_Envelope record) \<noteq> None))"

context wal_inv
begin

lemma keeps_replayEntries:
  assumes "refuses (\<lambda>s. wf s \<and> held J s) may_commit lib' handler"
  shows "keeps (\<lambda>s. wf s \<and> held J s) (wal_replayEntries lib' handler xs)"
proof (induction xs)
  case Nil
  then show ?case by (simp add: keeps_return)
next
  case (Cons x xs)
  let ?K = "\<lambda>s. wf s \<and> held J s"
  obtain i snap where x: "x = (i, snap)" by (cases x)
  define tail where "tail r =
    (case r of Inl e \<Rightarrow> ret ([], [], Some e)
     | Inr (record, _) \<Rightarrow>
         (case handler (sr_Envelope record) of
            Some e \<Rightarrow> ret ([sr_Envelope record], [], Some e)
          | None \<Rightarrow> do {
              (committed, err) \<leftarrow> wal_commitGeneration i (pe_sequence snap);
              case err of
                Some e \<Rightarrow> ret ([sr_Envelope record], [], Some e)
              | None \<Rightarrow> do {
                  (handled, ids, err') \<leftarrow> wal_replayEntries lib' handler xs;
                  ret (sr_Envelope record # handled, if committed then i # ids else ids, err')
                }
            }))" for r :: "wal_error + storedRecord \<times> string"
  have tail_keeps: "keeps ?K (tail r)"
    if "may_commit i \<or> (case r of Inl _ \<Rightarrow> True | Inr (record, _) \<Rightarrow> handler (sr_Envelope record) \<noteq> None)" for r
    unfolding tail_def using that
    by (intro keeps_sum keeps_prod keeps_option keeps_bind keeps_return Cons keeps_commitGeneration) auto
  have read: "triple (\<lambda>s. ?K s \<and> map_of (st_pending s) i = Some e) (wal_readEntry replay_mismatch lib' i e)
      (\<lambda>r s. ?K s \<and> (may_commit i \<or> (case r of Inl _ \<Rightarrow> True | Inr (record, _) \<Rightarrow> handler (sr_Envelope record) \<noteq> None)))"
    for e
  proof -
    note keep = keeps_readEntry [OF index_wf, of replay_mismatch lib' i e, unfolded keeps_def]
    show ?thesis
    proof (cases "may_commit i")
      case True
      with keep show ?thesis by (auto simp: triple_def)
    next
      case False
      with assms have "triple (\<lambda>s. ?K s \<and> map_of (st_pending s) i = Some e) (wal_readEntry replay_mismatch lib' i e)
         (\<lambda>r _. case r of Inl _ \<Rightarrow> True | Inr (record, _) \<Rightarrow> handler (sr_Envelope record) \<noteq> None)"
        unfolding refuses_def by blast
      from triple_conj [OF keep this] show ?thesis by (rule triple_post [OF triple_pre]) auto
    qed
  qed
  have entry: "triple (\<lambda>s. ?K s \<and> map_of (st_pending s) i = Some e)
      (State_Monad.bind (wal_readEntry replay_mismatch lib' i e) tail) (\<lambda>_. ?K)" for e
  proof (rule triple_bind [OF read])
    fix r
    show "triple (\<lambda>s. ?K s \<and> (may_commit i \<or>
        (case r of Inl _ \<Rightarrow> True | Inr (record, _) \<Rightarrow> handler (sr_Envelope record) \<noteq> None))) (tail r) (\<lambda>_. ?K)"
      using tail_keeps [of r, unfolded keeps_def] by (auto simp: triple_def)
  qed
  have found: "keeps ?K (State_Monad.bind (gets (\<lambda>s. map_of (st_pending s) i)) (\<lambda>found. case found of
      None \<Rightarrow> wal_replayEntries lib' handler xs
    | Some e \<Rightarrow> if \<not> pe_durable e \<or> pe_sequence e \<noteq> pe_sequence snap then wal_replayEntries lib' handler xs
        else State_Monad.bind (wal_readEntry replay_mismatch lib' i e) tail))"
    unfolding keeps_def
    by (intro triple_gets_bind triple_option triple_if triple_pre [OF Cons [unfolded keeps_def]] triple_pre [OF entry]) auto
  show ?case
    unfolding x wal_replayEntries.simps tail_def [symmetric] replay_mismatch_def [symmetric]
    by (intro found keeps_bind keeps_option keeps_return keeps_ctx_Err index_wf)
qed

lemma keeps_Replay:
  assumes "refuses (\<lambda>s. wf s \<and> held J s) may_commit lib' handler"
  shows "keeps (\<lambda>s. wf s \<and> held J s) (wal_Replay lib' handler)"
  unfolding wal_Replay_def
  by (intro hoare keeps_gets keeps_cleanupSnapshots keeps_replayEntries assms)

lemma keeps_Close: "keeps (\<lambda>s. wf s \<and> held J s) wal_Close"
proof -
  have "keeps (\<lambda>s. wf s \<and> held J s) (modify (\<lambda>s. s\<lparr>st_closed := True\<rparr>))"
    by (rule keeps_modify) (simp add: wf_def held_def)
  then show ?thesis
    unfolding wal_Close_def wal_releaseResources_def by (intro hoare keeps_gets index_wf)
qed

end

section \<open>Two instances\<close>

text \<open>Every entry that is not being retired has its file in place.\<close>

definition files_ok :: "wal_lib \<Rightarrow> pending_map \<Rightarrow> completed_map \<Rightarrow> disk \<Rightarrow> bool" where
  "files_ok lib P C d \<longleftrightarrow>
     (\<forall>i e. map_of P i = Some e \<longrightarrow> retiring C i e \<or> file_in_place lib i e d)"

text \<open>One acknowledged entry is kept at every instant.\<close>

definition protected ::
  "string \<Rightarrow> pendingEntry \<Rightarrow> dfile \<Rightarrow> pending_map \<Rightarrow> completed_map \<Rightarrow> disk \<Rightarrow> bool" where
  "protected i e x P C d \<longleftrightarrow>
     map_of P i = Some e \<and> pe_durable e \<and> \<not> retiring C i e \<and> kept (pe_name e) x d"

lemma file_in_place_bind: "file_in_place lib i e d \<Longrightarrow> n \<noteq> pe_name e \<Longrightarrow> file_in_place lib i e (disk_bind n v d)"
  unfolding file_in_place_def disk_bind_lookup by (auto simp: disk_bind_def Let_def)

lemma file_in_place_barrier: "file_in_place lib i e d \<Longrightarrow> file_in_place lib i e (disk_barrier d)"
  by (auto simp: file_in_place_def disk_barrier_def Let_def)

lemma file_in_place_durable:
  "file_in_place lib i e d \<Longrightarrow> d_maybe d (pe_name e) = {map_of (d_cur d) (pe_name e)} \<Longrightarrow>
   file_in_place lib i (e\<lparr>pe_durable := b\<rparr>) d"
  by (auto simp: file_in_place_def)

lemma retiring_durable [simp]: "retiring C i (e\<lparr>pe_durable := b\<rparr>) = retiring C i e"
  by (simp add: retiring_def)

lemma retiring_delete: "retiring (AList.delete j C) i e \<longleftrightarrow> j \<noteq> i \<and> retiring C i e"
  by (auto simp: retiring_def delete_conv')

lemma retiring_update: "map_of C j = None \<Longrightarrow> retiring C i e \<Longrightarrow> retiring (AList.update j m C) i e"
  by (auto simp: retiring_def update_conv')

lemma retiring_update_other: "j \<noteq> i \<Longrightarrow> retiring (AList.update j m C) i e = retiring C i e"
  by (auto simp: retiring_def update_conv')

interpretation files: wal_inv lib "files_ok lib" "\<lambda>_. True" for lib
proof
  show "files_ok lib P C (disk_bind n v d)" if "files_ok lib P C d" "\<not> entry_names P n" for P C d n v
    using that unfolding files_ok_def entry_names_def by (metis file_in_place_bind)
  show "files_ok lib P C (disk_barrier d)" if "files_ok lib P C d" for P C d
    using that by (auto simp: files_ok_def intro: file_in_place_barrier)
  show "files_ok lib P C (disk_bind (pe_name e) None d)"
    if "files_ok lib P C d" "pending_wf k P" "k \<le> MaxUint64" "map_of P i = Some e" "retiring C i e" for P C d k i e
    using that wf_names_differ [OF that(2,3,4)] unfolding files_ok_def
    by (metis file_in_place_bind option.inject)
  show "files_ok lib (AList.delete i P) C d"
    if "files_ok lib P C d" for P C d i
    using that by (auto simp: files_ok_def delete_conv' split: if_splits)
  show "files_ok lib P (AList.delete i C) d"
    if "files_ok lib P C d" "\<And>e. map_of P i = Some e \<Longrightarrow> \<not> retiring C i e" for P C d i
    using that by (auto simp: files_ok_def retiring_delete)
  show "files_ok lib P (AList.update i m C) d" if "files_ok lib P C d" "map_of C i = None" for P C d i m
    using that unfolding files_ok_def by (metis retiring_update)
  show "files_ok lib (AList.update i e P) C d" if "files_ok lib P C d" "file_in_place lib i e d" for P C d i e
    using that by (auto simp: files_ok_def update_conv' split: if_splits)
  show "files_ok lib (AList.update i (e\<lparr>pe_durable := True\<rparr>) P) C d"
    if "files_ok lib P C d" "map_of P i = Some e" "d_maybe d (pe_name e) = {map_of (d_cur d) (pe_name e)}"
    for P C d i e
    using that by (auto simp: files_ok_def update_conv' intro: file_in_place_durable split: if_splits)
qed (auto simp: files_ok_def file_in_place_def)

interpretation prot: wal_inv lib "protected i e x" "\<lambda>j. j \<noteq> i" for lib i e x
proof
  show "protected i e x P C (disk_bind n v d)" if "protected i e x P C d" "\<not> entry_names P n" for P C d n v
    using that kept.J_bind [of "pe_name e" x d n v] by (auto simp: protected_def entry_names_def)
  show "protected i e x P C (disk_barrier d)" if "protected i e x P C d" for P C d
    using that kept.J_barrier by (auto simp: protected_def)
  show "protected i e x P C (disk_bind (pe_name f) None d)"
    if "protected i e x P C d" "pending_wf k P" "k \<le> MaxUint64" "map_of P j = Some f" "retiring C j f" for P C d k j f
    using that wf_names_differ [OF that(2,3,4)] kept.J_bind [of "pe_name e" x d "pe_name f" None]
    unfolding protected_def by (metis option.inject)
  show "protected i e x (AList.delete j P) C d"
    if "protected i e x P C d" "map_of P j = Some f" "retiring C j f" for P C d j f
    using that by (auto simp: protected_def delete_conv')
  show "protected i e x P (AList.delete j C) d" if "protected i e x P C d" for P C d j
    using that by (auto simp: protected_def retiring_delete)
  show "protected i e x P (AList.update j m C) d" if "protected i e x P C d" "j \<noteq> i" for P C d j m
    using that by (auto simp: protected_def retiring_update_other)
  show "protected i e x (AList.update j f P) C d" if "protected i e x P C d" "map_of P j = None" for P C d j f
    using that by (auto simp: protected_def update_conv')
  show "protected i e x (AList.update j (f\<lparr>pe_durable := True\<rparr>) P) C d"
    if "protected i e x P C d" "map_of P j = Some f" for P C d j f
    using that by (auto simp: protected_def update_conv')
qed (auto simp: protected_def kept_def stored_def)

end
