(* ===== verification/Ingress_Window.thy ===== *)
theory Ingress_Window
  imports Ingress_Wal_Inv
begin

text \<open>
  \<open>src/internal/ingresswal/window.go\<close> and \<open>expire.go\<close>: preparing a bounded window of originals for
  delivery, committing a prepared generation, releasing its token, and retiring entries older than a
  cutoff. A \<open>Generation\<close> carries the identity of the store that issued it, as the pointer in the code
  does. The commands keep every \<open>wal_inv\<close> property.
\<close>

section \<open>Preparing a window\<close>

record WindowLimits =
  wl_MaxEntries :: int
  wl_MaxBytes :: int

record PreparedEntry =
  pr_Generation :: Generation
  pr_Envelope :: Envelope
  pr_EncodedBytes :: int

definition generation :: "Store \<Rightarrow> string \<Rightarrow> nat \<Rightarrow> Generation" where
  "generation s i q = \<lparr>gen_owner = st_self s, gen_id = i, gen_sequence = q\<rparr>"

definition checkHeld :: "Store \<Rightarrow> Generation list \<Rightarrow> bool" where
  "checkHeld s held' \<longleftrightarrow> (\<forall>g \<in> set held'. gen_owner g = st_self s \<and> map_of (st_prepared s) g \<noteq> None)"

definition snapshot_less :: "string \<times> completionMarker \<Rightarrow> string \<times> completionMarker \<Rightarrow> bool" where
  "snapshot_less x y \<longleftrightarrow> cm_sequence (snd x) < cm_sequence (snd y)"

fun window_cleanup ::
  "(string \<times> completionMarker) list \<Rightarrow> (Generation list \<times> wal_error option) wal" where
  "window_cleanup [] = ret ([], None)"
| "window_cleanup (x # xs) = do {
     (notify, err) \<leftarrow> wal_cleanupCompletedSnapshot x;
     case err of
       Some e \<Rightarrow> ret ([], Some e)
     | None \<Rightarrow> do {
         g \<leftarrow> gets (\<lambda>s. generation s (fst x) (cm_entrySequence (snd x)));
         modify (\<lambda>s. if notify \<and> map_of (st_prepared s) g \<noteq> None
           then s\<lparr>st_prepared := AList.update g PreparedRetired (st_prepared s)\<rparr> else s);
         (gs, err') \<leftarrow> window_cleanup xs;
         ret (if notify then g # gs else gs, err')
       }
   }"

definition window_candidates :: "Generation list \<Rightarrow> Store \<Rightarrow> (string \<times> pendingEntry) list" where
  "window_candidates excluded s = go_sort pending_less
     (filter (\<lambda>(i, entry). pe_durable entry \<and> map_of (st_completed s) i = None \<and>
        generation s i (pe_sequence entry) \<notin> set excluded) (st_pending s))"

text \<open>The selection loop, with the code's running totals \<open>bytes\<close>, \<open>newlyRegistered\<close> and \<open>result\<close>.\<close>

fun window_select ::
  "wal_lib \<Rightarrow> int \<Rightarrow> int \<Rightarrow> (string \<times> pendingEntry) list \<Rightarrow> int \<Rightarrow> int \<Rightarrow> PreparedEntry list \<Rightarrow>
   (wal_error + PreparedEntry list) wal" where
  "window_select lib limit bytesLimit [] bytes newly result = ret (Inr result)"
| "window_select lib limit bytesLimit ((i, entry) # rest) bytes newly result = do {
     c \<leftarrow> ctx_Err True;
     case c of Some e \<Rightarrow> ret (Inl e) | None \<Rightarrow>
     if limit \<le> int (length result) then ret (Inr result)
     else if pe_size entry < 0 then ret (Inl (CorruptError ''negative prepared size''))
     else if bytesLimit - bytes < pe_size entry
     then window_select lib limit bytesLimit rest bytes newly result
     else do {
       g \<leftarrow> gets (\<lambda>s. generation s i (pe_sequence entry));
       registered \<leftarrow> gets (\<lambda>s. map_of (st_prepared s) g \<noteq> None);
       full \<leftarrow> gets (\<lambda>s. min 64 (st_MaxEntries s) \<le> int (length (st_prepared s)) + newly);
       if \<not> registered \<and> full then ret (Inr result)
       else do {
         r \<leftarrow> wal_readBounded (pe_name entry);
         case r of
           Inl e \<Rightarrow> ret (Inl e)
         | Inr data \<Rightarrow>
             (case decodeRecord lib data of
                Inl e \<Rightarrow> ret (Inl e)
              | Inr record \<Rightarrow>
                  if env_ID (sr_Envelope record) \<noteq> gen_id g \<or> sr_Sequence record \<noteq> gen_sequence g \<or>
                     int (length data) \<noteq> pe_size entry
                  then ret (Inl (CorruptError ''prepared entry identity mismatch''))
                  else window_select lib limit bytesLimit rest (bytes + pe_size entry)
                    (if registered then newly else newly + 1)
                    (result @ [\<lparr>pr_Generation = g, pr_Envelope = sr_Envelope record,
                       pr_EncodedBytes = pe_size entry\<rparr>]))
       }
     }
   }"

definition register :: "PreparedEntry list \<Rightarrow> Store \<Rightarrow> Store" where
  "register result s =
     s\<lparr>st_prepared := fold (\<lambda>x. AList.update (pr_Generation x) PreparedPending) result (st_prepared s)\<rparr>"

definition window_fill ::
  "wal_lib \<Rightarrow> WindowLimits \<Rightarrow> Generation list \<Rightarrow> (wal_error + PreparedEntry list) wal" where
  "window_fill lib limits held' = do {
     v \<leftarrow> wal_revalidateDirectory;
     case v of Some e \<Rightarrow> ret (Inl e) | None \<Rightarrow> do {
     entries \<leftarrow> gets (window_candidates held');
     limit \<leftarrow> gets (\<lambda>s. min (wl_MaxEntries limits) (min 64 (st_MaxEntries s)));
     bytesLimit \<leftarrow> gets (\<lambda>s. min (wl_MaxBytes limits) (st_MaxBytes s));
     r \<leftarrow> window_select lib limit bytesLimit entries 0 0 [];
     case r of
       Inl e \<Rightarrow> ret (Inl e)
     | Inr result \<Rightarrow> do { modify (register result); ret (Inr result) }
     }
   }"

text \<open>The observer's calls are returned beside the result.\<close>

definition wal_PrepareWindow ::
  "wal_lib \<Rightarrow> WindowLimits \<Rightarrow> Generation list \<Rightarrow> (Generation list \<times> (wal_error + PreparedEntry list)) wal" where
  "wal_PrepareWindow lib limits held' =
     (if wl_MaxEntries limits \<le> 0 \<or> wl_MaxBytes limits \<le> 0
      then ret ([], Inl (PlainError ''ingress WAL positive window limits required''))
      else do {
        c \<leftarrow> ctx_Err True;
        case c of Some e \<Rightarrow> ret ([], Inl e) | None \<Rightarrow> do {
        closed \<leftarrow> gets st_closed;
        known \<leftarrow> gets (\<lambda>s. checkHeld s held');
        if closed then ret ([], Inl ErrClosed)
        else if \<not> known then ret ([], Inl ErrPreparedToken)
        else do {
        o' \<leftarrow> wal_cleanupOrphansLocked;
        case o' of Some e \<Rightarrow> ret ([], Inl e) | None \<Rightarrow> do {
        completed \<leftarrow> gets (\<lambda>s. go_sort snapshot_less (st_completed s));
        (gs, err) \<leftarrow> window_cleanup completed;
        case err of Some e \<Rightarrow> ret (gs, Inl e) | None \<Rightarrow> do {
        r \<leftarrow> window_fill lib limits held';
        ret (gs, r)
        }}}}
      })"

section \<open>Committing and releasing a prepared generation\<close>

fun prepared_scan :: "Generation \<Rightarrow> string list \<Rightarrow> (wal_error + bool) wal" where
  "prepared_scan g [] = ret (Inr True)"
| "prepared_scan g (name # names) =
     (if name = entryName (gen_sequence g) (gen_id g) then ret (Inr False)
      else if strings_HasPrefix name completionPrefix then
        (case parseMarkerName name of
           None \<Rightarrow> ret (Inl (CorruptError ''malformed completion filename''))
         | Some (_, i) \<Rightarrow>
             if i \<noteq> gen_id g then prepared_scan g names
             else do {
               r \<leftarrow> wal_readMarker name;
               case r of
                 Inl e \<Rightarrow> ret (Inl e)
               | Inr (_, _, entrySequence) \<Rightarrow>
                   if entrySequence = gen_sequence g then ret (Inr False) else prepared_scan g names
             })
      else prepared_scan g names)"

definition prepared_settle :: "Generation \<Rightarrow> (PreparedOutcome \<times> wal_error option) wal" where
  "prepared_settle g = do {
     v \<leftarrow> wal_revalidateDirectory;
     case v of Some e \<Rightarrow> ret (PreparedPending, Some e) | None \<Rightarrow> do {
     names \<leftarrow> on_disk disk_readDir;
     case names of None \<Rightarrow> ret (PreparedPending, Some (PlainError ''list directory'')) | Some ns \<Rightarrow> do {
     r \<leftarrow> prepared_scan g ns;
     case r of
       Inl e \<Rightarrow> ret (PreparedPending, Some e)
     | Inr False \<Rightarrow> ret (PreparedPending, None)
     | Inr True \<Rightarrow> do {
         modify (\<lambda>s. s\<lparr>st_prepared := AList.update g PreparedRetired (st_prepared s)\<rparr>);
         ret (PreparedRetired, None)
       }
     }}
   }"

definition wal_CommitPrepared :: "Generation \<Rightarrow> (PreparedOutcome \<times> wal_error option) wal" where
  "wal_CommitPrepared g = do {
     c \<leftarrow> ctx_Err True;
     case c of Some e \<Rightarrow> ret (PreparedPending, Some e) | None \<Rightarrow> do {
     closed \<leftarrow> gets st_closed;
     if closed then ret (PreparedPending, Some ErrClosed)
     else do {
     state \<leftarrow> gets (\<lambda>s. if gen_owner g = st_self s then map_of (st_prepared s) g else None);
     case state of
       None \<Rightarrow> ret (PreparedPending, Some ErrPreparedToken)
     | Some PreparedRetired \<Rightarrow> ret (PreparedRetired, None)
     | Some PreparedPending \<Rightarrow> do {
         (_, err) \<leftarrow> wal_commitGeneration (gen_id g) (gen_sequence g);
         case err of Some e \<Rightarrow> ret (PreparedPending, Some e) | None \<Rightarrow> prepared_settle g
       }
     }}
   }"

definition wal_ReleasePrepared :: "Generation \<Rightarrow> wal_error option wal" where
  "wal_ReleasePrepared g = do {
     ok \<leftarrow> gets (\<lambda>s. gen_owner g = st_self s \<and> map_of (st_prepared s) g = Some PreparedRetired);
     if ok then do {
       modify (\<lambda>s. s\<lparr>st_prepared := AList.delete g (st_prepared s)\<rparr>);
       ret None
     } else ret (Some ErrPreparedToken)
   }"

section \<open>Expiry\<close>

record ExpiredEntry =
  ex_Tailnet :: string
  ex_Source :: string
  ex_Signal :: string
  ex_Accepted :: gotime
  ex_EncodedBytes :: int

definition expire_candidates :: "Store \<Rightarrow> (string \<times> pendingEntry) list" where
  "expire_candidates s = go_sort pending_less
     (filter (\<lambda>(i, entry). map_of (st_completed s) i = None \<and> i \<notin> gen_id ` fst ` set (st_prepared s))
       (st_pending s))"

definition expiry_mismatch :: string where
  "expiry_mismatch = ''expiry entry identity mismatch''"

definition expire_one ::
  "wal_lib \<Rightarrow> gotime \<Rightarrow> (string \<Rightarrow> string \<Rightarrow> string \<Rightarrow> bool) \<Rightarrow> string \<Rightarrow> pendingEntry \<Rightarrow>
   (ExpiredEntry list \<times> wal_error option) wal \<Rightarrow> wal_error + storedRecord \<times> string \<Rightarrow>
   (ExpiredEntry list \<times> wal_error option) wal" where
  "expire_one lib cutoff eligible i entry rest r =
     (case r of
        Inl e \<Rightarrow> ret ([], Some e)
      | Inr (record, data) \<Rightarrow>
          (let env = sr_Envelope record in
           if cutoff \<le> env_Accepted env then ret ([], None)
           else if \<not> eligible (env_Tailnet env) (env_Source env) (env_Signal env) then rest
           else do {
             (_, err) \<leftarrow> wal_commitGeneration i (pe_sequence entry);
             case err of
               Some e \<Rightarrow> ret ([], Some e)
             | None \<Rightarrow> do {
                 (more, err') \<leftarrow> rest;
                 ret (\<lparr>ex_Tailnet = env_Tailnet env, ex_Source = env_Source env, ex_Signal = env_Signal env,
                       ex_Accepted = env_Accepted env, ex_EncodedBytes = int (length data)\<rparr> # more, err')
               }
           }))"

fun expire_loop ::
  "wal_lib \<Rightarrow> gotime \<Rightarrow> (string \<Rightarrow> string \<Rightarrow> string \<Rightarrow> bool) \<Rightarrow> (string \<times> pendingEntry) list \<Rightarrow>
   (ExpiredEntry list \<times> wal_error option) wal" where
  "expire_loop lib cutoff eligible [] = ret ([], None)"
| "expire_loop lib cutoff eligible ((i, entry) # rest) = do {
     c \<leftarrow> ctx_Err True;
     case c of Some e \<Rightarrow> ret ([], Some e) | None \<Rightarrow> do {
     closed \<leftarrow> gets st_closed;
     if closed then ret ([], Some ErrClosed)
     else do {
     r \<leftarrow> wal_readEntry expiry_mismatch lib i entry;
     expire_one lib cutoff eligible i entry (expire_loop lib cutoff eligible rest) r
     }}
   }"

definition wal_ExpireBefore ::
  "wal_lib \<Rightarrow> gotime \<Rightarrow> (string \<Rightarrow> string \<Rightarrow> string \<Rightarrow> bool) \<Rightarrow> (ExpiredEntry list \<times> wal_error option) wal" where
  "wal_ExpireBefore lib cutoff eligible =
     (if cutoff = 0 then ret ([], None)
      else do {
        c \<leftarrow> ctx_Err True;
        case c of Some e \<Rightarrow> ret ([], Some e) | None \<Rightarrow> do {
        closed \<leftarrow> gets st_closed;
        if closed then ret ([], Some ErrClosed)
        else do {
        candidates \<leftarrow> gets expire_candidates;
        expire_loop lib cutoff eligible candidates
        }}
      })"

section \<open>The invariants are kept\<close>

lemma keeps_bool [hoare]: "keeps K m \<Longrightarrow> keeps K m' \<Longrightarrow> keeps K (case b of True \<Rightarrow> m | False \<Rightarrow> m')"
  by (cases b) auto

lemma keeps_outcome_case [hoare]:
  "keeps K m \<Longrightarrow> keeps K m' \<Longrightarrow> keeps K (case o' of PreparedPending \<Rightarrow> m | PreparedRetired \<Rightarrow> m')"
  by (cases o') auto

lemma prepared_irrelevant: "wf s \<and> held J s \<Longrightarrow> wf (s\<lparr>st_prepared := p\<rparr>) \<and> held J (s\<lparr>st_prepared := p\<rparr>)"
  by (simp add: wf_def held_def)

lemma keeps_prepared: "keeps (\<lambda>s. wf s \<and> held J s) (modify (\<lambda>s. s\<lparr>st_prepared := f s\<rparr>))"
  by (intro keeps_modify prepared_irrelevant)

text \<open>The record read for an entry is one that expiry leaves alone.\<close>

definition spared ::
  "gotime \<Rightarrow> (string \<Rightarrow> string \<Rightarrow> string \<Rightarrow> bool) \<Rightarrow> wal_error + storedRecord \<times> string \<Rightarrow> bool" where
  "spared cutoff eligible r \<longleftrightarrow>
     (case r of Inl _ \<Rightarrow> True
      | Inr (record, _) \<Rightarrow> cutoff \<le> env_Accepted (sr_Envelope record) \<or>
          \<not> eligible (env_Tailnet (sr_Envelope record)) (env_Source (sr_Envelope record)) (env_Signal (sr_Envelope record)))"

context wal_inv
begin

lemma keeps_window_cleanup: "keeps (\<lambda>s. wf s \<and> held J s) (window_cleanup xs)"
proof (induction xs)
  case Nil
  then show ?case by (simp add: keeps_return)
next
  case (Cons x xs)
  have "keeps (\<lambda>s. wf s \<and> held J s) (wal_cleanupCompletedSnapshot x)"
    unfolding wal_cleanupCompletedSnapshot_def by (intro hoare keeps_gets index_wf)
  moreover have "keeps (\<lambda>s. wf s \<and> held J s) (modify (\<lambda>s. if c \<and> map_of (st_prepared s) g \<noteq> None
      then s\<lparr>st_prepared := AList.update g PreparedRetired (st_prepared s)\<rparr> else s))" for c g
    by (intro keeps_modify) (use prepared_irrelevant in auto)
  ultimately show ?case
    unfolding window_cleanup.simps by (intro hoare keeps_gets Cons)
qed

lemma keeps_window_select: "keeps (\<lambda>s. wf s \<and> held J s) (window_select lib' limit blimit xs bytes newly result)"
proof (induction xs arbitrary: bytes newly result)
  case Nil
  then show ?case by (simp add: keeps_return)
next
  case (Cons x xs)
  obtain i e where x: "x = (i, e)" by (cases x)
  show ?case
    unfolding x window_select.simps by (intro hoare keeps_gets index_wf Cons)
qed

lemma keeps_PrepareWindow: "keeps (\<lambda>s. wf s \<and> held J s) (wal_PrepareWindow lib' limits held')"
  unfolding wal_PrepareWindow_def window_fill_def register_def
  by (intro hoare keeps_gets index_wf keeps_window_cleanup keeps_window_select keeps_prepared)

lemma keeps_prepared_scan: "keeps (\<lambda>s. wf s \<and> held J s) (prepared_scan g names)"
proof (induction names)
  case Nil
  then show ?case by (simp add: keeps_return)
next
  case (Cons name names)
  then show ?case
    unfolding prepared_scan.simps wal_readMarker_def by (intro hoare index_wf)
qed

lemma keeps_CommitPrepared:
  assumes "may_commit (gen_id g)"
  shows "keeps (\<lambda>s. wf s \<and> held J s) (wal_CommitPrepared g)"
  unfolding wal_CommitPrepared_def prepared_settle_def
  by (intro hoare keeps_gets index_wf keeps_commitGeneration assms keeps_prepared_scan keeps_prepared)

lemma keeps_ReleasePrepared: "keeps (\<lambda>s. wf s \<and> held J s) (wal_ReleasePrepared g)"
  unfolding wal_ReleasePrepared_def by (intro hoare keeps_gets keeps_prepared)

lemma keeps_expire_loop:
  assumes "\<forall>(i, e) \<in> set xs. may_commit i \<or>
    triple (\<lambda>s. wf s \<and> held J s) (wal_readEntry expiry_mismatch lib' i e) (\<lambda>r _. spared cutoff eligible r)"
  shows "keeps (\<lambda>s. wf s \<and> held J s) (expire_loop lib' cutoff eligible xs)"
  using assms
proof (induction xs)
  case Nil
  then show ?case by (simp add: keeps_return)
next
  case (Cons x xs)
  let ?K = "\<lambda>s. wf s \<and> held J s"
  obtain i e where x: "x = (i, e)" by (cases x)
  from Cons have rest: "keeps ?K (expire_loop lib' cutoff eligible xs)" by auto
  from Cons.prems x have "may_commit i \<or>
    triple ?K (wal_readEntry expiry_mismatch lib' i e) (\<lambda>r _. spared cutoff eligible r)" by auto
  then have read: "triple ?K (wal_readEntry expiry_mismatch lib' i e)
      (\<lambda>r s. (may_commit i \<or> spared cutoff eligible r) \<and> ?K s)"
    using keeps_readEntry [OF index_wf, of expiry_mismatch lib' i e]
    by (auto simp: keeps_def triple_def)
  have tail: "triple (\<lambda>s. (may_commit i \<or> spared cutoff eligible r) \<and> ?K s)
      (expire_one lib' cutoff eligible i e rest' r) (\<lambda>_. ?K)"
    if "keeps ?K rest'" for r rest'
  proof (rule triple_pure)
    assume "may_commit i \<or> spared cutoff eligible r"
    then have "keeps ?K (expire_one lib' cutoff eligible i e rest' r)"
      unfolding expire_one_def Let_def using that
      by (intro hoare keeps_commitGeneration) (auto simp: spared_def)
    then show "triple ?K (expire_one lib' cutoff eligible i e rest' r) (\<lambda>_. ?K)" by (simp add: keeps_def)
  qed
  have entry: "keeps ?K (State_Monad.bind (wal_readEntry expiry_mismatch lib' i e)
      (expire_one lib' cutoff eligible i e (expire_loop lib' cutoff eligible xs)))"
    unfolding keeps_def by (intro triple_bind [OF read] tail rest)
  show ?case
    unfolding x expire_loop.simps by (intro entry keeps_bind keeps_option keeps_if keeps_return keeps_ctx_Err
        index_wf keeps_gets)
qed

end

end
