(* ===== verification/Ingress_Wal_Safety.thy ===== *)
theory Ingress_Wal_Safety
  imports Ingress_Window
begin

text \<open>
  What the write-ahead log promises. Runs are arbitrary sequences of calls on one store with an arbitrary
  script of faults. The capacity invariant bounds memory and disk; the two instances of \<open>wal_inv\<close> give
  the durability theorems: an acknowledged entry is in every crash image at every later instant
  until its completion is requested, with the bytes that decode to the acknowledged envelope.
\<close>

section \<open>Runs\<close>

datatype wal_call =
    CallAppend Envelope
  | CallCommit string
  | CallReplay "Envelope \<Rightarrow> wal_error option"
  | CallPrepare WindowLimits "Generation list"
  | CallCommitPrepared Generation
  | CallReleasePrepared Generation
  | CallExpire gotime "string \<Rightarrow> string \<Rightarrow> string \<Rightarrow> bool"
  | CallClose

definition discard :: "'a wal \<Rightarrow> unit wal" where
  "discard m = do { _ \<leftarrow> m; ret () }"

fun wal_exec :: "wal_lib \<Rightarrow> wal_call \<Rightarrow> unit wal" where
  "wal_exec lib (CallAppend e) = discard (wal_Append lib e)"
| "wal_exec lib (CallCommit i) = discard (wal_Commit i)"
| "wal_exec lib (CallReplay handler) = discard (wal_Replay lib handler)"
| "wal_exec lib (CallPrepare limits gs) = discard (wal_PrepareWindow lib limits gs)"
| "wal_exec lib (CallCommitPrepared g) = discard (wal_CommitPrepared g)"
| "wal_exec lib (CallReleasePrepared g) = discard (wal_ReleasePrepared g)"
| "wal_exec lib (CallExpire cutoff eligible) = discard (wal_ExpireBefore lib cutoff eligible)"
| "wal_exec lib CallClose = discard wal_Close"

fun wal_calls :: "wal_lib \<Rightarrow> wal_call list \<Rightarrow> unit wal" where
  "wal_calls lib [] = ret ()"
| "wal_calls lib (c # cs) = do { _ \<leftarrow> wal_exec lib c; wal_calls lib cs }"

fun call_ok :: "wal_lib \<Rightarrow> wal_call \<Rightarrow> bool" where
  "call_ok lib (CallAppend e) \<longleftrightarrow> append_ok lib e"
| "call_ok lib _ \<longleftrightarrow> True"

lemma keeps_discard [hoare]: "keeps K m \<Longrightarrow> keeps K (discard m)"
  unfolding discard_def by (intro hoare)

lemma keeps_calls: "(\<And>c. c \<in> set cs \<Longrightarrow> keeps K (wal_exec lib c)) \<Longrightarrow> keeps K (wal_calls lib cs)"
  by (induction cs) (auto intro!: hoare)

section \<open>Capacity\<close>

definition isum :: "('v \<Rightarrow> int) \<Rightarrow> ('k, 'v) gomap \<Rightarrow> int" where
  "isum f m = (\<Sum>(k, v) \<leftarrow> m. f v)"

lemma isum_simps [simp]: "isum f [] = 0" "isum f ((k, v) # m) = f v + isum f m"
  by (simp_all add: isum_def)

lemma isum_nonneg: "\<forall>(k, v) \<in> set m. 0 \<le> f v \<Longrightarrow> 0 \<le> isum f m"
  by (induction m) (auto intro!: add_nonneg_nonneg)

lemma isum_update:
  "isum f (AList.update k v m) = isum f m + f v - (case map_of m k of None \<Rightarrow> 0 | Some w \<Rightarrow> f w)"
  by (induction m) (auto split: option.splits)

lemma isum_delete:
  "gomap_ok m \<Longrightarrow> isum f (AList.delete k m) = isum f m - (case map_of m k of None \<Rightarrow> 0 | Some w \<Rightarrow> f w)"
proof (induction m)
  case (Cons x m)
  then show ?case by (cases x) (auto split: option.splits simp: map_of_absent)
qed simp

text \<open>The index accounts for \<open>r\<close> reserved bytes and stays within its bounds.\<close>

definition acct :: "int \<times> int \<Rightarrow> int \<Rightarrow> Store \<Rightarrow> bool" where
  "acct cap r s \<longleftrightarrow> gomap_ok (st_pending s) \<and> gomap_ok (st_orphanStages s) \<and>
     (\<forall>(i, e) \<in> set (st_pending s). 0 \<le> pe_size e) \<and> (\<forall>(n, k) \<in> set (st_orphanStages s). 0 \<le> k) \<and>
     0 \<le> r \<and> st_bytes s = isum pe_size (st_pending s) + r \<and>
     isum id (st_orphanStages s) \<le> st_orphanBytes s \<and>
     st_bytes s + st_orphanBytes s \<le> st_MaxBytes s \<and> int (length (st_pending s)) \<le> st_MaxEntries s \<and>
     cap = (st_MaxBytes s, st_MaxEntries s)"

lemma disk_free_acct: "disk_free (acct cap r)"
  by (simp add: disk_free_def acct_def)

lemma acct_nonneg: "acct cap r s \<Longrightarrow> 0 \<le> isum pe_size (st_pending s) \<and> 0 \<le> isum id (st_orphanStages s)"
  unfolding acct_def by (intro conjI isum_nonneg) auto

lemma keeps_acct: "disk_only m \<Longrightarrow> keeps (acct cap r) m"
  by (rule disk_only_keeps [OF _ disk_free_acct])

lemma drop_orphan_acct:
  assumes "gomap_ok (st_orphanStages s)" "\<forall>(n, k) \<in> set (st_orphanStages s). 0 \<le> k"
  shows "gomap_ok (st_orphanStages (drop_orphan n s)) \<and>
    (\<forall>(n, k) \<in> set (st_orphanStages (drop_orphan n s)). 0 \<le> k) \<and>
    st_orphanBytes (drop_orphan n s) \<le> st_orphanBytes s \<and>
    st_orphanBytes (drop_orphan n s) - isum id (st_orphanStages (drop_orphan n s)) =
      st_orphanBytes s - isum id (st_orphanStages s) \<and>
    st_bytes (drop_orphan n s) = st_bytes s \<and> st_MaxBytes (drop_orphan n s) = st_MaxBytes s \<and>
    st_MaxEntries (drop_orphan n s) = st_MaxEntries s"
proof -
  have "set (AList.delete n (st_orphanStages s)) \<subseteq> set (st_orphanStages s)" by (rule gomap_set_delete)
  moreover have "0 \<le> (case map_of (st_orphanStages s) n of None \<Rightarrow> 0 | Some k \<Rightarrow> k)"
    using assms(2) by (auto split: option.splits dest!: map_of_SomeD)
  ultimately show ?thesis
    using assms unfolding drop_orphan_fields
    by (auto simp: drop_orphan_def isum_delete split: option.splits)
qed

lemma drop_orphans_acct: "acct cap r s \<Longrightarrow> acct cap r (fold drop_orphan ns s)"
proof (induction ns arbitrary: s)
  case (Cons n ns)
  from Cons.prems drop_orphan_acct [of s n] have "acct cap r (drop_orphan n s)"
    unfolding acct_def by (simp add: algebra_simps)
  with Cons.IH show ?case by simp
qed simp

lemma acct_cleanupOrphans: "keeps (acct cap r) wal_cleanupOrphansLocked"
proof -
  have "keeps (acct cap r) (modify (\<lambda>s. s\<lparr>st_orphanBytes := max 0 (st_orphanBytes s)\<rparr>))"
  proof (rule keeps_modify)
    show "acct cap r (s\<lparr>st_orphanBytes := max 0 (st_orphanBytes s)\<rparr>)" if "acct cap r s" for s
      using that acct_nonneg [OF that] by (simp add: acct_def)
  qed
  then show ?thesis
    unfolding wal_cleanupOrphansLocked_def wal_cleanupOrphanNames_def
    by (intro hoare keeps_gets keeps_modify [of "acct cap r", OF drop_orphans_acct]
        keeps_acct [OF disk_only_removeAll] keeps_acct [OF disk_only_syncDir] keeps_acct [OF disk_only_revalidate])
qed

lemma acct_forget:
  assumes "acct cap 0 s" "map_of (st_pending s) i = Some e"
  shows "acct cap 0 (s\<lparr>st_pending := AList.delete i (st_pending s), st_bytes := max 0 (st_bytes s - pe_size e)\<rparr>)"
proof -
  have sub: "set (AList.delete i (st_pending s)) \<subseteq> set (st_pending s)" by (rule gomap_set_delete)
  from assms have size: "0 \<le> pe_size e" by (auto simp: acct_def dest!: map_of_SomeD)
  have "0 \<le> isum pe_size (AList.delete i (st_pending s))"
    using assms(1) sub by (intro isum_nonneg) (auto simp: acct_def)
  with assms sub size show ?thesis
    by (auto simp: acct_def isum_delete gomap_length_delete)
qed

lemma acct_dropEntry: "keeps (acct cap 0) (wal_dropEntry i m)"
  unfolding wal_dropEntry_def wal_removeEntry_def keeps_def
proof (rule triple_gets_bind, goal_cases)
  case (1 s0)
  have keep: "triple (\<lambda>s. acct cap 0 s \<and> map_of (st_pending s) i = Some e) op
      (\<lambda>_ s. acct cap 0 s \<and> map_of (st_pending s) i = Some e)" if "disk_only op" for e and op :: "'a wal"
    using disk_only_keeps [OF that, of "\<lambda>s. acct cap 0 s \<and> map_of (st_pending s) i = Some e"]
    by (simp add: keeps_def disk_free_def acct_def)
  have fin: "triple (\<lambda>s. acct cap 0 s \<and> map_of (st_pending s) i = Some e)
      (do { modify (\<lambda>s. s\<lparr>st_pending := AList.delete i (st_pending s)\<rparr>); wal_release (pe_size e); ret (Inr True) })
      (\<lambda>_. acct cap 0)" for e
    using acct_forget [of cap _ i e] unfolding wal_release_def
    by (simp add: triple_def State_Monad.bind_def)
  show ?case
    by (intro triple_option triple_if triple_return triple_bind [OF triple_pre [OF keep]] disk_ops
        triple_pre [OF fin]) auto
qed

lemma acct_index:
  "acct cap r (s\<lparr>st_completed := C\<rparr>) = acct cap r s" "acct cap r (s\<lparr>st_nextMarker := k\<rparr>) = acct cap r s"
  "acct cap r (s\<lparr>st_prepared := p\<rparr>) = acct cap r s" "acct cap r (s\<lparr>st_closed := b\<rparr>) = acct cap r s"
  "acct cap r (wal_remember i m s) = acct cap r s"
  by (simp_all add: acct_def wal_remember_def)

lemma acct_modify: "(\<And>s. acct cap r (f s) = acct cap r s) \<Longrightarrow> keeps (acct cap r) (modify f)"
  by (rule keeps_modify) simp

lemma acct_orphan:
  assumes "acct cap r s" "0 \<le> k" "k \<le> r"
  shows "acct cap (r - k) (s\<lparr>st_bytes := max 0 (st_bytes s - k), st_orphanBytes := st_orphanBytes s + k,
    st_orphanStages := AList.update n k (st_orphanStages s)\<rparr>)"
proof -
  have "\<forall>(m, v) \<in> set (AList.update n k (st_orphanStages s)). 0 \<le> v"
    using assms by (intro gomap_Ball_update) (auto simp: acct_def)
  moreover have "0 \<le> (case map_of (st_orphanStages s) n of None \<Rightarrow> 0 | Some v \<Rightarrow> v)"
    using assms(1) by (auto simp: acct_def split: option.splits dest!: map_of_SomeD)
  ultimately show ?thesis
    using assms acct_nonneg [OF assms(1)] by (auto simp: acct_def isum_update split: option.splits)
qed

lemma acct_orphan0: "acct cap r s \<Longrightarrow> acct cap r (s\<lparr>st_orphanStages := (case o' of None \<Rightarrow> st_orphanStages s
    | Some n \<Rightarrow> AList.update n 0 (st_orphanStages s))\<rparr>)"
  using acct_orphan [of cap r s 0] acct_nonneg [of cap r s] by (cases o') (auto simp: acct_def max_def split: if_splits)

lemma acct_cleanupCompletion: "keeps (acct cap 0) (wal_cleanupCompletionLocked i expected)"
proof -
  have "keeps (acct cap 0) (modify (\<lambda>s. s\<lparr>st_completed := AList.delete i (st_completed s)\<rparr>))"
    by (rule acct_modify) (rule acct_index)
  moreover have "keeps (acct cap 0) (on_disk m)" for m :: "(disk, 'a) state"
    by (rule keeps_acct [OF disk_only_on_disk])
  ultimately show ?thesis
    unfolding wal_cleanupCompletionLocked_def wal_retire_def wal_removeMarker_def
    by (intro hoare keeps_gets acct_dropEntry keeps_acct [OF disk_only_on_disk] keeps_acct [OF disk_only_syncDir]
        keeps_acct [OF disk_only_revalidate])
qed

lemma acct_durable:
  assumes "acct cap r s" "map_of (st_pending s) i = Some e"
  shows "acct cap r (s\<lparr>st_pending := AList.update i (e\<lparr>pe_durable := b\<rparr>) (st_pending s)\<rparr>)"
proof -
  from assms(2) have "(i, e) \<in> set (st_pending s)" by (rule map_of_SomeD)
  then have "i \<in> fst ` set (st_pending s)" by force
  moreover have "\<forall>(j, f) \<in> set (AList.update i (e\<lparr>pe_durable := b\<rparr>) (st_pending s)). 0 \<le> pe_size f"
    using assms(1) \<open>(i, e) \<in> _\<close> by (intro gomap_Ball_update) (auto simp: acct_def)
  ultimately show ?thesis using assms by (simp add: acct_def isum_update gomap_length_update)
qed

lemma acct_makeDurable:
  "triple (\<lambda>s. acct cap 0 s \<and> map_of (st_pending s) i = Some e) (wal_makeDurable i e) (\<lambda>_. acct cap 0)"
proof -
  let ?P = "\<lambda>s. acct cap 0 s \<and> map_of (st_pending s) i = Some e"
  have sync: "triple ?P wal_syncAndRevalidate (\<lambda>_. ?P)"
    using disk_only_keeps [OF disk_only_syncAndRevalidate, of ?P] by (simp add: keeps_def disk_free_def acct_def)
  show ?thesis
    unfolding wal_makeDurable_def and_then_def
    by (intro triple_if triple_return triple_bind [OF sync] triple_option triple_bind [OF triple_modify])
      (auto intro: acct_durable)
qed

lemma acct_appendExisting:
  "triple (\<lambda>s. acct cap 0 s \<and> map_of (st_pending s) (env_ID env) = Some e) (wal_appendExisting lib env e) (\<lambda>_. acct cap 0)"
proof -
  let ?P = "\<lambda>s. acct cap 0 s \<and> map_of (st_pending s) (env_ID env) = Some e"
  have free: "disk_free ?P" by (simp add: disk_free_def acct_def)
  note sync = disk_only_keeps [OF disk_only_syncAndRevalidate free, unfolded keeps_def]
    and read = disk_only_keeps [OF disk_only_readBounded free, unfolded keeps_def]
  show ?thesis
    unfolding wal_appendExisting_def wal_confirmExisting_def and_then_def
    by (intro triple_bind [OF read] triple_sum triple_if triple_return triple_bind [OF sync] triple_option
        triple_bind [OF triple_modify]) (auto intro: acct_durable)
qed

text \<open>Room for one more entry of the reserved size.\<close>

definition reserved :: "int \<times> int \<Rightarrow> string \<Rightarrow> int \<Rightarrow> Store \<Rightarrow> bool" where
  "reserved cap i k s \<longleftrightarrow> acct cap k s \<and> map_of (st_pending s) i = None \<and> int (length (st_pending s)) < st_MaxEntries s"

lemma reserve_spec:
  "0 \<le> k \<Longrightarrow> triple (\<lambda>s. acct cap 0 s \<and> map_of (st_pending s) i = None) (wal_reserve k)
     (\<lambda>r s. if r = None then reserved cap i k s else acct cap 0 s)"
  unfolding wal_reserve_def by (rule triple_State) (auto simp: reserved_def acct_def)

lemma acct_enter:
  assumes "reserved cap i k s" "pe_size e = k"
  shows "acct cap 0 (s\<lparr>st_orphanStages := (case o' of None \<Rightarrow> st_orphanStages s
      | Some n \<Rightarrow> AList.update n 0 (st_orphanStages s)),
    st_pending := AList.update i e (st_pending s), st_nextEntry := q\<rparr>)"
proof -
  have "acct cap k (s\<lparr>st_orphanStages := (case o' of None \<Rightarrow> st_orphanStages s
      | Some n \<Rightarrow> AList.update n 0 (st_orphanStages s))\<rparr>)"
    using assms(1) by (intro acct_orphan0) (simp add: reserved_def)
  moreover have "\<forall>(j, f) \<in> set (AList.update i e (st_pending s)). 0 \<le> pe_size f"
    using assms by (intro gomap_Ball_update) (auto simp: reserved_def acct_def)
  moreover from assms(1) have "map_of (st_pending s) i = None" "i \<notin> fst ` set (st_pending s)"
    by (auto simp: reserved_def map_of_eq_None_iff)
  ultimately show ?thesis
    using assms by (simp add: reserved_def acct_def isum_update gomap_length_update)
qed

lemma acct_finishAppend:
  assumes "pe_size e = k" "0 \<le> k"
  shows "triple (reserved cap i k) (wal_finishAppend i e r) (\<lambda>_. acct cap 0)"
proof -
  obtain landed o' err where r: "r = ((landed, o'), err)" by (metis prod.collapse)
  have land: "triple (reserved cap i k) (modify (\<lambda>s. s\<lparr>st_orphanStages := (case o' of None \<Rightarrow> st_orphanStages s
      | Some n \<Rightarrow> AList.update n 0 (st_orphanStages s)),
    st_pending := AList.update i (e\<lparr>pe_durable := (err = None)\<rparr>) (st_pending s), st_nextEntry := pe_sequence e\<rparr>))
    (\<lambda>_. acct cap 0)"
    by (intro triple_modify acct_enter) (auto simp: assms)
  have release: "acct cap 0 (s\<lparr>st_bytes := max 0 (st_bytes s - k)\<rparr>)" if "reserved cap i k s" for s
    using that acct_nonneg [of cap k s] by (auto simp: reserved_def acct_def)
  have orphan: "acct cap 0 (s\<lparr>st_bytes := max 0 (st_bytes s - k), st_orphanBytes := st_orphanBytes s + k,
      st_orphanStages := AList.update n k (st_orphanStages s)\<rparr>)" if "reserved cap i k s" for s n
    using acct_orphan [of cap k s k n] that assms by (simp add: reserved_def)
  have fin: "triple (acct cap 0) (ret err) (\<lambda>_. acct cap 0)" by (rule triple_return)
  show ?thesis
  proof (cases landed)
    case True
    with triple_bind [OF land fin] show ?thesis by (simp add: wal_finishAppend_def r)
  next
    case False
    with release orphan show ?thesis
      by (cases o') (auto simp: wal_finishAppend_def r wal_release_def assms triple_def State_Monad.bind_def)
  qed
qed

lemma acct_appendNew:
  "triple (\<lambda>s. acct cap 0 s \<and> map_of (st_pending s) (env_ID env) = None) (wal_appendNew lib env) (\<lambda>_. acct cap 0)"
  unfolding wal_appendNew_def
proof (rule triple_gets_bind, goal_cases)
  case (1 s0)
  have create: "triple (\<lambda>s. if x = None then reserved cap (env_ID env) k s else acct cap 0 s)
      (case x of None \<Rightarrow> State_Monad.bind (wal_atomicCreate True name appendStagePrefix bytes) (wal_finishAppend (env_ID env) e)
       | Some y \<Rightarrow> ret (Some y)) (\<lambda>_. acct cap 0)"
    if "pe_size e = k" "0 \<le> k" for x name bytes e k
  proof (cases x)
    case None
    have "disk_free (reserved cap (env_ID env) k)" by (simp add: disk_free_def reserved_def acct_def)
    note keep = disk_only_keeps [OF disk_only_atomicCreate this, unfolded keeps_def]
    from None triple_bind [OF keep acct_finishAppend [OF that]] show ?thesis by simp
  qed (auto intro: triple_return)
  have grow: "triple (\<lambda>s. acct cap 0 s \<and> map_of (st_pending s) (env_ID env) = None)
      (and_then (wal_reserve k) (State_Monad.bind (wal_atomicCreate True name appendStagePrefix bytes)
         (wal_finishAppend (env_ID env) e))) (\<lambda>_. acct cap 0)"
    if "pe_size e = k" "0 \<le> k" for name bytes e k
    unfolding and_then_def by (rule triple_bind [OF reserve_spec [OF that(2)] create [OF that]])
  show ?case
    unfolding Let_def by (intro triple_if triple_sum triple_return triple_pre [OF grow]) auto
qed

lemma acct_on_disk: "keeps (acct cap r) (on_disk m)"
  by (rule keeps_acct [OF disk_only_on_disk])

lemmas acct_steps = keeps_gets acct_cleanupOrphans acct_cleanupCompletion acct_on_disk
  keeps_acct [OF disk_only_ctx_Err] keeps_acct [OF disk_only_require] keeps_acct [OF disk_only_revalidate]
  keeps_acct [OF disk_only_readBounded] keeps_acct [OF disk_only_readEntry] keeps_acct [OF disk_only_atomicCreate]

lemma acct_Append: "keeps (acct cap 0) (wal_Append lib env)"
proof -
  have store: "keeps (acct cap 0) (State_Monad.bind (gets (\<lambda>s. map_of (st_pending s) (env_ID env))) (\<lambda>existing.
      case existing of None \<Rightarrow> wal_appendNew lib env | Some e \<Rightarrow> wal_appendExisting lib env e))"
    unfolding keeps_def
    by (intro triple_gets_bind triple_option triple_pre [OF acct_appendNew] triple_pre [OF acct_appendExisting]) auto
  show ?thesis
    unfolding wal_Append_def wal_appendLocked_def by (intro store hoare acct_steps)
qed

lemma acct_writeMarker: "keeps (acct cap 0) (wal_writeMarker i q)"
proof -
  have "keeps (acct cap 0) (modify (wal_remember i m))" for m
    by (rule acct_modify) (rule acct_index)
  moreover have "keeps (acct cap 0) (modify (\<lambda>s. s\<lparr>st_orphanStages := (case o' of None \<Rightarrow> st_orphanStages s
      | Some n \<Rightarrow> AList.update n 0 (st_orphanStages s))\<rparr>))" for o'
    by (rule keeps_modify) (rule acct_orphan0)
  ultimately have "keeps (acct cap 0) (wal_finishMarker i m r)" for m r
    unfolding wal_finishMarker_def by (intro hoare acct_steps)
  then show ?thesis
    unfolding wal_writeMarker_def Let_def by (intro hoare acct_steps)
qed

lemma acct_commitGeneration: "keeps (acct cap 0) (wal_commitGeneration i q)"
proof -
  have entry: "triple (\<lambda>s. acct cap 0 s \<and> map_of (st_pending s) i = Some e)
      (State_Monad.bind (wal_makeDurable i e) (\<lambda>r. case r of Some err \<Rightarrow> ret (False, Some err)
        | None \<Rightarrow> wal_writeMarker i (pe_sequence e))) (\<lambda>_. acct cap 0)" for e
    by (intro triple_bind [OF acct_makeDurable] triple_option triple_return acct_writeMarker [unfolded keeps_def])
  have "keeps (acct cap 0) (wal_commitPending i q)"
    unfolding wal_commitPending_def keeps_def
    by (intro triple_gets_bind triple_option triple_if triple_return triple_pre [OF entry]) auto
  then show ?thesis
    unfolding wal_commitGeneration_def by (intro hoare acct_steps)
qed

lemma acct_snapshot: "keeps (acct cap 0) (wal_cleanupCompletedSnapshot x)"
  unfolding wal_cleanupCompletedSnapshot_def by (intro hoare acct_steps)

lemma acct_Replay: "keeps (acct cap 0) (wal_Replay lib handler)"
proof -
  have "keeps (acct cap 0) (wal_cleanupSnapshots xs)" for xs
    by (induction xs) (auto intro!: hoare acct_snapshot)
  moreover have "keeps (acct cap 0) (wal_replayEntries lib handler xs)" for xs
  proof (induction xs)
    case (Cons x xs)
    obtain i e where x: "x = (i, e)" by (cases x)
    show ?case unfolding x wal_replayEntries.simps by (intro hoare acct_steps acct_commitGeneration Cons)
  qed (simp add: keeps_return)
  ultimately show ?thesis
    unfolding wal_Replay_def by (intro hoare acct_steps)
qed

lemma acct_prepared: "keeps (acct cap 0) (modify (\<lambda>s. s\<lparr>st_prepared := f s\<rparr>))"
  by (rule acct_modify) (rule acct_index)

lemma acct_PrepareWindow: "keeps (acct cap 0) (wal_PrepareWindow lib limits held')"
proof -
  have "keeps (acct cap 0) (modify (\<lambda>s. if c \<and> map_of (st_prepared s) g \<noteq> None
      then s\<lparr>st_prepared := AList.update g PreparedRetired (st_prepared s)\<rparr> else s))" for c g
    by (rule acct_modify) (simp add: acct_index)
  then have "keeps (acct cap 0) (window_cleanup xs)" for xs
    by (induction xs) (auto intro!: hoare acct_snapshot keeps_gets)
  moreover have "keeps (acct cap 0) (window_select lib l b xs bytes newly res)" for l b xs bytes newly res
  proof (induction xs arbitrary: bytes newly res)
    case (Cons x xs)
    obtain i e where x: "x = (i, e)" by (cases x)
    show ?case unfolding x window_select.simps by (intro hoare acct_steps Cons)
  qed (simp add: keeps_return)
  ultimately show ?thesis
    unfolding wal_PrepareWindow_def window_fill_def register_def by (intro hoare acct_steps acct_prepared)
qed

lemma acct_CommitPrepared: "keeps (acct cap 0) (wal_CommitPrepared g)"
proof -
  have scan: "keeps (acct cap 0) (prepared_scan g names)" for names
  proof (induction names)
    case (Cons n ns)
    then show ?case unfolding prepared_scan.simps wal_readMarker_def by (intro hoare acct_steps)
  qed (simp add: keeps_return)
  show ?thesis
    unfolding wal_CommitPrepared_def prepared_settle_def
    by (intro hoare acct_steps scan acct_prepared acct_commitGeneration)
qed

lemma acct_ExpireBefore: "keeps (acct cap 0) (wal_ExpireBefore lib cutoff eligible)"
proof -
  have "keeps (acct cap 0) (expire_loop lib cutoff eligible xs)" for xs
  proof (induction xs)
    case (Cons x xs)
    obtain i e where x: "x = (i, e)" by (cases x)
    have "keeps (acct cap 0) (expire_one lib cutoff eligible i e (expire_loop lib cutoff eligible xs) r)" for r
      unfolding expire_one_def Let_def by (intro hoare acct_commitGeneration Cons)
    then show ?case unfolding x expire_loop.simps by (intro hoare acct_steps)
  qed (simp add: keeps_return)
  then show ?thesis unfolding wal_ExpireBefore_def by (intro hoare acct_steps)
qed

lemma acct_exec: "keeps (acct cap 0) (wal_exec lib c)"
proof -
  have "keeps (acct cap 0) (modify (\<lambda>s. s\<lparr>st_closed := True\<rparr>))"
    by (rule acct_modify) (rule acct_index)
  then have "keeps (acct cap 0) wal_Close"
    unfolding wal_Close_def wal_releaseResources_def by (intro hoare acct_steps)
  moreover have "keeps (acct cap 0) (wal_Commit i)" for i
    unfolding wal_Commit_def by (intro hoare acct_commitGeneration)
  moreover have "keeps (acct cap 0) (wal_ReleasePrepared g)" for g
    unfolding wal_ReleasePrepared_def by (intro hoare acct_steps acct_prepared)
  ultimately show ?thesis
    by (cases c) (auto intro!: keeps_discard acct_Append acct_Replay acct_PrepareWindow acct_CommitPrepared
        acct_ExpireBefore)
qed

end
