(* ===== verification/Ingress_Wal_Durable.thy ===== *)
theory Ingress_Wal_Durable
  imports Ingress_Wal_Safety
begin

text \<open>
  Durability of the write-ahead log. An append that reports success leaves its entry in the index, marked
  durable, with a synced file that decodes to an equivalent envelope and that every crash would
  preserve; and the entry stays so, at every instant of every later run, until a caller asks for its
  completion (commits it, accepts it in a replay, or expires it).
\<close>

section \<open>What an acknowledgement means\<close>

definition acked :: "wal_lib \<Rightarrow> Envelope \<Rightarrow> Store \<Rightarrow> bool" where
  "acked lib env s \<longleftrightarrow> map_of (st_completed s) (env_ID env) = None \<and>
     (\<exists>e x rec. map_of (st_pending s) (env_ID env) = Some e \<and> pe_durable e \<and>
        map_of (d_cur (st_disk s)) (pe_name e) = Some x \<and> decodeRecord lib (f_data x) = Inr rec \<and>
        envelopesEquivalent (sr_Envelope rec) env)"

definition unmarked :: "string \<Rightarrow> Store \<Rightarrow> bool" where
  "unmarked i s \<longleftrightarrow> map_of (st_completed s) i = None"

lemma readBounded_spec:
  "triple (\<lambda>s. map_of (d_cur (st_disk s)) n = v) (wal_readBounded n)
     (\<lambda>r s. map_of (d_cur (st_disk s)) n = v \<and> (case r of Inl _ \<Rightarrow> True | Inr b \<Rightarrow> v \<noteq> None \<and> b = f_data (the v)))"
  (is "triple ?sees _ ?post")
proof -
  have keep: "triple ?sees m (\<lambda>_. ?sees)" if "keeps ?sees m" for m :: "'a wal"
    using that by (simp add: keeps_def)
  have read: "triple ?sees (on_disk (disk_read n))
      (\<lambda>r s. ?sees s \<and> (\<forall>b. r = Some b \<longrightarrow> v \<noteq> None \<and> b = f_data (the v)))"
    using keeps_on_disk [OF sees.keeps_read [of n v n]]
    by (auto simp: triple_def keeps_def on_disk_def disk_read_def disk_outcome_def State_Monad.bind_def
        split: list.splits)
  have limit: "triple (\<lambda>s. ?sees s \<and> (\<forall>b. r = Some b \<longrightarrow> v \<noteq> None \<and> b = f_data (the v))) (gets st_MaxBytes)
      (\<lambda>_ s. ?sees s \<and> (\<forall>b. r = Some b \<longrightarrow> v \<noteq> None \<and> b = f_data (the v)))" for r
    by (rule triple_State) simp
  note on = keeps_on_disk [OF sees.keeps_exists] keeps_on_disk [OF sees.keeps_check]
  show ?thesis
    unfolding wal_readBounded_def
    by (intro triple_bind [OF keep [OF on(1)]] triple_bind [OF keep [OF on(2)]] triple_if triple_return
        triple_bind [OF keep [OF keeps_and_then [OF sees.keeps_wal_require keeps_and_then [OF
          sees.keeps_wal_require sees.keeps_wal_require]]]] triple_option triple_bind [OF read] triple_bind [OF limit])
      auto
qed

lemma removeMarker_clears:
  "triple P (wal_removeMarker i marker notify) (\<lambda>r s. snd (snd r) = None \<longrightarrow> unmarked i s)"
proof -
  have forget: "triple (\<lambda>_. True) (modify (\<lambda>s. s\<lparr>st_completed := AList.delete i (st_completed s)\<rparr>)) (\<lambda>_. unmarked i)"
    by (rule triple_modify) (simp add: unmarked_def delete_conv')
  have keep: "triple (unmarked i) wal_revalidateDirectory (\<lambda>_. unmarked i)"
    using disk_only_keeps [OF disk_only_revalidate, of "unmarked i"] by (simp add: keeps_def disk_free_def unmarked_def)
  show ?thesis
    unfolding wal_removeMarker_def
    by (intro triple_bind [OF triple_any [where m = "on_disk m" for m]] triple_if
        triple_bind [OF triple_any [where m = "wal_syncDir w" for w]] triple_option
        triple_bind [OF forget] triple_bind [OF keep] triple_return) auto
qed

lemma cleanupCompletion_clears:
  "triple P (wal_cleanupCompletionLocked i None) (\<lambda>r s. snd (snd r) = None \<longrightarrow> unmarked i s)"
proof -
  have "triple Q (wal_retire i m) (\<lambda>r s. snd (snd r) = None \<longrightarrow> unmarked i s)" for Q m
    unfolding wal_retire_def
    by (intro triple_bind [OF triple_any] triple_sum triple_return removeMarker_clears) auto
  then show ?thesis
    unfolding wal_cleanupCompletionLocked_def
    by (intro triple_gets_bind triple_option triple_if triple_return) (auto simp: unmarked_def)
qed

definition found :: "string \<Rightarrow> pendingEntry \<Rightarrow> dfile option \<Rightarrow> Store \<Rightarrow> bool" where
  "found i e v s \<longleftrightarrow> (unmarked i s \<and> map_of (st_pending s) i = Some e) \<and> map_of (d_cur (st_disk s)) (pe_name e) = v"

lemma found_keep:
  assumes "disk_only m" "triple (\<lambda>s. map_of (d_cur (st_disk s)) (pe_name e) = v) m (\<lambda>r s. map_of (d_cur (st_disk s)) (pe_name e) = v \<and> R r)"
  shows "triple (found i e v) m (\<lambda>r s. found i e v s \<and> R r)"
proof -
  have "keeps (\<lambda>s. unmarked i s \<and> map_of (st_pending s) i = Some e) m"
    by (rule disk_only_keeps [OF assms(1)]) (simp add: disk_free_def unmarked_def)
  from triple_conj [OF this [unfolded keeps_def] assms(2)] show ?thesis
    unfolding found_def by (rule triple_post) auto
qed

lemma found_sync: "triple (found i e v) wal_syncAndRevalidate (\<lambda>_. found i e v)"
proof -
  let ?sees = "\<lambda>s. map_of (d_cur (st_disk s)) (pe_name e) = v"
  have "triple ?sees wal_syncAndRevalidate (\<lambda>_. ?sees)"
    using sees.keeps_wal_revalidate [of "pe_name e" v] keeps_on_disk [OF sees.keeps_syncDir [of "pe_name e" v]]
    unfolding wal_syncAndRevalidate_def wal_syncDir_def and_then_def keeps_def
    by (intro triple_bind [where R = "\<lambda>_. ?sees"] triple_option triple_return) auto
  with found_keep [OF disk_only_syncAndRevalidate, of e v "\<lambda>_. True" i] show ?thesis by simp
qed

lemma confirmExisting_acks:
  assumes "v \<noteq> None" "decodeRecord lib (f_data (the v)) = Inr rec"
  shows "triple (found (env_ID env) e v) (wal_confirmExisting env e rec) (\<lambda>r s. r = None \<longrightarrow> acked lib env s)"
proof -
  let ?F = "found (env_ID env) e v"
  have ack: "acked lib env s" if "?F s" "envelopesEquivalent (sr_Envelope rec) env" "pe_durable e" for s
    using that assms by (auto simp: acked_def found_def unmarked_def)
  have mark: "triple ?F (modify (\<lambda>s. s\<lparr>st_pending := AList.update (env_ID env) (e\<lparr>pe_durable := True\<rparr>) (st_pending s)\<rparr>))
      (\<lambda>_. acked lib env)" if "envelopesEquivalent (sr_Envelope rec) env"
    using that assms by (intro triple_modify) (auto simp: acked_def found_def unmarked_def update_conv')
  show ?thesis
    unfolding wal_confirmExisting_def and_then_def
    by (intro triple_if triple_return triple_bind [OF found_sync] triple_option triple_bind [OF mark]) (auto intro: ack)
qed

lemma appendExisting_acks:
  "triple (found (env_ID env) e v) (wal_appendExisting lib env e) (\<lambda>r s. r = None \<longrightarrow> acked lib env s)"
  unfolding wal_appendExisting_def
proof (rule triple_bind [OF found_keep [OF disk_only_readBounded readBounded_spec]])
  fix r
  let ?m = "case r of Inl e \<Rightarrow> ret (Some e) | Inr b \<Rightarrow>
    (case decodeRecord lib b of Inl e \<Rightarrow> ret (Some e) | Inr rec \<Rightarrow> wal_confirmExisting env e rec)"
  show "triple (\<lambda>s. found (env_ID env) e v s \<and> (case r of Inl _ \<Rightarrow> True | Inr b \<Rightarrow> v \<noteq> None \<and> b = f_data (the v))) ?m
      (\<lambda>r s. r = None \<longrightarrow> acked lib env s)"
  proof (cases "case r of Inl _ \<Rightarrow> True | Inr b \<Rightarrow> v \<noteq> None \<and> b = f_data (the v)")
    case True
    then have "triple (found (env_ID env) e v) ?m (\<lambda>r s. r = None \<longrightarrow> acked lib env s)"
      by (intro triple_sum triple_return confirmExisting_acks) auto
    then show ?thesis by (rule triple_pre) simp
  qed (simp add: triple_def)
qed

lemma finishAppend_acks:
  assumes "decodeRecord lib bytes = Inr rec" "envelopesEquivalent (sr_Envelope rec) env" "pe_name e = dst"
  shows "triple (\<lambda>s. unmarked (env_ID env) s \<and> created dst \<lparr>f_data = bytes, f_synced = True\<rparr> r s)
    (wal_finishAppend (env_ID env) e r) (\<lambda>r s. r = None \<longrightarrow> acked lib env s)"
proof -
  obtain landed o' err where r: "r = ((landed, o'), err)" by (metis prod.collapse)
  show ?thesis
  proof (cases err)
    case None
    with assms show ?thesis
      by (auto simp: r wal_finishAppend_def triple_def created_def stored_def acked_def unmarked_def update_conv'
          State_Monad.bind_def split: bool.splits option.splits)
  next
    case (Some x)
    then show ?thesis
      by (auto simp: r wal_finishAppend_def triple_def State_Monad.bind_def wal_release_def
          split: bool.splits option.splits)
  qed
qed

lemma appendNew_acks:
  assumes "append_ok lib env" "validID (env_ID env)"
  shows "triple (\<lambda>s. wf s \<and> unmarked (env_ID env) s) (wal_appendNew lib env) (\<lambda>r s. r = None \<longrightarrow> acked lib env s)"
  unfolding wal_appendNew_def
proof (rule triple_gets_bind, goal_cases)
  case (1 s0)
  let ?i = "env_ID env" and ?k = "st_nextEntry s0"
  have reserve: "triple (unmarked ?i) (wal_reserve z) (\<lambda>_. unmarked ?i)" for z
    unfolding wal_reserve_def by (rule triple_State) (simp add: unmarked_def)
  have free: "disk_free (unmarked ?i)" by (simp add: disk_free_def unmarked_def)
  have create: "triple (unmarked ?i)
      (State_Monad.bind (wal_atomicCreate True (entryName (Suc ?k) ?i) appendStagePrefix bytes)
        (wal_finishAppend ?i \<lparr>pe_name = entryName (Suc ?k) ?i, pe_size = int (length bytes),
           pe_sequence = Suc ?k, pe_durable = False\<rparr>)) (\<lambda>r s. r = None \<longrightarrow> acked lib env s)"
    if "encodeRecord lib env (Suc ?k) = Inr bytes" "?k < MaxUint64" for bytes
  proof -
    note dec = decode_appended [OF assms(1) that]
    have "triple (unmarked ?i) (wal_atomicCreate True (entryName (Suc ?k) ?i) appendStagePrefix bytes)
       (\<lambda>r s. unmarked ?i s \<and> created (entryName (Suc ?k) ?i) \<lparr>f_data = bytes, f_synced = True\<rparr> r s)"
      using triple_conj [OF disk_only_keeps [OF disk_only_atomicCreate free, unfolded keeps_def]
        atomicCreate_creates [of appendStagePrefix, OF _ entry_not_stage]] by (rule triple_pre) auto
    then show ?thesis
      by (rule triple_bind) (rule finishAppend_acks [OF dec], simp_all add: envelopesEquivalent_def)
  qed
  from 1 have k: "?k \<noteq> MaxUint64 \<Longrightarrow> ?k < MaxUint64" by (auto simp: wf_def)
  show ?case
    unfolding and_then_def Let_def
    by (intro triple_if triple_sum triple_return triple_bind [OF triple_pre [OF reserve]] triple_option
        triple_pre [OF create] k) auto
qed

lemma Append_acks:
  assumes "append_ok lib env"
  shows "triple (\<lambda>s. wf s \<and> held (files_ok lib) s) (wal_Append lib env) (\<lambda>r s. r = None \<longrightarrow> acked lib env s)"
proof -
  let ?K = "\<lambda>s. wf s \<and> held (files_ok lib) s" and ?i = "env_ID env" and ?Q = "\<lambda>r s. r = None \<longrightarrow> acked lib env s"
  have store: "triple (\<lambda>s. ?K s \<and> unmarked ?i s) (State_Monad.bind (gets (\<lambda>s. map_of (st_pending s) ?i)) (\<lambda>existing.
      case existing of None \<Rightarrow> wal_appendNew lib env | Some e \<Rightarrow> wal_appendExisting lib env e)) ?Q"
    if "validateEnvelope env = None"
  proof (rule triple_gets_bind, rule triple_option)
    show "triple (\<lambda>s. (?K s \<and> unmarked ?i s) \<and> map_of (st_pending s) ?i = map_of (st_pending s0) ?i)
       (wal_appendNew lib env) ?Q" for s0
      using appendNew_acks [OF assms validateEnvelope_validID [OF that]] by (rule triple_pre) auto
    show "triple (\<lambda>s. (?K s \<and> unmarked ?i s) \<and> map_of (st_pending s) ?i = map_of (st_pending s0) ?i)
       (wal_appendExisting lib env e) ?Q" if "map_of (st_pending s0) ?i = Some e" for s0 e
      by (rule triple_value [where f = "\<lambda>s. map_of (d_cur (st_disk s)) (pe_name e)"],
          rule triple_pre [OF appendExisting_acks]) (use that in \<open>auto simp: found_def\<close>)
  qed
  have clean: "triple ?K (State_Monad.bind (gets (\<lambda>s. map_of (st_completed s) ?i \<noteq> None)) (\<lambda>done.
      if done then State_Monad.bind (wal_cleanupCompletionLocked ?i None) (\<lambda>(_, _, e). ret e) else ret None))
      (\<lambda>err s. ?K s \<and> (err = None \<longrightarrow> unmarked ?i s))"
  proof (rule triple_gets_bind, rule triple_if)
    have cc: "triple ?K (wal_cleanupCompletionLocked ?i None) (\<lambda>r s. ?K s \<and> (snd (snd r) = None \<longrightarrow> unmarked ?i s))"
      using triple_conj [OF files.keeps_cleanupCompletion [of lib ?i None, unfolded keeps_def] cleanupCompletion_clears]
      by (rule triple_pre) auto
    show "triple (\<lambda>s. ?K s \<and> (map_of (st_completed s) ?i \<noteq> None) = (map_of (st_completed s0) ?i \<noteq> None))
       (State_Monad.bind (wal_cleanupCompletionLocked ?i None) (\<lambda>(_, _, e). ret e))
       (\<lambda>err s. ?K s \<and> (err = None \<longrightarrow> unmarked ?i s))" for s0
      by (intro triple_bind [OF triple_pre [OF cc]] triple_prod triple_return) auto
  qed (auto intro!: triple_return simp: unmarked_def)
  have body: "triple ?K (wal_appendLocked lib env) ?Q"
    if "validateEnvelope env = None"
    unfolding wal_appendLocked_def State_Monad.bind_assoc [symmetric]
    by (rule triple_bind [OF clean]) (auto intro!: triple_option triple_return triple_pre [OF store [OF that]])
  note keep = files.keeps_ctx_Err [OF index_wf, unfolded keeps_def] files.keeps_cleanupOrphans [unfolded keeps_def]
  show ?thesis
    unfolding wal_Append_def and_then_def
    by (intro body triple_bind [OF keep(1)] triple_option triple_return triple_gets_bind triple_if
        triple_bind [OF triple_pre [OF keep(2)]]) (auto intro: body)
qed

section \<open>Entries at rest\<close>

definition acknowledged :: "wal_lib \<Rightarrow> Envelope \<Rightarrow> pendingEntry \<Rightarrow> dfile \<Rightarrow> Store \<Rightarrow> bool" where
  "acknowledged lib env e x s \<longleftrightarrow> map_of (st_pending s) (env_ID env) = Some e \<and> pe_durable e \<and>
     \<not> retiring (st_completed s) (env_ID env) e \<and> stored (pe_name e) x (st_disk s) \<and> f_synced x \<and>
     decodeRecord lib (f_data x) = Inr \<lparr>sr_Sequence = pe_sequence e, sr_Envelope = env\<rparr>"

lemma acked_acknowledged:
  assumes "held (files_ok lib) s" "acked lib env s"
  shows "\<exists>env' e x. acknowledged lib env' e x s \<and> envelopesEquivalent env' env"
proof -
  from assms(2) obtain e x rec where e: "map_of (st_pending s) (env_ID env) = Some e" "pe_durable e"
      "map_of (d_cur (st_disk s)) (pe_name e) = Some x" "decodeRecord lib (f_data x) = Inr rec"
      "envelopesEquivalent (sr_Envelope rec) env" "map_of (st_completed s) (env_ID env) = None"
    by (auto simp: acked_def)
  then have open': "\<not> retiring (st_completed s) (env_ID env) e" by (simp add: retiring_def)
  with assms(1) e(1) have "file_in_place lib (env_ID env) e (st_disk s)"
    by (auto simp: held_def files_ok_def)
  then obtain bytes env' where f: "map_of (d_cur (st_disk s)) (pe_name e) = Some \<lparr>f_data = bytes, f_synced = True\<rparr>"
      "decodeRecord lib bytes = Inr \<lparr>sr_Sequence = pe_sequence e, sr_Envelope = env'\<rparr>" "env_ID env' = env_ID env"
      "pe_durable e \<longrightarrow> d_maybe (st_disk s) (pe_name e) = {Some \<lparr>f_data = bytes, f_synced = True\<rparr>}"
    unfolding file_in_place_def by blast
  from e(3) f(1) have x: "x = \<lparr>f_data = bytes, f_synced = True\<rparr>" by simp
  with e(4) f(2) have "rec = \<lparr>sr_Sequence = pe_sequence e, sr_Envelope = env'\<rparr>" by simp
  with e(5) have "envelopesEquivalent env' env" by simp
  moreover have "acknowledged lib env' e x s"
    unfolding acknowledged_def stored_def using e(1,2,3) f open' x by simp
  ultimately show ?thesis by blast
qed

text \<open>Calls that do not ask for the completion of an envelope.\<close>

fun harmless :: "wal_lib \<Rightarrow> Envelope \<Rightarrow> wal_call \<Rightarrow> bool" where
  "harmless lib env (CallAppend e) \<longleftrightarrow> append_ok lib e"
| "harmless lib env (CallCommit i) \<longleftrightarrow> i \<noteq> env_ID env"
| "harmless lib env (CallReplay handler) \<longleftrightarrow> handler env \<noteq> None"
| "harmless lib env (CallCommitPrepared g) \<longleftrightarrow> gen_id g \<noteq> env_ID env"
| "harmless lib env (CallExpire cutoff eligible) \<longleftrightarrow>
     cutoff \<le> env_Accepted env \<or> \<not> eligible (env_Tailnet env) (env_Source env) (env_Signal env)"
| "harmless lib env _ \<longleftrightarrow> True"

lemma readEntry_spec:
  "triple (\<lambda>s. map_of (d_cur (st_disk s)) (pe_name e) = Some x) (wal_readEntry what lib i e)
     (\<lambda>r _. case r of Inl _ \<Rightarrow> True | Inr (rec, _) \<Rightarrow> decodeRecord lib (f_data x) = Inr rec)"
  unfolding wal_readEntry_def
  by (rule triple_bind [OF readBounded_spec])
    (auto intro!: triple_return simp: triple_def split: sum.splits)

lemma protected_reads:
  assumes "decodeRecord lib (f_data x) = Inr rec" "R rec"
  shows "triple (\<lambda>s. held (protected i e x) s \<and> map_of (st_pending s) i = Some e') (wal_readEntry what lib i e')
    (\<lambda>r _. case r of Inl _ \<Rightarrow> True | Inr (rec', _) \<Rightarrow> R rec')"
  using readEntry_spec [of e x what lib i] assms
  unfolding triple_def held_def protected_def kept_def stored_def
  by (fastforce split: sum.splits)

lemma protected_expire:
  assumes "decodeRecord lib (f_data x) = Inr \<lparr>sr_Sequence = q, sr_Envelope = env\<rparr>"
    "harmless lib env (CallExpire cutoff eligible)" "env_ID env = i"
  shows "keeps (\<lambda>s. wf s \<and> held (protected i e x) s) (wal_ExpireBefore lib cutoff eligible)"
proof -
  let ?K = "\<lambda>s. wf s \<and> held (protected i e x) s"
  let ?sp = "\<lambda>r. cutoff \<le> env_Accepted (sr_Envelope r) \<or>
    \<not> eligible (env_Tailnet (sr_Envelope r)) (env_Source (sr_Envelope r)) (env_Signal (sr_Envelope r))"
  have only: "e' = e" if "?K s" "(i, e') \<in> set (expire_candidates s)" for s e'
    using that by (auto simp: expire_candidates_def held_def protected_def wf_def pending_wf_def
        dest: map_of_is_SomeI [rotated])
  have "triple ?K (wal_readEntry expiry_mismatch lib i e) (\<lambda>r _. spared cutoff eligible r)"
    using protected_reads [OF assms(1), of ?sp i e e expiry_mismatch] assms(2)
    unfolding triple_def spared_def held_def protected_def by auto
  with only have "keeps ?K (expire_loop lib cutoff eligible (expire_candidates s))" if "?K s" for s
    using that by (intro prot.keeps_expire_loop) blast
  then show ?thesis
    unfolding wal_ExpireBefore_def
    by (intro keeps_if keeps_bind keeps_option keeps_return prot.keeps_ctx_Err index_wf keeps_gets_bind)
qed

lemma protected_exec:
  assumes rec: "decodeRecord lib (f_data x) = Inr \<lparr>sr_Sequence = q, sr_Envelope = env\<rparr>"
    and "harmless lib env c" "env_ID env = i"
  shows "keeps (\<lambda>s. wf s \<and> held (protected i e x) s) (wal_exec lib c)"
proof (cases c)
  case (CallCommit j)
  with assms prot.keeps_commitGeneration [of j i] show ?thesis
    by (auto simp: wal_Commit_def intro!: hoare)
next
  case (CallReplay handler)
  have "refuses (\<lambda>s. wf s \<and> held (protected i e x) s) (\<lambda>j. j \<noteq> i) lib handler"
    unfolding refuses_def
    using protected_reads [OF rec, of "\<lambda>r. handler (sr_Envelope r) \<noteq> None" i e] assms(2) CallReplay
    by (auto simp: triple_def)
  with CallReplay show ?thesis by (auto intro!: keeps_discard prot.keeps_Replay)
next
  case (CallExpire cutoff eligible)
  with assms protected_expire [OF rec] show ?thesis by (auto intro!: keeps_discard)
qed (use assms in \<open>auto intro!: keeps_discard prot.keeps_Append prot.keeps_PrepareWindow prot.keeps_CommitPrepared
      prot.keeps_ReleasePrepared prot.keeps_Close\<close>)

lemma files_exec:
  assumes "call_ok lib c"
  shows "keeps (\<lambda>s. wf s \<and> held (files_ok lib) s) (wal_exec lib c)"
proof -
  have "keeps (\<lambda>s. wf s \<and> held (files_ok lib) s) (wal_ExpireBefore lib cutoff eligible)" for cutoff eligible
    unfolding wal_ExpireBefore_def
    by (intro hoare keeps_gets index_wf files.keeps_expire_loop) auto
  with assms show ?thesis
    by (cases c) (auto intro!: hoare files.keeps_Append files.keeps_PrepareWindow files.keeps_CommitPrepared
        files.keeps_ReleasePrepared files.keeps_Close files.keeps_Replay files.keeps_commitGeneration
        simp: wal_Commit_def refuses_def)
qed

text \<open>Start recording the possible durable states afresh.\<close>

definition watch :: "Store \<Rightarrow> Store" where
  "watch s = s\<lparr>st_disk := (st_disk s)\<lparr>d_past := []\<rparr>\<rparr>"

lemma acknowledged_survives_run:
  assumes "wf s" "acknowledged lib env e x s" "\<forall>c \<in> set cs. harmless lib env c"
    and run: "run_state (wal_calls lib cs) (watch s) = (u, s')"
  shows "acknowledged lib env e x s'"
    and "\<forall>m \<in> set (d_maybe (st_disk s') # d_past (st_disk s')). \<forall>img. crash_image m img \<longrightarrow> img (pe_name e) = Some (f_data x)"
proof -
  let ?i = "env_ID env"
  from assms(2) have rec: "decodeRecord lib (f_data x) = Inr \<lparr>sr_Sequence = pe_sequence e, sr_Envelope = env\<rparr>"
    by (simp add: acknowledged_def)
  from assms(1,2) have start: "wf (watch s) \<and> held (protected ?i e x) (watch s)"
    by (auto simp: wf_def watch_def acknowledged_def held_def protected_def kept_def stored_def)
  have "keeps (\<lambda>s. wf s \<and> held (protected ?i e x) s) (wal_calls lib cs)"
    by (rule keeps_calls) (rule protected_exec [OF rec bspec [OF assms(3)] refl])
  from keeps_elim [OF this start run] have end': "wf s' \<and> held (protected ?i e x) s'" .
  with assms(2) show "acknowledged lib env e x s'"
    by (auto simp: acknowledged_def held_def protected_def kept_def)
  from end' have "m (pe_name e) = {Some x}" if "m \<in> set (d_maybe (st_disk s') # d_past (st_disk s'))" for m
    using that by (auto simp: held_def protected_def kept_def stored_def)
  moreover from assms(2) have "f_synced x" by (simp add: acknowledged_def)
  ultimately show "\<forall>m \<in> set (d_maybe (st_disk s') # d_past (st_disk s')).
      \<forall>img. crash_image m img \<longrightarrow> img (pe_name e) = Some (f_data x)"
    by (intro ballI allI impI) (rule crash_image_stored)
qed

end
