(* ===== verification/Ingress_Wal_Recovery.thy ===== *)
theory Ingress_Wal_Recovery
  imports Ingress_Wal_Durable
begin

text \<open>
  Opening a write-ahead log (\<open>open\<close>, \<open>sweepStages\<close>, \<open>load\<close> and the recovery barrier of
  \<open>src/internal/ingresswal/wal.go\<close>). A successful open establishes every invariant the rest of the
  development starts from, and recovers every entry file the directory holds: an acknowledged entry
  that survives a crash is pending and durable again.
\<close>

section \<open>Names are canonical\<close>

lemma digit_inject: "is_digit c \<Longrightarrow> is_digit d \<Longrightarrow> (of_char c :: nat) - 48 = of_char d - 48 \<Longrightarrow> c = d"
  unfolding is_digit_def by (metis char_of_char le_add_diff_inverse)

lemma last_digit: "10 * a + x = 10 * b + y \<Longrightarrow> x < 10 \<Longrightarrow> y < 10 \<Longrightarrow> a = b \<and> x = (y :: nat)"
  by presburger

lemma dec_value_inject:
  "length s = length t \<Longrightarrow> list_all is_digit s \<Longrightarrow> list_all is_digit t \<Longrightarrow> dec_value s = dec_value t \<Longrightarrow> s = t"
proof (induction s arbitrary: t rule: rev_induct)
  case (snoc c s)
  from snoc.prems(1) obtain t' d where t: "t = t' @ [d]" by (cases t rule: rev_exhaust) auto
  have bound: "is_digit x \<Longrightarrow> (of_char x :: nat) - 48 < 10" for x by (auto simp: is_digit_def)
  from snoc.prems t have "10 * dec_value s + (of_char c - 48) = 10 * dec_value t' + (of_char d - 48)"
    by (simp add: dec_value_append)
  moreover from snoc.prems t have digits: "is_digit c" "is_digit d" by simp_all
  ultimately have "dec_value s = dec_value t' \<and> (of_char c :: nat) - 48 = of_char d - 48"
    using bound [OF digits(1)] bound [OF digits(2)] last_digit by blast
  with snoc digits t digit_inject show ?case by simp
qed simp

lemma parseSequencedName_sound:
  assumes "parseSequencedName name pre suf = Some (q, i)"
  shows "name = pre @ zero_padded 20 q @ ''-'' @ i @ suf \<and> validID i \<and> 0 < q \<and> q \<le> MaxUint64"
proof -
  from assms obtain v where v: "name = pre @ v @ suf" "length v = 85" "v ! 20 = CHR ''-''"
      "strconv_ParseUint 64 (take 20 v) = Some q" "i = drop 21 v" "0 < q" "validID i"
    by (auto simp: parseSequencedName_def CutPrefix_Some_iff CutSuffix_Some_iff Let_def sequenceDigits_def idLength_def
        split: option.splits if_splits)
  then have q: "dec_value (take 20 v) = q" "list_all is_digit (take 20 v)" "q < 2 ^ 64"
    by (auto simp: strconv_ParseUint_def split: if_splits)
  have "length (zero_padded 20 q) = 20" using q(3) by (intro length_zero_padded) auto
  with q v(2) have "zero_padded 20 q = take 20 v"
    by (intro dec_value_inject zero_padded_digits) simp_all
  moreover have "v = take 20 v @ [v ! 20] @ drop 21 v"
    using v(2) id_take_nth_drop [of 20 v] by simp
  ultimately show ?thesis using v q(3) by (simp add: MaxUint64_def)
qed

lemma parseEntryName_sound:
  "parseEntryName n = Some (q, i) \<Longrightarrow> n = entryName q i \<and> validID i \<and> 0 < q \<and> q \<le> MaxUint64"
  using parseSequencedName_sound [of n "[]" entrySuffix] by (simp add: parseEntryName_def entryName_def)

lemma parseMarkerName_sound:
  "parseMarkerName n = Some (q, i) \<Longrightarrow> n = markerName q i \<and> validID i \<and> 0 < q \<and> q \<le> MaxUint64"
  using parseSequencedName_sound [of n completionPrefix completionSuffix] by (simp add: parseMarkerName_def markerName_def)

section \<open>Reading the directory\<close>

interpretation frozen: disk_inv "\<lambda>d. d_cur d = D" "\<lambda>_. False" for D
  by unfold_locales (auto simp: disk_barrier_def Let_def)

abbreviation cur :: "(string, dfile) gomap \<Rightarrow> Store \<Rightarrow> bool" where
  "cur D s \<equiv> d_cur (st_disk s) = D"

lemma cur_keep:
  assumes "disk_only m" "disk_free F" "keeps (cur D) m"
  shows "keeps (\<lambda>s. F s \<and> cur D s) m"
  using disk_only_keeps [OF assms(1,2)] assms(3) by (rule keeps_conj)

lemma cur_requireOwned: "keeps (cur D) (wal_requireOwnedRegularAt n)"
  unfolding wal_requireOwnedRegularAt_def by (intro hoare)

lemma cur_readBounded:
  "triple (cur D) (wal_readBounded n)
     (\<lambda>r s. cur D s \<and> (case r of Inl _ \<Rightarrow> True | Inr b \<Rightarrow> \<exists>x. map_of D n = Some x \<and> b = f_data x))"
proof -
  have "keeps (cur D) (wal_readBounded n)"
    unfolding wal_readBounded_def by (intro hoare keeps_gets keeps_on_disk)
  moreover have "triple (cur D) (wal_readBounded n)
      (\<lambda>r s. case r of Inl _ \<Rightarrow> True | Inr b \<Rightarrow> \<exists>x. map_of D n = Some x \<and> b = f_data x)"
    using readBounded_spec [of n "map_of D n"] unfolding triple_def by (fastforce split: sum.splits)
  ultimately show ?thesis by (simp add: triple_def keeps_def)
qed

text \<open>The name pass: what it has collected from the directory \<open>D\<close>.\<close>

definition entries_ok :: "nat \<Rightarrow> (string, string) gomap \<Rightarrow> nat list \<Rightarrow> bool" where
  "entries_ok k E qs \<longleftrightarrow> gomap_ok E \<and>
     (\<forall>i n. map_of E i = Some n \<longrightarrow> (\<exists>q. parseEntryName n = Some (q, i) \<and> q \<le> k \<and> q \<in> set qs)) \<and>
     (\<forall>i j n m q. map_of E i = Some n \<longrightarrow> map_of E j = Some m \<longrightarrow> parseEntryName n = Some (q, i) \<longrightarrow>
        parseEntryName m = Some (q, j) \<longrightarrow> i = j)"

definition names_inv :: "int \<times> int \<Rightarrow> (string, dfile) gomap \<Rightarrow> (string, string) gomap \<Rightarrow> nat list \<Rightarrow> Store \<Rightarrow> bool" where
  "names_inv cap D E qs s \<longleftrightarrow> st_pending s = [] \<and> st_orphanStages s = [] \<and> acct cap 0 s \<and>
     st_nextEntry s \<le> MaxUint64 \<and> st_nextMarker s \<le> MaxUint64 \<and> completed_wf (st_nextMarker s) (st_completed s) \<and>
     (\<forall>i m. map_of (st_completed s) i = Some m \<longrightarrow> map_of D (cm_name m) \<noteq> None) \<and>
     entries_ok (st_nextEntry s) E qs"

lemma disk_free_names_inv: "disk_free (names_inv cap D E qs)"
  by (simp add: disk_free_def names_inv_def acct_def)

lemma completed_wf_load:
  "completed_wf k C \<Longrightarrow> validID i \<Longrightarrow> 0 < q \<Longrightarrow>
   completed_wf (max k q) (AList.update i \<lparr>cm_name = markerName q i, cm_sequence = q, cm_entrySequence = z\<rparr> C)"
  by (auto simp: completed_wf_def update_conv' le_max_iff_disj split: if_splits)

lemma loadMarker_spec:
  assumes "map_of D name \<noteq> None"
  shows "keeps (\<lambda>s. names_inv cap D E qs s \<and> cur D s) (wal_loadMarker name ms)"
proof -
  let ?K = "\<lambda>s. names_inv cap D E qs s \<and> cur D s"
  note free = disk_free_names_inv [of cap D E qs]
  have read: "keeps ?K (wal_readBounded name)"
    using cur_readBounded [of D name]
    by (intro cur_keep [OF disk_only_readBounded free]) (auto simp: keeps_def triple_def)
  have own: "keeps ?K (wal_requireOwnedRegularAt name)"
    by (rule cur_keep [OF disk_only_requireOwned free cur_requireOwned])
  have add: "keeps ?K (modify (\<lambda>s. s\<lparr>st_completed := AList.update i
       \<lparr>cm_name = name, cm_sequence = q, cm_entrySequence = z\<rparr> (st_completed s), st_nextMarker := max (st_nextMarker s) q\<rparr>))"
    if "parseMarkerName name = Some (q, i)" for q i z
  proof (rule keeps_modify)
    from parseMarkerName_sound [OF that] have n: "name = markerName q i" "validID i" "0 < q" "q \<le> MaxUint64" by auto
    show "?K (s\<lparr>st_completed := AList.update i \<lparr>cm_name = name, cm_sequence = q, cm_entrySequence = z\<rparr> (st_completed s),
        st_nextMarker := max (st_nextMarker s) q\<rparr>)" if "?K s" for s
      using that assms completed_wf_load [OF _ n(2,3)] n(4) unfolding n(1)
      by (auto simp: names_inv_def acct_def update_conv')
  qed
  show ?thesis
    unfolding wal_loadMarker_def wal_readMarker_def
    by (intro hoare keeps_gets read own add) auto
qed

lemma entries_ok_add:
  assumes "entries_ok k E qs" "parseEntryName n = Some (q, i)" "q \<notin> set qs" "map_of E i = None"
  shows "entries_ok (max k q) (AList.update i n E) (q # qs)"
proof -
  have old: "\<exists>p. parseEntryName m = Some (p, j) \<and> p \<le> max k q \<and> p \<noteq> q \<and> p \<in> set qs" if "map_of E j = Some m" for j m
    using assms(1,3) that unfolding entries_ok_def by fastforce
  have "\<exists>p. parseEntryName m = Some (p, j) \<and> p \<le> max k q \<and> p \<in> set (q # qs)"
    if "map_of (AList.update i n E) j = Some m" for j m
    using that old [of j m] assms(2) by (auto simp: update_conv' split: if_splits)
  moreover have "j = l" if "map_of (AList.update i n E) j = Some m" "map_of (AList.update i n E) l = Some m'"
    "parseEntryName m = Some (p, j)" "parseEntryName m' = Some (p, l)" for j l m m' p
    using that old [of j m] old [of l m'] assms(1,2) unfolding entries_ok_def
    by (auto simp: update_conv' split: if_splits)
  ultimately show ?thesis using assms(1) unfolding entries_ok_def by simp
qed

definition names_result ::
  "int \<times> int \<Rightarrow> (string, dfile) gomap \<Rightarrow> string list \<Rightarrow> (string, string) gomap \<Rightarrow> wal_error + (string, string) gomap \<Rightarrow> Store \<Rightarrow> bool" where
  "names_result cap D names E r s \<longleftrightarrow>
     (case r of Inl _ \<Rightarrow> True
      | Inr E' \<Rightarrow> (\<exists>qs. names_inv cap D E' qs s) \<and> cur D s \<and> (\<forall>i n. map_of E i = Some n \<longrightarrow> map_of E' i = Some n) \<and>
          (\<forall>n \<in> set names. strings_HasSuffix n entrySuffix \<longrightarrow>
             (\<exists>q i. parseEntryName n = Some (q, i) \<and> map_of E' i = Some n)))"

lemma names_result_skip:
  "names_result cap D names E r s \<Longrightarrow> \<not> strings_HasSuffix n entrySuffix \<Longrightarrow> names_result cap D (n # names) E r s"
  by (auto simp: names_result_def split: sum.splits)

lemma loadNames_spec:
  assumes "\<forall>n \<in> set names. map_of D n \<noteq> None"
  shows "triple (\<lambda>s. names_inv cap D E qs s \<and> cur D s) (wal_loadNames names E qs ms) (names_result cap D names E)"
  using assms
proof (induction names arbitrary: E qs ms)
  case Nil
  then show ?case by (auto intro!: triple_return simp: names_result_def)
next
  case (Cons n names)
  show ?case
  proof (cases "strings_HasSuffix n entrySuffix")
    case True
    have entry: "triple (\<lambda>s. names_inv cap D E qs s \<and> cur D s)
        (State_Monad.bind (modify (\<lambda>s. s\<lparr>st_nextEntry := max (st_nextEntry s) q\<rparr>))
          (\<lambda>_. wal_loadNames names (AList.update i n E) (q # qs) ms)) (names_result cap D (n # names) E)"
      if p: "parseEntryName n = Some (q, i)" "q \<notin> set qs" "map_of E i = None" for q i
    proof (rule triple_bind [where R = "\<lambda>_ s. names_inv cap D (AList.update i n E) (q # qs) s \<and> cur D s"])
      show "triple (\<lambda>s. names_inv cap D (AList.update i n E) (q # qs) s \<and> cur D s)
          (wal_loadNames names (AList.update i n E) (q # qs) ms) (names_result cap D (n # names) E)"
      proof (rule triple_post [OF Cons.IH])
        show "names_result cap D (n # names) E r s" if "names_result cap D names (AList.update i n E) r s" for r s
          using that p unfolding names_result_def
          by (auto simp: update_conv' split: sum.splits) (metis option.distinct(1))+
      qed (use Cons.prems in auto)
      show "triple (\<lambda>s. names_inv cap D E qs s \<and> cur D s) (modify (\<lambda>s. s\<lparr>st_nextEntry := max (st_nextEntry s) q\<rparr>))
          (\<lambda>_ s. names_inv cap D (AList.update i n E) (q # qs) s \<and> cur D s)"
        using entries_ok_add [OF _ p] parseEntryName_sound [OF p(1)]
        by (intro triple_modify) (auto simp: names_inv_def acct_def)
    qed
    have "triple (\<lambda>s. names_inv cap D E qs s \<and> cur D s) (ret (Inl e)) (names_result cap D (n # names) E)" for e
      by (rule triple_return) (simp add: names_result_def)
    with True entry show ?thesis
      unfolding wal_loadNames.simps by (auto split: option.splits)
  next
    case False
    note skip = triple_post [OF Cons.IH [of E qs] names_result_skip [OF _ False]]
    have "triple (\<lambda>s. names_inv cap D E qs s \<and> cur D s) (ret (Inl e)) (names_result cap D (n # names) E)" for e
      by (rule triple_return) (simp add: names_result_def)
    with False Cons.prems skip loadMarker_spec [of D n cap E qs ms] show ?thesis
      unfolding wal_loadNames.simps keeps_def
      by (auto intro!: triple_if triple_bind [where R = "\<lambda>_ s. names_inv cap D E qs s \<and> cur D s"] triple_sum)
  qed
qed

text \<open>The record pass: the entries read so far, all but those still to come in \<open>rest\<close>.\<close>

definition read_from :: "wal_lib \<Rightarrow> (string, dfile) gomap \<Rightarrow> string \<Rightarrow> pendingEntry \<Rightarrow> bool" where
  "read_from lib D i e \<longleftrightarrow> parseEntryName (pe_name e) = Some (pe_sequence e, i) \<and>
     (\<exists>x env. map_of D (pe_name e) = Some x \<and>
        decodeRecord lib (f_data x) = Inr \<lparr>sr_Sequence = pe_sequence e, sr_Envelope = env\<rparr> \<and> env_ID env = i \<and>
        pe_size e = int (length (f_data x)))"

definition load_inv ::
  "int \<times> int \<Rightarrow> wal_lib \<Rightarrow> (string, dfile) gomap \<Rightarrow> (string, string) gomap \<Rightarrow> (string, string) gomap \<Rightarrow> Store \<Rightarrow> bool" where
  "load_inv cap lib D E rest s \<longleftrightarrow> acct cap 0 s \<and> st_orphanStages s = [] \<and>
     st_nextEntry s \<le> MaxUint64 \<and> st_nextMarker s \<le> MaxUint64 \<and> completed_wf (st_nextMarker s) (st_completed s) \<and>
     (\<forall>i m. map_of (st_completed s) i = Some m \<longrightarrow> map_of D (cm_name m) \<noteq> None) \<and>
     (\<exists>qs. entries_ok (st_nextEntry s) E qs) \<and>
     (\<forall>i e. map_of (st_pending s) i = Some e \<longrightarrow> read_from lib D i e) \<and>
     gomap_ok rest \<and> (\<forall>i n. map_of rest i = Some n \<longrightarrow> map_of E i = Some n) \<and>
     (\<forall>i. map_option pe_name (map_of (st_pending s) i) = (if map_of rest i = None then map_of E i else None))"

lemma disk_free_load_inv: "disk_free (load_inv cap lib D E rest)"
  by (simp add: disk_free_def load_inv_def acct_def)

lemma load_inv_start: "names_inv cap D E qs s \<Longrightarrow> load_inv cap lib D E E s"
  by (auto simp: names_inv_def load_inv_def entries_ok_def)

lemma acct_load:
  assumes "reserved cap i k s" "pe_size e = k"
  shows "acct cap 0 (s\<lparr>st_pending := AList.update i e (st_pending s)\<rparr>)"
  using acct_enter [OF assms, where o' = None and q = 0] by (simp add: acct_def)

lemma load_inv_step:
  assumes "load_inv cap lib D E ((i, n) # rest) s0" "reserved cap i (int (length (f_data x))) s"
    and s: "s = s0\<lparr>st_bytes := b\<rparr>" and p: "parseEntryName n = Some (q, i)" and x: "map_of D n = Some x"
    and rec: "decodeRecord lib (f_data x) = Inr \<lparr>sr_Sequence = q, sr_Envelope = env\<rparr>" "env_ID env = i"
    and e: "e = \<lparr>pe_name = n, pe_size = int (length (f_data x)), pe_sequence = q, pe_durable = False\<rparr>"
  shows "load_inv cap lib D E rest (s\<lparr>st_pending := AList.update i e (st_pending s)\<rparr>)"
proof -
  let ?P = "AList.update i e (st_pending s0)"
  have new: "read_from lib D i e" unfolding read_from_def e using p x rec by simp
  from assms(1) have none: "map_of rest i = None" by (simp add: load_inv_def map_of_eq_None_iff)
  from assms(1) have sub: "map_of ((i, n) # rest) j = Some m \<longrightarrow> map_of E j = Some m" for j m
    unfolding load_inv_def by blast
  from sub [of i n] have E: "map_of E i = Some n" by simp
  have rest: "map_of E j = Some m" if "map_of rest j = Some m" for j m
    using sub [of j m] that none by (cases "j = i") auto
  have "acct cap 0 (s\<lparr>st_pending := AList.update i e (st_pending s)\<rparr>)"
    by (rule acct_load [OF assms(2)]) (simp add: e)
  moreover have "map_option pe_name (map_of ?P j) = (if map_of rest j = None then map_of E j else None)" for j
  proof (cases "j = i")
    case False
    from assms(1) have "map_option pe_name (map_of (st_pending s0) j) =
        (if map_of ((i, n) # rest) j = None then map_of E j else None)" unfolding load_inv_def by blast
    with False show ?thesis by (simp add: update_conv')
  qed (simp add: update_conv' none E e)
  moreover have "read_from lib D j f" if "map_of ?P j = Some f" for j f
    using that new assms(1) by (auto simp: load_inv_def update_conv' split: if_splits)
  ultimately show ?thesis
    using assms(1) rest unfolding load_inv_def s by simp
qed

lemma reserve_load:
  assumes "0 \<le> k"
  shows "triple (\<lambda>s. load_inv cap lib D E ((i, n) # rest) s \<and> cur D s) (wal_reserve k)
    (\<lambda>r s. r = None \<longrightarrow> (\<exists>s0 b. (load_inv cap lib D E ((i, n) # rest) s0 \<and> cur D s0) \<and> s = s0\<lparr>st_bytes := b\<rparr> \<and> reserved cap i k s))"
  unfolding wal_reserve_def
proof (rule triple_State, goal_cases)
  case (1 s)
  then have "map_option pe_name (map_of (st_pending s) i) = (if map_of ((i, n) # rest) i = None then map_of E i else None)"
    unfolding load_inv_def by blast
  then have "map_of (st_pending s) i = None" by simp
  moreover from 1 have "acct cap 0 s" by (simp add: load_inv_def)
  ultimately have "reserved cap i k (s\<lparr>st_bytes := st_bytes s + k\<rparr>)"
    if "\<not> st_MaxEntries s \<le> int (length (st_pending s))" "\<not> st_MaxBytes s - st_bytes s - st_orphanBytes s < k"
    using that assms by (auto simp: reserved_def acct_def)
  with 1 show ?case by auto
qed

lemma loadEntries_spec:
  "triple (\<lambda>s. load_inv cap lib D E rest s \<and> cur D s) (wal_loadEntries lib rest)
     (\<lambda>r s. r = None \<longrightarrow> load_inv cap lib D E [] s \<and> cur D s)"
proof (induction rest)
  case Nil
  then show ?case by (auto intro!: triple_return)
next
  case (Cons x rest)
  obtain i n where x: "x = (i, n)" by (cases x)
  let ?P = "\<lambda>s. load_inv cap lib D E ((i, n) # rest) s \<and> cur D s"
    and ?Q = "\<lambda>r s. r = None \<longrightarrow> load_inv cap lib D E [] s \<and> cur D s"
  note free = disk_free_load_inv [of cap lib D E "(i, n) # rest"]
  have own: "triple ?P (wal_requireOwnedRegularAt n) (\<lambda>_. ?P)"
    using cur_keep [OF disk_only_requireOwned free cur_requireOwned] by (simp add: keeps_def)
  have read: "triple ?P (wal_readBounded n)
      (\<lambda>r s. ?P s \<and> (case r of Inl _ \<Rightarrow> True | Inr b \<Rightarrow> \<exists>x. map_of D n = Some x \<and> b = f_data x))"
    using disk_only_keeps [OF disk_only_readBounded free] cur_readBounded [of D n]
    by (auto simp: keeps_def triple_def)
  have enter: "triple ?P (and_then (wal_reserve (int (length bytes))) (State_Monad.bind
      (modify (\<lambda>s. s\<lparr>st_pending := AList.update i \<lparr>pe_name = n, pe_size = int (length bytes), pe_sequence = q,
         pe_durable = False\<rparr> (st_pending s)\<rparr>)) (\<lambda>_. wal_loadEntries lib rest))) ?Q"
    if p: "parseEntryName n = Some (q, i)" and y: "map_of D n = Some y" "bytes = f_data y"
      and rec: "decodeRecord lib bytes = Inr rec" "\<not> (env_ID (sr_Envelope rec) \<noteq> i \<or> sr_Sequence rec \<noteq> q)"
    for q bytes y rec
  proof -
    from rec have r: "decodeRecord lib (f_data y) = Inr \<lparr>sr_Sequence = q, sr_Envelope = sr_Envelope rec\<rparr>"
        "env_ID (sr_Envelope rec) = i"
      by (simp_all add: y(2) [symmetric])
    have add: "triple (\<lambda>s. \<exists>s0 b. ?P s0 \<and> s = s0\<lparr>st_bytes := b\<rparr> \<and> reserved cap i (int (length bytes)) s)
        (modify (\<lambda>s. s\<lparr>st_pending := AList.update i \<lparr>pe_name = n, pe_size = int (length bytes), pe_sequence = q,
           pe_durable = False\<rparr> (st_pending s)\<rparr>)) (\<lambda>_ s. load_inv cap lib D E rest s \<and> cur D s)"
      unfolding y(2)
      by (rule triple_modify) (use load_inv_step [where cap = cap, OF _ _ refl p y(1) r refl] in auto)
    show ?thesis
      unfolding and_then_def
      by (intro triple_bind [OF reserve_load] triple_option triple_return triple_bind [OF triple_pre [OF add]] Cons) auto
  qed
  have found: "parseEntryName n = Some (q, i)" if "?P s" "parseEntryName n = Some (q, j)" for s q j
  proof -
    from that(1) have "map_of ((i, n) # rest) i = Some n \<longrightarrow> map_of E i = Some n" "\<exists>qs. entries_ok (st_nextEntry s) E qs"
      unfolding load_inv_def by blast+
    with that(2) show ?thesis by (fastforce simp: entries_ok_def)
  qed
  have stop: "triple ?P (ret (Some e)) ?Q" for e by (rule triple_return) simp
  show ?case
  proof (cases "\<exists>s q j. ?P s \<and> parseEntryName n = Some (q, j)")
    case True
    then obtain q where q: "parseEntryName n = Some (q, i)" using found by blast
    have body: "triple (\<lambda>s. ?P s \<and> (case r of Inl _ \<Rightarrow> True | Inr b \<Rightarrow> \<exists>x. map_of D n = Some x \<and> b = f_data x))
       (case r of Inl e \<Rightarrow> ret (Some e) | Inr bytes \<Rightarrow> (case decodeRecord lib bytes of Inl e \<Rightarrow> ret (Some e)
          | Inr record \<Rightarrow> if env_ID (sr_Envelope record) \<noteq> i \<or> sr_Sequence record \<noteq> q
              then ret (Some (CorruptError ''entry filename does not match record''))
              else and_then (wal_reserve (int (length bytes))) (State_Monad.bind
                (modify (\<lambda>s. s\<lparr>st_pending := AList.update i \<lparr>pe_name = n, pe_size = int (length bytes), pe_sequence = q,
                   pe_durable = False\<rparr> (st_pending s)\<rparr>)) (\<lambda>_. wal_loadEntries lib rest)))) ?Q" for r
    proof (cases "\<exists>b y. r = Inr b \<and> map_of D n = Some y \<and> b = f_data y")
      case True
      then obtain b y where r: "r = Inr b" and y: "map_of D n = Some y" "b = f_data y" by blast
      show ?thesis
        unfolding r sum.case
        by (intro triple_pre [OF triple_sum [of "decodeRecord lib b" ?P]] triple_if stop enter [OF q y]) auto
    next
      case False
      then show ?thesis using stop by (cases r) (auto simp: triple_def)
    qed
    show ?thesis
      unfolding x wal_loadEntries.simps q option.case prod.case and_then_def [of "wal_requireOwnedRegularAt n"]
      by (rule triple_bind [OF own], rule triple_option, rule triple_bind [OF read], rule body, rule stop)
  next
    case False
    then show ?thesis
      unfolding x wal_loadEntries.simps
      by (cases "parseEntryName n") (auto intro: stop simp: triple_def)
  qed
qed

section \<open>The barrier\<close>

definition made_durable :: "pending_map \<Rightarrow> pending_map" where
  "made_durable P = map (\<lambda>(i, entry). (i, entry\<lparr>pe_durable := True\<rparr>)) P"

lemma made_durable_lookup: "map_of (made_durable P) i = map_option (\<lambda>e. e\<lparr>pe_durable := True\<rparr>) (map_of P i)"
  by (simp add: made_durable_def map_of_map)

lemma made_durable_keys: "map fst (made_durable P) = map fst P"
  by (simp add: made_durable_def comp_def case_prod_unfold)

lemma acct_made_durable: "acct cap 0 (s\<lparr>st_pending := made_durable (st_pending s)\<rparr>) = acct cap 0 s"
proof -
  have "isum pe_size (made_durable P) = isum pe_size P"
    "length (made_durable P) = length P" for P
    by (induction P) (auto simp: made_durable_def)
  moreover have "(\<forall>(i, e) \<in> set (made_durable P). 0 \<le> pe_size e) = (\<forall>(i, e) \<in> set P. 0 \<le> pe_size e)" for P
    by (auto simp: made_durable_def)
  ultimately show ?thesis by (simp add: acct_def made_durable_keys)
qed

lemma load_inv_wf:
  assumes "load_inv cap lib D E [] s"
  shows "wf s"
proof -
  from assms obtain qs where E: "entries_ok (st_nextEntry s) E qs" by (auto simp: load_inv_def)
  have entry: "read_from lib D i e \<and> map_of E i = Some (pe_name e)" if "map_of (st_pending s) i = Some e" for i e
  proof -
    from assms have "map_option pe_name (map_of (st_pending s) i) = map_of E i" by (simp add: load_inv_def)
    with that assms show ?thesis by (auto simp: load_inv_def)
  qed
  have shape: "validID i \<and> 0 < pe_sequence e \<and> pe_sequence e \<le> st_nextEntry s \<and> pe_name e = entryName (pe_sequence e) i"
    if "map_of (st_pending s) i = Some e" for i e
    using entry [OF that] E parseEntryName_sound [of "pe_name e" "pe_sequence e" i]
    unfolding entries_ok_def read_from_def by fastforce
  have "i = j" if "map_of (st_pending s) i = Some e" "map_of (st_pending s) j = Some f" "pe_sequence e = pe_sequence f"
    for i j e f
    using entry [OF that(1)] entry [OF that(2)] that(3) E unfolding entries_ok_def read_from_def by metis
  with shape assms show ?thesis
    by (auto simp: wf_def pending_wf_def load_inv_def acct_def)
qed

text \<open>What the directory \<open>D\<close> gives after a successful open.\<close>

definition recovered :: "int \<times> int \<Rightarrow> wal_lib \<Rightarrow> (string, dfile) gomap \<Rightarrow> Store \<Rightarrow> bool" where
  "recovered cap lib D s \<longleftrightarrow> wf s \<and> held (files_ok lib) s \<and> acct cap 0 s \<and>
     (\<forall>i m. map_of (st_completed s) i = Some m \<longrightarrow> map_of D (cm_name m) \<noteq> None) \<and>
     (\<forall>n x. map_of D n = Some x \<longrightarrow> strings_HasSuffix n entrySuffix \<longrightarrow>
        (\<exists>i e. map_of (st_pending s) i = Some e \<and> pe_name e = n \<and> pe_durable e \<and> stored n x (st_disk s) \<and>
           read_from lib D i e))"

definition all_entries :: "(string, dfile) gomap \<Rightarrow> (string, string) gomap \<Rightarrow> bool" where
  "all_entries D E \<longleftrightarrow> (\<forall>n x. map_of D n = Some x \<longrightarrow> strings_HasSuffix n entrySuffix \<longrightarrow>
     (\<exists>q i. parseEntryName n = Some (q, i) \<and> map_of E i = Some n))"

definition synced_dir :: "(string, dfile) gomap \<Rightarrow> bool" where
  "synced_dir D \<longleftrightarrow> (\<forall>n x. map_of D n = Some x \<longrightarrow> strings_HasSuffix n entrySuffix \<longrightarrow>
     \<not> inStageNamespace n \<longrightarrow> f_synced x)"

lemma read_from_suffix:
  "read_from lib D i e \<Longrightarrow> strings_HasSuffix (pe_name e) entrySuffix \<and> \<not> inStageNamespace (pe_name e)"
  unfolding read_from_def using parseEntryName_sound entryName_suffix entry_not_stage by metis

lemma read_from_durable [simp]: "read_from lib D i (e\<lparr>pe_durable := b\<rparr>) = read_from lib D i e"
  by (simp add: read_from_def)

lemma barrier_recovers:
  assumes inv: "load_inv cap lib D E [] s" and dir: "cur D s" "all_entries D E" "synced_dir D" and "settled (st_disk s)"
  shows "recovered cap lib D (s\<lparr>st_pending := made_durable (st_pending s)\<rparr>)"
proof -
  let ?s = "s\<lparr>st_pending := made_durable (st_pending s)\<rparr>"
  have all: "read_from lib D i e" if "map_of (st_pending s) i = Some e" for i e
    using that inv by (auto simp: load_inv_def)
  have disk: "map_of (d_cur (st_disk s)) n = map_of D n" "d_maybe (st_disk s) n = {map_of D n}" for n
    using dir(1) assms(5) by (simp_all add: settled_def)
  have "file_in_place lib i e (st_disk s)" if "map_of (st_pending ?s) i = Some e" for i e
  proof -
    from that have r: "read_from lib D i e" using all by (auto simp: made_durable_lookup)
    then obtain x env where x: "map_of D (pe_name e) = Some x"
        "decodeRecord lib (f_data x) = Inr \<lparr>sr_Sequence = pe_sequence e, sr_Envelope = env\<rparr>" "env_ID env = i"
        "pe_size e = int (length (f_data x))" by (auto simp: read_from_def)
    moreover from x(1) read_from_suffix [OF r] dir(3) have "x = \<lparr>f_data = f_data x, f_synced = True\<rparr>"
      by (simp add: synced_dir_def)
    ultimately show ?thesis unfolding file_in_place_def disk by metis
  qed
  then have "held (files_ok lib) ?s" by (simp add: held_def files_ok_def)
  moreover from load_inv_wf [OF inv] have "wf ?s"
    by (auto simp: wf_def pending_wf_def made_durable_lookup made_durable_keys)
  moreover have "\<exists>i e. map_of (st_pending ?s) i = Some e \<and> pe_name e = n \<and> pe_durable e \<and> stored n x (st_disk ?s) \<and>
      read_from lib D i e" if nx: "map_of D n = Some x" "strings_HasSuffix n entrySuffix" for n x
  proof -
    from dir(2) nx obtain q i where "map_of E i = Some n" by (auto simp: all_entries_def)
    moreover from inv have "map_option pe_name (map_of (st_pending s) i) = map_of E i" by (simp add: load_inv_def)
    ultimately obtain e where "map_of (st_pending s) i = Some e" "pe_name e = n" by auto
    with all [OF this(1)] nx show ?thesis
      by (intro exI [of _ i] exI [of _ "e\<lparr>pe_durable := True\<rparr>"]) (simp add: made_durable_lookup stored_def disk)
  qed
  ultimately show ?thesis
    using inv by (auto simp: recovered_def load_inv_def acct_made_durable)
qed

lemma recoveryBarrier_spec:
  assumes "all_entries D E" "synced_dir D"
  shows "triple (\<lambda>s. load_inv cap lib D E [] s \<and> cur D s) wal_recoveryBarrier (\<lambda>r s. r = None \<longrightarrow> recovered cap lib D s)"
proof -
  let ?P = "\<lambda>s. load_inv cap lib D E [] s \<and> cur D s"
  have idle: "recovered cap lib D s" if "?P s" "st_pending s = []" for s
  proof -
    from that have "map_of E i = None" for i by (simp add: load_inv_def)
    with assms(1) have "\<not> strings_HasSuffix n entrySuffix" if "map_of D n = Some x" for n x
      using that unfolding all_entries_def by fastforce
    with that load_inv_wf [of cap lib D E s] show ?thesis
      by (auto simp: recovered_def load_inv_def held_def files_ok_def)
  qed
  have sync: "triple ?P wal_syncAndRevalidate (\<lambda>e s. ?P s \<and> (e = None \<longrightarrow> settled (st_disk s)))"
  proof -
    have "keeps (cur D) wal_syncAndRevalidate"
      unfolding wal_syncAndRevalidate_def wal_syncDir_def by (intro hoare keeps_on_disk)
    from cur_keep [OF disk_only_syncAndRevalidate disk_free_load_inv [of cap lib D E "[]"] this] syncAndRevalidate_settles
    show ?thesis by (auto simp: keeps_def triple_def)
  qed
  have mark: "triple (\<lambda>s. ?P s \<and> settled (st_disk s))
      (modify (\<lambda>s. s\<lparr>st_pending := map (\<lambda>(i, entry). (i, entry\<lparr>pe_durable := True\<rparr>)) (st_pending s)\<rparr>))
      (\<lambda>_. recovered cap lib D)"
    unfolding made_durable_def [symmetric]
    by (rule triple_modify) (use barrier_recovers assms in blast)
  show ?thesis
    unfolding wal_recoveryBarrier_def and_then_def
    by (intro triple_gets_bind triple_if triple_return triple_bind [OF triple_pre [OF sync]] triple_option
        triple_bind [OF triple_pre [OF mark]]) (use idle in auto)
qed

section \<open>Opening\<close>

definition blank :: "int \<times> int \<Rightarrow> Store \<Rightarrow> bool" where
  "blank cap s \<longleftrightarrow> st_pending s = [] \<and> st_completed s = [] \<and> st_orphanStages s = [] \<and> acct cap 0 s \<and>
     st_nextEntry s = 0 \<and> st_nextMarker s = 0"

lemma blank_names_inv: "blank cap s \<Longrightarrow> names_inv cap D [] [] s"
  by (simp add: blank_def names_inv_def entries_ok_def completed_wf_def)

lemma disk_free_blank: "disk_free (blank cap)"
  by (simp add: disk_free_def blank_def acct_def)

lemma disk_only_prod [disk_ops]: "(\<And>a b. disk_only (f a b)) \<Longrightarrow> disk_only (case x of (a, b) \<Rightarrow> f a b)"
  by (cases x) simp

lemma disk_only_sweep: "disk_only wal_sweepStages"
proof -
  have "disk_only (wal_sweepStages_loop ns g)" for ns g
    by (induction ns arbitrary: g) (auto intro!: disk_ops)
  then show ?thesis unfolding wal_sweepStages_def by (intro disk_ops)
qed

lemma sees_sweep:
  assumes "\<not> inStageNamespace n"
  shows "keeps (\<lambda>s. map_of (d_cur (st_disk s)) n = v) wal_sweepStages"
proof -
  let ?K = "\<lambda>s. map_of (d_cur (st_disk s)) n = v"
  have "keeps ?K (wal_sweepStages_loop ns g)" for ns g
  proof (induction ns arbitrary: g)
    case (Cons m ns)
    have "keeps ?K (on_disk (disk_remove m))" if "inStageNamespace m"
      using keeps_on_disk [OF sees.keeps_remove [of m n v]] that assms by auto
    then show ?case unfolding wal_sweepStages_loop.simps by (intro hoare Cons) auto
  qed (simp add: keeps_return)
  then show ?thesis
    unfolding wal_sweepStages_def wal_syncDir_def by (intro hoare keeps_on_disk)
qed

lemma load_spec:
  "triple (\<lambda>s. blank cap s \<and> cur D s) (wal_load lib)
     (\<lambda>r s. r = None \<longrightarrow> (\<exists>E. (load_inv cap lib D E [] s \<and> cur D s) \<and> all_entries D E))"
proof -
  have list: "triple (\<lambda>s. blank cap s \<and> cur D s) (on_disk disk_readDir)
      (\<lambda>r s. (names_inv cap D [] [] s \<and> cur D s) \<and> (r = None \<or> r = Some (map fst D)))"
  proof -
    have "keeps (\<lambda>s. blank cap s \<and> cur D s) (on_disk disk_readDir)"
      by (intro cur_keep [OF disk_only_on_disk disk_free_blank] keeps_on_disk frozen.keeps_readDir)
    moreover have "triple (\<lambda>s. blank cap s \<and> cur D s) (on_disk disk_readDir) (\<lambda>r s. r = None \<or> r = Some (map fst D))"
      by (auto simp: triple_def on_disk_def disk_readDir_def disk_outcome_def State_Monad.bind_def split: list.splits)
    ultimately show ?thesis using blank_names_inv by (simp add: keeps_def triple_def)
  qed
  have names: "triple (\<lambda>s. names_inv cap D [] [] s \<and> cur D s) (State_Monad.bind (wal_loadNames (map fst D) [] [] [])
      (\<lambda>r. case r of Inl e \<Rightarrow> ret (Some e) | Inr entryNames \<Rightarrow> wal_loadEntries lib entryNames))
      (\<lambda>r s. r = None \<longrightarrow> (\<exists>E. (load_inv cap lib D E [] s \<and> cur D s) \<and> all_entries D E))"
  proof (rule triple_bind [OF loadNames_spec])
    show "\<forall>n \<in> set (map fst D). map_of D n \<noteq> None" by (auto simp: map_of_eq_None_iff)
    fix r :: "wal_error + (string, string) gomap"
    show "triple (names_result cap D (map fst D) [] r) (case r of Inl e \<Rightarrow> ret (Some e) | Inr E \<Rightarrow> wal_loadEntries lib E)
      (\<lambda>r s. r = None \<longrightarrow> (\<exists>E. (load_inv cap lib D E [] s \<and> cur D s) \<and> all_entries D E))"
    proof (cases r)
      case (Inr E)
      have "all_entries D E" if "names_result cap D (map fst D) [] r s" for s
        unfolding all_entries_def
      proof (intro allI impI)
        fix n x
        assume "map_of D n = Some x" "strings_HasSuffix n entrySuffix"
        moreover from this(1) have "n \<in> set (map fst D)" by (metis map_of_SomeD fst_conv image_eqI list.set_map)
        ultimately show "\<exists>q i. parseEntryName n = Some (q, i) \<and> map_of E i = Some n"
          using that by (auto simp: names_result_def Inr)
      qed
      moreover have "load_inv cap lib D E E s \<and> cur D s" if "names_result cap D (map fst D) [] r s" for s
        using that load_inv_start [of cap D E] by (auto simp: names_result_def Inr)
      ultimately show ?thesis
        using loadEntries_spec [of cap lib D E E] unfolding Inr sum.case triple_def by blast
    qed (auto intro: triple_return)
  qed
  show ?thesis
    unfolding wal_load_def
  proof (rule triple_bind [OF list])
    fix r :: "string list option"
    show "triple (\<lambda>s. (names_inv cap D [] [] s \<and> cur D s) \<and> (r = None \<or> r = Some (map fst D)))
      (case r of None \<Rightarrow> ret (Some (PlainError ''ingress WAL list directory'')) | Some ns \<Rightarrow>
         State_Monad.bind (wal_loadNames ns [] [] []) (\<lambda>r. case r of Inl e \<Rightarrow> ret (Some e) | Inr E \<Rightarrow> wal_loadEntries lib E))
      (\<lambda>r s. r = None \<longrightarrow> (\<exists>E. (load_inv cap lib D E [] s \<and> cur D s) \<and> all_entries D E))"
      using names by (cases r) (auto intro: triple_return simp: triple_def)
  qed
qed

lemma disk_only_lock: "disk_only wal_acquireLock"
  unfolding wal_acquireLock_def by (intro disk_ops)

lemma disk_only_hold: "disk_only wal_holdDirectory"
  unfolding wal_holdDirectory_def wal_childDirectory_def by (intro disk_ops)

lemma sees_hold: "keeps (\<lambda>s. map_of (d_cur (st_disk s)) n = v) wal_holdDirectory"
  unfolding wal_holdDirectory_def wal_childDirectory_def by (intro hoare keeps_on_disk)

lemma keeps_all: "(\<And>n. keeps (K n) m) \<Longrightarrow> keeps (\<lambda>s. \<forall>n. K n s) m"
  by (simp add: keeps_def triple_def)

definition same_dir :: "(string, dfile) gomap \<Rightarrow> (string, dfile) gomap \<Rightarrow> bool" where
  "same_dir D D' \<longleftrightarrow> (\<forall>n. \<not> inStageNamespace n \<longrightarrow> map_of D n = map_of D' n)"

lemma blank_keep:
  assumes "disk_only m" "\<And>n v. \<not> inStageNamespace n \<Longrightarrow> keeps (\<lambda>s. map_of (d_cur (st_disk s)) n = v) m"
  shows "keeps (\<lambda>s. blank cap s \<and> same_dir D0 (d_cur (st_disk s))) m"
proof -
  have "keeps (\<lambda>s. \<not> inStageNamespace n \<longrightarrow> map_of D0 n = map_of (d_cur (st_disk s)) n) m" for n
    using assms(2) [of n "map_of D0 n"] by (cases "inStageNamespace n") (auto simp: keeps_def triple_def)
  then have "keeps (\<lambda>s. same_dir D0 (d_cur (st_disk s))) m" unfolding same_dir_def by (rule keeps_all)
  from keeps_conj [OF disk_only_keeps [OF assms(1) disk_free_blank] this] show ?thesis .
qed

lemma open_chain:
  assumes barrier: "\<And>D. same_dir D0 D \<Longrightarrow>
    triple (\<lambda>s. \<exists>E. (load_inv cap lib D E [] s \<and> cur D s) \<and> all_entries D E) wal_recoveryBarrier
      (\<lambda>r s. r = None \<longrightarrow> R D s)"
  shows "triple (\<lambda>s. blank cap s \<and> same_dir D0 (d_cur (st_disk s))) (wal_open lib)
    (\<lambda>r s. r = None \<longrightarrow> (\<exists>D. R D s \<and> same_dir D0 D))"
proof -
  let ?P = "\<lambda>s. blank cap s \<and> same_dir D0 (d_cur (st_disk s))"
    and ?Q = "\<lambda>r s. r = None \<longrightarrow> (\<exists>D. R D s \<and> same_dir D0 D)"
  have keep: "triple ?P m (\<lambda>_. ?P)"
    if "disk_only m" "\<And>n v. \<not> inStageNamespace n \<Longrightarrow> keeps (\<lambda>s. map_of (d_cur (st_disk s)) n = v) m" for m :: "'a wal"
    using blank_keep [OF that] by (simp add: keeps_def)
  have load: "triple ?P (and_then (wal_load lib) wal_recoveryBarrier) ?Q"
  proof (rule triple_value [where f = "\<lambda>s. d_cur (st_disk s)"])
    fix D
    have "triple (\<lambda>s. blank cap s \<and> cur D s) (and_then (wal_load lib) wal_recoveryBarrier)
      (\<lambda>r s. r = None \<longrightarrow> R D s)" if "same_dir D0 D"
      unfolding and_then_def using barrier [OF that]
      by (intro triple_bind [OF load_spec] triple_option triple_return) auto
    then show "triple (\<lambda>s. ?P s \<and> d_cur (st_disk s) = D) (and_then (wal_load lib) wal_recoveryBarrier) ?Q"
      unfolding triple_def by blast
  qed
  have checks: "triple ?P (require e) (\<lambda>_. ?P)" "triple ?P wal_revalidateDirectory (\<lambda>_. ?P)"
    "triple ?P wal_acquireLock (\<lambda>_. ?P)" "triple ?P wal_holdDirectory (\<lambda>_. ?P)" "triple ?P wal_sweepStages (\<lambda>_. ?P)" for e
    by (rule keep [OF disk_only_require sees.keeps_wal_require],
        rule keep [OF disk_only_revalidate sees.keeps_wal_revalidate],
        rule keep [OF disk_only_lock], unfold wal_acquireLock_def, intro keeps_and_then sees.keeps_wal_require,
        rule keep [OF disk_only_hold sees_hold], rule keep [OF disk_only_sweep sees_sweep])
  have chain: "triple ?P (and_then a b) ?Q" if "triple ?P a (\<lambda>_. ?P)" "triple ?P b ?Q" for a b
    unfolding and_then_def by (intro triple_bind [OF that(1)] triple_option that(2) triple_return) simp
  show ?thesis
    unfolding wal_open_def by (intro chain checks load)
qed

lemma open_spec:
  assumes "synced_dir D0"
  shows "triple (\<lambda>s. blank cap s \<and> same_dir D0 (d_cur (st_disk s))) (wal_open lib)
    (\<lambda>r s. r = None \<longrightarrow> (\<exists>D. recovered cap lib D s \<and> same_dir D0 D))"
proof (rule open_chain)
  fix D
  assume "same_dir D0 D"
  with assms have "synced_dir D" by (auto simp: synced_dir_def same_dir_def)
  from recoveryBarrier_spec [OF _ this]
  show "triple (\<lambda>s. \<exists>E. (load_inv cap lib D E [] s \<and> cur D s) \<and> all_entries D E) wal_recoveryBarrier
    (\<lambda>r s. r = None \<longrightarrow> recovered cap lib D s)" unfolding triple_def by blast
qed

lemma open_acct:
  "triple (\<lambda>s. blank cap s \<and> same_dir D0 (d_cur (st_disk s))) (wal_open lib)
     (\<lambda>r s. r = None \<longrightarrow> (\<exists>D. acct cap 0 s \<and> same_dir D0 D))"
proof (rule open_chain)
  have "keeps (acct cap 0) wal_recoveryBarrier"
    unfolding wal_recoveryBarrier_def made_durable_def [symmetric]
    by (intro hoare acct_steps keeps_acct [OF disk_only_syncAndRevalidate] acct_modify) (simp add: acct_made_durable)
  then show "triple (\<lambda>s. \<exists>E. (load_inv cap lib D E [] s \<and> cur D s) \<and> all_entries D E) wal_recoveryBarrier
    (\<lambda>r s. r = None \<longrightarrow> acct cap 0 s)" for D
    by (auto simp: keeps_def triple_def load_inv_def)
qed

lemma New_cases:
  assumes "wal_New lib self dir mb me d = Inr s"
    and "triple (\<lambda>s. blank (mb, me) s \<and> same_dir (d_cur d) (d_cur (st_disk s))) (wal_open lib) (\<lambda>r s. r = None \<longrightarrow> Q s)"
  shows "Q s"
proof -
  let ?s0 = "wal_newStore self mb me d"
  let ?open = "and_then (require (PlainError ''platform not supported'')) (wal_open lib)"
  from assms(1) have pos: "0 < mb" "0 < me" and run: "run_state ?open ?s0 = (None, s)"
    by (auto simp: wal_New_def split: if_splits prod.splits option.splits)
  let ?P = "\<lambda>s. blank (mb, me) s \<and> same_dir (d_cur d) (d_cur (st_disk s))"
  have first: "triple ?P (require (PlainError ''platform not supported'')) (\<lambda>_. ?P)"
    using blank_keep [OF disk_only_require sees.keeps_wal_require] by (simp add: keeps_def)
  have full: "triple ?P ?open (\<lambda>r s. r = None \<longrightarrow> Q s)"
    unfolding and_then_def by (intro triple_bind [OF first] triple_option triple_return assms(2)) auto
  from pos have "blank (mb, me) ?s0 \<and> same_dir (d_cur d) (d_cur (st_disk ?s0))"
    by (simp add: blank_def acct_def same_dir_def wal_newStore_def)
  from triple_elim [OF full this run] show ?thesis by simp
qed

lemma New_acct: "wal_New lib self dir mb me d = Inr s \<Longrightarrow> acct (mb, me) 0 s"
  using New_cases [OF _ open_acct] by blast

lemma New_recovered:
  "wal_New lib self dir mb me d = Inr s \<Longrightarrow> synced_dir (d_cur d) \<Longrightarrow>
   \<exists>D. recovered (mb, me) lib D s \<and> same_dir (d_cur d) D"
  by (rule New_cases [OF _ open_spec])

end
