(* ===== verification/Ingress_Wal_Live.thy ===== *)
theory Ingress_Wal_Live
  imports Ingress_Wal_Recovery
begin

text \<open>
  Runs of the write-ahead log without a fault: opening an empty directory gives a store, and appending a
  new valid envelope within the capacity is acknowledged.
\<close>

section \<open>Operations without faults\<close>

definition calm :: "Store \<Rightarrow> bool" where
  "calm s \<longleftrightarrow> d_script (st_disk s) = []"

named_theorems calm_runs \<open>results of the operations when no fault is left\<close>

lemma run_bind [calm_runs]:
  "run_state (State_Monad.bind m f) s = (case run_state m s of (x, t) \<Rightarrow> run_state (f x) t)"
  by (simp add: State_Monad.bind_def)

lemma calm_bind [simp]: "d_script (disk_bind n v d) = d_script d" "d_random (disk_bind n v d) = d_random d"
  "d_script (disk_barrier d) = d_script d" "d_random (disk_barrier d) = d_random d"
  by (simp_all add: disk_bind_def disk_barrier_def Let_def)

lemma calm_disk [simp]: "calm (s\<lparr>st_disk := d\<rparr>) \<longleftrightarrow> d_script d = []"
  by (simp add: calm_def)

lemma calm_effect [calm_runs]: "calm s \<Longrightarrow> run_state (on_disk (disk_effect f)) s = (None, s\<lparr>st_disk := f (st_disk s)\<rparr>)"
  by (simp add: on_disk_def disk_effect_def disk_outcome_def calm_def State_Monad.bind_def)

lemma calm_check [calm_runs]: "calm s \<Longrightarrow> run_state (on_disk disk_check) s = (True, s)"
  by (simp add: on_disk_def disk_check_def disk_outcome_def calm_def State_Monad.bind_def)

lemma calm_require [calm_runs]: "calm s \<Longrightarrow> run_state (require e) s = (None, s)"
  by (simp add: require_def calm_runs)

lemma calm_ctx_Err [calm_runs]: "calm s \<Longrightarrow> run_state (ctx_Err c) s = (None, s)"
  by (simp add: ctx_Err_def calm_runs)

lemma calm_and_then [calm_runs]:
  "run_state a s = (None, t) \<Longrightarrow> run_state (and_then a b) s = run_state b t"
  by (simp add: and_then_def calm_runs)

lemma calm_revalidate [calm_runs]: "calm s \<Longrightarrow> run_state wal_revalidateDirectory s = (None, s)"
  by (simp add: wal_revalidateDirectory_def calm_runs)

lemma calm_syncAndRevalidate [calm_runs]:
  "calm s \<Longrightarrow> run_state wal_syncAndRevalidate s = (None, s\<lparr>st_disk := disk_barrier (st_disk s)\<rparr>)"
  by (simp add: wal_syncAndRevalidate_def wal_syncDir_def disk_syncDir_def calm_runs calm_def [symmetric])

lemma calm_readDir [calm_runs]: "calm s \<Longrightarrow> run_state (on_disk disk_readDir) s = (Some (map fst (d_cur (st_disk s))), s)"
  by (simp add: on_disk_def disk_readDir_def disk_outcome_def calm_def State_Monad.bind_def)

lemma calm_create [calm_runs]:
  "calm s \<Longrightarrow> map_of (d_cur (st_disk s)) n = None \<Longrightarrow> run_state (on_disk (disk_create n)) s =
     (None, s\<lparr>st_disk := disk_bind n (Some \<lparr>f_data = [], f_synced = False\<rparr>) (st_disk s)\<rparr>)"
  by (simp add: on_disk_def disk_create_def disk_exists_def disk_effect_def disk_outcome_def calm_def State_Monad.bind_def)

lemma calm_write [calm_runs]:
  "calm s \<Longrightarrow> run_state (on_disk (disk_write n data)) s =
     ((length data, None), s\<lparr>st_disk := disk_bind n (Some \<lparr>f_data = data, f_synced = False\<rparr>) (st_disk s)\<rparr>)"
  by (simp add: on_disk_def disk_write_def disk_outcome_def calm_def State_Monad.bind_def)

lemma calm_publish [calm_runs]:
  "calm s \<Longrightarrow> map_of (d_cur (st_disk s)) dst = None \<Longrightarrow> run_state (on_disk (disk_publish src dst)) s =
     (None, s\<lparr>st_disk := disk_bind dst (map_of (d_cur (st_disk s)) src) (st_disk s)\<rparr>)"
  by (simp add: on_disk_def disk_publish_def disk_exists_def disk_effect_def disk_outcome_def calm_def State_Monad.bind_def)

lemma calm_remove [calm_runs]:
  "calm s \<Longrightarrow> map_of (d_cur (st_disk s)) n \<noteq> None \<Longrightarrow> run_state (on_disk (disk_remove n)) s =
     (None, s\<lparr>st_disk := disk_bind n None (st_disk s)\<rparr>)"
  by (auto simp: on_disk_def disk_remove_def disk_exists_def disk_effect_def disk_outcome_def calm_def State_Monad.bind_def)

lemma calm_randomRead [calm_runs]:
  "calm s \<Longrightarrow> d_random (st_disk s) = r # rs \<Longrightarrow>
   run_state (on_disk disk_randomRead) s = (Some r, s\<lparr>st_disk := (st_disk s)\<lparr>d_random := rs\<rparr>\<rparr>)"
  by (simp add: on_disk_def disk_randomRead_def disk_outcome_def calm_def State_Monad.bind_def)

lemma calm_createStage:
  assumes "calm s" "d_random (st_disk s) = r # rs" "length r = stageRandomBytes"
    and n: "n = pre @ hex_EncodeToString r @ stageSuffix" "map_of (d_cur (st_disk s)) n = None"
  shows "run_state (wal_createStage pre) s = (Inr n, s\<lparr>st_disk :=
    disk_bind n (Some \<lparr>f_data = [], f_synced = False\<rparr>) ((st_disk s)\<lparr>d_random := rs\<rparr>)\<rparr>)"
proof -
  let ?t = "s\<lparr>st_disk := (st_disk s)\<lparr>d_random := rs\<rparr>\<rparr>"
  have "calm ?t" "map_of (d_cur (st_disk ?t)) n = None" using assms by (simp_all add: calm_def)
  note made = calm_create [OF this]
  show ?thesis
    unfolding wal_createStage_def numeral_eq_Suc pred_numeral_simps BitM.simps
    using assms made
    by (simp add: calm_runs calm_def [symmetric] n(1) [symmetric])
qed

lemma calm_syncFile [calm_runs]:
  "calm s \<Longrightarrow> run_state (on_disk (disk_syncFile n)) s = (None, s\<lparr>st_disk := disk_sync_file n (st_disk s)\<rparr>)"
  by (simp add: disk_syncFile_def calm_runs)

lemma calm_close [calm_runs]: "calm s \<Longrightarrow> run_state (on_disk disk_close) s = (None, s)"
  by (simp add: disk_close_def calm_runs)

lemma calm_atomicCreate:
  assumes "calm s" "d_random (st_disk s) = r # rs" "length r = stageRandomBytes"
    and n: "n = pre @ hex_EncodeToString r @ stageSuffix" "map_of (d_cur (st_disk s)) n = None"
    and dst: "map_of (d_cur (st_disk s)) dst = None" "dst \<noteq> n"
  shows "fst (run_state (wal_atomicCreate c dst pre bytes) s) = ((True, None), None)"
proof -
  note stage = calm_createStage [OF assms(1-3) n]
  show ?thesis
    unfolding wal_atomicCreate_def wal_publishStage_def
    using assms
    by (simp add: calm_runs stage calm_def [symmetric] disk_sync_file_def disk_bind_lookup)
qed

section \<open>A faultless append\<close>

text \<open>There is room for the record \<open>bytes\<close> of a new envelope, and the staging name is free.\<close>

definition room_for :: "Envelope \<Rightarrow> string \<Rightarrow> Store \<Rightarrow> bool" where
  "room_for env bytes s \<longleftrightarrow> \<not> st_closed s \<and> st_orphanStages s = [] \<and>
     map_of (st_completed s) (env_ID env) = None \<and> map_of (st_pending s) (env_ID env) = None \<and>
     st_nextEntry s < MaxUint64 \<and> int (length (st_pending s)) < st_MaxEntries s \<and>
     st_bytes s + st_orphanBytes s + int (length bytes) \<le> st_MaxBytes s \<and>
     map_of (d_cur (st_disk s)) (entryName (Suc (st_nextEntry s)) (env_ID env)) = None \<and>
     (\<exists>r rs. d_random (st_disk s) = r # rs \<and> length r = stageRandomBytes \<and>
        map_of (d_cur (st_disk s)) (appendStagePrefix @ hex_EncodeToString r @ stageSuffix) = None)"

lemma faultless_append:
  assumes "calm s" "validateEnvelope env = None" "encodeRecord lib env (Suc (st_nextEntry s)) = Inr bytes"
    "room_for env bytes s"
  shows "fst (run_state (wal_Append lib env) s) = None"
proof -
  let ?t = "s\<lparr>st_bytes := st_bytes s + int (length bytes)\<rparr>"
  from assms(4) obtain r rs where r: "d_random (st_disk s) = r # rs" "length r = stageRandomBytes"
      "map_of (d_cur (st_disk s)) (appendStagePrefix @ hex_EncodeToString r @ stageSuffix) = None"
    by (auto simp: room_for_def)
  have stage: "entryName q i \<noteq> appendStagePrefix @ hex_EncodeToString r @ stageSuffix" for q i
    using entry_not_stage [of q i] by (metis HasPrefix_iff inStageNamespace_def)
  have "fst (run_state (wal_atomicCreate True (entryName (Suc (st_nextEntry s)) (env_ID env)) appendStagePrefix bytes) ?t) =
      ((True, None), None)"
    using assms(1,4) r stage by (intro calm_atomicCreate) (auto simp: calm_def room_for_def)
  then obtain t' where create: "run_state (wal_atomicCreate True (entryName (Suc (st_nextEntry s)) (env_ID env))
      appendStagePrefix bytes) ?t = (((True, None), None), t')"
    by (metis prod.collapse)
  have reserve: "run_state (wal_reserve (int (length bytes))) s = (None, ?t)"
    using assms(4) by (simp add: wal_reserve_def room_for_def)
  have new: "fst (run_state (wal_appendNew lib env) s) = None"
    using assms(3,4) create
    by (simp add: wal_appendNew_def run_bind calm_and_then [OF reserve] Let_def wal_finishAppend_def room_for_def)
  have "run_state wal_cleanupOrphansLocked s = (None, s)"
    using assms(4) by (simp add: wal_cleanupOrphansLocked_def run_bind room_for_def)
  note clean = calm_and_then [OF this]
  show ?thesis
    using assms(1,2,4) new by (simp add: wal_Append_def wal_appendLocked_def run_bind calm_ctx_Err clean room_for_def)
qed

lemma append_when_full:
  assumes "calm s" "validateEnvelope env = None" "encodeRecord lib env (Suc (st_nextEntry s)) = Inr bytes"
    and "\<not> st_closed s" "st_orphanStages s = []" "map_of (st_completed s) (env_ID env) = None"
    and "map_of (st_pending s) (env_ID env) = None" "st_nextEntry s < MaxUint64"
  shows "int (length (st_pending s)) \<ge> st_MaxEntries s \<Longrightarrow> run_state (wal_Append lib env) s =
      (Some (FullError LimitEntries (st_MaxEntries s) (int (length (st_pending s))) 1), s)"
    and "int (length (st_pending s)) < st_MaxEntries s \<Longrightarrow>
      st_MaxBytes s < st_bytes s + st_orphanBytes s + int (length bytes) \<Longrightarrow> run_state (wal_Append lib env) s =
      (Some (FullError LimitBytes (st_MaxBytes s) (st_bytes s + st_orphanBytes s) (int (length bytes))), s)"
proof -
  have "run_state wal_cleanupOrphansLocked s = (None, s)"
    using assms(5) by (simp add: wal_cleanupOrphansLocked_def run_bind)
  note clean = calm_and_then [OF this]
  note run = wal_Append_def wal_appendLocked_def wal_appendNew_def and_then_def wal_reserve_def run_bind calm_ctx_Err
    clean [unfolded and_then_def run_bind]
  show "run_state (wal_Append lib env) s =
      (Some (FullError LimitEntries (st_MaxEntries s) (int (length (st_pending s))) 1), s)"
    if "int (length (st_pending s)) \<ge> st_MaxEntries s"
    using assms that by (simp add: run Let_def)
  show "run_state (wal_Append lib env) s =
      (Some (FullError LimitBytes (st_MaxBytes s) (st_bytes s + st_orphanBytes s) (int (length bytes))), s)"
    if "int (length (st_pending s)) < st_MaxEntries s" "st_MaxBytes s < st_bytes s + st_orphanBytes s + int (length bytes)"
    using assms that by (simp add: run Let_def)
qed

section \<open>After a crash\<close>

text \<open>The directory a new process finds.\<close>

definition restarted :: "(string \<rightharpoonup> string) \<Rightarrow> disk \<Rightarrow> bool" where
  "restarted img d \<longleftrightarrow> (\<forall>n. map_of (d_cur d) n = map_option (\<lambda>b. \<lparr>f_data = b, f_synced = True\<rparr>) (img n))"

lemma restart_recovers:
  assumes s: "wf s" "acknowledged lib env e x s" and img: "img (pe_name e) = Some (f_data x)" "restarted img d"
    and new: "wal_New lib self dir mb me d = Inr t"
  shows "\<exists>e'. map_of (st_pending t) (env_ID env) = Some e' \<and> pe_durable e' \<and> pe_name e' = pe_name e \<and>
      stored (pe_name e) x (st_disk t)" (is ?entry)
    and "(\<And>q. img (markerName q (env_ID env)) = None) \<Longrightarrow> \<exists>e'. acknowledged lib env e' x t"
proof -
  let ?i = "env_ID env"
  from s(2) have rec: "f_synced x" "decodeRecord lib (f_data x) = Inr \<lparr>sr_Sequence = pe_sequence e, sr_Envelope = env\<rparr>"
    and mine: "map_of (st_pending s) ?i = Some e"
    unfolding acknowledged_def by blast+
  from s(1) have wf: "pending_wf (st_nextEntry s) (st_pending s)" "st_nextEntry s \<le> MaxUint64" by (simp_all add: wf_def)
  note e = pending_wfD [OF wf(1) mine]
  have "synced_dir (d_cur d)" using img(2) by (auto simp: synced_dir_def restarted_def)
  from New_recovered [OF new this] obtain D where D: "recovered (mb, me) lib D t" "same_dir (d_cur d) D" by blast
  have at: "map_of D n = map_option (\<lambda>b. \<lparr>f_data = b, f_synced = True\<rparr>) (img n)" if "\<not> inStageNamespace n" for n
    using D(2) img(2) that by (simp add: same_dir_def restarted_def)
  have "map_of D (pe_name e) = Some x"
    using at [of "pe_name e"] img(1) rec(1) by (simp add: e(4) entry_not_stage)
  moreover have "strings_HasSuffix (pe_name e) entrySuffix" by (simp add: e(4) entryName_suffix)
  ultimately obtain j e' where e': "map_of (st_pending t) j = Some e'" "pe_name e' = pe_name e" "pe_durable e'"
      "stored (pe_name e) x (st_disk t)" "read_from lib D j e'"
    using D(1) unfolding recovered_def by meson
  have "parseEntryName (pe_name e) = Some (pe_sequence e, ?i)"
    using e wf(2) MaxUint64_bound [of "pe_sequence e"] by (simp add: parseEntryName_entryName)
  with e'(2,5) have same: "j = ?i" "pe_sequence e' = pe_sequence e" by (simp_all add: read_from_def)
  with e' show ?entry by blast
  show "\<exists>e'. acknowledged lib env e' x t" if none: "\<And>q. img (markerName q ?i) = None"
  proof -
    have "map_of (st_completed t) ?i = None"
    proof (cases "map_of (st_completed t) ?i")
      case (Some m)
      with D(1) have "cm_name m = markerName (cm_sequence m) ?i" "map_of D (cm_name m) \<noteq> None"
        by (auto simp: recovered_def wf_def completed_wf_def)
      with at [of "cm_name m"] none show ?thesis by (simp add: marker_not_stage)
    qed
    then have "acknowledged lib env e' x t"
      unfolding acknowledged_def retiring_def using e' same rec by simp
    then show ?thesis by blast
  qed
qed

section \<open>A concrete store\<close>

definition toy_disk :: disk where
  "toy_disk = \<lparr>d_cur = [], d_maybe = (\<lambda>_. {None}), d_past = [], d_script = [],
     d_random = [replicate 16 (CHR 0x2A)]\<rparr>"

definition toy_store :: Store where
  "toy_store = wal_newStore 1 (2 ^ 63 - 1) 8 toy_disk"

lemma toy_New: "wal_New toy_lib 1 ''/wal'' (2 ^ 63 - 1) 8 toy_disk = Inr toy_store"
proof -
  have "run_state (wal_open toy_lib) toy_store = (None, toy_store)"
    by (simp add: wal_open_def wal_holdDirectory_def wal_childDirectory_def wal_acquireLock_def wal_sweepStages_def wal_load_def wal_recoveryBarrier_def
        and_then_def calm_runs calm_def toy_store_def wal_newStore_def toy_disk_def)
  then show ?thesis by (simp add: wal_New_def toy_store_def calm_runs calm_def wal_newStore_def toy_disk_def)
qed

lemma toy_append_ok: "append_ok toy_lib toy_envelope"
  by (simp add: append_ok_def toy_lib_ok toy_envelope_valid)

lemma toy_encode: "\<exists>bytes. encodeRecord toy_lib toy_envelope (Suc 0) = Inr bytes \<and> int (length bytes) < 2 ^ 62 + 1000"
proof -
  obtain s where "length s < 2 ^ 62" and s: "encodeRecord toy_lib toy_envelope (Suc 0) =
      Inr (record_header (length s) @ s @ sha256 (record_header (length s) @ s))"
    using encodeRecord_Inr [OF toy_lib_ok toy_envelope_valid(1) _ _ toy_envelope_valid(2,3), of "Suc 0"] by auto
  then have "int (length s) < 2 ^ 62" by (metis of_nat_less_iff of_nat_numeral of_nat_power)
  with s show ?thesis by (simp add: recordHeaderBytes_def)
qed

lemma toy_ready:
  "calm toy_store" "wf toy_store" "held (files_ok toy_lib) toy_store" "st_nextEntry toy_store = 0"
  "int (length bytes) < 2 ^ 62 + 1000 \<Longrightarrow> room_for toy_envelope bytes toy_store"
  by (simp_all add: calm_def toy_store_def wal_newStore_def toy_disk_def wf_def pending_wf_def completed_wf_def held_def
      files_ok_def room_for_def MaxUint64_def stageRandomBytes_def)

lemma toy_acked: "\<exists>s1. run_state (wal_Append toy_lib toy_envelope) toy_store = (None, s1)"
proof -
  from toy_encode obtain bytes where b: "encodeRecord toy_lib toy_envelope (Suc 0) = Inr bytes"
    "int (length bytes) < 2 ^ 62 + 1000" by blast
  have "fst (run_state (wal_Append toy_lib toy_envelope) toy_store) = None"
    by (rule faultless_append [OF toy_ready(1) toy_envelope_valid(1) _ toy_ready(5) [OF b(2)]]) (simp add: toy_ready(4) b(1))
  then show ?thesis by (metis prod.collapse)
qed

lemma calm_readBounded:
  assumes "calm s" "map_of (d_cur (st_disk s)) n = Some x" "int (length (f_data x)) \<le> st_MaxBytes s"
  shows "run_state (wal_readBounded n) s = (Inr (f_data x), s)"
proof -
  have "run_state (on_disk (disk_exists n)) s = (True, s)"
    using assms(2) by (simp add: on_disk_def disk_exists_def)
  moreover have "run_state (on_disk (disk_read n)) s = (Some (f_data x), s)"
    using assms by (simp add: on_disk_def disk_read_def disk_outcome_def calm_def State_Monad.bind_def)
  ultimately show ?thesis using assms by (simp add: wal_readBounded_def calm_runs)
qed

text \<open>A directory holding the record of the sample envelope, and the store that has it acknowledged.\<close>

definition toy_bytes :: string where
  "toy_bytes = projr (encodeRecord toy_lib toy_envelope 1)"

definition toy_name :: string where
  "toy_name = entryName 1 (env_ID toy_envelope)"

definition toy_full :: disk where
  "toy_full = toy_disk\<lparr>d_cur := [(toy_name, \<lparr>f_data = toy_bytes, f_synced = True\<rparr>)],
     d_maybe := (\<lambda>n. {if n = toy_name then Some \<lparr>f_data = toy_bytes, f_synced = True\<rparr> else None})\<rparr>"

definition toy_entry :: pendingEntry where
  "toy_entry = \<lparr>pe_name = toy_name, pe_size = int (length toy_bytes), pe_sequence = 1, pe_durable = True\<rparr>"

definition toy_holding :: Store where
  "toy_holding = (wal_newStore 1 (2 ^ 63 - 1) 8 toy_full)\<lparr>st_pending := [(env_ID toy_envelope, toy_entry)],
     st_bytes := int (length toy_bytes), st_nextEntry := 1\<rparr>"

lemma toy_bytes_facts:
  "encodeRecord toy_lib toy_envelope 1 = Inr toy_bytes" "int (length toy_bytes) < 2 ^ 62 + 1000"
  "decodeRecord toy_lib toy_bytes = Inr \<lparr>sr_Sequence = 1, sr_Envelope = toy_envelope\<rparr>"
proof -
  from toy_encode show enc: "encodeRecord toy_lib toy_envelope 1 = Inr toy_bytes" "int (length toy_bytes) < 2 ^ 62 + 1000"
    by (auto simp: toy_bytes_def)
  then show "decodeRecord toy_lib toy_bytes = Inr \<lparr>sr_Sequence = 1, sr_Envelope = toy_envelope\<rparr>"
    using decode_appended [OF toy_append_ok, of 0] by (simp add: MaxUint64_def)
qed

lemma toy_id: "validID (env_ID toy_envelope)"
  by (rule validateEnvelope_validID [OF toy_envelope_valid(1)])

lemma toy_acknowledged:
  "wf toy_holding" "acknowledged toy_lib toy_envelope toy_entry \<lparr>f_data = toy_bytes, f_synced = True\<rparr> toy_holding"
  using toy_bytes_facts(3) toy_id
  by (simp_all add: wf_def pending_wf_def completed_wf_def acknowledged_def toy_holding_def toy_full_def toy_entry_def
      wal_newStore_def retiring_def stored_def toy_name_def MaxUint64_def)

lemma toy_reopen: "\<exists>t. wal_New toy_lib 2 ''/wal'' (2 ^ 63 - 1) 8 toy_full = Inr t"
proof -
  define s0 where "s0 = wal_newStore 2 (2 ^ 63 - 1) 8 toy_full"
  have parse: "parseEntryName toy_name = Some (1, env_ID toy_envelope)"
    using toy_id by (simp add: toy_name_def parseEntryName_entryName)
  have kind: "strings_HasSuffix toy_name entrySuffix" "\<not> inStageNamespace toy_name"
    by (simp_all add: toy_name_def entryName_suffix entry_not_stage)
  define s1 where "s1 = s0\<lparr>st_nextEntry := 1\<rparr>"
  define s2 where "s2 = s1\<lparr>st_bytes := int (length toy_bytes), st_pending := [(env_ID toy_envelope, toy_entry\<lparr>pe_durable := False\<rparr>)]\<rparr>"
  have calm: "calm s0" "calm s1" "calm s2"
    by (simp_all add: s0_def s1_def s2_def calm_def wal_newStore_def toy_full_def toy_disk_def)
  have files: "map fst (d_cur (st_disk s0)) = [toy_name]"
    "map_of (d_cur (st_disk s1)) toy_name = Some \<lparr>f_data = toy_bytes, f_synced = True\<rparr>"
    by (simp_all add: s0_def s1_def wal_newStore_def toy_full_def)
  have sweep: "run_state wal_sweepStages s0 = (None, s0)"
    using kind by (simp add: wal_sweepStages_def calm_runs calm files)
  have names: "run_state (wal_loadNames [toy_name] [] [] []) s0 = (Inr [(env_ID toy_envelope, toy_name)], s1)"
    using kind by (simp add: parse calm_runs s1_def s0_def wal_newStore_def)
  have read: "run_state (wal_readBounded toy_name) s1 = (Inr toy_bytes, s1)"
    using calm_readBounded [OF calm(2) files(2)] toy_bytes_facts(2) by (simp add: s1_def s0_def wal_newStore_def)
  have own: "run_state (wal_requireOwnedRegularAt toy_name) s1 = (None, s1)"
    by (simp add: wal_requireOwnedRegularAt_def calm_runs calm)
  have "run_state (wal_reserve (int (length toy_bytes))) s1 = (None, s1\<lparr>st_bytes := int (length toy_bytes)\<rparr>)"
    using toy_bytes_facts(2) by (simp add: wal_reserve_def s1_def s0_def wal_newStore_def)
  then have entries: "run_state (wal_loadEntries toy_lib [(env_ID toy_envelope, toy_name)]) s1 = (None, s2)"
    by (simp add: parse calm_runs own read toy_bytes_facts(3) s2_def toy_entry_def)
      (simp add: s1_def s0_def wal_newStore_def)
  have load: "run_state (wal_load toy_lib) s0 = (None, s2)"
    by (simp add: wal_load_def calm_runs calm files names entries del: wal_loadNames.simps wal_loadEntries.simps)
  have "fst (run_state wal_recoveryBarrier s2) = None"
    using calm(3) by (simp add: wal_recoveryBarrier_def calm_runs)
  then obtain t where "run_state wal_recoveryBarrier s2 = (None, t)" by (metis prod.collapse)
  then have "run_state (wal_open toy_lib) s0 = (None, t)"
    by (simp add: wal_open_def wal_holdDirectory_def wal_childDirectory_def wal_acquireLock_def calm_and_then [OF sweep] calm_and_then [OF load] calm_runs calm)
  then show ?thesis using calm(1) by (simp add: wal_New_def s0_def calm_runs)
qed

section \<open>What the log promises\<close>



text \<open>C2. An acknowledged entry survives a crash at any instant of any later run of calls, whatever the file
  operations report, as long as no call asks for its completion (no commit of it, no replay handler that accepts it,
  no expiry that covers it): whichever of the states that were possibly durable after any single
  operation the crash leaves, a new process that opens the directory successfully has the entry
  pending and durable with the acknowledged bytes, and acknowledged again unless the directory holds
  a completion marker for the identity.\<close>

theorem wal_crash_recovery:
  assumes "wf s" "acknowledged lib env e x s" "\<forall>c \<in> set cs. harmless lib env c"
    and "run_state (wal_calls lib cs) (watch s) = (u, s')"
    and "m \<in> set (d_maybe (st_disk s') # d_past (st_disk s'))" "crash_image m img" "restarted img d"
    and "wal_New lib self dir mb me d = Inr t"
  shows "\<exists>e'. map_of (st_pending t) (env_ID env) = Some e' \<and> pe_durable e' \<and> stored (pe_name e) x (st_disk t) \<and>
    ((\<forall>q. img (markerName q (env_ID env)) = None) \<longrightarrow> acknowledged lib env e' x t)"
proof -
  from acknowledged_survives_run(2) [OF assms(1-4)] assms(5,6) have img: "img (pe_name e) = Some (f_data x)" by blast
  note back' = restart_recovers [OF assms(1,2) img assms(7,8)]
  from back'(1) obtain e' where e': "map_of (st_pending t) (env_ID env) = Some e'" "pe_durable e'" "stored (pe_name e) x (st_disk t)"
    by blast
  moreover have "acknowledged lib env e' x t" if "\<forall>q. img (markerName q (env_ID env)) = None"
    using back'(2) that e'(1) by (auto simp: acknowledged_def)
  ultimately show ?thesis by blast
qed

theorem wal_crash_recovery_witness:
  "\<exists>t e'. wal_New toy_lib 2 ''/wal'' (2 ^ 63 - 1) 8 toy_full = Inr t \<and>
     map_of (st_pending t) (env_ID toy_envelope) = Some e' \<and> pe_durable e'"
proof -
  let ?x = "\<lparr>f_data = toy_bytes, f_synced = True\<rparr>" and ?img = "[toy_name \<mapsto> toy_bytes]"
  from toy_reopen obtain t where t: "wal_New toy_lib 2 ''/wal'' (2 ^ 63 - 1) 8 toy_full = Inr t" by blast
  have run: "run_state (wal_calls toy_lib []) (watch toy_holding) = ((), watch toy_holding)" by simp
  have "d_maybe (st_disk (watch toy_holding)) \<in> set (d_maybe (st_disk (watch toy_holding)) # d_past (st_disk (watch toy_holding)))"
    by simp
  moreover have "crash_image (d_maybe (st_disk (watch toy_holding))) ?img" "restarted ?img toy_full"
    by (auto simp: crash_image_def restarted_def watch_def toy_holding_def toy_full_def wal_newStore_def)
  ultimately show ?thesis
    using wal_crash_recovery [OF toy_acknowledged _ run _ _ _ t] t by fastforce
qed

text \<open>C19. From a successful open on, after any sequence of calls and under any faults, the bytes accounted
  are exactly the sizes of the pending entries, pending and orphaned bytes together stay within the
  configured MaxBytes, and the pending entries within MaxEntries.\<close>

theorem wal_capacity_bounded:
  assumes "wal_New lib self dir mb me d = Inr s" "run_state (wal_calls lib cs) s = (u, s')"
  shows "h_PendingBytes (wal_Health s') = (\<Sum>(i, e) \<leftarrow> st_pending s'. pe_size e) \<and>
    0 \<le> h_OrphanBytes (wal_Health s') \<and> h_PendingBytes (wal_Health s') + h_OrphanBytes (wal_Health s') \<le> mb \<and>
    h_PendingEntries (wal_Health s') \<le> me"
proof -
  have "keeps (acct (mb, me) 0) (wal_calls lib cs)" by (rule keeps_calls) (rule acct_exec)
  from keeps_elim [OF this New_acct [OF assms(1)] assms(2)] have "acct (mb, me) 0 s'" .
  with acct_nonneg [OF this] show ?thesis by (auto simp: acct_def wal_Health_def isum_def)
qed

theorem wal_capacity_bounded_witness:
  "h_PendingEntries (wal_Health (snd (run_state (wal_calls toy_lib [CallAppend toy_envelope, CallClose]) toy_store))) \<le> 8"
  using wal_capacity_bounded [OF toy_New, of "[CallAppend toy_envelope, CallClose]"] by (metis prod.collapse)



text \<open>C21. Without faults, appending a valid new envelope for which there is room, a free entry name, a
  random staging name that is not taken and a sequence left is acknowledged.\<close>

theorem wal_append_succeeds:
  assumes "calm s" "append_ok lib env" "validateEnvelope env = None"
    and "\<And>bytes. encodeRecord lib env (Suc (st_nextEntry s)) = Inr bytes \<Longrightarrow> room_for env bytes s"
    and "st_nextEntry s < MaxUint64"
  shows "fst (run_state (wal_Append lib env) s) = None"
proof -
  from assms(5) have "Suc (st_nextEntry s) < 2 ^ 64" by (simp add: MaxUint64_def)
  with encodeRecord_Inr [of lib env "Suc (st_nextEntry s)"] assms(2,3) obtain bytes where
    "encodeRecord lib env (Suc (st_nextEntry s)) = Inr bytes" by (auto simp: append_ok_def)
  with assms show ?thesis by (intro faultless_append)
qed

theorem wal_append_succeeds_witness: "fst (run_state (wal_Append toy_lib toy_envelope) toy_store) = None"
proof (rule wal_append_succeeds [OF toy_ready(1) toy_append_ok toy_envelope_valid(1)])
  show "room_for toy_envelope bytes toy_store"
    if "encodeRecord toy_lib toy_envelope (Suc (st_nextEntry toy_store)) = Inr bytes" for bytes
    using that toy_encode toy_ready(4,5) by auto
qed (simp add: toy_ready(4) MaxUint64_def)

text \<open>Appending a new envelope to a full log is refused with the limit that is reached, the usage and the
  size asked for, entries before bytes, and changes nothing.\<close>

theorem wal_append_refused_when_full:
  assumes "calm s" "validateEnvelope env = None" "encodeRecord lib env (Suc (st_nextEntry s)) = Inr bytes"
    and "\<not> st_closed s" "st_orphanStages s = []" "map_of (st_completed s) (env_ID env) = None"
    and "map_of (st_pending s) (env_ID env) = None" "st_nextEntry s < MaxUint64"
  shows "(st_MaxEntries s \<le> int (length (st_pending s)) \<longrightarrow> run_state (wal_Append lib env) s =
      (Some (FullError LimitEntries (st_MaxEntries s) (int (length (st_pending s))) 1), s)) \<and>
    (int (length (st_pending s)) < st_MaxEntries s \<longrightarrow>
      st_MaxBytes s < st_bytes s + st_orphanBytes s + int (length bytes) \<longrightarrow> run_state (wal_Append lib env) s =
      (Some (FullError LimitBytes (st_MaxBytes s) (st_bytes s + st_orphanBytes s) (int (length bytes))), s))"
  using append_when_full [OF assms] by auto

theorem wal_append_refused_when_full_witness:
  "run_state (wal_Append toy_lib toy_envelope) (toy_store\<lparr>st_MaxEntries := 0\<rparr>) =
     (Some (FullError LimitEntries 0 0 1), toy_store\<lparr>st_MaxEntries := 0\<rparr>)"
proof -
  let ?s = "toy_store\<lparr>st_MaxEntries := 0\<rparr>"
  have facts: "calm ?s" "st_nextEntry ?s = 0" "\<not> st_closed ?s" "st_orphanStages ?s = []" "st_completed ?s = []"
      "st_pending ?s = []"
    by (simp_all add: calm_def toy_store_def wal_newStore_def toy_disk_def)
  from toy_encode obtain bytes where "encodeRecord toy_lib toy_envelope (Suc (st_nextEntry ?s)) = Inr bytes"
    by (auto simp: facts(2))
  from wal_append_refused_when_full [OF facts(1) toy_envelope_valid(1) this facts(3,4)] facts show ?thesis
    by (simp add: MaxUint64_def)
qed

end
