(* ===== verification/Atomic_File.thy ===== *)
theory Atomic_File
  imports Wal_Disk Go_Strings
begin

text \<open>
  \<open>src/internal/collector/atomicfile.go\<close>: replacing a file in its own directory by a staged, synced and renamed
  temporary, and sweeping staging files a killed process left. The directory is the disk of \<open>Wal_Disk\<close>,
  with names relative to it (\<open>base\<close> stands for \<open>filepath.Base(path)\<close>), a script of faults, and the durable
  states a crash may leave after every single operation.
\<close>

section \<open>Renaming\<close>

definition disk_move :: "string \<Rightarrow> string \<Rightarrow> disk \<Rightarrow> disk" where
  "disk_move src dst d =
     (case map_of (d_cur d) src of
        None \<Rightarrow> d
      | Some x \<Rightarrow> disk_bind src None (disk_bind dst (Some x) d))"

definition disk_rename :: "string \<Rightarrow> string \<Rightarrow> (disk, os_err option) state" where
  "disk_rename src dst = disk_effect (disk_move src dst)"

section \<open>Staged replacement\<close>

definition stagingNameBounds :: "string \<Rightarrow> string \<times> string" where
  "stagingNameBounds base = (''.'' @ base @ ''.'', ''.tmp'')"

text \<open>\<open>os.CreateTemp\<close>: exclusive creation under a fresh random name, retried while the name exists.\<close>

fun os_CreateTemp_loop :: "nat \<Rightarrow> string \<Rightarrow> string \<Rightarrow> (disk, os_err + string) state" where
  "os_CreateTemp_loop 0 pre suf = State_Monad.return (Inl ErrExist)"
| "os_CreateTemp_loop (Suc k) pre suf = do {
     r \<leftarrow> disk_randomRead;
     case r of
       None \<Rightarrow> State_Monad.return (Inl OsErr)
     | Some random \<Rightarrow> do {
         let name = pre @ random @ suf;
         e \<leftarrow> disk_create name;
         if e = Some ErrExist then os_CreateTemp_loop k pre suf
         else case e of Some err \<Rightarrow> State_Monad.return (Inl err) | None \<Rightarrow> State_Monad.return (Inr name)
       }
   }"

definition os_CreateTemp :: "string \<Rightarrow> string \<Rightarrow> (disk, os_err + string) state" where
  "os_CreateTemp pre suf = os_CreateTemp_loop 10000 pre suf"

text \<open>A short write of an \<open>os.File\<close> reports an error.\<close>

definition writeAndSync :: "string \<Rightarrow> string \<Rightarrow> (disk, os_err option) state" where
  "writeAndSync f data = do {
     (n, err) \<leftarrow> disk_write f data;
     if err \<noteq> None then State_Monad.return err
     else if n \<noteq> length data then State_Monad.return (Some OsErr)
     else disk_syncFile f
   }"

definition atomic_cleanup :: "bool \<Rightarrow> string \<Rightarrow> os_err \<Rightarrow> (disk, os_err option) state" where
  "atomic_cleanup closed tmp err = do {
     _ \<leftarrow> (if closed then State_Monad.return None else disk_close);
     _ \<leftarrow> disk_remove tmp;
     State_Monad.return (Some err)
   }"

definition atomic_publish :: "string \<Rightarrow> string \<Rightarrow> (disk, os_err option) state" where
  "atomic_publish tmp base = do {
     e \<leftarrow> disk_rename tmp base;
     case e of
       Some err \<Rightarrow> atomic_cleanup True tmp err
     | None \<Rightarrow> do { _ \<leftarrow> disk_syncDir; State_Monad.return None }
   }"

definition atomic_fill :: "string \<Rightarrow> string \<Rightarrow> string \<Rightarrow> (disk, os_err option) state" where
  "atomic_fill tmp base data = do {
     ok \<leftarrow> disk_check;
     if \<not> ok then atomic_cleanup False tmp OsErr
     else do {
       w \<leftarrow> writeAndSync tmp data;
       case w of
         Some err \<Rightarrow> atomic_cleanup False tmp err
       | None \<Rightarrow> do {
           c \<leftarrow> disk_close;
           case c of Some err \<Rightarrow> atomic_cleanup False tmp err | None \<Rightarrow> atomic_publish tmp base
         }
     }
   }"

definition writeFileAtomic :: "string \<Rightarrow> string \<Rightarrow> (disk, os_err option) state" where
  "writeFileAtomic base data = do {
     t \<leftarrow> os_CreateTemp (fst (stagingNameBounds base)) (snd (stagingNameBounds base));
     case t of Inl err \<Rightarrow> State_Monad.return (Some err) | Inr tmp \<Rightarrow> atomic_fill tmp base data
   }"

section \<open>Sweeping\<close>

definition stagingFileMaxAge :: int where "stagingFileMaxAge = 3600 * 1000000000"

definition staging_name :: "string \<Rightarrow> string \<Rightarrow> bool" where
  "staging_name base name =
     (case strings_CutPrefix name (fst (stagingNameBounds base)) of
        None \<Rightarrow> False
      | Some rest \<Rightarrow>
          (case strings_CutSuffix rest (snd (stagingNameBounds base)) of
             None \<Rightarrow> False | Some random \<Rightarrow> random \<noteq> []))"

text \<open>\<open>os.Lstat\<close> of a name: its age when it is a regular file.\<close>

fun sweep_entries :: "(string \<Rightarrow> int option) \<Rightarrow> string \<Rightarrow> string list \<Rightarrow> (disk, nat) state" where
  "sweep_entries lstat base [] = State_Monad.return 0"
| "sweep_entries lstat base (name # names) =
     (if \<not> staging_name base name then sweep_entries lstat base names
      else case lstat name of
        None \<Rightarrow> sweep_entries lstat base names
      | Some age \<Rightarrow>
          if age < stagingFileMaxAge then sweep_entries lstat base names
          else do {
            e \<leftarrow> disk_remove name;
            k \<leftarrow> sweep_entries lstat base names;
            State_Monad.return (if e = None then Suc k else k)
          })"

definition sweepStaleStagingFiles :: "(string \<Rightarrow> int option) \<Rightarrow> string \<Rightarrow> (disk, nat \<times> os_err option) state" where
  "sweepStaleStagingFiles lstat base = do {
     names \<leftarrow> disk_readDir;
     k \<leftarrow> sweep_entries lstat base (case names of None \<Rightarrow> [] | Some ns \<Rightarrow> ns);
     State_Monad.return (k, if names = None then Some OsErr else None)
   }"

section \<open>What replacement and sweeping keep\<close>

lemma staging_longer: "staging_name base name \<Longrightarrow> name \<noteq> base"
  by (auto simp: staging_name_def stagingNameBounds_def CutPrefix_Some_iff split: option.splits
      dest: arg_cong [of _ _ length])

text \<open>Every state of \<open>base\<close>, seen or possibly durable now or at any past instant, is one of \<open>G\<close>.\<close>

definition only :: "string \<Rightarrow> dfile option set \<Rightarrow> disk \<Rightarrow> bool" where
  "only n G d \<longleftrightarrow> map_of (d_cur d) n \<in> G \<and> (\<forall>m \<in> set (d_maybe d # d_past d). m n \<subseteq> G)"

interpretation only: disk_inv "only n G" "\<lambda>k. k \<noteq> n" for n G
proof
  show "only n G (disk_bind k v d)" if "only n G d" "k \<noteq> n" for k v d
    using that unfolding only_def disk_bind_lookup by (auto simp: disk_bind_def Let_def)
qed (auto simp: only_def disk_barrier_def Let_def)

lemma only_bind: "only n G d \<Longrightarrow> v \<in> G \<Longrightarrow> only n G (disk_bind n v d)"
  unfolding only_def disk_bind_lookup by (auto simp: disk_bind_def Let_def)

lemma only_mono: "only n G d \<Longrightarrow> G \<subseteq> H \<Longrightarrow> only n H d"
  unfolding only_def by blast

context disk_inv
begin

lemma keeps_CreateTemp: "(\<And>r. touch (pre @ r @ suf)) \<Longrightarrow> keeps J (os_CreateTemp pre suf)"
proof -
  assume "\<And>r. touch (pre @ r @ suf)"
  then have "keeps J (os_CreateTemp_loop k pre suf)" for k
    by (induction k) (auto intro!: hoare simp: Let_def)
  then show ?thesis by (simp add: os_CreateTemp_def)
qed

lemma keeps_writeAndSync: "touch tmp \<Longrightarrow> keeps J (writeAndSync tmp data)"
  unfolding writeAndSync_def by (intro hoare)

lemma keeps_atomic_cleanup: "touch tmp \<Longrightarrow> keeps J (atomic_cleanup c tmp e)"
  unfolding atomic_cleanup_def by (intro hoare)

lemma keeps_sweep: "(\<And>n. staging_name base n \<Longrightarrow> touch n) \<Longrightarrow> keeps J (sweepStaleStagingFiles lstat base)"
proof -
  assume "\<And>n. staging_name base n \<Longrightarrow> touch n"
  then have "keeps J (sweep_entries lstat base names)" for names
    by (induction names) (auto intro!: hoare)
  then show ?thesis unfolding sweepStaleStagingFiles_def by (intro hoare)
qed

end

lemma CreateTemp_result: "returns (os_CreateTemp pre suf) (\<lambda>r. \<forall>n. r = Inr n \<longrightarrow> (\<exists>x. n = pre @ x @ suf))"
proof -
  have "returns (os_CreateTemp_loop k pre suf) (\<lambda>r. \<forall>n. r = Inr n \<longrightarrow> (\<exists>x. n = pre @ x @ suf))" for k
    by (induction k) (auto intro!: result simp: Let_def)
  then show ?thesis by (simp add: os_CreateTemp_def)
qed

lemma writeAndSync_ok:
  "triple (\<lambda>_. True) (writeAndSync tmp data)
     (\<lambda>r d. r = None \<longrightarrow> map_of (d_cur d) tmp = Some \<lparr>f_data = data, f_synced = True\<rparr>)"
  unfolding writeAndSync_def
proof (rule triple_bind [OF disk_write_ok], rule triple_prod)
  fix w :: "nat \<times> os_err option" and n err
  assume w: "w = (n, err)"
  note sync = disk_syncFile_ok [of tmp "\<lparr>f_data = data, f_synced = False\<rparr>", simplified]
  show "triple (\<lambda>d. snd w = None \<and> fst w = length data \<longrightarrow> map_of (d_cur d) tmp = Some \<lparr>f_data = data, f_synced = False\<rparr>)
     (if err \<noteq> None then State_Monad.return err
      else if n \<noteq> length data then State_Monad.return (Some OsErr) else disk_syncFile tmp)
     (\<lambda>r d. r = None \<longrightarrow> map_of (d_cur d) tmp = Some \<lparr>f_data = data, f_synced = True\<rparr>)"
    unfolding w by (intro triple_if triple_return triple_pre [OF sync]) auto
qed

lemma atomic_cleanup_spec:
  assumes "tmp \<noteq> base"
  shows "triple (only base G) (atomic_cleanup c tmp err) (\<lambda>r d. only base G d \<and> r \<noteq> None)"
proof -
  have "returns (atomic_cleanup c tmp err) (\<lambda>r. r \<noteq> None)"
    unfolding atomic_cleanup_def by (intro result) simp
  from triple_returns [OF only.keeps_atomic_cleanup [OF assms, unfolded keeps_def] this] show ?thesis .
qed

lemma disk_move_only:
  assumes "only base G d" "map_of (d_cur d) tmp = Some x" "Some x \<in> G" "tmp \<noteq> base"
  shows "only base G (disk_move tmp base d) \<and> map_of (d_cur (disk_move tmp base d)) base = Some x"
  using assms only.J_bind [OF only_bind [OF assms(1,3)] assms(4)] by (simp add: disk_move_def disk_bind_lookup)

text \<open>The published file, and what an observer of \<open>base\<close> may find meanwhile.\<close>

lemma atomic_publish_spec:
  assumes x: "x = \<lparr>f_data = data, f_synced = True\<rparr>" "Some x \<in> G" "tmp \<noteq> base"
  shows "triple (\<lambda>d. only base G d \<and> map_of (d_cur d) tmp = Some x) (atomic_publish tmp base)
    (\<lambda>r d. only base G d \<and> (r = None \<longrightarrow> map_of (d_cur d) base = Some x))"
proof -
  let ?P = "\<lambda>d. only base G d \<and> map_of (d_cur d) tmp = Some x"
  have "keeps (only base G) disk_outcome" "keeps (\<lambda>d. map_of (d_cur d) tmp = Some x) disk_outcome"
    by (rule only.keeps_outcome, rule sees.keeps_outcome)
  then have out: "triple ?P disk_outcome (\<lambda>_. ?P)" by (simp add: keeps_def triple_def)
  have move: "triple ?P (disk_rename tmp base)
      (\<lambda>r d. only base G d \<and> (r = None \<longrightarrow> map_of (d_cur d) base = Some x))"
    unfolding disk_rename_def disk_effect_def
    by (rule triple_bind [OF out], rule triple_State)
      (use disk_move_only [OF _ _ x(2,3)] in \<open>auto split: outcome.splits\<close>)
  have clean: "triple (\<lambda>d. only base G d \<and> (r = None \<longrightarrow> map_of (d_cur d) base = Some x)) (atomic_cleanup True tmp err)
      (\<lambda>r d. only base G d \<and> (r = None \<longrightarrow> map_of (d_cur d) base = Some x))" for r err
    by (rule triple_post [OF triple_pre [OF atomic_cleanup_spec [OF x(3)]]]) auto
  have sync: "triple (\<lambda>d. only base G d \<and> (None = None \<longrightarrow> map_of (d_cur d) base = Some x))
      (State_Monad.bind disk_syncDir (\<lambda>_. State_Monad.return None))
      (\<lambda>r d. only base G d \<and> (r = None \<longrightarrow> map_of (d_cur d) base = Some x))"
  proof (rule triple_bind)
    show "triple (\<lambda>d. only base G d \<and> (None = None \<longrightarrow> map_of (d_cur d) base = Some x)) disk_syncDir
      (\<lambda>_ d. only base G d \<and> map_of (d_cur d) base = Some x)"
      using only.keeps_syncDir [of base G] sees.keeps_syncDir [of base "Some x"] by (simp add: keeps_def triple_def)
  qed (auto intro: triple_return)
  show ?thesis
    unfolding atomic_publish_def
  proof (rule triple_bind [OF move])
    fix r
    show "triple (\<lambda>d. only base G d \<and> (r = None \<longrightarrow> map_of (d_cur d) base = Some x))
       (case r of None \<Rightarrow> State_Monad.bind disk_syncDir (\<lambda>_. State_Monad.return None)
        | Some err \<Rightarrow> atomic_cleanup True tmp err)
       (\<lambda>r d. only base G d \<and> (r = None \<longrightarrow> map_of (d_cur d) base = Some x))"
      using sync clean [of r] by (cases r) auto
  qed
qed

lemma atomic_fill_spec:
  assumes x: "x = \<lparr>f_data = data, f_synced = True\<rparr>" "Some x \<in> G" "tmp \<noteq> base"
  shows "triple (only base G) (atomic_fill tmp base data)
    (\<lambda>r d. only base G d \<and> (r = None \<longrightarrow> map_of (d_cur d) base = Some x))"
proof -
  let ?Q = "\<lambda>r d. only base G d \<and> (r = None \<longrightarrow> map_of (d_cur d) base = Some x)"
  have clean: "triple (only base G) (atomic_cleanup c tmp err) ?Q" for c err
    by (rule triple_post [OF atomic_cleanup_spec [OF x(3)]]) auto
  have wrote: "triple (only base G) (writeAndSync tmp data)
      (\<lambda>r d. only base G d \<and> (r = None \<longrightarrow> map_of (d_cur d) tmp = Some x))"
    using only.keeps_writeAndSync [OF x(3), of G data] writeAndSync_ok [of tmp data] x(1)
    by (auto simp: keeps_def triple_def)
  have close: "triple (\<lambda>d. only base G d \<and> (None = None \<longrightarrow> map_of (d_cur d) tmp = Some x)) disk_close
      (\<lambda>_ d. only base G d \<and> map_of (d_cur d) tmp = Some x)"
    using only.keeps_close [of base G] sees.keeps_close [of tmp "Some x"] by (auto simp: keeps_def triple_def)
  note check = only.keeps_check [of base G, unfolded keeps_def]
  show ?thesis
    unfolding atomic_fill_def
    by (intro triple_bind [OF check] triple_if clean triple_bind [OF wrote] triple_option triple_bind [OF triple_pre [OF close]]
        atomic_publish_spec [OF x] triple_pre [OF clean]) auto
qed

lemma writeFileAtomic_spec:
  assumes x: "x = \<lparr>f_data = data, f_synced = True\<rparr>" "Some x \<in> G"
  shows "triple (only base G) (writeFileAtomic base data)
    (\<lambda>r d. only base G d \<and> (r = None \<longrightarrow> map_of (d_cur d) base = Some x))"
proof -
  obtain pre suf where b: "stagingNameBounds base = (pre, suf)" by fastforce
  have other: "pre @ r @ suf \<noteq> base" for r
  proof -
    have "length base < length (pre @ r @ suf)" using b by (auto simp: stagingNameBounds_def)
    then show ?thesis by auto
  qed
  have temp: "triple (only base G) (os_CreateTemp pre suf)
      (\<lambda>r d. only base G d \<and> (\<forall>n. r = Inr n \<longrightarrow> n \<noteq> base))"
  proof -
    have "returns (os_CreateTemp pre suf) (\<lambda>r. \<forall>n. r = Inr n \<longrightarrow> n \<noteq> base)"
      by (rule returns_weaken [OF CreateTemp_result]) (use other in blast)
    from triple_returns [OF only.keeps_CreateTemp [OF other, unfolded keeps_def] this] show ?thesis .
  qed
  show ?thesis
    unfolding writeFileAtomic_def b fst_conv snd_conv
  proof (rule triple_bind [OF temp])
    fix r :: "os_err + string"
    show "triple (\<lambda>d. only base G d \<and> (\<forall>n. r = Inr n \<longrightarrow> n \<noteq> base))
       (case r of Inl err \<Rightarrow> State_Monad.return (Some err) | Inr tmp \<Rightarrow> atomic_fill tmp base data)
       (\<lambda>r d. only base G d \<and> (r = None \<longrightarrow> map_of (d_cur d) base = Some x))"
    proof (cases r)
      case (Inr tmp)
      show ?thesis
      proof (cases "tmp = base")
        case False
        from atomic_fill_spec [OF x False] show ?thesis unfolding Inr sum.case by (rule triple_pre) simp
      qed (simp add: Inr triple_def)
    qed (auto intro: triple_return)
  qed
qed

end
