(* ===== verification/Checkpoint_Store.thy ===== *)
theory Checkpoint_Store
  imports Atomic_File
begin

text \<open>
  \<open>src/internal/collector/checkpoint.go\<close> with \<open>checkpoint_shard.go\<close> and the reader of \<open>src/internal/safefile\<close>: the
  high-water marks of the window collectors. The Go interface is the record \<open>CheckpointStore\<close>; its
  contract is the locale \<open>checkpoint_store\<close>, interpreted on the in-memory store, on the file store
  under arbitrary faults, and on namespaced views of both. JSON is a parameter (\<open>cp_lib\<close>). The
  debounce timer is a flag and its callback a call of its own.
\<close>

section \<open>The interface\<close>

datatype sf_error = SfNotExist | SfIO | ErrNotRegular | ErrTooLarge | SfBadLimit

datatype cp_error = CpOs os_err | CpEncode | CpRead sf_error | ErrCorruptCheckpoint | CpOther

type_synonym cursors = "(string, gotime) gomap"

record 's CheckpointStore =
  cs_Get :: "string \<Rightarrow> 's \<Rightarrow> gotime option"
  cs_Set :: "string \<Rightarrow> gotime \<Rightarrow> ('s, cp_error option) state"
  cs_Keys :: "'s \<Rightarrow> string list"
  cs_Delete :: "string \<Rightarrow> ('s, cp_error option) state"
  cs_setBatch :: "(cursors \<Rightarrow> string list \<Rightarrow> ('s, cp_error option) state) option"
  cs_Flush :: "('s, cp_error option) state option"

abbreviation after :: "('s, 'a) state \<Rightarrow> 's \<Rightarrow> 's" where
  "after m s \<equiv> snd (run_state m s)"

abbreviation outcome_of :: "('s, 'a) state \<Rightarrow> 's \<Rightarrow> 'a" where
  "outcome_of m s \<equiv> fst (run_state m s)"

fun cs_deleteAll :: "'s CheckpointStore \<Rightarrow> string list \<Rightarrow> ('s, cp_error option) state" where
  "cs_deleteAll st [] = State_Monad.return None"
| "cs_deleteAll st (k # ks) = do {
     e \<leftarrow> cs_Delete st k;
     case e of Some err \<Rightarrow> State_Monad.return (Some err) | None \<Rightarrow> cs_deleteAll st ks
   }"

fun cs_setAll :: "'s CheckpointStore \<Rightarrow> cursors \<Rightarrow> ('s, cp_error option) state" where
  "cs_setAll st [] = State_Monad.return None"
| "cs_setAll st ((k, v) # us) = do {
     e \<leftarrow> cs_Set st k v;
     case e of Some err \<Rightarrow> State_Monad.return (Some err) | None \<Rightarrow> cs_setAll st us
   }"

definition UpdateCheckpointBatch :: "'s CheckpointStore \<Rightarrow> cursors \<Rightarrow> string list \<Rightarrow> ('s, cp_error option) state" where
  "UpdateCheckpointBatch st updates deletes =
     (case cs_setBatch st of
        Some batch \<Rightarrow> batch updates deletes
      | None \<Rightarrow> do {
          e \<leftarrow> cs_deleteAll st deletes;
          case e of Some err \<Rightarrow> State_Monad.return (Some err) | None \<Rightarrow> cs_setAll st updates
        })"

section \<open>In memory\<close>

fun batch_map :: "cursors \<Rightarrow> string list \<Rightarrow> cursors \<Rightarrow> cursors" where
  "batch_map updates deletes m = fold (\<lambda>(k, v). AList.update k v) updates (fold AList.delete deletes m)"

definition keysOf :: "cursors \<Rightarrow> string list" where
  "keysOf m = map fst m"

definition memory_Get :: "string \<Rightarrow> cursors \<Rightarrow> gotime option" where
  "memory_Get name m = map_of m name"

definition memory_Set :: "string \<Rightarrow> gotime \<Rightarrow> (cursors, cp_error option) state" where
  "memory_Set name t = State (\<lambda>m. (None, AList.update name t m))"

definition memory_Delete :: "string \<Rightarrow> (cursors, cp_error option) state" where
  "memory_Delete name = State (\<lambda>m. (None, AList.delete name m))"

definition memory_setBatch :: "cursors \<Rightarrow> string list \<Rightarrow> (cursors, cp_error option) state" where
  "memory_setBatch updates deletes = State (\<lambda>m. (None, batch_map updates deletes m))"

definition memoryStore :: "cursors CheckpointStore" where
  "memoryStore = \<lparr>cs_Get = memory_Get, cs_Set = memory_Set, cs_Keys = keysOf, cs_Delete = memory_Delete,
     cs_setBatch = Some memory_setBatch, cs_Flush = Some (State_Monad.return None)\<rparr>"

definition NewMemoryStore :: cursors where "NewMemoryStore = []"

section \<open>In a file\<close>

record cp_lib =
  cl_Marshal :: "cursors \<Rightarrow> string option"
  cl_Unmarshal :: "string \<Rightarrow> cursors option"

record fileStore =
  fs_path :: string
  fs_m :: cursors
  fs_writeDebounce :: int
  fs_timer :: bool
  fs_dirty :: bool
  fs_persistErr :: "cp_error option"
  fs_disk :: disk

definition on_file :: "(disk, 'a) state \<Rightarrow> (fileStore, 'a) state" where
  "on_file m = State (\<lambda>s. case run_state m (fs_disk s) of (r, d) \<Rightarrow> (r, s\<lparr>fs_disk := d\<rparr>))"

definition persistLocked :: "cp_lib \<Rightarrow> (fileStore, cp_error option) state" where
  "persistLocked lib = do {
     s \<leftarrow> State_Monad.get;
     case cl_Marshal lib (fs_m s) of
       None \<Rightarrow> State_Monad.return (Some CpEncode)
     | Some data \<Rightarrow> do {
         e \<leftarrow> on_file (writeFileAtomic (fs_path s) data);
         State_Monad.return (map_option CpOs e)
       }
   }"

definition markDirtyLocked :: "(fileStore, unit) state" where
  "markDirtyLocked = State_Monad.update (\<lambda>s. s\<lparr>fs_dirty := True, fs_timer := True\<rparr>)"

definition file_commit :: "cp_lib \<Rightarrow> (fileStore, cp_error option) state" where
  "file_commit lib = do {
     s \<leftarrow> State_Monad.get;
     if 0 < fs_writeDebounce s then do { markDirtyLocked; State_Monad.return None } else persistLocked lib
   }"

definition file_Get :: "string \<Rightarrow> fileStore \<Rightarrow> gotime option" where
  "file_Get name s = map_of (fs_m s) name"

definition file_Keys :: "fileStore \<Rightarrow> string list" where
  "file_Keys s = keysOf (fs_m s)"

definition file_Set :: "cp_lib \<Rightarrow> string \<Rightarrow> gotime \<Rightarrow> (fileStore, cp_error option) state" where
  "file_Set lib name t = do {
     State_Monad.update (\<lambda>s. s\<lparr>fs_m := AList.update name t (fs_m s)\<rparr>);
     file_commit lib
   }"

definition file_Delete :: "cp_lib \<Rightarrow> string \<Rightarrow> (fileStore, cp_error option) state" where
  "file_Delete lib name = do {
     s \<leftarrow> State_Monad.get;
     if map_of (fs_m s) name = None then State_Monad.return None
     else do {
       State_Monad.update (\<lambda>s. s\<lparr>fs_m := AList.delete name (fs_m s)\<rparr>);
       file_commit lib
     }
   }"

definition file_setBatch :: "cp_lib \<Rightarrow> cursors \<Rightarrow> string list \<Rightarrow> (fileStore, cp_error option) state" where
  "file_setBatch lib updates deletes = do {
     State_Monad.update (\<lambda>s. s\<lparr>fs_m := batch_map updates deletes (fs_m s)\<rparr>);
     file_commit lib
   }"

definition persistDirtyLocked :: "cp_lib \<Rightarrow> (fileStore, cp_error option) state" where
  "persistDirtyLocked lib = do {
     s \<leftarrow> State_Monad.get;
     if \<not> fs_dirty s then State_Monad.return (fs_persistErr s)
     else do {
       State_Monad.update (\<lambda>s. s\<lparr>fs_dirty := False\<rparr>);
       e \<leftarrow> persistLocked lib;
       case e of
         Some err \<Rightarrow> do {
           State_Monad.update (\<lambda>s. s\<lparr>fs_dirty := True, fs_persistErr := Some err\<rparr>);
           State_Monad.return (Some err)
         }
       | None \<Rightarrow> do {
           State_Monad.update (\<lambda>s. s\<lparr>fs_persistErr := None\<rparr>);
           State_Monad.return None
         }
     }
   }"

definition persistDebounced :: "cp_lib \<Rightarrow> (fileStore, unit) state" where
  "persistDebounced lib = do {
     s \<leftarrow> State_Monad.get;
     if \<not> fs_timer s then State_Monad.return ()
     else do {
       State_Monad.update (\<lambda>s. s\<lparr>fs_timer := False\<rparr>);
       _ \<leftarrow> persistDirtyLocked lib;
       State_Monad.return ()
     }
   }"

definition file_Flush :: "cp_lib \<Rightarrow> (fileStore, cp_error option) state" where
  "file_Flush lib = do {
     State_Monad.update (\<lambda>s. s\<lparr>fs_timer := False\<rparr>);
     persistDirtyLocked lib
   }"

definition file_store :: "cp_lib \<Rightarrow> fileStore CheckpointStore" where
  "file_store lib = \<lparr>cs_Get = file_Get, cs_Set = file_Set lib, cs_Keys = file_Keys, cs_Delete = file_Delete lib,
     cs_setBatch = Some (file_setBatch lib), cs_Flush = Some (file_Flush lib)\<rparr>"

text \<open>\<open>safefile.ReadRegular\<close>: open without following links, refuse what is not regular or too large.\<close>

definition ReadRegular :: "int \<Rightarrow> string \<Rightarrow> (disk, sf_error + string) state" where
  "ReadRegular limit name =
     (if limit \<le> 0 then State_Monad.return (Inl SfBadLimit)
      else do {
        present \<leftarrow> disk_exists name;
        if \<not> present then State_Monad.return (Inl SfNotExist)
        else do {
          opened \<leftarrow> disk_check;
          if \<not> opened then State_Monad.return (Inl SfIO)
          else do {
            inspected \<leftarrow> disk_check;
            if \<not> inspected then State_Monad.return (Inl SfIO)
            else do {
              regular \<leftarrow> disk_check;
              if \<not> regular then State_Monad.return (Inl ErrNotRegular)
              else do {
                r \<leftarrow> disk_read name;
                State_Monad.return (case r of
                  None \<Rightarrow> Inl SfIO
                | Some data \<Rightarrow> if limit < int (length data) then Inl ErrTooLarge else Inr data)
              }
            }
          }
        }
      })"

definition MaxCheckpointBytes :: int where "MaxCheckpointBytes = 16 * 2 ^ 20"

definition NewFileStore :: "cp_lib \<Rightarrow> (string \<Rightarrow> int option) \<Rightarrow> string \<Rightarrow> int \<Rightarrow> disk \<Rightarrow> cp_error + fileStore" where
  "NewFileStore lib lstat path debounce d =
     (let d1 = after (sweepStaleStagingFiles lstat path) d;
          fs = \<lparr>fs_path = path, fs_m = [], fs_writeDebounce = max 0 debounce, fs_timer = False, fs_dirty = False,
                fs_persistErr = None, fs_disk = d1\<rparr>
      in case run_state (ReadRegular MaxCheckpointBytes path) d1 of
           (Inl e, d2) \<Rightarrow> if e = SfNotExist then Inr (fs\<lparr>fs_disk := d2\<rparr>) else Inl (CpRead e)
         | (Inr data, d2) \<Rightarrow>
             (if data = [] then Inr (fs\<lparr>fs_disk := d2\<rparr>)
              else case cl_Unmarshal lib data of
                None \<Rightarrow> Inl ErrCorruptCheckpoint
              | Some m \<Rightarrow> Inr (fs\<lparr>fs_m := m, fs_disk := d2\<rparr>)))"

section \<open>Namespaced views\<close>

definition ns_view :: "'s CheckpointStore \<Rightarrow> string \<Rightarrow> 's CheckpointStore" where
  "ns_view st prefix' = \<lparr>
     cs_Get = (\<lambda>name. cs_Get st (prefix' @ name)),
     cs_Set = (\<lambda>name. cs_Set st (prefix' @ name)),
     cs_Keys = (\<lambda>s. List.map_filter (\<lambda>k. strings_CutPrefix k prefix') (cs_Keys st s)),
     cs_Delete = (\<lambda>name. cs_Delete st (prefix' @ name)),
     cs_setBatch = Some (\<lambda>updates deletes.
       UpdateCheckpointBatch st (map (\<lambda>(k, v). (prefix' @ k, v)) updates) (map ((@) prefix') deletes)),
     cs_Flush = Some (case cs_Flush st of None \<Rightarrow> State_Monad.return None | Some f \<Rightarrow> f)\<rparr>"

definition Namespaced :: "'s CheckpointStore \<Rightarrow> string \<Rightarrow> 's CheckpointStore" where
  "Namespaced st ns = (if ns = [] then st else ns_view st (ns @ ''/''))"

section \<open>Shards\<close>

definition isCheckpointCollectorNamespace :: "string \<Rightarrow> bool" where
  "isCheckpointCollectorNamespace part \<longleftrightarrow> part \<in> {''flowlogs'', ''auditlogs'', ''acl''}"

fun shard_objectstore :: "nat \<Rightarrow> string list \<Rightarrow> nat option" where
  "shard_objectstore i (a # b # rest) =
     (if \<not> 4 \<le> length rest then None
      else if a = ''objectstore'' \<and> b = ''v1'' then Some i
      else shard_objectstore (Suc i) (b # rest))"
| "shard_objectstore i _ = None"

definition ShardKey :: "string \<Rightarrow> string" where
  "ShardKey key =
     (let parts = split_byte (CHR ''/'') key
      in case shard_objectstore 0 parts of
           Some i \<Rightarrow> join_byte (CHR ''/'') (take (i + 6) parts)
         | None \<Rightarrow>
             if 2 \<le> length parts \<and> isCheckpointCollectorNamespace (parts ! 1) then join_byte (CHR ''/'') (take 2 parts)
             else if 1 \<le> length parts \<and> isCheckpointCollectorNamespace (parts ! 0) then parts ! 0
             else key)"

section \<open>The contract\<close>

definition batch_view :: "cursors \<Rightarrow> string list \<Rightarrow> (string \<Rightarrow> gotime option) \<Rightarrow> string \<Rightarrow> gotime option" where
  "batch_view updates deletes get name =
     (case map_of (rev updates) name of
        Some t \<Rightarrow> Some t
      | None \<Rightarrow> if name \<in> set deletes then None else get name)"

locale checkpoint_store =
  fixes st :: "'s CheckpointStore" and ok :: "'s \<Rightarrow> bool"
  assumes ok_Set: "ok s \<Longrightarrow> ok (after (cs_Set st n t) s)"
    and ok_Delete: "ok s \<Longrightarrow> ok (after (cs_Delete st n) s)"
    and Get_Set: "ok s \<Longrightarrow> cs_Get st k (after (cs_Set st n t) s) = (if k = n then Some t else cs_Get st k s)"
    and Get_Delete: "ok s \<Longrightarrow> cs_Get st k (after (cs_Delete st n) s) = (if k = n then None else cs_Get st k s)"
    and Keys: "ok s \<Longrightarrow> distinct (cs_Keys st s) \<and> set (cs_Keys st s) = {n. cs_Get st n s \<noteq> None}"
    and Batch: "cs_setBatch st = Some f \<Longrightarrow> ok s \<Longrightarrow>
      ok (after (f us ds) s) \<and>
      (outcome_of (f us ds) s = None \<longrightarrow>
        (\<forall>k. cs_Get st k (after (f us ds) s) = batch_view us ds (\<lambda>n. cs_Get st n s) k))"

context checkpoint_store
begin

lemma deleteAll_spec:
  "ok s \<Longrightarrow> ok (after (cs_deleteAll st ds) s) \<and> (outcome_of (cs_deleteAll st ds) s = None \<longrightarrow>
     (\<forall>k. cs_Get st k (after (cs_deleteAll st ds) s) = (if k \<in> set ds then None else cs_Get st k s)))"
proof (induction ds arbitrary: s)
  case (Cons d ds)
  obtain e s1 where r: "run_state (cs_Delete st d) s = (e, s1)" by fastforce
  with ok_Delete [OF Cons.prems, of d] Get_Delete [OF Cons.prems, of _ d]
  have s1: "ok s1" "\<And>k. cs_Get st k s1 = (if k = d then None else cs_Get st k s)" by auto
  from Cons.IH [OF s1(1)] s1 r show ?case by (cases e) (auto simp: State_Monad.bind_def)
qed simp

lemma setAll_spec:
  "ok s \<Longrightarrow> ok (after (cs_setAll st us) s) \<and> (outcome_of (cs_setAll st us) s = None \<longrightarrow>
     (\<forall>k. cs_Get st k (after (cs_setAll st us) s) = (case map_of (rev us) k of Some t \<Rightarrow> Some t | None \<Rightarrow> cs_Get st k s)))"
proof (induction us arbitrary: s)
  case (Cons u us)
  obtain n v where u: "u = (n, v)" by (cases u)
  obtain e s1 where r: "run_state (cs_Set st n v) s = (e, s1)" by fastforce
  with ok_Set [OF Cons.prems, of n v] Get_Set [OF Cons.prems, of _ n v]
  have s1: "ok s1" "\<And>k. cs_Get st k s1 = (if k = n then Some v else cs_Get st k s)" by auto
  from Cons.IH [OF s1(1)] s1 r u show ?case
    by (cases e) (auto simp: State_Monad.bind_def map_add_def split: option.splits)
qed simp

text \<open>A batch applies deletes, then updates, whichever way the store takes it.\<close>

lemma UpdateCheckpointBatch_spec:
  assumes "ok s"
  shows "ok (after (UpdateCheckpointBatch st us ds) s) \<and>
    (outcome_of (UpdateCheckpointBatch st us ds) s = None \<longrightarrow>
      (\<forall>k. cs_Get st k (after (UpdateCheckpointBatch st us ds) s) = batch_view us ds (\<lambda>n. cs_Get st n s) k))"
proof (cases "cs_setBatch st")
  case None
  obtain e s1 where r: "run_state (cs_deleteAll st ds) s = (e, s1)" by fastforce
  with deleteAll_spec [OF assms, of ds] have s1: "ok s1"
    "e = None \<Longrightarrow> cs_Get st k s1 = (if k \<in> set ds then None else cs_Get st k s)" for k by auto
  from setAll_spec [OF s1(1), of us] None r s1 show ?thesis
    by (cases e) (auto simp: UpdateCheckpointBatch_def State_Monad.bind_def batch_view_def split: option.splits)
next
  case (Some f)
  with Batch [OF Some assms] show ?thesis by (simp add: UpdateCheckpointBatch_def)
qed

lemma ns_view_store: "checkpoint_store (ns_view st p) ok"
proof
  fix s n t k
  assume s: "ok s"
  then show "ok (after (cs_Set (ns_view st p) n t) s)" "ok (after (cs_Delete (ns_view st p) n) s)"
    by (simp_all add: ns_view_def ok_Set ok_Delete)
  from s show "cs_Get (ns_view st p) k (after (cs_Set (ns_view st p) n t) s) =
      (if k = n then Some t else cs_Get (ns_view st p) k s)"
    "cs_Get (ns_view st p) k (after (cs_Delete (ns_view st p) n) s) =
      (if k = n then None else cs_Get (ns_view st p) k s)"
    by (simp_all add: ns_view_def Get_Set Get_Delete)
  have cut: "strings_CutPrefix x p = Some y \<longleftrightarrow> x = p @ y" for x y by (rule CutPrefix_Some_iff)
  have members: "set (List.map_filter (\<lambda>k. strings_CutPrefix k p) xs) = {y. p @ y \<in> set xs}" for xs
  proof (induction xs)
    case (Cons x xs)
    then show ?case by (cases "strings_CutPrefix x p") (auto simp: cut)
  qed simp
  moreover have "distinct (List.map_filter (\<lambda>k. strings_CutPrefix k p) xs)" if "distinct xs" for xs
    using that
  proof (induction xs)
    case (Cons x xs)
    then show ?case by (cases "strings_CutPrefix x p") (auto simp: cut members)
  qed simp
  ultimately show "distinct (cs_Keys (ns_view st p) s) \<and>
      set (cs_Keys (ns_view st p) s) = {n. cs_Get (ns_view st p) n s \<noteq> None}"
    using Keys [OF s] by (simp add: ns_view_def)
next
  fix f s and us :: cursors and ds
  assume f: "cs_setBatch (ns_view st p) = Some f" and s: "ok s"
  let ?us = "map (\<lambda>(k, v). (p @ k, v)) us" and ?ds = "map ((@) p) ds"
  from f have f: "f us ds = UpdateCheckpointBatch st ?us ?ds" by (auto simp: ns_view_def)
  have lookup: "map_of (rev ?us) (p @ k) = map_of (rev us) k" for k
    by (induction us) (auto simp: map_add_def split: option.splits)
  have "p @ k \<in> set ?ds \<longleftrightarrow> k \<in> set ds" for k by auto
  with lookup have "batch_view ?us ?ds (\<lambda>n. cs_Get st n s) (p @ k) = batch_view us ds (\<lambda>n. cs_Get (ns_view st p) n s) k" for k
    by (simp add: batch_view_def ns_view_def)
  with UpdateCheckpointBatch_spec [OF s, of ?us ?ds]
  show "ok (after (f us ds) s) \<and> (outcome_of (f us ds) s = None \<longrightarrow>
      (\<forall>k. cs_Get (ns_view st p) k (after (f us ds) s) = batch_view us ds (\<lambda>n. cs_Get (ns_view st p) n s) k))"
    unfolding f by (simp add: ns_view_def)
qed

end

section \<open>The stores keep the contract\<close>

lemma batch_map_lookup: "map_of (batch_map us ds m) k = batch_view us ds (map_of m) k"
proof -
  have "map_of (fold AList.delete ds m) k = (if k \<in> set ds then None else map_of m k)" for m :: cursors
    by (induction ds arbitrary: m) (auto simp: delete_conv')
  moreover have "map_of (fold (\<lambda>(k, v). AList.update k v) us m) k =
      (case map_of (rev us) k of Some t \<Rightarrow> Some t | None \<Rightarrow> map_of m k)" for m :: cursors
    by (induction us arbitrary: m) (auto simp: update_conv' map_add_def split: option.splits)
  ultimately show ?thesis by (simp add: batch_view_def split: option.split)
qed

lemma batch_map_ok: "gomap_ok m \<Longrightarrow> gomap_ok (batch_map us ds m)"
proof -
  have "gomap_ok m \<Longrightarrow> gomap_ok (fold AList.delete ds m)" for m :: cursors by (induction ds arbitrary: m) auto
  moreover have "gomap_ok m \<Longrightarrow> gomap_ok (fold (\<lambda>(k, v). AList.update k v) us m)" for m :: cursors
    by (induction us arbitrary: m) auto
  ultimately show "gomap_ok m \<Longrightarrow> gomap_ok (batch_map us ds m)" by simp
qed

lemma keysOf_spec: "gomap_ok m \<Longrightarrow> distinct (keysOf m) \<and> set (keysOf m) = {n. map_of m n \<noteq> None}"
  unfolding keysOf_def by (auto simp: map_of_eq_None_iff)

interpretation memory: checkpoint_store memoryStore gomap_ok
proof
  fix m :: cursors
  assume "gomap_ok m"
  then show "distinct (cs_Keys memoryStore m) \<and> set (cs_Keys memoryStore m) = {n. cs_Get memoryStore n m \<noteq> None}"
    using keysOf_spec by (simp add: memoryStore_def memory_Get_def)
next
  fix f and m us :: cursors and ds
  assume "cs_setBatch memoryStore = Some f" "gomap_ok m"
  then show "gomap_ok (after (f us ds) m) \<and> (outcome_of (f us ds) m = None \<longrightarrow>
      (\<forall>k. cs_Get memoryStore k (after (f us ds) m) = batch_view us ds (\<lambda>n. cs_Get memoryStore n m) k))"
    using batch_map_ok batch_map_lookup by (auto simp: memoryStore_def memory_setBatch_def memory_Get_def simp del: batch_map.simps)
qed (auto simp: memoryStore_def memory_Set_def memory_Delete_def memory_Get_def update_conv' delete_conv')

text \<open>No persistence step changes the map in memory.\<close>

definition same_map :: "(fileStore, 'a) state \<Rightarrow> bool" where
  "same_map m \<longleftrightarrow> (\<forall>s. fs_m (after m s) = fs_m s)"

lemma same_map_rules:
  "same_map (State_Monad.return x)" "same_map State_Monad.get" "same_map (on_file d)"
  "(\<And>s. fs_m (f s) = fs_m s) \<Longrightarrow> same_map (State_Monad.update f)"
  "same_map a \<Longrightarrow> (\<And>x. same_map (g x)) \<Longrightarrow> same_map (State_Monad.bind a g)"
  by (auto simp: same_map_def on_file_def State_Monad.get_def State_Monad.update_def State_Monad.set_def
      State_Monad.bind_def split: prod.splits) (metis snd_conv)

lemma same_map_if: "same_map a \<Longrightarrow> same_map b \<Longrightarrow> same_map (if c then a else b)"
  by simp

lemma same_map_option: "same_map a \<Longrightarrow> (\<And>y. same_map (f y)) \<Longrightarrow> same_map (case x of None \<Rightarrow> a | Some y \<Rightarrow> f y)"
  by (cases x) simp_all

lemma same_map_persist: "same_map (persistLocked lib)"
  unfolding persistLocked_def by (intro same_map_rules same_map_option)

lemma same_map_commit: "same_map (file_commit lib)"
  unfolding file_commit_def markDirtyLocked_def by (intro same_map_rules same_map_if same_map_persist) simp

lemma commit_map: "fs_m (after (file_commit lib) s) = fs_m s"
  using same_map_commit by (simp add: same_map_def)

lemma file_map:
  "fs_m (after (file_Set lib n t) s) = AList.update n t (fs_m s)"
  "map_of (fs_m (after (file_Delete lib n) s)) = map_of (AList.delete n (fs_m s))"
  "gomap_ok (fs_m s) \<Longrightarrow> gomap_ok (fs_m (after (file_Delete lib n) s))"
  "fs_m (after (file_setBatch lib us ds) s) = batch_map us ds (fs_m s)"
  by (auto simp: file_Set_def file_Delete_def file_setBatch_def State_Monad.bind_def State_Monad.update_def
      State_Monad.get_def State_Monad.set_def commit_map delete_conv' map_of_eq_None_iff case_prod_unfold
      simp del: batch_map.simps)

interpretation filed: checkpoint_store "file_store lib" "\<lambda>s. gomap_ok (fs_m s)" for lib
proof
  fix s :: fileStore
  assume "gomap_ok (fs_m s)"
  then show "distinct (cs_Keys (file_store lib) s) \<and> set (cs_Keys (file_store lib) s) = {n. cs_Get (file_store lib) n s \<noteq> None}"
    using keysOf_spec by (simp add: file_store_def file_Get_def file_Keys_def)
next
  fix f and s :: fileStore and us :: cursors and ds
  assume "cs_setBatch (file_store lib) = Some f" "gomap_ok (fs_m s)"
  then show "gomap_ok (fs_m (after (f us ds) s)) \<and> (outcome_of (f us ds) s = None \<longrightarrow>
      (\<forall>k. cs_Get (file_store lib) k (after (f us ds) s) = batch_view us ds (\<lambda>n. cs_Get (file_store lib) n s) k))"
    using batch_map_ok batch_map_lookup by (auto simp: file_store_def file_map file_Get_def simp del: batch_map.simps)
qed (auto simp: file_store_def file_Get_def file_map update_conv' delete_conv')

interpretation memory_ns: checkpoint_store "ns_view memoryStore p" gomap_ok for p
  by (rule memory.ns_view_store)

interpretation filed_ns: checkpoint_store "ns_view (file_store lib) p" "\<lambda>s. gomap_ok (fs_m s)" for lib p
  by (rule filed.ns_view_store)

section \<open>What is in the file\<close>

datatype cp_call = CpSet string gotime | CpDelete string | CpBatch cursors "string list" | CpTimer | CpFlush

fun cp_exec :: "cp_lib \<Rightarrow> cp_call \<Rightarrow> (fileStore, unit) state" where
  "cp_exec lib (CpSet n t) = do { _ \<leftarrow> file_Set lib n t; State_Monad.return () }"
| "cp_exec lib (CpDelete n) = do { _ \<leftarrow> file_Delete lib n; State_Monad.return () }"
| "cp_exec lib (CpBatch us ds) = do { _ \<leftarrow> file_setBatch lib us ds; State_Monad.return () }"
| "cp_exec lib CpTimer = persistDebounced lib"
| "cp_exec lib CpFlush = do { _ \<leftarrow> file_Flush lib; State_Monad.return () }"

fun cp_calls :: "cp_lib \<Rightarrow> cp_call list \<Rightarrow> (fileStore, unit) state" where
  "cp_calls lib [] = State_Monad.return ()"
| "cp_calls lib (c # cs) = do { cp_exec lib c; cp_calls lib cs }"

lemma keeps_cp_calls: "(\<And>c. c \<in> set cs \<Longrightarrow> keeps K (cp_exec lib c)) \<Longrightarrow> keeps K (cp_calls lib cs)"
  by (induction cs) (auto intro!: hoare)

text \<open>A file is one of the given ones or a complete, synced encoding of some map.\<close>

definition encodings :: "cp_lib \<Rightarrow> dfile option set" where
  "encodings lib = {Some \<lparr>f_data = s, f_synced = True\<rparr> | s m. cl_Marshal lib m = Some s}"

definition sound_file :: "cp_lib \<Rightarrow> string \<Rightarrow> dfile option \<Rightarrow> fileStore \<Rightarrow> bool" where
  "sound_file lib p v s \<longleftrightarrow> fs_path s = p \<and> only p (insert v (encodings lib)) (fs_disk s)"

lemma triple_get_bind:
  "(\<And>s0. triple (\<lambda>s. P s \<and> s = s0) (f s0) Q) \<Longrightarrow> triple P (State_Monad.bind State_Monad.get f) Q"
  by (simp add: triple_def State_Monad.get_def State_Monad.bind_def)

lemma persist_sound: "keeps (sound_file lib p v) (persistLocked lib)"
  unfolding persistLocked_def keeps_def
proof (rule triple_get_bind, rule triple_option)
  fix s0 :: fileStore and data
  assume "cl_Marshal lib (fs_m s0) = Some data"
  then have enc: "Some \<lparr>f_data = data, f_synced = True\<rparr> \<in> insert v (encodings lib)" by (auto simp: encodings_def)
  show "triple (\<lambda>s. sound_file lib p v s \<and> s = s0)
      (State_Monad.bind (on_file (writeFileAtomic (fs_path s0) data)) (\<lambda>e. State_Monad.return (map_option CpOs e)))
      (\<lambda>_. sound_file lib p v)"
    using writeFileAtomic_spec [OF refl enc, of p]
    by (auto simp: triple_def sound_file_def on_file_def State_Monad.bind_def case_prod_unfold)
qed (auto intro: triple_return)

lemma sound_update: "(\<And>s. fs_path (f s) = fs_path s \<and> fs_disk (f s) = fs_disk s) \<Longrightarrow>
  keeps (sound_file lib p v) (State_Monad.update f)"
  by (rule keeps_update) (simp add: sound_file_def)

lemma persistDirty_sound: "keeps (sound_file lib p v) (persistDirtyLocked lib)"
  unfolding persistDirtyLocked_def by (intro hoare sound_update persist_sound) simp_all

lemma commit_sound: "keeps (sound_file lib p v) (file_commit lib)"
  unfolding file_commit_def markDirtyLocked_def by (intro hoare sound_update persist_sound) simp

lemma exec_sound: "keeps (sound_file lib p v) (cp_exec lib c)"
  by (cases c) (auto simp: file_Set_def file_Delete_def file_setBatch_def persistDebounced_def file_Flush_def
      intro!: hoare sound_update commit_sound persistDirty_sound)

text \<open>The file holds the map in memory.\<close>

definition holds :: "cp_lib \<Rightarrow> string option \<Rightarrow> cursors \<Rightarrow> bool" where
  "holds lib content m =
     (case content of
        None \<Rightarrow> map_of m = Map.empty
      | Some data \<Rightarrow> if data = [] then map_of m = Map.empty
          else (\<exists>m'. cl_Unmarshal lib data = Some m' \<and> map_of m' = map_of m))"

definition content :: "string \<Rightarrow> disk \<Rightarrow> string option" where
  "content p d = map_option f_data (map_of (d_cur d) p)"

definition flushed :: "cp_lib \<Rightarrow> fileStore \<Rightarrow> bool" where
  "flushed lib s \<longleftrightarrow> fs_persistErr s = None \<and> holds lib (content (fs_path s) (fs_disk s)) (fs_m s)"

definition debounced :: "cp_lib \<Rightarrow> string \<Rightarrow> fileStore \<Rightarrow> bool" where
  "debounced lib p s \<longleftrightarrow> fs_path s = p \<and> 0 < fs_writeDebounce s \<and> (fs_dirty s \<or> flushed lib s)"

definition cp_lib_ok :: "cp_lib \<Rightarrow> bool" where
  "cp_lib_ok lib \<longleftrightarrow> (\<forall>m s. cl_Marshal lib m = Some s \<longrightarrow>
     s \<noteq> [] \<and> (\<exists>m'. cl_Unmarshal lib s = Some m' \<and> map_of m' = map_of m))"

lemma persist_holds:
  assumes "cp_lib_ok lib"
  shows "triple (\<lambda>s. fs_path s = p \<and> 0 < fs_writeDebounce s) (persistLocked lib)
    (\<lambda>e s. (fs_path s = p \<and> 0 < fs_writeDebounce s) \<and> (e = None \<longrightarrow> holds lib (content (fs_path s) (fs_disk s)) (fs_m s)))"
  unfolding persistLocked_def
proof (rule triple_get_bind, rule triple_option)
  fix s0 :: fileStore and data
  assume enc: "cl_Marshal lib (fs_m s0) = Some data"
  show "triple (\<lambda>s. (fs_path s = p \<and> 0 < fs_writeDebounce s) \<and> s = s0)
      (State_Monad.bind (on_file (writeFileAtomic (fs_path s0) data)) (\<lambda>e. State_Monad.return (map_option CpOs e)))
      (\<lambda>e s. (fs_path s = p \<and> 0 < fs_writeDebounce s) \<and>
        (e = None \<longrightarrow> holds lib (content (fs_path s) (fs_disk s)) (fs_m s)))"
  proof -
    have "triple (only p UNIV) (writeFileAtomic p data)
        (\<lambda>r d. only p UNIV d \<and> (r = None \<longrightarrow> map_of (d_cur d) p = Some \<lparr>f_data = data, f_synced = True\<rparr>))"
      by (rule writeFileAtomic_spec) simp_all
    then have "fst (run_state (writeFileAtomic p data) d) = None \<Longrightarrow>
        content p (snd (run_state (writeFileAtomic p data) d)) = Some data" for d
      by (simp add: triple_def only_def content_def)
    moreover have "holds lib (Some data) (fs_m s0)" using enc assms by (auto simp: holds_def cp_lib_ok_def)
    ultimately show ?thesis
      by (auto simp: triple_def on_file_def State_Monad.bind_def case_prod_unfold)
  qed
qed (auto intro: triple_return)

lemma persistDirty_spec:
  assumes "cp_lib_ok lib"
  shows "triple (debounced lib p) (persistDirtyLocked lib)
    (\<lambda>e s. debounced lib p s \<and> (e = None \<longrightarrow> flushed lib s))"
  unfolding persistDirtyLocked_def
proof (rule triple_get_bind, rule triple_if)
  fix s0 :: fileStore
  let ?P = "\<lambda>s. fs_path s = p \<and> 0 < fs_writeDebounce s"
  have clear: "triple (\<lambda>s. debounced lib p s \<and> s = s0) (State_Monad.update (\<lambda>s. s\<lparr>fs_dirty := False\<rparr>)) (\<lambda>_. ?P)"
    by (rule triple_update) (simp add: debounced_def)
  have fail: "triple (\<lambda>s. ?P s \<and> X s) (State_Monad.update (\<lambda>s. s\<lparr>fs_dirty := True, fs_persistErr := Some err\<rparr>))
      (\<lambda>_. debounced lib p)" for err X
    by (rule triple_update) (simp add: debounced_def)
  have good: "triple (\<lambda>s. ?P s \<and> (None = None \<longrightarrow> holds lib (content (fs_path s) (fs_disk s)) (fs_m s)))
      (State_Monad.update (\<lambda>s. s\<lparr>fs_persistErr := None\<rparr>)) (\<lambda>_ s. debounced lib p s \<and> flushed lib s)"
    by (rule triple_update) (auto simp: debounced_def flushed_def)
  show "triple (\<lambda>s. debounced lib p s \<and> s = s0)
      (State_Monad.bind (State_Monad.update (\<lambda>s. s\<lparr>fs_dirty := False\<rparr>)) (\<lambda>_. State_Monad.bind (persistLocked lib) (\<lambda>e.
        case e of None \<Rightarrow> State_Monad.bind (State_Monad.update (\<lambda>s. s\<lparr>fs_persistErr := None\<rparr>)) (\<lambda>_. State_Monad.return None)
        | Some err \<Rightarrow> State_Monad.bind (State_Monad.update (\<lambda>s. s\<lparr>fs_dirty := True, fs_persistErr := Some err\<rparr>))
            (\<lambda>_. State_Monad.return (Some err)))))
      (\<lambda>e s. debounced lib p s \<and> (e = None \<longrightarrow> flushed lib s))"
    by (intro triple_bind [OF clear] triple_bind [OF persist_holds [OF assms]] triple_option triple_bind [OF triple_pre [OF good]]
        triple_bind [OF fail] triple_return) auto
qed (auto intro!: triple_return simp: debounced_def flushed_def)

lemma commit_debounced:
  "triple (\<lambda>s. fs_path s = p \<and> 0 < fs_writeDebounce s) (file_commit lib) (\<lambda>_. debounced lib p)"
  unfolding file_commit_def
proof (rule triple_get_bind, rule triple_if)
  fix s0 :: fileStore
  show "triple (\<lambda>s. (fs_path s = p \<and> 0 < fs_writeDebounce s) \<and> s = s0)
      (State_Monad.bind markDirtyLocked (\<lambda>_. State_Monad.return None)) (\<lambda>_. debounced lib p)"
    unfolding markDirtyLocked_def
    by (rule triple_bind [where R = "\<lambda>_. debounced lib p"])
      (auto intro!: triple_return triple_update simp: debounced_def)
  show "triple (\<lambda>s. (fs_path s = p \<and> 0 < fs_writeDebounce s) \<and> s = s0) (persistLocked lib) (\<lambda>_. debounced lib p)"
    if "\<not> 0 < fs_writeDebounce s0"
    using that by (simp add: triple_def)
qed

lemma mutate_debounced:
  assumes "\<And>s. fs_path (f s) = fs_path s \<and> fs_writeDebounce (f s) = fs_writeDebounce s"
  shows "keeps (debounced lib p) (State_Monad.bind (State_Monad.update f) (\<lambda>_. file_commit lib))"
  unfolding keeps_def
proof (rule triple_bind)
  show "triple (debounced lib p) (State_Monad.update f) (\<lambda>_ s. fs_path s = p \<and> 0 < fs_writeDebounce s)"
    by (rule triple_update) (simp add: debounced_def assms)
qed (rule commit_debounced)

lemma exec_debounced:
  assumes "cp_lib_ok lib"
  shows "keeps (debounced lib p) (cp_exec lib c)"
proof -
  have mutate: "keeps (debounced lib p) (file_Set lib n t)" "keeps (debounced lib p) (file_Delete lib n)"
    "keeps (debounced lib p) (file_setBatch lib us ds)" for n t us ds
    unfolding file_Set_def file_Delete_def file_setBatch_def
    by (intro keeps_if keeps_return keeps_bind [OF keeps_get] mutate_debounced; simp)+
  have timer: "keeps (debounced lib p) (State_Monad.update (\<lambda>s. s\<lparr>fs_timer := False\<rparr>))"
    by (rule keeps_update) (auto simp: debounced_def flushed_def)
  have "keeps (debounced lib p) (persistDirtyLocked lib)"
    using persistDirty_spec [OF assms, of p] by (auto simp: keeps_def triple_def)
  with mutate timer show ?thesis
    by (cases c) (auto simp: persistDebounced_def file_Flush_def intro!: hoare)
qed

lemma file_Flush_flushes:
  assumes "cp_lib_ok lib"
  shows "triple (debounced lib p) (file_Flush lib) (\<lambda>e s. debounced lib p s \<and> (e = None \<longrightarrow> flushed lib s))"
  unfolding file_Flush_def
  by (rule triple_bind [OF _ persistDirty_spec [OF assms]], rule triple_update) (auto simp: debounced_def flushed_def)

section \<open>Opening\<close>

lemma ReadRegular_spec:
  "triple (\<lambda>d. map_of (d_cur d) n = v) (ReadRegular limit n)
     (\<lambda>r d. map_of (d_cur d) n = v \<and>
       (case r of Inl e \<Rightarrow> e = SfNotExist \<longrightarrow> v = None | Inr data \<Rightarrow> v \<noteq> None \<and> data = f_data (the v)))"
proof -
  let ?K = "\<lambda>d. map_of (d_cur d) n = v"
  have present: "triple ?K (disk_exists n) (\<lambda>b d. ?K d \<and> (b \<longleftrightarrow> v \<noteq> None))"
    by (auto simp: triple_def disk_exists_def)
  have read: "triple (\<lambda>d. ?K d \<and> (b \<longleftrightarrow> v \<noteq> None)) (disk_read n)
      (\<lambda>r d. ?K d \<and> (\<forall>data. r = Some data \<longrightarrow> v \<noteq> None \<and> data = f_data (the v)))" for b
    by (auto simp: triple_def disk_read_def disk_outcome_def State_Monad.bind_def split: list.splits)
  have check: "triple (\<lambda>d. ?K d \<and> (b \<longleftrightarrow> v \<noteq> None)) disk_check (\<lambda>_ d. ?K d \<and> (b \<longleftrightarrow> v \<noteq> None))" for b
    using sees.keeps_check [of n v] by (simp add: keeps_def triple_def)
  show ?thesis
    unfolding ReadRegular_def
    by (intro triple_if triple_return triple_bind [OF present] triple_bind [OF check] triple_bind [OF read])
      (auto split: option.splits)
qed

lemma NewFileStore_reads:
  obtains r d2 where "map_of (d_cur d2) p = map_of (d_cur d) p"
    "case r of Inl e \<Rightarrow> e = SfNotExist \<longrightarrow> content p d = None | Inr data \<Rightarrow> content p d = Some data"
    "NewFileStore lib lstat p debounce d =
      (let fs = \<lparr>fs_path = p, fs_m = [], fs_writeDebounce = max 0 debounce, fs_timer = False, fs_dirty = False,
                 fs_persistErr = None, fs_disk = d2\<rparr>
       in case r of
            Inl e \<Rightarrow> if e = SfNotExist then Inr fs else Inl (CpRead e)
          | Inr data \<Rightarrow> (if data = [] then Inr fs
              else case cl_Unmarshal lib data of None \<Rightarrow> Inl ErrCorruptCheckpoint | Some m \<Rightarrow> Inr (fs\<lparr>fs_m := m\<rparr>)))"
proof -
  define d1 where "d1 = after (sweepStaleStagingFiles lstat p) d"
  have sweep: "map_of (d_cur d1) p = map_of (d_cur d) p"
    using sees.keeps_sweep [of p p "map_of (d_cur d) p" lstat] staging_longer [of p]
    unfolding d1_def keeps_def triple_def by blast
  obtain r d2 where r: "run_state (ReadRegular MaxCheckpointBytes p) d1 = (r, d2)" by fastforce
  from triple_elim [OF ReadRegular_spec refl r]
  have "map_of (d_cur d2) p = map_of (d_cur d) p"
    "case r of Inl e \<Rightarrow> e = SfNotExist \<longrightarrow> content p d = None | Inr data \<Rightarrow> content p d = Some data"
    unfolding sweep by (auto simp: content_def split: sum.splits)
  moreover have "NewFileStore lib lstat p debounce d =
      (let fs = \<lparr>fs_path = p, fs_m = [], fs_writeDebounce = max 0 debounce, fs_timer = False, fs_dirty = False,
                 fs_persistErr = None, fs_disk = d2\<rparr>
       in case r of
            Inl e \<Rightarrow> if e = SfNotExist then Inr fs else Inl (CpRead e)
          | Inr data \<Rightarrow> (if data = [] then Inr fs
              else case cl_Unmarshal lib data of None \<Rightarrow> Inl ErrCorruptCheckpoint | Some m \<Rightarrow> Inr (fs\<lparr>fs_m := m\<rparr>)))"
    unfolding NewFileStore_def Let_def d1_def [symmetric] r prod.case by (simp split: sum.splits option.splits)
  ultimately show thesis by (rule that)
qed

lemma NewFileStore_holds:
  assumes "NewFileStore lib lstat p debounce d = Inr s"
  shows "fs_path s = p \<and> fs_writeDebounce s = max 0 debounce \<and> \<not> fs_dirty s \<and> fs_persistErr s = None \<and>
    content p (fs_disk s) = content p d \<and> holds lib (content p d) (fs_m s)"
proof (rule NewFileStore_reads [of p d lib lstat debounce], goal_cases)
  case (1 r d2)
  with assms show ?case
    by (auto simp: Let_def content_def holds_def split: sum.splits if_splits option.splits)
qed

lemma NewFileStore_corrupt:
  assumes "NewFileStore lib lstat p debounce d = Inl ErrCorruptCheckpoint"
  shows "\<exists>data. content p d = Some data \<and> data \<noteq> [] \<and> cl_Unmarshal lib data = None"
proof (rule NewFileStore_reads [of p d lib lstat debounce], goal_cases)
  case (1 r d2)
  with assms show ?case by (auto simp: Let_def split: sum.splits if_splits option.splits)
qed

section \<open>Properties\<close>

lemma ns_key_inject:
  assumes "CHR ''/'' \<notin> set a" "CHR ''/'' \<notin> set b" "(a @ ''/'') @ x = (b @ ''/'') @ y"
  shows "a = b \<and> x = y"
  using assms
proof (induction a arbitrary: b)
  case Nil
  then show ?case by (cases b) auto
next
  case (Cons c a)
  then show ?case by (cases b) auto
qed

text \<open>Two tailnets that share a checkpoint file through namespaces without a slash cannot disturb each
  other: setting, deleting or batch-updating cursors in one namespace leaves every cursor of the
  other as it was, whether or not the write to disk succeeds.\<close>

theorem checkpoint_namespaces_isolated:
  assumes "gomap_ok (fs_m s)" "a \<noteq> b" "a \<noteq> []" "b \<noteq> []" "CHR ''/'' \<notin> set a" "CHR ''/'' \<notin> set b"
  shows "cs_Get (Namespaced (file_store lib) b) n (after (cs_Set (Namespaced (file_store lib) a) k t) s) =
      cs_Get (Namespaced (file_store lib) b) n s \<and>
    cs_Get (Namespaced (file_store lib) b) n (after (cs_Delete (Namespaced (file_store lib) a) k) s) =
      cs_Get (Namespaced (file_store lib) b) n s \<and>
    cs_Get (Namespaced (file_store lib) b) n (after (UpdateCheckpointBatch (Namespaced (file_store lib) a) us ds) s) =
      cs_Get (Namespaced (file_store lib) b) n s"
proof -
  let ?p = "a @ ''/''" and ?q = "b @ ''/''"
  have ne: "?q @ x \<noteq> ?p @ y" for x y using ns_key_inject [OF assms(6,5)] assms(2) by blast
  let ?us = "map (\<lambda>(k, v). (?p @ k, v)) us" and ?ds = "map ((@) ?p) ds"
  have "map_of (rev ?us) (?q @ n) = None" using ne by (auto simp: map_of_eq_None_iff)
  moreover have "?q @ n \<notin> set ?ds" using ne by auto
  ultimately have "batch_view ?us ?ds (map_of (fs_m s)) (?q @ n) = map_of (fs_m s) (?q @ n)"
    by (simp add: batch_view_def)
  then have batch: "file_Get (?q @ n) (after (file_setBatch lib ?us ?ds) s) = file_Get (?q @ n) s"
    using batch_map_lookup [of ?us ?ds "fs_m s" "?q @ n"] by (simp add: file_Get_def file_map(4) del: batch_map.simps)
  show ?thesis
    using assms(3,4) ne [of n k] batch filed.Get_Set [OF assms(1), of lib "?q @ n"] filed.Get_Delete [OF assms(1), of lib "?q @ n"]
    by (simp add: Namespaced_def ns_view_def UpdateCheckpointBatch_def file_store_def)
qed

definition toy_cp_lib :: cp_lib where
  "toy_cp_lib = \<lparr>cl_Marshal = (\<lambda>m. if m = [(''k'', 5)] then Some ''k5'' else if m = [] then Some ''{}'' else None),
     cl_Unmarshal = (\<lambda>s. if s = ''k5'' then Some [(''k'', 5)] else if s = ''{}'' then Some [] else None)\<rparr>"

lemma toy_cp_lib_ok: "cp_lib_ok toy_cp_lib"
  by (simp add: cp_lib_ok_def toy_cp_lib_def)

definition toy_dir :: disk where
  "toy_dir = \<lparr>d_cur = [], d_maybe = (\<lambda>_. {None}), d_past = [], d_script = [], d_random = [''r'']\<rparr>"

definition toy_cp :: fileStore where
  "toy_cp = \<lparr>fs_path = ''c.json'', fs_m = [], fs_writeDebounce = 7, fs_timer = False, fs_dirty = False,
     fs_persistErr = None, fs_disk = toy_dir\<rparr>"

theorem checkpoint_namespaces_isolated_witness:
  "cs_Get (Namespaced (file_store toy_cp_lib) ''b'') ''x''
     (after (cs_Set (Namespaced (file_store toy_cp_lib) ''a'') ''x'' 9) toy_cp) = None"
  using checkpoint_namespaces_isolated [of toy_cp "''a''" "''b''" toy_cp_lib "''x''" "''x''" 9]
  by (simp add: toy_cp_def Namespaced_def ns_view_def file_store_def file_Get_def)




lemmas toy_run_defs = Let_def toy_cp_lib_def toy_dir_def State_Monad.bind_def State_Monad.get_def State_Monad.update_def State_Monad.set_def
  NewFileStore_def sweepStaleStagingFiles_def ReadRegular_def MaxCheckpointBytes_def disk_readDir_def disk_exists_def
  disk_outcome_def disk_check_def disk_read_def disk_effect_def

definition toy_open :: fileStore where
  "toy_open = toy_cp\<lparr>fs_disk := toy_dir\<rparr>"

lemma toy_NewFileStore: "NewFileStore toy_cp_lib (\<lambda>_. None) ''c.json'' 7 toy_dir = Inr toy_open"
  by (simp add: toy_open_def toy_cp_def toy_run_defs)

definition toy_set :: fileStore where
  "toy_set = toy_open\<lparr>fs_m := [(''k'', 5)], fs_dirty := True, fs_timer := True\<rparr>"

lemma toy_Set: "run_state (cp_calls toy_cp_lib [CpSet ''k'' 5]) toy_open = ((), toy_set)"
  by (simp add: toy_set_def toy_open_def toy_cp_def toy_run_defs file_Set_def file_commit_def markDirtyLocked_def)

lemma CreateTemp_fresh:
  assumes "d_script d = []" "d_random d = r # rs" "map_of (d_cur d) (pre @ r @ suf) = None"
  shows "run_state (os_CreateTemp pre suf) d =
    (Inr (pre @ r @ suf), disk_bind (pre @ r @ suf) (Some \<lparr>f_data = [], f_synced = False\<rparr>) (d\<lparr>d_random := rs\<rparr>))"
proof -
  have "run_state (os_CreateTemp_loop (Suc k) pre suf) d =
    (Inr (pre @ r @ suf), disk_bind (pre @ r @ suf) (Some \<lparr>f_data = [], f_synced = False\<rparr>) (d\<lparr>d_random := rs\<rparr>))" for k
    using assms by (simp add: toy_run_defs disk_randomRead_def disk_create_def)
  from this [of 9999] show ?thesis by (simp add: os_CreateTemp_def)
qed

definition toy_flushed :: fileStore where
  "toy_flushed = after (file_Flush toy_cp_lib) toy_set"

lemma toy_Flush: "run_state (file_Flush toy_cp_lib) toy_set = (None, toy_flushed) \<and> 
  map_of (d_cur (fs_disk toy_flushed)) ''c.json'' = Some \<lparr>f_data = ''k5'', f_synced = True\<rparr> \<and> d_script (fs_disk toy_flushed) = [] \<and>
  fs_m toy_flushed = [(''k'', 5)] \<and> fs_path toy_flushed = ''c.json''"
  by (simp add: toy_flushed_def toy_set_def toy_open_def toy_cp_def toy_run_defs file_Flush_def persistDirtyLocked_def persistLocked_def
   on_file_def writeFileAtomic_def CreateTemp_fresh stagingNameBounds_def atomic_fill_def writeAndSync_def
   disk_write_def disk_syncFile_def disk_sync_file_def disk_close_def atomic_publish_def disk_rename_def disk_move_def disk_bind_def disk_syncDir_def disk_barrier_def)


lemma sweep_nothing: "sweep_entries (\<lambda>_. None) base names = State_Monad.return 0"
  by (induction names) simp_all

definition toy_again :: fileStore where
  "toy_again = toy_flushed\<lparr>fs_writeDebounce := 0, fs_timer := False, fs_dirty := False, fs_persistErr := None\<rparr>"

lemma toy_NewFileStore_again: "NewFileStore toy_cp_lib (\<lambda>_. None) ''c.json'' 0 (fs_disk toy_flushed) = Inr toy_again"
  using toy_Flush by (simp add: toy_again_def toy_run_defs sweep_nothing)


text \<open>Without a debounce nothing is ever marked dirty, so a flush does not write, whatever the last write
  reported.\<close>

lemma sync_Flush:
  assumes "\<not> fs_dirty s"
  shows "run_state (file_Flush lib) s = (fs_persistErr s, s\<lparr>fs_timer := False\<rparr>)"
  using assms by (simp add: file_Flush_def persistDirtyLocked_def toy_run_defs)

lemma shard_objectstore_bound: "shard_objectstore i ps = Some j \<Longrightarrow> j + 6 \<le> i + length ps"
  by (induction i ps rule: shard_objectstore.induct) (auto split: if_splits)

text \<open>A shard is made of whole path segments of the key: the key is its shard key, or the shard key
  followed by a slash and a remainder, so no two keys share a shard by an accidental common prefix.\<close>

theorem ShardKey_whole_segments:
  "\<exists>t. key = ShardKey key @ t \<and> (t = [] \<or> (\<exists>u. t = ''/'' @ u))"
proof -
  let ?p = "split_byte (CHR ''/'') key"
  have take: "\<exists>t. key = join_byte (CHR ''/'') (take k ?p) @ t \<and> (t = [] \<or> (\<exists>u. t = ''/'' @ u))"
    if "0 < k" "k \<le> length ?p" for k
    using join_byte_take [OF that, of "CHR ''/''"] by simp
  have one: "1 \<le> length ?p \<Longrightarrow> ?p ! 0 = join_byte (CHR ''/'') (take 1 ?p)" by (cases ?p) auto
  show ?thesis
  proof (cases "shard_objectstore 0 ?p")
    case (Some i)
    with take [of "i + 6"] shard_objectstore_bound [OF Some] show ?thesis by (simp add: ShardKey_def)
  next
    case None
    with take [of 2] take [of 1] one show ?thesis by (simp add: ShardKey_def Let_def)
  qed
qed

end
