(* ===== verification/Collector_Status.thy ===== *)
theory Collector_Status
  imports Ring_Buffer
begin

text \<open>
  \<open>src/internal/collector/status.go\<close>: what the admin status page shows of every collector. The tracker keeps
  one run record and two rings of \<open>Ring_Buffer\<close> per collector name; a nil tracker is \<open>None\<close>. The
  properties relate the snapshots to the list of all runs recorded.
\<close>

section \<open>Model\<close>

definition historyLen :: int where "historyLen = 60"

record CollectorRun =
  Runs :: int
  LastStarted :: gotime
  LastFinished :: gotime
  LastDuration :: duration
  LastSuccess :: bool
  LastSuccessAt :: gotime
  Failures :: int
  LastError :: string
  ConsecutiveFailures :: int

definition zeroRun :: CollectorRun where
  "zeroRun = \<lparr>Runs = 0, LastStarted = 0, LastFinished = 0, LastDuration = 0, LastSuccess = False,
     LastSuccessAt = 0, Failures = 0, LastError = [], ConsecutiveFailures = 0\<rparr>"

record history =
  durMs :: "int Ring"
  outcomes :: "bool Ring"

record CollectorHistory =
  DurationMs :: "int list"
  Outcomes :: "bool list"

record StatusTracker =
  st_runs :: "(string, CollectorRun) gomap"
  st_hist :: "(string, history) gomap"

definition NewStatusTracker :: StatusTracker where
  "NewStatusTracker = \<lparr>st_runs = [], st_hist = []\<rparr>"

text \<open>\<open>Duration.Milliseconds\<close> divides towards zero.\<close>

definition Milliseconds :: "duration \<Rightarrow> int" where
  "Milliseconds d = sgn d * (\<bar>d\<bar> div 1000000)"

definition update_run :: "gotime \<Rightarrow> gotime \<Rightarrow> duration \<Rightarrow> string \<Rightarrow> CollectorRun \<Rightarrow> CollectorRun" where
  "update_run started finished dur errStr r0 =
     (let r = r0\<lparr>Runs := Runs r0 + 1, LastStarted := started, LastFinished := finished, LastDuration := dur,
                 LastSuccess := (errStr = [])\<rparr>;
          r = (if errStr = [] then r\<lparr>ConsecutiveFailures := 0, LastSuccessAt := finished\<rparr>
               else r\<lparr>Failures := Failures r + 1, ConsecutiveFailures := ConsecutiveFailures r + 1\<rparr>)
      in r\<lparr>LastError := errStr\<rparr>)"

definition newHistory :: history where
  "newHistory = \<lparr>durMs = ring_New 0 historyLen, outcomes = ring_New False historyLen\<rparr>"

definition update_history :: "duration \<Rightarrow> string \<Rightarrow> history \<Rightarrow> history" where
  "update_history dur errStr h =
     h\<lparr>durMs := ring_Add (Milliseconds dur) (durMs h), outcomes := ring_Add (errStr = []) (outcomes h)\<rparr>"

definition record_run :: "string \<Rightarrow> gotime \<Rightarrow> gotime \<Rightarrow> duration \<Rightarrow> string \<Rightarrow> StatusTracker \<Rightarrow> StatusTracker" where
  "record_run name started finished dur errStr t =
     (let r = (case map_of (st_runs t) name of None \<Rightarrow> zeroRun | Some r \<Rightarrow> r);
          h = (case map_of (st_hist t) name of None \<Rightarrow> newHistory | Some h \<Rightarrow> h)
      in t\<lparr>st_runs := AList.update name (update_run started finished dur errStr r) (st_runs t),
           st_hist := AList.update name (update_history dur errStr h) (st_hist t)\<rparr>)"

definition status_record :: "string \<Rightarrow> gotime \<Rightarrow> gotime \<Rightarrow> duration \<Rightarrow> string \<Rightarrow> StatusTracker option \<Rightarrow> StatusTracker option" where
  "status_record name started finished dur errStr = map_option (record_run name started finished dur errStr)"

definition status_Snapshot :: "StatusTracker option \<Rightarrow> (string, CollectorRun) gomap" where
  "status_Snapshot t = (case t of None \<Rightarrow> [] | Some t \<Rightarrow> st_runs t)"

definition HistorySnapshot :: "StatusTracker option \<Rightarrow> (string, CollectorHistory) gomap" where
  "HistorySnapshot t =
     (case t of None \<Rightarrow> []
      | Some t \<Rightarrow> map (\<lambda>(name, h). (name, \<lparr>DurationMs = ring_Values (durMs h), Outcomes = ring_Values (outcomes h)\<rparr>)) (st_hist t))"

section \<open>What the snapshots show\<close>

record run_log =
  rl_started :: gotime
  rl_finished :: gotime
  rl_dur :: duration
  rl_err :: string

text \<open>All runs recorded, in order, per collector name.\<close>

fun record_all :: "(string \<times> run_log) list \<Rightarrow> StatusTracker option \<Rightarrow> StatusTracker option" where
  "record_all [] t = t"
| "record_all ((name, l) # ls) t =
     record_all ls (status_record name (rl_started l) (rl_finished l) (rl_dur l) (rl_err l) t)"

abbreviation succeeded :: "run_log \<Rightarrow> bool" where "succeeded l \<equiv> rl_err l = []"

text \<open>The run record and the history a list of runs amounts to.\<close>

definition summary :: "run_log list \<Rightarrow> CollectorRun" where
  "summary ls = \<lparr>Runs = int (length ls), LastStarted = rl_started (last ls), LastFinished = rl_finished (last ls),
     LastDuration = rl_dur (last ls), LastSuccess = succeeded (last ls),
     LastSuccessAt = (if filter succeeded ls = [] then 0 else rl_finished (last (filter succeeded ls))),
     Failures = int (length (filter (Not \<circ> succeeded) ls)), LastError = rl_err (last ls),
     ConsecutiveFailures = int (length (takeWhile (Not \<circ> succeeded) (rev ls)))\<rparr>"

definition tail_of :: "run_log list \<Rightarrow> CollectorHistory" where
  "tail_of ls = \<lparr>DurationMs = lastn 60 (map (\<lambda>l. Milliseconds (rl_dur l)) ls), Outcomes = lastn 60 (map succeeded ls)\<rparr>"

abbreviation run_step :: "run_log \<Rightarrow> CollectorRun \<Rightarrow> CollectorRun" where
  "run_step l \<equiv> update_run (rl_started l) (rl_finished l) (rl_dur l) (rl_err l)"

abbreviation hist_step :: "run_log \<Rightarrow> history \<Rightarrow> history" where
  "hist_step l \<equiv> update_history (rl_dur l) (rl_err l)"

lemma fold_run_step: "ls \<noteq> [] \<Longrightarrow> fold run_step ls zeroRun = summary ls"
proof (induction ls rule: rev_induct)
  case (snoc l ls)
  have "fold run_step (ls @ [l]) zeroRun = run_step l (if ls = [] then zeroRun else summary ls)" using snoc.IH by auto
  also have "\<dots> = summary (ls @ [l])"
    by (auto simp: update_run_def summary_def zeroRun_def Let_def split: list.splits)
  finally show ?case .
qed simp

lemma fold_hist_step:
  "durMs (fold hist_step ls h) = fold ring_Add (map (\<lambda>l. Milliseconds (rl_dur l)) ls) (durMs h)"
  "outcomes (fold hist_step ls h) = fold ring_Add (map succeeded ls) (outcomes h)"
  by (induction ls arbitrary: h) (simp_all add: update_history_def)

lemma fold_newHistory:
  "ring_Values (durMs (fold hist_step ls newHistory)) = DurationMs (tail_of ls)"
  "ring_Values (outcomes (fold hist_step ls newHistory)) = Outcomes (tail_of ls)"
  by (simp_all add: fold_hist_step newHistory_def rh.fold_vals ring_New_ok historyLen_def tail_of_def)

lemma record_all_folds:
  "record_all ls (Some t) = Some \<lparr>st_runs = fold (gomap_modify zeroRun run_step) ls (st_runs t),
     st_hist = fold (gomap_modify newHistory hist_step) ls (st_hist t)\<rparr>"
  by (induction ls arbitrary: t)
    (auto simp: status_record_def record_run_def gomap_modify_def Let_def split: option.splits)

lemma record_all_nil: "record_all ls None = None"
  by (induction ls) (auto simp: status_record_def)

text \<open>The status page shows, for every collector, exactly what its recorded runs amount to: the number
  of runs and failures, the last run, the time of the last success whatever failed since, the length of
  the current streak of failures, and the durations and outcomes of its last sixty runs, oldest first and
  aligned; a collector that never ran is absent, and runs of other collectors do not show.\<close>

theorem status_tracker_exact:
  "map_of (status_Snapshot (record_all ls (Some NewStatusTracker))) name =
     (if values_of name ls = [] then None else Some (summary (values_of name ls))) \<and>
   map_of (HistorySnapshot (record_all ls (Some NewStatusTracker))) name =
     (if values_of name ls = [] then None else Some (tail_of (values_of name ls)))"
  by (simp add: status_Snapshot_def HistorySnapshot_def record_all_folds NewStatusTracker_def map_of_map map_of_fold_modify
      fold_run_step fold_newHistory)

end
