(* ===== verification/Collector_Scheduler.thy ===== *)
theory Collector_Scheduler
  imports Checkpoint_Store Collector_Status
begin

text \<open>
  \<open>src/internal/collector\<close>: \<open>scheduler.go\<close>, \<open>window.go\<close>, \<open>loghorizon.go\<close>, \<open>collector.go\<close> and the scrape metrics of
  \<open>selfobs.go\<close>. A collector is a parameter: the function it computes on one tick from the range it is
  given to what it emits and how it ends (a high-water mark, an error or a panic). The checkpoint store is
  any \<open>CheckpointStore\<close>; what is proved of the cursor is proved once in the locale \<open>checkpoint_store\<close> and
  holds for the file store and the in-memory one. Everything observable that a tick does besides the
  store and the status tracker is appended to a list of outputs, the calls of \<open>CollectWindow\<close> included.
\<close>

section \<open>Times\<close>

definition ClampLogStart :: "gotime \<Rightarrow> gotime \<Rightarrow> duration \<Rightarrow> gotime" where
  "ClampLogStart from now age = (if 0 < age \<and> from < now - age then now - age else from)"

definition nextWindow ::
  "gotime \<Rightarrow> bool \<Rightarrow> gotime \<Rightarrow> duration \<Rightarrow> duration \<Rightarrow> duration \<Rightarrow> duration \<Rightarrow> (gotime \<times> gotime) option" where
  "nextWindow cursor hasLast now lag initialLookback maxWindow logMaxRecordAge =
     (let to = now - lag;
          from = (if hasLast then cursor else to - initialLookback);
          from = ClampLogStart from now logMaxRecordAge
      in if \<not> from < to then None
         else Some (from, if 0 < maxWindow \<and> maxWindow < time_Sub to from then from + maxWindow else to))"

section \<open>Outputs\<close>

record go_error =
  ge_text :: string
  ge_canceled :: bool
  ge_deadline :: bool

datatype 'a outcome3 = Returned 'a | Failed go_error | Panicked string

text \<open>Values of metric points are kept as the expressions the code converts to floating point.\<close>

datatype fval = Seconds duration | Unix gotime | Ratio duration duration | Num int

datatype emission =
  LogEvent gotime string
| Gauge string fval "(string \<times> string) list"
| Histogram string fval "(string \<times> string) list"
| Counter string fval "(string \<times> string) list"

datatype sched_output =
  Emit emission
| CollectWindowCall string gotime gotime "gotime outcome3"
| HorizonWarn string gotime gotime
| Warn string string
| ErrorLog string string
| PprofLabel string
| SpanEnd string "(string \<times> string) list" "string option"

definition AttrCollector :: string where "AttrCollector = ''tailscale.collector''"
definition AttrErrorType :: string where "AttrErrorType = ''error.type''"

definition ReportLogHorizonSkip :: "string \<Rightarrow> gotime \<Rightarrow> gotime \<Rightarrow> bool \<Rightarrow> sched_output list" where
  "ReportLogHorizonSkip name from to selfObs =
     (if selfObs
      then [Emit (Counter ''tailscale2otel.log.catchup.skipped'' (Seconds (time_Sub to from)) [(AttrCollector, name)])]
      else []) @ [HorizonWarn name from to]"

text \<open>What a collector emits reaches the emitter through the horizon: each emission is paired with the
  clock at that moment.\<close>

definition horizon_pass :: "duration \<Rightarrow> gotime \<Rightarrow> emission \<Rightarrow> bool" where
  "horizon_pass age now e = (case e of LogEvent ts _ \<Rightarrow> ts = 0 \<or> \<not> ts < now - age | _ \<Rightarrow> True)"

definition LogHorizonEmitter :: "duration \<Rightarrow> (gotime \<times> emission) list \<Rightarrow> sched_output list" where
  "LogHorizonEmitter age es =
     (if age \<le> 0 then map (Emit \<circ> snd) es
      else map (Emit \<circ> snd) (filter (\<lambda>(now, e). horizon_pass age now e) es))"

section \<open>Collectors\<close>

datatype Collector =
  Snapshot string duration
| Window string duration duration "duration option"

fun c_Name :: "Collector \<Rightarrow> string" where
  "c_Name (Snapshot n d) = n"
| "c_Name (Window n d l r) = n"

fun c_DefaultInterval :: "Collector \<Rightarrow> duration" where
  "c_DefaultInterval (Snapshot n d) = d"
| "c_DefaultInterval (Window n d l r) = d"

record Entry =
  en_Collector :: Collector
  en_Interval :: duration
  en_InitialLookback :: duration
  en_MaxWindow :: duration

type_synonym Registry = "Entry list"

definition NewRegistry :: Registry where "NewRegistry = []"

definition Register :: "Collector \<Rightarrow> duration \<Rightarrow> Registry \<Rightarrow> Registry" where
  "Register c interval r =
     r @ [\<lparr>en_Collector = c, en_Interval = (if interval \<le> 0 then c_DefaultInterval c else interval),
           en_InitialLookback = 0, en_MaxWindow = 0\<rparr>]"

definition RegisterWindow :: "Collector \<Rightarrow> duration \<Rightarrow> duration \<Rightarrow> duration \<Rightarrow> Registry \<Rightarrow> Registry" where
  "RegisterWindow c interval initialLookback maxWindow r =
     r @ [\<lparr>en_Collector = c, en_Interval = (if interval \<le> 0 then c_DefaultInterval c else interval),
           en_InitialLookback = initialLookback, en_MaxWindow = maxWindow\<rparr>]"

definition Entries :: "Registry \<Rightarrow> Entry list" where "Entries r = r"

text \<open>What one tick meets: the clock at its points, whether the context is cancelled when the error is
  looked at, and the collector's behaviour.\<close>

record tick =
  tk_started :: gotime
  tk_now :: gotime
  tk_finished :: gotime
  tk_duration :: duration
  tk_ctxDone :: bool
  tk_ctxDoneAtEnd :: bool
  tk_Collect :: "(gotime \<times> emission) list \<times> unit outcome3"
  tk_CollectWindow :: "gotime \<Rightarrow> gotime \<Rightarrow> (gotime \<times> emission) list \<times> gotime outcome3"

definition isShutdownCancellation :: "bool \<Rightarrow> go_error option \<Rightarrow> bool" where
  "isShutdownCancellation ctxDone err =
     (case err of None \<Rightarrow> False | Some e \<Rightarrow> if \<not> ctxDone then False else ge_canceled e \<or> ge_deadline e)"

section \<open>Labels\<close>

definition maxCollectorLabelLen :: nat where "maxCollectorLabelLen = 32"
definition collectorLabelOther :: string where "collectorLabelOther = ''other''"

fun label_loop :: "nat \<Rightarrow> string \<Rightarrow> bool" where
  "label_loop i [] = True"
| "label_loop i (c # cs) =
     (if CHR ''a'' \<le> c \<and> c \<le> CHR ''z'' then label_loop (Suc i) cs
      else if (CHR ''0'' \<le> c \<and> c \<le> CHR ''9'') \<or> c = CHR ''_'' then (if i = 0 then False else label_loop (Suc i) cs)
      else False)"

definition boundedCollectorLabel :: "string \<Rightarrow> string" where
  "boundedCollectorLabel name =
     (if length name = 0 \<or> maxCollectorLabelLen < length name then collectorLabelOther
      else if label_loop 0 name then name else collectorLabelOther)"

section \<open>Ticks\<close>

record 's Scheduler =
  sc_store :: "'s CheckpointStore"
  sc_staggerWindow :: duration
  sc_selfObs :: bool
  sc_logMaxRecordAge :: duration
  sc_namespace :: string
  sc_storeError :: "cp_error \<Rightarrow> go_error"

record 's sched_state =
  ss_store :: 's
  ss_status :: "StatusTracker option"
  ss_lastSuccess :: gotime
  ss_out :: "sched_output list"

definition checkpointKey :: "'s Scheduler \<Rightarrow> string \<Rightarrow> string" where
  "checkpointKey s name = (if sc_namespace s = [] then name else sc_namespace s @ ''/'' @ name)"

definition say :: "sched_output list \<Rightarrow> ('s sched_state, unit) state" where
  "say xs = State_Monad.update (\<lambda>w. w\<lparr>ss_out := ss_out w @ xs\<rparr>)"

definition on_store :: "('s, 'a) state \<Rightarrow> ('s sched_state, 'a) state" where
  "on_store m = State (\<lambda>w. case run_state m (ss_store w) of (r, t) \<Rightarrow> (r, w\<lparr>ss_store := t\<rparr>))"

definition EmitCheckpointPersistError :: "string \<Rightarrow> sched_output list" where
  "EmitCheckpointPersistError name =
     [Emit (Counter ''tailscale2otel.checkpoint.persist.errors'' (Num 1) [(AttrCollector, name)])]"

definition persistFailed :: "'s Scheduler \<Rightarrow> string \<Rightarrow> sched_output list" where
  "persistFailed s name =
     Warn ''checkpoint persist failed'' name # (if sc_selfObs s then EmitCheckpointPersistError name else [])"

text \<open>The intentionally skipped span is consumed first, even if the fetch fails.\<close>

definition runWindow_clamp ::
  "'s Scheduler \<Rightarrow> string \<Rightarrow> gotime \<Rightarrow> gotime \<Rightarrow> ('s sched_state, cp_error option) state" where
  "runWindow_clamp s name start floor = do {
     err \<leftarrow> on_store (cs_Set (sc_store s) (checkpointKey s name) floor);
     w \<leftarrow> State_Monad.get;
     let consumed = cs_Get (sc_store s) (checkpointKey s name) (ss_store w);
     _ \<leftarrow> (if err = None \<or> (case consumed of None \<Rightarrow> False | Some c \<Rightarrow> \<not> c < floor)
          then say (ReportLogHorizonSkip name start floor (sc_selfObs s)) else State_Monad.return ());
     _ \<leftarrow> (if err \<noteq> None then say (persistFailed s name) else State_Monad.return ());
     State_Monad.return err
   }"

definition runWindow_collect ::
  "'s Scheduler \<Rightarrow> string \<Rightarrow> tick \<Rightarrow> gotime \<Rightarrow> gotime \<Rightarrow> bool \<Rightarrow> ('s sched_state, unit outcome3) state" where
  "runWindow_collect s name t from to replaying = do {
     let (emitted, r) = tk_CollectWindow t from to;
     say (CollectWindowCall name from to r # LogHorizonEmitter (sc_logMaxRecordAge s) emitted);
     case r of
       Panicked v \<Rightarrow> State_Monad.return (Panicked v)
     | Failed err \<Rightarrow> do {
         _ \<leftarrow> (if isShutdownCancellation (tk_ctxDone t) (Some err) then State_Monad.return ()
              else say [Warn ''window collector failed'' name]);
         State_Monad.return (Failed err)
       }
     | Returned hwm \<Rightarrow> do {
         let hwm = (if replaying then to else if hwm = 0 then to else hwm);
         err \<leftarrow> on_store (cs_Set (sc_store s) (checkpointKey s name) hwm);
         _ \<leftarrow> (if err \<noteq> None then say (persistFailed s name) else State_Monad.return ());
         State_Monad.return (Returned ())
       }
   }"

definition runWindow_poll ::
  "'s Scheduler \<Rightarrow> string \<Rightarrow> duration \<Rightarrow> duration option \<Rightarrow> Entry \<Rightarrow> tick \<Rightarrow> gotime option \<Rightarrow> ('s sched_state, unit outcome3) state" where
  "runWindow_poll s name lag overlap e t cursor =
     (case nextWindow (case cursor of None \<Rightarrow> 0 | Some c \<Rightarrow> c) (cursor \<noteq> None) (tk_now t) lag
             (en_InitialLookback e) (en_MaxWindow e) (sc_logMaxRecordAge s) of
        None \<Rightarrow> State_Monad.return (Returned ())
      | Some (from, to) \<Rightarrow>
          let rewind = (case overlap of None \<Rightarrow> 0 | Some d \<Rightarrow> if cursor \<noteq> None \<and> 0 < d then d else 0)
          in runWindow_collect s name t (ClampLogStart (from - rewind) (tk_now t) (sc_logMaxRecordAge s)) to (0 < rewind))"

definition runWindow ::
  "'s Scheduler \<Rightarrow> string \<Rightarrow> duration \<Rightarrow> duration option \<Rightarrow> Entry \<Rightarrow> tick \<Rightarrow> ('s sched_state, unit outcome3) state" where
  "runWindow s name lag overlap e t = do {
     w \<leftarrow> State_Monad.get;
     let cursor = cs_Get (sc_store s) (checkpointKey s name) (ss_store w);
     let now = tk_now t;
     let start = (case cursor of None \<Rightarrow> now - lag - en_InitialLookback e | Some c \<Rightarrow> c);
     let floor = ClampLogStart start now (sc_logMaxRecordAge s);
     if start < floor then do {
       err \<leftarrow> runWindow_clamp s name start floor;
       case err of
         Some e1 \<Rightarrow> State_Monad.return (Failed (sc_storeError s e1))
       | None \<Rightarrow> runWindow_poll s name lag overlap e t (Some floor)
     } else runWindow_poll s name lag overlap e t cursor
   }"

section \<open>Scrape metrics\<close>

record scrapeResult =
  sr_collector :: string
  sr_duration :: duration
  sr_interval :: duration
  sr_finishedAt :: gotime
  sr_staleness :: duration
  sr_err :: "go_error option"
  sr_panicked :: bool

definition scrapeErrorType :: "go_error option \<Rightarrow> bool \<Rightarrow> string" where
  "scrapeErrorType err panicked =
     (if panicked then ''panic''
      else if (case err of None \<Rightarrow> False | Some e \<Rightarrow> ge_deadline e) then ''timeout'' else ''error'')"

definition emitScrapeMetrics :: "scrapeResult \<Rightarrow> emission list" where
  "emitScrapeMetrics res =
     (let attrs = [(AttrCollector, sr_collector res)];
          failed = (sr_err res \<noteq> None \<or> sr_panicked res)
      in [Gauge ''tailscale2otel.scrape.duration'' (Seconds (sr_duration res)) attrs,
          Histogram ''tailscale2otel.scrape.duration.histogram'' (Seconds (sr_duration res)) attrs,
          Gauge ''tailscale2otel.scrape.success'' (Num (if failed then 0 else 1)) attrs,
          Gauge ''tailscale2otel.scrape.last_timestamp'' (Unix (sr_finishedAt res)) attrs,
          Gauge ''tailscale2otel.scrape.staleness'' (Seconds (sr_staleness res)) attrs] @
         (if 0 < sr_interval res
          then [Gauge ''tailscale2otel.scrape.budget'' (Ratio (sr_duration res) (sr_interval res)) attrs] else []) @
         (if failed
          then [Counter ''tailscale2otel.scrape.errors'' (Num 1)
                  (attrs @ [(AttrErrorType, scrapeErrorType (sr_err res) (sr_panicked res))])]
          else []))"

text \<open>The deferred half of a tick: the panic log, the span, then metrics and status.\<close>

definition finish_span :: "string \<Rightarrow> unit outcome3 \<Rightarrow> sched_output list" where
  "finish_span name r =
     (case r of
        Panicked v \<Rightarrow> [ErrorLog ''collector panicked'' name,
           SpanEnd (''scrape '' @ name) [(AttrErrorType, scrapeErrorType None True)] (Some (''panic: '' @ v))]
      | Failed err \<Rightarrow> [SpanEnd (''scrape '' @ name) [(AttrErrorType, scrapeErrorType (Some err) False)] (Some (ge_text err))]
      | Returned _ \<Rightarrow> [SpanEnd (''scrape '' @ name) [] None])"

definition run_err :: "unit outcome3 \<Rightarrow> go_error option" where
  "run_err r = (case r of Failed err \<Rightarrow> Some err | _ \<Rightarrow> None)"

definition run_panicked :: "unit outcome3 \<Rightarrow> bool" where
  "run_panicked r = (case r of Panicked _ \<Rightarrow> True | _ \<Rightarrow> False)"

definition errStr :: "unit outcome3 \<Rightarrow> string" where
  "errStr r = (case r of Panicked v \<Rightarrow> ''panic: '' @ v | Failed err \<Rightarrow> ge_text err | Returned _ \<Rightarrow> [])"

definition runTick_defer :: "'s Scheduler \<Rightarrow> Entry \<Rightarrow> tick \<Rightarrow> unit outcome3 \<Rightarrow> ('s sched_state, unit) state" where
  "runTick_defer s e t r = do {
     let name = c_Name (en_Collector e);
     say (finish_span name r);
     if \<not> run_panicked r \<and> isShutdownCancellation (tk_ctxDoneAtEnd t) (run_err r) then State_Monad.return ()
     else do {
       let failed = (run_panicked r \<or> run_err r \<noteq> None);
       _ \<leftarrow> (if failed then State_Monad.return () else State_Monad.update (\<lambda>w. w\<lparr>ss_lastSuccess := tk_finished t\<rparr>));
       w \<leftarrow> State_Monad.get;
       let staleness = max 0 (time_Sub (tk_finished t) (ss_lastSuccess w));
       _ \<leftarrow> (if sc_selfObs s
            then say (map Emit (emitScrapeMetrics \<lparr>sr_collector = name, sr_duration = tk_duration t, sr_interval = en_Interval e,
              sr_finishedAt = tk_finished t, sr_staleness = staleness, sr_err = run_err r, sr_panicked = run_panicked r\<rparr>))
            else State_Monad.return ());
       State_Monad.update (\<lambda>w. w\<lparr>ss_status := status_record name (tk_started t) (tk_finished t) (tk_duration t) (errStr r) (ss_status w)\<rparr>)
     }
   }"

definition runSnapshot :: "string \<Rightarrow> tick \<Rightarrow> ('s sched_state, unit outcome3) state" where
  "runSnapshot name t = do {
     let (emitted, r) = tk_Collect t;
     say (map (Emit \<circ> snd) emitted);
     _ \<leftarrow> (if run_err r \<noteq> None \<and> \<not> isShutdownCancellation (tk_ctxDone t) (run_err r)
          then say [Warn ''collector failed'' name] else State_Monad.return ());
     State_Monad.return r
   }"

definition runCollector :: "'s Scheduler \<Rightarrow> Entry \<Rightarrow> tick \<Rightarrow> ('s sched_state, unit outcome3) state" where
  "runCollector s e t = do {
     say [PprofLabel (boundedCollectorLabel (c_Name (en_Collector e)))];
     case en_Collector e of
       Window name d lag overlap \<Rightarrow> runWindow s name lag overlap e t
     | Snapshot name d \<Rightarrow> runSnapshot name t
   }"

definition runTick :: "'s Scheduler \<Rightarrow> Entry \<Rightarrow> tick \<Rightarrow> ('s sched_state, unit) state" where
  "runTick s e t = do { r \<leftarrow> runCollector s e t; runTick_defer s e t r }"

section \<open>The loop of one collector\<close>

text \<open>What its goroutine wakes up to: the context, the startup timer, or the ticker.\<close>

datatype wake = CtxDone | Fire tick

fun tick_loop :: "'s Scheduler \<Rightarrow> Entry \<Rightarrow> wake list \<Rightarrow> ('s sched_state, unit) state" where
  "tick_loop s e [] = State_Monad.return ()"
| "tick_loop s e (CtxDone # ws) = State_Monad.return ()"
| "tick_loop s e (Fire t # ws) = do { runTick s e t; tick_loop s e ws }"

definition initialDelay :: "'s Scheduler \<Rightarrow> duration \<Rightarrow> duration" where
  "initialDelay s random = (if sc_staggerWindow s \<le> 0 then 0 else random)"

definition runLoop :: "'s Scheduler \<Rightarrow> Entry \<Rightarrow> gotime \<Rightarrow> duration \<Rightarrow> bool \<Rightarrow> wake list \<Rightarrow> ('s sched_state, unit) state" where
  "runLoop s e now random cancelledInDelay ws = do {
     State_Monad.update (\<lambda>w. w\<lparr>ss_lastSuccess := now\<rparr>);
     if 0 < initialDelay s random \<and> cancelledInDelay then State_Monad.return () else tick_loop s e ws
   }"

section \<open>The cursor\<close>

lemma ClampLogStart_ge: "from \<le> ClampLogStart from now age"
  by (simp add: ClampLogStart_def)

lemma ClampLogStart_mono: "a \<le> b \<Longrightarrow> ClampLogStart a now age \<le> ClampLogStart b now age"
  by (simp add: ClampLogStart_def)

lemma ClampLogStart_idem [simp]: "ClampLogStart (ClampLogStart from now age) now age = ClampLogStart from now age"
  by (simp add: ClampLogStart_def)

lemma nextWindow_bounds:
  assumes "nextWindow c h now lag look maxw age = Some (from, to)"
  shows "from = ClampLogStart (if h then c else now - lag - look) now age" "from < to" "to \<le> now - lag"
    "0 < maxw \<Longrightarrow> maxw < maxDuration \<Longrightarrow> to - from \<le> maxw"
    "0 < maxw \<Longrightarrow> min (now - lag) (from + maxw) \<le> to"
  using assms by (auto simp: nextWindow_def Let_def time_Sub_def maxDuration_def split: if_splits)

lemma nextWindow_None:
  "nextWindow c h now lag look maxw age = None \<longleftrightarrow> now - lag \<le> ClampLogStart (if h then c else now - lag - look) now age"
  by (auto simp: nextWindow_def Let_def)

text \<open>Where a successful poll puts the cursor.\<close>

definition marks :: "duration option \<Rightarrow> gotime \<Rightarrow> gotime \<Rightarrow> gotime" where
  "marks overlap to hwm = (if hwm = 0 \<or> (case overlap of None \<Rightarrow> False | Some d \<Rightarrow> 0 < d) then to else hwm)"

text \<open>An instant is accounted for by an output: a reported skip, or a poll that succeeded.\<close>

fun accounts :: "duration option \<Rightarrow> string \<Rightarrow> gotime \<Rightarrow> sched_output \<Rightarrow> bool" where
  "accounts overlap name x (HorizonWarn n from to) \<longleftrightarrow> n = name \<and> from \<le> x \<and> x < to"
| "accounts overlap name x (CollectWindowCall n from to (Returned hwm)) \<longleftrightarrow> n = name \<and> from \<le> x \<and> x < marks overlap to hwm"
| "accounts overlap name x _ \<longleftrightarrow> False"

text \<open>One tick of the window of a collector, and steps of others on the shared store between its ticks.\<close>

datatype sstep = OwnTick tick | OtherSet string gotime | OtherDelete string

fun sched_step :: "'s Scheduler \<Rightarrow> Entry \<Rightarrow> sstep \<Rightarrow> ('s sched_state, unit) state" where
  "sched_step s e (OwnTick t) = runTick s e t"
| "sched_step s e (OtherSet k v) = do { _ \<leftarrow> on_store (cs_Set (sc_store s) k v); State_Monad.return () }"
| "sched_step s e (OtherDelete k) = do { _ \<leftarrow> on_store (cs_Delete (sc_store s) k); State_Monad.return () }"

fun sched_steps :: "'s Scheduler \<Rightarrow> Entry \<Rightarrow> sstep list \<Rightarrow> ('s sched_state, unit) state" where
  "sched_steps s e [] = State_Monad.return ()"
| "sched_steps s e (x # xs) = do { sched_step s e x; sched_steps s e xs }"

fun spares :: "string \<Rightarrow> sstep \<Rightarrow> bool" where
  "spares key (OtherSet k v) \<longleftrightarrow> k \<noteq> key"
| "spares key (OtherDelete k) \<longleftrightarrow> k \<noteq> key"
| "spares key (OwnTick t) \<longleftrightarrow> True"

lemma run_say [simp]: "run_state (say xs) w = ((), w\<lparr>ss_out := ss_out w @ xs\<rparr>)"
  by (simp add: say_def State_Monad.update_def State_Monad.bind_def State_Monad.get_def State_Monad.set_def)

lemma run_on_store [simp]:
  "run_state (on_store m) w = (outcome_of m (ss_store w), w\<lparr>ss_store := after m (ss_store w)\<rparr>)"
  by (simp add: on_store_def split: prod.split)

lemma run_get [simp]: "run_state State_Monad.get w = (w, w)"
  by (simp add: State_Monad.get_def)

lemma run_update [simp]: "run_state (State_Monad.update f) w = ((), f w)"
  by (simp add: State_Monad.update_def State_Monad.bind_def State_Monad.get_def State_Monad.set_def)

lemma run_state_bind [simp]: "run_state (State_Monad.bind m f) w = (case run_state m w of (x, w') \<Rightarrow> run_state (f x) w')"
  by (simp add: State_Monad.bind_def)


text \<open>The outputs that move the cursor.\<close>

fun is_move :: "sched_output \<Rightarrow> bool" where
  "is_move (HorizonWarn n from to) \<longleftrightarrow> True"
| "is_move (CollectWindowCall n from to r) \<longleftrightarrow> True"
| "is_move _ \<longleftrightarrow> False"

abbreviation ledger :: "sched_output list \<Rightarrow> sched_output list" where
  "ledger \<equiv> filter is_move"

lemma ledger_Emit [simp]: "ledger (map (Emit \<circ> f) es) = []" "ledger (map Emit xs) = []"
  by (induction es) (induction xs, simp_all)

lemma ledger_outputs [simp]:
  "ledger (LogHorizonEmitter age es) = []"
  "ledger (persistFailed s name) = []"
  "ledger (ReportLogHorizonSkip name from to b) = [HorizonWarn name from to]"
  "ledger (finish_span name r) = []"
  by (simp_all add: LogHorizonEmitter_def persistFailed_def EmitCheckpointPersistError_def ReportLogHorizonSkip_def
      finish_span_def split: outcome3.split)

definition replay_overlap :: "duration option \<Rightarrow> gotime option \<Rightarrow> duration option" where
  "replay_overlap overlap cursor = (if cursor = None then None else overlap)"

definition back_by :: "duration option \<Rightarrow> duration" where
  "back_by overlap = (case overlap of None \<Rightarrow> 0 | Some d \<Rightarrow> max 0 d)"

lemma marks_back: "marks overlap to hwm = (if hwm = 0 \<or> 0 < back_by overlap then to else hwm)"
  by (auto simp: marks_def back_by_def split: option.splits)

text \<open>What a poll of \<open>(from, to)\<close> that ended with \<open>res\<close> makes of the cursor \<open>base\<close>.\<close>

definition moved :: "duration option \<Rightarrow> gotime \<Rightarrow> gotime outcome3 \<Rightarrow> gotime option \<Rightarrow> gotime option" where
  "moved overlap to res base = (case res of Returned hwm \<Rightarrow> Some (marks overlap to hwm) | _ \<Rightarrow> base)"

definition window_of :: "'s Scheduler \<Rightarrow> duration \<Rightarrow> duration option \<Rightarrow> Entry \<Rightarrow> gotime \<Rightarrow> gotime option \<Rightarrow> (gotime \<times> gotime) option" where
  "window_of s lag overlap e now cursor =
     map_option (\<lambda>(from, to). (ClampLogStart (from - back_by (replay_overlap overlap cursor)) now (sc_logMaxRecordAge s), to))
       (nextWindow (case cursor of None \<Rightarrow> 0 | Some c \<Rightarrow> c) (cursor \<noteq> None) now lag
          (en_InitialLookback e) (en_MaxWindow e) (sc_logMaxRecordAge s))"

definition poll_start :: "duration \<Rightarrow> Entry \<Rightarrow> gotime \<Rightarrow> gotime option \<Rightarrow> gotime" where
  "poll_start lag e now cursor = (case cursor of None \<Rightarrow> now - lag - en_InitialLookback e | Some c \<Rightarrow> c)"

text \<open>The effect of one tick on the cursor, with the outputs that account for it. The last case is a tick whose
  skip could not be persisted: it polls nothing.\<close>

definition window_effect ::
  "'s Scheduler \<Rightarrow> string \<Rightarrow> duration \<Rightarrow> duration option \<Rightarrow> Entry \<Rightarrow> tick \<Rightarrow> gotime option \<Rightarrow> gotime option \<Rightarrow> sched_output list \<Rightarrow> bool" where
  "window_effect s name lag overlap e t cursor cursor' moves \<longleftrightarrow>
     (let now = tk_now t;
          start = poll_start lag e now cursor;
          floor = ClampLogStart start now (sc_logMaxRecordAge s);
          skip = (if start < floor then [HorizonWarn name start floor] else []);
          base = (if start < floor then Some floor else cursor)
      in (case window_of s lag overlap e now base of
            None \<Rightarrow> moves = skip \<and> cursor' = base
          | Some (from, to) \<Rightarrow> let res = snd (tk_CollectWindow t from to) in
              moves = skip @ [CollectWindowCall name from to res] \<and> cursor' = moved (replay_overlap overlap base) to res base) \<or>
         (start < floor \<and> moves = [HorizonWarn name start floor] \<and> cursor' = base))"

context checkpoint_store
begin

lemma collect_spec:
  assumes "sc_store s = st" "ok (ss_store w)" "run_state (runWindow_collect s name t from to rp) w = (r, w')"
  shows "ok (ss_store w') \<and> (\<exists>out res. ss_out w' = ss_out w @ out \<and> res = snd (tk_CollectWindow t from to) \<and>
    ledger out = [CollectWindowCall name from to res] \<and>
    (case res of Returned hwm \<Rightarrow> r = Returned () \<and>
        (\<forall>k. cs_Get st k (ss_store w') = (if k = checkpointKey s name then Some (if rp \<or> hwm = 0 then to else hwm) else cs_Get st k (ss_store w)))
      | Failed er \<Rightarrow> r = Failed er \<and> ss_store w' = ss_store w
      | Panicked v \<Rightarrow> r = Panicked v \<and> ss_store w' = ss_store w))"
proof -
  obtain es res where c: "tk_CollectWindow t from to = (es, res)" by fastforce
  show ?thesis
    using assms ok_Set [OF assms(2)] Get_Set [OF assms(2)]
    by (cases res) (auto simp: runWindow_collect_def c Let_def split: if_splits)
qed

lemma poll_spec:
  assumes "sc_store s = st" "ok (ss_store w)" "run_state (runWindow_poll s name lag overlap e t cursor) w = (r, w')"
    "cs_Get st (checkpointKey s name) (ss_store w) = cursor"
  shows "ok (ss_store w') \<and> (\<forall>k. k \<noteq> checkpointKey s name \<longrightarrow> cs_Get st k (ss_store w') = cs_Get st k (ss_store w)) \<and>
    (\<exists>out. ss_out w' = ss_out w @ out \<and>
      (case window_of s lag overlap e (tk_now t) cursor of
         None \<Rightarrow> r = Returned () \<and> ledger out = [] \<and> cs_Get st (checkpointKey s name) (ss_store w') = cursor
       | Some (from, to) \<Rightarrow> let res = snd (tk_CollectWindow t from to) in
           ledger out = [CollectWindowCall name from to res] \<and>
           cs_Get st (checkpointKey s name) (ss_store w') = moved (replay_overlap overlap cursor) to res cursor))"
proof (cases "nextWindow (case cursor of None \<Rightarrow> 0 | Some c \<Rightarrow> c) (cursor \<noteq> None) (tk_now t) lag
          (en_InitialLookback e) (en_MaxWindow e) (sc_logMaxRecordAge s)")
  case None
  with assms show ?thesis by (auto simp: runWindow_poll_def window_of_def)
next
  case (Some ft)
  obtain f to where ft: "ft = (f, to)" by (cases ft)
  let ?rewind = "back_by (replay_overlap overlap cursor)"
  let ?from = "ClampLogStart (f - ?rewind) (tk_now t) (sc_logMaxRecordAge s)"
  have "(case overlap of None \<Rightarrow> 0 | Some d \<Rightarrow> if cursor \<noteq> None \<and> 0 < d then d else 0) = ?rewind"
    by (auto simp: back_by_def replay_overlap_def split: option.splits)
  with assms(3) Some ft have "run_state (runWindow_collect s name t ?from to (0 < ?rewind)) w = (r, w')"
    by (simp add: runWindow_poll_def Let_def)
  from collect_spec [OF assms(1,2) this] obtain out where out: "ok (ss_store w')" "ss_out w' = ss_out w @ out"
    "ledger out = [CollectWindowCall name ?from to (snd (tk_CollectWindow t ?from to))]"
    "case snd (tk_CollectWindow t ?from to) of Returned hwm \<Rightarrow> r = Returned () \<and>
        (\<forall>k. cs_Get st k (ss_store w') = (if k = checkpointKey s name then Some (if 0 < ?rewind \<or> hwm = 0 then to else hwm) else cs_Get st k (ss_store w)))
      | Failed er \<Rightarrow> r = Failed er \<and> ss_store w' = ss_store w
      | Panicked v \<Rightarrow> r = Panicked v \<and> ss_store w' = ss_store w"
    by blast
  have "window_of s lag overlap e (tk_now t) cursor = Some (?from, to)" unfolding window_of_def Some by (simp add: ft)
  with out assms(4) show ?thesis
    by (cases "snd (tk_CollectWindow t ?from to)") (auto simp: moved_def marks_back Let_def)
qed


lemma clamp_spec:
  assumes "sc_store s = st" "ok (ss_store w)" "run_state (runWindow_clamp s name start floor) w = (err, w')"
  shows "ok (ss_store w') \<and> (\<exists>out. ss_out w' = ss_out w @ out \<and> ledger out = [HorizonWarn name start floor]) \<and>
    (\<forall>k. cs_Get st k (ss_store w') = (if k = checkpointKey s name then Some floor else cs_Get st k (ss_store w)))"
  using assms ok_Set [OF assms(2)] Get_Set [OF assms(2)]
  by (auto simp: runWindow_clamp_def Let_def split: if_splits)

text \<open>One run of \<open>runWindow\<close>, as the span it skips, the poll it makes and the cursor it leaves.\<close>

lemma runWindow_spec:
  assumes "sc_store s = st" "ok (ss_store w)" "run_state (runWindow s name lag overlap e t) w = (r, w')"
  defines "key \<equiv> checkpointKey s name"
  shows "ok (ss_store w') \<and> (\<forall>k. k \<noteq> key \<longrightarrow> cs_Get st k (ss_store w') = cs_Get st k (ss_store w)) \<and>
    (\<exists>out. ss_out w' = ss_out w @ out \<and>
      window_effect s name lag overlap e t (cs_Get st key (ss_store w)) (cs_Get st key (ss_store w')) (ledger out))"
proof -
  define now cursor where "now = tk_now t" and "cursor = cs_Get st key (ss_store w)"
  define start where "start = poll_start lag e now cursor"
  define floor where "floor = ClampLogStart start now (sc_logMaxRecordAge s)"
  note defs = cursor_def key_def now_def start_def floor_def
  have eff: "window_effect s name lag overlap e t cursor c' ms = (let base = (if start < floor then Some floor else cursor) in
    (case window_of s lag overlap e now base of
       None \<Rightarrow> (ms = (if start < floor then [HorizonWarn name start floor] else []) \<and> c' = base)
     | Some (from, to) \<Rightarrow> let res = snd (tk_CollectWindow t from to) in
         ms = (if start < floor then [HorizonWarn name start floor] else []) @ [CollectWindowCall name from to res] \<and>
         c' = moved (replay_overlap overlap base) to res base) \<or>
     (start < floor \<and> ms = [HorizonWarn name start floor] \<and> c' = base))" for c' ms
    by (simp only: window_effect_def start_def floor_def now_def Let_def)
  show ?thesis
  proof (cases "start < floor")
    case False
    then have "run_state (runWindow_poll s name lag overlap e t cursor) w = (r, w')"
      using assms(1,3) by (auto simp: runWindow_def Let_def defs poll_start_def)
    moreover have "cs_Get st (checkpointKey s name) (ss_store w) = cursor" by (simp add: cursor_def key_def)
    ultimately show ?thesis
      using False poll_spec [OF assms(1,2)] unfolding cursor_def [symmetric] eff unfolding key_def now_def
      by (fastforce simp: Let_def split: option.splits prod.splits)
  next
    case True
    obtain err w1 where c: "run_state (runWindow_clamp s name start floor) w = (err, w1)" by fastforce
    from clamp_spec [OF assms(1,2) c] obtain out1 where w1: "ok (ss_store w1)" "ss_out w1 = ss_out w @ out1"
      "ledger out1 = [HorizonWarn name start floor]"
      "\<And>k. cs_Get st k (ss_store w1) = (if k = key then Some floor else cs_Get st k (ss_store w))"
      unfolding key_def by blast
    have run: "run_state (runWindow s name lag overlap e t) w =
      (case err of Some e1 \<Rightarrow> (Failed (sc_storeError s e1), w1) | None \<Rightarrow> run_state (runWindow_poll s name lag overlap e t (Some floor)) w1)"
      using True c assms(1) by (simp add: runWindow_def Let_def defs poll_start_def split: option.split)
    show ?thesis
    proof (cases err)
      case (Some e1)
      with run assms(3) have "w' = w1" by simp
      with w1 True show ?thesis unfolding cursor_def [symmetric] eff by (auto simp: Let_def)
    next
      case None
      with run assms(3) have "run_state (runWindow_poll s name lag overlap e t (Some floor)) w1 = (r, w')" by simp
      from poll_spec [OF assms(1) w1(1) this] w1 True show ?thesis
        unfolding cursor_def [symmetric] eff unfolding key_def now_def
        by (fastforce simp: Let_def key_def split: option.splits prod.splits)
    qed
  qed
qed

end

lemma runTick_defer_keeps:
  "ss_store (after (runTick_defer s e t r) w) = ss_store w \<and>
   (\<exists>out. ss_out (after (runTick_defer s e t r) w) = ss_out w @ out \<and> ledger out = [])"
  by (simp add: runTick_defer_def Let_def)

lemma window_of_bounds:
  assumes "window_of s lag overlap e now cursor = Some (from, to)"
  defines "floor \<equiv> ClampLogStart (poll_start lag e now cursor) now (sc_logMaxRecordAge s)"
  shows "from \<le> floor" "floor < to" "to \<le> now - lag" "0 < sc_logMaxRecordAge s \<Longrightarrow> now - sc_logMaxRecordAge s \<le> from"
    "0 < en_MaxWindow e \<Longrightarrow> en_MaxWindow e < maxDuration \<Longrightarrow> to - floor \<le> en_MaxWindow e"
    "floor - back_by (replay_overlap overlap cursor) \<le> from"
    "0 < en_MaxWindow e \<Longrightarrow> min (now - lag) (floor + en_MaxWindow e) \<le> to"
proof -
  obtain f where f: "nextWindow (case cursor of None \<Rightarrow> 0 | Some c \<Rightarrow> c) (cursor \<noteq> None) now lag
      (en_InitialLookback e) (en_MaxWindow e) (sc_logMaxRecordAge s) = Some (f, to)"
    "from = ClampLogStart (f - back_by (replay_overlap overlap cursor)) now (sc_logMaxRecordAge s)"
    using assms(1) by (auto simp: window_of_def)
  have floor: "f = floor" using nextWindow_bounds(1) [OF f(1)] by (auto simp: floor_def poll_start_def split: option.splits)
  have nonneg: "0 \<le> back_by (replay_overlap overlap cursor)" by (simp add: back_by_def split: option.split)
  show "from \<le> floor" using f(2) nonneg floor ClampLogStart_mono [of "f - back_by (replay_overlap overlap cursor)" f now "sc_logMaxRecordAge s"]
    by (simp add: floor_def)
  show "floor < to" "to \<le> now - lag" "0 < en_MaxWindow e \<Longrightarrow> en_MaxWindow e < maxDuration \<Longrightarrow> to - floor \<le> en_MaxWindow e"
    "0 < en_MaxWindow e \<Longrightarrow> min (now - lag) (floor + en_MaxWindow e) \<le> to"
    using nextWindow_bounds [OF f(1)] floor by simp_all
  show "0 < sc_logMaxRecordAge s \<Longrightarrow> now - sc_logMaxRecordAge s \<le> from" using f(2) by (simp add: ClampLogStart_def)
  show "floor - back_by (replay_overlap overlap cursor) \<le> from" using f(2) floor ClampLogStart_ge by metis
qed

lemma window_of_None:
  "window_of s lag overlap e now cursor = None \<Longrightarrow>
     now - lag \<le> ClampLogStart (poll_start lag e now cursor) now (sc_logMaxRecordAge s)"
  by (auto simp: window_of_def nextWindow_None poll_start_def split: option.splits)

text \<open>The cases of an effect on an existing cursor.\<close>

lemma window_effect_Some:
  fixes s :: "'s Scheduler" and c :: gotime and t :: tick and name :: string
  defines "floor \<equiv> ClampLogStart c (tk_now t) (sc_logMaxRecordAge s)"
  defines "skip \<equiv> if c < floor then [HorizonWarn name c floor] else []"
  shows "window_effect s name lag overlap e t (Some c) c' moves \<longleftrightarrow>
    (case window_of s lag overlap e (tk_now t) (Some floor) of
       None \<Rightarrow> moves = skip \<and> c' = Some floor
     | Some (f, g) \<Rightarrow> moves = skip @ [CollectWindowCall name f g (snd (tk_CollectWindow t f g))] \<and>
         c' = moved overlap g (snd (tk_CollectWindow t f g)) (Some floor)) \<or>
    c < floor \<and> moves = skip \<and> c' = Some floor"
proof -
  have start: "poll_start lag e (tk_now t) (Some c) = c" by (simp add: poll_start_def)
  have "c \<le> floor" unfolding floor_def by (rule ClampLogStart_ge)
  then have base: "(if c < floor then Some floor else Some c) = Some floor" by auto
  show ?thesis
    unfolding window_effect_def Let_def start floor_def [symmetric] base skip_def
    by (simp add: replay_overlap_def split: option.split)
qed

lemma window_effect_cases:
  fixes s :: "'s Scheduler" and c :: gotime and t :: tick and name :: string
  assumes "window_effect s name lag overlap e t (Some c) c' moves"
  defines "floor \<equiv> ClampLogStart c (tk_now t) (sc_logMaxRecordAge s)"
  obtains (idle) "c' = Some floor" "moves = (if c < floor then [HorizonWarn name c floor] else [])"
    "tk_now t - lag \<le> floor \<or> c < floor"
  | (poll) f g res where "window_of s lag overlap e (tk_now t) (Some floor) = Some (f, g)"
    "res = snd (tk_CollectWindow t f g)"
    "moves = (if c < floor then [HorizonWarn name c floor] else []) @ [CollectWindowCall name f g res]"
    "c' = moved overlap g res (Some floor)" "f \<le> floor" "floor < g"
proof -
  have again: "ClampLogStart (poll_start lag e (tk_now t) (Some floor)) (tk_now t) (sc_logMaxRecordAge s) = floor"
    by (simp add: poll_start_def floor_def)
  note eff = assms(1) [unfolded window_effect_Some, folded floor_def]
  show thesis
  proof (cases "window_of s lag overlap e (tk_now t) (Some floor)")
    case None
    from window_of_None [OF None] have "tk_now t - lag \<le> floor" by (simp add: again)
    with eff None idle show thesis by (auto split: if_splits)
  next
    case (Some fg)
    obtain f g where fg: "fg = (f, g)" by (cases fg)
    note b = window_of_bounds(1,2) [OF Some [unfolded fg], unfolded again]
    from eff Some fg b poll [of f g] idle show thesis by (auto split: if_splits)
  qed
qed

lemma window_effect_no_gap:
  assumes "window_effect s name lag overlap e t (Some c) c' moves"
  shows "\<exists>c1. c' = Some c1 \<and> (\<forall>x. c \<le> x \<and> x < c1 \<longrightarrow> (\<exists>m \<in> set moves. accounts overlap name x m))"
  using assms
proof (cases rule: window_effect_cases)
  case idle
  then show ?thesis by auto
next
  case (poll f g res)
  from poll(3,4,5,6) show ?thesis by (cases res) (auto simp: moved_def split: if_splits)
qed

lemma window_effect_monotone:
  assumes "window_effect s name lag overlap e t (Some c) c' moves"
    and "\<And>from to es hwm. tk_CollectWindow t from to = (es, Returned hwm) \<Longrightarrow> hwm = 0 \<or> from \<le> hwm"
  shows "\<exists>c1. c' = Some c1 \<and> ClampLogStart c (tk_now t) (sc_logMaxRecordAge s) \<le> c1"
  using assms(1)
proof (cases rule: window_effect_cases)
  case idle
  then show ?thesis by auto
next
  case (poll f g res)
  show ?thesis
  proof (cases res)
    case (Returned hwm)
    have "0 < back_by overlap \<or> ClampLogStart c (tk_now t) (sc_logMaxRecordAge s) \<le> f"
      using window_of_bounds(6) [OF poll(1)] by (auto simp: replay_overlap_def poll_start_def back_by_def split: option.splits)
    moreover have "hwm = 0 \<or> f \<le> hwm" using Returned poll(2) assms(2) [of f g "fst (tk_CollectWindow t f g)" hwm] by (simp add: prod_eq_iff)
    ultimately show ?thesis using Returned poll(4,6) by (auto simp: moved_def marks_back)
  qed (use poll(4) in \<open>auto simp: moved_def\<close>)
qed

context checkpoint_store
begin

lemma runTick_spec:
  assumes "sc_store s = st" "en_Collector e = Window name d lag overlap" "ok (ss_store w)" "run_state (runTick s e t) w = (u, w')"
  defines "key \<equiv> checkpointKey s name"
  shows "ok (ss_store w') \<and> (\<exists>out. ss_out w' = ss_out w @ out \<and>
      window_effect s name lag overlap e t (cs_Get st key (ss_store w)) (cs_Get st key (ss_store w')) (ledger out))"
proof -
  define w0 where "w0 = w\<lparr>ss_out := ss_out w @ [PprofLabel (boundedCollectorLabel name)]\<rparr>"
  obtain r w1 where r: "run_state (runWindow s name lag overlap e t) w0 = (r, w1)" by fastforce
  with assms(2,4) have w': "w' = after (runTick_defer s e t r) w1"
    by (simp add: runTick_def runCollector_def w0_def)
  from assms(3) have "ok (ss_store w0)" by (simp add: w0_def)
  from runWindow_spec [OF assms(1) this r] runTick_defer_keeps [of s e t r w1] show ?thesis
    unfolding key_def w' by (fastforce simp: w0_def)
qed

text \<open>What every tick establishes between the cursors around it holds around any run.\<close>

lemma sched_steps_rel:
  fixes R :: "gotime \<Rightarrow> gotime \<Rightarrow> sched_output list \<Rightarrow> bool"
  assumes "sc_store s = st" "en_Collector e = Window name d lag overlap"
    and refl: "\<forall>c. R c c []"
    and trans: "\<forall>a b c xs ys. R a b xs \<longrightarrow> R b c ys \<longrightarrow> R a c (xs @ ys)"
    and own: "\<forall>t a c' out. OwnTick t \<in> set steps \<longrightarrow> window_effect s name lag overlap e t (Some a) c' (ledger out) \<longrightarrow>
      (\<exists>b. c' = Some b \<and> R a b out)"
    and "list_all (spares (checkpointKey s name)) steps"
    and "ok (ss_store w)" "run_state (sched_steps s e steps) w = (u, w')" "cs_Get st (checkpointKey s name) (ss_store w) = Some c"
  shows "ok (ss_store w') \<and> (\<exists>c' out. cs_Get st (checkpointKey s name) (ss_store w') = Some c' \<and>
    ss_out w' = ss_out w @ out \<and> R c c' out)"
  using own assms(6-)
proof (induction steps arbitrary: w c)
  case Nil
  then show ?case using refl by auto
next
  case (Cons a as)
  let ?get = "cs_Get st (checkpointKey s name)"
  obtain w1 where r: "run_state (sched_step s e a) w = ((), w1)" by (metis old.unit.exhaust surj_pair)
  with Cons.prems(4) have rest: "run_state (sched_steps s e as) w1 = (u, w')" by simp
  have "ok (ss_store w1) \<and> (\<exists>c1 out. ?get (ss_store w1) = Some c1 \<and> ss_out w1 = ss_out w @ out \<and> R c c1 out)"
  proof (cases a)
    case (OwnTick t)
    with r have "run_state (runTick s e t) w = ((), w1)" by simp
    from runTick_spec [OF assms(1,2) Cons.prems(3) this] obtain out where
      out: "ok (ss_store w1)" "ss_out w1 = ss_out w @ out" "window_effect s name lag overlap e t (Some c) (?get (ss_store w1)) (ledger out)"
      using Cons.prems(5) by auto
    from Cons.prems(1) OwnTick out show ?thesis by auto
  qed (use r Cons.prems(2,3,5) refl assms(1) ok_Set [OF Cons.prems(3)] ok_Delete [OF Cons.prems(3)]
        Get_Set [OF Cons.prems(3)] Get_Delete [OF Cons.prems(3)] in auto)
  then obtain c1 out1 where one: "ok (ss_store w1)" "?get (ss_store w1) = Some c1" "ss_out w1 = ss_out w @ out1" "R c c1 out1" by blast
  have "\<forall>t a c' out. OwnTick t \<in> set as \<longrightarrow> window_effect s name lag overlap e t (Some a) c' (ledger out) \<longrightarrow>
      (\<exists>b. c' = Some b \<and> R a b out)" using Cons.prems(1) by auto
  from Cons.IH [OF this _ one(1) rest one(2)] Cons.prems(2) obtain c' out2 where
    "ok (ss_store w')" "?get (ss_store w') = Some c'" "ss_out w' = ss_out w1 @ out2" "R c1 c' out2" by auto
  with trans one(3,4) show ?case by (metis append_assoc)
qed

text \<open>No instant between the cursors of a run is lost.\<close>

lemma no_gap:
  assumes "sc_store s = st" "en_Collector e = Window name d lag overlap" "list_all (spares (checkpointKey s name)) steps"
    "ok (ss_store w)" "run_state (sched_steps s e steps) w = (u, w')" "cs_Get st (checkpointKey s name) (ss_store w) = Some c"
  shows "\<exists>c' out. cs_Get st (checkpointKey s name) (ss_store w') = Some c' \<and> ss_out w' = ss_out w @ out \<and>
    (\<forall>x. c \<le> x \<and> x < c' \<longrightarrow> (\<exists>m \<in> set out. accounts overlap name x m))"
proof -
  let ?R = "\<lambda>a b out. \<forall>x. a \<le> x \<and> x < b \<longrightarrow> (\<exists>m \<in> set out. accounts overlap name x m)"
  have join: "\<forall>a b c xs ys. ?R a b xs \<longrightarrow> ?R b c ys \<longrightarrow> ?R a c (xs @ ys)"
  proof (intro allI impI)
    fix a b c xs ys x assume "?R a b xs" "?R b c ys" and x: "a \<le> x \<and> x < c"
    then show "\<exists>m \<in> set (xs @ ys). accounts overlap name x m"
      by (metis UnCI linorder_not_less set_append)
  qed
  have "\<exists>b. c' = Some b \<and> ?R a b out" if "window_effect s name lag overlap e t (Some a) c' (ledger out)" for t a c' out
    using window_effect_no_gap [OF that] by fastforce
  then have own: "\<forall>t a c' out. OwnTick t \<in> set steps \<longrightarrow> window_effect s name lag overlap e t (Some a) c' (ledger out) \<longrightarrow>
      (\<exists>b. c' = Some b \<and> ?R a b out)" by blast
  from sched_steps_rel [where R = ?R, OF assms(1,2) _ join own assms(3-)] show ?thesis by auto
qed

lemma cursor_monotone:
  assumes "sc_store s = st" "en_Collector e = Window name d lag overlap" "list_all (spares (checkpointKey s name)) steps"
    "ok (ss_store w)" "run_state (sched_steps s e steps) w = (u, w')" "cs_Get st (checkpointKey s name) (ss_store w) = Some c"
    and honest: "\<And>t f g es hwm. OwnTick t \<in> set steps \<Longrightarrow> tk_CollectWindow t f g = (es, Returned hwm) \<Longrightarrow> hwm = 0 \<or> f \<le> hwm"
  shows "\<exists>c'. cs_Get st (checkpointKey s name) (ss_store w') = Some c' \<and> c \<le> c'"
proof -
  have "\<exists>b. c' = Some b \<and> a \<le> b"
    if "OwnTick t \<in> set steps" "window_effect s name lag overlap e t (Some a) c' (ledger out)" for t a c' out
    using window_effect_monotone [OF that(2)] honest [OF that(1)] ClampLogStart_ge order.trans by blast
  then have own: "\<forall>t a c' out. OwnTick t \<in> set steps \<longrightarrow> window_effect s name lag overlap e t (Some a) c' (ledger out) \<longrightarrow>
      (\<exists>b. c' = Some b \<and> a \<le> b)" by blast
  from sched_steps_rel [where R = "\<lambda>a b out. a \<le> b", OF assms(1,2) _ _ own assms(3-6)] show ?thesis by auto
qed

end

lemma window_effect_calls:
  "window_effect s name lag overlap e t c c' moves \<Longrightarrow> CollectWindowCall n f g res \<in> set moves \<Longrightarrow>
     \<exists>b. window_of s lag overlap e (tk_now t) b = Some (f, g)"
  by (auto simp: window_effect_def Let_def split: option.splits if_splits)

context checkpoint_store
begin

lemma catch_up:
  assumes "sc_store s = st" "en_Collector e = Window name d lag overlap" "0 < en_MaxWindow e"
    "ok (ss_store w)" "run_state (sched_steps s e (map OwnTick ts)) w = (u, w')"
    "cs_Get st (checkpointKey s name) (ss_store w) = Some c"
    "\<forall>t \<in> set ts. T \<le> tk_now t \<and> (sc_logMaxRecordAge s \<le> 0 \<or> tk_now t - sc_logMaxRecordAge s \<le> c) \<and>
       (\<forall>f g. snd (tk_CollectWindow t f g) = Returned 0)"
  shows "\<exists>c'. cs_Get st (checkpointKey s name) (ss_store w') = Some c' \<and> c \<le> c' \<and>
    min (T - lag) (c + int (length ts) * en_MaxWindow e) \<le> c'"
  using assms(4-)
proof (induction ts arbitrary: w c)
  case Nil
  then show ?case by auto
next
  case (Cons t ts)
  let ?get = "cs_Get st (checkpointKey s name)"
  obtain w1 where r: "run_state (runTick s e t) w = ((), w1)" by (metis old.unit.exhaust surj_pair)
  with Cons.prems(2) have rest: "run_state (sched_steps s e (map OwnTick ts)) w1 = (u, w')" by simp
  from runTick_spec [OF assms(1,2) Cons.prems(1) r] obtain out where
    out: "ok (ss_store w1)" "window_effect s name lag overlap e t (Some c) (?get (ss_store w1)) (ledger out)"
    using Cons.prems(3) by auto
  have t: "ClampLogStart c (tk_now t) (sc_logMaxRecordAge s) = c" "T \<le> tk_now t" "\<And>f g. snd (tk_CollectWindow t f g) = Returned 0"
    using Cons.prems(4) by (auto simp: ClampLogStart_def)
  from out(2) obtain c1 where c1: "?get (ss_store w1) = Some c1" "c \<le> c1" "min (T - lag) (c + en_MaxWindow e) \<le> c1"
  proof (cases rule: window_effect_cases)
    case idle
    with t that [of c] show thesis by simp
  next
    case (poll f g res)
    from window_of_bounds(7) [OF poll(1) assms(3)] t have "min (tk_now t - lag) (c + en_MaxWindow e) \<le> g"
      by (simp add: poll_start_def)
    moreover have "?get (ss_store w1) = Some g" using poll(2,4) t by (simp add: moved_def marks_def)
    ultimately show thesis using poll(6) t that [of g] by simp
  qed
  from Cons.prems(4) c1(2) have "\<forall>t \<in> set ts. T \<le> tk_now t \<and> (sc_logMaxRecordAge s \<le> 0 \<or> tk_now t - sc_logMaxRecordAge s \<le> c1) \<and>
       (\<forall>f g. snd (tk_CollectWindow t f g) = Returned 0)" by force
  from Cons.IH [OF out(1) rest c1(1) this] c1 assms(3) show ?case
    by (auto simp: algebra_simps min_def split: if_splits)
qed

text \<open>The ranges a tick polls.\<close>

lemma poll_bounds:
  assumes "sc_store s = st" "en_Collector e = Window name d lag overlap" "ok (ss_store w)" "run_state (runTick s e t) w = (u, w')"
    "ss_out w' = ss_out w @ out" "CollectWindowCall n from to res \<in> set out"
  shows "from < to \<and> to \<le> tk_now t - lag \<and> (0 < sc_logMaxRecordAge s \<longrightarrow> tk_now t - sc_logMaxRecordAge s \<le> from) \<and>
    (0 < en_MaxWindow e \<and> en_MaxWindow e < maxDuration \<longrightarrow> to - from \<le> en_MaxWindow e + back_by overlap)"
proof -
  from runTick_spec [OF assms(1-4)] assms(5) obtain c c' where
    eff: "window_effect s name lag overlap e t c c' (ledger out)" by auto
  from assms(6) have "CollectWindowCall n from to res \<in> set (ledger out)" by simp
  from window_effect_calls [OF eff this] obtain b where "window_of s lag overlap e (tk_now t) b = Some (from, to)" by blast
  note b = window_of_bounds [OF this]
  have "back_by (replay_overlap overlap b) \<le> back_by overlap" by (simp add: replay_overlap_def back_by_def split: option.split)
  with b show ?thesis by (intro conjI impI) linarith+
qed

end

section \<open>Properties\<close>

text \<open>C4. A window collector never loses ground: over any sequence of its ticks, with failures, panics,
  clock jumps and failed checkpoint writes, interleaved with other collectors' writes to the shared file
  store, every instant between its cursor before and its cursor after lies in a range a successful poll
  consumed or in a span reported as skipped behind the horizon.\<close>

theorem scheduler_no_gaps:
  assumes "sc_store s = file_store lib" "en_Collector e = Window name d lag overlap"
    and "list_all (spares (checkpointKey s name)) steps" "gomap_ok (fs_m (ss_store w))"
    and "file_Get (checkpointKey s name) (ss_store w) = Some c"
  defines "w' \<equiv> after (sched_steps s e steps) w"
  shows "\<exists>c' out. file_Get (checkpointKey s name) (ss_store w') = Some c' \<and> ss_out w' = ss_out w @ out \<and>
    (\<forall>x. c \<le> x \<and> x < c' \<longrightarrow> (\<exists>m \<in> set out. accounts overlap name x m))"
proof -
  have get: "cs_Get (file_store lib) = file_Get" by (simp add: file_store_def)
  show ?thesis
    using filed.no_gap [OF assms(1-4), of "()" w' c] assms(5) unfolding get w'_def by (metis old.unit.exhaust prod.collapse)
qed

definition toy_sched :: "fileStore Scheduler" where
  "toy_sched = \<lparr>sc_store = file_store toy_cp_lib, sc_staggerWindow = 0, sc_selfObs = True, sc_logMaxRecordAge = 50,
     sc_namespace = [], sc_storeError = (\<lambda>_. \<lparr>ge_text = ''disk'', ge_canceled = False, ge_deadline = False\<rparr>)\<rparr>"

definition toy_entry :: Entry where
  "toy_entry = \<lparr>en_Collector = Window ''flowlogs'' 60 5 None, en_Interval = 60, en_InitialLookback = 20, en_MaxWindow = 10\<rparr>"

definition toy_tick :: "gotime \<Rightarrow> gotime outcome3 \<Rightarrow> tick" where
  "toy_tick now r = \<lparr>tk_started = now, tk_now = now, tk_finished = now, tk_duration = 1, tk_ctxDone = False, tk_ctxDoneAtEnd = False,
     tk_Collect = ([], Returned ()), tk_CollectWindow = (\<lambda>f g. ([], r))\<rparr>"

definition toy_world :: "fileStore sched_state" where
  "toy_world = \<lparr>ss_store = toy_cp\<lparr>fs_m := [(''flowlogs'', 100)]\<rparr>, ss_status = None, ss_lastSuccess = 0, ss_out = []\<rparr>"

abbreviation toy_steps :: "sstep list" where
  "toy_steps \<equiv> [OwnTick (toy_tick 120 (Returned 0)), OtherSet ''auditlogs'' 3,
     OwnTick (toy_tick 130 (Panicked ''nil map'')), OwnTick (toy_tick 200 (Returned 0))]"

lemma toy_sched_facts:
  "sc_store toy_sched = file_store toy_cp_lib" "en_Collector toy_entry = Window ''flowlogs'' 60 5 None" "en_MaxWindow toy_entry = 10"
  "sc_logMaxRecordAge toy_sched = 50"
  "checkpointKey toy_sched ''flowlogs'' = ''flowlogs''" "gomap_ok (fs_m (ss_store toy_world))" "ss_out toy_world = []"
  "file_Get ''flowlogs'' (ss_store toy_world) = Some 100" "tk_now (toy_tick now r) = now" "tk_CollectWindow (toy_tick now r) f g = ([], r)"
  by (simp_all add: toy_sched_def toy_entry_def toy_world_def toy_cp_def checkpointKey_def file_Get_def toy_tick_def)

theorem scheduler_no_gaps_witness:
  "\<exists>c' out. file_Get ''flowlogs'' (ss_store (after (sched_steps toy_sched toy_entry toy_steps) toy_world)) = Some c' \<and>
     ss_out (after (sched_steps toy_sched toy_entry toy_steps) toy_world) = out \<and>
     (\<forall>x. 100 \<le> x \<and> x < c' \<longrightarrow> (\<exists>m \<in> set out. accounts None ''flowlogs'' x m))"
  using scheduler_no_gaps [of toy_sched toy_cp_lib toy_entry "''flowlogs''" 60 5 None toy_steps toy_world 100]
  by (simp add: toy_sched_facts del: sched_steps.simps)

text \<open>C24. The cursor never moves backwards: if the high-water marks the collector returns are not before the
  range it was given, any run of ticks and foreign writes ends with a cursor at or after the one it
  started from, whatever fails.\<close>

theorem scheduler_cursor_monotone:
  assumes "sc_store s = file_store lib" "en_Collector e = Window name d lag overlap"
    and "list_all (spares (checkpointKey s name)) steps" "gomap_ok (fs_m (ss_store w))"
    and "file_Get (checkpointKey s name) (ss_store w) = Some c"
    and "\<And>t f g es hwm. OwnTick t \<in> set steps \<Longrightarrow> tk_CollectWindow t f g = (es, Returned hwm) \<Longrightarrow> hwm = 0 \<or> f \<le> hwm"
  shows "\<exists>c'. file_Get (checkpointKey s name) (ss_store (after (sched_steps s e steps) w)) = Some c' \<and> c \<le> c'"
proof -
  have get: "cs_Get (file_store lib) = file_Get" by (simp add: file_store_def)
  obtain u w' where r: "run_state (sched_steps s e steps) w = (u, w')" by (rule prod.exhaust)
  from filed.cursor_monotone [OF assms(1-4) r, of c, unfolded get, OF assms(5,6)] r show ?thesis by simp
qed

theorem scheduler_cursor_monotone_witness:
  "\<exists>c'. file_Get ''flowlogs'' (ss_store (after (sched_steps toy_sched toy_entry toy_steps) toy_world)) = Some c' \<and> 100 \<le> c'"
proof -
  have "hwm = 0 \<or> f \<le> hwm" if "OwnTick t \<in> set toy_steps" "tk_CollectWindow t f g = (es, Returned hwm)" for t f g es hwm
    using that by (auto simp: toy_sched_facts)
  from scheduler_cursor_monotone [where steps = toy_steps, OF toy_sched_facts(1,2) _ toy_sched_facts(6) _ this, of 100] show ?thesis
    by (simp add: toy_sched_facts del: sched_steps.simps)
qed

text \<open>A tick polls only inside its bounds: the range is not empty, ends at the latest at the safety lag
  before now, does not reach behind the record-age horizon, and is no longer than the configured maximum
  window plus the replay overlap.\<close>

theorem scheduler_poll_bounds:
  assumes "sc_store s = file_store lib" "en_Collector e = Window name d lag overlap" "gomap_ok (fs_m (ss_store w))"
    and "ss_out (after (runTick s e t) w) = ss_out w @ out" "CollectWindowCall n from to res \<in> set out"
  shows "from < to \<and> to \<le> tk_now t - lag \<and> (0 < sc_logMaxRecordAge s \<longrightarrow> tk_now t - sc_logMaxRecordAge s \<le> from) \<and>
    (0 < en_MaxWindow e \<and> en_MaxWindow e < maxDuration \<longrightarrow> to - from \<le> en_MaxWindow e + back_by overlap)"
  using filed.poll_bounds [OF assms(1-3) _ assms(4,5)] by (metis prod.collapse)



lemmas toy_tick_defs = runTick_def runCollector_def runWindow_def runWindow_clamp_def runWindow_poll_def runWindow_collect_def runTick_defer_def Let_def
  nextWindow_def ClampLogStart_def time_Sub_def maxDuration_def LogHorizonEmitter_def run_panicked_def run_err_def isShutdownCancellation_def
  file_store_def file_Get_def file_Set_def file_commit_def markDirtyLocked_def checkpointKey_def

lemma toy_poll:
  "\<exists>out. ss_out (after (runTick toy_sched toy_entry (toy_tick 120 (Returned 0))) toy_world) = ss_out toy_world @ out \<and>
     CollectWindowCall ''flowlogs'' 100 110 (Returned 0) \<in> set out"
  by (simp add: toy_tick_defs toy_sched_def toy_entry_def toy_tick_def toy_world_def toy_cp_def)

theorem scheduler_poll_bounds_witness: "(110 :: gotime) \<le> 120 - 5 \<and> 110 - 100 \<le> en_MaxWindow toy_entry + back_by None"
proof -
  from toy_poll obtain out where out: "ss_out (after (runTick toy_sched toy_entry (toy_tick 120 (Returned 0))) toy_world) = ss_out toy_world @ out"
    "CollectWindowCall ''flowlogs'' 100 110 (Returned 0) \<in> set out" by blast
  from scheduler_poll_bounds [OF toy_sched_facts(1,2,6) out] show ?thesis
    by (simp add: toy_sched_facts maxDuration_def)
qed

text \<open>A tick whose collection fails or panics does not consume anything: afterwards the cursor is the one
  before it, or the horizon it was clamped to, and no poll of the tick succeeded.\<close>

theorem failed_tick_keeps_cursor:
  assumes "sc_store s = file_store lib" "en_Collector e = Window name d lag overlap" "gomap_ok (fs_m (ss_store w))"
    and "file_Get (checkpointKey s name) (ss_store w) = Some c"
    and "\<And>f g hwm. snd (tk_CollectWindow t f g) \<noteq> Returned hwm"
  shows "file_Get (checkpointKey s name) (ss_store (after (runTick s e t) w)) = Some (ClampLogStart c (tk_now t) (sc_logMaxRecordAge s))"
proof -
  have get: "cs_Get (file_store lib) = file_Get" by (simp add: file_store_def)
  obtain u w' where r: "run_state (runTick s e t) w = (u, w')" by (rule prod.exhaust)
  from filed.runTick_spec [OF assms(1-3) r, unfolded get assms(4)] obtain out where
    "window_effect s name lag overlap e t (Some c) (file_Get (checkpointKey s name) (ss_store w')) (ledger out)" by auto
  then have "file_Get (checkpointKey s name) (ss_store w') = Some (ClampLogStart c (tk_now t) (sc_logMaxRecordAge s))"
  proof (cases rule: window_effect_cases)
    case (poll f g res)
    from assms(5) [of f g] poll(2) have "res \<noteq> Returned hwm" for hwm by simp
    with poll(4) show ?thesis by (cases res) (auto simp: moved_def)
  qed simp
  with r show ?thesis by simp
qed

theorem failed_tick_keeps_cursor_witness:
  "file_Get ''flowlogs'' (ss_store (after (runTick toy_sched toy_entry (toy_tick 130 (Panicked ''boom''))) toy_world)) = Some 100 \<and>
   file_Get ''flowlogs'' (ss_store (after (runTick toy_sched toy_entry (toy_tick 190 (Panicked ''boom''))) toy_world)) = Some 140"
  using failed_tick_keeps_cursor [of toy_sched toy_cp_lib toy_entry "''flowlogs''" 60 5 None toy_world 100 "toy_tick 130 (Panicked ''boom'')"]
    failed_tick_keeps_cursor [of toy_sched toy_cp_lib toy_entry "''flowlogs''" 60 5 None toy_world 100 "toy_tick 190 (Panicked ''boom'')"]
  by (simp add: toy_sched_facts ClampLogStart_def)



text \<open>What a tick leaves in the status tracker, given how the collection ended.\<close>

lemma runCollector_status:
  "ss_status (after (runCollector s e t) w) = ss_status w \<and> ss_lastSuccess (after (runCollector s e t) w) = ss_lastSuccess w"
proof -
  have frame: "ss_status (after m w) = ss_status w \<and> ss_lastSuccess (after m w) = ss_lastSuccess w"
    if "keeps (\<lambda>v. ss_status v = ss_status w \<and> ss_lastSuccess v = ss_lastSuccess w) m" for m :: "('a sched_state, 'b) state"
    using that by (simp add: keeps_def triple_def)
  let ?J = "\<lambda>v :: 'a sched_state. ss_status v = ss_status w \<and> ss_lastSuccess v = ss_lastSuccess w"
  have say: "keeps ?J (say xs)" for xs by (simp add: keeps_def triple_def)
  have store: "keeps ?J (on_store m)" for m :: "('a, 'c) state" by (simp add: keeps_def triple_def)
  have get: "keeps ?J State_Monad.get" by (simp add: keeps_def triple_def)
  have collect: "keeps ?J (runWindow_collect s n t f g rp)" for n f g rp
    unfolding runWindow_collect_def Let_def
    by (auto intro!: hoare say store split: prod.split outcome3.split)
  have clamp: "keeps ?J (runWindow_clamp s n a b)" for n a b
    unfolding runWindow_clamp_def Let_def by (intro hoare say store get)
  have poll: "keeps ?J (runWindow_poll s n lag ov e t c)" for n lag ov c
    unfolding runWindow_poll_def Let_def by (auto intro!: hoare collect split: option.split)
  have "keeps ?J (runWindow s n lag ov e t)" for n lag ov
    unfolding runWindow_def Let_def by (intro hoare clamp poll get)
  moreover have "keeps ?J (runSnapshot n t)" for n
    unfolding runSnapshot_def Let_def by (auto intro!: hoare say split: prod.split)
  ultimately have "keeps ?J (runCollector s e t)"
    unfolding runCollector_def by (auto intro!: hoare say split: Collector.split)
  then show ?thesis by (rule frame)
qed

text \<open>A tick is recorded exactly once, as what it was: a returned collection is a success stamped with its
  finish time, an error or a panic a failure with its text, and a collection interrupted by the shutdown of
  its own context leaves the status page and the staleness baseline untouched.\<close>

theorem tick_recorded_once:
  fixes w :: "'s sched_state" and s :: "'s Scheduler" and e :: Entry and t :: tick
  defines "r \<equiv> outcome_of (runCollector s e t) w" and "w' \<equiv> after (runTick s e t) w"
  shows "if \<not> run_panicked r \<and> isShutdownCancellation (tk_ctxDoneAtEnd t) (run_err r)
    then ss_status w' = ss_status w \<and> ss_lastSuccess w' = ss_lastSuccess w
    else ss_status w' = status_record (c_Name (en_Collector e)) (tk_started t) (tk_finished t) (tk_duration t) (errStr r) (ss_status w) \<and>
      ss_lastSuccess w' = (if r = Returned () then tk_finished t else ss_lastSuccess w)"
proof -
  obtain w1 where r: "run_state (runCollector s e t) w = (r, w1)" unfolding r_def by (metis prod.collapse)
  with runCollector_status [of s e t w] have w1: "ss_status w1 = ss_status w" "ss_lastSuccess w1 = ss_lastSuccess w" by simp_all
  have "w' = after (runTick_defer s e t r) w1" using r by (simp add: w'_def runTick_def)
  with w1 show ?thesis
    by (cases r) (auto simp: runTick_defer_def Let_def run_panicked_def run_err_def isShutdownCancellation_def)
qed

definition label_shape :: "string \<Rightarrow> bool" where
  "label_shape l \<longleftrightarrow> l \<noteq> [] \<and> length l \<le> 32 \<and> CHR ''a'' \<le> hd l \<and> hd l \<le> CHR ''z'' \<and>
     (\<forall>c \<in> set l. (CHR ''a'' \<le> c \<and> c \<le> CHR ''z'') \<or> (CHR ''0'' \<le> c \<and> c \<le> CHR ''9'') \<or> c = CHR ''_'')"

lemma label_loop_tail:
  "label_loop (Suc i) l \<longleftrightarrow> (\<forall>c \<in> set l. (CHR ''a'' \<le> c \<and> c \<le> CHR ''z'') \<or> (CHR ''0'' \<le> c \<and> c \<le> CHR ''9'') \<or> c = CHR ''_'')"
  by (induction l arbitrary: i) auto

text \<open>Whatever a collector is called, the label attached to profiles is a lowercase identifier of at most
  32 bytes, and exactly the names of that shape are kept unchanged; every other name becomes \<open>other\<close>.\<close>

theorem collector_label_bounded:
  "label_shape (boundedCollectorLabel name) \<and>
   boundedCollectorLabel name = (if label_shape name then name else ''other'')"
proof -
  have "label_loop 0 name \<longleftrightarrow> label_shape name" if "name \<noteq> []" "length name \<le> 32"
    using that by (cases name) (auto simp: label_shape_def label_loop_tail)
  moreover have "label_shape ''other''" by (simp add: label_shape_def)
  ultimately show ?thesis
    by (auto simp: boundedCollectorLabel_def maxCollectorLabelLen_def collectorLabelOther_def label_shape_def)
qed

end
