(* ===== verification/Export_Ack.thy ===== *)
theory Export_Ack
  imports Go_Prelude
begin

text \<open>
  \<open>src/internal/telemetry/export_ack.go\<close>: which export errors still acknowledge delivery and which prove that
  a backend will never accept the data. An error is the tree its \<open>Unwrap\<close> methods show: a partial-success
  leaf of the OpenTelemetry exporters, the validating transport's HTTP rejection, a join or a wrapper, or
  any other leaf. A nil child is \<open>None\<close>.
\<close>

datatype export_error =
  PartialSuccess string string int
| HttpExportRejection int string
| Joined "export_error option list"
| Wrapped "export_error option"
| OtherError string

definition permanentHTTPStatus :: "int \<Rightarrow> bool" where
  "permanentHTTPStatus code \<longleftrightarrow> 400 \<le> code \<and> code < 500 \<and> code \<noteq> 401 \<and> code \<noteq> 403 \<and> code \<noteq> 408 \<and> code \<noteq> 429"

fun permanent_node :: "export_error \<Rightarrow> bool" where
  "permanent_node (HttpExportRejection code signal) = permanentHTTPStatus code"
| "permanent_node (Joined children) =
     (if length children = 0 then False
      else list_all (\<lambda>c. case c of None \<Rightarrow> False | Some e \<Rightarrow> permanent_node e) children)"
| "permanent_node (Wrapped child) = (case child of None \<Rightarrow> False | Some e \<Rightarrow> permanent_node e)"
| "permanent_node _ = False"

definition permanentExportRejection :: "export_error option \<Rightarrow> bool" where
  "permanentExportRejection err = (case err of None \<Rightarrow> False | Some e \<Rightarrow> permanent_node e)"

record exportResult =
  er_ack :: bool
  er_warning :: bool
  er_err :: "export_error list"

definition rejectedKind :: "string \<Rightarrow> string option" where
  "rejectedKind signal =
     (if signal = ''metrics'' then Some ''metric data points'' else if signal = ''logs'' then Some ''logs'' else None)"

text \<open>A leaf of the exporter package of the signal, with the kind that package uses: the rejected items.\<close>

fun sdkPartialSuccessLeaf :: "export_error \<Rightarrow> string \<Rightarrow> int option" where
  "sdkPartialSuccessLeaf (PartialSuccess pkg kind rejected) signal =
     (if pkg = signal \<and> rejectedKind signal = Some kind then Some rejected else None)"
| "sdkPartialSuccessLeaf _ signal = None"

definition refuse :: "export_error \<Rightarrow> exportResult \<Rightarrow> exportResult" where
  "refuse e r = r\<lparr>er_ack := False, er_err := er_err r @ [e]\<rparr>"

fun visit :: "string \<Rightarrow> export_error \<Rightarrow> exportResult \<Rightarrow> exportResult" where
  "visit signal (Joined children) r =
     (if length children > 0
      then fold (\<lambda>c. case c of None \<Rightarrow> (\<lambda>r. r) | Some e \<Rightarrow> visit signal e) children r
      else refuse (Joined children) r)"
| "visit signal (Wrapped child) r =
     (case child of Some e \<Rightarrow> visit signal e r | None \<Rightarrow> refuse (Wrapped child) r)"
| "visit signal e r =
     (case sdkPartialSuccessLeaf e signal of
        Some rejected \<Rightarrow> if rejected = 0 then r\<lparr>er_warning := True\<rparr> else refuse e r
      | None \<Rightarrow> refuse e r)"

definition classifyExportResult :: "export_error option \<Rightarrow> string \<Rightarrow> exportResult" where
  "classifyExportResult err signal =
     (let result = \<lparr>er_ack = True, er_warning = False, er_err = []\<rparr>
      in case err of None \<Rightarrow> result | Some e \<Rightarrow> visit signal e result)"

section \<open>Leaves\<close>

text \<open>The leaves of an error: what is reached by unwrapping, a node that unwraps to nothing included.\<close>

fun leaves :: "export_error \<Rightarrow> export_error list" where
  "leaves (Joined children) =
     (if children = [] then [Joined []] else concat (map (\<lambda>c. case c of None \<Rightarrow> [] | Some e \<Rightarrow> leaves e) children))"
| "leaves (Wrapped child) = (case child of None \<Rightarrow> [Wrapped None] | Some e \<Rightarrow> leaves e)"
| "leaves e = [e]"

abbreviation accepted_leaf :: "string \<Rightarrow> export_error \<Rightarrow> bool" where
  "accepted_leaf signal e \<equiv> sdkPartialSuccessLeaf e signal = Some 0"

lemma refuse_simps [simp]: "er_ack (refuse e r) = False" "er_err (refuse e r) = er_err r @ [e]"
  by (simp_all add: refuse_def)

lemma visit_spec:
  "er_ack (visit signal e r) = (er_ack r \<and> list_all (accepted_leaf signal) (leaves e)) \<and>
   er_err (visit signal e r) = er_err r @ filter (\<lambda>l. \<not> accepted_leaf signal l) (leaves e)"
proof (induction e arbitrary: r)
  case (Joined cs)
  let ?step = "\<lambda>c. case c of None \<Rightarrow> (\<lambda>r. r) | Some e \<Rightarrow> visit signal e"
  let ?ls = "\<lambda>cs. concat (map (\<lambda>c. case c of None \<Rightarrow> [] | Some e \<Rightarrow> leaves e) cs)"
  have "er_ack (fold ?step ds r) = (er_ack r \<and> list_all (accepted_leaf signal) (?ls ds)) \<and>
    er_err (fold ?step ds r) = er_err r @ filter (\<lambda>l. \<not> accepted_leaf signal l) (?ls ds)" if "set ds \<subseteq> set cs" for ds
    using that
  proof (induction ds arbitrary: r)
    case (Cons d ds)
    then show ?case using Joined.IH [of d] by (cases d) auto
  qed simp
  then show ?case by simp
next
  case (Wrapped c)
  then show ?case by (cases c) auto
qed (auto split: option.splits)

lemma permanent_leaves:
  "permanent_node e \<Longrightarrow> leaves e \<noteq> [] \<and> list_all (\<lambda>l. \<exists>code s. l = HttpExportRejection code s \<and> permanentHTTPStatus code) (leaves e)"
proof (induction e)
  case (Joined cs)
  let ?ok = "\<lambda>l. \<exists>code s. l = HttpExportRejection code s \<and> permanentHTTPStatus code"
  from Joined.prems have ne: "cs \<noteq> []" and all: "\<forall>c \<in> set cs. \<exists>e. c = Some e \<and> permanent_node e"
    by (auto simp: list_all_iff split: if_splits option.splits)
  have "\<exists>e. c = Some e \<and> leaves e \<noteq> [] \<and> list_all ?ok (leaves e)" if "c \<in> set cs" for c
    using all that Joined.IH [OF that] by fastforce
  with ne show ?case by (cases cs) (fastforce simp: list_all_iff)+
next
  case (Wrapped c)
  then show ?case by (cases c) auto
qed auto


text \<open>A permanent rejection has at least one leaf, every leaf is one of the transport's rejections with a
  permanent status, and it never counts as delivered.\<close>

lemma permanent_rejection_not_acknowledged:
  assumes "permanentExportRejection (Some e)"
  shows "leaves e \<noteq> [] \<and> list_all (\<lambda>l. \<exists>code s. l = HttpExportRejection code s \<and> permanentHTTPStatus code) (leaves e) \<and>
    \<not> er_ack (classifyExportResult (Some e) signal)"
proof -
  from assms permanent_leaves [of e] have p: "leaves e \<noteq> []"
    "list_all (\<lambda>l. \<exists>code s. l = HttpExportRejection code s \<and> permanentHTTPStatus code) (leaves e)"
    by (auto simp: permanentExportRejection_def)
  from p have "\<not> list_all (accepted_leaf signal) (leaves e)" by (cases "leaves e") auto
  with p visit_spec [of signal e] show ?thesis by (simp add: classifyExportResult_def)
qed

end
