(* ===== verification/Metric_Parts.thy ===== *)
theory Metric_Parts
  imports Go_Prelude
begin

text \<open>
  \<open>src/internal/telemetry/metric_batches.go\<close>: freezing a collected snapshot into export parts of at most a batch
  of data points. A snapshot is a resource with scopes, a scope a list of metrics, a metric its identity,
  the type of its aggregation and its data points. Go's recursive copy is the identity on these values;
  an aggregation outside the exporter's list is an error. The loop over the points of a metric is written
  as it is in the code, so that its termination is something to prove.
\<close>

datatype aggregation =
  GaugeInt64 | GaugeFloat64 | SumInt64 | SumFloat64 | HistogramInt64 | HistogramFloat64
| ExponentialHistogramInt64 | ExponentialHistogramFloat64 | Summary | UnknownAggregation

record ('m, 'p) Metrics =
  me_id :: 'm
  me_Data :: aggregation
  me_DataPoints :: "'p list"

record ('r, 'sc, 'm, 'p) ResourceMetrics =
  rm_Resource :: 'r
  rm_ScopeMetrics :: "('sc \<times> ('m, 'p) Metrics list) list"

definition metricAggregationValue :: "aggregation \<Rightarrow> bool" where
  "metricAggregationValue a = (case a of UnknownAggregation \<Rightarrow> False | _ \<Rightarrow> True)"

definition cloneResourceMetrics :: "('r, 'sc, 'm, 'p) ResourceMetrics \<Rightarrow> ('r, 'sc, 'm, 'p) ResourceMetrics option" where
  "cloneResourceMetrics rm =
     (if list_all (\<lambda>(sc, ms). list_all (\<lambda>m. metricAggregationValue (me_Data m)) ms) (rm_ScopeMetrics rm)
      then Some rm else None)"

text \<open>The loop's variables: the finished parts, the part being filled and its number of points.\<close>

type_synonym ('r, 'sc, 'm, 'p) freeze_state =
  "('r, 'sc, 'm, 'p) ResourceMetrics list \<times> ('r, 'sc, 'm, 'p) ResourceMetrics \<times> int"

definition freeze_finish :: "('r, 'sc, 'm, 'p) freeze_state \<Rightarrow> ('r, 'sc, 'm, 'p) freeze_state" where
  "freeze_finish st = (case st of (result, current, filled) \<Rightarrow>
     if 0 < filled then (result @ [current], \<lparr>rm_Resource = rm_Resource current, rm_ScopeMetrics = []\<rparr>, 0) else st)"

definition freeze_add :: "'sc \<Rightarrow> ('m, 'p) Metrics \<Rightarrow> 'p list \<Rightarrow> ('r, 'sc, 'm, 'p) freeze_state \<Rightarrow> ('r, 'sc, 'm, 'p) freeze_state" where
  "freeze_add sc m piece st = (case st of (result, current, filled) \<Rightarrow>
     (result, current\<lparr>rm_ScopeMetrics := rm_ScopeMetrics current @ [(sc, [m\<lparr>me_DataPoints := piece\<rparr>])]\<rparr>,
      filled + int (length piece)))"

partial_function (option) freeze_points ::
  "int \<Rightarrow> 'sc \<Rightarrow> ('m, 'p) Metrics \<Rightarrow> 'p list \<Rightarrow> ('r, 'sc, 'm, 'p) freeze_state \<Rightarrow> ('r, 'sc, 'm, 'p) freeze_state option" where
  "freeze_points batch sc m pts st =
     (if pts = [] then Some st
      else let st = (if snd (snd st) = batch then freeze_finish st else st);
               n = nat (min (batch - snd (snd st)) (int (length pts)))
           in freeze_points batch sc m (drop n pts) (freeze_add sc m (take n pts) st))"

declare freeze_points.simps [code]

fun freeze_metrics ::
  "int \<Rightarrow> 'sc \<Rightarrow> ('m, 'p) Metrics list \<Rightarrow> ('r, 'sc, 'm, 'p) freeze_state \<Rightarrow> ('r, 'sc, 'm, 'p) freeze_state option" where
  "freeze_metrics batch sc [] st = Some st"
| "freeze_metrics batch sc (m # ms) st =
     (case freeze_points batch sc m (me_DataPoints m) st of None \<Rightarrow> None | Some st \<Rightarrow> freeze_metrics batch sc ms st)"

fun freeze_scopes ::
  "int \<Rightarrow> ('sc \<times> ('m, 'p) Metrics list) list \<Rightarrow> ('r, 'sc, 'm, 'p) freeze_state \<Rightarrow> ('r, 'sc, 'm, 'p) freeze_state option" where
  "freeze_scopes batch [] st = Some st"
| "freeze_scopes batch ((sc, ms) # scs) st =
     (case freeze_metrics batch sc ms st of None \<Rightarrow> None | Some st \<Rightarrow> freeze_scopes batch scs st)"

text \<open>\<open>None\<close> is a loop that does not end; \<open>Some None\<close> is the error of an unsupported aggregation.\<close>

definition freezeMetricParts ::
  "('r, 'sc, 'm, 'p) ResourceMetrics \<Rightarrow> int \<Rightarrow> ('r, 'sc, 'm, 'p) ResourceMetrics list option option" where
  "freezeMetricParts rm batch =
     (case cloneResourceMetrics rm of
        None \<Rightarrow> Some None
      | Some frozen \<Rightarrow>
          if batch \<le> 0 then Some (Some [frozen])
          else case freeze_scopes batch (rm_ScopeMetrics frozen) ([], \<lparr>rm_Resource = rm_Resource frozen, rm_ScopeMetrics = []\<rparr>, 0) of
            None \<Rightarrow> None
          | Some st \<Rightarrow> let result = fst (freeze_finish st)
                       in Some (Some (if length result = 0 then [frozen] else result)))"

section \<open>Nothing lost, nothing too large\<close>

text \<open>The data points of a snapshot, with the scope, metric and aggregation they belong to.\<close>

definition metric_points :: "'sc \<Rightarrow> ('m, 'p) Metrics \<Rightarrow> ('sc \<times> 'm \<times> aggregation \<times> 'p) list" where
  "metric_points sc m = map (\<lambda>p. (sc, me_id m, me_Data m, p)) (me_DataPoints m)"

definition scope_points :: "'sc \<times> ('m, 'p) Metrics list \<Rightarrow> ('sc \<times> 'm \<times> aggregation \<times> 'p) list" where
  "scope_points s = concat (map (metric_points (fst s)) (snd s))"

definition points_of :: "('r, 'sc, 'm, 'p) ResourceMetrics \<Rightarrow> ('sc \<times> 'm \<times> aggregation \<times> 'p) list" where
  "points_of rm = concat (map scope_points (rm_ScopeMetrics rm))"

definition state_points :: "('r, 'sc, 'm, 'p) freeze_state \<Rightarrow> ('sc \<times> 'm \<times> aggregation \<times> 'p) list" where
  "state_points st = (case st of (result, current, filled) \<Rightarrow> concat (map points_of result) @ points_of current)"

definition freeze_ok :: "int \<Rightarrow> 'r \<Rightarrow> ('r, 'sc, 'm, 'p) freeze_state \<Rightarrow> bool" where
  "freeze_ok batch r st = (case st of (result, current, filled) \<Rightarrow>
     filled = int (length (points_of current)) \<and> filled \<le> batch \<and> rm_Resource current = r \<and>
     list_all (\<lambda>p. points_of p \<noteq> [] \<and> int (length (points_of p)) \<le> batch \<and> rm_Resource p = r) result)"

lemma finish_ok:
  "freeze_ok batch r st \<Longrightarrow> freeze_ok batch r (freeze_finish st) \<and> state_points (freeze_finish st) = state_points st \<and>
     (0 < batch \<longrightarrow> snd (snd st) = batch \<longrightarrow> snd (snd (freeze_finish st)) = 0)"
  by (auto simp: freeze_ok_def freeze_finish_def state_points_def points_of_def split: prod.splits)

lemma add_ok:
  "freeze_ok batch r st \<Longrightarrow> snd (snd st) + int (length piece) \<le> batch \<Longrightarrow>
     freeze_ok batch r (freeze_add sc m piece st) \<and>
     state_points (freeze_add sc m piece st) = state_points st @ map (\<lambda>p. (sc, me_id m, me_Data m, p)) piece"
  by (auto simp: freeze_ok_def freeze_add_def state_points_def points_of_def scope_points_def metric_points_def split: prod.splits)

lemma freeze_points_ok:
  assumes "0 < batch" "freeze_ok batch r st"
  shows "\<exists>st'. freeze_points batch sc m pts st = Some st' \<and> freeze_ok batch r st' \<and>
    state_points st' = state_points st @ map (\<lambda>p. (sc, me_id m, me_Data m, p)) pts"
  using assms(2)
proof (induction "length pts" arbitrary: pts st rule: less_induct)
  case less
  show ?case
  proof (cases "pts = []")
    case True
    with less.prems show ?thesis by (simp add: freeze_points.simps)
  next
    case False
    define st1 where "st1 = (if snd (snd st) = batch then freeze_finish st else st)"
    define n where "n = nat (min (batch - snd (snd st1)) (int (length pts)))"
    have st1: "freeze_ok batch r st1" "state_points st1 = state_points st" "snd (snd st1) < batch"
      using less.prems finish_ok [OF less.prems] assms(1) by (auto simp: st1_def freeze_ok_def split: prod.splits)
    then have n: "0 < n" "snd (snd st1) + int (length (take n pts)) \<le> batch" using False by (auto simp: n_def)
    from add_ok [OF st1(1) n(2)] have
      a: "freeze_ok batch r (freeze_add sc m (take n pts) st1)"
      "state_points (freeze_add sc m (take n pts) st1) = state_points st @ map (\<lambda>p. (sc, me_id m, me_Data m, p)) (take n pts)"
      using st1(2) by auto
    have "length (drop n pts) < length pts" using n(1) False by simp
    from less.hyps [OF this a(1)] a(2) have
      "\<exists>st'. freeze_points batch sc m (drop n pts) (freeze_add sc m (take n pts) st1) = Some st' \<and> freeze_ok batch r st' \<and>
         state_points st' = state_points st @ map (\<lambda>p. (sc, me_id m, me_Data m, p)) pts"
      by (metis append.assoc append_take_drop_id map_append)
    moreover have "freeze_points batch sc m pts st = freeze_points batch sc m (drop n pts) (freeze_add sc m (take n pts) st1)"
      using False by (subst freeze_points.simps) (simp add: Let_def st1_def n_def)
    ultimately show ?thesis by simp
  qed
qed

lemma freeze_metrics_ok:
  assumes "0 < batch" "freeze_ok batch r st"
  shows "\<exists>st'. freeze_metrics batch sc ms st = Some st' \<and> freeze_ok batch r st' \<and>
    state_points st' = state_points st @ scope_points (sc, ms)"
  using assms(2)
proof (induction ms arbitrary: st)
  case (Cons m ms)
  from freeze_points_ok [OF assms(1) Cons.prems] obtain st1 where
    "freeze_points batch sc m (me_DataPoints m) st = Some st1" "freeze_ok batch r st1"
    "state_points st1 = state_points st @ metric_points sc m" unfolding metric_points_def by blast
  with Cons.IH [of st1] show ?case by (auto simp: scope_points_def)
qed (simp add: scope_points_def)

lemma freeze_scopes_ok:
  assumes "0 < batch" "freeze_ok batch r st"
  shows "\<exists>st'. freeze_scopes batch scs st = Some st' \<and> freeze_ok batch r st' \<and>
    state_points st' = state_points st @ concat (map scope_points scs)"
  using assms(2)
proof (induction scs arbitrary: st)
  case (Cons s scs)
  obtain sc ms where s: "s = (sc, ms)" by (cases s)
  from freeze_metrics_ok [OF assms(1) Cons.prems, of sc ms] obtain st1 where
    "freeze_metrics batch sc ms st = Some st1" "freeze_ok batch r st1"
    "state_points st1 = state_points st @ scope_points s" unfolding s by blast
  with Cons.IH [of st1] show ?case by (auto simp: s)
qed simp

text \<open>C16. Splitting a snapshot for export always ends, and the parts are the snapshot: their data points, in
  order and each with its scope, metric and aggregation, are exactly those of the snapshot, every part
  belongs to its resource, and with a batch size no part exceeds it. Only an unsupported aggregation is an
  error.\<close>

theorem freeze_parts_exact:
  "case freezeMetricParts rm batch of
     None \<Rightarrow> False
   | Some None \<Rightarrow> \<exists>s \<in> set (rm_ScopeMetrics rm). \<exists>m \<in> set (snd s). me_Data m = UnknownAggregation
   | Some (Some parts) \<Rightarrow> parts \<noteq> [] \<and> concat (map points_of parts) = points_of rm \<and>
       list_all (\<lambda>p. rm_Resource p = rm_Resource rm \<and> (batch \<le> 0 \<or> int (length (points_of p)) \<le> batch)) parts"
proof -
  let ?st = "([], \<lparr>rm_Resource = rm_Resource rm, rm_ScopeMetrics = []\<rparr>, 0) :: ('a, 'b, 'c, 'd) freeze_state"
  have clone: "cloneResourceMetrics rm = Some rm \<or>
    cloneResourceMetrics rm = None \<and> (\<exists>s \<in> set (rm_ScopeMetrics rm). \<exists>m \<in> set (snd s). me_Data m = UnknownAggregation)"
    by (auto simp: cloneResourceMetrics_def list_all_iff metricAggregationValue_def split: aggregation.splits)
  show ?thesis
  proof (cases "0 < batch")
    case False
    with clone show ?thesis by (elim disjE) (simp_all add: freezeMetricParts_def)
  next
    case True
    then have "freeze_ok batch (rm_Resource rm) ?st" by (simp add: freeze_ok_def points_of_def)
    from freeze_scopes_ok [OF True this, of "rm_ScopeMetrics rm"] obtain st where
      st: "freeze_scopes batch (rm_ScopeMetrics rm) ?st = Some st" "freeze_ok batch (rm_Resource rm) st" "state_points st = points_of rm"
      by (auto simp: state_points_def points_of_def)
    from finish_ok [OF st(2)] st(3) have f: "freeze_ok batch (rm_Resource rm) (freeze_finish st)"
      "state_points (freeze_finish st) = points_of rm" by auto
    have "points_of (fst (snd (freeze_finish st))) = []"
      using st(2) by (auto simp: freeze_finish_def freeze_ok_def points_of_def split: prod.splits)
    with f have "concat (map points_of (fst (freeze_finish st))) = points_of rm"
      "list_all (\<lambda>p. int (length (points_of p)) \<le> batch \<and> rm_Resource p = rm_Resource rm) (fst (freeze_finish st))"
      by (auto simp: state_points_def freeze_ok_def list_all_iff split: prod.splits)
    with clone st(1) True show ?thesis by (elim disjE) (auto simp: freezeMetricParts_def Let_def list_all_iff)
  qed
qed

end
