(* ===== verification/Ingress_Delivery.thy ===== *)
theory Ingress_Delivery
  imports Series_Cardinality Export_Ack Metric_Parts
begin

text \<open>
  \<open>src/internal/telemetry/ingress_delivery.go\<close>, \<open>scheduled_metrics.go\<close> and \<open>metric_program.go\<close>: how one provider
  carries ingress work from its reservation to the acknowledgement of both its signals. Receipts and groups
  are objects on a heap, referred to by number (a receipt by its sequence number). The goroutines (appliers,
  the collection clock, the metric exporter, the log exporter) interleave: what a goroutine does under the
  reader's and the receipts' locks between two calls to the outside (the work, the instruments, \<open>Collect\<close>, the
  exporters) is one function here, and what it holds in local variables across such a call is part of the
  state. What the calls do is recorded in a list of events. Channels that wake waiters, wall-clock times and
  the waiting operations (\<open>Wait\<close>, \<open>ForceFlush\<close>, \<open>flushIngressLogs\<close>), which change none of this state, are left out.
\<close>

section \<open>Metric programs\<close>

record metricOperation =
  mo_kind :: nat
  mo_name :: string
  mo_unit :: string
  mo_description :: string
  mo_value :: "64 word"
  mo_attrs :: "Attrs option"
  mo_bounds :: "64 word list"
  mo_points :: "(64 word \<times> Attrs option) list"

record metricProgram =
  mp_operations :: "metricOperation list"
  mp_bytes :: int
  mp_cursor :: nat
  mp_sealed :: bool
  mp_maxOps :: int
  mp_maxBytes :: int

fun attr_bytes :: "attr_value \<Rightarrow> int option" where
  "attr_bytes (VString s) = Some (int (length s))"
| "attr_bytes (VStrings ss) = Some (int (length ss) * 16 + sum_list (map (\<lambda>s. int (length s)) ss))"
| "attr_bytes VOther = None"
| "attr_bytes _ = Some 8"

fun copyMetricAttrs_loop :: "Attrs \<Rightarrow> int \<Rightarrow> int option" where
  "copyMetricAttrs_loop [] bytes = Some bytes"
| "copyMetricAttrs_loop ((key, v) # kvs) bytes =
     (case attr_bytes v of None \<Rightarrow> None | Some n \<Rightarrow> copyMetricAttrs_loop kvs (bytes + int (length key) + 32 + n))"

text \<open>The copy and its charge; \<open>None\<close> is the error, whose charge is 0.\<close>

definition copyMetricAttrs :: "Attrs option \<Rightarrow> (Attrs option \<times> int) option" where
  "copyMetricAttrs attrs =
     (case attrs of
        None \<Rightarrow> Some (None, 0)
      | Some kvs \<Rightarrow> map_option (\<lambda>n. (Some kvs, n)) (copyMetricAttrs_loop kvs 0))"

text \<open>The loop over the points stops at the first error; its error replaces the one of the attributes.\<close>

fun points_charge :: "(64 word \<times> Attrs option) list \<Rightarrow> bool \<Rightarrow> int \<Rightarrow> bool \<times> int" where
  "points_charge [] err charge = (err, charge)"
| "points_charge ((v, a) # ps) err charge =
     (case copyMetricAttrs a of
        None \<Rightarrow> (True, charge + 32)
      | Some (_, n) \<Rightarrow> points_charge ps False (charge + n + 32))"

definition program_add :: "metricOperation \<Rightarrow> metricProgram \<Rightarrow> metricProgram \<times> bool" where
  \<comment> \<open>the second component tells whether the owner is poisoned\<close>
  "program_add op p =
     (let charge = int (length (mo_name op) + length (mo_unit op) + length (mo_description op)) + 128;
          attrs = copyMetricAttrs (mo_attrs op);
          charge = charge + (case attrs of None \<Rightarrow> 0 | Some (_, n) \<Rightarrow> n);
          op' = op\<lparr>mo_attrs := (case attrs of None \<Rightarrow> None | Some (a, _) \<Rightarrow> a)\<rparr>;
          charge = charge + int (length (mo_bounds op)) * 8
      in case points_charge (mo_points op) (attrs = None) charge of (err, charge) \<Rightarrow>
           if mp_sealed p \<or> err \<or> 4 < mo_kind op \<or> charge < 0 \<or> 2 ^ 63 - 1 - mp_bytes p < charge \<or>
              mp_maxOps p \<le> int (length (mp_operations p)) \<or> mp_maxBytes p - mp_bytes p < charge
           then (p, True)
           else (p\<lparr>mp_operations := mp_operations p @ [op'], mp_bytes := mp_bytes p + charge\<rparr>, False))"

text \<open>The emitting loop from the cursor on: the operations handed to the emitter, how far the cursor moved
  and whether it ended with an error. \<open>panics\<close> is the operation at which the emitter panics, if any.\<close>

fun emit_loop :: "nat option \<Rightarrow> metricOperation list \<Rightarrow> metricOperation list \<times> nat \<times> bool" where
  "emit_loop panics [] = ([], 0, False)"
| "emit_loop panics (op # ops) =
     (if 4 < mo_kind op then ([], 1, True)
      else if panics = Some 0 then ([op], 1, True)
      else case emit_loop (map_option (\<lambda>k. k - 1) panics) ops of (es, n, err) \<Rightarrow> (op # es, Suc n, err))"

definition EmitOnce :: "nat option \<Rightarrow> metricProgram \<Rightarrow> metricProgram \<times> metricOperation list \<times> bool" where
  "EmitOnce panics p =
     (case emit_loop panics (drop (mp_cursor p) (mp_operations p)) of (es, n, err) \<Rightarrow>
        (p\<lparr>mp_sealed := True, mp_cursor := mp_cursor p + n\<rparr>, es, err))"

section \<open>State\<close>

datatype ReceiptPhase = Reserved | Building | Ready | Covered | Delivered | Poisoned

record LogBounds =
  lb_Records :: int
  lb_Bytes :: int

record WorkBounds =
  wb_InputBytes :: int
  wb_Logs :: LogBounds
  wb_MetricOps :: int
  wb_MetricBytes :: int

record log_record =
  lr_EventName :: string
  lr_Body :: string
  lr_attrs :: "(string \<times> string) list"

definition zero_record :: log_record where
  "zero_record = \<lparr>lr_EventName = [], lr_Body = [], lr_attrs = []\<rparr>"

record collectionID =
  ci_slot :: nat
  ci_reason :: nat

record IngressReceipt =
  ir_phase :: ReceiptPhase
  ir_bounds :: WorkBounds
  ir_program :: "metricProgram option"
  ir_group :: "nat option"
  ir_records :: "log_record list"
  ir_recordBytes :: int
  ir_logOffset :: nat
  ir_logPermanentRejections :: nat
  ir_metricsExcluded :: bool
  ir_logsExcluded :: bool
  ir_metricAck :: bool
  ir_logAck :: bool
  ir_firstCoverID :: "collectionID option"

record ingressGroup =
  ig_members :: "nat list"
  ig_closed :: bool

record producerStage =
  ps_fence :: nat
  ps_members :: "nat list"
  ps_ordinary :: bool
  ps_group :: "nat option"
  ps_materialized :: bool
  ps_ordinaryCredit :: bool

type_synonym snapshot = "(string, string, string, string) ResourceMetrics"

record metricCollection =
  mc_id :: collectionID
  mc_members :: "nat list"
  mc_parts :: "(snapshot \<times> bool) list"
  mc_required :: bool
  mc_inFlight :: bool
  mc_failedAttempts :: nat
  mc_permanentRejections :: nat

record CollectionStats =
  PermanentMetricsDropped :: nat
  PermanentLogBatchesDropped :: nat
  ScheduledAttempts :: nat
  CollectFailures :: nat
  SnapshotsCollected :: nat
  BestEffortDiscardedFull :: nat
  BestEffortEvicted :: nat
  RequiredSnapshotsAcknowledged :: nat
  TerminalSkippedFull :: nat
  TerminalAttempts :: nat

text \<open>Where the goroutines are between two critical sections.\<close>

datatype slot_pc = SlotIdle | SlotStaged collectionID | SlotReady collectionID
datatype export_pc = ExportIdle | ExportRunning | ExportRefused

datatype event =
  Applied nat "metricOperation list" "log_record list"
| Emitted nat metricOperation
| Collected collectionID "snapshot option"
| Covers collectionID "nat list" "snapshot list"
| PartExported collectionID nat bool
| CollectionDropped collectionID
| LogsExported nat "log_record list" bool
| LogsDropped nat "log_record list"

record Provider =
  pv_metricsExcluded :: bool
  pv_logsExcluded :: bool
  pv_logBatchSize :: nat
  pv_batchSize :: int
  pv_maxPermanentRejections :: nat
  pv_heap :: "nat \<Rightarrow> IngressReceipt option"
  pv_receipts :: "nat list"
  pv_groupHeap :: "nat \<Rightarrow> ingressGroup option"
  pv_nextGroup :: nat
  pv_groups :: "nat list"
  pv_openGroup :: "nat option"
  pv_collections :: "metricCollection list"
  pv_stage :: "producerStage option"
  pv_workSequence :: nat
  pv_slot :: nat
  pv_stats :: CollectionStats
  pv_terminal :: bool
  pv_terminalAttempted :: bool
  pv_failed :: bool
  pv_collectFailing :: bool
  pv_logFailures :: nat
  pv_slotPc :: slot_pc
  pv_exportPc :: export_pc
  pv_logging :: "(nat \<times> nat \<times> nat) option"
  pv_events :: "event list"

datatype ingress_err = ErrIngressBackpressure | ErrIngressTerminal | ErrIngressPoison | ErrCanceled

section \<open>Receipts\<close>

definition eligibleLocked :: "IngressReceipt \<Rightarrow> bool" where
  "eligibleLocked r \<longleftrightarrow> ir_phase r \<noteq> Reserved \<and> ir_phase r \<noteq> Building \<and> ir_phase r \<noteq> Poisoned \<and>
     (ir_metricsExcluded r \<or> ir_metricAck r) \<and> (ir_logsExcluded r \<or> ir_logAck r)"

definition Eligible :: "nat \<Rightarrow> Provider \<Rightarrow> bool" where
  "Eligible i p = (case pv_heap p i of None \<Rightarrow> False | Some r \<Rightarrow> eligibleLocked r)"

definition upd_receipt :: "nat \<Rightarrow> (IngressReceipt \<Rightarrow> IngressReceipt) \<Rightarrow> Provider \<Rightarrow> Provider" where
  "upd_receipt i f p = p\<lparr>pv_heap := (pv_heap p)(i := map_option f (pv_heap p i))\<rparr>"

definition upd_group :: "nat \<Rightarrow> (ingressGroup \<Rightarrow> ingressGroup) \<Rightarrow> Provider \<Rightarrow> Provider" where
  "upd_group g f p = p\<lparr>pv_groupHeap := (pv_groupHeap p)(g := map_option f (pv_groupHeap p g))\<rparr>"

definition note_event :: "event \<Rightarrow> Provider \<Rightarrow> Provider" where
  "note_event ev p = p\<lparr>pv_events := pv_events p @ [ev]\<rparr>"

definition poison :: "nat \<Rightarrow> Provider \<Rightarrow> Provider" where
  "poison i = upd_receipt i (\<lambda>r. r\<lparr>ir_phase := Poisoned\<rparr>)"

definition settle :: "IngressReceipt \<Rightarrow> IngressReceipt" where
  "settle r = (if eligibleLocked r then r\<lparr>ir_phase := Delivered\<rparr> else r)"

definition validWorkBounds :: "WorkBounds \<Rightarrow> bool" where
  "validWorkBounds b \<longleftrightarrow> 0 \<le> wb_InputBytes b \<and> 0 \<le> lb_Records (wb_Logs b) \<and> 0 \<le> lb_Bytes (wb_Logs b) \<and>
     0 \<le> wb_MetricOps b \<and> 0 \<le> wb_MetricBytes b"

definition IngressFailure :: "Provider \<Rightarrow> ingress_err option" where
  "IngressFailure p = (if pv_failed p \<or> pv_terminal p then Some ErrIngressTerminal else None)"

section \<open>Retention credits\<close>

definition creditsLocked :: "Provider \<Rightarrow> nat" where
  "creditsLocked p = length (pv_collections p) + length (pv_groups p) +
     (case pv_stage p of None \<Rightarrow> 0 | Some s \<Rightarrow> if ps_ordinaryCredit s then 1 else 0)"

fun evict_first :: "metricCollection list \<Rightarrow> metricCollection list option" where
  "evict_first [] = None"
| "evict_first (c # cs) = (if \<not> mc_required c \<and> \<not> mc_inFlight c then Some cs else map_option ((#) c) (evict_first cs))"

definition upd_stats :: "(CollectionStats \<Rightarrow> CollectionStats) \<Rightarrow> Provider \<Rightarrow> Provider" where
  "upd_stats f p = p\<lparr>pv_stats := f (pv_stats p)\<rparr>"

definition makeCreditLocked :: "Provider \<Rightarrow> bool \<times> Provider" where
  "makeCreditLocked p =
     (if creditsLocked p < 2 then (True, p)
      else case evict_first (pv_collections p) of
        None \<Rightarrow> (False, p)
      | Some cs \<Rightarrow> (True, upd_stats (\<lambda>s. s\<lparr>BestEffortEvicted := BestEffortEvicted s + 1\<rparr>) (p\<lparr>pv_collections := cs\<rparr>)))"

definition removeGroupLocked :: "nat \<Rightarrow> Provider \<Rightarrow> Provider" where
  "removeGroupLocked g p =
     p\<lparr>pv_groups := remove1 g (pv_groups p), pv_openGroup := (if pv_openGroup p = Some g then None else pv_openGroup p)\<rparr>"

section \<open>Admission and application\<close>

definition group_open :: "nat option \<Rightarrow> Provider \<Rightarrow> bool" where
  "group_open g p = (case g of None \<Rightarrow> False | Some k \<Rightarrow> (case pv_groupHeap p k of None \<Rightarrow> False | Some gr \<Rightarrow> \<not> ig_closed gr))"

definition new_receipt :: "WorkBounds \<Rightarrow> nat option \<Rightarrow> Provider \<Rightarrow> IngressReceipt" where
  "new_receipt b grp p = \<lparr>ir_phase = Reserved, ir_bounds = b,
     ir_program = Some \<lparr>mp_operations = [], mp_bytes = 0, mp_cursor = 0, mp_sealed = False,
       mp_maxOps = wb_MetricOps b, mp_maxBytes = wb_MetricBytes b\<rparr>,
     ir_group = grp, ir_records = [], ir_recordBytes = 0, ir_logOffset = 0, ir_logPermanentRejections = 0,
     ir_metricsExcluded = pv_metricsExcluded p, ir_logsExcluded = pv_logsExcluded p, ir_metricAck = False,
     ir_logAck = False, ir_firstCoverID = None\<rparr>"

definition reserve_group :: "Provider \<Rightarrow> (nat option \<times> Provider) option" where
  "reserve_group p =
     (if pv_metricsExcluded p then Some (None, p)
      else if group_open (pv_openGroup p) p then Some (pv_openGroup p, p)
      else case makeCreditLocked p of (ok, p) \<Rightarrow>
        if \<not> ok then None
        else let g = pv_nextGroup p
             in Some (Some g, p\<lparr>pv_groupHeap := (pv_groupHeap p)(g \<mapsto> \<lparr>ig_members = [], ig_closed = False\<rparr>),
                  pv_nextGroup := Suc g, pv_groups := pv_groups p @ [g], pv_openGroup := Some g\<rparr>))"

definition ReserveIngress :: "WorkBounds \<Rightarrow> Provider \<Rightarrow> (ingress_err + nat) \<times> Provider" where
  "ReserveIngress b p =
     (if \<not> validWorkBounds b then (Inl ErrIngressPoison, p)
      else if pv_terminal p \<or> pv_failed p then (Inl ErrIngressTerminal, p)
      else if 64 \<le> length (pv_receipts p) then (Inl ErrIngressBackpressure, p)
      else case reserve_group p of
        None \<Rightarrow> (Inl ErrIngressBackpressure, p)
      | Some (grp, p) \<Rightarrow>
          let i = Suc (pv_workSequence p);
              p = p\<lparr>pv_workSequence := i, pv_heap := (pv_heap p)(i \<mapsto> new_receipt b grp p)\<rparr>;
              p = (case grp of None \<Rightarrow> p | Some g \<Rightarrow> upd_group g (\<lambda>gr. gr\<lparr>ig_members := ig_members gr @ [i]\<rparr>) p)
          in (Inr i, p\<lparr>pv_receipts := pv_receipts p @ [i]\<rparr>))"

definition ReleaseUnstarted :: "nat \<Rightarrow> Provider \<Rightarrow> ingress_err option \<times> Provider" where
  "ReleaseUnstarted i p =
     (case pv_heap p i of
        None \<Rightarrow> (Some ErrIngressTerminal, p)
      | Some r \<Rightarrow>
          if i \<notin> set (pv_receipts p) then (Some ErrIngressTerminal, p)
          else if ir_phase r \<noteq> Reserved then (Some ErrIngressPoison, p)
          else let p = p\<lparr>pv_receipts := remove1 i (pv_receipts p)\<rparr>
               in case ir_group r of
                    None \<Rightarrow> (None, p)
                  | Some g \<Rightarrow>
                      let p = upd_group g (\<lambda>gr. gr\<lparr>ig_members := remove1 i (ig_members gr)\<rparr>) p
                      in (None, if map_option ig_members (pv_groupHeap p g) = Some [] then removeGroupLocked g p else p))"

text \<open>\<open>ApplyIngress\<close> up to the call of the work, then after it.\<close>

definition apply_begin :: "nat \<Rightarrow> WorkBounds \<Rightarrow> bool \<Rightarrow> bool \<Rightarrow> Provider \<Rightarrow> ingress_err option \<times> Provider" where
  "apply_begin i bounds hasApply ctxDone p =
     (case pv_heap p i of
        None \<Rightarrow> (Some ErrIngressTerminal, p)
      | Some r \<Rightarrow>
          if pv_terminal p \<or> i \<notin> set (pv_receipts p) then (Some ErrIngressTerminal, p)
          else if ir_phase r \<noteq> Reserved \<or> \<not> hasApply \<or> bounds \<noteq> ir_bounds r then (Some ErrIngressPoison, p)
          else if ctxDone then (Some ErrCanceled, p)
          else if ir_group r \<noteq> None \<and> \<not> group_open (ir_group r) p then (Some ErrIngressBackpressure, p)
          else (None, upd_receipt i (\<lambda>r. r\<lparr>ir_phase := Building\<rparr>) p))"

definition seal_receipt :: "IngressReceipt \<Rightarrow> IngressReceipt" where
  "seal_receipt r = r\<lparr>ir_program := map_option (\<lambda>q. q\<lparr>mp_sealed := True\<rparr>) (ir_program r)\<rparr>"

definition ready_receipt :: "IngressReceipt \<Rightarrow> IngressReceipt" where
  "ready_receipt r = settle (r\<lparr>ir_phase := Ready, ir_logAck := (ir_logsExcluded r \<or> ir_records r = [])\<rparr>)"

definition apply_finish :: "nat \<Rightarrow> bool \<Rightarrow> Provider \<Rightarrow> bool \<times> Provider" where
  \<comment> \<open>whether the work failed or panicked; the result tells whether \<open>ApplyIngress\<close> returns an error\<close>
  "apply_finish i failed p =
     (if failed then (True, (poison i p)\<lparr>pv_failed := True\<rparr>)
      else let p = upd_receipt i seal_receipt p
           in case pv_heap p i of
                None \<Rightarrow> (True, p)
              | Some r \<Rightarrow>
                  if ir_phase r = Poisoned then (True, p\<lparr>pv_failed := True\<rparr>)
                  else (False, note_event (Applied i (case ir_program r of None \<Rightarrow> [] | Some q \<Rightarrow> mp_operations q) (ir_records r))
                         (upd_receipt i ready_receipt p)))"

text \<open>What the work may do to its receipt: record a metric operation, emit a log record.\<close>

definition record_metric :: "nat \<Rightarrow> metricOperation \<Rightarrow> Provider \<Rightarrow> Provider" where
  "record_metric i op p =
     (case pv_heap p i of
        None \<Rightarrow> p
      | Some r \<Rightarrow>
          (case ir_program r of
             None \<Rightarrow> poison i p
           | Some q \<Rightarrow> (case program_add op q of (q', bad) \<Rightarrow>
               if bad then poison i p else upd_receipt i (\<lambda>r. r\<lparr>ir_program := Some q'\<rparr>) p)))"

definition recordCharge :: "log_record \<Rightarrow> int" where
  "recordCharge rec = int (length (lr_EventName rec) + length (lr_Body rec)) + 1024 +
     sum_list (map (\<lambda>(k, v). int (length k + length v) + 96) (lr_attrs rec))"

definition OnEmit :: "nat \<Rightarrow> log_record \<Rightarrow> Provider \<Rightarrow> Provider" where
  "OnEmit i rec p =
     (case pv_heap p i of
        None \<Rightarrow> p
      | Some r \<Rightarrow>
          if ir_phase r \<noteq> Building then poison i p
          else if ir_logsExcluded r then p
          else if lb_Records (wb_Logs (ir_bounds r)) \<le> int (length (ir_records r)) \<or>
                  lb_Bytes (wb_Logs (ir_bounds r)) - ir_recordBytes r < recordCharge rec then poison i p
          else upd_receipt i (\<lambda>r. r\<lparr>ir_records := ir_records r @ [rec], ir_recordBytes := ir_recordBytes r + recordCharge rec\<rparr>) p)"

definition ReleaseIngress :: "nat \<Rightarrow> Provider \<Rightarrow> ingress_err option \<times> Provider" where
  "ReleaseIngress i p =
     (if \<not> Eligible i p then (Some ErrIngressPoison, p)
      else if i \<notin> set (pv_receipts p) then (Some ErrIngressPoison, p)
      else (None, p\<lparr>pv_receipts := remove1 i (pv_receipts p)\<rparr>))"

definition close_open_group :: "Provider \<Rightarrow> Provider" where
  "close_open_group p =
     (case pv_openGroup p of None \<Rightarrow> p | Some g \<Rightarrow> (upd_group g (\<lambda>gr. gr\<lparr>ig_closed := True\<rparr>) p)\<lparr>pv_openGroup := None\<rparr>)"

definition SealIngress :: "Provider \<Rightarrow> Provider" where
  "SealIngress p = close_open_group p"

section \<open>Collections\<close>

definition groupReady :: "Provider \<Rightarrow> nat \<Rightarrow> bool" where
  "groupReady p g =
     (case pv_groupHeap p g of
        None \<Rightarrow> False
      | Some gr \<Rightarrow>
          if \<not> ig_closed gr \<or> ig_members gr = [] then False
          else list_all (\<lambda>m. map_option ir_phase (pv_heap p m) = Some Ready) (ig_members gr))"

definition stage_group :: "nat \<Rightarrow> Provider \<Rightarrow> producerStage \<Rightarrow> producerStage" where
  "stage_group g p s =
     (case pv_groupHeap p g of
        None \<Rightarrow> s
      | Some gr \<Rightarrow> s\<lparr>ps_group := Some g, ps_members := ig_members gr, ps_fence := last (ig_members gr)\<rparr>)"

definition collect_begin :: "collectionID \<Rightarrow> bool \<Rightarrow> Provider \<Rightarrow> Provider" where
  "collect_begin cid hasBefore p =
     (let p = upd_stats (\<lambda>s. if ci_reason cid = 0 then s\<lparr>ScheduledAttempts := ScheduledAttempts s + 1\<rparr>
                            else s\<lparr>TerminalAttempts := TerminalAttempts s + 1\<rparr>) p;
          p = (case pv_stage p of
                 Some _ \<Rightarrow> p
               | None \<Rightarrow>
                   let p = close_open_group p;
                       s = \<lparr>ps_fence = 0, ps_members = [], ps_ordinary = hasBefore, ps_group = None,
                            ps_materialized = False, ps_ordinaryCredit = False\<rparr>;
                       s = (case find (groupReady p) (pv_groups p) of None \<Rightarrow> s | Some g \<Rightarrow> stage_group g p s)
                   in if ps_ordinary s \<or> ps_group s \<noteq> None then p\<lparr>pv_stage := Some s\<rparr> else p)
      in p\<lparr>pv_slotPc := SlotStaged cid\<rparr>)"

fun emit_members :: "(nat \<Rightarrow> nat option) \<Rightarrow> nat list \<Rightarrow> Provider \<Rightarrow> bool \<times> Provider" where
  "emit_members panics [] p = (False, p)"
| "emit_members panics (m # ms) p =
     (case pv_heap p m of
        None \<Rightarrow> emit_members panics ms p
      | Some r \<Rightarrow>
          (case ir_program r of
             None \<Rightarrow> emit_members panics ms p
           | Some q \<Rightarrow> (case EmitOnce (panics m) q of (q', es, err) \<Rightarrow>
               let p = (upd_receipt m (\<lambda>r. r\<lparr>ir_program := Some q'\<rparr>) p)\<lparr>pv_events := pv_events p @ map (Emitted m) es\<rparr>
               in if err then (True, poison m p) else emit_members panics ms p)))"

definition poison_all :: "nat list \<Rightarrow> Provider \<Rightarrow> Provider" where
  "poison_all ms p = fold poison ms p"

definition collect_materialize :: "bool \<Rightarrow> (nat \<Rightarrow> nat option) \<Rightarrow> collectionID \<Rightarrow> Provider \<Rightarrow> Provider" where
  "collect_materialize ordinaryFails panics cid p =
     (let p = (case pv_stage p of
                 None \<Rightarrow> p
               | Some s \<Rightarrow>
                   if ps_materialized s then p
                   else case (if ps_ordinary s \<and> ordinaryFails then (True, p) else emit_members panics (ps_members s) p) of (err, p) \<Rightarrow>
                     if err then (poison_all (ps_members s) p)\<lparr>pv_failed := True, pv_stage := None\<rparr>
                     else p\<lparr>pv_stage := Some (s\<lparr>ps_materialized := True\<rparr>)\<rparr>)
      in p\<lparr>pv_slotPc := SlotReady cid\<rparr>)"

definition collectFailure :: "Provider \<Rightarrow> Provider" where
  "collectFailure p =
     (let p = (upd_stats (\<lambda>s. s\<lparr>CollectFailures := CollectFailures s + 1\<rparr>) p)\<lparr>pv_collectFailing := True\<rparr>
      in case pv_stage p of
           None \<Rightarrow> p
         | Some s \<Rightarrow>
             if ps_group s = None \<and> \<not> ps_ordinaryCredit s
             then case makeCreditLocked p of (ok, p) \<Rightarrow>
                    if ok then p\<lparr>pv_stage := Some (s\<lparr>ps_ordinaryCredit := True\<rparr>)\<rparr>
                    else upd_stats (\<lambda>s. s\<lparr>BestEffortDiscardedFull := BestEffortDiscardedFull s + 1\<rparr>) (p\<lparr>pv_stage := None\<rparr>)
             else p)"

definition cover :: "collectionID \<Rightarrow> nat \<Rightarrow> Provider \<Rightarrow> Provider" where
  "cover cid m = upd_receipt m (\<lambda>r. if ir_phase r = Poisoned then r
     else r\<lparr>ir_firstCoverID := Some cid, ir_phase := Covered, ir_program := None\<rparr>)"

definition retain_collection :: "collectionID \<Rightarrow> producerStage option \<Rightarrow> snapshot list \<Rightarrow> Provider \<Rightarrow> Provider" where
  "retain_collection cid stage parts p =
     (let grp = (case stage of None \<Rightarrow> None | Some s \<Rightarrow> ps_group s);
          members = (case stage of Some s \<Rightarrow> (if ps_group s = None then [] else ps_members s) | None \<Rightarrow> []);
          c = \<lparr>mc_id = cid, mc_members = members, mc_parts = map (\<lambda>d. (d, False)) parts, mc_required = (grp \<noteq> None),
               mc_inFlight = False, mc_failedAttempts = 0, mc_permanentRejections = 0\<rparr>;
          p = fold (cover cid) members p;
          p = (case grp of None \<Rightarrow> p | Some g \<Rightarrow> removeGroupLocked g p)
      in note_event (Covers cid members parts) (p\<lparr>pv_collections := pv_collections p @ [c], pv_stage := None\<rparr>))"

definition collect_success :: "snapshot \<Rightarrow> collectionID \<Rightarrow> Provider \<Rightarrow> Provider" where
  "collect_success data cid p =
     (let stage = pv_stage p;
          required = (case stage of None \<Rightarrow> False | Some s \<Rightarrow> ps_group s \<noteq> None);
          p = (upd_stats (\<lambda>s. s\<lparr>SnapshotsCollected := SnapshotsCollected s + 1\<rparr>) p)\<lparr>pv_collectFailing := False\<rparr>;
          credit = (required \<or> (case stage of None \<Rightarrow> False | Some s \<Rightarrow> ps_ordinaryCredit s));
          (retain, p) = (if credit then (True, p) else makeCreditLocked p)
      in if retain
         then case freezeMetricParts data (pv_batchSize p) of
                Some (Some parts) \<Rightarrow> retain_collection cid stage parts p
              | _ \<Rightarrow> collectFailure (poison_all (case stage of None \<Rightarrow> [] | Some s \<Rightarrow> ps_members s) (p\<lparr>pv_failed := True\<rparr>))
         else upd_stats (\<lambda>s. s\<lparr>BestEffortDiscardedFull := BestEffortDiscardedFull s + 1\<rparr>) (p\<lparr>pv_stage := None\<rparr>))"

definition collect_finish :: "snapshot option \<Rightarrow> collectionID \<Rightarrow> Provider \<Rightarrow> Provider" where
  "collect_finish data cid p =
     (let p = note_event (Collected cid data) p;
          p = (case data of None \<Rightarrow> collectFailure p | Some d \<Rightarrow> collect_success d cid p)
      in p\<lparr>pv_slotPc := SlotIdle\<rparr>)"

section \<open>Exporting collections\<close>

definition upd_head :: "(metricCollection \<Rightarrow> metricCollection) \<Rightarrow> Provider \<Rightarrow> Provider" where
  "upd_head f p = p\<lparr>pv_collections := (case pv_collections p of [] \<Rightarrow> [] | c # cs \<Rightarrow> f c # cs)\<rparr>"

definition export_begin :: "Provider \<Rightarrow> Provider" where
  "export_begin p = (upd_head (\<lambda>c. c\<lparr>mc_inFlight := True\<rparr>) p)\<lparr>pv_exportPc := ExportRunning\<rparr>"

text \<open>The first part that is not acknowledged yet.\<close>

fun next_part :: "(snapshot \<times> bool) list \<Rightarrow> nat option" where
  "next_part [] = None"
| "next_part ((d, ack) # ps) = (if ack then map_option Suc (next_part ps) else Some 0)"

definition part_result :: "export_error option \<Rightarrow> nat \<Rightarrow> metricCollection \<Rightarrow> metricCollection" where
  "part_result raw i c =
     (if er_ack (classifyExportResult raw ''metrics'')
      then c\<lparr>mc_permanentRejections := 0, mc_parts := (mc_parts c)[i := (fst (mc_parts c ! i), True)]\<rparr>
      else c\<lparr>mc_permanentRejections := (if permanentExportRejection raw then mc_permanentRejections c + 1 else 0)\<rparr>)"

definition export_part :: "export_error option \<Rightarrow> Provider \<Rightarrow> Provider" where
  "export_part raw p =
     (case pv_collections p of
        [] \<Rightarrow> p
      | c # _ \<Rightarrow>
          (case next_part (mc_parts c) of
             None \<Rightarrow> p
           | Some i \<Rightarrow>
               let ack = er_ack (classifyExportResult raw ''metrics'')
               in (note_event (PartExported (mc_id c) i ack) (upd_head (part_result raw i) p))
                    \<lparr>pv_exportPc := (if ack then ExportRunning else ExportRefused)\<rparr>))"

definition ack_metrics :: "nat \<Rightarrow> Provider \<Rightarrow> Provider" where
  "ack_metrics m = upd_receipt m (\<lambda>r. if ir_phase r = Poisoned then r else settle (r\<lparr>ir_metricAck := True\<rparr>))"

definition export_end :: "Provider \<Rightarrow> Provider" where
  "export_end p =
     (case pv_collections p of
        [] \<Rightarrow> p
      | c # cs \<Rightarrow>
          let ack = (pv_exportPc p \<noteq> ExportRefused);
              dropped = (\<not> ack \<and> pv_maxPermanentRejections p \<le> mc_permanentRejections c);
              p = p\<lparr>pv_exportPc := ExportIdle\<rparr>
          in if ack \<or> dropped
             then let p = (if dropped then note_event (CollectionDropped (mc_id c))
                             (upd_stats (\<lambda>s. s\<lparr>PermanentMetricsDropped := PermanentMetricsDropped s + 1\<rparr>) p) else p);
                      p = fold ack_metrics (mc_members c) p;
                      p = p\<lparr>pv_collections := cs\<rparr>
                  in if mc_required c \<and> \<not> dropped
                     then upd_stats (\<lambda>s. s\<lparr>RequiredSnapshotsAcknowledged := RequiredSnapshotsAcknowledged s + 1\<rparr>) p else p
             else p\<lparr>pv_collections := c\<lparr>mc_inFlight := False, mc_failedAttempts := mc_failedAttempts c + 1\<rparr> # cs\<rparr>)"

section \<open>Exporting logs\<close>

definition log_ready :: "Provider \<Rightarrow> nat \<Rightarrow> bool" where
  "log_ready p i =
     (case pv_heap p i of
        None \<Rightarrow> False
      | Some r \<Rightarrow> ir_phase r \<noteq> Reserved \<and> ir_phase r \<noteq> Building \<and> ir_phase r \<noteq> Poisoned \<and> \<not> ir_logAck r \<and> \<not> ir_logsExcluded r)"

definition logs_begin :: "Provider \<Rightarrow> Provider" where
  "logs_begin p =
     (case filter (log_ready p) (pv_receipts p) of
        [] \<Rightarrow> p
      | is \<Rightarrow>
          let i = Min (set is)
          in case pv_heap p i of
               None \<Rightarrow> p
             | Some r \<Rightarrow> p\<lparr>pv_logging := Some (i, ir_logOffset r, min (length (ir_records r)) (ir_logOffset r + pv_logBatchSize p))\<rparr>)"

definition log_chunk :: "IngressReceipt \<Rightarrow> nat \<Rightarrow> nat \<Rightarrow> log_record list" where
  "log_chunk r offset end' = take (end' - offset) (drop offset (ir_records r))"

definition logs_settled :: "nat \<Rightarrow> nat \<Rightarrow> IngressReceipt \<Rightarrow> IngressReceipt" where
  "logs_settled offset end' r0 =
     (let r = r0\<lparr>ir_recordBytes := ir_recordBytes r0 - sum_list (map recordCharge (log_chunk r0 offset end')),
                 ir_records := take offset (ir_records r0) @ replicate (end' - offset) zero_record @ drop end' (ir_records r0),
                 ir_logPermanentRejections := 0, ir_logOffset := end'\<rparr>
      in if end' = length (ir_records r) then settle (r\<lparr>ir_records := [], ir_logAck := True\<rparr>) else r)"

definition logs_end :: "export_error option \<Rightarrow> Provider \<Rightarrow> Provider" where
  "logs_end exportErr p =
     (case pv_logging p of
        None \<Rightarrow> p
      | Some (i, offset, end') \<Rightarrow>
          (case pv_heap p i of
             None \<Rightarrow> p
           | Some r \<Rightarrow>
               let ack = er_ack (classifyExportResult exportErr ''logs'');
                   chunk = log_chunk r offset end';
                   rejections = (if \<not> ack \<and> permanentExportRejection exportErr then ir_logPermanentRejections r + 1 else 0);
                   dropped = (\<not> ack \<and> pv_maxPermanentRejections p \<le> rejections);
                   p = note_event (LogsExported i chunk ack) (p\<lparr>pv_logging := None\<rparr>)
               in if ack \<or> dropped
                  then let p = (if dropped then note_event (LogsDropped i chunk)
                                  (upd_stats (\<lambda>s. s\<lparr>PermanentLogBatchesDropped := PermanentLogBatchesDropped s + 1\<rparr>) p) else p)
                       in (upd_receipt i (logs_settled offset end') p)\<lparr>pv_logFailures := 0\<rparr>
                  else (upd_receipt i (\<lambda>r. r\<lparr>ir_logPermanentRejections := rejections\<rparr>) p)\<lparr>pv_logFailures := pv_logFailures p + 1\<rparr>))"

section \<open>The end of a provider's life\<close>

definition lifecycle_seal :: "Provider \<Rightarrow> Provider" where
  "lifecycle_seal p = p\<lparr>pv_terminal := True\<rparr>"

definition lifecycle_admit :: "Provider \<Rightarrow> bool \<times> Provider" where
  "lifecycle_admit p =
     (if pv_terminalAttempted p then (False, p)
      else let p = close_open_group (p\<lparr>pv_terminalAttempted := True\<rparr>);
               ready = list_ex (groupReady p) (pv_groups p)
           in if (case pv_stage p of None \<Rightarrow> False | Some s \<Rightarrow> ps_group s \<noteq> None \<or> ps_ordinaryCredit s) \<or> ready then (True, p)
              else case makeCreditLocked p of (ok, p) \<Rightarrow>
                (ok, if ok then p else upd_stats (\<lambda>s. s\<lparr>TerminalSkippedFull := TerminalSkippedFull s + 1\<rparr>) p))"

definition IngressDeliveryRetrying :: "bool \<Rightarrow> Provider \<Rightarrow> bool" where
  \<comment> \<open>the argument tells whether an export in flight is older than the reader's timeout\<close>
  "IngressDeliveryRetrying late p \<longleftrightarrow>
     pv_collectFailing p \<or> 0 < pv_logFailures p \<or> late \<or> list_ex (\<lambda>c. 0 < mc_failedAttempts c) (pv_collections p)"

definition deliveryRetryDelay :: "nat \<Rightarrow> duration" where
  "deliveryRetryDelay failures =
     ((\<lambda>delay. if delay < 5000000000 then min (delay * 2) 5000000000 else delay) ^^ (failures - 1)) 100000000"

section \<open>Interleaved steps\<close>

definition newProvider :: "bool \<Rightarrow> bool \<Rightarrow> nat \<Rightarrow> int \<Rightarrow> nat \<Rightarrow> Provider" where
  "newProvider metricsExcluded logsExcluded logBatch metricBatch maxRejections =
     \<lparr>pv_metricsExcluded = metricsExcluded, pv_logsExcluded = logsExcluded, pv_logBatchSize = logBatch, pv_batchSize = metricBatch,
      pv_maxPermanentRejections = (if maxRejections = 0 then 5 else maxRejections), pv_heap = (\<lambda>_. None), pv_receipts = [],
      pv_groupHeap = (\<lambda>_. None), pv_nextGroup = 0, pv_groups = [], pv_openGroup = None, pv_collections = [], pv_stage = None,
      pv_workSequence = 0, pv_slot = 0,
      pv_stats = \<lparr>PermanentMetricsDropped = 0, PermanentLogBatchesDropped = 0, ScheduledAttempts = 0, CollectFailures = 0,
        SnapshotsCollected = 0, BestEffortDiscardedFull = 0, BestEffortEvicted = 0, RequiredSnapshotsAcknowledged = 0,
        TerminalSkippedFull = 0, TerminalAttempts = 0\<rparr>,
      pv_terminal = False, pv_terminalAttempted = False, pv_failed = False, pv_collectFailing = False, pv_logFailures = 0,
      pv_slotPc = SlotIdle, pv_exportPc = ExportIdle, pv_logging = None, pv_events = []\<rparr>"

text \<open>The provider's own goroutines: the collection clock, the terminal collection, the metric and the log exporter.\<close>

inductive background :: "Provider \<Rightarrow> Provider \<Rightarrow> bool" where
  slot: "pv_slotPc p = SlotIdle \<Longrightarrow> \<not> pv_terminalAttempted p \<Longrightarrow>
    background p (collect_begin \<lparr>ci_slot = Suc (pv_slot p), ci_reason = 0\<rparr> hasBefore (p\<lparr>pv_slot := Suc (pv_slot p)\<rparr>))"
| terminal_slot: "pv_slotPc p = SlotIdle \<Longrightarrow> lifecycle_admit p = (True, p') \<Longrightarrow> reason \<in> {1, 2} \<Longrightarrow>
    background p (collect_begin \<lparr>ci_slot = 1, ci_reason = reason\<rparr> hasBefore p')"
| terminal_skip: "lifecycle_admit p = (False, p') \<Longrightarrow> background p p'"
| materialize: "pv_slotPc p = SlotStaged cid \<Longrightarrow> background p (collect_materialize ordinaryFails panics cid p)"
| collect: "pv_slotPc p = SlotReady cid \<Longrightarrow> background p (collect_finish data cid p)"
| export_starts: "pv_exportPc p = ExportIdle \<Longrightarrow> pv_collections p \<noteq> [] \<Longrightarrow> background p (export_begin p)"
| export_one: "pv_exportPc p = ExportRunning \<Longrightarrow> next_part (mc_parts (hd (pv_collections p))) \<noteq> None \<Longrightarrow> background p (export_part raw p)"
| export_ends: "pv_exportPc p = ExportRefused \<or>
      pv_exportPc p = ExportRunning \<and> next_part (mc_parts (hd (pv_collections p))) = None \<Longrightarrow> background p (export_end p)"
| logs_starts: "pv_logging p = None \<Longrightarrow> background p (logs_begin p)"
| logs_ends: "pv_logging p \<noteq> None \<Longrightarrow> background p (logs_end err p)"
| shutdown: "background p (lifecycle_seal p)"

text \<open>Together with what the callers of the provider do: admission, application, release.\<close>

inductive pstep :: "Provider \<Rightarrow> Provider \<Rightarrow> bool" where
  reserve: "pstep p (snd (ReserveIngress b p))"
| release_unstarted: "pstep p (snd (ReleaseUnstarted i p))"
| apply_starts: "pstep p (snd (apply_begin i b hasApply ctxDone p))"
| work_metric: "map_option ir_metricsExcluded (pv_heap p i) = Some False \<Longrightarrow> pstep p (record_metric i op p)"
| work_log: "pstep p (OnEmit i rec p)"
| apply_ends: "map_option ir_phase (pv_heap p i) \<in> {Some Building, Some Poisoned} \<Longrightarrow> pstep p (snd (apply_finish i failed p))"
| seal: "pstep p (SealIngress p)"
| release: "pstep p (snd (ReleaseIngress i p))"
| goroutine: "background p p' \<Longrightarrow> pstep p p'"

inductive reachable :: "Provider \<Rightarrow> bool" where
  start: "reachable (newProvider me le lb mb mr)"
| step: "reachable p \<Longrightarrow> pstep p p' \<Longrightarrow> reachable p'"

end
