(* ===== verification/Ingress_Delivery_Inv.thy ===== *)
theory Ingress_Delivery_Inv
  imports Ingress_Delivery
begin

text \<open>
  What the interleaved steps of \<open>Ingress_Delivery\<close> keep. The state of every receipt is related to the events
  recorded so far: what its work produced, which of its operations were handed to the instruments, which
  snapshot covered them, which parts of that snapshot and which of its log records the exporters
  acknowledged or the provider dropped after repeated permanent rejections.
\<close>

section \<open>What the events say of a receipt\<close>

fun applied_by :: "nat \<Rightarrow> event \<Rightarrow> (metricOperation list \<times> log_record list) option" where
  "applied_by i (Applied j ops recs) = (if j = i then Some (ops, recs) else None)"
| "applied_by i _ = None"

fun emitted_by :: "nat \<Rightarrow> event \<Rightarrow> metricOperation option" where
  "emitted_by i (Emitted j op) = (if j = i then Some op else None)"
| "emitted_by i _ = None"

fun logs_by :: "nat \<Rightarrow> event \<Rightarrow> log_record list" where
  "logs_by i (LogsExported j chunk ack) = (if j = i \<and> ack then chunk else [])"
| "logs_by i (LogsDropped j chunk) = (if j = i then chunk else [])"
| "logs_by i _ = []"

definition applied_of :: "nat \<Rightarrow> event list \<Rightarrow> (metricOperation list \<times> log_record list) list" where
  "applied_of i evs = List.map_filter (applied_by i) evs"

definition emitted_of :: "nat \<Rightarrow> event list \<Rightarrow> metricOperation list" where
  "emitted_of i evs = List.map_filter (emitted_by i) evs"

definition logs_of :: "nat \<Rightarrow> event list \<Rightarrow> log_record list" where
  "logs_of i evs = concat (map (logs_by i) evs)"

lemma map_filter_append: "List.map_filter f (xs @ ys) = List.map_filter f xs @ List.map_filter f ys"
  by (induction xs) (auto simp: List.map_filter_simps split: option.split)

lemma of_append [simp]:
  "applied_of i (a @ b) = applied_of i a @ applied_of i b"
  "emitted_of i (a @ b) = emitted_of i a @ emitted_of i b"
  "logs_of i (a @ b) = logs_of i a @ logs_of i b"
  by (simp_all add: applied_of_def emitted_of_def logs_of_def map_filter_append)

lemma of_simps [simp]:
  "applied_of i [] = []" "emitted_of i [] = []" "logs_of i [] = []"
  "applied_of i (e # es) = (case applied_by i e of None \<Rightarrow> [] | Some x \<Rightarrow> [x]) @ applied_of i es"
  "emitted_of i (e # es) = (case emitted_by i e of None \<Rightarrow> [] | Some x \<Rightarrow> [x]) @ emitted_of i es"
  "logs_of i (e # es) = logs_by i e @ logs_of i es"
  by (simp_all add: applied_of_def emitted_of_def logs_of_def List.map_filter_simps split: option.split)

text \<open>An event says nothing of receipt \<open>i\<close>.\<close>

fun silent :: "nat \<Rightarrow> event \<Rightarrow> bool" where
  "silent i (Applied j ops recs) = (j \<noteq> i)"
| "silent i (Emitted j op) = (j \<noteq> i)"
| "silent i (LogsExported j chunk ack) = (j \<noteq> i \<or> \<not> ack)"
| "silent i (LogsDropped j chunk) = (j \<noteq> i)"
| "silent i _ = True"

lemma silent_of: "list_all (silent i) es \<Longrightarrow> applied_of i es = [] \<and> emitted_of i es = [] \<and> logs_of i es = []"
proof (induction es)
  case (Cons e es)
  then show ?case by (cases e) auto
qed simp

text \<open>The snapshot \<open>cid\<close> was taken after all operations of \<open>i\<close> were emitted, and was retained to cover it.\<close>

definition covered :: "event list \<Rightarrow> nat \<Rightarrow> collectionID \<Rightarrow> metricOperation list \<Rightarrow> bool" where
  "covered evs i cid ops \<longleftrightarrow> emitted_of i evs = ops \<and>
     (\<exists>l1 l2 data ms parts batch. evs = l1 @ Collected cid (Some data) # l2 \<and> emitted_of i l1 = ops \<and>
        Covers cid ms parts \<in> set l2 \<and> i \<in> set ms \<and> freezeMetricParts data batch = Some (Some parts))"

definition resolved :: "event list \<Rightarrow> nat \<Rightarrow> collectionID \<Rightarrow> bool" where
  "resolved evs i cid \<longleftrightarrow>
     (\<exists>ms parts. Covers cid ms parts \<in> set evs \<and> i \<in> set ms \<and>
        (CollectionDropped cid \<in> set evs \<or> (\<forall>k < length parts. PartExported cid k True \<in> set evs)))"

lemma covered_append:
  assumes "covered evs i cid ops" "emitted_of i es = []"
  shows "covered (evs @ es) i cid ops"
proof -
  from assms(1) obtain l1 l2 data ms parts batch where c: "emitted_of i evs = ops" "evs = l1 @ Collected cid (Some data) # l2"
    "emitted_of i l1 = ops" "Covers cid ms parts \<in> set l2" "i \<in> set ms" "freezeMetricParts data batch = Some (Some parts)"
    unfolding covered_def by blast
  then have "evs @ es = l1 @ Collected cid (Some data) # (l2 @ es)" "Covers cid ms parts \<in> set (l2 @ es)" by simp_all
  with c assms(2) show ?thesis unfolding covered_def by (metis of_append(2) append_Nil2)
qed

lemma resolved_append: "resolved evs i cid \<Longrightarrow> resolved (evs @ es) i cid"
  unfolding resolved_def by auto

definition kinds_ok :: "metricProgram \<Rightarrow> bool" where
  "kinds_ok q \<longleftrightarrow> list_all (\<lambda>op. mo_kind op \<le> 4) (mp_operations q)"

definition metrics_ok :: "event list \<Rightarrow> nat \<Rightarrow> IngressReceipt \<Rightarrow> metricOperation list \<Rightarrow> bool" where
  "metrics_ok evs i r ops \<longleftrightarrow> ir_metricsExcluded r \<or>
     (ir_phase r = Ready \<and> \<not> ir_metricAck r \<and>
        (\<exists>q. ir_program r = Some q \<and> mp_sealed q \<and> kinds_ok q \<and> mp_operations q = ops \<and>
           mp_cursor q \<le> length ops \<and> emitted_of i evs = take (mp_cursor q) ops)) \<or>
     (ir_phase r \<in> {Covered, Delivered} \<and> ir_program r = None \<and>
        (\<exists>cid. ir_firstCoverID r = Some cid \<and> covered evs i cid ops \<and> (ir_metricAck r \<longrightarrow> resolved evs i cid)))"

definition logs_ok :: "event list \<Rightarrow> nat \<Rightarrow> IngressReceipt \<Rightarrow> log_record list \<Rightarrow> bool" where
  "logs_ok evs i r recs \<longleftrightarrow> ir_logsExcluded r \<or>
     (logs_of i evs = take (ir_logOffset r) recs \<and> ir_logOffset r \<le> length recs \<and>
      (if ir_logAck r then ir_logOffset r = length recs
       else length (ir_records r) = length recs \<and> drop (ir_logOffset r) (ir_records r) = drop (ir_logOffset r) recs))"

definition untouched :: "event list \<Rightarrow> nat \<Rightarrow> IngressReceipt \<Rightarrow> bool" where
  "untouched evs i r \<longleftrightarrow> applied_of i evs = [] \<and> emitted_of i evs = [] \<and> logs_of i evs = [] \<and> ir_logOffset r = 0 \<and>
     \<not> ir_logAck r \<and> \<not> ir_metricAck r \<and> (\<exists>q. ir_program r = Some q \<and> mp_cursor q = 0 \<and> \<not> mp_sealed q \<and> kinds_ok q)"

definition receipt_ok :: "event list \<Rightarrow> nat \<Rightarrow> IngressReceipt \<Rightarrow> bool" where
  "receipt_ok evs i r \<longleftrightarrow> ir_phase r = Poisoned \<or>
     (ir_phase r \<in> {Reserved, Building} \<and> untouched evs i r) \<or>
     (ir_phase r \<in> {Ready, Covered, Delivered} \<and>
        (\<exists>ops recs. applied_of i evs = [(ops, recs)] \<and> metrics_ok evs i r ops \<and> logs_ok evs i r recs))"

lemma receipt_ok_append:
  assumes "receipt_ok evs i r" "list_all (silent i) es"
  shows "receipt_ok (evs @ es) i r"
proof -
  note s = silent_of [OF assms(2)]
  have "untouched evs i r \<Longrightarrow> untouched (evs @ es) i r" using s by (simp add: untouched_def)
  moreover have "metrics_ok evs i r ops \<Longrightarrow> metrics_ok (evs @ es) i r ops" for ops
    using s covered_append [of evs i] resolved_append [of evs i] unfolding metrics_ok_def by auto
  moreover have "logs_ok evs i r recs \<Longrightarrow> logs_ok (evs @ es) i r recs" for recs
    using s by (simp add: logs_ok_def)
  ultimately show ?thesis using assms(1) s unfolding receipt_ok_def by auto
qed

section \<open>The invariant\<close>

definition heap_ok :: "event list \<Rightarrow> nat \<Rightarrow> (nat \<Rightarrow> IngressReceipt option) \<Rightarrow> bool" where
  "heap_ok evs sq h \<longleftrightarrow> (\<forall>i r. h i = Some r \<longrightarrow> i \<le> sq \<and> receipt_ok evs i r) \<and> (\<forall>i > sq. list_all (silent i) evs)"

definition groups_ok :: "(nat \<Rightarrow> IngressReceipt option) \<Rightarrow> (nat \<Rightarrow> ingressGroup option) \<Rightarrow> bool" where
  "groups_ok h gh \<longleftrightarrow> (\<forall>g gr. gh g = Some gr \<longrightarrow> (\<forall>m \<in> set (ig_members gr). \<exists>r. h m = Some r \<and> \<not> ir_metricsExcluded r))"

definition staged :: "bool \<Rightarrow> IngressReceipt \<Rightarrow> bool" where
  "staged materialized r \<longleftrightarrow> \<not> ir_metricsExcluded r \<and> (ir_phase r = Poisoned \<or> ir_phase r = Ready \<and>
     (materialized \<longrightarrow> (\<exists>q. ir_program r = Some q \<and> mp_cursor q = length (mp_operations q))))"

definition stage_ok :: "slot_pc \<Rightarrow> (nat \<Rightarrow> IngressReceipt option) \<Rightarrow> producerStage option \<Rightarrow> bool" where
  "stage_ok pc h stage \<longleftrightarrow> (\<forall>s. stage = Some s \<longrightarrow>
     ((\<forall>cid. pc \<noteq> SlotStaged cid) \<longrightarrow> ps_materialized s) \<and>
     (\<forall>m \<in> set (ps_members s). \<exists>r. h m = Some r \<and> staged (ps_materialized s) r))"

definition member_of :: "collectionID \<Rightarrow> IngressReceipt \<Rightarrow> bool" where
  "member_of cid r \<longleftrightarrow> ir_phase r = Poisoned \<or>
     ir_phase r \<in> {Covered, Delivered} \<and> ir_firstCoverID r = Some cid \<and> \<not> ir_metricsExcluded r"

definition coll_ok :: "event list \<Rightarrow> (nat \<Rightarrow> IngressReceipt option) \<Rightarrow> metricCollection list \<Rightarrow> bool" where
  "coll_ok evs h cs \<longleftrightarrow> (\<forall>c \<in> set cs.
     Covers (mc_id c) (mc_members c) (map fst (mc_parts c)) \<in> set evs \<and>
     (\<forall>k < length (mc_parts c). snd (mc_parts c ! k) \<longrightarrow> PartExported (mc_id c) k True \<in> set evs) \<and>
     (\<forall>m \<in> set (mc_members c). \<exists>r. h m = Some r \<and> member_of (mc_id c) r))"

definition logging_ok :: "(nat \<Rightarrow> IngressReceipt option) \<Rightarrow> (nat \<times> nat \<times> nat) option \<Rightarrow> bool" where
  "logging_ok h lg \<longleftrightarrow> (\<forall>i off en. lg = Some (i, off, en) \<longrightarrow> (\<exists>r. h i = Some r \<and> (ir_phase r = Poisoned \<or>
     ir_phase r \<in> {Ready, Covered, Delivered} \<and> \<not> ir_logAck r \<and> \<not> ir_logsExcluded r \<and>
     off = ir_logOffset r \<and> off \<le> en \<and> en \<le> length (ir_records r))))"

fun covers_id :: "event \<Rightarrow> collectionID option" where
  "covers_id (Covers cid ms parts) = Some cid"
| "covers_id _ = None"

definition cover_ids :: "event list \<Rightarrow> collectionID list" where
  "cover_ids evs = List.map_filter covers_id evs"

definition id_used :: "nat \<Rightarrow> bool \<Rightarrow> collectionID \<Rightarrow> bool" where
  "id_used slot terminal cid \<longleftrightarrow> (if ci_reason cid = 0 then ci_slot cid \<le> slot else terminal)"

definition ids_ok :: "event list \<Rightarrow> nat \<Rightarrow> bool \<Rightarrow> slot_pc \<Rightarrow> bool" where
  "ids_ok evs slot terminal pc \<longleftrightarrow> distinct (cover_ids evs) \<and> list_all (id_used slot terminal) (cover_ids evs) \<and>
     (\<forall>cid. pc = SlotStaged cid \<or> pc = SlotReady cid \<longrightarrow> cid \<notin> set (cover_ids evs) \<and> id_used slot terminal cid)"

definition export_ok :: "export_pc \<Rightarrow> metricCollection list \<Rightarrow> bool" where
  "export_ok pc cs \<longleftrightarrow> (pc \<noteq> ExportIdle \<longrightarrow> (\<exists>c cs'. cs = c # cs' \<and> mc_inFlight c))"

definition inv :: "Provider \<Rightarrow> bool" where
  "inv p \<longleftrightarrow> heap_ok (pv_events p) (pv_workSequence p) (pv_heap p) \<and> groups_ok (pv_heap p) (pv_groupHeap p) \<and>
     stage_ok (pv_slotPc p) (pv_heap p) (pv_stage p) \<and> coll_ok (pv_events p) (pv_heap p) (pv_collections p) \<and>
     logging_ok (pv_heap p) (pv_logging p) \<and>
     ids_ok (pv_events p) (pv_slot p) (pv_terminalAttempted p) (pv_slotPc p) \<and> export_ok (pv_exportPc p) (pv_collections p)"

lemma cover_ids_simps [simp]:
  "cover_ids [] = []"
  "cover_ids (a @ b) = cover_ids a @ cover_ids b"
  "cover_ids (e # es) = (case covers_id e of None \<Rightarrow> [] | Some c \<Rightarrow> [c]) @ cover_ids es"
  by (simp_all add: cover_ids_def map_filter_append List.map_filter_simps split: option.split)

lemma inv_new: "inv (newProvider me le lb mb mr)"
  by (simp add: inv_def newProvider_def heap_ok_def groups_ok_def stage_ok_def coll_ok_def logging_ok_def ids_ok_def export_ok_def)

text \<open>Changes that no part of the invariant looks at.\<close>

lemma inv_stats [simp]:
  "inv (upd_stats f p) = inv p" "inv (p\<lparr>pv_failed := b\<rparr>) = inv p" "inv (p\<lparr>pv_collectFailing := b\<rparr>) = inv p"
  "inv (p\<lparr>pv_logFailures := n\<rparr>) = inv p" "inv (p\<lparr>pv_terminal := b\<rparr>) = inv p" "inv (p\<lparr>pv_receipts := rs\<rparr>) = inv p"
  "inv (p\<lparr>pv_groups := gs\<rparr>) = inv p" "inv (p\<lparr>pv_openGroup := g\<rparr>) = inv p" "inv (p\<lparr>pv_nextGroup := n\<rparr>) = inv p"
  by (simp_all add: inv_def upd_stats_def)

text \<open>A receipt that no stage, collection or log export refers to may change freely, and any receipt may be
  poisoned.\<close>

definition free_change :: "IngressReceipt \<Rightarrow> IngressReceipt \<Rightarrow> bool" where
  "free_change r r' \<longleftrightarrow> ir_metricsExcluded r' = ir_metricsExcluded r \<and>
     (ir_phase r' = Poisoned \<or> ir_phase r \<in> {Reserved, Building})"

lemma heap_upd: "heap_ok evs sq h \<Longrightarrow> h i = Some r \<Longrightarrow> receipt_ok evs i r' \<Longrightarrow> heap_ok evs sq (h(i \<mapsto> r'))"
  by (auto simp: heap_ok_def)

lemma groups_upd:
  "groups_ok h gh \<Longrightarrow> h i = Some r \<Longrightarrow> ir_metricsExcluded r' = ir_metricsExcluded r \<Longrightarrow> groups_ok (h(i \<mapsto> r')) gh"
  unfolding groups_ok_def by (intro allI impI ballI) (auto dest!: spec)

lemma stage_upd:
  assumes "stage_ok pc h stage" "h i = Some r" "\<And>b. staged b r \<Longrightarrow> staged b r'"
  shows "stage_ok pc (h(i \<mapsto> r')) stage"
  unfolding stage_ok_def
proof (intro allI impI conjI ballI)
  fix s m assume "stage = Some s" "m \<in> set (ps_members s)"
  with assms(1) have "\<exists>r. h m = Some r \<and> staged (ps_materialized s) r" by (auto simp: stage_ok_def)
  then show "\<exists>r. (h(i \<mapsto> r')) m = Some r \<and> staged (ps_materialized s) r" using assms(2,3) by auto
qed (use assms(1) in \<open>auto simp: stage_ok_def\<close>)

lemma coll_upd:
  assumes "coll_ok evs h cs" "h i = Some r" "\<And>cid. member_of cid r \<Longrightarrow> member_of cid r'"
  shows "coll_ok evs (h(i \<mapsto> r')) cs"
  unfolding coll_ok_def
proof (intro ballI conjI)
  fix c m assume "c \<in> set cs" "m \<in> set (mc_members c)"
  with assms(1) have "\<exists>r. h m = Some r \<and> member_of (mc_id c) r" by (auto simp: coll_ok_def)
  then show "\<exists>r. (h(i \<mapsto> r')) m = Some r \<and> member_of (mc_id c) r" using assms(2,3) by auto
qed (use assms(1) in \<open>auto simp: coll_ok_def\<close>)

definition logged :: "nat \<Rightarrow> nat \<Rightarrow> IngressReceipt \<Rightarrow> bool" where
  "logged off en r \<longleftrightarrow> ir_phase r = Poisoned \<or>
     ir_phase r \<in> {Ready, Covered, Delivered} \<and> \<not> ir_logAck r \<and> \<not> ir_logsExcluded r \<and>
     off = ir_logOffset r \<and> off \<le> en \<and> en \<le> length (ir_records r)"

lemma logging_ok_alt: "logging_ok h lg \<longleftrightarrow> (\<forall>i off en. lg = Some (i, off, en) \<longrightarrow> (\<exists>r. h i = Some r \<and> logged off en r))"
  by (simp add: logging_ok_def logged_def)

lemma logging_upd:
  assumes "logging_ok h lg" "h i = Some r" "\<And>off en. lg = Some (i, off, en) \<Longrightarrow> logged off en r \<Longrightarrow> logged off en r'"
  shows "logging_ok (h(i \<mapsto> r')) lg"
  unfolding logging_ok_alt
proof (intro allI impI)
  fix j off en assume lg: "lg = Some (j, off, en)"
  with assms(1) have "\<exists>r. h j = Some r \<and> logged off en r" by (auto simp: logging_ok_alt)
  then show "\<exists>r. (h(i \<mapsto> r')) j = Some r \<and> logged off en r" using assms(2,3) lg by auto
qed

text \<open>A change of one receipt that what refers to it does not notice.\<close>

lemma inv_change:
  assumes "inv p" "pv_heap p i = Some r" "receipt_ok (pv_events p) i (f r)" "ir_metricsExcluded (f r) = ir_metricsExcluded r"
    "\<And>b. staged b r \<Longrightarrow> staged b (f r)" "\<And>cid. member_of cid r \<Longrightarrow> member_of cid (f r)" "\<And>off en. pv_logging p = Some (i, off, en) \<Longrightarrow> logged off en r \<Longrightarrow> logged off en (f r)"
  shows "inv (upd_receipt i f p)"
proof -
  let ?h = "(pv_heap p)(i \<mapsto> f r)"
  note i = assms(1) [unfolded inv_def]
  have "heap_ok (pv_events p) (pv_workSequence p) ?h" by (rule heap_upd [where r = r]) (use i assms(2,3) in auto)
  moreover have "groups_ok ?h (pv_groupHeap p)" by (rule groups_upd [where r = r]) (use i assms(2,4) in auto)
  moreover have "stage_ok (pv_slotPc p) ?h (pv_stage p)" by (rule stage_upd [where r = r]) (use i assms(2,5) in auto)
  moreover have "coll_ok (pv_events p) ?h (pv_collections p)" by (rule coll_upd [where r = r]) (use i assms(2,6) in auto)
  moreover have "logging_ok ?h (pv_logging p)" by (rule logging_upd [where r = r]) (use i assms(2,7) in auto)
  ultimately show ?thesis using i unfolding inv_def upd_receipt_def by (simp add: assms(2))
qed

lemma inv_upd:
  assumes "inv p" "pv_heap p i = Some r" "free_change r (f r)" "receipt_ok (pv_events p) i (f r)"
  shows "inv (upd_receipt i f p)"
  by (rule inv_change [where r = r and p = p]) (use assms in \<open>auto simp: free_change_def staged_def member_of_def logged_def\<close>)

lemma inv_absent: "pv_heap p i = None \<Longrightarrow> upd_receipt i f p = p"
  by (simp add: upd_receipt_def fun_upd_idem)

lemma inv_poison: "inv p \<Longrightarrow> inv (poison i p)"
proof (cases "pv_heap p i")
  case (Some r)
  assume "inv p"
  then show ?thesis unfolding poison_def
    using Some by (intro inv_upd [where r = r]) (simp_all add: free_change_def receipt_ok_def)
qed (simp add: poison_def inv_absent)

lemma inv_poison_all: "inv p \<Longrightarrow> inv (poison_all ms p)"
  unfolding poison_all_def by (induction ms arbitrary: p) (simp_all add: inv_poison)

text \<open>Events that concern no receipt and no snapshot.\<close>

lemma inv_event:
  assumes "inv p" "\<And>i. silent i ev" "covers_id ev = None"
  shows "inv (note_event ev p)"
  using assms(1) unfolding inv_def note_event_def
  by (auto simp: heap_ok_def coll_ok_def ids_ok_def assms(2,3) intro: receipt_ok_append)

section \<open>Admission and application\<close>

lemma evict_first_set: "evict_first cs = Some cs' \<Longrightarrow> set cs' \<subseteq> set cs"
  by (induction cs arbitrary: cs') (auto split: if_splits)

lemma evict_first_head: "evict_first (c # cs) = Some cs' \<Longrightarrow> mc_inFlight c \<Longrightarrow> \<exists>ds. cs' = c # ds"
  by (auto split: if_splits)

lemma inv_collections:
  assumes "inv p" "set cs \<subseteq> set (pv_collections p)" "export_ok (pv_exportPc p) cs"
  shows "inv (p\<lparr>pv_collections := cs\<rparr>)"
  using assms unfolding inv_def coll_ok_def by auto

lemma inv_credit: "inv p \<Longrightarrow> makeCreditLocked p = (b, p') \<Longrightarrow> inv p'"
proof -
  assume p: "inv p" and m: "makeCreditLocked p = (b, p')"
  show ?thesis
  proof (cases "evict_first (pv_collections p)")
    case None
    with p m show ?thesis by (auto simp: makeCreditLocked_def split: if_splits)
  next
    case (Some cs)
    have "export_ok (pv_exportPc p) cs"
      using p evict_first_head [of _ _ cs] Some unfolding inv_def export_ok_def by fastforce
    with p Some evict_first_set [OF Some] have "inv (p\<lparr>pv_collections := cs\<rparr>)" by (intro inv_collections)
    with p m Some show ?thesis by (auto simp: makeCreditLocked_def split: if_splits)
  qed
qed

lemma credit_frame:
  "makeCreditLocked p = (b, p') \<Longrightarrow> pv_heap p' = pv_heap p \<and> pv_groupHeap p' = pv_groupHeap p \<and> pv_events p' = pv_events p \<and>
     pv_metricsExcluded p' = pv_metricsExcluded p \<and> pv_workSequence p' = pv_workSequence p \<and> pv_slotPc p' = pv_slotPc p \<and>
     pv_stage p' = pv_stage p \<and> pv_batchSize p' = pv_batchSize p \<and> pv_terminalAttempted p' = pv_terminalAttempted p"
  by (auto simp: makeCreditLocked_def upd_stats_def split: if_splits option.splits)

lemma groups_ok_new: "groups_ok h gh \<Longrightarrow> groups_ok h (gh(g \<mapsto> \<lparr>ig_members = [], ig_closed = False\<rparr>))"
  by (simp add: groups_ok_def)

lemma inv_groupHeap: "inv p \<Longrightarrow> groups_ok (pv_heap p) gh \<Longrightarrow> inv (p\<lparr>pv_groupHeap := gh\<rparr>)"
  by (simp add: inv_def)

lemma inv_upd_group:
  assumes "inv p" "\<And>gr. pv_groupHeap p g = Some gr \<Longrightarrow> set (ig_members (f gr)) \<subseteq> set (ig_members gr) \<union> S"
    "\<And>m. m \<in> S \<Longrightarrow> \<exists>r. pv_heap p m = Some r \<and> \<not> ir_metricsExcluded r"
  shows "inv (upd_group g f p)"
proof (cases "pv_groupHeap p g")
  case None
  with assms(1) show ?thesis by (simp add: upd_group_def fun_upd_idem)
next
  case (Some gr)
  have old: "groups_ok (pv_heap p) (pv_groupHeap p)" using assms(1) by (simp add: inv_def)
  have "groups_ok (pv_heap p) ((pv_groupHeap p)(g \<mapsto> f gr))"
    unfolding groups_ok_def
  proof (intro allI impI ballI)
    fix k kr m assume k: "((pv_groupHeap p)(g \<mapsto> f gr)) k = Some kr" and m: "m \<in> set (ig_members kr)"
    show "\<exists>r. pv_heap p m = Some r \<and> \<not> ir_metricsExcluded r"
    proof (cases "k = g \<and> m \<notin> set (ig_members gr)")
      case True
      with k m assms(2) [OF Some] have "m \<in> S" by auto
      then show ?thesis by (rule assms(3))
    next
      case False
      with k m old Some show ?thesis by (auto simp: groups_ok_def split: if_splits)
    qed
  qed
  with assms(1) Some show ?thesis by (simp add: upd_group_def inv_groupHeap)
qed

lemma reserve_group_spec:
  assumes "inv p" "reserve_group p = Some (g, p')"
  shows "inv p' \<and> pv_heap p' = pv_heap p \<and> pv_events p' = pv_events p \<and> pv_workSequence p' = pv_workSequence p \<and>
    pv_metricsExcluded p' = pv_metricsExcluded p \<and> (g \<noteq> None \<longrightarrow> \<not> pv_metricsExcluded p)"
proof -
  obtain b p1 where c: "makeCreditLocked p = (b, p1)" by fastforce
  have "groups_ok (pv_heap p1) (pv_groupHeap p1)" using inv_credit [OF assms(1) c] by (simp add: inv_def)
  then have "inv (p1\<lparr>pv_groupHeap := (pv_groupHeap p1)(k \<mapsto> \<lparr>ig_members = [], ig_closed = False\<rparr>)\<rparr>)" for k
    using inv_credit [OF assms(1) c] by (intro inv_groupHeap groups_ok_new)
  then have "inv (p1\<lparr>pv_groupHeap := (pv_groupHeap p1)(k \<mapsto> \<lparr>ig_members = [], ig_closed = False\<rparr>), pv_nextGroup := n, pv_groups := gs, pv_openGroup := og\<rparr>)"
    for k n gs og unfolding inv_def by simp
  with assms credit_frame [OF c] show ?thesis
    by (auto simp: reserve_group_def c Let_def split: if_splits)
qed

lemma inv_alloc:
  assumes "inv p" "i = Suc (pv_workSequence p)" "receipt_ok (pv_events p) i r"
  shows "inv (p\<lparr>pv_workSequence := i, pv_heap := (pv_heap p)(i \<mapsto> r)\<rparr>)"
proof -
  have h: "heap_ok (pv_events p) (pv_workSequence p) (pv_heap p)" using assms(1) by (simp add: inv_def)
  then have fresh: "pv_heap p i = None" using assms(2) unfolding heap_ok_def by (metis not_less_eq_eq option.exhaust order_refl)
  have ex: "\<exists>r. h' m = Some r \<and> Q r" if "\<exists>r. pv_heap p m = Some r \<and> Q r" "h' = (pv_heap p)(i \<mapsto> r)" for m Q h'
    using that fresh by auto
  have "heap_ok (pv_events p) i ((pv_heap p)(i \<mapsto> r))" using h assms(2,3) by (force simp: heap_ok_def)
  moreover have "groups_ok ((pv_heap p)(i \<mapsto> r)) (pv_groupHeap p)" "stage_ok (pv_slotPc p) ((pv_heap p)(i \<mapsto> r)) (pv_stage p)"
    "coll_ok (pv_events p) ((pv_heap p)(i \<mapsto> r)) (pv_collections p)" "logging_ok ((pv_heap p)(i \<mapsto> r)) (pv_logging p)"
    using assms(1) fresh unfolding inv_def groups_ok_def stage_ok_def coll_ok_def logging_ok_def by (fastforce)+
  ultimately show ?thesis using assms(1) by (simp add: inv_def)
qed

lemma inv_reserve: "inv p \<Longrightarrow> inv (snd (ReserveIngress b p))"
proof (cases "reserve_group p")
  case None
  then show "inv p \<Longrightarrow> ?thesis" by (simp add: ReserveIngress_def)
next
  case (Some gp)
  assume p: "inv p"
  obtain g p1 where gp: "gp = (g, p1)" by (cases gp)
  note one = reserve_group_spec [OF p Some [unfolded gp]]
  let ?i = "Suc (pv_workSequence p1)"
  let ?r = "new_receipt b g p1"
  have "list_all (silent ?i) (pv_events p1)" using one unfolding inv_def heap_ok_def by auto
  from silent_of [OF this] have "receipt_ok (pv_events p1) ?i ?r"
    by (simp add: receipt_ok_def untouched_def new_receipt_def kinds_ok_def)
  with one have two: "inv (p1\<lparr>pv_workSequence := ?i, pv_heap := (pv_heap p1)(?i \<mapsto> ?r)\<rparr>)" by (intro inv_alloc) auto
  have "inv (upd_group k (\<lambda>gr. gr\<lparr>ig_members := ig_members gr @ [?i]\<rparr>) (p1\<lparr>pv_workSequence := ?i, pv_heap := (pv_heap p1)(?i \<mapsto> ?r)\<rparr>))"
    if "g = Some k" for k
    using two that one by (intro inv_upd_group [where S = "{?i}"]) (auto simp: new_receipt_def)
  with two p Some gp show ?thesis by (cases g) (simp_all add: ReserveIngress_def Let_def)
qed

lemma inv_release_unstarted: "inv p \<Longrightarrow> inv (snd (ReleaseUnstarted i p))"
proof -
  assume p: "inv p"
  have "inv (upd_group g (\<lambda>gr. gr\<lparr>ig_members := remove1 i (ig_members gr)\<rparr>) (p\<lparr>pv_receipts := rs\<rparr>))" for g rs
    using p by (intro inv_upd_group [where S = "{}"]) (auto dest: set_remove1_subset [THEN subsetD])
  moreover have "inv q \<Longrightarrow> inv (removeGroupLocked g q)" for g q
    unfolding removeGroupLocked_def inv_def by simp
  ultimately show ?thesis using p
    by (simp add: ReleaseUnstarted_def Let_def split: option.split)
qed

lemma inv_receipt: "inv p \<Longrightarrow> pv_heap p i = Some r \<Longrightarrow> receipt_ok (pv_events p) i r"
  by (auto simp: inv_def heap_ok_def)

lemma inv_apply_begin: "inv p \<Longrightarrow> inv (snd (apply_begin i b a c p))"
proof (cases "pv_heap p i")
  case None
  then show "inv p \<Longrightarrow> ?thesis" by (simp add: apply_begin_def)
next
  case (Some r)
  assume p: "inv p"
  have "inv (upd_receipt i (\<lambda>r. r\<lparr>ir_phase := Building\<rparr>) p)" if "ir_phase r = Reserved"
    using p Some that inv_receipt [OF p Some]
    by (intro inv_upd [where r = r]) (auto simp: free_change_def receipt_ok_def untouched_def)
  with p Some show ?thesis by (simp add: apply_begin_def)
qed

lemma program_add_ok:
  "program_add op q = (q', False) \<Longrightarrow> \<not> mp_sealed q \<and> mp_sealed q' = mp_sealed q \<and> mp_cursor q' = mp_cursor q \<and> (kinds_ok q \<longrightarrow> kinds_ok q')"
  by (auto simp: program_add_def Let_def kinds_ok_def split: if_splits prod.splits)

lemma inv_record_metric:
  assumes p: "inv p" and "map_option ir_metricsExcluded (pv_heap p i) = Some False"
  shows "inv (record_metric i op p)"
proof -
  from assms(2) obtain r where r: "pv_heap p i = Some r" "\<not> ir_metricsExcluded r" by auto
  note ok = inv_receipt [OF p r(1)]
  have "inv (upd_receipt i (\<lambda>r. r\<lparr>ir_program := Some q'\<rparr>) p)"
    if q: "ir_program r = Some q" "program_add op q = (q', False)" for q q'
  proof (rule inv_upd [where r = r])
    note add = program_add_ok [OF q(2)]
    have ph: "ir_phase r = Poisoned \<or> ir_phase r \<in> {Reserved, Building}"
      using ok add q(1) r(2) by (auto simp: receipt_ok_def metrics_ok_def)
    then show "free_change r (r\<lparr>ir_program := Some q'\<rparr>)" by (auto simp: free_change_def)
    from ph show "receipt_ok (pv_events p) i (r\<lparr>ir_program := Some q'\<rparr>)"
      using ok add q(1) by (auto simp: receipt_ok_def untouched_def)
  qed (use p r in auto)
  with p inv_poison r show ?thesis
    by (auto simp: record_metric_def split: option.split prod.splits)
qed

lemma inv_OnEmit: "inv p \<Longrightarrow> inv (OnEmit i rec p)"
proof (cases "pv_heap p i")
  case None
  then show "inv p \<Longrightarrow> ?thesis" by (simp add: OnEmit_def)
next
  case (Some r)
  assume p: "inv p"
  have "inv (upd_receipt i (\<lambda>r. r\<lparr>ir_records := ir_records r @ [rec], ir_recordBytes := ir_recordBytes r + recordCharge rec\<rparr>) p)"
    if "ir_phase r = Building"
    using p Some that inv_receipt [OF p Some]
    by (intro inv_upd [where r = r]) (auto simp: free_change_def receipt_ok_def untouched_def)
  with p Some inv_poison show ?thesis by (simp add: OnEmit_def)
qed

lemma heap_event:
  assumes "heap_ok evs sq h" "\<And>j. j \<noteq> i \<Longrightarrow> list_all (silent j) es" "i \<le> sq" "\<And>r. h i = Some r \<Longrightarrow> receipt_ok (evs @ es) i r"
  shows "heap_ok (evs @ es) sq h"
  using assms unfolding heap_ok_def by (metis leD list_all_append receipt_ok_append)

text \<open>One receipt changes together with events that are about it alone.\<close>

lemma inv_change_event:
  assumes p: "inv p" and r: "pv_heap p i = Some r" and "receipt_ok (pv_events p @ es) i (f r)" "ir_metricsExcluded (f r) = ir_metricsExcluded r"
    and "\<And>b. staged b r \<Longrightarrow> staged b (f r)" "\<And>cid. member_of cid r \<Longrightarrow> member_of cid (f r)" "\<And>off en. pv_logging p = Some (i, off, en) \<Longrightarrow> logged off en r \<Longrightarrow> logged off en (f r)"
    and es: "\<And>j. j \<noteq> i \<Longrightarrow> list_all (silent j) es" "cover_ids es = []"
  shows "inv ((upd_receipt i f p)\<lparr>pv_events := pv_events p @ es\<rparr>)"
proof -
  let ?h = "(pv_heap p)(i \<mapsto> f r)"
  note i = p [unfolded inv_def]
  have le: "i \<le> pv_workSequence p" using i r by (auto simp: heap_ok_def)
  have "heap_ok (pv_events p @ es) (pv_workSequence p) ?h"
    unfolding heap_ok_def
  proof (intro conjI allI impI)
    fix j jr assume j: "?h j = Some jr"
    show "j \<le> pv_workSequence p" using i j le by (auto simp: heap_ok_def split: if_splits)
    show "receipt_ok (pv_events p @ es) j jr"
    proof (cases "j = i")
      case True
      with j assms(3) show ?thesis by simp
    next
      case False
      with j inv_receipt [OF p] es(1) show ?thesis by (auto intro: receipt_ok_append)
    qed
  next
    fix j assume "pv_workSequence p < j"
    with i le es(1) [of j] show "list_all (silent j) (pv_events p @ es)" by (auto simp: heap_ok_def)
  qed
  moreover have "groups_ok ?h (pv_groupHeap p)" by (rule groups_upd [where r = r]) (use i r assms(4) in auto)
  moreover have "stage_ok (pv_slotPc p) ?h (pv_stage p)" by (rule stage_upd [where r = r]) (use i r assms(5) in auto)
  moreover have "coll_ok (pv_events p) ?h (pv_collections p)" by (rule coll_upd [where r = r]) (use i r assms(6) in auto)
  then have "coll_ok (pv_events p @ es) ?h (pv_collections p)" by (auto simp: coll_ok_def)
  moreover have "logging_ok ?h (pv_logging p)" by (rule logging_upd [where r = r]) (use i r assms(7) in auto)
  moreover have "ids_ok (pv_events p @ es) (pv_slot p) (pv_terminalAttempted p) (pv_slotPc p)" using i es(2) by (simp add: ids_ok_def)
  ultimately show ?thesis using i unfolding inv_def upd_receipt_def by (simp add: r)
qed

lemma settle_phase: "ir_phase (settle r) = Poisoned \<longleftrightarrow> ir_phase r = Poisoned"
  by (simp add: settle_def eligibleLocked_def)

lemma inv_apply_finish:
  assumes p: "inv p" and ph: "map_option ir_phase (pv_heap p i) \<in> {Some Building, Some Poisoned}"
  shows "inv (snd (apply_finish i failed p))"
proof -
  from ph obtain r where r: "pv_heap p i = Some r" "ir_phase r = Building \<or> ir_phase r = Poisoned" by auto
  note ok = inv_receipt [OF p r(1)]
  show ?thesis
  proof (cases "failed \<or> ir_phase r = Poisoned")
    case True
    moreover have "inv (upd_receipt i seal_receipt p)" if "ir_phase r = Poisoned"
      using p r that by (intro inv_upd [where r = r]) (auto simp: free_change_def receipt_ok_def seal_receipt_def)
    ultimately show ?thesis using p inv_poison r
      by (auto simp: apply_finish_def Let_def upd_receipt_def seal_receipt_def)
  next
    case False
    with r have b: "ir_phase r = Building" by simp
    with ok obtain q where q: "ir_program r = Some q" "mp_cursor q = 0" "kinds_ok q" and u: "untouched (pv_events p) i r"
      by (auto simp: receipt_ok_def untouched_def)
    let ?ev = "Applied i (mp_operations q) (ir_records r)"
    let ?f = "\<lambda>r. ready_receipt (seal_receipt r)"
    have seal: "?f r = settle (r\<lparr>ir_program := Some (q\<lparr>mp_sealed := True\<rparr>), ir_phase := Ready, ir_logAck := (ir_logsExcluded r \<or> ir_records r = [])\<rparr>)"
      by (simp add: ready_receipt_def seal_receipt_def q)
    have "receipt_ok (pv_events p @ [?ev]) i (?f r)"
      using u q b unfolding seal
      by (auto simp: receipt_ok_def untouched_def metrics_ok_def logs_ok_def settle_def eligibleLocked_def kinds_ok_def)
    then have "inv ((upd_receipt i ?f p)\<lparr>pv_events := pv_events p @ [?ev]\<rparr>)"
      using p r(1) b by (intro inv_change_event [where r = r])
        (auto simp: staged_def member_of_def logged_def ready_receipt_def seal_receipt_def settle_def)
    moreover have "upd_receipt i ready_receipt (upd_receipt i seal_receipt p) = upd_receipt i ?f p"
      by (simp add: upd_receipt_def option.map_comp comp_def r)
    ultimately show ?thesis using False r q
      by (simp add: apply_finish_def Let_def note_event_def upd_receipt_def seal_receipt_def)
  qed
qed

lemma inv_release: "inv p \<Longrightarrow> inv (snd (ReleaseIngress i p))"
  by (simp add: ReleaseIngress_def)

lemma inv_close: "inv p \<Longrightarrow> inv (close_open_group p)"
proof (cases "pv_openGroup p")
  case (Some g)
  assume "inv p"
  then have "inv (upd_group g (\<lambda>gr. gr\<lparr>ig_closed := True\<rparr>) p)" by (intro inv_upd_group [where S = "{}"]) auto
  with Some show ?thesis by (simp add: close_open_group_def)
qed (simp add: close_open_group_def)

section \<open>Collections\<close>

lemma close_frame:
  "pv_heap (close_open_group p) = pv_heap p" "pv_events (close_open_group p) = pv_events p"
  "pv_stage (close_open_group p) = pv_stage p" "pv_slotPc (close_open_group p) = pv_slotPc p"
  "pv_slot (close_open_group p) = pv_slot p" "pv_terminalAttempted (close_open_group p) = pv_terminalAttempted p"
  "pv_collections (close_open_group p) = pv_collections p" "pv_groups (close_open_group p) = pv_groups p"
  "pv_workSequence (close_open_group p) = pv_workSequence p" "pv_logging (close_open_group p) = pv_logging p"
  "pv_exportPc (close_open_group p) = pv_exportPc p"
  by (simp_all add: close_open_group_def upd_group_def split: option.splits)

lemma inv_stage:
  "inv p \<Longrightarrow> stage_ok (pv_slotPc p) (pv_heap p) st \<Longrightarrow> inv (p\<lparr>pv_stage := st\<rparr>)"
  by (simp add: inv_def)

lemma stage_ok_None [simp]: "stage_ok pc h None"
  by (simp add: stage_ok_def)

lemma inv_pc:
  "inv p \<Longrightarrow> stage_ok pc (pv_heap p) (pv_stage p) \<Longrightarrow> ids_ok (pv_events p) (pv_slot p) (pv_terminalAttempted p) pc \<Longrightarrow>
     inv (p\<lparr>pv_slotPc := pc\<rparr>)"
  by (simp add: inv_def)

lemma staged_group:
  assumes "inv p" "groupReady p g" "pv_groupHeap p g = Some gr" "m \<in> set (ig_members gr)"
  shows "\<exists>r. pv_heap p m = Some r \<and> staged False r"
proof -
  from assms(1,3,4) obtain r where r: "pv_heap p m = Some r" "\<not> ir_metricsExcluded r" unfolding inv_def groups_ok_def by blast
  with assms(2-4) have "ir_phase r = Ready" by (auto simp: groupReady_def list_all_iff split: if_splits)
  with r show ?thesis by (simp add: staged_def)
qed

lemma inv_collect_begin:
  assumes p: "inv p" and "pv_slotPc p = SlotIdle" and cid: "cid \<notin> set (cover_ids (pv_events p))" "id_used (pv_slot p) (pv_terminalAttempted p) cid"
  shows "inv (collect_begin cid hasBefore p)"
proof -
  define p1 where "p1 = upd_stats (\<lambda>s. if ci_reason cid = 0 then s\<lparr>ScheduledAttempts := ScheduledAttempts s + 1\<rparr>
     else s\<lparr>TerminalAttempts := TerminalAttempts s + 1\<rparr>) p"
  have p1: "inv p1" using p by (simp add: p1_def)
  have f1: "pv_events p1 = pv_events p" "pv_slot p1 = pv_slot p" "pv_terminalAttempted p1 = pv_terminalAttempted p" "pv_stage p1 = pv_stage p"
    by (simp_all add: p1_def upd_stats_def)
  have goal: "inv (q\<lparr>pv_slotPc := SlotStaged cid\<rparr>)" if "inv q" "stage_ok (SlotStaged cid) (pv_heap q) (pv_stage q)"
    "pv_events q = pv_events p" "pv_slot q = pv_slot p" "pv_terminalAttempted q = pv_terminalAttempted p" for q
    using that p cid by (intro inv_pc) (auto simp: ids_ok_def inv_def)
  show ?thesis
  proof (cases "pv_stage p")
    case (Some s)
    have "stage_ok (SlotStaged cid) (pv_heap p1) (pv_stage p1)" using p1 by (auto simp: inv_def stage_ok_def)
    with Some f1 goal [OF p1] show ?thesis by (simp add: collect_begin_def Let_def p1_def [symmetric])
  next
    case None
    define p2 where "p2 = close_open_group p1"
    have p2: "inv p2" using p1 by (simp add: p2_def inv_close)
    have f2: "pv_events p2 = pv_events p" "pv_slot p2 = pv_slot p" "pv_terminalAttempted p2 = pv_terminalAttempted p" "pv_stage p2 = None"
      using f1 None by (simp_all add: p2_def close_frame)
    define s where "s = \<lparr>ps_fence = 0, ps_members = [], ps_ordinary = hasBefore, ps_group = None, ps_materialized = False, ps_ordinaryCredit = False\<rparr>"
    define s2 where "s2 = (case find (groupReady p2) (pv_groups p2) of None \<Rightarrow> s | Some g \<Rightarrow> stage_group g p2 s)"
    have ok: "stage_ok (SlotStaged cid) (pv_heap p2) (Some s2)"
      using staged_group [OF p2] by (fastforce simp: stage_ok_def s2_def s_def stage_group_def find_Some_iff split: option.splits)
    have "inv (p2\<lparr>pv_stage := Some s2, pv_slotPc := SlotStaged cid\<rparr>)"
      using p2 ok p cid f2 by (auto simp: inv_def ids_ok_def)
    moreover have "inv (p2\<lparr>pv_slotPc := SlotStaged cid\<rparr>)" using goal [OF p2] f2 by simp
    ultimately show ?thesis using None f1(4)
      by (simp add: collect_begin_def Let_def p1_def [symmetric] p2_def [symmetric] s_def [symmetric] s2_def [symmetric])
  qed
qed

lemma emit_loop_ok:
  "list_all (\<lambda>op. mo_kind op \<le> 4) ops \<Longrightarrow> emit_loop k ops = (es, n, err) \<Longrightarrow> es = take n ops \<and> n \<le> length ops \<and> (\<not> err \<longrightarrow> n = length ops)"
proof (induction ops arbitrary: k es n err)
  case (Cons op ops)
  obtain es1 n1 err1 where e: "emit_loop (map_option (\<lambda>k. k - 1) k) ops = (es1, n1, err1)" by (metis prod_cases3)
  from Cons.IH [OF _ e] Cons.prems e show ?case by (auto split: if_splits)
qed auto

lemma EmitOnce_ok:
  assumes "kinds_ok q" "mp_cursor q \<le> length (mp_operations q)" "EmitOnce k q = (q', es, err)"
  shows "mp_operations q' = mp_operations q \<and> mp_sealed q' \<and> kinds_ok q' \<and> mp_cursor q \<le> mp_cursor q' \<and>
    mp_cursor q' \<le> length (mp_operations q) \<and> take (mp_cursor q') (mp_operations q) = take (mp_cursor q) (mp_operations q) @ es \<and>
    (\<not> err \<longrightarrow> mp_cursor q' = length (mp_operations q))"
proof -
  obtain es1 n e1 where e: "emit_loop k (drop (mp_cursor q) (mp_operations q)) = (es1, n, e1)" by (metis prod_cases3)
  have "list_all (\<lambda>op. mo_kind op \<le> 4) (drop (mp_cursor q) (mp_operations q))"
    using assms(1) by (auto simp: kinds_ok_def list_all_iff dest: in_set_dropD)
  from emit_loop_ok [OF this e] assms e show ?thesis
    by (auto simp: EmitOnce_def kinds_ok_def take_add)
qed

text \<open>A stage about to be materialized: its members are ready or poisoned.\<close>

definition members_ready :: "nat list \<Rightarrow> Provider \<Rightarrow> bool" where
  "members_ready ms p \<longleftrightarrow> (\<forall>m \<in> set ms. \<exists>r. pv_heap p m = Some r \<and> staged False r)"

definition members_done :: "nat list \<Rightarrow> Provider \<Rightarrow> bool" where
  "members_done ms p \<longleftrightarrow> (\<forall>m \<in> set ms. \<exists>r. pv_heap p m = Some r \<and> staged True r)"

definition same_but_members :: "Provider \<Rightarrow> Provider \<Rightarrow> bool" where
  "same_but_members p p' \<longleftrightarrow> pv_stage p' = pv_stage p \<and> pv_slotPc p' = pv_slotPc p \<and> pv_slot p' = pv_slot p \<and>
     pv_terminalAttempted p' = pv_terminalAttempted p \<and> cover_ids (pv_events p') = cover_ids (pv_events p)"

definition keeps_staged :: "Provider \<Rightarrow> Provider \<Rightarrow> bool" where
  "keeps_staged p p' \<longleftrightarrow> (\<forall>b j r. pv_heap p j = Some r \<and> staged b r \<longrightarrow> (\<exists>r'. pv_heap p' j = Some r' \<and> staged b r'))"

lemma keeps_staged_trans: "keeps_staged p q \<Longrightarrow> keeps_staged q r \<Longrightarrow> keeps_staged p r"
  unfolding keeps_staged_def by blast

lemma keeps_staged_refl: "keeps_staged p p"
  unfolding keeps_staged_def by blast

lemma keeps_staged_poison: "keeps_staged p (poison i p)"
  unfolding keeps_staged_def poison_def upd_receipt_def by (auto simp: staged_def)

lemma same_members_trans: "same_but_members p q \<Longrightarrow> same_but_members q r \<Longrightarrow> same_but_members p r"
  unfolding same_but_members_def by simp

lemma emitted_silent: "j \<noteq> m \<Longrightarrow> list_all (silent j) (map (Emitted m) es)"
  by (induction es) auto

lemma emitted_of_map: "emitted_of m (map (Emitted m) es) = es" "applied_of i (map (Emitted m) es) = []" "logs_of i (map (Emitted m) es) = []"
  "cover_ids (map (Emitted m) es) = []"
  by (induction es) auto

lemma emit_one:
  assumes p: "inv p" and r: "pv_heap p m = Some r" "staged False r" and q: "ir_program r = Some q" and e: "EmitOnce k q = (q', es, err)"
  defines "p1 \<equiv> (upd_receipt m (\<lambda>r. r\<lparr>ir_program := Some q'\<rparr>) p)\<lparr>pv_events := pv_events p @ map (Emitted m) es\<rparr>"
  shows "inv p1 \<and> same_but_members p p1 \<and> keeps_staged p p1 \<and>
    (\<not> err \<longrightarrow> (\<exists>r'. pv_heap p1 m = Some r' \<and> staged True r'))"
proof -
  note ok = inv_receipt [OF p r(1)]
  let ?f = "\<lambda>r. r\<lparr>ir_program := Some q'\<rparr>"
  have st: "staged b (?f r) \<and> (\<not> err \<longrightarrow> staged True (?f r))" if "staged b r" for b
  proof (cases "ir_phase r = Poisoned")
    case False
    with ok that q obtain ops where "kinds_ok q" "mp_operations q = ops" "mp_cursor q \<le> length ops"
      by (auto simp: receipt_ok_def metrics_ok_def staged_def)
    with EmitOnce_ok [OF _ _ e] that q False show ?thesis by (auto simp: staged_def)
  qed (use that in \<open>auto simp: staged_def\<close>)
  have "receipt_ok (pv_events p @ map (Emitted m) es) m (?f r)"
  proof (cases "ir_phase r = Poisoned")
    case False
    with r(2) have ph: "ir_phase r = Ready" "\<not> ir_metricsExcluded r" by (auto simp: staged_def)
    with ok q obtain ops recs where o: "applied_of m (pv_events p) = [(ops, recs)]" "logs_ok (pv_events p) m r recs"
      "mp_sealed q" "kinds_ok q" "mp_operations q = ops" "mp_cursor q \<le> length ops" "emitted_of m (pv_events p) = take (mp_cursor q) ops"
      "\<not> ir_metricAck r"
      by (auto simp: receipt_ok_def metrics_ok_def)
    with EmitOnce_ok [OF o(4) _ e] ph show ?thesis
      by (auto simp: receipt_ok_def metrics_ok_def logs_ok_def emitted_of_map)
  qed (simp add: receipt_ok_def)
  then have "inv p1" unfolding p1_def
    using p r(1) st by (intro inv_change_event [where r = r]) (auto simp: member_of_def logged_def emitted_silent emitted_of_map)
  moreover have "same_but_members p p1" by (simp add: p1_def same_but_members_def upd_receipt_def emitted_of_map)
  moreover have "keeps_staged p p1" unfolding keeps_staged_def p1_def upd_receipt_def using r(1) st by auto
  moreover have "\<not> err \<longrightarrow> (\<exists>r'. pv_heap p1 m = Some r' \<and> staged True r')" using st [OF r(2)] r(1) by (simp add: p1_def upd_receipt_def)
  ultimately show ?thesis by blast
qed

lemma same_members_poison: "same_but_members p (poison i p)"
  by (simp add: same_but_members_def poison_def upd_receipt_def)

lemma emit_members_ok:
  assumes "inv p" "members_ready ms p" "emit_members panics ms p = (err, p')"
  shows "inv p' \<and> same_but_members p p' \<and> keeps_staged p p' \<and> (\<not> err \<longrightarrow> members_done ms p')"
  using assms
proof (induction ms arbitrary: p)
  case Nil
  then show ?case by (simp add: same_but_members_def keeps_staged_refl members_done_def)
next
  case (Cons m ms)
  from Cons.prems(2) obtain r where r: "pv_heap p m = Some r" "staged False r" by (auto simp: members_ready_def)
  have rdy: "members_ready ms p" using Cons.prems(2) by (simp add: members_ready_def)
  show ?case
  proof (cases "ir_program r")
    case None
    with r have "staged True r" using inv_receipt [OF Cons.prems(1) r(1)] by (auto simp: staged_def receipt_ok_def metrics_ok_def)
    with Cons.IH [OF Cons.prems(1) rdy] Cons.prems(3) None r show ?thesis by (auto simp: members_done_def keeps_staged_def)
  next
    case (Some q)
    obtain q' es e1 where e: "EmitOnce (panics m) q = (q', es, e1)" by (metis prod_cases3)
    define p1 where "p1 = (upd_receipt m (\<lambda>r. r\<lparr>ir_program := Some q'\<rparr>) p)\<lparr>pv_events := pv_events p @ map (Emitted m) es\<rparr>"
    note one = emit_one [OF Cons.prems(1) r Some e, folded p1_def]
    from rdy one have rdy1: "members_ready ms p1" unfolding members_ready_def keeps_staged_def by blast
    from Cons.prems(3) r Some e have res: "(if e1 then (True, poison m p1) else emit_members panics ms p1) = (err, p')"
      by (simp add: Let_def p1_def split: if_splits)
    show ?thesis
    proof (cases e1)
      case True
      with res have "err" "p' = poison m p1" by auto
      with one inv_poison [of p1 m] keeps_staged_trans [OF _ keeps_staged_poison] same_members_trans [OF _ same_members_poison] show ?thesis by blast
    next
      case False
      with res Cons.IH [OF _ rdy1] one have two: "inv p'" "same_but_members p1 p'" "keeps_staged p1 p'" "\<not> err \<longrightarrow> members_done ms p'" by auto
      from one False obtain r' where "pv_heap p1 m = Some r'" "staged True r'" by blast
      with two(3) have "\<exists>r'. pv_heap p' m = Some r' \<and> staged True r'" unfolding keeps_staged_def by blast
      with two(4) have "\<not> err \<longrightarrow> members_done (m # ms) p'" by (simp add: members_done_def)
      with two one keeps_staged_trans [of p p1 p'] same_members_trans [of p p1 p'] show ?thesis by simp
    qed
  qed
qed

lemma poison_frame: "same_but_members p (poison_all ms p)"
  unfolding poison_all_def
proof (induction ms arbitrary: p)
  case (Cons m ms)
  show ?case using same_members_trans [OF same_members_poison Cons] by simp
qed (simp add: same_but_members_def)

lemma inv_materialize:
  assumes p: "inv p" and pc: "pv_slotPc p = SlotStaged cid"
  shows "inv (collect_materialize f panics cid p)"
proof -
  have ids: "ids_ok evs slot t pc \<Longrightarrow> pc = SlotStaged cid \<Longrightarrow> ids_ok evs slot t (SlotReady cid)" for evs slot t pc by (simp add: ids_ok_def)
  have goal: "inv (q\<lparr>pv_slotPc := SlotReady cid\<rparr>)" if "inv q" "pv_slotPc q = SlotStaged cid" "stage_ok (SlotReady cid) (pv_heap q) (pv_stage q)" for q
    using that ids by (intro inv_pc) (auto simp: inv_def)
  show ?thesis
  proof (cases "pv_stage p")
    case None
    with goal [OF p pc] show ?thesis by (simp add: collect_materialize_def)
  next
    case (Some s)
    have rdy: "\<not> ps_materialized s \<Longrightarrow> members_ready (ps_members s) p" using p Some by (auto simp: inv_def stage_ok_def members_ready_def)
    show ?thesis
    proof (cases "ps_materialized s")
      case True
      have "stage_ok (SlotReady cid) (pv_heap p) (pv_stage p)" using p Some True by (auto simp: inv_def stage_ok_def)
      with goal [OF p pc] Some True show ?thesis by (simp add: collect_materialize_def)
    next
      case False
      obtain err p1 where m: "(if ps_ordinary s \<and> f then (True, p) else emit_members panics (ps_members s) p) = (err, p1)" by fastforce
      have one: "inv p1 \<and> same_but_members p p1 \<and> (\<not> err \<longrightarrow> members_done (ps_members s) p1)"
        using m p emit_members_ok [OF p rdy [OF False], of panics] by (auto simp: same_but_members_def split: if_splits)
      then have pc1: "pv_slotPc p1 = SlotStaged cid" using pc by (simp add: same_but_members_def)
      show ?thesis
      proof (cases err)
        case True
        define p2 where "p2 = poison_all (ps_members s) p1"
        have "inv p2" "pv_slotPc p2 = SlotStaged cid" using one inv_poison_all pc1 poison_frame [of p1 "ps_members s"] by (auto simp: p2_def same_but_members_def)
        then have "inv (p2\<lparr>pv_failed := True, pv_stage := None, pv_slotPc := SlotReady cid\<rparr>)" using ids by (simp add: inv_def)
        with True Some False m show ?thesis by (simp add: collect_materialize_def p2_def)
      next
        case nf: False
        with one have "stage_ok (SlotReady cid) (pv_heap p1) (Some (s\<lparr>ps_materialized := True\<rparr>))"
          by (auto simp: stage_ok_def members_done_def)
        with one pc1 ids have "inv (p1\<lparr>pv_stage := Some (s\<lparr>ps_materialized := True\<rparr>), pv_slotPc := SlotReady cid\<rparr>)" by (simp add: inv_def)
        with nf Some False m show ?thesis by (simp add: collect_materialize_def)
      qed
    qed
  qed
qed

definition cover_receipt :: "collectionID \<Rightarrow> IngressReceipt \<Rightarrow> IngressReceipt" where
  "cover_receipt cid r = (if ir_phase r = Poisoned then r
     else r\<lparr>ir_firstCoverID := Some cid, ir_phase := Covered, ir_program := None\<rparr>)"

lemma cover_idem [simp]: "cover_receipt cid (cover_receipt cid r) = cover_receipt cid r"
  by (simp add: cover_receipt_def)

lemma fold_cover:
  "fold (cover cid) ms p = p\<lparr>pv_heap := (\<lambda>j. if j \<in> set ms then map_option (cover_receipt cid) (pv_heap p j) else pv_heap p j)\<rparr>"
proof (induction ms arbitrary: p)
  case (Cons m ms)
  have "cover cid m p = upd_receipt m (cover_receipt cid) p" by (simp add: cover_def cover_receipt_def [abs_def])
  with Cons show ?case
    by (auto simp: upd_receipt_def fun_eq_iff option.map_comp comp_def intro!: Provider.equality)
qed simp

lemma inv_collectFailure:
  assumes p: "inv p" and pc: "\<And>c. pv_slotPc p \<noteq> SlotStaged c"
  shows "inv ((collectFailure p)\<lparr>pv_slotPc := SlotIdle\<rparr>)"
proof -
  define p1 where "p1 = (upd_stats (\<lambda>s. s\<lparr>CollectFailures := CollectFailures s + 1\<rparr>) p)\<lparr>pv_collectFailing := True\<rparr>"
  have p1: "inv p1" using p by (simp add: p1_def)
  have f1: "pv_stage p1 = pv_stage p" "pv_slotPc p1 = pv_slotPc p" by (simp_all add: p1_def upd_stats_def)
  have goal: "inv (q\<lparr>pv_slotPc := SlotIdle\<rparr>)" if "inv q" "pv_slotPc q = pv_slotPc p" for q
    using that pc by (intro inv_pc) (auto simp: inv_def stage_ok_def ids_ok_def)
  obtain b p2 where c: "makeCreditLocked p1 = (b, p2)" by fastforce
  note p2 = inv_credit [OF p1 c] credit_frame [OF c]
  have "inv (p2\<lparr>pv_stage := Some (s\<lparr>ps_ordinaryCredit := True\<rparr>)\<rparr>)" if "pv_stage p = Some s" for s
    using p2 f1 that by (intro inv_stage) (auto simp: inv_def stage_ok_def)
  moreover have "inv (p2\<lparr>pv_stage := None\<rparr>)" using p2 by (intro inv_stage) auto
  moreover have "collectFailure p = p1 \<or> (\<exists>s. pv_stage p = Some s \<and> collectFailure p = p2\<lparr>pv_stage := Some (s\<lparr>ps_ordinaryCredit := True\<rparr>)\<rparr>) \<or>
    (\<exists>g. collectFailure p = upd_stats g (p2\<lparr>pv_stage := None\<rparr>))"
    unfolding collectFailure_def Let_def p1_def [symmetric] using f1 c by (auto split: option.split)
  moreover have "pv_slotPc (upd_stats g q) = pv_slotPc q" for g q by (simp add: upd_stats_def)
  ultimately have "inv (collectFailure p) \<and> pv_slotPc (collectFailure p) = pv_slotPc p"
    using p1 p2 f1 by (elim disjE exE conjE) simp_all
  with goal show ?thesis by blast
qed

lemma inv_retain:
  assumes p: "inv p" and pc: "pv_slotPc p = SlotReady cid" and evs: "pv_events p = l1 @ [Collected cid (Some data)]"
    and fr: "freezeMetricParts data batch = Some (Some parts)"
  shows "inv ((retain_collection cid (pv_stage p) parts p)\<lparr>pv_slotPc := SlotIdle\<rparr>)"
proof -
  define ms where "ms = (case pv_stage p of Some s \<Rightarrow> (if ps_group s = None then [] else ps_members s) | None \<Rightarrow> [])"
  define h where "h = (\<lambda>j. if j \<in> set ms then map_option (cover_receipt cid) (pv_heap p j) else pv_heap p j)"
  define c where "c = \<lparr>mc_id = cid, mc_members = ms, mc_parts = map (\<lambda>d. (d, False)) parts,
    mc_required = ((case pv_stage p of None \<Rightarrow> None | Some s \<Rightarrow> ps_group s) \<noteq> None), mc_inFlight = False, mc_failedAttempts = 0,
    mc_permanentRejections = 0\<rparr>"
  let ?evs = "pv_events p @ [Covers cid ms parts]"
  note i = p [unfolded inv_def]
  have st: "\<exists>r. pv_heap p m = Some r \<and> staged True r" if "m \<in> set ms" for m
  proof -
    from that obtain s where s: "pv_stage p = Some s" "m \<in> set (ps_members s)" by (cases "pv_stage p") (auto simp: ms_def split: if_splits)
    moreover have "ps_materialized s" using i s(1) pc by (auto simp: stage_ok_def)
    ultimately show ?thesis using i unfolding stage_ok_def by fastforce
  qed
  have "receipt_ok ?evs m (cover_receipt cid r)" if m: "m \<in> set ms" and r: "pv_heap p m = Some r" for m r
  proof (cases "ir_phase r = Poisoned")
    case False
    from st [OF m] r have "staged True r" by auto
    with False obtain q where q: "ir_phase r = Ready" "\<not> ir_metricsExcluded r" "ir_program r = Some q" "mp_cursor q = length (mp_operations q)"
      by (auto simp: staged_def)
    with inv_receipt [OF p r] obtain recs where o: "applied_of m (pv_events p) = [(mp_operations q, recs)]" "logs_ok (pv_events p) m r recs"
      "emitted_of m (pv_events p) = mp_operations q" "\<not> ir_metricAck r"
      by (auto simp: receipt_ok_def metrics_ok_def)
    have "covered ?evs m cid (mp_operations q)"
      unfolding covered_def
      by (intro conjI exI [of _ l1] exI [of _ "[Covers cid ms parts]"] exI [of _ data] exI [of _ ms] exI [of _ parts] exI [of _ batch])
        (use evs o(3) m fr in auto)
    with o q False show ?thesis by (auto simp: receipt_ok_def metrics_ok_def logs_ok_def cover_receipt_def)
  qed (simp add: receipt_ok_def cover_receipt_def)
  then have "heap_ok ?evs (pv_workSequence p) h"
    using i unfolding heap_ok_def h_def by (auto intro: receipt_ok_append split: if_splits)
  moreover have "groups_ok h (pv_groupHeap p)"
    using i unfolding groups_ok_def h_def by (fastforce simp: cover_receipt_def)
  moreover have "coll_ok ?evs h (pv_collections p @ [c])"
    unfolding coll_ok_def
  proof (intro ballI)
    fix d assume "d \<in> set (pv_collections p @ [c])"
    then consider (old) "d \<in> set (pv_collections p)" | (new) "d = c" by auto
    then show "Covers (mc_id d) (mc_members d) (map fst (mc_parts d)) \<in> set ?evs \<and>
      (\<forall>k < length (mc_parts d). snd (mc_parts d ! k) \<longrightarrow> PartExported (mc_id d) k True \<in> set ?evs) \<and>
      (\<forall>m \<in> set (mc_members d). \<exists>r. h m = Some r \<and> member_of (mc_id d) r)"
    proof cases
      case old
      have "\<exists>r. h m = Some r \<and> member_of (mc_id d) r" if "m \<in> set (mc_members d)" for m
      proof -
        from i old that obtain r where r: "pv_heap p m = Some r" "member_of (mc_id d) r" unfolding coll_ok_def by blast
        show ?thesis
        proof (cases "m \<in> set ms")
          case True
          from st [OF True] r have "ir_phase r = Poisoned" by (auto simp: staged_def member_of_def)
          with r True show ?thesis by (simp add: h_def cover_receipt_def)
        qed (use r in \<open>simp add: h_def\<close>)
      qed
      with i old show ?thesis by (auto simp: coll_ok_def)
    next
      case new
      have "\<exists>r. h m = Some r \<and> member_of cid r" if "m \<in> set ms" for m
      proof -
        from st [OF that] obtain r where r: "pv_heap p m = Some r" "staged True r" by blast
        then have "member_of cid (cover_receipt cid r)" by (auto simp: cover_receipt_def member_of_def staged_def)
        with r that show ?thesis by (simp add: h_def)
      qed
      with new show ?thesis by (auto simp: c_def comp_def)
    qed
  qed
  moreover have "logging_ok h (pv_logging p)"
    using i unfolding logging_ok_alt h_def by (fastforce simp: logged_def cover_receipt_def)
  moreover have "ids_ok ?evs (pv_slot p) (pv_terminalAttempted p) SlotIdle"
    using i pc by (auto simp: ids_ok_def)
  moreover have "export_ok (pv_exportPc p) (pv_collections p @ [c])" using i by (auto simp: export_ok_def)
  ultimately show ?thesis
    unfolding retain_collection_def Let_def ms_def [symmetric] fold_cover h_def [symmetric] c_def [symmetric]
    by (cases "case pv_stage p of None \<Rightarrow> None | Some s \<Rightarrow> ps_group s")
      (simp_all add: inv_def removeGroupLocked_def note_event_def)
qed

lemma inv_collect_finish:
  assumes p: "inv p" and pc: "pv_slotPc p = SlotReady cid"
  shows "inv (collect_finish data cid p)"
proof (cases data)
  case None
  have "inv (note_event (Collected cid None) p)" using p by (intro inv_event) auto
  moreover have "pv_slotPc (note_event (Collected cid None) p) = SlotReady cid" using pc by (simp add: note_event_def)
  ultimately show ?thesis using None inv_collectFailure by (simp add: collect_finish_def)
next
  case (Some d)
  define p0 where "p0 = note_event (Collected cid (Some d)) p"
  have p0: "inv p0" "pv_slotPc p0 = SlotReady cid" "pv_events p0 = pv_events p @ [Collected cid (Some d)]"
    using p pc by (auto simp: p0_def note_event_def intro!: inv_event [unfolded note_event_def])
  define p1 where "p1 = (upd_stats (\<lambda>s. s\<lparr>SnapshotsCollected := SnapshotsCollected s + 1\<rparr>) p0)\<lparr>pv_collectFailing := False\<rparr>"
  have i1: "inv p1" unfolding p1_def inv_stats by (rule p0(1))
  have f1: "pv_slotPc p1 = pv_slotPc p0" "pv_events p1 = pv_events p0" "pv_stage p1 = pv_stage p0" unfolding p1_def upd_stats_def by simp_all
  note p1 = i1 trans [OF f1(1) p0(2)] trans [OF f1(2) p0(3)] f1(3)
  define credit where "credit = ((case pv_stage p0 of None \<Rightarrow> False | Some s \<Rightarrow> ps_group s \<noteq> None) \<or>
    (case pv_stage p0 of None \<Rightarrow> False | Some s \<Rightarrow> ps_ordinaryCredit s))"
  obtain retain p2 where c: "(if credit then (True, p1) else makeCreditLocked p1) = (retain, p2)" by fastforce
  have "inv p2 \<and> pv_slotPc p2 = pv_slotPc p1 \<and> pv_events p2 = pv_events p1 \<and> pv_stage p2 = pv_stage p1"
  proof (cases credit)
    case True
    with c i1 show ?thesis by simp
  next
    case False
    with c have c': "makeCreditLocked p1 = (retain, p2)" by simp
    from inv_credit [OF i1 c'] credit_frame [OF c'] show ?thesis by blast
  qed
  with p1 have p2: "inv p2" "pv_slotPc p2 = SlotReady cid" "pv_events p2 = pv_events p @ [Collected cid (Some d)]" "pv_stage p2 = pv_stage p0"
    by metis+
  let ?ms = "case pv_stage p0 of None \<Rightarrow> [] | Some s \<Rightarrow> ps_members s"
  have bad: "inv ((collectFailure (poison_all ?ms (p2\<lparr>pv_failed := True\<rparr>)))\<lparr>pv_slotPc := SlotIdle\<rparr>)"
  proof (rule inv_collectFailure)
    show "inv (poison_all ?ms (p2\<lparr>pv_failed := True\<rparr>))" using p2(1) by (intro inv_poison_all) simp
    show "pv_slotPc (poison_all ?ms (p2\<lparr>pv_failed := True\<rparr>)) \<noteq> SlotStaged x" for x
      using poison_frame [of "p2\<lparr>pv_failed := True\<rparr>" ?ms] p2(2) by (simp add: same_but_members_def)
  qed
  have full: "inv ((upd_stats g (p2\<lparr>pv_stage := None\<rparr>))\<lparr>pv_slotPc := SlotIdle\<rparr>)" for g
    using p2(1) by (simp add: inv_def upd_stats_def ids_ok_def)
  have good: "inv ((retain_collection cid (pv_stage p0) parts p2)\<lparr>pv_slotPc := SlotIdle\<rparr>)"
    if "freezeMetricParts d (pv_batchSize p2) = Some (Some parts)" for parts
    using inv_retain [OF p2(1,2,3) that] p2(4) by simp
  have "collect_success d cid p0 = (if retain
      then case freezeMetricParts d (pv_batchSize p2) of
             Some (Some parts) \<Rightarrow> retain_collection cid (pv_stage p0) parts p2
           | _ \<Rightarrow> collectFailure (poison_all ?ms (p2\<lparr>pv_failed := True\<rparr>))
      else upd_stats (\<lambda>s. s\<lparr>BestEffortDiscardedFull := BestEffortDiscardedFull s + 1\<rparr>) (p2\<lparr>pv_stage := None\<rparr>))"
    unfolding collect_success_def Let_def p1_def [symmetric] credit_def [symmetric] c by simp
  with bad full good Some show ?thesis
    by (auto simp: collect_finish_def Let_def p0_def [symmetric] split: option.splits)
qed

section \<open>Exports\<close>

lemma inv_export_begin:
  assumes p: "inv p" and "pv_collections p \<noteq> []"
  shows "inv (export_begin p)"
proof -
  from assms(2) obtain c cs where c: "pv_collections p = c # cs" by (cases "pv_collections p") auto
  have "coll_ok (pv_events p) (pv_heap p) (c\<lparr>mc_inFlight := True\<rparr> # cs)" using p c by (auto simp: inv_def coll_ok_def)
  with p c show ?thesis by (simp add: inv_def export_begin_def upd_head_def export_ok_def)
qed

lemma next_part_spec: "next_part ps = Some i \<Longrightarrow> i < length ps \<and> \<not> snd (ps ! i)"
  by (induction ps arbitrary: i rule: next_part.induct) (auto split: if_splits)

lemma next_part_None: "next_part ps = None \<Longrightarrow> k < length ps \<Longrightarrow> snd (ps ! k)"
  by (induction ps arbitrary: k rule: next_part.induct) (auto split: if_splits simp: nth_Cons')

lemma inv_export_part:
  assumes p: "inv p" and "pv_exportPc p = ExportRunning"
  shows "inv (export_part raw p)"
proof (cases "pv_collections p")
  case Nil
  with p show ?thesis by (simp add: export_part_def)
next
  case (Cons c cs)
  show ?thesis
  proof (cases "next_part (mc_parts c)")
    case None
    with p Cons show ?thesis by (simp add: export_part_def)
  next
    case (Some i)
    let ?ack = "er_ack (classifyExportResult raw ''metrics'')"
    define p1 where "p1 = note_event (PartExported (mc_id c) i ?ack) p"
    have p1: "inv p1" using p by (auto simp: p1_def intro!: inv_event)
    have fields: "mc_id (part_result raw i c) = mc_id c" "mc_members (part_result raw i c) = mc_members c"
      "mc_inFlight (part_result raw i c) = mc_inFlight c" "map fst (mc_parts (part_result raw i c)) = map fst (mc_parts c)"
      using next_part_spec [OF Some] list_update_id [of "map fst (mc_parts c)" i] by (auto simp: part_result_def map_update)
    have acked: "PartExported (mc_id c) k True \<in> set (pv_events p1)"
      if "k < length (mc_parts (part_result raw i c))" "snd (mc_parts (part_result raw i c) ! k)" for k
    proof (cases "?ack \<and> k = i")
      case True
      then show ?thesis by (simp add: p1_def note_event_def)
    next
      case False
      with that have "k < length (mc_parts c)" "snd (mc_parts c ! k)" by (auto simp: part_result_def split: if_splits)
      with p Cons have "PartExported (mc_id c) k True \<in> set (pv_events p)" by (simp add: inv_def coll_ok_def)
      then show ?thesis by (simp add: p1_def note_event_def)
    qed
    have "coll_ok (pv_events p1) (pv_heap p1) (part_result raw i c # cs)"
    proof -
      from p1 Cons have "coll_ok (pv_events p1) (pv_heap p1) (c # cs)" by (simp add: inv_def p1_def note_event_def)
      with acked fields show ?thesis by (simp add: coll_ok_def)
    qed
    moreover have "export_ok (if ?ack then ExportRunning else ExportRefused) (part_result raw i c # cs)"
      using p assms(2) Cons fields by (auto simp: inv_def export_ok_def)
    ultimately show ?thesis using p1 Cons Some
      by (simp add: export_part_def Let_def upd_head_def p1_def note_event_def inv_def)
  qed
qed

definition ack_receipt :: "IngressReceipt \<Rightarrow> IngressReceipt" where
  "ack_receipt r = (if ir_phase r = Poisoned then r else settle (r\<lparr>ir_metricAck := True\<rparr>))"

lemma settle_fields [simp]:
  "ir_metricsExcluded (settle r) = ir_metricsExcluded r" "ir_logsExcluded (settle r) = ir_logsExcluded r" "ir_program (settle r) = ir_program r"
  "ir_firstCoverID (settle r) = ir_firstCoverID r" "ir_logOffset (settle r) = ir_logOffset r" "ir_records (settle r) = ir_records r"
  "ir_logAck (settle r) = ir_logAck r" "ir_metricAck (settle r) = ir_metricAck r"
  by (simp_all add: settle_def)

lemma settle_phase_eq: "ir_phase (settle r) = (if eligibleLocked r then Delivered else ir_phase r)"
  by (simp add: settle_def)

lemma inv_ack_metrics:
  assumes p: "inv p" and m: "\<And>r. pv_heap p m = Some r \<Longrightarrow> member_of cid r" and res: "resolved (pv_events p) m cid"
  shows "inv (ack_metrics m p)"
proof (cases "pv_heap p m")
  case None
  with p show ?thesis by (simp add: ack_metrics_def inv_absent)
next
  case (Some r)
  note ok = inv_receipt [OF p Some]
  have "receipt_ok (pv_events p) m (ack_receipt r)"
    using ok m [OF Some] res
    by (auto simp: receipt_ok_def member_of_def ack_receipt_def metrics_ok_def logs_ok_def settle_def eligibleLocked_def)
  moreover have "ack_metrics m p = upd_receipt m ack_receipt p" by (simp add: ack_metrics_def ack_receipt_def [abs_def])
  moreover have "staged b r \<Longrightarrow> staged b (ack_receipt r)" "member_of c r \<Longrightarrow> member_of c (ack_receipt r)"
    "logged off en r \<Longrightarrow> logged off en (ack_receipt r)" "ir_metricsExcluded (ack_receipt r) = ir_metricsExcluded r" for b c off en
    using m [OF Some] by (auto simp: ack_receipt_def staged_def member_of_def logged_def settle_phase_eq split: if_splits)
  ultimately show ?thesis using p Some by (simp add: inv_change [where r = r])
qed

lemma ack_metrics_frame:
  "pv_events (ack_metrics m p) = pv_events p" "pv_collections (ack_metrics m p) = pv_collections p" "pv_exportPc (ack_metrics m p) = pv_exportPc p"
  "pv_heap (ack_metrics m p) = (pv_heap p)(m := map_option ack_receipt (pv_heap p m))"
  by (simp_all add: ack_metrics_def upd_receipt_def ack_receipt_def [abs_def])

lemma member_of_ack: "member_of cid r \<Longrightarrow> member_of cid (ack_receipt r)"
  by (auto simp: member_of_def ack_receipt_def settle_phase_eq)

lemma inv_ack_all:
  assumes "inv p" "\<forall>m \<in> set ms. \<forall>r. pv_heap p m = Some r \<longrightarrow> member_of cid r" "\<forall>m \<in> set ms. resolved (pv_events p) m cid"
  shows "inv (fold ack_metrics ms p) \<and> pv_exportPc (fold ack_metrics ms p) = pv_exportPc p \<and>
    pv_collections (fold ack_metrics ms p) = pv_collections p"
  using assms
proof (induction ms arbitrary: p)
  case (Cons m ms)
  have "inv (ack_metrics m p)" using Cons.prems by (intro inv_ack_metrics [where cid = cid]) auto
  moreover have "\<forall>k \<in> set ms. \<forall>r. pv_heap (ack_metrics m p) k = Some r \<longrightarrow> member_of cid r"
    using Cons.prems(2) by (auto simp: ack_metrics_frame member_of_ack)
  moreover have "\<forall>k \<in> set ms. resolved (pv_events (ack_metrics m p)) k cid" using Cons.prems(3) by (simp add: ack_metrics_frame)
  ultimately show ?case using Cons.IH [of "ack_metrics m p"] by (simp add: ack_metrics_frame)
qed simp

lemma inv_exportIdle: "inv p \<Longrightarrow> inv (p\<lparr>pv_exportPc := ExportIdle\<rparr>)"
  by (simp add: inv_def export_ok_def)

lemma inv_export_end:
  assumes p: "inv p" and pc: "pv_exportPc p = ExportRefused \<or>
    pv_exportPc p = ExportRunning \<and> next_part (mc_parts (hd (pv_collections p))) = None"
  shows "inv (export_end p)"
proof (cases "pv_collections p")
  case Nil
  with p show ?thesis by (simp add: export_end_def)
next
  case (Cons c cs)
  define ack where "ack = (pv_exportPc p \<noteq> ExportRefused)"
  define dropped where "dropped = (\<not> ack \<and> pv_maxPermanentRejections p \<le> mc_permanentRejections c)"
  define p0 where "p0 = p\<lparr>pv_exportPc := ExportIdle\<rparr>"
  have p0: "inv p0" "pv_collections p0 = c # cs" "pv_exportPc p0 = ExportIdle" "pv_heap p0 = pv_heap p" "pv_events p0 = pv_events p"
    using p Cons inv_exportIdle by (simp_all add: p0_def)
  from p Cons have c: "Covers (mc_id c) (mc_members c) (map fst (mc_parts c)) \<in> set (pv_events p)"
    "\<forall>k < length (mc_parts c). snd (mc_parts c ! k) \<longrightarrow> PartExported (mc_id c) k True \<in> set (pv_events p)"
    "\<forall>m \<in> set (mc_members c). \<forall>r. pv_heap p m = Some r \<longrightarrow> member_of (mc_id c) r"
    by (auto simp: inv_def coll_ok_def)
  have sub: "inv (q\<lparr>pv_collections := cs\<rparr>)" if "inv q" "pv_collections q = c # cs" "pv_exportPc q = ExportIdle" for q
    using that by (intro inv_collections) (auto simp: export_ok_def)
  show ?thesis
  proof (cases "ack \<or> dropped")
    case False
    have "coll_ok (pv_events p0) (pv_heap p0) (c\<lparr>mc_inFlight := False, mc_failedAttempts := mc_failedAttempts c + 1\<rparr> # cs)"
      using p0 by (simp add: inv_def coll_ok_def)
    then have "inv (p0\<lparr>pv_collections := c\<lparr>mc_inFlight := False, mc_failedAttempts := mc_failedAttempts c + 1\<rparr> # cs\<rparr>)"
      using p0 by (simp add: inv_def export_ok_def)
    moreover have "export_end p = p0\<lparr>pv_collections := c\<lparr>mc_inFlight := False, mc_failedAttempts := mc_failedAttempts c + 1\<rparr> # cs\<rparr>"
      unfolding export_end_def Let_def Cons list.case ack_def [symmetric] dropped_def [symmetric] p0_def [symmetric] using False by simp
    ultimately show ?thesis by simp
  next
    case True
    define p1 where "p1 = (if dropped then note_event (CollectionDropped (mc_id c))
      (upd_stats (\<lambda>s. s\<lparr>PermanentMetricsDropped := PermanentMetricsDropped s + 1\<rparr>) p0) else p0)"
    have i1: "inv p1" using p0(1) by (auto simp: p1_def intro!: inv_event)
    have f1: "pv_collections p1 = c # cs" "pv_exportPc p1 = ExportIdle" "pv_heap p1 = pv_heap p" "set (pv_events p) \<subseteq> set (pv_events p1)"
      "dropped \<longrightarrow> CollectionDropped (mc_id c) \<in> set (pv_events p1)"
      using p0 by (auto simp: p1_def note_event_def upd_stats_def)
    have all: "PartExported (mc_id c) k True \<in> set (pv_events p)" if "ack" "k < length (mc_parts c)" for k
      using that c(2) pc Cons next_part_None [of "mc_parts c" k] by (auto simp: ack_def)
    have "resolved (pv_events p1) m (mc_id c)" if "m \<in> set (mc_members c)" for m
      unfolding resolved_def
      by (intro exI [of _ "mc_members c"] exI [of _ "map fst (mc_parts c)"]) (use that True f1 c(1) all in auto)
    with i1 c(3) f1(3) have i2: "inv (fold ack_metrics (mc_members c) p1) \<and> pv_exportPc (fold ack_metrics (mc_members c) p1) = pv_exportPc p1 \<and>
        pv_collections (fold ack_metrics (mc_members c) p1) = pv_collections p1"
      by (intro inv_ack_all) auto
    define p2 where "p2 = (fold ack_metrics (mc_members c) p1)\<lparr>pv_collections := cs\<rparr>"
    have "inv p2" unfolding p2_def using i2 f1 by (intro sub) auto
    moreover have "export_end p = (if mc_required c \<and> \<not> dropped
        then upd_stats (\<lambda>s. s\<lparr>RequiredSnapshotsAcknowledged := RequiredSnapshotsAcknowledged s + 1\<rparr>) p2 else p2)"
      unfolding export_end_def Let_def Cons list.case ack_def [symmetric] dropped_def [symmetric] p0_def [symmetric] p1_def [symmetric] p2_def [symmetric]
      using True by simp
    ultimately show ?thesis by simp
  qed
qed

lemma inv_logs_begin: "inv p \<Longrightarrow> inv (logs_begin p)"
proof (cases "filter (log_ready p) (pv_receipts p)")
  case Nil
  then show "inv p \<Longrightarrow> ?thesis" by (simp add: logs_begin_def)
next
  case (Cons a as)
  assume p: "inv p"
  let ?i = "Min (set (a # as))"
  have "?i \<in> set (filter (log_ready p) (pv_receipts p))" unfolding Cons by (intro Min_in) auto
  then have "log_ready p ?i" by simp
  then obtain r where r: "pv_heap p ?i = Some r" "ir_phase r \<noteq> Reserved" "ir_phase r \<noteq> Building" "ir_phase r \<noteq> Poisoned"
    "\<not> ir_logAck r" "\<not> ir_logsExcluded r" by (auto simp: log_ready_def split: option.splits)
  with inv_receipt [OF p r(1)] have "ir_logOffset r \<le> length (ir_records r)"
    by (auto simp: receipt_ok_def logs_ok_def)
  moreover have "ir_phase r \<in> {Ready, Covered, Delivered}" using r by (cases "ir_phase r") auto
  ultimately have "logging_ok (pv_heap p) (Some (?i, ir_logOffset r, min (length (ir_records r)) (ir_logOffset r + pv_logBatchSize p)))"
    using r by (simp add: logging_ok_def)
  with p Cons r(1) show ?thesis by (simp add: logs_begin_def inv_def Let_def)
qed

end
