(* ===== verification/Ingress_Delivery_Safety.thy ===== *)
theory Ingress_Delivery_Safety
  imports Ingress_Delivery_Inv
begin

text \<open>
  What a provider promises of its receipts in every reachable state: a receipt reported eligible has had its
  whole work delivered, and what is retained stays within the two credits and the 64 receipts.
\<close>

section \<open>Log exports\<close>

lemma settled_logs:
  assumes "logs_ok evs i r recs" "\<not> ir_logsExcluded r" "\<not> ir_logAck r" "off = ir_logOffset r" "off \<le> en" "en \<le> length (ir_records r)"
    "logs_of i es = log_chunk r off en"
  shows "logs_ok (evs @ es) i (logs_settled off en r) recs"
proof -
  have l: "logs_of i evs = take off recs" "length (ir_records r) = length recs" "drop off (ir_records r) = drop off recs"
    using assms(1-4) by (auto simp: logs_ok_def)
  have "take off recs @ take (en - off) (drop off recs) = take en recs"
    using assms(5) by (metis le_add_diff_inverse take_add)
  then have t: "logs_of i (evs @ es) = take en recs" using l assms(7) by (simp add: log_chunk_def)
  have d: "drop en (ir_records r) = drop en recs" using l(3) assms(5) by (metis drop_drop le_add_diff_inverse2)
  show ?thesis using t d l(2) assms(2,3,5,6)
    by (auto simp: logs_ok_def logs_settled_def Let_def)
qed

lemma settled_frame:
  "ir_metricsExcluded (logs_settled off en r) = ir_metricsExcluded r" "ir_metricAck (logs_settled off en r) = ir_metricAck r"
  "ir_program (logs_settled off en r) = ir_program r" "ir_firstCoverID (logs_settled off en r) = ir_firstCoverID r"
  "ir_logsExcluded (logs_settled off en r) = ir_logsExcluded r"
  by (simp_all add: logs_settled_def Let_def)

lemma settled_phase:
  "ir_phase (logs_settled off en r) = ir_phase r \<or>
   ir_phase (logs_settled off en r) = Delivered \<and> ir_phase r \<in> {Ready, Covered, Delivered} \<and> (ir_metricsExcluded r \<or> ir_metricAck r)"
  by (cases "ir_phase r") (auto simp: logs_settled_def Let_def settle_phase_eq eligibleLocked_def)

lemma settled_metrics:
  assumes "metrics_ok evs i r ops" "emitted_of i es = []" "ir_phase r \<in> {Ready, Covered, Delivered}"
  shows "metrics_ok (evs @ es) i (logs_settled off en r) ops"
proof -
  have "metrics_ok (evs @ es) i r ops"
    using assms(1,2) covered_append [of evs i] resolved_append [of evs i] unfolding metrics_ok_def by auto
  then show ?thesis using settled_phase [of off en r] assms(3) unfolding metrics_ok_def settled_frame by auto
qed

lemma inv_logs_settled:
  assumes p: "inv p" and r: "pv_heap p i = Some r" and lg: "logged off en r" and free: "pv_logging p = None"
    and es: "\<And>j. j \<noteq> i \<Longrightarrow> list_all (silent j) es" "cover_ids es = []" "emitted_of i es = []" "applied_of i es = []"
      "logs_of i es = log_chunk r off en"
  shows "inv ((upd_receipt i (logs_settled off en) p)\<lparr>pv_events := pv_events p @ es\<rparr>)"
proof (rule inv_change_event [OF p r])
  note ok = inv_receipt [OF p r]
  note ph = settled_phase [of off en r]
  show "receipt_ok (pv_events p @ es) i (logs_settled off en r)"
  proof (cases "ir_phase r = Poisoned")
    case True
    with ph show ?thesis by (auto simp: receipt_ok_def)
  next
    case False
    with lg have l: "ir_phase r \<in> {Ready, Covered, Delivered}" "\<not> ir_logAck r" "\<not> ir_logsExcluded r" "off = ir_logOffset r"
      "off \<le> en" "en \<le> length (ir_records r)" by (simp_all add: logged_def)
    with ok obtain ops recs where a: "applied_of i (pv_events p) = [(ops, recs)]" "metrics_ok (pv_events p) i r ops"
      "logs_ok (pv_events p) i r recs" by (auto simp: receipt_ok_def)
    from settled_metrics [OF a(2) es(3) l(1)] settled_logs [OF a(3) l(3,2,4-6) es(5)] a(1) es(4) ph l(1)
    show ?thesis by (auto simp: receipt_ok_def)
  qed
  show "staged b (logs_settled off en r)" if "staged b r" for b
    using that ok ph by (auto simp: staged_def settled_frame receipt_ok_def metrics_ok_def)
  show "member_of cid (logs_settled off en r)" if "member_of cid r" for cid
    using that ph by (auto simp: member_of_def settled_frame)
qed (use free es in \<open>simp_all add: settled_frame\<close>)

lemma rejections_ok:
  "receipt_ok evs i (r\<lparr>ir_logPermanentRejections := n\<rparr>) = receipt_ok evs i r"
  unfolding receipt_ok_def untouched_def metrics_ok_def logs_ok_def by simp

lemma inv_logs_end: "inv p \<Longrightarrow> inv (logs_end err p)"
proof (cases "pv_logging p")
  case None
  then show "inv p \<Longrightarrow> ?thesis" by (simp add: logs_end_def)
next
  case (Some l)
  assume p: "inv p"
  obtain i off en where "l = (i, off, en)" by (rule prod_cases3)
  with Some have lg: "pv_logging p = Some (i, off, en)" by simp
  with p obtain r where r: "pv_heap p i = Some r" "logged off en r" by (auto simp: inv_def logging_ok_alt)
  define ack where "ack = er_ack (classifyExportResult err ''logs'')"
  define rejections where "rejections = (if \<not> ack \<and> permanentExportRejection err then ir_logPermanentRejections r + 1 else 0)"
  define dropped where "dropped = (\<not> ack \<and> pv_maxPermanentRejections p \<le> rejections)"
  define ch where "ch = log_chunk r off en"
  define p0 where "p0 = p\<lparr>pv_logging := None\<rparr>"
  have p0: "inv p0" "pv_heap p0 i = Some r" "pv_logging p0 = None" using p r by (simp_all add: p0_def inv_def logging_ok_def)
  let ?es = "LogsExported i ch ack # (if dropped then [LogsDropped i ch] else [])"
  show ?thesis
  proof (cases "ack \<or> dropped")
    case True
    have "inv ((upd_receipt i (logs_settled off en) p0)\<lparr>pv_events := pv_events p0 @ ?es\<rparr>)"
      by (rule inv_logs_settled [OF p0(1,2) r(2) p0(3)]) (use True in \<open>auto simp: ch_def dropped_def\<close>)
    moreover have "logs_end err p = upd_stats (\<lambda>s. if dropped then s\<lparr>PermanentLogBatchesDropped := PermanentLogBatchesDropped s + 1\<rparr> else s)
        ((upd_receipt i (logs_settled off en) p0)\<lparr>pv_events := pv_events p0 @ ?es, pv_logFailures := 0\<rparr>)"
      unfolding logs_end_def lg option.case prod.case r(1) Let_def ack_def [symmetric] rejections_def [symmetric] dropped_def [symmetric] ch_def [symmetric]
      using True by (simp add: p0_def note_event_def upd_stats_def upd_receipt_def)
    ultimately show ?thesis by simp
  next
    case False
    let ?f = "\<lambda>r. r\<lparr>ir_logPermanentRejections := rejections\<rparr>"
    have "inv (upd_receipt i ?f p0)"
      by (rule inv_change [OF p0(1,2)])
        (use inv_receipt [OF p0(1,2)] in \<open>simp_all add: rejections_ok staged_def member_of_def logged_def\<close>)
    then have "inv (note_event (LogsExported i ch ack) (upd_receipt i ?f p0))" using False by (intro inv_event) simp_all
    moreover have "logs_end err p = (note_event (LogsExported i ch ack) (upd_receipt i ?f p0))\<lparr>pv_logFailures := pv_logFailures p + 1\<rparr>"
      unfolding logs_end_def lg option.case prod.case r(1) Let_def ack_def [symmetric] rejections_def [symmetric] dropped_def [symmetric] ch_def [symmetric]
      using False by (simp add: p0_def note_event_def upd_receipt_def)
    ultimately show ?thesis by simp
  qed
qed

section \<open>Every step\<close>

lemma inv_admit:
  assumes p: "inv p" and a: "lifecycle_admit p = (b, p')"
  shows "inv p'" "b \<Longrightarrow> \<not> pv_terminalAttempted p \<and> pv_terminalAttempted p' \<and> pv_events p' = pv_events p \<and> pv_slotPc p' = pv_slotPc p"
proof -
  let ?p1 = "close_open_group (p\<lparr>pv_terminalAttempted := True\<rparr>)"
  have mono: "id_used sl t cid \<Longrightarrow> id_used sl True cid" for sl t cid by (auto simp: id_used_def split: if_splits)
  have "inv (p\<lparr>pv_terminalAttempted := True\<rparr>)"
    using p mono unfolding inv_def ids_ok_def by (auto simp: list_all_iff)
  then have i1: "inv ?p1" by (rule inv_close)
  have f1: "pv_terminalAttempted ?p1" "pv_events ?p1 = pv_events p" "pv_slotPc ?p1 = pv_slotPc p" by (simp_all add: close_frame)
  show "inv p'" "b \<Longrightarrow> \<not> pv_terminalAttempted p \<and> pv_terminalAttempted p' \<and> pv_events p' = pv_events p \<and> pv_slotPc p' = pv_slotPc p"
  proof -
    obtain ok q where m: "makeCreditLocked ?p1 = (ok, q)" by fastforce
    have q: "inv q" "pv_terminalAttempted q" "pv_events q = pv_events p" "pv_slotPc q = pv_slotPc p"
      using inv_credit [OF i1 m] credit_frame [OF m] f1 by simp_all
    show "inv p'" using p i1 q(1) a unfolding lifecycle_admit_def Let_def m prod.case by (auto split: if_splits)
    show "b \<Longrightarrow> \<not> pv_terminalAttempted p \<and> pv_terminalAttempted p' \<and> pv_events p' = pv_events p \<and> pv_slotPc p' = pv_slotPc p"
      using f1 q a unfolding lifecycle_admit_def Let_def m prod.case by (auto split: if_splits)
  qed
qed

lemma cover_id_used:
  assumes "inv p" "cid \<in> set (cover_ids (pv_events p))"
  shows "id_used (pv_slot p) (pv_terminalAttempted p) cid"
  using assms by (auto simp: inv_def ids_ok_def list_all_iff)

lemma inv_seal: "inv p \<Longrightarrow> inv (SealIngress p)"
  by (simp add: SealIngress_def inv_close)

lemma inv_lifecycle_seal: "inv p \<Longrightarrow> inv (lifecycle_seal p)"
  by (simp add: lifecycle_seal_def)

lemma inv_background: "background p p' \<Longrightarrow> inv p \<Longrightarrow> inv p'"
proof (induction rule: background.induct)
  case (slot p hasBefore)
  let ?q = "p\<lparr>pv_slot := Suc (pv_slot p)\<rparr>"
  have "id_used s t cid \<Longrightarrow> id_used (Suc s) t cid" for s t cid by (auto simp: id_used_def)
  with slot have "inv ?q" unfolding inv_def ids_ok_def by (auto simp: list_all_iff)
  moreover have "\<lparr>ci_slot = Suc (pv_slot p), ci_reason = 0\<rparr> \<notin> set (cover_ids (pv_events p))"
    using cover_id_used [OF slot(3)] by (force simp: id_used_def)
  ultimately show ?case using slot by (intro inv_collect_begin) (simp_all add: id_used_def)
next
  case (terminal_slot p p' reason hasBefore)
  note a = inv_admit [OF terminal_slot(4,2)]
  have "\<lparr>ci_slot = 1, ci_reason = reason\<rparr> \<notin> set (cover_ids (pv_events p))"
    using cover_id_used [OF terminal_slot(4)] a(2) terminal_slot(3) by (force simp: id_used_def)
  then show ?case using terminal_slot a by (intro inv_collect_begin) (auto simp: id_used_def)
qed (blast intro: inv_admit(1) inv_materialize inv_collect_finish inv_export_begin inv_export_part inv_export_end inv_logs_begin
  inv_logs_end inv_lifecycle_seal)+

lemma inv_step: "pstep p p' \<Longrightarrow> inv p \<Longrightarrow> inv p'"
  by (induction rule: pstep.induct) (blast intro: inv_reserve inv_release_unstarted inv_apply_begin inv_record_metric inv_OnEmit
    inv_apply_finish inv_seal inv_release inv_background)+

theorem reachable_inv: "reachable p \<Longrightarrow> inv p"
  by (induction rule: reachable.induct) (auto intro: inv_new inv_step)

section \<open>An eligible receipt is a delivered one\<close>

text \<open>The operations were emitted exactly once and in order, before the collection of a snapshot that covers the
  receipt; every part of that snapshot was acknowledged, or its loss after repeated permanent rejections recorded.\<close>

definition metrics_delivered :: "event list \<Rightarrow> nat \<Rightarrow> metricOperation list \<Rightarrow> bool" where
  "metrics_delivered evs i ops \<longleftrightarrow> emitted_of i evs = ops \<and>
     (\<exists>cid l1 l2 data ms parts batch. evs = l1 @ Collected cid (Some data) # l2 \<and> emitted_of i l1 = ops \<and>
        Covers cid ms parts \<in> set l2 \<and> i \<in> set ms \<and> freezeMetricParts data batch = Some (Some parts) \<and>
        (CollectionDropped cid \<in> set evs \<or> (\<forall>k < length parts. PartExported cid k True \<in> set evs)))"

lemma cover_unique:
  assumes "distinct (cover_ids evs)" "Covers cid ms parts \<in> set evs" "Covers cid ms' parts' \<in> set evs"
  shows "ms' = ms \<and> parts' = parts"
  using assms
proof (induction evs)
  case (Cons e es)
  have in_ids: "Covers cid m q \<in> set es \<Longrightarrow> cid \<in> set (cover_ids es)" for m q
    by (induction es) auto
  from Cons in_ids show ?case by (cases e) auto
qed simp

lemma covered_resolved:
  assumes "distinct (cover_ids evs)" "covered evs i cid ops" "resolved evs i cid"
  shows "metrics_delivered evs i ops"
proof -
  from assms(2) obtain l1 l2 data ms parts batch where c: "emitted_of i evs = ops" "evs = l1 @ Collected cid (Some data) # l2"
    "emitted_of i l1 = ops" "Covers cid ms parts \<in> set l2" "i \<in> set ms" "freezeMetricParts data batch = Some (Some parts)"
    unfolding covered_def by blast
  from assms(3) obtain ms' parts' where r: "Covers cid ms' parts' \<in> set evs"
    "CollectionDropped cid \<in> set evs \<or> (\<forall>k < length parts'. PartExported cid k True \<in> set evs)" unfolding resolved_def by blast
  have "parts' = parts" using cover_unique [OF assms(1) _ r(1)] c(2,4) by auto
  with r(2) have "CollectionDropped cid \<in> set evs \<or> (\<forall>k < length parts. PartExported cid k True \<in> set evs)" by simp
  with c show ?thesis unfolding metrics_delivered_def by blast
qed

lemma eligible_work_delivered:
  assumes "reachable p" "pv_heap p i = Some r" "Eligible i p"
  shows "\<exists>ops recs. applied_of i (pv_events p) = [(ops, recs)] \<and>
    (ir_metricsExcluded r \<or> metrics_delivered (pv_events p) i ops) \<and> (ir_logsExcluded r \<or> logs_of i (pv_events p) = recs)"
proof -
  have p: "inv p" using assms(1) by (rule reachable_inv)
  from assms(2,3) have e: "eligibleLocked r" by (simp add: Eligible_def)
  then have "ir_phase r \<in> {Ready, Covered, Delivered}" by (cases "ir_phase r") (auto simp: eligibleLocked_def)
  with inv_receipt [OF p assms(2)] obtain ops recs where a: "applied_of i (pv_events p) = [(ops, recs)]"
    "metrics_ok (pv_events p) i r ops" "logs_ok (pv_events p) i r recs" by (auto simp: receipt_ok_def)
  have "ir_metricsExcluded r \<or> metrics_delivered (pv_events p) i ops"
    using a(2) e covered_resolved [of "pv_events p" i] p by (auto simp: metrics_ok_def eligibleLocked_def inv_def ids_ok_def)
  moreover have "ir_logsExcluded r \<or> logs_of i (pv_events p) = recs"
    using a(3) e by (auto simp: logs_ok_def eligibleLocked_def)
  ultimately show ?thesis using a(1) by blast
qed


text \<open>One piece of work from its reservation to its delivery: a counter, a log record, one scheduled collection,
  one metric export and one log export.\<close>

definition demo_bounds :: WorkBounds where
  "demo_bounds = \<lparr>wb_InputBytes = 10, wb_Logs = \<lparr>lb_Records = 1, lb_Bytes = 2000\<rparr>, wb_MetricOps = 1, wb_MetricBytes = 200\<rparr>"

definition demo_op :: metricOperation where
  "demo_op = \<lparr>mo_kind = 0, mo_name = ''c'', mo_unit = [], mo_description = [], mo_value = 1, mo_attrs = None, mo_bounds = [], mo_points = []\<rparr>"

definition demo_rec :: log_record where
  "demo_rec = \<lparr>lr_EventName = ''e'', lr_Body = [], lr_attrs = []\<rparr>"

definition demo_snapshot :: snapshot where
  "demo_snapshot = \<lparr>rm_Resource = [], rm_ScopeMetrics = [([], [\<lparr>me_id = ''c'', me_Data = SumFloat64, me_DataPoints = [''1'']\<rparr>])]\<rparr>"

definition demo_applied :: Provider where
  "demo_applied = snd (apply_finish 1 False (OnEmit 1 demo_rec (record_metric 1 demo_op
     (snd (apply_begin 1 demo_bounds True False (snd (ReserveIngress demo_bounds (newProvider False False 2 10 5))))))))"

definition demo_collected :: Provider where
  "demo_collected = collect_finish (Some demo_snapshot) \<lparr>ci_slot = 1, ci_reason = 0\<rparr>
     (collect_materialize False (\<lambda>_. None) \<lparr>ci_slot = 1, ci_reason = 0\<rparr>
       (collect_begin \<lparr>ci_slot = 1, ci_reason = 0\<rparr> True (demo_applied\<lparr>pv_slot := 1\<rparr>)))"

definition demo_delivered :: Provider where
  "demo_delivered = logs_end None (logs_begin (export_end (export_part None (export_begin demo_collected))))"

lemma demo_reachable: "reachable demo_delivered"
proof -
  note step = reachable.step and turn = reachable.step [OF _ pstep.goroutine]
  have "reachable demo_applied" unfolding demo_applied_def
    by (intro step [OF _ pstep.apply_ends] step [OF _ pstep.work_log] step [OF _ pstep.work_metric] step [OF _ pstep.apply_starts]
      step [OF _ pstep.reserve] reachable.start) code_simp+
  moreover have "pv_slot demo_applied = 0" "pv_slotPc demo_applied = SlotIdle" "\<not> pv_terminalAttempted demo_applied" by code_simp+
  ultimately have "reachable (collect_begin \<lparr>ci_slot = 1, ci_reason = 0\<rparr> True (demo_applied\<lparr>pv_slot := 1\<rparr>))"
    using turn [OF _ background.slot [of demo_applied True]] by simp
  then have "reachable demo_collected" unfolding demo_collected_def
    by (intro turn [OF _ background.collect] turn [OF _ background.materialize]) (assumption | code_simp)+
  then show ?thesis unfolding demo_delivered_def
    by (intro turn [OF _ background.logs_ends] turn [OF _ background.logs_starts] turn [OF _ background.export_ends] turn [OF _ background.export_one]
      turn [OF _ background.export_starts]) (assumption | code_simp)+
qed


section \<open>What is retained\<close>

text \<open>The fields that retention depends on.\<close>

definition view where
  "view p = (length (pv_collections p), pv_groups p, pv_receipts p, pv_groupHeap p, pv_nextGroup p, pv_stage p)"

definition stage_credit :: "producerStage option \<Rightarrow> nat" where
  "stage_credit st = (case st of None \<Rightarrow> 0 | Some s \<Rightarrow> if ps_ordinaryCredit s then 1 else 0)"

definition stage_holds :: "nat list \<Rightarrow> (nat \<Rightarrow> ingressGroup option) \<Rightarrow> producerStage option \<Rightarrow> bool" where
  "stage_holds gs gh st \<longleftrightarrow> (\<forall>s g. st = Some s \<and> ps_group s = Some g \<longrightarrow> g \<in> set gs \<and> \<not> ps_ordinaryCredit s \<and>
     ps_members s \<noteq> [] \<and> (\<exists>gr. gh g = Some gr \<and> ig_closed gr \<and> ig_members gr = ps_members s))"

definition retained :: "Provider \<Rightarrow> bool" where
  "retained p = (case view p of (n, gs, rs, gh, next, st) \<Rightarrow>
     n + length gs + stage_credit st \<le> 2 \<and> length rs \<le> 64 \<and> distinct gs \<and> (\<forall>g \<in> set gs. g < next) \<and>
     (\<forall>g. gh g \<noteq> None \<longrightarrow> g < next) \<and> stage_holds gs gh st)"

lemma credits_view: "creditsLocked p = length (pv_collections p) + length (pv_groups p) + stage_credit (pv_stage p)"
  by (simp add: creditsLocked_def stage_credit_def)

lemmas retained_def' = retained_def view_def prod.case

lemma view_simps [simp]:
  "view (upd_receipt i f p) = view p" "view (poison i p) = view p" "view (note_event ev p) = view p" "view (upd_stats g p) = view p"
  "view (p\<lparr>pv_events := evs\<rparr>) = view p" "view (p\<lparr>pv_failed := b\<rparr>) = view p" "view (p\<lparr>pv_collectFailing := b\<rparr>) = view p"
  "view (p\<lparr>pv_terminal := b\<rparr>) = view p" "view (p\<lparr>pv_terminalAttempted := b\<rparr>) = view p" "view (p\<lparr>pv_logFailures := n\<rparr>) = view p"
  "view (p\<lparr>pv_slotPc := pc\<rparr>) = view p" "view (p\<lparr>pv_exportPc := epc\<rparr>) = view p" "view (p\<lparr>pv_logging := lg\<rparr>) = view p"
  "view (p\<lparr>pv_slot := n\<rparr>) = view p" "view (p\<lparr>pv_openGroup := og\<rparr>) = view p" "view (upd_head h p) = view p"
  "view (cover cid m p) = view p" "view (ack_metrics m p) = view p" "view (p\<lparr>pv_workSequence := n\<rparr>) = view p" "view (p\<lparr>pv_heap := hp\<rparr>) = view p"
  by (simp_all add: view_def upd_receipt_def poison_def note_event_def upd_stats_def upd_head_def cover_def ack_metrics_def split: list.split)

lemma view_folds [simp]:
  "view (poison_all ms p) = view p" "view (fold (cover cid) ms p) = view p" "view (fold ack_metrics ms p) = view p"
  unfolding poison_all_def by (induction ms arbitrary: p) simp_all

lemma view_emit_members: "view (snd (emit_members panics ms p)) = view p"
proof (induction panics ms p rule: emit_members.induct)
  case (2 panics m ms p)
  show ?case
  proof (cases "pv_heap p m = None \<or> (\<exists>r. pv_heap p m = Some r \<and> ir_program r = None)")
    case True
    with 2 show ?thesis by auto
  next
    case False
    then obtain r q where "pv_heap p m = Some r" "ir_program r = Some q" by auto
    moreover obtain q' es err where "EmitOnce (panics m) q = (q', es, err)" by (rule prod_cases3)
    ultimately show ?thesis using 2(3) [of r q q' "(es, err)" es err] by (simp add: Let_def)
  qed
qed simp

lemma retained_view: "view q = view p \<Longrightarrow> retained q = retained p"
  by (simp add: retained_def)

lemma view_work:
  "view (snd (apply_begin i b a c p)) = view p" "view (record_metric i op p) = view p" "view (OnEmit i rec p) = view p"
  "view (snd (apply_finish i failed p)) = view p" "view (export_begin p) = view p" "view (export_part raw p) = view p"
  "view (logs_begin p) = view p" "view (logs_end err p) = view p" "view (lifecycle_seal p) = view p"
  by (simp_all add: apply_begin_def record_metric_def OnEmit_def apply_finish_def export_begin_def export_part_def logs_begin_def
      logs_end_def lifecycle_seal_def Let_def split: option.split prod.split list.split)

lemma evict_first_length: "evict_first cs = Some cs' \<Longrightarrow> length cs = Suc (length cs')"
  by (induction cs arbitrary: cs') (auto split: if_splits)

lemma retained_credit:
  assumes "retained p" "makeCreditLocked p = (ok, q)"
  shows "retained q" "ok \<Longrightarrow> creditsLocked q \<le> 1"
    "pv_groups q = pv_groups p" "pv_receipts q = pv_receipts p" "pv_nextGroup q = pv_nextGroup p" "pv_openGroup q = pv_openGroup p"
  using assms evict_first_length [of "pv_collections p"]
  by (auto simp: makeCreditLocked_def credits_view upd_stats_def retained_def' split: if_splits option.splits)

lemma retained_close: "retained p \<Longrightarrow> retained (close_open_group p)"
proof (cases "pv_openGroup p")
  case (Some g)
  assume p: "retained p"
  then have "stage_holds (pv_groups p) ((pv_groupHeap p)(g := map_option (\<lambda>gr. gr\<lparr>ig_closed := True\<rparr>) (pv_groupHeap p g))) (pv_stage p)"
    by (auto simp: retained_def' stage_holds_def)
  with p show ?thesis unfolding close_open_group_def Some
    by (auto simp: retained_def' upd_group_def split: if_splits)
qed (simp add: close_open_group_def)

lemma stage_holds_update:
  assumes "stage_holds gs gh st" "\<And>gr. gh g = Some gr \<Longrightarrow> ig_closed gr \<Longrightarrow> f gr = gr"
  shows "stage_holds gs (gh(g := map_option f (gh g))) st"
  using assms unfolding stage_holds_def by fastforce

lemma retained_reserve_group:
  assumes p: "retained p" and g: "reserve_group p = Some (grp, q)"
  shows "retained q \<and> pv_receipts q = pv_receipts p \<and> (\<forall>k. grp = Some k \<longrightarrow> group_open (Some k) q)"
proof (cases "pv_metricsExcluded p \<or> group_open (pv_openGroup p) p")
  case True
  with p g show ?thesis by (auto simp: reserve_group_def split: if_splits)
next
  case False
  obtain ok p1 where m: "makeCreditLocked p = (ok, p1)" by fastforce
  with False g have ok: "ok" by (auto simp: reserve_group_def split: if_splits)
  let ?g = "pv_nextGroup p1"
  let ?q = "p1\<lparr>pv_groupHeap := (pv_groupHeap p1)(?g \<mapsto> \<lparr>ig_members = [], ig_closed = False\<rparr>),
    pv_nextGroup := Suc ?g, pv_groups := pv_groups p1 @ [?g], pv_openGroup := Some ?g\<rparr>"
  have q: "q = ?q" "grp = Some ?g" using False g m ok by (auto simp: reserve_group_def Let_def)
  note r = retained_credit [OF p m]
  from r(1) have r1: "length (pv_receipts p1) \<le> 64" "distinct (pv_groups p1)" "\<forall>g \<in> set (pv_groups p1). g < ?g"
    "\<forall>g. pv_groupHeap p1 g \<noteq> None \<longrightarrow> g < ?g" "stage_holds (pv_groups p1) (pv_groupHeap p1) (pv_stage p1)"
    by (simp_all add: retained_def')
  have "stage_holds (pv_groups p1 @ [?g]) ((pv_groupHeap p1)(?g \<mapsto> \<lparr>ig_members = [], ig_closed = False\<rparr>)) (pv_stage p1)"
    using r1(3,5) unfolding stage_holds_def by fastforce
  moreover have "length (pv_collections p1) + length (pv_groups p1) + stage_credit (pv_stage p1) \<le> 1" using r(2) ok by (simp add: credits_view)
  ultimately have "retained ?q" using r1 by (auto simp: retained_def' less_Suc_eq)
  then show ?thesis unfolding q using r(4) by (simp add: group_open_def)
qed

lemma retained_reserve: "retained p \<Longrightarrow> retained (snd (ReserveIngress b p))"
proof -
  assume p: "retained p"
  consider "snd (ReserveIngress b p) = p" | grp q where "reserve_group p = Some (grp, q)" "length (pv_receipts p) < 64"
    "snd (ReserveIngress b p) = (let i = Suc (pv_workSequence q);
       q = q\<lparr>pv_workSequence := i, pv_heap := (pv_heap q)(i \<mapsto> new_receipt b grp q)\<rparr>;
       q = (case grp of None \<Rightarrow> q | Some g \<Rightarrow> upd_group g (\<lambda>gr. gr\<lparr>ig_members := ig_members gr @ [i]\<rparr>) q)
       in q\<lparr>pv_receipts := pv_receipts q @ [i]\<rparr>)"
    by (cases "reserve_group p") (fastforce simp: ReserveIngress_def Let_def split: if_splits)+
  then show ?thesis
  proof cases
    case 1
    with p show ?thesis by simp
  next
    case 2
    note g = retained_reserve_group [OF p 2(1)]
    show ?thesis
    proof (cases grp)
      case None
      with g 2(2,3) show ?thesis by (simp add: Let_def retained_def')
    next
      case (Some k)
      let ?f = "\<lambda>gr. gr\<lparr>ig_members := ig_members gr @ [Suc (pv_workSequence q)]\<rparr>"
      from g Some have "group_open (Some k) q" by simp
      then have "stage_holds (pv_groups q) ((pv_groupHeap q)(k := map_option ?f (pv_groupHeap q k))) (pv_stage q)"
        using g by (intro stage_holds_update) (auto simp: retained_def' group_open_def)
      with g 2(2,3) Some show ?thesis by (auto simp: Let_def retained_def' upd_group_def)
    qed
  qed
qed

lemma retained_release_unstarted:
  assumes i: "inv p" and p: "retained p"
  shows "retained (snd (ReleaseUnstarted i p))"
proof (cases "snd (ReleaseUnstarted i p) = p")
  case True
  with p show ?thesis by simp
next
  case False
  then obtain r where r: "pv_heap p i = Some r" "i \<in> set (pv_receipts p)" "ir_phase r = Reserved"
    by (auto simp: ReleaseUnstarted_def split: option.splits if_splits)
  let ?p1 = "p\<lparr>pv_receipts := remove1 i (pv_receipts p)\<rparr>"
  have p1: "retained ?p1" using p r(2) by (auto simp: retained_def' length_remove1)
  show ?thesis
  proof (cases "ir_group r")
    case None
    with p1 r show ?thesis by (simp add: ReleaseUnstarted_def)
  next
    case (Some g)
    let ?f = "\<lambda>gr. gr\<lparr>ig_members := remove1 i (ig_members gr)\<rparr>"
    let ?p2 = "upd_group g ?f ?p1"
    have out: "i \<notin> set (ps_members s)" if "pv_stage p = Some s" for s
      using i that r(1,3) by (fastforce simp: inv_def stage_ok_def staged_def)
    have held: "gr\<lparr>ig_members := remove1 i (ig_members gr)\<rparr> = gr" if "pv_stage p = Some s" "ps_group s = Some g" "pv_groupHeap p g = Some gr" for s gr
      using p that out [OF that(1)] by (auto simp: retained_def' stage_holds_def remove1_idem)
    have "stage_holds (pv_groups p) ((pv_groupHeap p)(g := map_option ?f (pv_groupHeap p g))) (pv_stage p)"
    proof (cases "\<exists>s gr. pv_stage p = Some s \<and> ps_group s = Some g \<and> pv_groupHeap p g = Some gr")
      case True
      then have "map_option ?f (pv_groupHeap p g) = pv_groupHeap p g" using held by auto
      with p show ?thesis by (simp add: retained_def' fun_upd_idem)
    next
      case False
      with p show ?thesis by (auto simp: retained_def' stage_holds_def)
    qed
    with p1 have p2: "retained ?p2" by (auto simp: retained_def' upd_group_def split: if_splits)
    have "retained (removeGroupLocked g ?p2)" if e: "map_option ig_members (pv_groupHeap ?p2 g) = Some []"
    proof -
      have "ps_group s \<noteq> Some g" if st: "pv_stage p = Some s" for s
      proof
        assume sg: "ps_group s = Some g"
        from p st sg obtain gr where "pv_groupHeap p g = Some gr" "ig_members gr = ps_members s" "ps_members s \<noteq> []"
          by (auto simp: retained_def' stage_holds_def)
        with held [OF st sg] e show False by (simp add: upd_group_def)
      qed
      with p2 have "stage_holds (remove1 g (pv_groups ?p2)) (pv_groupHeap ?p2) (pv_stage ?p2)"
        by (auto simp: retained_def' stage_holds_def upd_group_def)
      with p2 show ?thesis
        by (auto simp: retained_def' removeGroupLocked_def length_remove1 dest: notin_set_remove1)
    qed
    with p2 r Some show ?thesis by (simp add: ReleaseUnstarted_def Let_def)
  qed
qed

lemma retained_stage:
  assumes "retained p" "stage_credit st \<le> stage_credit (pv_stage p)" "stage_holds (pv_groups p) (pv_groupHeap p) st"
  shows "retained (p\<lparr>pv_stage := st\<rparr>)"
  using assms by (auto simp: retained_def')

lemma retained_collect_begin:
  assumes p: "retained p"
  shows "retained (collect_begin cid hasBefore p)"
proof (cases "pv_stage p")
  case (Some s)
  have "view (collect_begin cid hasBefore p) = view p" using Some by (simp add: collect_begin_def Let_def upd_stats_def view_def)
  with p retained_view show ?thesis by blast
next
  case None
  define p1 where "p1 = upd_stats (\<lambda>s. if ci_reason cid = 0 then s\<lparr>ScheduledAttempts := ScheduledAttempts s + 1\<rparr>
     else s\<lparr>TerminalAttempts := TerminalAttempts s + 1\<rparr>) p"
  have p1: "retained p1" "pv_stage p1 = None" using p None retained_view [of p1 p] by (simp_all add: p1_def) (simp add: upd_stats_def)
  define p2 where "p2 = close_open_group p1"
  have p2: "retained p2" "pv_stage p2 = None" using p1 retained_close by (simp_all add: p2_def close_frame)
  define s where "s = \<lparr>ps_fence = 0, ps_members = [], ps_ordinary = hasBefore, ps_group = None, ps_materialized = False, ps_ordinaryCredit = False\<rparr>"
  define s2 where "s2 = (case find (groupReady p2) (pv_groups p2) of None \<Rightarrow> s | Some g \<Rightarrow> stage_group g p2 s)"
  have "stage_holds (pv_groups p2) (pv_groupHeap p2) (Some s2)"
  proof (cases "find (groupReady p2) (pv_groups p2)")
    case None
    then show ?thesis by (simp add: s2_def s_def stage_holds_def)
  next
    case (Some g)
    then have "g \<in> set (pv_groups p2)" "groupReady p2 g" by (auto simp: find_Some_iff)
    then show ?thesis using Some
      by (auto simp: s2_def s_def stage_group_def stage_holds_def groupReady_def split: option.splits if_splits)
  qed
  moreover have "\<not> ps_ordinaryCredit s2" by (simp add: s2_def s_def stage_group_def split: option.split)
  ultimately have r2: "retained (p2\<lparr>pv_stage := Some s2\<rparr>)" using p2 by (intro retained_stage) (simp_all add: stage_credit_def)
  have "collect_begin cid hasBefore p =
      (if ps_ordinary s2 \<or> ps_group s2 \<noteq> None then p2\<lparr>pv_stage := Some s2\<rparr> else p2)\<lparr>pv_slotPc := SlotStaged cid\<rparr>"
    unfolding collect_begin_def Let_def p1_def [symmetric] p1(2) option.case p2_def [symmetric] s_def [symmetric] s2_def [symmetric] ..
  then have "view (collect_begin cid hasBefore p) = view (if ps_ordinary s2 \<or> ps_group s2 \<noteq> None then p2\<lparr>pv_stage := Some s2\<rparr> else p2)" by simp
  from retained_view [OF this] r2 p2(1) show ?thesis by (simp split: if_splits)
qed

lemma stage_holds_None [simp]: "stage_holds gs gh None" "stage_credit None = 0"
  by (simp_all add: stage_holds_def stage_credit_def)

lemma retained_no_stage: "retained p \<Longrightarrow> retained (p\<lparr>pv_stage := None\<rparr>)"
  by (rule retained_stage) simp_all

lemma retained_materialize: "retained p \<Longrightarrow> retained (collect_materialize fails panics cid p)"
proof (cases "pv_stage p")
  case None
  assume "retained p"
  moreover have "view (collect_materialize fails panics cid p) = view p" using None by (simp add: collect_materialize_def)
  ultimately show ?thesis using retained_view by blast
next
  case (Some s)
  assume p: "retained p"
  show ?thesis
  proof (cases "ps_materialized s")
    case True
    have "view (collect_materialize fails panics cid p) = view p" using Some True by (simp add: collect_materialize_def)
    with p retained_view show ?thesis by blast
  next
    case False
    obtain err q where e: "(if ps_ordinary s \<and> fails then (True, p) else emit_members panics (ps_members s) p) = (err, q)" by fastforce
    then have v: "view q = view p" using view_emit_members [of panics "ps_members s" p] by (auto split: if_splits)
    then have q: "retained q" "pv_stage q = Some s" using p retained_view [OF v] Some by (simp_all add: view_def)
    have "stage_holds (pv_groups q) (pv_groupHeap q) (Some (s\<lparr>ps_materialized := True\<rparr>))"
      using q by (auto simp: retained_def' stage_holds_def)
    then have ok: "retained (q\<lparr>pv_stage := Some (s\<lparr>ps_materialized := True\<rparr>)\<rparr>)"
      using q by (intro retained_stage) (simp_all add: stage_credit_def)
    have bad: "retained ((poison_all (ps_members s) q)\<lparr>pv_stage := None\<rparr>)"
      using retained_view [of "poison_all (ps_members s) q" q] q(1) by (intro retained_no_stage) simp
    have "view (collect_materialize fails panics cid p) =
        view (if err then (poison_all (ps_members s) q)\<lparr>pv_stage := None\<rparr> else q\<lparr>pv_stage := Some (s\<lparr>ps_materialized := True\<rparr>)\<rparr>)"
      using Some False e by (simp add: collect_materialize_def Let_def view_def)
    from retained_view [OF this] ok bad show ?thesis by (simp split: if_splits)
  qed
qed

lemma retained_failure: "retained p \<Longrightarrow> retained (collectFailure p)"
proof -
  assume p: "retained p"
  define p1 where "p1 = (upd_stats (\<lambda>s. s\<lparr>CollectFailures := CollectFailures s + 1\<rparr>) p)\<lparr>pv_collectFailing := True\<rparr>"
  have p1: "retained p1" using p retained_view [of p1 p] by (simp add: p1_def)
  show ?thesis
  proof (cases "\<exists>s. pv_stage p1 = Some s \<and> ps_group s = None \<and> \<not> ps_ordinaryCredit s")
    case False
    then have "collectFailure p = p1" unfolding collectFailure_def Let_def p1_def [symmetric] by (auto split: option.split)
    with p1 show ?thesis by simp
  next
    case True
    then obtain s where s: "pv_stage p1 = Some s" "ps_group s = None" "\<not> ps_ordinaryCredit s" by blast
    obtain ok q where m: "makeCreditLocked p1 = (ok, q)" by fastforce
    note r = retained_credit [OF p1 m]
    have q: "pv_stage q = Some s" using credit_frame [OF m] s by simp
    have "retained (q\<lparr>pv_stage := Some (s\<lparr>ps_ordinaryCredit := True\<rparr>)\<rparr>)" if ok
      using r(1,2) that s q by (auto simp: retained_def' credits_view stage_holds_def stage_credit_def)
    moreover have "retained (upd_stats g (q\<lparr>pv_stage := None\<rparr>))" for g
      using retained_view [of "upd_stats g (q\<lparr>pv_stage := None\<rparr>)" "q\<lparr>pv_stage := None\<rparr>"] retained_no_stage [OF r(1)] by simp
    moreover have "collectFailure p = (if ok then q\<lparr>pv_stage := Some (s\<lparr>ps_ordinaryCredit := True\<rparr>)\<rparr>
        else upd_stats (\<lambda>s. s\<lparr>BestEffortDiscardedFull := BestEffortDiscardedFull s + 1\<rparr>) (q\<lparr>pv_stage := None\<rparr>))"
      unfolding collectFailure_def Let_def p1_def [symmetric] using s m by simp
    ultimately show ?thesis by (simp split: if_splits)
  qed
qed

lemma retained_retain:
  assumes p: "retained p" and st: "pv_stage p = stage"
    and credit: "(\<exists>s. stage = Some s \<and> (ps_group s \<noteq> None \<or> ps_ordinaryCredit s)) \<or> creditsLocked p \<le> 1"
  shows "retained (retain_collection cid stage parts p)"
proof -
  let ?c = "length (pv_collections p)"
  define grp where "grp = (case stage of None \<Rightarrow> None | Some s \<Rightarrow> ps_group s)"
  have v: "view (retain_collection cid stage parts p) =
    (Suc ?c, (case grp of None \<Rightarrow> pv_groups p | Some g \<Rightarrow> remove1 g (pv_groups p)), pv_receipts p, pv_groupHeap p, pv_nextGroup p, None)"
  proof -
    have f: "view (fold (cover cid) ms p) = view p" for ms by simp
    show ?thesis unfolding retain_collection_def Let_def grp_def [symmetric]
      by (cases grp) (use f in \<open>simp_all add: view_def note_event_def removeGroupLocked_def\<close>)
  qed
  have b: "?c + length (pv_groups p) + stage_credit stage \<le> 2" "distinct (pv_groups p)" "stage_holds (pv_groups p) (pv_groupHeap p) stage"
    using p st by (simp_all add: retained_def')
  show ?thesis
  proof (cases grp)
    case (Some g)
    with b(3) have "g \<in> set (pv_groups p)" by (auto simp: grp_def stage_holds_def split: option.splits)
    then have "Suc (length (remove1 g (pv_groups p))) = length (pv_groups p)" by (auto simp: length_remove1 dest: length_pos_if_in_set)
    with b p Some show ?thesis unfolding retained_def v by (auto simp: view_def dest: notin_set_remove1)
  next
    case None
    then have "Suc ?c + length (pv_groups p) \<le> 2" using credit b(1) st by (auto simp: grp_def stage_credit_def credits_view)
    with b p None show ?thesis unfolding retained_def v by (simp add: view_def)
  qed
qed

lemma retained_collect_finish: "retained p \<Longrightarrow> retained (collect_finish data cid p)"
proof -
  assume p: "retained p"
  define p0 where "p0 = note_event (Collected cid data) p"
  have p0: "retained p0" using p retained_view [of p0 p] by (simp add: p0_def)
  have "retained (collect_success d cid p0)" for d
  proof -
    define p1 where "p1 = (upd_stats (\<lambda>s. s\<lparr>SnapshotsCollected := SnapshotsCollected s + 1\<rparr>) p0)\<lparr>pv_collectFailing := False\<rparr>"
    have p1: "retained p1" "pv_stage p1 = pv_stage p0" using p0 retained_view [of p1 p0] by (simp_all add: p1_def) (simp add: upd_stats_def)
    define credit where "credit = ((case pv_stage p0 of None \<Rightarrow> False | Some s \<Rightarrow> ps_group s \<noteq> None) \<or>
      (case pv_stage p0 of None \<Rightarrow> False | Some s \<Rightarrow> ps_ordinaryCredit s))"
    obtain keep q where c: "(if credit then (True, p1) else makeCreditLocked p1) = (keep, q)" by fastforce
    have q: "retained q \<and> pv_stage q = pv_stage p0 \<and> (keep \<longrightarrow> credit \<or> creditsLocked q \<le> 1)"
    proof (cases credit)
      case True
      with c p1 show ?thesis by simp
    next
      case False
      with c have m: "makeCreditLocked p1 = (keep, q)" by simp
      from retained_credit [OF p1(1) m] credit_frame [OF m] p1(2) show ?thesis by simp
    qed
    let ?ms = "case pv_stage p0 of None \<Rightarrow> [] | Some s \<Rightarrow> ps_members s"
    have "retained (poison_all ?ms (q\<lparr>pv_failed := True\<rparr>))" using q retained_view [of "poison_all ?ms (q\<lparr>pv_failed := True\<rparr>)" q] by simp
    then have bad: "retained (collectFailure (poison_all ?ms (q\<lparr>pv_failed := True\<rparr>)))" by (rule retained_failure)
    have full: "retained (upd_stats g (q\<lparr>pv_stage := None\<rparr>))" for g
      using retained_view [of "upd_stats g (q\<lparr>pv_stage := None\<rparr>)" "q\<lparr>pv_stage := None\<rparr>"] retained_no_stage q by simp
    have good: "retained (retain_collection cid (pv_stage p0) parts q)" if keep for parts
      using q that by (intro retained_retain) (auto simp: credit_def split: option.splits)
    have "collect_success d cid p0 = (if keep
        then case freezeMetricParts d (pv_batchSize q) of
               Some (Some parts) \<Rightarrow> retain_collection cid (pv_stage p0) parts q
             | _ \<Rightarrow> collectFailure (poison_all ?ms (q\<lparr>pv_failed := True\<rparr>))
        else upd_stats (\<lambda>s. s\<lparr>BestEffortDiscardedFull := BestEffortDiscardedFull s + 1\<rparr>) (q\<lparr>pv_stage := None\<rparr>))"
      unfolding collect_success_def Let_def p1_def [symmetric] credit_def [symmetric] c by simp
    with bad full good show ?thesis by (auto split: option.splits)
  qed
  then have r: "retained (case data of None \<Rightarrow> collectFailure p0 | Some d \<Rightarrow> collect_success d cid p0)"
    using retained_failure [OF p0] by (simp split: option.split)
  have "view (collect_finish data cid p) = view (case data of None \<Rightarrow> collectFailure p0 | Some d \<Rightarrow> collect_success d cid p0)"
    unfolding collect_finish_def Let_def p0_def [symmetric] by simp
  from retained_view [OF this] r show ?thesis by simp
qed

lemma retained_fewer:
  assumes "retained p" "view q = view (p\<lparr>pv_collections := cs\<rparr>)" "length cs \<le> length (pv_collections p)"
  shows "retained q"
  using assms unfolding retained_def assms(2) by (simp add: view_def)

lemma retained_export_end: "retained p \<Longrightarrow> retained (export_end p)"
proof (cases "pv_collections p")
  case Nil
  then show "retained p \<Longrightarrow> ?thesis" by (simp add: export_end_def)
next
  case (Cons c cs)
  assume p: "retained p"
  have f: "view ((fold ack_metrics ms q)\<lparr>pv_collections := cs\<rparr>) = view (p\<lparr>pv_collections := cs\<rparr>)" if "view q = view p" for ms q
  proof -
    have "view (fold ack_metrics ms q) = view p" using that by simp
    then show ?thesis by (simp add: view_def)
  qed
  have "view (export_end p) = view (p\<lparr>pv_collections := cs\<rparr>) \<or> view (export_end p) = view p"
    unfolding export_end_def Cons list.case Let_def using f by (simp add: Cons) (simp add: view_def Cons)
  then show ?thesis
  proof
    assume "view (export_end p) = view p"
    from retained_view [OF this] p show ?thesis by simp
  qed (use retained_fewer [OF p] Cons in auto)
qed

lemma retained_admit: "retained p \<Longrightarrow> lifecycle_admit p = (b, p') \<Longrightarrow> retained p'"
proof -
  assume p: "retained p" and a: "lifecycle_admit p = (b, p')"
  let ?p1 = "close_open_group (p\<lparr>pv_terminalAttempted := True\<rparr>)"
  have p1: "retained ?p1" using p retained_view [of "p\<lparr>pv_terminalAttempted := True\<rparr>" p] by (intro retained_close) simp
  obtain ok q where m: "makeCreditLocked ?p1 = (ok, q)" by fastforce
  have "retained q" using retained_credit [OF p1 m] by simp
  then have "retained (upd_stats g q)" for g using retained_view [of "upd_stats g q" q] by simp
  with p p1 \<open>retained q\<close> a show ?thesis unfolding lifecycle_admit_def Let_def m prod.case by (auto split: if_splits)
qed

lemma retained_background: "background p p' \<Longrightarrow> inv p \<Longrightarrow> retained p \<Longrightarrow> retained p'"
proof (induction rule: background.induct)
  case (slot p hasBefore)
  then have "retained (p\<lparr>pv_slot := Suc (pv_slot p)\<rparr>)" using retained_view [of "p\<lparr>pv_slot := Suc (pv_slot p)\<rparr>" p] by simp
  then show ?case by (rule retained_collect_begin)
qed (blast intro: retained_collect_begin retained_admit retained_materialize
  retained_collect_finish retained_export_end view_work [THEN retained_view, THEN iffD2])+

lemma retained_step: "pstep p p' \<Longrightarrow> inv p \<Longrightarrow> retained p \<Longrightarrow> retained p'"
proof (induction rule: pstep.induct)
  case (release p i)
  then show ?case by (auto simp: ReleaseIngress_def retained_def' length_remove1)
next
  case (seal p)
  then show ?case unfolding SealIngress_def by (intro retained_close)
qed (blast intro: retained_reserve retained_release_unstarted retained_background view_work [THEN retained_view, THEN iffD2])+

lemma retained_new: "retained (newProvider me le lb mb mr)"
  by (simp add: retained_def' newProvider_def)

lemma reachable_retained: "reachable p \<Longrightarrow> retained p"
  by (induction rule: reachable.induct) (auto intro: retained_new retained_step reachable_inv)

text \<open>
  C11. The provider's memory is bounded in every reachable state: retained snapshots, groups of admitted work and a
  kept ordinary stage together never exceed two credits, and never more than 64 receipts are in flight.
\<close>

theorem delivery_memory_bounded:
  assumes "reachable p"
  shows "creditsLocked p \<le> 2 \<and> length (pv_receipts p) \<le> 64 \<and> length (pv_collections p) \<le> 2"
  using reachable_retained [OF assms] by (simp add: retained_def' credits_view)

theorem delivery_memory_bounded_witness:
  "creditsLocked demo_delivered \<le> 2 \<and> length (pv_receipts demo_delivered) \<le> 64 \<and> length (pv_collections demo_delivered) \<le> 2"
  by (rule delivery_memory_bounded [OF demo_reachable])

end
