(* ===== verification/Ingress_Coordinator.thy ===== *)
theory Ingress_Coordinator
  imports Ingress_Wal_Live Ingress_Delivery_Safety
begin

text \<open>
  \<open>src/internal/app/ingresswal.go\<close>: the coordinator between the receivers, the write-ahead log and the delivery
  of the providers. It appends accepted bodies to the log, prepares bounded windows of it, turns every
  original into work, applies the work to the provider of its route and commits a generation only when the
  receipt of its work is eligible. The state holds the log of \<open>Ingress_Wal\<close> and the providers of
  \<open>Ingress_Delivery\<close>; between two calls of the coordinator the providers' own goroutines take steps and
  receivers append, both given by a script (\<open>interfere\<close>). Contexts end when the log's script says so.
\<close>

section \<open>State\<close>

datatype ingressWALState =
    StateDisabled | StateReplaying | StateReady | StateRetrying | StateFull | StateFailed | StateDraining | StateStopped

datatype coord_err =
    ErrIngressWALRoute | ErrIngressWALAppend | ErrIngressWALApply | ErrIngressWALFlush | ErrIngressWALReplay | ErrIngressWALClose
  | StorageErr wal_error

text \<open>A Go error here is the list of the errors joined in it; the empty list is nil.\<close>

type_synonym coord_error = "coord_err list"

datatype work_action = EmitMetric metricOperation | EmitLog log_record

text \<open>Work that can be applied emits the listed operations and records, then returns nil or an error.\<close>

record IngressWork =
  iw_Bounds :: WorkBounds
  iw_Apply :: "(work_action list \<times> bool) option"

record ingressWALRoute =
  rt_tailnet :: string
  rt_source :: string
  rt_signal :: string
  rt_prepare :: "(string \<Rightarrow> gotime \<Rightarrow> IngressWork option) option"
  rt_delivery :: "nat option"

type_synonym route_key = "string \<times> string \<times> string"

record ingressWALProgress =
  pg_entry :: PreparedEntry
  pg_work :: "IngressWork option"
  pg_receipt :: "nat option"
  pg_delivery :: "nat option"
  pg_order :: nat

record interference =
  if_steps :: "nat \<Rightarrow> Provider \<Rightarrow> Provider"
  if_appends :: "(route_key \<times> string \<times> gotime) list"

record ingressWALCoordinator =
  co_hasWal :: bool
  co_store :: Store
  co_routes :: "(route_key, ingressWALRoute) gomap"
  co_state :: ingressWALState
  co_progress :: "(Generation, ingressWALProgress) gomap"
  co_order :: nat
  co_terminal :: bool
  co_closed :: "coord_error option"
  co_providers :: "nat \<Rightarrow> Provider"
  co_script :: "interference list"
  co_asked :: "(Generation \<times> Envelope \<times> nat \<times> nat) list"

type_synonym 'a coord = "(ingressWALCoordinator, 'a) state"

abbreviation look :: "(ingressWALCoordinator \<Rightarrow> 'a) \<Rightarrow> 'a coord" where
  "look f \<equiv> State (\<lambda>c. (f c, c))"

abbreviation change :: "(ingressWALCoordinator \<Rightarrow> ingressWALCoordinator) \<Rightarrow> unit coord" where
  "change f \<equiv> State (\<lambda>c. ((), f c))"

definition on_wal :: "'a wal \<Rightarrow> 'a coord" where
  "on_wal m = State (\<lambda>c. case run_state m (co_store c) of (r, s) \<Rightarrow> (r, c\<lparr>co_store := s\<rparr>))"

definition on_provider :: "nat \<Rightarrow> (Provider \<Rightarrow> 'a \<times> Provider) \<Rightarrow> 'a coord" where
  "on_provider k f = State (\<lambda>c. case f (co_providers c k) of (r, p) \<Rightarrow> (r, c\<lparr>co_providers := (co_providers c)(k := p)\<rparr>))"

section \<open>Routes and construction\<close>

definition ingressWALSourceStream :: string where "ingressWALSourceStream = ''stream''"
definition ingressWALSignalHEC :: string where "ingressWALSignalHEC = ''hec''"
definition ingressWALSourceWebhook :: string where "ingressWALSourceWebhook = ''webhook''"
definition ingressWALSignalWebhook :: string where "ingressWALSignalWebhook = ''webhook''"

definition validIngressWALRoute :: "ingressWALRoute \<Rightarrow> bool" where
  "validIngressWALRoute r =
     (if rt_tailnet r = [] \<or> rt_prepare r = None \<or> rt_delivery r = None then False
      else if rt_source r = ingressWALSourceStream \<and> rt_signal r = ingressWALSignalHEC then True
      else if rt_source r = ingressWALSourceWebhook \<and> rt_signal r = ingressWALSignalWebhook then True
      else False)"

definition route_key_of :: "ingressWALRoute \<Rightarrow> route_key" where
  "route_key_of r = (rt_tailnet r, rt_source r, rt_signal r)"

fun add_routes :: "ingressWALRoute list \<Rightarrow> (route_key, ingressWALRoute) gomap \<Rightarrow> (route_key, ingressWALRoute) gomap option" where
  "add_routes [] routes = Some routes"
| "add_routes (r # rs) routes =
     (if \<not> validIngressWALRoute r then None
      else if map_of routes (route_key_of r) \<noteq> None then None
      else add_routes rs (AList.update (route_key_of r) r routes))"

text \<open>\<open>hasWal\<close> tells whether there is a log; without one the store is not used.\<close>

definition newIngressWALCoordinator ::
  "bool \<Rightarrow> Store \<Rightarrow> ingressWALRoute list \<Rightarrow> (nat \<Rightarrow> Provider) \<Rightarrow> interference list \<Rightarrow> coord_err + ingressWALCoordinator" where
  "newIngressWALCoordinator hasWal wal configured providers script =
     (let c = \<lparr>co_hasWal = hasWal, co_store = wal, co_routes = [], co_state = StateDisabled, co_progress = [], co_order = 0,
               co_terminal = False, co_closed = None, co_providers = providers, co_script = script, co_asked = []\<rparr>
      in if \<not> hasWal then (if length configured \<noteq> 0 then Inl ErrIngressWALRoute else Inr c)
         else case add_routes configured [] of
                None \<Rightarrow> Inl ErrIngressWALRoute
              | Some routes \<Rightarrow>
                  if length routes = 0 then Inl ErrIngressWALRoute
                  else Inr (c\<lparr>co_routes := routes, co_state := StateReplaying\<rparr>))"

section \<open>State and errors\<close>

definition setState :: "ingressWALState \<Rightarrow> unit coord" where
  "setState st = change (\<lambda>c.
     if co_state c \<noteq> StateStopped \<and> (co_state c \<noteq> StateFailed \<or> st = StateStopped) then c\<lparr>co_state := st\<rparr> else c)"

definition coord_Ready :: "ingressWALCoordinator \<Rightarrow> bool" where
  "coord_Ready c \<longleftrightarrow> co_state c = StateReady"

text \<open>\<open>errors.Is\<close> looks through joins.\<close>

fun wal_leaves :: "wal_error \<Rightarrow> wal_error list" where
  "wal_leaves (JoinError es) = concat (map wal_leaves es)"
| "wal_leaves e = [e]"

fun storage_leaves :: "coord_err \<Rightarrow> wal_error list" where
  "storage_leaves (StorageErr e) = wal_leaves e"
| "storage_leaves e = []"

definition is_storage :: "(wal_error \<Rightarrow> bool) \<Rightarrow> coord_error \<Rightarrow> bool" where
  "is_storage f es \<longleftrightarrow> list_ex (\<lambda>e. list_ex f (storage_leaves e)) es"

fun is_full :: "wal_error \<Rightarrow> bool" where
  "is_full (FullError l a b n) = True"
| "is_full e = False"

fun is_corrupt :: "wal_error \<Rightarrow> bool" where
  "is_corrupt (CorruptError t) = True"
| "is_corrupt e = False"

fun is_incompatible :: "wal_error \<Rightarrow> bool" where
  "is_incompatible (IncompatibleError v) = True"
| "is_incompatible e = False"

fun is_ownership :: "wal_error \<Rightarrow> bool" where
  "is_ownership (OwnershipError t) = True"
| "is_ownership e = False"

definition ErrFull :: wal_error where "ErrFull = FullError LimitEntries 0 0 0"

definition is_canceled :: "coord_error \<Rightarrow> bool" where
  "is_canceled es = is_storage (\<lambda>e. e = CtxErr) es"

text \<open>A sentinel of a class of storage errors is the error of that class without details.\<close>

definition boundedIngressWALReplayError :: "coord_error \<Rightarrow> coord_error \<times> bool" where
  "boundedIngressWALReplayError err =
     (if ErrIngressWALApply \<in> set err then ([ErrIngressWALApply], True)
      else if ErrIngressWALRoute \<in> set err then ([ErrIngressWALRoute], True)
      else if is_canceled err then ([StorageErr CtxErr], False)
      else if ErrIngressWALFlush \<in> set err then ([ErrIngressWALFlush], False)
      else if is_storage is_corrupt err then ([ErrIngressWALReplay, StorageErr (CorruptError [])], True)
      else if is_storage is_incompatible err then ([ErrIngressWALReplay, StorageErr (IncompatibleError CHR 0x00)], True)
      else if is_storage is_ownership err then ([ErrIngressWALReplay, StorageErr (OwnershipError [])], True)
      else if is_storage (\<lambda>e. e = ErrClosed) err then ([ErrIngressWALReplay, StorageErr ErrClosed], True)
      else ([ErrIngressWALReplay], False))"

definition ingressWALInitialRetry :: duration where "ingressWALInitialRetry = 100000000"
definition ingressWALMaximumRetry :: duration where "ingressWALMaximumRetry = 5000000000"

text \<open>The loop of \<open>ingressWALRetryDelay\<close> with its remaining rounds.\<close>

fun retry_loop :: "nat \<Rightarrow> duration \<Rightarrow> duration" where
  "retry_loop 0 delay = (if ingressWALMaximumRetry < delay then ingressWALMaximumRetry else delay)"
| "retry_loop (Suc n) delay =
     (if ingressWALMaximumRetry div 2 \<le> delay then ingressWALMaximumRetry else retry_loop n (delay * 2))"

definition ingressWALRetryDelay :: "int \<Rightarrow> duration" where
  "ingressWALRetryDelay failures =
     (if failures \<le> 1 then ingressWALInitialRetry else retry_loop (nat (failures - 1)) ingressWALInitialRetry)"

section \<open>Receivers and the background\<close>

definition delivery_failure :: "route_key \<Rightarrow> ingressWALCoordinator \<Rightarrow> bool" where
  "delivery_failure key c =
     (case map_of (co_routes c) key of
        None \<Rightarrow> True
      | Some r \<Rightarrow> (case rt_delivery r of None \<Rightarrow> True | Some k \<Rightarrow> IngressFailure (co_providers c k) \<noteq> None))"

definition refuses_appends :: "route_key \<Rightarrow> ingressWALCoordinator \<Rightarrow> bool" where
  "refuses_appends key c \<longleftrightarrow> co_state c = StateFailed \<or> delivery_failure key c"

definition appender :: "wal_lib \<Rightarrow> route_key \<Rightarrow> string \<Rightarrow> gotime \<Rightarrow> coord_error coord" where
  "appender lib key body accepted = do {
     known \<leftarrow> look (\<lambda>c. map_of (co_routes c) key \<noteq> None);
     if \<not> known then State_Monad.return [ErrIngressWALRoute]
     else do {
     closed \<leftarrow> look (refuses_appends key);
     if closed then do { setState StateFailed; State_Monad.return [ErrIngressWALAppend] }
     else case key of (tailnet, source, signal) \<Rightarrow>
       (case NewID tailnet source signal body of
          Inl e \<Rightarrow> do { setState StateFailed; State_Monad.return [ErrIngressWALAppend] }
        | Inr i \<Rightarrow> do {
            err \<leftarrow> on_wal (wal_Append lib \<lparr>env_ID = i, env_Tailnet = tailnet, env_Source = source, env_Signal = signal,
              env_Accepted = accepted, env_Body = body\<rparr>);
            case err of
              Some e \<Rightarrow>
                if is_storage is_full [StorageErr e]
                then do { setState StateFull; State_Monad.return [ErrIngressWALAppend, StorageErr ErrFull] }
                else if is_canceled [StorageErr e] then State_Monad.return [StorageErr e]
                else do { setState StateFailed; State_Monad.return [ErrIngressWALAppend] }
            | None \<Rightarrow> do {
                closed \<leftarrow> look (refuses_appends key);
                if closed then do { setState StateFailed; State_Monad.return [ErrIngressWALAppend] }
                else State_Monad.return []
              }
          })
     }
   }"

fun appends :: "wal_lib \<Rightarrow> (route_key \<times> string \<times> gotime) list \<Rightarrow> unit coord" where
  "appends lib [] = State_Monad.return ()"
| "appends lib ((key, body, accepted) # rs) = do { _ \<leftarrow> appender lib key body accepted; appends lib rs }"

text \<open>What runs beside the coordinator between two of its calls.\<close>

definition interfere :: "wal_lib \<Rightarrow> unit coord" where
  "interfere lib = do {
     script \<leftarrow> look co_script;
     case script of
       [] \<Rightarrow> State_Monad.return ()
     | f # fs \<Rightarrow> do {
         change (\<lambda>c. c\<lparr>co_script := fs, co_providers := (\<lambda>k. if_steps f k (co_providers c k))\<rparr>);
         appends lib (if_appends f)
       }
   }"

section \<open>Releasing, preparing\<close>

definition receipt_eligible :: "ingressWALProgress \<Rightarrow> ingressWALCoordinator \<Rightarrow> bool" where
  "receipt_eligible pg c =
     (case (pg_receipt pg, pg_delivery pg) of (Some i, Some k) \<Rightarrow> Eligible i (co_providers c k) | _ \<Rightarrow> False)"

definition releaseProgress :: "Generation \<Rightarrow> ingressWALProgress \<Rightarrow> coord_error coord" where
  "releaseProgress g pg = do {
     e \<leftarrow> on_wal (wal_ReleasePrepared g);
     case e of
       Some err \<Rightarrow> State_Monad.return [StorageErr err]
     | None \<Rightarrow>
         (case (pg_receipt pg, pg_delivery pg) of
            (Some i, Some k) \<Rightarrow> do {
              r \<leftarrow> on_provider k (ReleaseIngress i);
              if r \<noteq> None then State_Monad.return [ErrIngressWALApply]
              else do {
                change (\<lambda>c. c\<lparr>co_progress := AList.delete g (co_progress c)\<rparr>);
                State_Monad.return []
              }
            }
          | _ \<Rightarrow> State_Monad.return [ErrIngressWALApply])
   }"

definition observeCommit :: "Generation \<Rightarrow> unit coord" where
  "observeCommit g = do {
     pg \<leftarrow> look (\<lambda>c. map_of (co_progress c) g);
     case pg of
       None \<Rightarrow> State_Monad.return ()
     | Some pg \<Rightarrow> do {
         ok \<leftarrow> look (receipt_eligible pg);
         if ok then do { _ \<leftarrow> releaseProgress g pg; State_Monad.return () } else State_Monad.return ()
       }
   }"

text \<open>\<open>PrepareWindow\<close> with the coordinator as its observer: the parts of \<open>wal_PrepareWindow\<close> with the call-backs
  where the code makes them, outside the log's mutex.\<close>

definition window_begin :: "WindowLimits \<Rightarrow> Generation list \<Rightarrow> (wal_error + (string \<times> completionMarker) list) wal" where
  "window_begin limits held' =
     (if wl_MaxEntries limits \<le> 0 \<or> wl_MaxBytes limits \<le> 0
      then ret (Inl (PlainError ''ingress WAL positive window limits required''))
      else do {
        c \<leftarrow> ctx_Err True;
        case c of Some e \<Rightarrow> ret (Inl e) | None \<Rightarrow> do {
        closed \<leftarrow> gets st_closed;
        known \<leftarrow> gets (\<lambda>s. checkHeld s held');
        if closed then ret (Inl ErrClosed)
        else if \<not> known then ret (Inl ErrPreparedToken)
        else do {
        o' \<leftarrow> wal_cleanupOrphansLocked;
        case o' of Some e \<Rightarrow> ret (Inl e) | None \<Rightarrow> gets (\<lambda>s. Inr (go_sort snapshot_less (st_completed s)))
        }}
      })"

definition window_notify :: "string \<times> completionMarker \<Rightarrow> (Generation option \<times> wal_error option) wal" where
  "window_notify x = do {
     (notify, err) \<leftarrow> wal_cleanupCompletedSnapshot x;
     case err of
       Some e \<Rightarrow> ret (None, Some e)
     | None \<Rightarrow> do {
         g \<leftarrow> gets (\<lambda>s. generation s (fst x) (cm_entrySequence (snd x)));
         modify (\<lambda>s. if notify \<and> map_of (st_prepared s) g \<noteq> None
           then s\<lparr>st_prepared := AList.update g PreparedRetired (st_prepared s)\<rparr> else s);
         ret (if notify then Some g else None, None)
       }
   }"

fun window_observed :: "(string \<times> completionMarker) list \<Rightarrow> wal_error option coord" where
  "window_observed [] = State_Monad.return None"
| "window_observed (x # xs) = do {
     (g, err) \<leftarrow> on_wal (window_notify x);
     case err of
       Some e \<Rightarrow> State_Monad.return (Some e)
     | None \<Rightarrow> do {
         _ \<leftarrow> (case g of None \<Rightarrow> State_Monad.return () | Some g \<Rightarrow> observeCommit g);
         window_observed xs
       }
   }"

definition prepareWindow ::
  "wal_lib \<Rightarrow> WindowLimits \<Rightarrow> Generation list \<Rightarrow> (wal_error + PreparedEntry list) coord" where
  "prepareWindow lib limits held' = do {
     r \<leftarrow> on_wal (window_begin limits held');
     case r of
       Inl e \<Rightarrow> State_Monad.return (Inl e)
     | Inr completed \<Rightarrow> do {
         err \<leftarrow> window_observed completed;
         case err of Some e \<Rightarrow> State_Monad.return (Inl e) | None \<Rightarrow> on_wal (window_fill lib limits held')
       }
   }"

text \<open>The bytes of the generations held, \<open>None\<close> when they exceed the limit.\<close>

fun held_bytes :: "int \<Rightarrow> (Generation \<times> ingressWALProgress) list \<Rightarrow> int \<Rightarrow> int option" where
  "held_bytes limit [] used = Some used"
| "held_bytes limit ((g, pg) # rest) used =
     (if limit - used < pr_EncodedBytes (pg_entry pg) then None
      else held_bytes limit rest (used + pr_EncodedBytes (pg_entry pg)))"

fun add_progress :: "PreparedEntry list \<Rightarrow> ingressWALCoordinator \<Rightarrow> ingressWALCoordinator" where
  "add_progress [] c = c"
| "add_progress (x # xs) c =
     add_progress xs
       (if map_of (co_progress c) (pr_Generation x) \<noteq> None then c
        else c\<lparr>co_order := Suc (co_order c),
               co_progress := AList.update (pr_Generation x)
                 \<lparr>pg_entry = x, pg_work = None, pg_receipt = None, pg_delivery = None, pg_order = Suc (co_order c)\<rparr>
                 (co_progress c)\<rparr>)"

definition ingressWALWindowEntries :: int where "ingressWALWindowEntries = 64"

definition fillWindow :: "wal_lib \<Rightarrow> coord_error coord" where
  "fillWindow lib = do {
     health \<leftarrow> look (\<lambda>c. wal_Health (co_store c));
     progress \<leftarrow> look co_progress;
     case held_bytes (h_MaxBytes health) progress 0 of
       None \<Rightarrow> State_Monad.return [ErrIngressWALReplay]
     | Some used \<Rightarrow>
         let remaining = min ingressWALWindowEntries (h_MaxEntries health) - int (length progress)
         in if remaining \<le> 0 \<or> h_MaxBytes health \<le> used then State_Monad.return []
            else do {
              r \<leftarrow> prepareWindow lib \<lparr>wl_MaxEntries = remaining, wl_MaxBytes = h_MaxBytes health - used\<rparr> (map fst progress);
              case r of
                Inl e \<Rightarrow> State_Monad.return [StorageErr e]
              | Inr entries \<Rightarrow> do { change (add_progress entries); State_Monad.return [] }
            }
   }"

definition orderedWindow :: "ingressWALCoordinator \<Rightarrow> Generation list" where
  "orderedWindow c = map fst (go_sort (\<lambda>x y. pg_order (snd x) < pg_order (snd y)) (co_progress c))"

section \<open>Applying\<close>

text \<open>The work's emissions, one by one, with the rest of the program running in between.\<close>

definition emit_action :: "nat \<Rightarrow> work_action \<Rightarrow> Provider \<Rightarrow> Provider" where
  "emit_action i a p = (case a of
     EmitMetric op \<Rightarrow> if map_option ir_metricsExcluded (pv_heap p i) = Some False then record_metric i op p else p
   | EmitLog rec \<Rightarrow> OnEmit i rec p)"

definition run_action :: "nat \<Rightarrow> nat \<Rightarrow> work_action \<Rightarrow> unit coord" where
  "run_action k i a = on_provider k (\<lambda>p. ((), emit_action i a p))"

fun run_actions :: "wal_lib \<Rightarrow> nat \<Rightarrow> nat \<Rightarrow> work_action list \<Rightarrow> unit coord" where
  "run_actions lib k i [] = State_Monad.return ()"
| "run_actions lib k i (a # as) = do {
     _ \<leftarrow> run_action k i a;
     _ \<leftarrow> interfere lib;
     run_actions lib k i as
   }"

definition applyIngress :: "wal_lib \<Rightarrow> nat \<Rightarrow> nat \<Rightarrow> IngressWork \<Rightarrow> ingress_err option coord" where
  "applyIngress lib k i work = do {
     ctx \<leftarrow> on_wal (ctx_Err True);
     e \<leftarrow> on_provider k (apply_begin i (iw_Bounds work) (iw_Apply work \<noteq> None) (ctx \<noteq> None));
     case e of
       Some err \<Rightarrow> State_Monad.return (Some err)
     | None \<Rightarrow>
         (case iw_Apply work of
            None \<Rightarrow> State_Monad.return (Some ErrIngressPoison)
          | Some (actions, fails) \<Rightarrow> do {
              _ \<leftarrow> interfere lib;
              _ \<leftarrow> run_actions lib k i actions;
              failed \<leftarrow> on_provider k (apply_finish i fails);
              State_Monad.return (if failed then Some ErrIngressPoison else None)
            })
   }"

definition upd_progress :: "Generation \<Rightarrow> (ingressWALProgress \<Rightarrow> ingressWALProgress) \<Rightarrow> unit coord" where
  "upd_progress g f = change (\<lambda>c.
     case map_of (co_progress c) g of None \<Rightarrow> c | Some pg \<Rightarrow> c\<lparr>co_progress := AList.update g (f pg) (co_progress c)\<rparr>)"

definition receipt_phase :: "nat \<Rightarrow> nat \<Rightarrow> ingressWALCoordinator \<Rightarrow> ReceiptPhase option" where
  "receipt_phase k i c = map_option ir_phase (pv_heap (co_providers c k) i)"

definition ctx_error :: "coord_error coord" where
  "ctx_error = do { e \<leftarrow> on_wal (ctx_Err True); State_Monad.return (case e of None \<Rightarrow> [] | Some err \<Rightarrow> [StorageErr err]) }"

text \<open>What one round of the loop of \<open>applyWindow\<close> ends with: an error to return, or the providers blocked from now on.\<close>

datatype round = Stop coord_error | Continue "nat list"

definition envelope_key :: "Envelope \<Rightarrow> route_key" where
  "envelope_key env = (env_Tailnet env, env_Source env, env_Signal env)"

definition prepare_work ::
  "Generation \<Rightarrow> ingressWALProgress \<Rightarrow> (string \<Rightarrow> gotime \<Rightarrow> IngressWork option) \<Rightarrow> nat \<Rightarrow> (coord_error + IngressWork) coord" where
  "prepare_work g pg prepare k =
     (case pg_work pg of
        Some work \<Rightarrow> State_Monad.return (Inr work)
      | None \<Rightarrow>
          (case prepare (env_Body (pr_Envelope (pg_entry pg))) (env_Accepted (pr_Envelope (pg_entry pg))) of
             None \<Rightarrow> do {
               e \<leftarrow> ctx_error;
               State_Monad.return (Inl (if e \<noteq> [] then e else [ErrIngressWALApply]))
             }
           | Some work \<Rightarrow> do {
               _ \<leftarrow> upd_progress g (\<lambda>pg. pg\<lparr>pg_work := Some work, pg_delivery := Some k\<rparr>);
               State_Monad.return (Inr work)
             }))"

definition apply_registered :: "wal_lib \<Rightarrow> Generation \<Rightarrow> nat \<Rightarrow> nat \<Rightarrow> IngressWork \<Rightarrow> nat list \<Rightarrow> round coord" where
  "apply_registered lib g k i work blocked = do {
     _ \<leftarrow> upd_progress g (\<lambda>pg. pg\<lparr>pg_receipt := Some i\<rparr>);
     err \<leftarrow> applyIngress lib k i work;
     case err of
       None \<Rightarrow> do {
         _ \<leftarrow> upd_progress g (\<lambda>pg. pg\<lparr>pg_work := None\<rparr>);
         State_Monad.return (Continue blocked)
       }
     | Some e \<Rightarrow> do {
         phase \<leftarrow> look (receipt_phase k i);
         if phase \<noteq> Some Reserved then State_Monad.return (Stop [ErrIngressWALApply])
         else do {
           r \<leftarrow> on_provider k (ReleaseUnstarted i);
           if r \<noteq> None then State_Monad.return (Stop [ErrIngressWALApply])
           else do {
             _ \<leftarrow> upd_progress g (\<lambda>pg. pg\<lparr>pg_receipt := None\<rparr>);
             if e = ErrIngressBackpressure then State_Monad.return (Continue (k # blocked))
             else do {
               ce \<leftarrow> ctx_error;
               State_Monad.return (Stop (if ce \<noteq> [] then ce else [ErrIngressWALApply]))
             }
           }
         }
       }
   }"

definition reserve_and_apply :: "wal_lib \<Rightarrow> Generation \<Rightarrow> nat \<Rightarrow> IngressWork \<Rightarrow> nat list \<Rightarrow> nat list \<Rightarrow> (round \<times> nat list) coord" where
  "reserve_and_apply lib g k work blocked providers = do {
     res \<leftarrow> on_provider k (ReserveIngress (iw_Bounds work));
     case res of
       Inl e \<Rightarrow>
         State_Monad.return (if e = ErrIngressBackpressure then Continue (k # blocked) else Stop [ErrIngressWALApply], providers)
     | Inr i \<Rightarrow> do {
         out \<leftarrow> apply_registered lib g k i work blocked;
         State_Monad.return (out, if k \<in> set providers then providers else k # providers)
       }
   }"

definition apply_entry ::
  "wal_lib \<Rightarrow> Generation \<Rightarrow> ingressWALProgress \<Rightarrow> ingressWALRoute \<Rightarrow> nat list \<Rightarrow> nat list \<Rightarrow> (round \<times> nat list) coord" where
  "apply_entry lib g pg r blocked providers =
     (if \<not> validIngressWALRoute r then State_Monad.return (Stop [ErrIngressWALRoute], providers)
      else case (rt_prepare r, rt_delivery r) of
        (Some prepare, Some k) \<Rightarrow>
          if k \<in> set blocked then State_Monad.return (Continue blocked, providers)
          else do {
            w \<leftarrow> prepare_work g pg prepare k;
            case w of
              Inl e \<Rightarrow> State_Monad.return (Stop e, providers)
            | Inr work \<Rightarrow> reserve_and_apply lib g k work blocked providers
          }
      | _ \<Rightarrow> State_Monad.return (Stop [ErrIngressWALRoute], providers))"

definition apply_one :: "wal_lib \<Rightarrow> Generation \<Rightarrow> nat list \<Rightarrow> nat list \<Rightarrow> (round \<times> nat list) coord" where
  "apply_one lib g blocked providers = do {
     pg \<leftarrow> look (\<lambda>c. map_of (co_progress c) g);
     case pg of None \<Rightarrow> State_Monad.return (Continue blocked, providers) | Some pg \<Rightarrow>
     (case (pg_receipt pg, pg_delivery pg) of
        (Some i, Some k) \<Rightarrow> do {
          phase \<leftarrow> look (receipt_phase k i);
          State_Monad.return (if phase = Some Poisoned then Stop [ErrIngressWALApply] else Continue blocked, providers)
        }
      | _ \<Rightarrow> do {
          route \<leftarrow> look (\<lambda>c. map_of (co_routes c) (envelope_key (pr_Envelope (pg_entry pg))));
          case route of
            None \<Rightarrow> State_Monad.return (Stop [ErrIngressWALRoute], providers)
          | Some r \<Rightarrow> apply_entry lib g pg r blocked providers
        })
   }"

fun apply_loop :: "wal_lib \<Rightarrow> Generation list \<Rightarrow> nat list \<Rightarrow> nat list \<Rightarrow> (coord_error \<times> nat list) coord" where
  "apply_loop lib [] blocked providers = State_Monad.return ([], providers)"
| "apply_loop lib (g # gs) blocked providers = do {
     _ \<leftarrow> interfere lib;
     e \<leftarrow> ctx_error;
     if e \<noteq> [] then State_Monad.return (e, providers)
     else do {
       (out, providers) \<leftarrow> apply_one lib g blocked providers;
       case out of
         Stop err \<Rightarrow> State_Monad.return (err, providers)
       | Continue blocked \<Rightarrow> apply_loop lib gs blocked providers
     }
   }"

fun seal_all :: "nat list \<Rightarrow> unit coord" where
  "seal_all [] = State_Monad.return ()"
| "seal_all (k # ks) = do { _ \<leftarrow> on_provider k (\<lambda>p. ((), SealIngress p)); seal_all ks }"

definition applyWindow :: "wal_lib \<Rightarrow> coord_error coord" where
  "applyWindow lib = do {
     window \<leftarrow> look orderedWindow;
     (err, providers) \<leftarrow> apply_loop lib window [] [];
     _ \<leftarrow> seal_all providers;
     State_Monad.return err
   }"

section \<open>Committing\<close>

text \<open>\<open>co_asked\<close> records for which generation, original, provider and receipt a commit was requested.\<close>

fun commit_loop :: "wal_lib \<Rightarrow> Generation list \<Rightarrow> coord_error \<Rightarrow> coord_error coord" where
  "commit_loop lib [] combined = State_Monad.return combined"
| "commit_loop lib (g # gs) combined = do {
     _ \<leftarrow> interfere lib;
     pg \<leftarrow> look (\<lambda>c. map_of (co_progress c) g);
     case pg of None \<Rightarrow> commit_loop lib gs combined | Some pg \<Rightarrow> do {
     ok \<leftarrow> look (receipt_eligible pg);
     if \<not> ok then commit_loop lib gs combined
     else do {
       change (\<lambda>c. c\<lparr>co_asked := co_asked c @
         [(pr_Generation (pg_entry pg), pr_Envelope (pg_entry pg), the (pg_delivery pg), the (pg_receipt pg))]\<rparr>);
       (outcome, err) \<leftarrow> on_wal (wal_CommitPrepared (pr_Generation (pg_entry pg)));
       case err of
         Some e \<Rightarrow> commit_loop lib gs (combined @ [StorageErr e])
       | None \<Rightarrow>
           if outcome = PreparedRetired then do {
             e \<leftarrow> releaseProgress (pr_Generation (pg_entry pg)) pg;
             commit_loop lib gs (combined @ e)
           }
           else commit_loop lib gs combined
     }}
   }"

definition commitEligible :: "wal_lib \<Rightarrow> coord_error coord" where
  "commitEligible lib = do {
     window \<leftarrow> look orderedWindow;
     commit_loop lib window []
   }"

section \<open>Passes and loops\<close>

text \<open>\<open>late\<close> tells of which providers an export in flight is overdue.\<close>

definition deliveryRetrying :: "(nat \<Rightarrow> bool) \<Rightarrow> ingressWALCoordinator \<Rightarrow> bool" where
  "deliveryRetrying late c = list_ex (\<lambda>(g, pg).
     case (pg_receipt pg, pg_delivery pg) of
       (Some i, Some k) \<Rightarrow> IngressDeliveryRetrying (late k) (co_providers c k)
     | _ \<Rightarrow> False) (co_progress c)"

definition liveReceipts :: "ingressWALCoordinator \<Rightarrow> bool" where
  "liveReceipts c = list_ex (\<lambda>(g, pg).
     case (pg_receipt pg, pg_delivery pg) of
       (Some i, Some k) \<Rightarrow> receipt_phase k i c \<noteq> Some Poisoned
     | _ \<Rightarrow> False) (co_progress c)"

definition replay_idle :: "ingressWALCoordinator \<Rightarrow> bool" where
  "replay_idle c = (if co_terminal c then \<not> liveReceipts c else h_PendingEntries (wal_Health (co_store c)) = 0)"

definition replay_settle :: "(nat \<Rightarrow> bool) \<Rightarrow> coord_error \<Rightarrow> coord_error coord" where
  "replay_settle late err = do {
     terminal \<leftarrow> look co_terminal;
     if err = [] then do {
       idle \<leftarrow> look replay_idle;
       if idle then State_Monad.return []
       else do {
         retrying \<leftarrow> look (deliveryRetrying late);
         _ \<leftarrow> (if terminal then State_Monad.return () else setState (if retrying then StateRetrying else StateReady));
         State_Monad.return [ErrIngressWALFlush]
       }
     }
     else case boundedIngressWALReplayError err of (bounded, failed) \<Rightarrow> do {
       _ \<leftarrow> (if failed then setState StateFailed
            else if \<not> terminal then setState StateRetrying
            else State_Monad.return ());
       State_Monad.return bounded
     }
   }"

definition replay :: "wal_lib \<Rightarrow> (nat \<Rightarrow> bool) \<Rightarrow> coord_error coord" where
  "replay lib late = do {
     _ \<leftarrow> interfere lib;
     terminal \<leftarrow> look co_terminal;
     err \<leftarrow> (if terminal then State_Monad.return []
            else do {
              e \<leftarrow> fillWindow lib;
              if e = [] then applyWindow lib else State_Monad.return e
            });
     ce \<leftarrow> commitEligible lib;
     replay_settle late (err @ ce)
   }"

datatype ingressWALWaitResult = WaitCanceled | WaitWake | WaitTimer

text \<open>The outcomes of the waits are given; where the list ends the context has ended.\<close>

fun replay_until :: "wal_lib \<Rightarrow> (nat \<Rightarrow> bool) \<Rightarrow> ingressWALState \<Rightarrow> ingressWALWaitResult list \<Rightarrow> coord_error coord" where
  "replay_until lib late st waits = do {
     e \<leftarrow> replay lib late;
     if e = [] then do { _ \<leftarrow> setState st; State_Monad.return [] }
     else if ErrIngressWALFlush \<notin> set e then State_Monad.return e
     else (case waits of
             [] \<Rightarrow> State_Monad.return [StorageErr CtxErr]
           | w # ws \<Rightarrow> if w = WaitCanceled then State_Monad.return [StorageErr CtxErr] else replay_until lib late st ws)
   }"

definition coord_Replay :: "wal_lib \<Rightarrow> (nat \<Rightarrow> bool) \<Rightarrow> ingressWALWaitResult list \<Rightarrow> coord_error coord" where
  "coord_Replay lib late waits = do {
     hasWal \<leftarrow> look co_hasWal;
     if \<not> hasWal then State_Monad.return []
     else do {
     failed \<leftarrow> look (\<lambda>c. co_state c = StateFailed);
     if failed then do {
       ce \<leftarrow> commitEligible lib;
       State_Monad.return (ErrIngressWALApply # (if ce = [] then [] else fst (boundedIngressWALReplayError ce)))
     }
     else do { _ \<leftarrow> setState StateReplaying; replay_until lib late StateReady waits }
     }
   }"

definition next_failures :: "int \<Rightarrow> int \<Rightarrow> int \<Rightarrow> int" where
  "next_failures was after failures = (if after < was then 1 else failures + 1)"

definition pending_entries :: "ingressWALCoordinator \<Rightarrow> int" where
  "pending_entries c = h_PendingEntries (wal_Health (co_store c))"

text \<open>Each round has the waits inside \<open>Replay\<close> and the wait after it; the result carries the delays asked for.\<close>

fun startup_loop ::
  "wal_lib \<Rightarrow> (nat \<Rightarrow> bool) \<Rightarrow> (ingressWALWaitResult list \<times> ingressWALWaitResult) list \<Rightarrow> int \<Rightarrow> (coord_error \<times> duration list) coord" where
  "startup_loop lib late [] failures = State_Monad.return ([StorageErr CtxErr], [])"
| "startup_loop lib late ((waits, w) # rounds) failures = do {
     was \<leftarrow> look pending_entries;
     err \<leftarrow> coord_Replay lib late waits;
     after \<leftarrow> look pending_entries;
     failed \<leftarrow> look (\<lambda>c. co_state c = StateFailed);
     if err = [] then State_Monad.return ([], [])
     else if is_canceled err then State_Monad.return (err, [])
     else if failed then State_Monad.return (err, [])
     else let failures = next_failures was after failures; delay = ingressWALRetryDelay failures in
       (case w of
          WaitCanceled \<Rightarrow> State_Monad.return ([StorageErr CtxErr], [delay])
        | _ \<Rightarrow> do {
            (e, delays) \<leftarrow> startup_loop lib late rounds (if w = WaitWake then 0 else failures);
            State_Monad.return (e, delay # delays)
          })
   }"

definition ReplayStartup ::
  "wal_lib \<Rightarrow> (nat \<Rightarrow> bool) \<Rightarrow> (ingressWALWaitResult list \<times> ingressWALWaitResult) list \<Rightarrow> (coord_error \<times> duration list) coord" where
  "ReplayStartup lib late rounds = do {
     hasWal \<leftarrow> look co_hasWal;
     if \<not> hasWal then State_Monad.return ([], []) else startup_loop lib late rounds 0
   }"

fun run_loop ::
  "wal_lib \<Rightarrow> (nat \<Rightarrow> bool) \<Rightarrow> (ingressWALWaitResult list \<times> ingressWALWaitResult) list \<Rightarrow> int \<Rightarrow> duration list coord" where
  "run_loop lib late [] failures = State_Monad.return []"
| "run_loop lib late ((waits, w) # rounds) failures = do {
     was \<leftarrow> look pending_entries;
     err \<leftarrow> coord_Replay lib late waits;
     after \<leftarrow> look pending_entries;
     if err = [] then
       (if w = WaitCanceled then State_Monad.return [] else run_loop lib late rounds 0)
     else if is_canceled err then State_Monad.return []
     else let failures = next_failures was after failures; delay = ingressWALRetryDelay failures in
       (case w of
          WaitCanceled \<Rightarrow> State_Monad.return [delay]
        | _ \<Rightarrow> do {
            delays \<leftarrow> run_loop lib late rounds (if w = WaitWake then 0 else failures);
            State_Monad.return (delay # delays)
          })
   }"

definition coord_Run ::
  "wal_lib \<Rightarrow> (nat \<Rightarrow> bool) \<Rightarrow> (ingressWALWaitResult list \<times> ingressWALWaitResult) list \<Rightarrow> duration list coord" where
  "coord_Run lib late rounds = do {
     hasWal \<leftarrow> look co_hasWal;
     if \<not> hasWal then State_Monad.return [] else run_loop lib late rounds 0
   }"

definition coord_Drain :: "wal_lib \<Rightarrow> (nat \<Rightarrow> bool) \<Rightarrow> ingressWALWaitResult list \<Rightarrow> coord_error coord" where
  "coord_Drain lib late waits = do {
     hasWal \<leftarrow> look co_hasWal;
     if \<not> hasWal then State_Monad.return []
     else do {
       change (\<lambda>c. c\<lparr>co_terminal := True\<rparr>);
       setState StateDraining;
       replay_until lib late StateDraining waits
     }
   }"

definition coord_Close :: "coord_error coord" where
  "coord_Close = do {
     before' \<leftarrow> look co_closed;
     case before' of
       Some e \<Rightarrow> State_Monad.return e
     | None \<Rightarrow> do {
         hasWal \<leftarrow> look co_hasWal;
         err \<leftarrow> (if hasWal then on_wal wal_Close else State_Monad.return None);
         let e = (if err = None then [] else [ErrIngressWALClose]);
         change (\<lambda>c. c\<lparr>co_closed := Some e, co_state := StateStopped\<rparr>);
         State_Monad.return e
       }
   }"

text \<open>The calls of \<open>account\<close> are returned with the numbers.\<close>

definition ExpireStale ::
  "wal_lib \<Rightarrow> gotime \<Rightarrow> (int \<times> int \<times> coord_error \<times> (nat option \<times> ExpiredEntry) list) coord" where
  "ExpireStale lib cutoff = do {
     hasWal \<leftarrow> look co_hasWal;
     if \<not> hasWal \<or> cutoff = 0 then State_Monad.return (0, 0, [], [])
     else do {
       routes \<leftarrow> look co_routes;
       (expired, err) \<leftarrow> on_wal (wal_ExpireBefore lib cutoff (\<lambda>t s g. map_of routes (t, s, g) \<noteq> None));
       State_Monad.return
         (int (length expired), sum_list (map ex_EncodedBytes expired),
          (case err of None \<Rightarrow> [] | Some e \<Rightarrow> fst (boundedIngressWALReplayError [StorageErr e])),
          map (\<lambda>x. (case map_of routes (ex_Tailnet x, ex_Source x, ex_Signal x) of None \<Rightarrow> None | Some r \<Rightarrow> rt_delivery r, x)) expired)
     }
   }"

end
