(* ===== verification/Coordinator_Passes.thy ===== *)
theory Coordinator_Passes
  imports Ingress_Coordinator
begin

text \<open>
  The calls made on the coordinator and what they keep: \<open>pass_inv\<close> takes a property kept by the stages of a pass to every
  sequence of calls, \<open>frame_inv\<close> one that no change of the log, the providers or the window touches.
\<close>

lemma keeps_look: "keeps J (look f)"
  by (rule keeps_State) simp

lemma keeps_change: "(\<And>c. J c \<Longrightarrow> J (f c)) \<Longrightarrow> keeps J (change f)"
  by (rule keeps_State) simp

section \<open>Calls\<close>

text \<open>The calls the rest of the program makes on the coordinator, in any order.\<close>

datatype coord_call =
    OpReceive route_key string gotime
  | OpReplay "nat \<Rightarrow> bool" "ingressWALWaitResult list"
  | OpStartup "nat \<Rightarrow> bool" "(ingressWALWaitResult list \<times> ingressWALWaitResult) list"
  | OpRun "nat \<Rightarrow> bool" "(ingressWALWaitResult list \<times> ingressWALWaitResult) list"
  | OpDrain "nat \<Rightarrow> bool" "ingressWALWaitResult list"
  | OpExpire gotime
  | OpClose

fun coord_exec :: "wal_lib \<Rightarrow> coord_call \<Rightarrow> unit coord" where
  "coord_exec lib (OpReceive key body accepted) = do { _ \<leftarrow> appender lib key body accepted; State_Monad.return () }"
| "coord_exec lib (OpReplay late waits) = do { _ \<leftarrow> coord_Replay lib late waits; State_Monad.return () }"
| "coord_exec lib (OpStartup late rounds) = do { _ \<leftarrow> ReplayStartup lib late rounds; State_Monad.return () }"
| "coord_exec lib (OpRun late rounds) = do { _ \<leftarrow> coord_Run lib late rounds; State_Monad.return () }"
| "coord_exec lib (OpDrain late waits) = do { _ \<leftarrow> coord_Drain lib late waits; State_Monad.return () }"
| "coord_exec lib (OpExpire cutoff) = do { _ \<leftarrow> ExpireStale lib cutoff; State_Monad.return () }"
| "coord_exec lib OpClose = do { _ \<leftarrow> coord_Close; State_Monad.return () }"

fun coord_calls :: "wal_lib \<Rightarrow> coord_call list \<Rightarrow> unit coord" where
  "coord_calls lib [] = State_Monad.return ()"
| "coord_calls lib (a # as) = do { _ \<leftarrow> coord_exec lib a; coord_calls lib as }"

lemma keeps_wait [hoare]:
  "keeps J a \<Longrightarrow> keeps J b \<Longrightarrow> keeps J d \<Longrightarrow> keeps J (case w of WaitCanceled \<Rightarrow> a | WaitWake \<Rightarrow> b | WaitTimer \<Rightarrow> d)"
  by (cases w) auto

text \<open>Calls with a body a receiver may hand over and a cutoff of the given kind.\<close>

fun allowed :: "(route_key \<Rightarrow> gotime \<Rightarrow> bool) \<Rightarrow> (gotime \<Rightarrow> bool) \<Rightarrow> coord_call \<Rightarrow> bool" where
  "allowed received expired (OpReceive key body accepted) \<longleftrightarrow> received key accepted"
| "allowed received expired (OpExpire cutoff) \<longleftrightarrow> expired cutoff"
| "allowed received expired _ \<longleftrightarrow> True"

lemma allowed_all: "allowed (\<lambda>_ _. True) (\<lambda>_. True) a"
  by (cases a) simp_all

section \<open>Kept by the stages\<close>

text \<open>What the stages of a pass keep, every call of the coordinator keeps.\<close>

locale pass_inv =
  fixes lib :: wal_lib and J :: "ingressWALCoordinator \<Rightarrow> bool" and received :: "route_key \<Rightarrow> gotime \<Rightarrow> bool" and expired :: "gotime \<Rightarrow> bool"
  assumes keeps_state: "keeps J (setState st)"
    and keeps_interference: "keeps J (interfere lib)"
    and keeps_fill: "keeps J (fillWindow lib)"
    and keeps_apply: "keeps J (applyWindow lib)"
    and keeps_commit: "keeps J (commitEligible lib)"
    and keeps_receive: "received key accepted \<Longrightarrow> keeps J (appender lib key body accepted)"
    and keeps_wal_close: "keeps J (on_wal wal_Close)"
    and keeps_flags: "J c \<Longrightarrow> J (c\<lparr>co_terminal := t\<rparr>)" "J c \<Longrightarrow> J (c\<lparr>co_closed := ce, co_state := StateStopped\<rparr>)"
    and keeps_expiry: "expired cutoff \<Longrightarrow> keeps J (ExpireStale lib cutoff)"
begin

lemmas stages = keeps_state keeps_interference keeps_fill keeps_apply keeps_commit keeps_wal_close keeps_look

lemma keeps_settle: "keeps J (replay_settle late err)"
  unfolding replay_settle_def by (intro hoare stages)

lemma keeps_replay: "keeps J (replay lib late)"
  unfolding replay_def by (intro hoare stages keeps_settle)

lemma keeps_replay_until: "keeps J (replay_until lib late st waits)"
proof (induction waits)
  case Nil
  show ?case by (subst replay_until.simps, unfold list.case) (intro hoare stages keeps_replay)
next
  case (Cons w ws)
  show ?case by (subst replay_until.simps, unfold list.case) (intro hoare stages keeps_replay Cons)
qed

lemma keeps_Replay: "keeps J (coord_Replay lib late waits)"
  unfolding coord_Replay_def by (intro hoare stages keeps_replay_until)

lemma keeps_startup_loop: "keeps J (startup_loop lib late rounds failures)"
proof (induction rounds arbitrary: failures)
  case (Cons x rounds)
  obtain waits w where "x = (waits, w)" by (rule prod.exhaust)
  then show ?case by (simp only: startup_loop.simps Let_def) (intro hoare stages keeps_Replay Cons)
qed (simp add: keeps_return)

lemma keeps_run_loop: "keeps J (run_loop lib late rounds failures)"
proof (induction rounds arbitrary: failures)
  case (Cons x rounds)
  obtain waits w where "x = (waits, w)" by (rule prod.exhaust)
  then show ?case by (simp only: run_loop.simps Let_def) (intro hoare stages keeps_Replay Cons)
qed (simp add: keeps_return)

lemma keeps_Drain: "keeps J (coord_Drain lib late waits)"
  unfolding coord_Drain_def by (intro hoare stages keeps_replay_until keeps_change keeps_flags)

lemma keeps_Close: "keeps J coord_Close"
  unfolding coord_Close_def Let_def by (intro hoare stages keeps_change keeps_flags)

lemma keeps_coord_exec: "allowed received expired a \<Longrightarrow> keeps J (coord_exec lib a)"
  by (cases a) (auto simp: ReplayStartup_def coord_Run_def intro!: hoare stages keeps_receive keeps_Replay keeps_startup_loop keeps_run_loop
      keeps_Drain keeps_Close keeps_expiry)

lemma keeps_coord_calls: "\<forall>a \<in> set as. allowed received expired a \<Longrightarrow> keeps J (coord_calls lib as)"
  by (induction as) (auto intro!: hoare keeps_coord_exec)

end

section \<open>Kept whatever changes in the log, the providers and the window\<close>

locale frame_inv =
  fixes J :: "ingressWALCoordinator \<Rightarrow> bool"
  assumes setState: "keeps J (setState st)"
    and frame: "J c \<Longrightarrow> J (c\<lparr>co_store := s\<rparr>)" "J c \<Longrightarrow> J (c\<lparr>co_providers := ps\<rparr>)" "J c \<Longrightarrow> J (c\<lparr>co_progress := P\<rparr>)"
      "J c \<Longrightarrow> J (c\<lparr>co_order := n\<rparr>)" "J c \<Longrightarrow> J (c\<lparr>co_script := fs\<rparr>)" "J c \<Longrightarrow> J (c\<lparr>co_asked := as\<rparr>)" "J c \<Longrightarrow> J (c\<lparr>co_terminal := t\<rparr>)"
      "J c \<Longrightarrow> J (c\<lparr>co_closed := ce, co_state := StateStopped\<rparr>)"
begin

lemma on_wal: "keeps J (on_wal m)"
  unfolding on_wal_def by (rule keeps_State) (simp add: frame split: prod.split)

lemma on_provider: "keeps J (on_provider k f)"
  unfolding on_provider_def by (rule keeps_State) (simp add: frame split: prod.split)

lemma upd_progress: "keeps J (upd_progress g f)"
  unfolding upd_progress_def by (rule keeps_change) (simp add: frame split: option.split)

lemmas basic = setState on_wal on_provider upd_progress keeps_look

lemma appender: "keeps J (appender lib key body accepted)"
  unfolding appender_def by (intro hoare basic)

lemma appends: "keeps J (appends lib rs)"
  by (induction rs) (auto intro!: hoare appender)

lemma interfere: "keeps J (interfere lib)"
  unfolding interfere_def
proof (intro keeps_bind keeps_look)
  fix sc
  have "J (c\<lparr>co_script := fs, co_providers := ps\<rparr>)" if "J c" for c fs ps
    using frame(2) [OF frame(5) [OF that]] .
  then show "keeps J (case sc of [] \<Rightarrow> State_Monad.return () | f # fs \<Rightarrow> do {
         change (\<lambda>c. c\<lparr>co_script := fs, co_providers := (\<lambda>k. if_steps f k (co_providers c k))\<rparr>);
         appends lib (if_appends f)
       })"
    by (cases sc) (auto intro!: hoare keeps_change appends)
qed

lemma releaseProgress: "keeps J (releaseProgress g pg)"
  unfolding releaseProgress_def by (intro hoare basic keeps_change frame)

lemma observeCommit: "keeps J (observeCommit g)"
  unfolding observeCommit_def by (intro hoare basic releaseProgress)

lemma window_observed: "keeps J (window_observed xs)"
  by (induction xs) (auto intro!: hoare basic observeCommit)

lemma add_progress: "J c \<Longrightarrow> J (add_progress ys c)"
proof (induction ys arbitrary: c)
  case (Cons y ys)
  have "J (c\<lparr>co_order := n, co_progress := P\<rparr>)" for n P using frame(3) [OF frame(4) [OF Cons.prems]] .
  with Cons show ?case by simp
qed simp

lemma fillWindow: "keeps J (fillWindow lib)"
  unfolding fillWindow_def prepareWindow_def Let_def by (intro hoare basic window_observed keeps_change add_progress)

lemma run_actions: "keeps J (run_actions lib k i as)"
  by (induction as) (auto intro!: hoare basic interfere simp: run_action_def)

lemma apply_registered: "keeps J (apply_registered lib g k i work blocked)"
  unfolding apply_registered_def applyIngress_def ctx_error_def by (intro hoare basic interfere run_actions)

lemma apply_one: "keeps J (apply_one lib g blocked providers)"
  unfolding apply_one_def apply_entry_def prepare_work_def reserve_and_apply_def ctx_error_def by (intro hoare basic apply_registered)

lemma apply_loop: "keeps J (apply_loop lib gs blocked providers)"
proof (induction gs arbitrary: blocked providers)
  case (Cons g gs)
  have "keeps J (case out of Stop err \<Rightarrow> State_Monad.return (err, ps) | Continue bl \<Rightarrow> apply_loop lib gs bl ps)" for out ps
    by (cases out) (auto intro: hoare Cons)
  then show ?case unfolding apply_loop.simps ctx_error_def by (intro hoare basic interfere apply_one)
qed (simp add: keeps_return)

lemma seal_all: "keeps J (seal_all ks)"
  by (induction ks) (auto intro!: hoare basic)

lemma commit_loop: "keeps J (commit_loop lib gs combined)"
  by (induction gs arbitrary: combined) (auto intro!: hoare basic interfere releaseProgress keeps_change frame)

end

sublocale frame_inv \<subseteq> pass_inv lib J "\<lambda>_ _. True" "\<lambda>_. True" for lib
proof
  show "keeps J (applyWindow lib)" unfolding applyWindow_def by (intro hoare basic apply_loop seal_all)
  show "keeps J (commitEligible lib)" unfolding commitEligible_def by (intro hoare basic commit_loop)
  show "keeps J (ExpireStale lib cutoff)" for cutoff unfolding ExpireStale_def by (intro hoare basic)
qed (auto intro: basic interfere fillWindow appender frame)

end
