(* ===== verification/Delivery_Evolution.thy ===== *)
theory Delivery_Evolution
  imports Ingress_Delivery_Safety
begin

text \<open>
  How the state of a provider evolves, as its clients see it: events are only added, receipts keep which
  signals are excluded and stay poisoned, and the provider's own goroutines touch no receipt that is reserved or
  being built and record no application.
\<close>

section \<open>Evolution\<close>

definition eview where
  "eview p = (pv_heap p, pv_events p, pv_metricsExcluded p, pv_logsExcluded p)"

definition exclusions :: "IngressReceipt \<Rightarrow> bool \<times> bool" where
  "exclusions r = (ir_metricsExcluded r, ir_logsExcluded r)"

definition heap_evolves :: "(nat \<Rightarrow> IngressReceipt option) \<Rightarrow> (nat \<Rightarrow> IngressReceipt option) \<Rightarrow> bool \<times> bool \<Rightarrow> bool" where
  "heap_evolves h h' ex \<longleftrightarrow>
     (\<forall>i r. h i = Some r \<longrightarrow> (\<exists>r'. h' i = Some r' \<and> exclusions r' = exclusions r \<and> (ir_phase r = Poisoned \<longrightarrow> ir_phase r' = Poisoned))) \<and>
     (\<forall>i r. h i = None \<longrightarrow> h' i = Some r \<longrightarrow> exclusions r = ex)"

definition evolves :: "Provider \<Rightarrow> Provider \<Rightarrow> bool" where
  "evolves p q \<longleftrightarrow> (\<exists>es. pv_events q = pv_events p @ es) \<and> pv_metricsExcluded q = pv_metricsExcluded p \<and>
     pv_logsExcluded q = pv_logsExcluded p \<and> heap_evolves (pv_heap p) (pv_heap q) (pv_metricsExcluded p, pv_logsExcluded p)"

lemma eview_simps [simp]:
  "eview (upd_stats f p) = eview p" "eview (p\<lparr>pv_failed := b\<rparr>) = eview p" "eview (p\<lparr>pv_collectFailing := b\<rparr>) = eview p"
  "eview (p\<lparr>pv_terminal := b\<rparr>) = eview p" "eview (p\<lparr>pv_terminalAttempted := b\<rparr>) = eview p" "eview (p\<lparr>pv_logFailures := n\<rparr>) = eview p"
  "eview (p\<lparr>pv_slotPc := pc\<rparr>) = eview p" "eview (p\<lparr>pv_exportPc := epc\<rparr>) = eview p" "eview (p\<lparr>pv_logging := lg\<rparr>) = eview p"
  "eview (p\<lparr>pv_slot := n\<rparr>) = eview p" "eview (p\<lparr>pv_openGroup := og\<rparr>) = eview p" "eview (upd_head h p) = eview p"
  "eview (p\<lparr>pv_workSequence := n\<rparr>) = eview p" "eview (p\<lparr>pv_collections := cs\<rparr>) = eview p" "eview (p\<lparr>pv_stage := st\<rparr>) = eview p"
  "eview (p\<lparr>pv_groups := gs\<rparr>) = eview p" "eview (p\<lparr>pv_receipts := rs\<rparr>) = eview p" "eview (upd_group g gf p) = eview p"
  "eview (removeGroupLocked g p) = eview p" "eview (close_open_group p) = eview p" "eview (snd (makeCreditLocked p)) = eview p"
  by (auto simp: eview_def upd_stats_def upd_head_def upd_group_def removeGroupLocked_def close_open_group_def makeCreditLocked_def
      split: option.split list.split)

lemma eview_eq:
  "eview q = eview p \<longleftrightarrow> pv_heap q = pv_heap p \<and> pv_events q = pv_events p \<and> pv_metricsExcluded q = pv_metricsExcluded p \<and>
     pv_logsExcluded q = pv_logsExcluded p"
  by (simp add: eview_def)

lemma evolves_refl [simp]: "evolves p p"
  by (simp add: evolves_def heap_evolves_def)

lemma heap_evolves_trans:
  assumes "heap_evolves h h' ex" "heap_evolves h' h'' ex"
  shows "heap_evolves h h'' ex"
  unfolding heap_evolves_def
proof (intro conjI allI impI)
  fix i r assume "h i = Some r"
  with assms(1) obtain r' where r': "h' i = Some r'" "exclusions r' = exclusions r" "ir_phase r = Poisoned \<longrightarrow> ir_phase r' = Poisoned"
    unfolding heap_evolves_def by blast
  with assms(2) obtain r'' where "h'' i = Some r''" "exclusions r'' = exclusions r'" "ir_phase r' = Poisoned \<longrightarrow> ir_phase r'' = Poisoned"
    unfolding heap_evolves_def by blast
  with r' show "\<exists>r''. h'' i = Some r'' \<and> exclusions r'' = exclusions r \<and> (ir_phase r = Poisoned \<longrightarrow> ir_phase r'' = Poisoned)" by simp
next
  fix i r assume n: "h i = None" "h'' i = Some r"
  show "exclusions r = ex"
  proof (cases "h' i")
    case None
    with n(2) assms(2) show ?thesis unfolding heap_evolves_def by blast
  next
    case (Some r')
    with n(1) assms(1) have "exclusions r' = ex" unfolding heap_evolves_def by blast
    moreover from Some assms(2) obtain r'' where "h'' i = Some r''" "exclusions r'' = exclusions r'" unfolding heap_evolves_def by blast
    ultimately show ?thesis using n(2) by simp
  qed
qed

lemma evolves_trans: "evolves p q \<Longrightarrow> evolves q r \<Longrightarrow> evolves p r"
  by (auto simp: evolves_def intro: heap_evolves_trans)

lemma evolves_eview: "eview q' = eview q \<Longrightarrow> evolves p q \<Longrightarrow> evolves p q'"
  by (simp add: evolves_def eview_eq)

section \<open>Quiet steps\<close>

definition quiet :: "Provider \<Rightarrow> Provider \<Rightarrow> bool" where
  "quiet p q \<longleftrightarrow> evolves p q \<and> (\<forall>i. applied_of i (pv_events q) = applied_of i (pv_events p)) \<and>
     (\<forall>i r. pv_heap p i = Some r \<longrightarrow> ir_phase r \<in> {Reserved, Building} \<longrightarrow> pv_heap q i = Some r)"

lemma quiet_refl [simp]: "quiet p p"
  by (simp add: quiet_def)

lemma quiet_trans: "quiet p q \<Longrightarrow> quiet q r \<Longrightarrow> quiet p r"
  unfolding quiet_def by (auto intro: evolves_trans)

lemma quiet_eview: "eview q' = eview q \<Longrightarrow> quiet p q \<Longrightarrow> quiet p q'"
  unfolding quiet_def using evolves_eview by (simp add: eview_eq)

lemma quiet_upd:
  assumes "\<And>r. pv_heap p i = Some r \<Longrightarrow> exclusions (f r) = exclusions r \<and> (ir_phase r = Poisoned \<longrightarrow> ir_phase (f r) = Poisoned) \<and>
    (ir_phase r \<in> {Reserved, Building} \<longrightarrow> f r = r)"
  shows "quiet p (upd_receipt i f p)"
  using assms by (auto simp: quiet_def evolves_def heap_evolves_def upd_receipt_def)

lemma quiet_event: "(\<And>i. applied_by i ev = None) \<Longrightarrow> quiet p (note_event ev p)"
  by (auto simp: quiet_def evolves_def heap_evolves_def note_event_def)

text \<open>Receipts that are past their application.\<close>

definition built :: "Provider \<Rightarrow> nat \<Rightarrow> bool" where
  "built p i \<longleftrightarrow> (\<forall>r. pv_heap p i = Some r \<longrightarrow> ir_phase r \<notin> {Reserved, Building})"

lemma quiet_poison: "built p i \<Longrightarrow> quiet p (poison i p)"
  unfolding poison_def by (rule quiet_upd) (auto simp: exclusions_def built_def)

lemma built_upd: "built p j \<Longrightarrow> (\<And>r. ir_phase r \<notin> {Reserved, Building} \<Longrightarrow> ir_phase (f r) \<notin> {Reserved, Building}) \<Longrightarrow> built (upd_receipt i f p) j"
  by (auto simp: built_def upd_receipt_def split: if_splits)

lemma quiet_fold:
  assumes "\<And>p i. built p i \<Longrightarrow> quiet p (f i p)" "\<And>p i j. built p j \<Longrightarrow> built (f i p) j" "\<forall>i \<in> set ms. built p i"
  shows "quiet p (fold f ms p)"
  using assms(3)
proof (induction ms arbitrary: p)
  case (Cons m ms)
  have "quiet p (f m p)" using Cons.prems assms(1) by simp
  moreover have "quiet (f m p) (fold f ms (f m p))" using Cons.prems assms(2) by (intro Cons.IH) simp
  ultimately show ?case by (auto intro: quiet_trans)
qed simp

lemma built_poison: "built p j \<Longrightarrow> built (poison i p) j"
  unfolding poison_def by (rule built_upd) auto

lemma quiet_poison_all: "\<forall>i \<in> set ms. built p i \<Longrightarrow> quiet p (poison_all ms p)"
  unfolding poison_all_def by (rule quiet_fold) (auto intro: quiet_poison built_poison)

lemma quiet_cover: "\<forall>i \<in> set ms. built p i \<Longrightarrow> quiet p (fold (cover cid) ms p)"
proof (rule quiet_fold)
  show "built p i \<Longrightarrow> quiet p (cover cid i p)" for p i
    unfolding cover_def by (rule quiet_upd) (auto simp: exclusions_def built_def)
  show "built p j \<Longrightarrow> built (cover cid i p) j" for p i j
    unfolding cover_def by (rule built_upd) auto
qed

lemma quiet_ack: "\<forall>i \<in> set ms. built p i \<Longrightarrow> quiet p (fold ack_metrics ms p)"
proof (rule quiet_fold)
  show "built p i \<Longrightarrow> quiet p (ack_metrics i p)" for p i
    unfolding ack_metrics_def by (rule quiet_upd) (auto simp: exclusions_def built_def settle_phase_eq)
  show "built p j \<Longrightarrow> built (ack_metrics i p) j" for p i j
    unfolding ack_metrics_def by (rule built_upd) (auto simp: settle_phase_eq)
qed

lemma stage_built: "inv p \<Longrightarrow> pv_stage p = Some s \<Longrightarrow> i \<in> set (ps_members s) \<Longrightarrow> built p i"
  unfolding inv_def stage_ok_def staged_def built_def by fastforce

lemma collection_built: "inv p \<Longrightarrow> c \<in> set (pv_collections p) \<Longrightarrow> i \<in> set (mc_members c) \<Longrightarrow> built p i"
  unfolding inv_def coll_ok_def member_of_def built_def by fastforce

section \<open>The goroutines are quiet\<close>

lemma eview_begin: "eview (collect_begin cid hasBefore p) = eview p"
proof -
  have "eview (case pv_stage q of Some _ \<Rightarrow> q | None \<Rightarrow> if b then (close_open_group q)\<lparr>pv_stage := st\<rparr> else close_open_group q) = eview q"
    for q b st by (simp split: option.split)
  then show ?thesis unfolding collect_begin_def Let_def by simp
qed

lemma eview_credit: "makeCreditLocked p = (b, q) \<Longrightarrow> eview q = eview p"
  using eview_simps(21) [of p] by simp

lemma eview_admit: "lifecycle_admit p = (b, q) \<Longrightarrow> eview q = eview p"
proof -
  assume a: "lifecycle_admit p = (b, q)"
  let ?p1 = "close_open_group (p\<lparr>pv_terminalAttempted := True\<rparr>)"
  obtain ok r where m: "makeCreditLocked ?p1 = (ok, r)" by fastforce
  have "eview r = eview p" using eview_credit [OF m] by simp
  with a show ?thesis unfolding lifecycle_admit_def Let_def m prod.case by (auto split: if_splits)
qed

lemma eview_failure: "eview (collectFailure p) = eview p"
proof -
  let ?p1 = "(upd_stats (\<lambda>s. s\<lparr>CollectFailures := CollectFailures s + 1\<rparr>) p)\<lparr>pv_collectFailing := True\<rparr>"
  obtain ok r where m: "makeCreditLocked ?p1 = (ok, r)" by fastforce
  have "eview r = eview p" using eview_credit [OF m] by simp
  then show ?thesis unfolding collectFailure_def Let_def m prod.case by (simp split: option.split)
qed

lemma quiet_emit_members:
  assumes "\<forall>i \<in> set ms. built p i" "emit_members panics ms p = (err, q)"
  shows "quiet p q \<and> (\<forall>i. built p i \<longrightarrow> built q i)"
  using assms
proof (induction panics ms p rule: emit_members.induct)
  case (2 panics m ms p)
  show ?case
  proof (cases "pv_heap p m = None \<or> (\<exists>r. pv_heap p m = Some r \<and> ir_program r = None)")
    case True
    with 2 show ?thesis by auto
  next
    case False
    then obtain r pr where r: "pv_heap p m = Some r" "ir_program r = Some pr" by auto
    obtain pr' es e where emit: "EmitOnce (panics m) pr = (pr', es, e)" by (rule prod_cases3)
    define p1 where "p1 = (upd_receipt m (\<lambda>r. r\<lparr>ir_program := Some pr'\<rparr>) p)\<lparr>pv_events := pv_events p @ map (Emitted m) es\<rparr>"
    have "quiet p (upd_receipt m (\<lambda>r. r\<lparr>ir_program := Some pr'\<rparr>) p)"
      using "2.prems"(1) by (intro quiet_upd) (auto simp: exclusions_def built_def)
    then have q1: "quiet p p1" by (auto simp: quiet_def evolves_def p1_def upd_receipt_def emitted_of_map)
    have b1: "built p i \<Longrightarrow> built p1 i" for i by (auto simp: built_def p1_def upd_receipt_def split: if_splits)
    show ?thesis
    proof (cases e)
      case True
      with "2.prems"(2) r emit have "q = poison m p1" by (simp add: p1_def Let_def)
      moreover have "quiet p1 (poison m p1)" using b1 "2.prems"(1) by (intro quiet_poison) simp
      ultimately show ?thesis using q1 b1 by (auto intro: quiet_trans built_poison)
    next
      case False
      with "2.prems"(2) r emit have "emit_members panics ms p1 = (err, q)" by (simp add: p1_def Let_def)
      moreover have "\<forall>i \<in> set ms. built p1 i" using "2.prems"(1) b1 by simp
      ultimately have "quiet p1 q \<and> (\<forall>i. built p1 i \<longrightarrow> built q i)"
        using "2.IH"(3) [OF r, of pr' "(es, e)" es e] emit False by (simp add: p1_def)
      with q1 b1 show ?thesis by (auto intro: quiet_trans)
    qed
  qed
qed simp

lemma quiet_materialize:
  assumes "inv p"
  shows "quiet p (collect_materialize fails panics cid p)"
proof (cases "pv_stage p")
  case None
  then show ?thesis by (intro quiet_eview [OF _ quiet_refl]) (simp add: collect_materialize_def)
next
  case (Some s)
  show ?thesis
  proof (cases "ps_materialized s")
    case True
    with Some show ?thesis by (intro quiet_eview [OF _ quiet_refl]) (simp add: collect_materialize_def)
  next
    case False
    obtain err q where e: "(if ps_ordinary s \<and> fails then (True, p) else emit_members panics (ps_members s) p) = (err, q)" by fastforce
    have "\<forall>i \<in> set (ps_members s). built p i" using stage_built [OF assms Some] by simp
    with e quiet_emit_members [of "ps_members s" p panics err q] have q: "quiet p q" "\<forall>i \<in> set (ps_members s). built q i"
      by (auto split: if_splits)
    then have "quiet p (poison_all (ps_members s) q)" by (intro quiet_trans [OF q(1)] quiet_poison_all)
    with q(1) have "quiet p (if err then poison_all (ps_members s) q else q)" by simp
    moreover have "eview (collect_materialize fails panics cid p) = eview (if err then poison_all (ps_members s) q else q)"
      using Some False e by (simp add: collect_materialize_def Let_def)
    ultimately show ?thesis by (rule quiet_eview [rotated])
  qed
qed

lemma quiet_retain:
  assumes "inv p" "pv_stage p = stage"
  shows "quiet p (retain_collection cid stage parts p)"
proof -
  let ?ms = "case stage of Some s \<Rightarrow> (if ps_group s = None then [] else ps_members s) | None \<Rightarrow> []"
  have "\<forall>i \<in> set ?ms. built p i" using stage_built [OF assms(1)] assms(2) by (cases stage) auto
  then have "quiet p (fold (cover cid) ?ms p)" by (rule quiet_cover)
  moreover have "quiet q (note_event (Covers cid ms parts) q)" for q ms by (rule quiet_event) simp
  ultimately have "quiet p (note_event (Covers cid ms parts) (fold (cover cid) ?ms p))" for ms by (rule quiet_trans)
  moreover have "eview (retain_collection cid stage parts p) = eview (note_event (Covers cid ?ms parts) (fold (cover cid) ?ms p))"
    unfolding retain_collection_def Let_def by (simp add: eview_def note_event_def removeGroupLocked_def split: option.split)
  ultimately show ?thesis using quiet_eview by blast
qed

lemma quiet_collect_finish:
  assumes p: "inv p" and pc: "pv_slotPc p = SlotReady cid"
  shows "quiet p (collect_finish data cid p)"
proof -
  define p0 where "p0 = note_event (Collected cid data) p"
  have p0: "inv p0" "quiet p p0" using p by (auto simp: p0_def intro: inv_event quiet_event)
  have "quiet p0 (collect_success d cid p0)" for d
  proof -
    define p1 where "p1 = (upd_stats (\<lambda>s. s\<lparr>SnapshotsCollected := SnapshotsCollected s + 1\<rparr>) p0)\<lparr>pv_collectFailing := False\<rparr>"
    have i1: "inv p1" unfolding p1_def inv_stats by (rule p0(1))
    have f1: "eview p1 = eview p0" "pv_stage p1 = pv_stage p0" by (simp_all add: p1_def) (simp add: upd_stats_def)
    define credit where "credit = ((case pv_stage p0 of None \<Rightarrow> False | Some s \<Rightarrow> ps_group s \<noteq> None) \<or>
      (case pv_stage p0 of None \<Rightarrow> False | Some s \<Rightarrow> ps_ordinaryCredit s))"
    obtain keep q where c: "(if credit then (True, p1) else makeCreditLocked p1) = (keep, q)" by fastforce
    have q: "inv q" "eview q = eview p0" "pv_stage q = pv_stage p0"
      using c i1 f1 inv_credit [OF i1, of keep q] eview_credit [of p1 keep q] credit_frame [of p1 keep q] by (auto split: if_splits)
    have q0: "quiet p0 q" by (rule quiet_eview [OF q(2) quiet_refl])
    let ?ms = "case pv_stage p0 of None \<Rightarrow> [] | Some s \<Rightarrow> ps_members s"
    have "\<forall>i \<in> set ?ms. built q i" using stage_built [OF q(1)] q(3) by (cases "pv_stage p0") auto
    then have "\<forall>i \<in> set ?ms. built (q\<lparr>pv_failed := True\<rparr>) i" by (simp add: built_def)
    then have "quiet (q\<lparr>pv_failed := True\<rparr>) (poison_all ?ms (q\<lparr>pv_failed := True\<rparr>))" by (rule quiet_poison_all)
    moreover have "quiet p0 (q\<lparr>pv_failed := True\<rparr>)" by (rule quiet_eview [OF _ q0]) simp
    ultimately have bad: "quiet p0 (collectFailure (poison_all ?ms (q\<lparr>pv_failed := True\<rparr>)))"
      by (intro quiet_eview [OF eview_failure]) (rule quiet_trans)
    have full: "quiet p0 (upd_stats g (q\<lparr>pv_stage := None\<rparr>))" for g by (rule quiet_eview [OF _ q0]) simp
    have good: "quiet p0 (retain_collection cid (pv_stage p0) parts q)" for parts
      using quiet_retain [OF q(1,3)] by (intro quiet_trans [OF q0])
    have "collect_success d cid p0 = (if keep
        then case freezeMetricParts d (pv_batchSize q) of
               Some (Some parts) \<Rightarrow> retain_collection cid (pv_stage p0) parts q
             | _ \<Rightarrow> collectFailure (poison_all ?ms (q\<lparr>pv_failed := True\<rparr>))
        else upd_stats (\<lambda>s. s\<lparr>BestEffortDiscardedFull := BestEffortDiscardedFull s + 1\<rparr>) (q\<lparr>pv_stage := None\<rparr>))"
      unfolding collect_success_def Let_def p1_def [symmetric] credit_def [symmetric] c by simp
    with bad full good show ?thesis by (auto split: option.splits)
  qed
  moreover have "quiet p0 (collectFailure p0)" by (rule quiet_eview [OF eview_failure quiet_refl])
  ultimately have "quiet p (case data of None \<Rightarrow> collectFailure p0 | Some d \<Rightarrow> collect_success d cid p0)"
    using p0(2) by (auto split: option.split intro: quiet_trans)
  moreover have "eview (collect_finish data cid p) = eview (case data of None \<Rightarrow> collectFailure p0 | Some d \<Rightarrow> collect_success d cid p0)"
    unfolding collect_finish_def Let_def p0_def [symmetric] by simp
  ultimately show ?thesis by (rule quiet_eview [rotated])
qed

lemma quiet_export_part: "quiet p (export_part raw p)"
proof -
  have "quiet p (note_event (PartExported cid n a) (upd_head f p))" for cid n a f
    by (rule quiet_trans [OF quiet_eview [OF _ quiet_refl] quiet_event]) simp_all
  then have "quiet p ((note_event (PartExported cid n a) (upd_head f p))\<lparr>pv_exportPc := e\<rparr>)" for cid n a f e
    by (rule quiet_eview [rotated]) simp
  then show ?thesis by (simp add: export_part_def Let_def split: list.split option.split)
qed

lemma quiet_export_end: "inv p \<Longrightarrow> quiet p (export_end p)"
proof (cases "pv_collections p")
  case Nil
  then show ?thesis by (simp add: export_end_def)
next
  case (Cons c cs)
  assume p: "inv p"
  have b: "\<forall>i \<in> set (mc_members c). built p i" using collection_built [OF p, of c] Cons by simp
  define ack where "ack = (pv_exportPc p \<noteq> ExportRefused)"
  define dropped where "dropped = (\<not> ack \<and> pv_maxPermanentRejections p \<le> mc_permanentRejections c)"
  define p0 where "p0 = p\<lparr>pv_exportPc := ExportIdle\<rparr>"
  define p1 where "p1 = (if dropped then note_event (CollectionDropped (mc_id c))
    (upd_stats (\<lambda>s. s\<lparr>PermanentMetricsDropped := PermanentMetricsDropped s + 1\<rparr>) p0) else p0)"
  define p2 where "p2 = (fold ack_metrics (mc_members c) p1)\<lparr>pv_collections := cs\<rparr>"
  have q0: "quiet p p0" unfolding p0_def by (rule quiet_eview [OF _ quiet_refl]) simp
  have "quiet p (note_event (CollectionDropped (mc_id c)) (upd_stats f p0))" for f
    by (rule quiet_trans [OF quiet_eview [OF _ q0] quiet_event]) simp_all
  then have q1: "quiet p p1" using q0 by (simp add: p1_def)
  have "pv_heap p1 = pv_heap p" by (simp add: p1_def p0_def note_event_def upd_stats_def)
  then have "quiet p (fold ack_metrics (mc_members c) p1)" using b by (intro quiet_trans [OF q1] quiet_ack) (simp add: built_def)
  then have q2: "quiet p p2" unfolding p2_def by (rule quiet_eview [rotated]) simp
  have "quiet p (if mc_required c \<and> \<not> dropped then upd_stats g p2 else p2)" for g
    by (rule quiet_eview [OF _ q2]) simp
  moreover have "quiet p (p0\<lparr>pv_collections := ds\<rparr>)" for ds by (rule quiet_eview [OF _ q0]) simp
  ultimately show ?thesis
    unfolding export_end_def Cons list.case Let_def ack_def [symmetric] dropped_def [symmetric] p0_def [symmetric] p1_def [symmetric]
      p2_def [symmetric] by simp
qed

lemma quiet_logs_end: "inv p \<Longrightarrow> quiet p (logs_end err p)"
proof (cases "pv_logging p")
  case None
  then show ?thesis by (simp add: logs_end_def)
next
  case (Some l)
  assume p: "inv p"
  obtain i off en where "l = (i, off, en)" by (rule prod_cases3)
  with Some have lg: "pv_logging p = Some (i, off, en)" by simp
  with p obtain r where r: "pv_heap p i = Some r" "logged off en r" by (auto simp: inv_def logging_ok_alt)
  define n1 where "n1 ch a = note_event (LogsExported i ch a) (p\<lparr>pv_logging := None\<rparr>)" for ch a
  define n2 where "n2 ch a f = note_event (LogsDropped i ch) (upd_stats f (n1 ch a))" for ch a f
  have q1: "quiet p (n1 ch a)" "pv_heap (n1 ch a) = pv_heap p" for ch a
    unfolding n1_def by (rule quiet_trans [OF quiet_eview [OF _ quiet_refl] quiet_event]) (simp_all add: note_event_def)
  have q2: "quiet p (n2 ch a f)" "pv_heap (n2 ch a f) = pv_heap p" for ch a f
    unfolding n2_def
    by (rule quiet_trans [OF quiet_eview [OF _ q1(1) [of ch a]] quiet_event], simp, simp) (simp add: note_event_def upd_stats_def q1(2))
  have upd: "quiet p (upd_receipt i g q)" if "quiet p q" "pv_heap q = pv_heap p" "exclusions (g r) = exclusions r"
    "ir_phase r = Poisoned \<longrightarrow> ir_phase (g r) = Poisoned" for g q
    using that r by (intro quiet_trans [OF that(1)] quiet_upd) (auto simp: logged_def)
  have ls: "exclusions (logs_settled off en r) = exclusions r" "ir_phase r = Poisoned \<longrightarrow> ir_phase (logs_settled off en r) = Poisoned"
    using settled_phase [of off en r] by (auto simp: exclusions_def settled_frame)
  have A: "quiet p ((upd_receipt i (logs_settled off en) q)\<lparr>pv_logFailures := n\<rparr>)" if "quiet p q" "pv_heap q = pv_heap p" for q n
    by (rule quiet_eview [OF _ upd [of _ "logs_settled off en", OF that ls]]) simp
  have B: "quiet p ((upd_receipt i (\<lambda>r. r\<lparr>ir_logPermanentRejections := k\<rparr>) q)\<lparr>pv_logFailures := n\<rparr>)"
    if "quiet p q" "pv_heap q = pv_heap p" for q n k
    by (rule quiet_eview [OF _ upd [of _ "\<lambda>r. r\<lparr>ir_logPermanentRejections := k\<rparr>", OF that]]) (simp_all add: exclusions_def)
  show ?thesis
    unfolding logs_end_def lg option.case prod.case r(1) Let_def n1_def [symmetric] n2_def [symmetric]
    using A [OF q1] A [OF q2] B [OF q1] by simp
qed

lemma eview_logs_begin: "eview (logs_begin p) = eview p"
  by (simp add: logs_begin_def Let_def split: list.split option.split)

theorem background_quiet:
  assumes "background p q" "inv p"
  shows "quiet p q"
  using assms
proof (induction rule: background.induct)
  case (slot p hasBefore)
  then show ?case by (intro quiet_eview [OF _ quiet_refl]) (simp add: eview_begin)
next
  case (terminal_slot p p' reason hasBefore)
  then show ?case by (intro quiet_eview [OF _ quiet_refl]) (simp add: eview_begin eview_admit)
next
  case (terminal_skip p p')
  then show ?case by (intro quiet_eview [OF _ quiet_refl]) (rule eview_admit)
next
  case (export_starts p)
  then show ?case by (intro quiet_eview [OF _ quiet_refl]) (simp add: export_begin_def)
next
  case (logs_starts p)
  then show ?case by (intro quiet_eview [OF _ quiet_refl]) (rule eview_logs_begin)
next
  case (shutdown p)
  then show ?case by (intro quiet_eview [OF _ quiet_refl]) (simp add: lifecycle_seal_def)
qed (blast intro: quiet_materialize quiet_collect_finish quiet_export_part quiet_export_end quiet_logs_end)+

section \<open>What callers do\<close>

text \<open>A call about receipt \<open>i\<close> leaves the others and what was recorded of them alone.\<close>

definition touches :: "nat \<Rightarrow> Provider \<Rightarrow> Provider \<Rightarrow> bool" where
  "touches i p q \<longleftrightarrow> evolves p q \<and> (\<forall>j. j \<noteq> i \<longrightarrow> pv_heap q j = pv_heap p j \<and> applied_of j (pv_events q) = applied_of j (pv_events p))"

lemma touches_refl [simp]: "touches i p p"
  by (simp add: touches_def)

lemma touches_trans: "touches i p q \<Longrightarrow> touches i q r \<Longrightarrow> touches i p r"
  unfolding touches_def by (auto intro: evolves_trans)

lemma touches_eview: "eview q' = eview q \<Longrightarrow> touches i p q \<Longrightarrow> touches i p q'"
  unfolding touches_def using evolves_eview by (simp add: eview_eq)

lemma touches_upd:
  assumes "\<And>r. pv_heap p i = Some r \<Longrightarrow> exclusions (f r) = exclusions r \<and> (ir_phase r = Poisoned \<longrightarrow> ir_phase (f r) = Poisoned)"
  shows "touches i p (upd_receipt i f p)"
  using assms by (auto simp: touches_def evolves_def heap_evolves_def upd_receipt_def)

lemma touches_applied: "touches i p (note_event (Applied i ops recs) p)"
  by (auto simp: touches_def evolves_def heap_evolves_def note_event_def)

lemma touches_poison: "touches i p (poison i p)"
  unfolding poison_def by (rule touches_upd) (simp add: exclusions_def)

lemma eview_reserve_group: "reserve_group p = Some (grp, q) \<Longrightarrow> eview q = eview p"
proof -
  assume a: "reserve_group p = Some (grp, q)"
  obtain ok r where m: "makeCreditLocked p = (ok, r)" by fastforce
  from a eview_credit [OF m] show ?thesis
    unfolding reserve_group_def m prod.case Let_def by (auto split: if_splits simp: eview_def)
qed

lemma reserve_ingress_spec:
  assumes p: "inv p" and res: "ReserveIngress b p = (Inr i, q)"
  shows "touches i p q \<and> pv_heap p i = None \<and> applied_of i (pv_events q) = [] \<and>
    (\<exists>r pr. pv_heap q i = Some r \<and> ir_phase r = Reserved \<and> ir_program r = Some pr \<and> mp_operations pr = [] \<and> ir_records r = [] \<and>
       exclusions r = (pv_metricsExcluded p, pv_logsExcluded p))"
proof -
  from res obtain grp p1 where g: "reserve_group p = Some (grp, p1)" by (auto simp: ReserveIngress_def Let_def split: if_splits option.splits)
  note v = eview_reserve_group [OF g]
  let ?p2 = "p1\<lparr>pv_workSequence := i, pv_heap := (pv_heap p1)(i \<mapsto> new_receipt b grp p1)\<rparr>"
  have i: "i = Suc (pv_workSequence p1)" using res g by (auto simp: ReserveIngress_def Let_def split: if_splits option.splits)
  have sq: "pv_workSequence p1 = pv_workSequence p"
  proof -
    obtain ok r where m: "makeCreditLocked p = (ok, r)" by fastforce
    with g credit_frame [OF m] show ?thesis by (auto simp: reserve_group_def Let_def split: if_splits)
  qed
  have q: "eview q = eview ?p2"
    using res g by (auto simp: ReserveIngress_def Let_def i eview_def upd_group_def split: if_splits option.splits)
  have new: "pv_heap p i = None" "list_all (silent i) (pv_events p)"
    using p i sq unfolding inv_def heap_ok_def by (auto dest: not_le_imp_less) (metis Suc_n_not_le_n not_None_eq)
  have "touches i p ?p2"
    using v new(1) by (auto simp: touches_def evolves_def heap_evolves_def eview_eq new_receipt_def exclusions_def)
  then have "touches i p q" by (rule touches_eview [OF q])
  moreover have "applied_of i (pv_events q) = []" using silent_of [OF new(2)] q v by (simp add: eview_eq)
  moreover have "\<exists>r pr. pv_heap q i = Some r \<and> ir_phase r = Reserved \<and> ir_program r = Some pr \<and> mp_operations pr = [] \<and> ir_records r = [] \<and>
       exclusions r = (pv_metricsExcluded p, pv_logsExcluded p)"
    using q v by (simp add: eview_eq new_receipt_def exclusions_def)
  ultimately show ?thesis using new(1) by blast
qed

lemma reserve_refused: "ReserveIngress b p = (Inl e, q) \<Longrightarrow> q = p"
  by (auto simp: ReserveIngress_def Let_def split: if_splits option.splits)

lemma eview_release_unstarted: "eview (snd (ReleaseUnstarted i p)) = eview p"
  by (simp add: ReleaseUnstarted_def Let_def split: option.split)

lemma eview_release: "eview (snd (ReleaseIngress i p)) = eview p"
  by (simp add: ReleaseIngress_def)

lemma eview_seal: "eview (SealIngress p) = eview p"
  by (simp add: SealIngress_def)

lemma touches_apply_begin: "touches i p (snd (apply_begin i b h c p))"
proof (cases "snd (apply_begin i b h c p) = p")
  case False
  then have "snd (apply_begin i b h c p) = upd_receipt i (\<lambda>r. r\<lparr>ir_phase := Building\<rparr>) p" "\<exists>r. pv_heap p i = Some r \<and> ir_phase r = Reserved"
    by (auto simp: apply_begin_def split: option.splits if_splits)
  then show ?thesis by (auto simp: exclusions_def intro!: touches_upd)
qed simp

lemma touches_record_metric: "touches i p (record_metric i op p)"
  unfolding record_metric_def
  by (auto split: option.split prod.split simp: touches_poison exclusions_def intro!: touches_upd)

lemma touches_OnEmit: "touches i p (OnEmit i rec p)"
  unfolding OnEmit_def by (auto split: option.split simp: touches_poison exclusions_def intro!: touches_upd)

lemma touches_apply_finish: "touches i p (snd (apply_finish i failed p))"
proof -
  define p1 where "p1 = upd_receipt i seal_receipt p"
  have t1: "touches i p p1" unfolding p1_def by (rule touches_upd) (simp add: seal_receipt_def exclusions_def)
  have "touches i p ((poison i p)\<lparr>pv_failed := True\<rparr>)" by (rule touches_eview [OF _ touches_poison]) simp
  moreover have "touches i p (p1\<lparr>pv_failed := True\<rparr>)" by (rule touches_eview [OF _ t1]) simp
  moreover have "touches i p (note_event (Applied i ops recs) (upd_receipt i ready_receipt p1))" if "pv_heap p1 i = Some r" "ir_phase r \<noteq> Poisoned" for ops recs r
    by (rule touches_trans [OF touches_trans [OF t1 touches_upd] touches_applied])
      (use that in \<open>simp add: ready_receipt_def exclusions_def\<close>)
  ultimately show ?thesis using t1
    unfolding apply_finish_def Let_def p1_def [symmetric] by (simp split: option.split)
qed

end
