(* ===== verification/Ingress_Coordinator_Safety.thy ===== *)
theory Ingress_Coordinator_Safety
  imports Coordinator_Passes Delivery_Evolution
begin

text \<open>
  What the coordinator promises across the log and the providers: it asks the log to complete an original only
  after the work prepared from exactly that original has been delivered, and until then a crash at
  any instant leaves the original to be recovered.
\<close>

section \<open>What work leaves in a provider\<close>

definition recorded_op :: "metricOperation \<Rightarrow> metricOperation" where
  "recorded_op op = op\<lparr>mo_attrs := (case copyMetricAttrs (mo_attrs op) of None \<Rightarrow> None | Some (a, _) \<Rightarrow> a)\<rparr>"

fun metric_of :: "work_action \<Rightarrow> metricOperation option" where
  "metric_of (EmitMetric op) = Some (recorded_op op)"
| "metric_of (EmitLog rec) = None"

fun log_of :: "work_action \<Rightarrow> log_record option" where
  "log_of (EmitMetric op) = None"
| "log_of (EmitLog rec) = Some rec"

definition work_metrics :: "bool \<Rightarrow> work_action list \<Rightarrow> metricOperation list" where
  "work_metrics excluded acts = (if excluded then [] else List.map_filter metric_of acts)"

definition work_logs :: "bool \<Rightarrow> work_action list \<Rightarrow> log_record list" where
  "work_logs excluded acts = (if excluded then [] else List.map_filter log_of acts)"

lemma work_snoc:
  "work_metrics b (acts @ [a]) = work_metrics b acts @ (if b then [] else case metric_of a of None \<Rightarrow> [] | Some x \<Rightarrow> [x])"
  "work_logs b (acts @ [a]) = work_logs b acts @ (if b then [] else case log_of a of None \<Rightarrow> [] | Some x \<Rightarrow> [x])"
  by (auto simp: work_metrics_def work_logs_def map_filter_append List.map_filter_simps split: option.split)

text \<open>The work was applied once and all it emitted was delivered, signal by signal, unless the provider excludes it.\<close>

definition delivered_work :: "Provider \<Rightarrow> nat \<Rightarrow> IngressWork \<Rightarrow> bool" where
  "delivered_work p i work \<longleftrightarrow> (\<exists>evs rest acts fails. pv_events p = evs @ rest \<and> iw_Apply work = Some (acts, fails) \<and>
     length (applied_of i evs) = 1 \<and>
     (pv_metricsExcluded p \<or> metrics_delivered evs i (work_metrics False acts)) \<and>
     (pv_logsExcluded p \<or> logs_of i evs = work_logs False acts))"

text \<open>The receipt holds what the work emitted, unless it was never started or is poisoned.\<close>

definition linked :: "Provider \<Rightarrow> nat \<Rightarrow> IngressWork \<Rightarrow> bool" where
  "linked p i work \<longleftrightarrow> (\<exists>r. pv_heap p i = Some r \<and> exclusions r = (pv_metricsExcluded p, pv_logsExcluded p) \<and>
     (ir_phase r \<in> {Poisoned, Reserved} \<or>
      (\<exists>acts fails. iw_Apply work = Some (acts, fails) \<and>
         applied_of i (pv_events p) = [(work_metrics (pv_metricsExcluded p) acts, work_logs (pv_logsExcluded p) acts)])))"

definition building :: "Provider \<Rightarrow> nat \<Rightarrow> work_action list \<Rightarrow> bool" where
  "building p i acts \<longleftrightarrow> (\<exists>r. pv_heap p i = Some r \<and> exclusions r = (pv_metricsExcluded p, pv_logsExcluded p) \<and>
     (ir_phase r = Poisoned \<or>
      ir_phase r = Building \<and> applied_of i (pv_events p) = [] \<and> ir_records r = work_logs (pv_logsExcluded p) acts \<and>
      (\<exists>q. ir_program r = Some q \<and> mp_operations q = work_metrics (pv_metricsExcluded p) acts)))"

lemma delivered_evolves: "delivered_work p i work \<Longrightarrow> evolves p q \<Longrightarrow> delivered_work q i work"
  unfolding delivered_work_def evolves_def by (metis append_assoc)

lemma linked_evolves:
  assumes "linked p i work" "evolves p q" "applied_of i (pv_events q) = applied_of i (pv_events p)"
    "\<And>r. pv_heap p i = Some r \<Longrightarrow> ir_phase r = Reserved \<Longrightarrow> pv_heap q i = Some r"
  shows "linked q i work"
proof -
  from assms(1) obtain r where r: "pv_heap p i = Some r" "exclusions r = (pv_metricsExcluded p, pv_logsExcluded p)"
    "ir_phase r \<in> {Poisoned, Reserved} \<or> (\<exists>acts fails. iw_Apply work = Some (acts, fails) \<and>
       applied_of i (pv_events p) = [(work_metrics (pv_metricsExcluded p) acts, work_logs (pv_logsExcluded p) acts)])"
    unfolding linked_def by blast
  from assms(2) r(1) obtain r' where "pv_heap q i = Some r'" "exclusions r' = exclusions r" "ir_phase r = Poisoned \<longrightarrow> ir_phase r' = Poisoned"
    unfolding evolves_def heap_evolves_def by blast
  with r assms(2-4) show ?thesis unfolding linked_def evolves_def by auto
qed

lemma linked_quiet: "linked p i work \<Longrightarrow> quiet p q \<Longrightarrow> linked q i work"
  by (rule linked_evolves [of p]) (auto simp: quiet_def)

lemma linked_touches: "linked p j work \<Longrightarrow> touches i p q \<Longrightarrow> j \<noteq> i \<Longrightarrow> linked q j work"
  by (rule linked_evolves [of p]) (auto simp: touches_def)

lemma linked_eview: "eview q = eview p \<Longrightarrow> linked q i work = linked p i work"
  by (simp add: linked_def eview_eq)

lemma building_quiet: "building p i acts \<Longrightarrow> quiet p q \<Longrightarrow> building q i acts"
proof -
  assume a: "building p i acts" "quiet p q"
  then obtain r where r: "pv_heap p i = Some r" "exclusions r = (pv_metricsExcluded p, pv_logsExcluded p)"
    "ir_phase r = Poisoned \<or> ir_phase r = Building \<and> applied_of i (pv_events p) = [] \<and> ir_records r = work_logs (pv_logsExcluded p) acts \<and>
      (\<exists>q. ir_program r = Some q \<and> mp_operations q = work_metrics (pv_metricsExcluded p) acts)"
    unfolding building_def by blast
  from a(2) r(1) obtain r' where r': "pv_heap q i = Some r'" "exclusions r' = exclusions r" "ir_phase r = Poisoned \<longrightarrow> ir_phase r' = Poisoned"
    unfolding quiet_def evolves_def heap_evolves_def by blast
  have "ir_phase r = Building \<longrightarrow> r' = r" using a(2) r(1) r'(1) unfolding quiet_def by auto
  with a(2) r r' show ?thesis unfolding building_def quiet_def evolves_def by auto
qed

lemma linked_delivered:
  assumes "reachable p" "linked p i work" "Eligible i p"
  shows "delivered_work p i work"
proof -
  from assms(2) obtain r where r: "pv_heap p i = Some r" "exclusions r = (pv_metricsExcluded p, pv_logsExcluded p)"
    "ir_phase r \<in> {Poisoned, Reserved} \<or> (\<exists>acts fails. iw_Apply work = Some (acts, fails) \<and>
       applied_of i (pv_events p) = [(work_metrics (pv_metricsExcluded p) acts, work_logs (pv_logsExcluded p) acts)])"
    unfolding linked_def by blast
  from assms(3) r(1) have "ir_phase r \<notin> {Poisoned, Reserved}" by (auto simp: Eligible_def eligibleLocked_def)
  with r(3) obtain acts fails where a: "iw_Apply work = Some (acts, fails)"
    "applied_of i (pv_events p) = [(work_metrics (pv_metricsExcluded p) acts, work_logs (pv_logsExcluded p) acts)]" by blast
  from eligible_work_delivered [OF assms(1) r(1) assms(3)] a(2) r(2) have
    "pv_metricsExcluded p \<or> metrics_delivered (pv_events p) i (work_metrics False acts)"
    "pv_logsExcluded p \<or> logs_of i (pv_events p) = work_logs False acts"
    by (auto simp: exclusions_def work_metrics_def work_logs_def)
  then show ?thesis using a unfolding delivered_work_def by (metis append_Nil2 length_Cons list.size(3) One_nat_def)
qed

text \<open>The steps of an application.\<close>

lemma building_begin:
  assumes "apply_begin i b h c p = (None, q)" "pv_heap p i = Some r" "ir_program r = Some pr" "mp_operations pr = []" "ir_records r = []"
    "exclusions r = (pv_metricsExcluded p, pv_logsExcluded p)" "applied_of i (pv_events p) = []"
  shows "building q i []"
proof -
  have "q = upd_receipt i (\<lambda>r. r\<lparr>ir_phase := Building\<rparr>) p" using assms(1,2) by (auto simp: apply_begin_def split: if_splits)
  with assms(2-) show ?thesis
    by (simp add: building_def upd_receipt_def exclusions_def work_metrics_def work_logs_def List.map_filter_simps)
qed

lemma program_add_recorded: "program_add op q = (q', False) \<Longrightarrow> mp_operations q' = mp_operations q @ [recorded_op op]"
  by (auto simp: program_add_def Let_def recorded_op_def split: if_splits prod.splits option.splits)

lemma building_poison: "building p i acts \<Longrightarrow> building (poison i p) i acts'"
  by (auto simp: building_def poison_def upd_receipt_def exclusions_def)

lemma building_action:
  assumes "building p i acts"
  shows "building (emit_action i a p) i (acts @ [a])"
proof -
  from assms obtain r where r: "pv_heap p i = Some r" "exclusions r = (pv_metricsExcluded p, pv_logsExcluded p)"
    "ir_phase r = Poisoned \<or> ir_phase r = Building \<and> applied_of i (pv_events p) = [] \<and> ir_records r = work_logs (pv_logsExcluded p) acts \<and>
      (\<exists>q. ir_program r = Some q \<and> mp_operations q = work_metrics (pv_metricsExcluded p) acts)"
    unfolding building_def by blast
  show ?thesis
  proof (cases a)
    case (EmitMetric op)
    show ?thesis
    proof (cases "ir_metricsExcluded r")
      case True
      with EmitMetric r show ?thesis by (auto simp: emit_action_def building_def work_snoc exclusions_def)
    next
      case False
      note me = this
      show ?thesis
      proof (cases "ir_program r")
        case None
        with EmitMetric r(1) False building_poison [OF assms] show ?thesis by (simp add: emit_action_def record_metric_def)
      next
        case (Some q)
        obtain q' bad where add: "program_add op q = (q', bad)" by (rule prod.exhaust)
        show ?thesis
        proof (cases bad)
          case True
          with EmitMetric r(1) me Some add building_poison [OF assms] show ?thesis by (simp add: emit_action_def record_metric_def)
        next
          case False
          with program_add_recorded [of op q q'] add have "mp_operations q' = mp_operations q @ [recorded_op op]" by simp
          with EmitMetric r me Some add False show ?thesis
            by (auto simp: emit_action_def record_metric_def building_def upd_receipt_def work_snoc exclusions_def)
        qed
      qed
    qed
  next
    case (EmitLog rec)
    show ?thesis
    proof (cases "ir_phase r = Poisoned")
      case True
      with EmitLog r(1) building_poison [OF assms] show ?thesis by (simp add: emit_action_def OnEmit_def)
    next
      case False
      let ?full = "lb_Records (wb_Logs (ir_bounds r)) \<le> int (length (ir_records r)) \<or> lb_Bytes (wb_Logs (ir_bounds r)) - ir_recordBytes r < recordCharge rec"
      from False r(3) have b: "ir_phase r = Building" by simp
      consider "ir_logsExcluded r" | "\<not> ir_logsExcluded r" ?full | "\<not> ir_logsExcluded r" "\<not> ?full" by blast
      then show ?thesis
      proof cases
        case 1
        with EmitLog r b show ?thesis by (auto simp: emit_action_def OnEmit_def building_def work_snoc exclusions_def)
      next
        case 2
        with EmitLog r(1) b building_poison [OF assms] show ?thesis by (simp add: emit_action_def OnEmit_def)
      next
        case 3
        with EmitLog r b show ?thesis by (auto simp: emit_action_def OnEmit_def building_def upd_receipt_def work_snoc exclusions_def)
      qed
    qed
  qed
qed

lemma building_finish:
  assumes "building p i acts" "iw_Apply work = Some (acts, fails)"
  shows "linked (snd (apply_finish i f p)) i work"
proof -
  from assms obtain r where r: "pv_heap p i = Some r" "exclusions r = (pv_metricsExcluded p, pv_logsExcluded p)"
    "ir_phase r = Poisoned \<or> ir_phase r = Building \<and> applied_of i (pv_events p) = [] \<and> ir_records r = work_logs (pv_logsExcluded p) acts \<and>
      (\<exists>q. ir_program r = Some q \<and> mp_operations q = work_metrics (pv_metricsExcluded p) acts)"
    unfolding building_def by blast
  have ex: "exclusions (ready_receipt (seal_receipt r)) = exclusions r" "exclusions (seal_receipt r) = exclusions r"
    by (simp_all add: ready_receipt_def seal_receipt_def exclusions_def)
  show ?thesis
  proof (cases "f \<or> ir_phase r = Poisoned")
    case True
    with r ex show ?thesis
      by (auto simp: linked_def apply_finish_def poison_def upd_receipt_def Let_def seal_receipt_def exclusions_def)
  next
    case False
    with r obtain q where q: "ir_program r = Some q" "mp_operations q = work_metrics (pv_metricsExcluded p) acts"
      "ir_records r = work_logs (pv_logsExcluded p) acts" "applied_of i (pv_events p) = []" by auto
    have "ir_phase (seal_receipt r) \<noteq> Poisoned" "ir_records (seal_receipt r) = ir_records r"
      "ir_program (seal_receipt r) = Some (q\<lparr>mp_sealed := True\<rparr>)" using False q by (simp_all add: seal_receipt_def)
    then show ?thesis using False r(1,2) q ex assms(2)
      by (simp add: linked_def apply_finish_def upd_receipt_def Let_def note_event_def)
  qed
qed

section \<open>The coordinator's invariant\<close>

definition prepares :: "(route_key, ingressWALRoute) gomap \<Rightarrow> Envelope \<Rightarrow> nat \<Rightarrow> IngressWork \<Rightarrow> bool" where
  "prepares routes env k work \<longleftrightarrow> (\<exists>r prepare. map_of routes (envelope_key env) = Some r \<and> rt_delivery r = Some k \<and>
     rt_prepare r = Some prepare \<and> prepare (env_Body env) (env_Accepted env) = Some work)"

text \<open>An entry of the window: its work was prepared from its original, and so was the work its receipt stands for.
  \<open>X\<close> names the receipts whose application is under way.\<close>

definition progress_ok ::
  "(nat \<times> nat) set \<Rightarrow> (route_key, ingressWALRoute) gomap \<Rightarrow> (nat \<Rightarrow> Provider) \<Rightarrow> Generation \<Rightarrow> ingressWALProgress \<Rightarrow> bool" where
  "progress_ok X routes ps g pg \<longleftrightarrow> pr_Generation (pg_entry pg) = g \<and> (pg_receipt pg \<noteq> None \<longrightarrow> pg_delivery pg \<noteq> None) \<and>
     (\<forall>work. pg_work pg = Some work \<longrightarrow> (\<exists>k. pg_delivery pg = Some k \<and> prepares routes (pr_Envelope (pg_entry pg)) k work)) \<and>
     (\<forall>i k. pg_receipt pg = Some i \<longrightarrow> pg_delivery pg = Some k \<longrightarrow> (k, i) \<notin> X \<longrightarrow>
        (\<exists>work. prepares routes (pr_Envelope (pg_entry pg)) k work \<and> linked (ps k) i work))"

definition asked_ok :: "(route_key, ingressWALRoute) gomap \<Rightarrow> (nat \<Rightarrow> Provider) \<Rightarrow> (Generation \<times> Envelope \<times> nat \<times> nat) list \<Rightarrow> bool" where
  "asked_ok routes ps as \<longleftrightarrow>
     (\<forall>(g, env, k, i) \<in> set as. \<exists>work. prepares routes env k work \<and> delivered_work (ps k) i work)"

text \<open>What runs beside the coordinator: the providers' goroutines, and receivers whose bodies the log can encode.\<close>

definition receivable :: "wal_lib \<Rightarrow> route_key \<Rightarrow> gotime \<Rightarrow> bool" where
  "receivable lib key accepted \<longleftrightarrow> wal_lib_ok lib \<and> (case key of (t, s, g) \<Rightarrow> utf8_valid t \<and> utf8_valid s \<and> utf8_valid g) \<and> rfc3339_range accepted"

definition script_ok :: "wal_lib \<Rightarrow> interference list \<Rightarrow> bool" where
  "script_ok lib fs \<longleftrightarrow> (\<forall>f \<in> set fs. (\<forall>k p. background\<^sup>*\<^sup>* p (if_steps f k p)) \<and>
     (\<forall>(key, body, accepted) \<in> set (if_appends f). receivable lib key accepted))"

definition coord_inv :: "wal_lib \<Rightarrow> (nat \<times> nat) set \<Rightarrow> ingressWALCoordinator \<Rightarrow> bool" where
  "coord_inv lib X c \<longleftrightarrow> (\<forall>k. reachable (co_providers c k)) \<and> script_ok lib (co_script c) \<and>
     (\<forall>g pg. map_of (co_progress c) g = Some pg \<longrightarrow> progress_ok X (co_routes c) (co_providers c) g pg) \<and>
     asked_ok (co_routes c) (co_providers c) (co_asked c)"

lemma background_reach:
  assumes "background\<^sup>*\<^sup>* p q" "reachable p"
  shows "reachable q \<and> quiet p q"
  using assms
proof (induction rule: rtranclp_induct)
  case (step y z)
  then have "reachable y" "quiet p y" by auto
  moreover from step(2) have "quiet y z" using background_quiet reachable_inv [OF \<open>reachable y\<close>] by blast
  ultimately show ?case using step(2) reachable.step pstep.goroutine quiet_trans by blast
qed simp

text \<open>A change of the providers that keeps what the coordinator knows of them.\<close>

definition providers_evolve :: "(nat \<times> nat) set \<Rightarrow> (nat \<Rightarrow> Provider) \<Rightarrow> (nat \<Rightarrow> Provider) \<Rightarrow> bool" where
  "providers_evolve X ps qs \<longleftrightarrow> (\<forall>k. (reachable (ps k) \<longrightarrow> reachable (qs k)) \<and> evolves (ps k) (qs k) \<and>
     (\<forall>i work. (k, i) \<notin> X \<longrightarrow> linked (ps k) i work \<longrightarrow> linked (qs k) i work))"

lemma asked_evolve: "asked_ok routes ps as \<Longrightarrow> providers_evolve X ps qs \<Longrightarrow> asked_ok routes qs as"
  unfolding asked_ok_def providers_evolve_def using delivered_evolves by fast

lemma progress_evolve: "progress_ok X routes ps g pg \<Longrightarrow> providers_evolve X ps qs \<Longrightarrow> progress_ok X routes qs g pg"
  unfolding progress_ok_def providers_evolve_def by blast

lemma coord_inv_evolve: "coord_inv lib X c \<Longrightarrow> providers_evolve X (co_providers c) qs \<Longrightarrow> coord_inv lib X (c\<lparr>co_providers := qs\<rparr>)"
  unfolding coord_inv_def
  using asked_evolve [of "co_routes c" "co_providers c" "co_asked c" X qs] progress_evolve [of X "co_routes c" "co_providers c" _ _ qs]
  by (simp add: providers_evolve_def)

lemma coord_inv_simps [simp]:
  "coord_inv lib X (c\<lparr>co_store := s\<rparr>) = coord_inv lib X c" "coord_inv lib X (c\<lparr>co_state := st\<rparr>) = coord_inv lib X c"
  "coord_inv lib X (c\<lparr>co_order := n\<rparr>) = coord_inv lib X c" "coord_inv lib X (c\<lparr>co_terminal := b\<rparr>) = coord_inv lib X c"
  "coord_inv lib X (c\<lparr>co_closed := e\<rparr>) = coord_inv lib X c"
  by (simp_all add: coord_inv_def)

named_theorems coord \<open>steps that keep the coordinator's invariant\<close>

lemma keeps_on_wal [coord]: "keeps (coord_inv lib X) (on_wal m)"
  unfolding on_wal_def by (rule keeps_State) (simp split: prod.split)

lemma keeps_setState [coord]: "keeps (coord_inv lib X) (setState st)"
  unfolding setState_def by (rule keeps_State) simp

declare keeps_look [coord]

lemma triple_on_provider:
  assumes "\<And>c r q. P c \<Longrightarrow> f (co_providers c k) = (r, q) \<Longrightarrow> Q r (c\<lparr>co_providers := (co_providers c)(k := q)\<rparr>)"
  shows "triple P (on_provider k f) Q"
  unfolding on_provider_def by (rule triple_State) (auto simp: case_prod_unfold intro: assms)

lemma keeps_on_provider:
  assumes "\<And>p. reachable p \<Longrightarrow> reachable (snd (f p)) \<and> evolves p (snd (f p)) \<and>
    (\<forall>i work. (k, i) \<notin> X \<longrightarrow> linked p i work \<longrightarrow> linked (snd (f p)) i work)"
  shows "keeps (coord_inv lib X) (on_provider k f)"
  unfolding keeps_def
proof (rule triple_on_provider)
  fix c r q assume c: "coord_inv lib X c" "f (co_providers c k) = (r, q)"
  then have "reachable (co_providers c k)" by (simp add: coord_inv_def)
  from assms [OF this] c(2) have "providers_evolve X (co_providers c) ((co_providers c)(k := q))" by (auto simp: providers_evolve_def)
  from coord_inv_evolve [OF c(1) this] show "coord_inv lib X (c\<lparr>co_providers := (co_providers c)(k := q)\<rparr>)" .
qed

lemma keeps_appender [coord]: "keeps (coord_inv lib X) (appender lib key body accepted)"
  unfolding appender_def by (intro hoare coord)

lemma keeps_appends [coord]: "keeps (coord_inv lib X) (appends lib rs)"
  by (induction rs) (auto intro!: hoare coord)

lemma script_tail: "script_ok lib (f # fs) \<Longrightarrow> script_ok lib fs \<and> (\<forall>k p. background\<^sup>*\<^sup>* p (if_steps f k p))"
  by (simp add: script_ok_def)

lemma script_evolve:
  assumes "script_ok lib (f # fs)" "\<And>k. reachable (ps k)"
  shows "providers_evolve X ps (\<lambda>k. if_steps f k (ps k))"
  unfolding providers_evolve_def
proof (intro allI)
  fix k
  have "background\<^sup>*\<^sup>* (ps k) (if_steps f k (ps k))" using script_tail [OF assms(1)] by blast
  from background_reach [OF this assms(2)] show
    "(reachable (ps k) \<longrightarrow> reachable (if_steps f k (ps k))) \<and> evolves (ps k) (if_steps f k (ps k)) \<and>
     (\<forall>i work. (k, i) \<notin> X \<longrightarrow> linked (ps k) i work \<longrightarrow> linked (if_steps f k (ps k)) i work)"
    using linked_quiet by (auto simp: quiet_def)
qed

lemma keeps_interfere [coord]: "keeps (coord_inv lib X) (interfere lib)"
proof -
  have "coord_inv lib X (c\<lparr>co_script := fs, co_providers := (\<lambda>k. if_steps f k (co_providers c k))\<rparr>)"
    if c: "coord_inv lib X c" "co_script c = f # fs" for c f fs
  proof -
    from c have "providers_evolve X (co_providers c) (\<lambda>k. if_steps f k (co_providers c k))"
      by (intro script_evolve [of lib f fs]) (simp_all add: coord_inv_def)
    from coord_inv_evolve [OF c(1) this] c(2) script_tail [of lib f fs] show ?thesis by (simp add: coord_inv_def)
  qed
  then have step: "triple (\<lambda>c. coord_inv lib X c \<and> co_script c = f # fs)
      (change (\<lambda>c. c\<lparr>co_script := fs, co_providers := (\<lambda>k. if_steps f k (co_providers c k))\<rparr>)) (\<lambda>_. coord_inv lib X)" for f fs
    by (auto simp: triple_def)
  have "triple (\<lambda>c. coord_inv lib X c \<and> co_script c = sc)
      (case sc of [] \<Rightarrow> State_Monad.return () | f # fs \<Rightarrow> do {
         change (\<lambda>c. c\<lparr>co_script := fs, co_providers := (\<lambda>k. if_steps f k (co_providers c k))\<rparr>);
         appends lib (if_appends f)
       }) (\<lambda>_. coord_inv lib X)" for sc
    by (cases sc) (auto intro!: triple_return triple_bind [OF step] keeps_appends [unfolded keeps_def])
  then show ?thesis
    unfolding interfere_def keeps_def
    by (intro triple_bind [where R = "\<lambda>sc c. coord_inv lib X c \<and> co_script c = sc"] triple_State) auto
qed

section \<open>Windows\<close>

lemma eview_call:
  assumes "\<And>p. eview (snd (f p)) = eview p" "\<And>p. reachable p \<Longrightarrow> reachable (snd (f p))"
  shows "keeps (coord_inv lib X) (on_provider k f)"
proof (rule keeps_on_provider)
  fix p :: Provider assume "reachable p"
  with assms show "reachable (snd (f p)) \<and> evolves p (snd (f p)) \<and> (\<forall>i work. (k, i) \<notin> X \<longrightarrow> linked p i work \<longrightarrow> linked (snd (f p)) i work)"
    using evolves_eview [OF assms(1) evolves_refl] linked_eview [OF assms(1)] by blast
qed

lemma keeps_ReleaseIngress [coord]: "keeps (coord_inv lib X) (on_provider k (ReleaseIngress i))"
  by (rule eview_call) (auto intro: eview_release reachable.step pstep.release)

lemma keeps_ReleaseUnstarted [coord]: "keeps (coord_inv lib X) (on_provider k (ReleaseUnstarted i))"
  by (rule eview_call) (auto intro: eview_release_unstarted reachable.step pstep.release_unstarted)

lemma keeps_SealIngress [coord]: "keeps (coord_inv lib X) (on_provider k (\<lambda>p. ((), SealIngress p)))"
  by (rule eview_call) (auto intro: eview_seal reachable.step pstep.seal)

lemma coord_inv_progress:
  assumes "coord_inv lib X c" "\<And>g pg. map_of P g = Some pg \<Longrightarrow> map_of (co_progress c) g = Some pg \<or> progress_ok X (co_routes c) (co_providers c) g pg"
  shows "coord_inv lib X (c\<lparr>co_progress := P\<rparr>)"
  using assms unfolding coord_inv_def by simp blast

lemma keeps_delete [coord]: "keeps (coord_inv lib X) (change (\<lambda>c. c\<lparr>co_progress := AList.delete g (co_progress c)\<rparr>))"
  by (rule keeps_change) (auto intro!: coord_inv_progress simp: delete_conv' split: if_splits)

lemma keeps_releaseProgress [coord]: "keeps (coord_inv lib X) (releaseProgress g pg)"
  unfolding releaseProgress_def by (intro hoare coord)

lemma keeps_observeCommit [coord]: "keeps (coord_inv lib X) (observeCommit g)"
  unfolding observeCommit_def by (intro hoare coord)

lemma keeps_window_observed [coord]: "keeps (coord_inv lib X) (window_observed xs)"
  by (induction xs) (auto intro!: hoare coord)

lemma keeps_prepareWindow [coord]: "keeps (coord_inv lib X) (prepareWindow lib limits gs)"
  unfolding prepareWindow_def by (intro hoare coord)

lemma coord_inv_add: "coord_inv lib X c \<Longrightarrow> coord_inv lib X (add_progress xs c)"
proof (induction xs arbitrary: c)
  case (Cons x xs)
  let ?pg = "\<lparr>pg_entry = x, pg_work = None, pg_receipt = None, pg_delivery = None, pg_order = Suc (co_order c)\<rparr>"
  have "coord_inv lib X (c\<lparr>co_progress := AList.update (pr_Generation x) ?pg (co_progress c)\<rparr>)"
    using Cons.prems by (intro coord_inv_progress) (auto simp: update_conv' progress_ok_def split: if_splits)
  then have "coord_inv lib X (c\<lparr>co_progress := AList.update (pr_Generation x) ?pg (co_progress c), co_order := Suc (co_order c)\<rparr>)" by simp
  moreover have "c\<lparr>co_progress := P, co_order := n\<rparr> = c\<lparr>co_order := n, co_progress := P\<rparr>" for P n by simp
  ultimately show ?case using Cons by simp
qed simp

lemma keeps_fillWindow [coord]: "keeps (coord_inv lib X) (fillWindow lib)"
  unfolding fillWindow_def Let_def by (intro hoare coord keeps_change coord_inv_add)

section \<open>Applying\<close>

definition core where
  "core c = (co_providers c, co_progress c, co_routes c, co_asked c)"

lemma core_simps [simp]:
  "core (c\<lparr>co_store := s\<rparr>) = core c" "core (c\<lparr>co_state := st\<rparr>) = core c" "core (c\<lparr>co_script := sc\<rparr>) = core c"
  by (simp_all add: core_def)

named_theorems frames \<open>steps that do not change the providers, the window or what was asked\<close>

lemma core_on_wal [frames]: "keeps (\<lambda>c. Q (core c)) (on_wal m)"
  unfolding on_wal_def by (rule keeps_State) (simp split: prod.split)

lemma core_setState [frames]: "keeps (\<lambda>c. Q (core c)) (setState st)"
  unfolding setState_def by (rule keeps_State) simp

lemma core_look [frames]: "keeps (\<lambda>c. Q (core c)) (look f)"
  by (rule keeps_look)

lemma core_appender [frames]: "keeps (\<lambda>c. Q (core c)) (appender lib key body accepted)"
  unfolding appender_def by (intro hoare frames)

lemma core_appends [frames]: "keeps (\<lambda>c. Q (core c)) (appends lib rs)"
  by (induction rs) (auto intro!: hoare frames)

text \<open>Interference changes the providers only, and those quietly.\<close>

lemma triple_interfere:
  assumes "\<And>ps qs P R A. (\<And>k. quiet (ps k) (qs k)) \<Longrightarrow> Q (ps, P, R, A) \<Longrightarrow> Q (qs, P, R, A)"
  shows "keeps (\<lambda>c. coord_inv lib X c \<and> Q (core c)) (interfere lib)"
proof -
  let ?f = "\<lambda>f fs c. c\<lparr>co_script := fs, co_providers := (\<lambda>k. if_steps f k (co_providers c k))\<rparr>"
  have q: "Q (core (?f f fs c))" if c: "coord_inv lib X c" "Q (core c)" "co_script c = f # fs" for f fs c
  proof -
    have "quiet (co_providers c k) (if_steps f k (co_providers c k))" for k
    proof -
      from c(1,3) have "background\<^sup>*\<^sup>* (co_providers c k) (if_steps f k (co_providers c k))" "reachable (co_providers c k)"
        using script_tail [of lib f fs] by (auto simp: coord_inv_def)
      with background_reach show ?thesis by blast
    qed
    from assms [OF this] c(2) show ?thesis by (simp add: core_def)
  qed
  have step: "triple (\<lambda>c. (coord_inv lib X c \<and> Q (core c)) \<and> co_script c = f # fs) (change (?f f fs)) (\<lambda>_ c. Q (core c))" for f fs
    using q by (auto simp: triple_def)
  have "triple (\<lambda>c. (coord_inv lib X c \<and> Q (core c)) \<and> co_script c = sc)
      (case sc of [] \<Rightarrow> State_Monad.return () | f # fs \<Rightarrow> do { change (?f f fs); appends lib (if_appends f) })
      (\<lambda>_ c. Q (core c))" for sc
  proof (cases sc)
    case (Cons f fs)
    show ?thesis unfolding Cons list.case by (rule triple_bind [OF step]) (rule core_appends [unfolded keeps_def])
  qed (auto intro!: triple_return)
  then have "triple (\<lambda>c. coord_inv lib X c \<and> Q (core c)) (interfere lib) (\<lambda>_ c. Q (core c))"
    unfolding interfere_def
    by (intro triple_bind [where R = "\<lambda>sc c. (coord_inv lib X c \<and> Q (core c)) \<and> co_script c = sc"] triple_State) auto
  moreover have "triple (coord_inv lib X) (interfere lib) (\<lambda>_. coord_inv lib X)" using keeps_interfere by (simp add: keeps_def)
  ultimately show ?thesis unfolding keeps_def triple_def by auto
qed

text \<open>Receipt \<open>i\<close> of provider \<open>k\<close> is being applied for generation \<open>g\<close>; nobody else has it.\<close>

definition claims :: "nat \<Rightarrow> nat \<Rightarrow> Generation \<Rightarrow> IngressWork \<Rightarrow> (Generation, ingressWALProgress) gomap \<Rightarrow> (route_key, ingressWALRoute) gomap \<Rightarrow> bool" where
  "claims k i g work P R \<longleftrightarrow> (\<forall>g' pg. map_of P g' = Some pg \<longrightarrow> pg_receipt pg = Some i \<longrightarrow> pg_delivery pg = Some k \<longrightarrow>
     g' = g \<and> prepares R (pr_Envelope (pg_entry pg)) k work)"

definition applying :: "wal_lib \<Rightarrow> nat \<Rightarrow> nat \<Rightarrow> Generation \<Rightarrow> IngressWork \<Rightarrow> (Provider \<Rightarrow> bool) \<Rightarrow> ingressWALCoordinator \<Rightarrow> bool" where
  "applying lib k i g work J c \<longleftrightarrow> coord_inv lib {(k, i)} c \<and>
     (case core c of (ps, P, R, A) \<Rightarrow> claims k i g work P R \<and> J (ps k))"

lemma applying_done: "applying lib k i g work (\<lambda>p. linked p i work) c \<Longrightarrow> coord_inv lib {} c"
  unfolding applying_def coord_inv_def core_def claims_def progress_ok_def by fastforce

lemma applying_interfere:
  assumes "\<And>p q. quiet p q \<Longrightarrow> J p \<Longrightarrow> J q"
  shows "keeps (applying lib k i g work J) (interfere lib)"
proof -
  have "keeps (\<lambda>c. coord_inv lib {(k, i)} c \<and> (\<lambda>(ps, P, R, A). claims k i g work P R \<and> J (ps k)) (core c)) (interfere lib)"
    by (rule triple_interfere) (use assms in auto)
  then show ?thesis by (simp add: applying_def [abs_def] case_prod_unfold)
qed

lemma applying_on_wal: "keeps (applying lib k i g work J) (on_wal m)"
proof -
  have "keeps (\<lambda>c. coord_inv lib {(k, i)} c \<and> (\<lambda>(ps, P, R, A). claims k i g work P R \<and> J (ps k)) (core c)) (on_wal m)"
    by (rule keeps_conj [OF keeps_on_wal core_on_wal])
  then show ?thesis by (simp add: applying_def [abs_def] case_prod_unfold)
qed

lemma applying_provider:
  assumes t: "\<And>p. touches i p (snd (f p))" and r: "\<And>p. reachable p \<Longrightarrow> J p \<Longrightarrow> reachable (snd (f p))"
    and j: "\<And>p. reachable p \<Longrightarrow> J p \<Longrightarrow> J' (fst (f p)) (snd (f p))"
  shows "triple (applying lib k i g work J) (on_provider k f) (\<lambda>x. applying lib k i g work (J' x))"
proof (rule triple_on_provider)
  fix c x q assume a: "applying lib k i g work J c" and q: "f (co_providers c k) = (x, q)"
  let ?p = "co_providers c k"
  from a have c: "coord_inv lib {(k, i)} c" "J ?p" "reachable ?p" by (simp_all add: applying_def core_def coord_inv_def)
  have "linked ?p n w \<Longrightarrow> n \<noteq> i \<Longrightarrow> linked q n w" for n w using linked_touches t [of ?p] q by simp
  then have "providers_evolve {(k, i)} (co_providers c) ((co_providers c)(k := q))"
    using r [OF c(3,2)] t [of ?p] q by (auto simp: providers_evolve_def touches_def)
  from coord_inv_evolve [OF c(1) this] j [OF c(3,2)] a q
  show "applying lib k i g work (J' x) (c\<lparr>co_providers := (co_providers c)(k := q)\<rparr>)" by (simp add: applying_def core_def)
qed

lemma action_step: "reachable p \<Longrightarrow> reachable (emit_action i a p)" "touches i p (emit_action i a p)"
  by (auto simp: emit_action_def touches_record_metric touches_OnEmit split: work_action.split
      intro: reachable.step pstep.work_metric pstep.work_log)

lemma triple_run_action:
  "triple (applying lib k i g work (\<lambda>p. building p i acts)) (run_action k i a)
     (\<lambda>_. applying lib k i g work (\<lambda>p. building p i (acts @ [a])))"
  unfolding run_action_def by (rule applying_provider) (simp_all add: action_step building_action)

lemma triple_run_actions:
  "triple (applying lib k i g work (\<lambda>p. building p i acts)) (run_actions lib k i as)
     (\<lambda>_. applying lib k i g work (\<lambda>p. building p i (acts @ as)))"
proof (induction as arbitrary: acts)
  case Nil
  then show ?case by (simp add: triple_return)
next
  case (Cons a as)
  have "keeps (applying lib k i g work (\<lambda>p. building p i (acts @ [a]))) (interfere lib)"
    by (rule applying_interfere) (rule building_quiet)
  then show ?case
    using Cons [of "acts @ [a]"] unfolding run_actions.simps
    by (intro triple_bind [OF triple_run_action] triple_bind [where R = "\<lambda>_. applying lib k i g work (\<lambda>p. building p i (acts @ [a]))"])
      (simp_all add: keeps_def)
qed

definition fresh :: "Provider \<Rightarrow> nat \<Rightarrow> bool" where
  "fresh p i \<longleftrightarrow> applied_of i (pv_events p) = [] \<and> (\<exists>r pr. pv_heap p i = Some r \<and> ir_phase r = Reserved \<and> ir_program r = Some pr \<and>
     mp_operations pr = [] \<and> ir_records r = [] \<and> exclusions r = (pv_metricsExcluded p, pv_logsExcluded p))"

lemma fresh_begin:
  assumes "fresh p i" "apply_begin i b h c p = (e, q)" "h \<longleftrightarrow> iw_Apply work \<noteq> None"
  shows "case e of Some _ \<Rightarrow> linked q i work | None \<Rightarrow> iw_Apply work \<noteq> None \<and> building q i []"
proof (cases e)
  case None
  with assms show ?thesis using building_begin [of i b h c p q] by (auto simp: fresh_def apply_begin_def split: option.splits if_splits)
next
  case (Some x)
  with assms(2) have "q = p" by (auto simp: apply_begin_def split: option.splits if_splits)
  with assms(1) Some show ?thesis by (auto simp: fresh_def linked_def)
qed

lemma triple_finish:
  assumes "iw_Apply work = Some (acts, fails)"
  shows "triple (applying lib k i g work (\<lambda>p. building p i acts)) (on_provider k (apply_finish i fails))
    (\<lambda>_. applying lib k i g work (\<lambda>p. linked p i work))"
proof (rule applying_provider)
  show "touches i p (snd (apply_finish i fails p))" for p by (rule touches_apply_finish)
  show "reachable (snd (apply_finish i fails p))" if "reachable p" "building p i acts" for p
  proof -
    have "map_option ir_phase (pv_heap p i) \<in> {Some Building, Some Poisoned}" using that(2) by (auto simp: building_def)
    with that(1) show ?thesis by (blast intro: reachable.step pstep.apply_ends)
  qed
  show "linked (snd (apply_finish i fails p)) i work" if "building p i acts" for p by (rule building_finish [OF that assms])
qed

lemma triple_applyIngress:
  "triple (applying lib k i g work (\<lambda>p. fresh p i)) (applyIngress lib k i work) (\<lambda>_. applying lib k i g work (\<lambda>p. linked p i work))"
proof -
  let ?A = "applying lib k i g work"
  let ?J = "\<lambda>e p. case e of Some _ \<Rightarrow> linked p i work | None \<Rightarrow> iw_Apply work \<noteq> None \<and> building p i []"
  have start: "triple (?A (\<lambda>p. fresh p i)) (on_provider k (apply_begin i b (iw_Apply work \<noteq> None) ctx)) (\<lambda>e. ?A (?J e))" for b ctx
  proof (rule applying_provider)
    let ?f = "apply_begin i b (iw_Apply work \<noteq> None) ctx"
    show "touches i p (snd (?f p))" for p by (rule touches_apply_begin)
    show "reachable (snd (?f p))" if "reachable p" for p using that by (blast intro: reachable.step pstep.apply_starts)
    show "?J (fst (?f p)) (snd (?f p))" if "fresh p i" for p by (rule fresh_begin [OF that prod.collapse [symmetric] refl])
  qed
  have work: "triple (?A (\<lambda>p. building p i []))
      (do { _ \<leftarrow> interfere lib; _ \<leftarrow> run_actions lib k i acts; failed \<leftarrow> on_provider k (apply_finish i fails);
            State_Monad.return (if failed then Some ErrIngressPoison else None) }) (\<lambda>_. ?A (\<lambda>p. linked p i work))"
    if "iw_Apply work = Some (acts, fails)" for acts fails
  proof -
    have "keeps (?A (\<lambda>p. building p i [])) (interfere lib)" by (rule applying_interfere) (rule building_quiet)
    moreover have "triple (?A (\<lambda>p. building p i [])) (run_actions lib k i acts) (\<lambda>_. ?A (\<lambda>p. building p i acts))"
      using triple_run_actions [of lib k i g work "[]" acts] by simp
    ultimately show ?thesis
      by (intro triple_bind [where R = "\<lambda>_. ?A (\<lambda>p. building p i [])"] triple_bind [where R = "\<lambda>_. ?A (\<lambda>p. building p i acts)"]
          triple_bind [OF triple_finish [OF that]] triple_return) (simp_all add: keeps_def)
  qed
  have rest: "triple (?A (?J e)) (case e of
       Some err \<Rightarrow> State_Monad.return (Some err)
     | None \<Rightarrow>
         (case iw_Apply work of
            None \<Rightarrow> State_Monad.return (Some ErrIngressPoison)
          | Some (actions, fails) \<Rightarrow> do {
              _ \<leftarrow> interfere lib;
              _ \<leftarrow> run_actions lib k i actions;
              failed \<leftarrow> on_provider k (apply_finish i fails);
              State_Monad.return (if failed then Some ErrIngressPoison else None)
            })) (\<lambda>_. ?A (\<lambda>p. linked p i work))" for e
  proof (cases e)
    case (Some x)
    then show ?thesis by (simp add: triple_return)
  next
    case None
    show ?thesis
    proof (cases "iw_Apply work")
      case None
      with \<open>e = None\<close> show ?thesis by (auto intro!: triple_return simp: applying_def)
    next
      case (Some a)
      obtain acts fails where "a = (acts, fails)" by (rule prod.exhaust)
      with Some \<open>e = None\<close> work [of acts fails] show ?thesis by simp
    qed
  qed
  show ?thesis unfolding applyIngress_def
    by (intro triple_bind [where R = "\<lambda>_. ?A (\<lambda>p. fresh p i)"] triple_bind [OF start] rest) (use applying_on_wal in \<open>simp add: keeps_def\<close>)
qed

text \<open>The entry has a delivery and work prepared from its original.\<close>

definition prepared_for :: "Generation \<Rightarrow> nat \<Rightarrow> IngressWork \<Rightarrow> ingressWALCoordinator \<Rightarrow> bool" where
  "prepared_for g k work c \<longleftrightarrow> (\<exists>pg. map_of (co_progress c) g = Some pg \<and> pg_delivery pg = Some k \<and>
     prepares (co_routes c) (pr_Envelope (pg_entry pg)) k work)"

definition unclaimed :: "nat \<Rightarrow> nat \<Rightarrow> ingressWALCoordinator \<Rightarrow> bool" where
  "unclaimed k i c \<longleftrightarrow> (\<forall>g pg. map_of (co_progress c) g = Some pg \<longrightarrow> \<not> (pg_receipt pg = Some i \<and> pg_delivery pg = Some k))"

lemma coord_inv_mono: "coord_inv lib {} c \<Longrightarrow> coord_inv lib X c"
  unfolding coord_inv_def progress_ok_def by blast

lemma triple_reserve:
  "triple (\<lambda>c. coord_inv lib {} c \<and> prepared_for g k work c) (on_provider k (ReserveIngress b))
     (\<lambda>res c. case res of Inl _ \<Rightarrow> coord_inv lib {} c
        | Inr i \<Rightarrow> coord_inv lib {(k, i)} c \<and> prepared_for g k work c \<and> unclaimed k i c \<and> fresh (co_providers c k) i)"
proof (rule triple_on_provider)
  fix c res q assume c: "coord_inv lib {} c \<and> prepared_for g k work c" and r: "ReserveIngress b (co_providers c k) = (res, q)"
  let ?p = "co_providers c k"
  let ?c = "c\<lparr>co_providers := (co_providers c)(k := q)\<rparr>"
  have reach: "reachable ?p" using c by (simp add: coord_inv_def)
  show "case res of Inl _ \<Rightarrow> coord_inv lib {} ?c
      | Inr i \<Rightarrow> coord_inv lib {(k, i)} ?c \<and> prepared_for g k work ?c \<and> unclaimed k i ?c \<and> fresh (co_providers ?c k) i"
  proof (cases res)
    case (Inl e)
    with r have "q = ?p" using reserve_refused by blast
    with c Inl show ?thesis by simp
  next
    case (Inr i)
    note sp = reserve_ingress_spec [OF reachable_inv [OF reach] r [unfolded Inr]]
    have "reachable q" using reachable.step [OF reach pstep.reserve, of b] r by simp
    moreover have "linked ?p n w \<Longrightarrow> n \<noteq> i \<Longrightarrow> linked q n w" for n w using linked_touches sp by blast
    ultimately have "providers_evolve {(k, i)} (co_providers c) ((co_providers c)(k := q))"
      using sp by (auto simp: providers_evolve_def touches_def)
    with c have "coord_inv lib {(k, i)} ?c" using coord_inv_evolve coord_inv_mono by blast
    moreover have "unclaimed k i c" using c sp unfolding unclaimed_def coord_inv_def progress_ok_def linked_def by fastforce
    moreover have "fresh q i" using sp by (auto simp: fresh_def touches_def evolves_def)
    ultimately show ?thesis using c Inr by (simp add: prepared_for_def unclaimed_def)
  qed
qed

lemma keeps_upd_progress:
  assumes "\<And>c pg. coord_inv lib X c \<Longrightarrow> map_of (co_progress c) g = Some pg \<Longrightarrow> progress_ok X (co_routes c) (co_providers c) g pg \<Longrightarrow>
    progress_ok X (co_routes c) (co_providers c) g (f pg)"
  shows "keeps (coord_inv lib X) (upd_progress g f)"
  unfolding upd_progress_def
proof (rule keeps_change)
  fix c assume c: "coord_inv lib X c"
  show "coord_inv lib X (case map_of (co_progress c) g of None \<Rightarrow> c | Some pg \<Rightarrow> c\<lparr>co_progress := AList.update g (f pg) (co_progress c)\<rparr>)"
  proof (cases "map_of (co_progress c) g")
    case (Some pg)
    with c have "progress_ok X (co_routes c) (co_providers c) g (f pg)" by (intro assms) (auto simp: coord_inv_def)
    then have "coord_inv lib X (c\<lparr>co_progress := AList.update g (f pg) (co_progress c)\<rparr>)"
      using c by (intro coord_inv_progress) (auto simp: update_conv' split: if_splits)
    with Some show ?thesis by simp
  qed (use c in simp)
qed

lemma keeps_forget [coord]:
  "keeps (coord_inv lib X) (upd_progress g (\<lambda>pg. pg\<lparr>pg_work := None\<rparr>))"
  "keeps (coord_inv lib X) (upd_progress g (\<lambda>pg. pg\<lparr>pg_receipt := None\<rparr>))"
  by (rule keeps_upd_progress; simp add: progress_ok_def)+

text \<open>Registering the receipt before its application.\<close>

lemma triple_register:
  "triple (\<lambda>c. coord_inv lib {(k, i)} c \<and> prepared_for g k work c \<and> unclaimed k i c \<and> fresh (co_providers c k) i)
     (upd_progress g (\<lambda>pg. pg\<lparr>pg_receipt := Some i\<rparr>)) (\<lambda>_. applying lib k i g work (\<lambda>p. fresh p i))"
  unfolding upd_progress_def
proof (rule triple_State, goal_cases)
  case (1 c)
  then obtain pg where pg: "map_of (co_progress c) g = Some pg" "pg_delivery pg = Some k" "prepares (co_routes c) (pr_Envelope (pg_entry pg)) k work"
    by (auto simp: prepared_for_def)
  let ?P = "AList.update g (pg\<lparr>pg_receipt := Some i\<rparr>) (co_progress c)"
  have ok: "progress_ok {(k, i)} (co_routes c) (co_providers c) g pg" using 1 pg(1) by (simp add: coord_inv_def)
  then have "progress_ok {(k, i)} (co_routes c) (co_providers c) g (pg\<lparr>pg_receipt := Some i\<rparr>)" using pg(2) by (simp add: progress_ok_def)
  then have "coord_inv lib {(k, i)} (c\<lparr>co_progress := ?P\<rparr>)"
    using 1 by (intro coord_inv_progress) (auto simp: update_conv' split: if_splits)
  moreover have "claims k i g work ?P (co_routes c)"
    using 1 pg unfolding claims_def unclaimed_def by (auto simp: update_conv' split: if_splits)
  ultimately show ?case using 1 pg(1) by (simp add: applying_def core_def)
qed

lemma triple_apply_registered:
  "triple (\<lambda>c. coord_inv lib {(k, i)} c \<and> prepared_for g k work c \<and> unclaimed k i c \<and> fresh (co_providers c k) i)
     (apply_registered lib g k i work blocked) (\<lambda>_. coord_inv lib {})"
proof -
  have applied: "triple (applying lib k i g work (\<lambda>p. fresh p i)) (applyIngress lib k i work) (\<lambda>_. coord_inv lib {})"
    by (rule triple_post [OF triple_applyIngress]) (rule applying_done)
  have "keeps (coord_inv lib {}) ctx_error" unfolding ctx_error_def by (intro hoare coord)
  then show ?thesis unfolding apply_registered_def
    by (intro triple_bind [OF triple_register] triple_bind [OF applied] keeps_option [unfolded keeps_def] hoare [unfolded keeps_def]
        coord [unfolded keeps_def]) (simp add: keeps_def)
qed

lemma triple_prepare_work:
  assumes "map_of R (envelope_key (pr_Envelope (pg_entry pg))) = Some r" "rt_prepare r = Some prepare" "rt_delivery r = Some k" "pg_receipt pg = None"
  shows "triple (\<lambda>c. coord_inv lib {} c \<and> map_of (co_progress c) g = Some pg \<and> co_routes c = R) (prepare_work g pg prepare k)
    (\<lambda>w c. case w of Inl _ \<Rightarrow> coord_inv lib {} c | Inr work \<Rightarrow> coord_inv lib {} c \<and> prepared_for g k work c)"
proof (cases "pg_work pg")
  case (Some work)
  have "prepared_for g k work c" if "coord_inv lib {} c" "map_of (co_progress c) g = Some pg" "co_routes c = R" for c
    using that Some assms unfolding coord_inv_def progress_ok_def prepared_for_def prepares_def by fastforce
  with Some show ?thesis by (auto simp: prepare_work_def intro!: triple_return)
next
  case None
  let ?env = "pr_Envelope (pg_entry pg)"
  show ?thesis
  proof (cases "prepare (env_Body ?env) (env_Accepted ?env)")
    case None
    have "keeps (coord_inv lib {}) (do { e \<leftarrow> ctx_error; State_Monad.return (Inl (if e \<noteq> [] then e else [ErrIngressWALApply])) })"
      unfolding ctx_error_def by (intro hoare coord)
    then have "triple (\<lambda>c. coord_inv lib {} c \<and> map_of (co_progress c) g = Some pg \<and> co_routes c = R)
        (do { e \<leftarrow> ctx_error; State_Monad.return (Inl (if e \<noteq> [] then e else [ErrIngressWALApply])) :: (coord_error + IngressWork) coord })
        (\<lambda>w c. coord_inv lib {} c \<and> (\<exists>e. w = Inl e))"
      unfolding keeps_def triple_def by (auto simp: ctx_error_def on_wal_def case_prod_unfold)
    then show ?thesis using None \<open>pg_work pg = None\<close> unfolding prepare_work_def triple_def by (fastforce split: sum.splits)
  next
    case (Some work)
    let ?pg = "pg\<lparr>pg_work := Some work, pg_delivery := Some k\<rparr>"
    have prep: "prepares R ?env k work" using assms Some by (simp add: prepares_def)
    have "coord_inv lib {} (c\<lparr>co_progress := AList.update g ?pg (co_progress c)\<rparr>) \<and>
        prepared_for g k work (c\<lparr>co_progress := AList.update g ?pg (co_progress c)\<rparr>)"
      if c: "coord_inv lib {} c" "map_of (co_progress c) g = Some pg" "co_routes c = R" for c
    proof
      from c have "progress_ok {} R (co_providers c) g pg" by (auto simp: coord_inv_def)
      with prep have "progress_ok {} R (co_providers c) g ?pg" using assms(4) by (auto simp: progress_ok_def)
      with c show "coord_inv lib {} (c\<lparr>co_progress := AList.update g ?pg (co_progress c)\<rparr>)"
        by (intro coord_inv_progress) (auto simp: update_conv' split: if_splits)
      show "prepared_for g k work (c\<lparr>co_progress := AList.update g ?pg (co_progress c)\<rparr>)"
        using prep c(3) by (auto simp: prepared_for_def update_conv')
    qed
    then show ?thesis using Some \<open>pg_work pg = None\<close> unfolding prepare_work_def upd_progress_def triple_def by auto
  qed
qed

lemma triple_case_err:
  assumes "\<And>e. triple (P (Inl e)) (f e) Q" "\<And>i. triple (P (Inr i)) (h i) Q"
  shows "triple (P res) (case res of Inl e \<Rightarrow> f e | Inr i \<Rightarrow> h i) Q"
  using assms by (cases res) auto

lemma triple_reserve_and_apply:
  "triple (\<lambda>c. coord_inv lib {} c \<and> prepared_for g k work c) (reserve_and_apply lib g k work blocked providers) (\<lambda>_. coord_inv lib {})"
  unfolding reserve_and_apply_def
  by (rule triple_bind [OF triple_reserve], rule triple_case_err)
    (auto intro!: triple_return triple_bind [OF triple_apply_registered])

lemma triple_entry:
  assumes "map_of R (envelope_key (pr_Envelope (pg_entry pg))) = Some r" "pg_receipt pg = None"
  shows "triple (\<lambda>c. coord_inv lib {} c \<and> map_of (co_progress c) g = Some pg \<and> co_routes c = R)
    (apply_entry lib g pg r blocked providers) (\<lambda>_. coord_inv lib {})"
proof (cases "rt_prepare r = None \<or> rt_delivery r = None")
  case True
  then show ?thesis by (auto intro!: triple_return simp: apply_entry_def validIngressWALRoute_def)
next
  case False
  then obtain prepare k where pk: "rt_prepare r = Some prepare" "rt_delivery r = Some k" by auto
  have "triple (\<lambda>c. coord_inv lib {} c \<and> map_of (co_progress c) g = Some pg \<and> co_routes c = R)
    (do {
       w \<leftarrow> prepare_work g pg prepare k;
       case w of Inl e \<Rightarrow> State_Monad.return (Stop e, providers) | Inr work \<Rightarrow> reserve_and_apply lib g k work blocked providers
     }) (\<lambda>_. coord_inv lib {})"
    by (rule triple_bind [OF triple_prepare_work [OF assms(1) pk assms(2)]], rule triple_case_err)
      (auto intro!: triple_return triple_reserve_and_apply)
  then show ?thesis unfolding apply_entry_def pk by (auto intro!: triple_return)
qed

lemma triple_look_option:
  assumes "\<And>x. triple (\<lambda>c. P c \<and> f c = Some x) (h x) Q" "triple P a Q"
  shows "triple P (do { x \<leftarrow> look f; case x of None \<Rightarrow> a | Some x \<Rightarrow> h x }) Q"
  using assms unfolding triple_def by (auto split: option.split)

lemma keeps_apply_one: "keeps (coord_inv lib {}) (apply_one lib g blocked providers)"
proof -
  let ?P = "\<lambda>pg c. coord_inv lib {} c \<and> map_of (co_progress c) g = Some pg"
  let ?key = "\<lambda>pg. envelope_key (pr_Envelope (pg_entry pg))"
  have route: "triple (?P pg) (do {
          route \<leftarrow> look (\<lambda>c. map_of (co_routes c) (?key pg));
          case route of None \<Rightarrow> State_Monad.return (Stop [ErrIngressWALRoute], providers) | Some r \<Rightarrow> apply_entry lib g pg r blocked providers })
      (\<lambda>_. coord_inv lib {})" if "pg_receipt pg = None" for pg
  proof (rule triple_look_option)
    fix r
    have "triple (\<lambda>c. coord_inv lib {} c \<and> map_of (co_progress c) g = Some pg \<and> co_routes c = R)
        (apply_entry lib g pg r blocked providers) (\<lambda>_. coord_inv lib {})" if "map_of R (?key pg) = Some r" for R
      by (rule triple_entry) (use that \<open>pg_receipt pg = None\<close> in auto)
    then show "triple (\<lambda>c. ?P pg c \<and> map_of (co_routes c) (?key pg) = Some r) (apply_entry lib g pg r blocked providers) (\<lambda>_. coord_inv lib {})"
      unfolding triple_def by auto
  qed (auto intro: triple_return)
  have "triple (?P pg)
     (case (pg_receipt pg, pg_delivery pg) of
        (Some i, Some k) \<Rightarrow> do {
          phase \<leftarrow> look (receipt_phase k i);
          State_Monad.return (if phase = Some Poisoned then Stop [ErrIngressWALApply] else Continue blocked, providers)
        }
      | _ \<Rightarrow> do {
          route \<leftarrow> look (\<lambda>c. map_of (co_routes c) (?key pg));
          case route of None \<Rightarrow> State_Monad.return (Stop [ErrIngressWALRoute], providers) | Some r \<Rightarrow> apply_entry lib g pg r blocked providers })
     (\<lambda>_. coord_inv lib {})" for pg
  proof (cases "pg_receipt pg")
    case None
    with route show ?thesis by simp
  next
    case (Some i)
    show ?thesis
    proof (cases "pg_delivery pg")
      case None
      have "False" if "?P pg c" for c
      proof -
        from that have "progress_ok {} (co_routes c) (co_providers c) g pg" by (simp add: coord_inv_def)
        with Some None show False by (simp add: progress_ok_def)
      qed
      then show ?thesis unfolding triple_def by blast
    next
      case k: (Some k)
      with Some show ?thesis by (auto simp: triple_def)
    qed
  qed
  then show ?thesis
    unfolding apply_one_def keeps_def by (intro triple_look_option triple_return)
qed

lemma keeps_apply_loop: "keeps (coord_inv lib {}) (apply_loop lib gs blocked providers)"
proof (induction gs arbitrary: blocked providers)
  case (Cons g gs)
  have "keeps (coord_inv lib {}) (case out of Stop e \<Rightarrow> State_Monad.return (e, ps) | Continue bl \<Rightarrow> apply_loop lib gs bl ps)" for out ps
    by (cases out) (auto intro: hoare Cons)
  then show ?case unfolding apply_loop.simps ctx_error_def by (intro hoare coord keeps_apply_one)
qed (simp add: keeps_return)

lemma keeps_seal_all [coord]: "keeps (coord_inv lib X) (seal_all ks)"
  by (induction ks) (auto intro!: hoare coord)

lemma keeps_applyWindow [coord]: "keeps (coord_inv lib {}) (applyWindow lib)"
  unfolding applyWindow_def by (intro hoare coord keeps_apply_loop)

section \<open>Committing and the passes\<close>

lemma eligible_asked:
  assumes "coord_inv lib {} c" "map_of (co_progress c) g = Some pg" "receipt_eligible pg c"
  shows "coord_inv lib {} (c\<lparr>co_asked := co_asked c @
    [(pr_Generation (pg_entry pg), pr_Envelope (pg_entry pg), the (pg_delivery pg), the (pg_receipt pg))]\<rparr>)"
proof -
  from assms(3) obtain i k where ik: "pg_receipt pg = Some i" "pg_delivery pg = Some k" "Eligible i (co_providers c k)"
    by (auto simp: receipt_eligible_def split: option.splits)
  from assms(1,2) have "progress_ok {} (co_routes c) (co_providers c) g pg" "reachable (co_providers c k)" by (simp_all add: coord_inv_def)
  moreover from this(1) ik obtain work where "prepares (co_routes c) (pr_Envelope (pg_entry pg)) k work" "linked (co_providers c k) i work"
    by (auto simp: progress_ok_def)
  ultimately have "\<exists>work. prepares (co_routes c) (pr_Envelope (pg_entry pg)) k work \<and> delivered_work (co_providers c k) i work"
    using linked_delivered ik(3) by blast
  with assms(1) ik show ?thesis by (simp add: coord_inv_def asked_ok_def)
qed

lemma keeps_commit_loop: "keeps (coord_inv lib {}) (commit_loop lib gs combined)"
proof (induction gs arbitrary: combined)
  case (Cons g gs)
  let ?ask = "\<lambda>pg. change (\<lambda>c. c\<lparr>co_asked := co_asked c @
    [(pr_Generation (pg_entry pg), pr_Envelope (pg_entry pg), the (pg_delivery pg), the (pg_receipt pg))]\<rparr>)"
  have ask: "triple (\<lambda>c. (coord_inv lib {} c \<and> map_of (co_progress c) g = Some pg) \<and> receipt_eligible pg c) (?ask pg) (\<lambda>_. coord_inv lib {})" for pg
    by (rule triple_State) (auto intro: eligible_asked [of lib _ g])
  have look: "triple P (look f) (\<lambda>v c. P c \<and> f c = v)" for P and f :: "ingressWALCoordinator \<Rightarrow> 'b"
    by (rule triple_State) simp
  note rest = Cons [unfolded keeps_def]
  note release = keeps_releaseProgress [unfolded keeps_def] keeps_on_wal [unfolded keeps_def]
  show ?case
    unfolding commit_loop.simps keeps_def
    by (intro triple_bind [OF keeps_interfere [unfolded keeps_def]] triple_look_option rest triple_bind [OF look] triple_if
        triple_bind [OF triple_pre [OF ask]] triple_bind [OF release(2)] triple_prod triple_option triple_bind [OF release(1)]
        triple_pre [OF rest]) simp_all
qed (simp add: keeps_return)

lemma keeps_commitEligible [coord]: "keeps (coord_inv lib {}) (commitEligible lib)"
  unfolding commitEligible_def by (intro hoare coord keeps_commit_loop)

lemma keeps_ExpireStale: "keeps (coord_inv lib X) (ExpireStale lib cutoff)"
  unfolding ExpireStale_def by (intro hoare coord)

interpretation delivering: pass_inv lib "coord_inv lib {}" "\<lambda>_ _. True" "\<lambda>_. True" for lib
  by unfold_locales (auto intro: coord keeps_ExpireStale)

end
