(* ===== verification/Ingress_Custody.thy ===== *)
theory Ingress_Custody
  imports Ingress_Coordinator_Safety
begin

text \<open>
  Custody of an accepted body: from the acknowledged append on, whatever calls the coordinator serves and
  whatever runs beside them, either its original is recoverable from every crash image or a commit was
  requested for exactly that original. With the invariant of \<open>Ingress_Coordinator_Safety\<close> the latter means that the
  work prepared from it was delivered.
\<close>

section \<open>A prepared entry is the original\<close>

definition faithful :: "Envelope \<Rightarrow> PreparedEntry list \<Rightarrow> bool" where
  "faithful env ys \<longleftrightarrow> (\<forall>y \<in> set ys. gen_id (pr_Generation y) = env_ID env \<longrightarrow> pr_Envelope y = env)"

abbreviation safe :: "Envelope \<Rightarrow> pendingEntry \<Rightarrow> dfile \<Rightarrow> Store \<Rightarrow> bool" where
  "safe env e x s \<equiv> wf s \<and> held (protected (env_ID env) e x) s"

lemma safe_file: "safe env e x s \<Longrightarrow> map_of (d_cur (st_disk s)) (pe_name e) = Some x"
  by (simp add: held_def protected_def kept_def stored_def)

lemma safe_candidates: "safe env e x s \<Longrightarrow> (env_ID env, e') \<in> set (window_candidates gs s) \<Longrightarrow> e' = e"
  by (auto simp: window_candidates_def held_def protected_def wf_def pending_wf_def dest: map_of_is_SomeI [rotated])

lemma select_faithful:
  assumes rec: "decodeRecord lib (f_data x) = Inr \<lparr>sr_Sequence = q, sr_Envelope = env\<rparr>"
    and "\<forall>e'. (env_ID env, e') \<in> set xs \<longrightarrow> e' = e" "faithful env result"
  shows "triple (safe env e x) (window_select lib limit blimit xs bytes newly result)
    (\<lambda>r _. case r of Inl _ \<Rightarrow> True | Inr ys \<Rightarrow> faithful env ys)"
  using assms(2,3)
proof (induction xs arbitrary: bytes newly result)
  case (Cons y xs)
  obtain i f where y: "y = (i, f)" by (rule prod.exhaust)
  let ?S = "safe env e x" and ?Q = "\<lambda>r _. case r of Inl _ \<Rightarrow> True | Inr ys \<Rightarrow> faithful env ys"
  have keep: "triple ?S m (\<lambda>_. ?S)" if "keeps ?S m" for m :: "'a wal" using that by (simp add: keeps_def)
  have read: "triple ?S (wal_readBounded (pe_name f))
      (\<lambda>r s. (i = env_ID env \<longrightarrow> (case r of Inl _ \<Rightarrow> True | Inr b \<Rightarrow> b = f_data x)) \<and> ?S s)"
  proof (cases "i = env_ID env")
    case True
    with Cons.prems(1) y have f: "f = e" by simp
    have "triple ?S (wal_readBounded (pe_name f)) (\<lambda>r s. case r of Inl _ \<Rightarrow> True | Inr b \<Rightarrow> b = f_data x)"
      unfolding f using readBounded_spec [of "pe_name e" "Some x"] safe_file [where env = env and e = e and x = x]
      unfolding triple_def by (fastforce split: sum.splits)
    from triple_conj [OF this keep [OF prot.keeps_readBounded [OF index_wf]]] show ?thesis
      by (rule triple_pre [OF triple_post]) auto
  next
    case False
    then show ?thesis by (auto intro: triple_post [OF keep [OF prot.keeps_readBounded [OF index_wf]]])
  qed
  have onward: "triple ?S (window_select lib limit blimit xs b n (result @ [\<lparr>pr_Generation = g, pr_Envelope = sr_Envelope re,
      pr_EncodedBytes = z\<rparr>])) ?Q"
    if "i = env_ID env \<longrightarrow> d = f_data x" "decodeRecord lib d = Inr re" "gen_id g = i" for b n g z d re
    using that rec Cons.prems by (intro Cons.IH) (auto simp: y faithful_def)
  have skip: "triple ?S (window_select lib limit blimit xs bytes newly result) ?Q"
    using Cons.prems by (intro Cons.IH) auto
  have gn: "triple ?S (gets (\<lambda>s. generation s i (pe_sequence f))) (\<lambda>g s. gen_id g = i \<and> ?S s)"
    by (rule triple_State) (simp add: generation_def)
  have taken: "triple (\<lambda>s. (i = env_ID env \<longrightarrow> (case r of Inl _ \<Rightarrow> True | Inr b \<Rightarrow> b = f_data x)) \<and> ?S s)
      (case r of Inl e \<Rightarrow> ret (Inl e) | Inr data \<Rightarrow>
        (case decodeRecord lib data of Inl e \<Rightarrow> ret (Inl e) | Inr record \<Rightarrow>
          if env_ID (sr_Envelope record) \<noteq> gen_id g \<or> sr_Sequence record \<noteq> gen_sequence g \<or> int (length data) \<noteq> pe_size f
          then ret (Inl (CorruptError ''prepared entry identity mismatch''))
          else window_select lib limit blimit xs (bytes + pe_size f) (if registered then newly else newly + 1)
            (result @ [\<lparr>pr_Generation = g, pr_Envelope = sr_Envelope record, pr_EncodedBytes = pe_size f\<rparr>]))) ?Q"
    if "gen_id g = i" for r g registered
    by (rule triple_pure) (intro triple_sum triple_if triple_return onward, use that in auto)
  show ?case
    unfolding y window_select.simps
    by (intro triple_bind [OF keep [OF prot.keeps_ctx_Err [OF index_wf]]] triple_option triple_if triple_return skip
        triple_bind [OF gn] triple_pure triple_bind [OF keep [OF keeps_gets]] triple_bind [OF read] taken) (use Cons.prems in auto)
qed (auto intro!: triple_return)

lemma fill_faithful:
  assumes "decodeRecord lib (f_data x) = Inr \<lparr>sr_Sequence = q, sr_Envelope = env\<rparr>"
  shows "triple (safe env e x) (window_fill lib limits gs) (\<lambda>r s. safe env e x s \<and> (case r of Inl _ \<Rightarrow> True | Inr ys \<Rightarrow> faithful env ys))"
proof -
  let ?S = "safe env e x"
  have keep: "triple ?S m (\<lambda>_. ?S)" if "keeps ?S m" for m :: "'a wal" using that by (simp add: keeps_def)
  have select: "triple ?S (window_select lib limit blimit xs 0 0 [])
      (\<lambda>r s. (case r of Inl _ \<Rightarrow> True | Inr ys \<Rightarrow> faithful env ys) \<and> ?S s)"
    if "\<forall>e'. (env_ID env, e') \<in> set xs \<longrightarrow> e' = e" for xs limit blimit
    using triple_conj [OF select_faithful [OF assms that] keep [OF prot.keeps_window_select]]
    by (rule triple_pre) (auto simp: faithful_def)
  have candidates: "triple ?S (gets (window_candidates gs)) (\<lambda>xs s. (\<forall>e'. (env_ID env, e') \<in> set xs \<longrightarrow> e' = e) \<and> ?S s)"
    using safe_candidates [where env = env and e = e and x = x] by (intro triple_State) auto
  have register': "triple ?S (do { _ \<leftarrow> modify (register ys); ret (Inr ys) })
      (\<lambda>r s. ?S s \<and> (case r of Inl _ \<Rightarrow> True | Inr ys \<Rightarrow> faithful env ys))" if "faithful env ys" for ys
    using keep [OF keeps_prepared] that unfolding register_def by (intro triple_bind [where R = "\<lambda>_. ?S"] triple_return) auto
  show ?thesis
    unfolding window_fill_def
    by (intro triple_bind [OF keep [OF prot.keeps_revalidate [OF index_wf]]] triple_option triple_return triple_bind [OF candidates]
        triple_pure triple_bind [OF keep [OF keeps_gets]] triple_bind [OF select] triple_sum register') auto
qed

section \<open>Custody\<close>

definition asked_for :: "Envelope \<Rightarrow> ingressWALCoordinator \<Rightarrow> bool" where
  "asked_for env c \<longleftrightarrow> (\<exists>g k i. (g, env, k, i) \<in> set (co_asked c))"

definition window_of :: "Envelope \<Rightarrow> (Generation, ingressWALProgress) gomap \<Rightarrow> bool" where
  "window_of env P \<longleftrightarrow> (\<forall>g pg. map_of P g = Some pg \<longrightarrow> gen_id g = env_ID env \<longrightarrow> pr_Envelope (pg_entry pg) = env)"

definition original :: "wal_lib \<Rightarrow> Envelope \<Rightarrow> dfile \<Rightarrow> bool" where
  "original lib env x \<longleftrightarrow> (\<exists>q. decodeRecord lib (f_data x) = Inr \<lparr>sr_Sequence = q, sr_Envelope = env\<rparr>)"

definition custody :: "wal_lib \<Rightarrow> Envelope \<Rightarrow> pendingEntry \<Rightarrow> dfile \<Rightarrow> ingressWALCoordinator \<Rightarrow> bool" where
  "custody lib env e x c \<longleftrightarrow> original lib env x \<and> script_ok lib (co_script c) \<and>
     (\<forall>g pg. map_of (co_progress c) g = Some pg \<longrightarrow> pr_Generation (pg_entry pg) = g) \<and>
     (asked_for env c \<or> safe env e x (co_store c) \<and> window_of env (co_progress c))"

named_theorems kept_safe \<open>steps that keep the custody of an accepted body\<close>

lemma custody_on_wal: "keeps (safe env e x) m \<Longrightarrow> keeps (custody lib env e x) (on_wal m)"
  unfolding on_wal_def keeps_def triple_def custody_def asked_for_def
  by (auto simp: case_prod_unfold)

lemmas custody_wal [kept_safe] =
  custody_on_wal [OF prot.keeps_ctx_Err [OF index_wf]] custody_on_wal [OF prot.keeps_ReleasePrepared] custody_on_wal [OF prot.keeps_Close]

lemma custody_look [kept_safe]: "keeps (custody lib env e x) (look f)"
  by (rule keeps_look)

lemma custody_setState [kept_safe]: "keeps (custody lib env e x) (setState st)"
  unfolding setState_def by (rule keeps_State) (simp add: custody_def asked_for_def)

lemma custody_on_provider [kept_safe]: "keeps (custody lib env e x) (on_provider k f)"
  unfolding on_provider_def by (rule keeps_State) (simp add: custody_def asked_for_def case_prod_unfold)

lemma custody_ctx_error [kept_safe]: "keeps (custody lib env e x) ctx_error"
  unfolding ctx_error_def by (intro hoare kept_safe)

lemma custody_appender:
  assumes "receivable lib key accepted"
  shows "keeps (custody lib env e x) (appender lib key body accepted)"
proof -
  have "keeps (custody lib env e x) (on_wal (wal_Append lib \<lparr>env_ID = i, env_Tailnet = t, env_Source = s, env_Signal = g,
      env_Accepted = accepted, env_Body = body\<rparr>))" if "key = (t, s, g)" for i t s g
    using assms that by (intro custody_on_wal prot.keeps_Append) (auto simp: receivable_def append_ok_def env_utf8_def)
  then show ?thesis unfolding appender_def by (intro hoare kept_safe) blast
qed

lemma custody_appends:
  assumes "\<forall>(key, body, accepted) \<in> set rs. receivable lib key accepted"
  shows "keeps (custody lib env e x) (appends lib rs)"
  using assms by (induction rs) (auto intro!: hoare kept_safe custody_appender)

lemma script_receivable: "script_ok lib (f # fs) \<Longrightarrow> \<forall>(key, body, accepted) \<in> set (if_appends f). receivable lib key accepted"
  by (simp add: script_ok_def)

lemma custody_interfere [kept_safe]: "keeps (custody lib env e x) (interfere lib)"
proof -
  have step: "triple (\<lambda>c. custody lib env e x c \<and> co_script c = f # fs)
      (change (\<lambda>c. c\<lparr>co_script := fs, co_providers := (\<lambda>k. if_steps f k (co_providers c k))\<rparr>))
      (\<lambda>_ c. script_ok lib (f # fs) \<and> custody lib env e x c)" for f fs
    by (rule triple_State) (auto simp: custody_def asked_for_def script_ok_def)
  have "triple (\<lambda>c. custody lib env e x c \<and> co_script c = sc)
      (case sc of [] \<Rightarrow> State_Monad.return () | f # fs \<Rightarrow> do {
         change (\<lambda>c. c\<lparr>co_script := fs, co_providers := (\<lambda>k. if_steps f k (co_providers c k))\<rparr>);
         appends lib (if_appends f)
       }) (\<lambda>_. custody lib env e x)" for sc
  proof (cases sc)
    case (Cons f fs)
    show ?thesis
      unfolding Cons list.case
      by (intro triple_bind [OF step] triple_pure custody_appends [unfolded keeps_def] script_receivable)
  qed (auto intro!: triple_return)
  then show ?thesis
    unfolding interfere_def keeps_def
    by (intro triple_bind [where R = "\<lambda>sc c. custody lib env e x c \<and> co_script c = sc"] triple_State) auto
qed

lemma custody_progress:
  assumes "custody lib env e x c"
    and "\<And>g pg. map_of P g = Some pg \<Longrightarrow> pr_Generation (pg_entry pg) = g \<and> (\<exists>pg'. map_of (co_progress c) g = Some pg' \<and> pg_entry pg = pg_entry pg')"
  shows "custody lib env e x (c\<lparr>co_progress := P\<rparr>)"
proof -
  have "window_of env (co_progress c) \<Longrightarrow> window_of env P" using assms(2) unfolding window_of_def by fastforce
  with assms show ?thesis unfolding custody_def asked_for_def by auto
qed

lemma custody_delete [kept_safe]: "keeps (custody lib env e x) (change (\<lambda>c. c\<lparr>co_progress := AList.delete g (co_progress c)\<rparr>))"
  unfolding keeps_def
proof (rule triple_State)
  fix c assume "custody lib env e x c"
  moreover from this have "\<forall>g pg. map_of (co_progress c) g = Some pg \<longrightarrow> pr_Generation (pg_entry pg) = g" by (simp add: custody_def)
  ultimately show "custody lib env e x (snd ((), c\<lparr>co_progress := AList.delete g (co_progress c)\<rparr>))"
    unfolding snd_conv by (intro custody_progress [of _ _ _ _ c]) (auto simp: delete_conv' split: if_splits)
qed

lemma custody_upd:
  assumes "\<And>pg. pg_entry (f pg) = pg_entry pg"
  shows "keeps (custody lib env e x) (upd_progress g f)"
proof -
  have "custody lib env e x (c\<lparr>co_progress := AList.update g (f pg) (co_progress c)\<rparr>)"
    if c: "custody lib env e x c" "map_of (co_progress c) g = Some pg" for c pg
  proof (rule custody_progress [OF c(1)])
    fix g' pg' assume "map_of (AList.update g (f pg) (co_progress c)) g' = Some pg'"
    with c assms show "pr_Generation (pg_entry pg') = g' \<and> (\<exists>pg. map_of (co_progress c) g' = Some pg \<and> pg_entry pg' = pg_entry pg)"
      by (auto simp: update_conv' custody_def split: if_splits)
  qed
  then show ?thesis unfolding upd_progress_def by (intro keeps_change) (auto split: option.split)
qed

lemma custody_releaseProgress [kept_safe]: "keeps (custody lib env e x) (releaseProgress g pg)"
  unfolding releaseProgress_def by (intro hoare kept_safe)

lemma custody_observeCommit [kept_safe]: "keeps (custody lib env e x) (observeCommit g)"
  unfolding observeCommit_def by (intro hoare kept_safe)

lemma safe_notify: "keeps (safe env e x) (window_notify m)"
proof -
  have "keeps (safe env e x) (modify (\<lambda>s. if c \<and> map_of (st_prepared s) g \<noteq> None
      then s\<lparr>st_prepared := AList.update g PreparedRetired (st_prepared s)\<rparr> else s))" for c g
    by (intro keeps_modify) (use prepared_irrelevant in auto)
  moreover have "keeps (safe env e x) (wal_cleanupCompletedSnapshot m)"
    unfolding wal_cleanupCompletedSnapshot_def by (intro hoare prot.keeps_cleanupCompletion keeps_gets prot.keeps_revalidate index_wf)
  ultimately show ?thesis unfolding window_notify_def by (intro hoare keeps_gets)
qed

lemma custody_window_observed [kept_safe]: "keeps (custody lib env e x) (window_observed xs)"
  by (induction xs) (auto intro!: hoare kept_safe custody_on_wal safe_notify)

lemma safe_window_begin: "keeps (safe env e x) (window_begin limits gs)"
  unfolding window_begin_def by (intro hoare keeps_gets prot.keeps_ctx_Err prot.keeps_cleanupOrphans) simp

lemma custody_add:
  assumes "custody lib env e x c" "\<not> asked_for env c \<Longrightarrow> faithful env ys"
  shows "custody lib env e x (add_progress ys c)"
  using assms
proof (induction ys arbitrary: c)
  case (Cons y ys)
  let ?c = "if map_of (co_progress c) (pr_Generation y) \<noteq> None then c
        else c\<lparr>co_order := Suc (co_order c),
               co_progress := AList.update (pr_Generation y)
                 \<lparr>pg_entry = y, pg_work = None, pg_receipt = None, pg_delivery = None, pg_order = Suc (co_order c)\<rparr>
                 (co_progress c)\<rparr>"
  have "custody lib env e x ?c" "asked_for env ?c = asked_for env c"
    using Cons.prems by (auto simp: custody_def asked_for_def window_of_def faithful_def update_conv' split: if_splits)
  with Cons.IH [of ?c] Cons.prems(2) show ?case by (simp only: add_progress.simps faithful_def) auto
qed simp

lemma custody_fill:
  "triple (custody lib env e x) (on_wal (window_fill lib limits gs))
     (\<lambda>r c. custody lib env e x c \<and> (\<forall>ys. r = Inr ys \<longrightarrow> \<not> asked_for env c \<longrightarrow> faithful env ys))"
  unfolding triple_def
proof (intro allI impI)
  fix c assume c: "custody lib env e x c"
  obtain r s where run: "run_state (window_fill lib limits gs) (co_store c) = (r, s)" by (rule prod.exhaust)
  from c obtain q where "decodeRecord lib (f_data x) = Inr \<lparr>sr_Sequence = q, sr_Envelope = env\<rparr>" by (auto simp: custody_def original_def)
  from triple_elim [OF fill_faithful [OF this, of e limits gs] _ run] have
    "safe env e x (co_store c) \<Longrightarrow> safe env e x s \<and> (case r of Inl _ \<Rightarrow> True | Inr ys \<Rightarrow> faithful env ys)" .
  with c run show "custody lib env e x (snd (run_state (on_wal (window_fill lib limits gs)) c)) \<and>
      (\<forall>ys. fst (run_state (on_wal (window_fill lib limits gs)) c) = Inr ys \<longrightarrow>
         \<not> asked_for env (snd (run_state (on_wal (window_fill lib limits gs)) c)) \<longrightarrow> faithful env ys)"
    by (auto simp: on_wal_def custody_def asked_for_def)
qed

lemma custody_fillWindow [kept_safe]: "keeps (custody lib env e x) (fillWindow lib)"
proof -
  let ?C = "custody lib env e x"
  let ?Q = "\<lambda>r c. ?C c \<and> (\<forall>ys. r = Inr ys \<longrightarrow> \<not> asked_for env c \<longrightarrow> faithful env ys)"
  have keep: "triple ?C m (\<lambda>_. ?C)" if "keeps ?C m" for m :: "'a coord" using that by (simp add: keeps_def)
  have prepare: "triple ?C (prepareWindow lib limits gs) ?Q" for limits gs
    unfolding prepareWindow_def
    by (intro triple_bind [OF keep [OF custody_on_wal [OF safe_window_begin]]] triple_sum triple_return triple_option
        triple_bind [OF keep [OF custody_window_observed]] custody_fill) auto
  have add: "triple (?Q r) (case r of Inl e \<Rightarrow> State_Monad.return [StorageErr e]
      | Inr entries \<Rightarrow> do { change (add_progress entries); State_Monad.return [] }) (\<lambda>_. ?C)" for r
    by (cases r) (auto simp: triple_def intro: custody_add)
  have entries: "keeps ?C (do { r \<leftarrow> prepareWindow lib limits gs; case r of Inl e \<Rightarrow> State_Monad.return [StorageErr e]
      | Inr entries \<Rightarrow> do { change (add_progress entries); State_Monad.return [] } })" for limits gs
    unfolding keeps_def by (rule triple_bind [OF prepare add])
  show ?thesis unfolding fillWindow_def Let_def by (intro keeps_if keeps_option keeps_return entries keeps_bind [OF keeps_look])
qed

lemma custody_run_actions: "keeps (custody lib env e x) (run_actions lib k i as)"
  by (induction as) (auto intro!: hoare kept_safe simp: run_action_def)

lemma custody_applyIngress [kept_safe]: "keeps (custody lib env e x) (applyIngress lib k i work)"
  unfolding applyIngress_def by (intro hoare kept_safe custody_run_actions)

lemma custody_upds [kept_safe]:
  "keeps (custody lib env e x) (upd_progress g (\<lambda>pg. pg\<lparr>pg_work := w, pg_delivery := d\<rparr>))"
  "keeps (custody lib env e x) (upd_progress g (\<lambda>pg. pg\<lparr>pg_work := w\<rparr>))"
  "keeps (custody lib env e x) (upd_progress g (\<lambda>pg. pg\<lparr>pg_receipt := i\<rparr>))"
  by (simp_all add: custody_upd)

lemma custody_apply_registered [kept_safe]: "keeps (custody lib env e x) (apply_registered lib g k i work blocked)"
  unfolding apply_registered_def by (intro hoare kept_safe)

lemma custody_apply_entry [kept_safe]: "keeps (custody lib env e x) (apply_entry lib g pg r blocked providers)"
  unfolding apply_entry_def prepare_work_def reserve_and_apply_def by (intro hoare kept_safe)

lemma custody_apply_one [kept_safe]: "keeps (custody lib env e x) (apply_one lib g blocked providers)"
  unfolding apply_one_def by (intro hoare kept_safe)

lemma custody_apply_loop [kept_safe]: "keeps (custody lib env e x) (apply_loop lib gs blocked providers)"
proof (induction gs arbitrary: blocked providers)
  case (Cons g gs)
  have "keeps (custody lib env e x) (case out of Stop err \<Rightarrow> State_Monad.return (err, ps) | Continue bl \<Rightarrow> apply_loop lib gs bl ps)" for out ps
    by (cases out) (auto intro: hoare Cons)
  then show ?case unfolding apply_loop.simps by (intro hoare kept_safe)
qed (simp add: keeps_return)

lemma custody_seal_all [kept_safe]: "keeps (custody lib env e x) (seal_all ks)"
  by (induction ks) (auto intro!: hoare kept_safe)

lemma custody_applyWindow: "keeps (custody lib env e x) (applyWindow lib)"
  unfolding applyWindow_def by (intro hoare kept_safe)

lemma custody_ExpireStale:
  assumes "cutoff \<le> env_Accepted env"
  shows "keeps (custody lib env e x) (ExpireStale lib cutoff)"
proof -
  have "keeps (custody lib env e x) (on_wal (wal_ExpireBefore lib cutoff eligible))" for eligible
  proof (cases "original lib env x")
    case True
    then obtain q where "decodeRecord lib (f_data x) = Inr \<lparr>sr_Sequence = q, sr_Envelope = env\<rparr>" by (auto simp: original_def)
    from protected_expire [OF this] assms show ?thesis by (intro custody_on_wal) simp
  qed (simp add: keeps_def triple_def custody_def)
  then show ?thesis unfolding ExpireStale_def by (intro hoare kept_safe)
qed

lemma custody_ask:
  assumes "custody lib env e x c" "map_of (co_progress c) g = Some pg"
    and c'_def: "c' = c\<lparr>co_asked := co_asked c @ [(pr_Generation (pg_entry pg), pr_Envelope (pg_entry pg), k, i)]\<rparr>"
  shows "(asked_for env c' \<or> gen_id (pr_Generation (pg_entry pg)) \<noteq> env_ID env) \<and> custody lib env e x c'"
proof -
  have "asked_for env c' \<longleftrightarrow> asked_for env c \<or> pr_Envelope (pg_entry pg) = env" by (auto simp: c'_def asked_for_def)
  with assms(1,2) show ?thesis by (auto simp: custody_def window_of_def c'_def)
qed

lemma custody_CommitPrepared:
  "triple (\<lambda>c. (asked_for env c \<or> gen_id g \<noteq> env_ID env) \<and> custody lib env e x c) (on_wal (wal_CommitPrepared g)) (\<lambda>_. custody lib env e x)"
proof (cases "gen_id g = env_ID env")
  case True
  then show ?thesis by (auto simp: triple_def on_wal_def custody_def asked_for_def case_prod_unfold)
next
  case False
  with custody_on_wal [OF prot.keeps_CommitPrepared] show ?thesis by (auto simp: keeps_def triple_def)
qed

lemma custody_commit_loop: "keeps (custody lib env e x) (commit_loop lib gs combined)"
proof (induction gs arbitrary: combined)
  case (Cons g gs)
  let ?C = "custody lib env e x"
  let ?ask = "\<lambda>pg. change (\<lambda>c. c\<lparr>co_asked := co_asked c @
    [(pr_Generation (pg_entry pg), pr_Envelope (pg_entry pg), the (pg_delivery pg), the (pg_receipt pg))]\<rparr>)"
  have ask: "triple (\<lambda>c. ?C c \<and> map_of (co_progress c) g = Some pg) (?ask pg)
      (\<lambda>_ c. (asked_for env c \<or> gen_id (pr_Generation (pg_entry pg)) \<noteq> env_ID env) \<and> ?C c)" for pg
    unfolding triple_def using custody_ask [of lib env e x _ g pg] by auto
  have eligible: "triple (\<lambda>c. ?C c \<and> map_of (co_progress c) g = Some pg) (look (receipt_eligible pg))
      (\<lambda>_ c. ?C c \<and> map_of (co_progress c) g = Some pg)" for pg
    by (rule triple_State) simp
  note rest = Cons [unfolded keeps_def]
  show ?case
    unfolding commit_loop.simps keeps_def
    by (intro triple_bind [OF custody_interfere [unfolded keeps_def]] triple_look_option rest triple_bind [OF eligible] triple_if
        triple_bind [OF ask] triple_bind [OF custody_CommitPrepared] triple_prod triple_option
        triple_bind [OF custody_releaseProgress [unfolded keeps_def]] triple_pre [OF rest]) simp_all
qed (simp add: keeps_return)

lemma custody_commitEligible: "keeps (custody lib env e x) (commitEligible lib)"
  unfolding commitEligible_def by (intro hoare kept_safe custody_commit_loop)

interpretation guarding: pass_inv lib "custody lib env e x" "receivable lib" "\<lambda>cutoff. cutoff \<le> env_Accepted env" for lib env e x
  by unfold_locales (auto intro: kept_safe custody_applyWindow custody_commitEligible custody_appender custody_ExpireStale
    simp: custody_def asked_for_def)

interpretation routing: frame_inv "\<lambda>c. co_routes c = R" for R
  by unfold_locales (auto intro!: keeps_change simp: setState_def)

interpretation failing: frame_inv "\<lambda>c. co_state c \<in> {StateFailed, StateStopped}"
  by unfold_locales (auto intro!: keeps_change simp: setState_def)

section \<open>What the program promises of an accepted body\<close>

lemma custody_start:
  assumes "coord_inv lib {} c" "wf s" "acknowledged lib env e x s" "co_store c = watch s" "window_of env (co_progress c)"
  shows "custody lib env e x c"
proof -
  from assms(2,3) have "safe env e x (watch s)"
    by (auto simp: wf_def watch_def acknowledged_def held_def protected_def kept_def stored_def)
  with assms show ?thesis by (auto simp: custody_def coord_inv_def progress_ok_def original_def acknowledged_def)
qed

lemma safe_images:
  assumes "safe env e x s" "f_synced x" "m \<in> set (d_maybe (st_disk s) # d_past (st_disk s))" "crash_image m img"
  shows "img (pe_name e) = Some (f_data x)"
proof -
  from assms(1,3) have "m (pe_name e) = {Some x}" by (auto simp: held_def protected_def kept_def stored_def)
  with assms(2,4) show ?thesis by (intro crash_image_stored)
qed


text \<open>A coordinator over a given log with one route, as the application constructs it.\<close>

definition toy_route :: ingressWALRoute where
  "toy_route = \<lparr>rt_tailnet = ''t'', rt_source = ingressWALSourceStream, rt_signal = ingressWALSignalHEC,
     rt_prepare = Some (\<lambda>_ _. Some \<lparr>iw_Bounds = demo_bounds, iw_Apply = Some ([EmitMetric demo_op, EmitLog demo_rec], False)\<rparr>),
     rt_delivery = Some 0\<rparr>"

definition toy_coordinator :: "Store \<Rightarrow> ingressWALCoordinator" where
  "toy_coordinator s = projr (newIngressWALCoordinator True s [toy_route] (\<lambda>_. newProvider False False 2 10 5) [])"

lemma new_coord_inv:
  assumes "newIngressWALCoordinator hasWal s rs ps script = Inr c" "\<And>k. reachable (ps k)" "script_ok lib script"
  shows "coord_inv lib X c" "co_store c = s" "co_progress c = []"
  using assms by (auto simp: newIngressWALCoordinator_def Let_def coord_inv_def asked_ok_def split: if_splits option.splits)

lemma toy_coordinator_facts:
  "coord_inv toy_lib {} (toy_coordinator s)" "co_store (toy_coordinator s) = s" "co_progress (toy_coordinator s) = []"
  "co_routes (toy_coordinator s) = [((''t'', ''stream'', ''hec''), toy_route)]" "co_state (toy_coordinator s) = StateReplaying"
  "co_providers (toy_coordinator s) = (\<lambda>_. newProvider False False 2 10 5)"
proof -
  have new: "newIngressWALCoordinator True s [toy_route] (\<lambda>_. newProvider False False 2 10 5) [] = Inr (toy_coordinator s)"
    by (simp add: toy_coordinator_def newIngressWALCoordinator_def Let_def validIngressWALRoute_def toy_route_def)
  from new_coord_inv [OF new] show "coord_inv toy_lib {} (toy_coordinator s)" "co_store (toy_coordinator s) = s"
    "co_progress (toy_coordinator s) = []"
    using reachable.start by (auto simp: script_ok_def)
  show "co_routes (toy_coordinator s) = [((''t'', ''stream'', ''hec''), toy_route)]" "co_state (toy_coordinator s) = StateReplaying"
    "co_providers (toy_coordinator s) = (\<lambda>_. newProvider False False 2 10 5)"
    by (simp_all add: toy_coordinator_def newIngressWALCoordinator_def Let_def validIngressWALRoute_def toy_route_def
        route_key_of_def ingressWALSourceStream_def ingressWALSignalHEC_def)
qed




section \<open>Failures and retries\<close>

text \<open>A failed coordinator stays failed: whatever is called afterwards, the state is failed, or stopped once it was closed, and while it is
  failed every append on a known route is refused with the append error and changes nothing.\<close>

theorem failed_coordinator_refuses:
  assumes "co_state c = StateFailed" "run_state (coord_calls lib as) c = (u, c')" "map_of (co_routes c) key \<noteq> None"
  shows "co_state c' \<in> {StateFailed, StateStopped} \<and>
    (co_state c' = StateFailed \<longrightarrow> run_state (appender lib key body accepted) c' = ([ErrIngressWALAppend], c'))"
proof -
  have "co_state c' \<in> {StateFailed, StateStopped}"
    using keeps_elim [OF failing.keeps_coord_calls [of as lib] _ assms(2)] assms(1) by (simp add: allowed_all)
  moreover have "co_routes c' = co_routes c"
    using keeps_elim [OF routing.keeps_coord_calls [of as "co_routes c" lib] _ assms(2)] by (simp add: allowed_all)
  ultimately show ?thesis
    using assms(3) by (auto simp: appender_def refuses_appends_def setState_def)
qed

theorem failed_coordinator_refuses_witness:
  "run_state (appender toy_lib (''t'', ''stream'', ''hec'') ''{}'' 1) ((toy_coordinator toy_store)\<lparr>co_state := StateFailed\<rparr>) =
     ([ErrIngressWALAppend], (toy_coordinator toy_store)\<lparr>co_state := StateFailed\<rparr>)"
  using failed_coordinator_refuses [of "(toy_coordinator toy_store)\<lparr>co_state := StateFailed\<rparr>" toy_lib "[]" "()" _ "(''t'', ''stream'', ''hec'')"]
  by (simp add: toy_coordinator_facts)

lemma retry_loop_exact: "0 < d \<Longrightarrow> retry_loop n d = min ingressWALMaximumRetry (d * 2 ^ n)"
proof (induction n arbitrary: d)
  case (Suc n)
  have "1 \<le> (2::int) ^ n" by simp
  show ?case
  proof (cases "ingressWALMaximumRetry div 2 \<le> d")
    case True
    with Suc.prems \<open>1 \<le> 2 ^ n\<close> have "d * 1 \<le> d * 2 ^ n" by (intro mult_left_mono) auto
    with True have "2500000000 \<le> d * 2 ^ n" unfolding ingressWALMaximumRetry_def by linarith
    with True show ?thesis by (simp add: ingressWALMaximumRetry_def min_def)
  next
    case False
    with Suc show ?thesis by (simp add: mult.assoc)
  qed
qed (auto simp: min_def)

text \<open>The delay before retry \<open>n\<close> is the exponential backoff: 100 ms doubled with every further failure, capped at 5 s.\<close>

lemma retry_delay_exact:
  "ingressWALRetryDelay failures = min ingressWALMaximumRetry (ingressWALInitialRetry * 2 ^ nat (failures - 1))"
  by (auto simp: ingressWALRetryDelay_def retry_loop_exact ingressWALInitialRetry_def ingressWALMaximumRetry_def)

end
