(* ===== verification/Go_Encoding.thy ===== *)
theory Go_Encoding
  imports Go_Strings
begin

text \<open>
  What the checkpoint rows use of \<open>encoding/base64\<close> (\<open>RawURLEncoding\<close>), \<open>strconv\<close> and \<open>strings\<close>: encoding and
  decoding without padding, signed decimal numbers, cutting and splitting at a byte; and that decoding inverts encoding.
\<close>

section \<open>Base64 for URLs, without padding\<close>

definition base64_alphabet :: string where
  "base64_alphabet = ''ABCDEFGHIJKLMNOPQRSTUVWXYZabcdefghijklmnopqrstuvwxyz0123456789-_''"

definition base64_char :: "nat \<Rightarrow> char" where
  "base64_char n = base64_alphabet ! n"

fun index_of :: "'a \<Rightarrow> 'a list \<Rightarrow> nat option" where
  "index_of x [] = None"
| "index_of x (y # ys) = (if x = y then Some 0 else map_option Suc (index_of x ys))"

definition base64_value :: "char \<Rightarrow> nat option" where
  "base64_value c = index_of c base64_alphabet"

fun base64_Encode :: "string \<Rightarrow> string" where
  "base64_Encode (a # b # c # s) =
     (let n = of_char a * 65536 + of_char b * 256 + of_char c
      in base64_char (n div 262144) # base64_char (n div 4096 mod 64) # base64_char (n div 64 mod 64) # base64_char (n mod 64) #
         base64_Encode s)"
| "base64_Encode [a, b] =
     (let n = of_char a * 256 + of_char b
      in [base64_char (n div 1024), base64_char (n div 16 mod 64), base64_char (n mod 16 * 4)])"
| "base64_Encode [a] = [base64_char (of_char a div 4), base64_char (of_char a mod 4 * 16)]"
| "base64_Encode [] = []"

text \<open>Line breaks are skipped and the unused bits of the last character are ignored, as without \<open>Strict\<close>.\<close>

fun base64_quanta :: "nat list \<Rightarrow> string option" where
  "base64_quanta (a # b # c # d # s) =
     (let n = a * 262144 + b * 4096 + c * 64 + d
      in map_option (\<lambda>t. char_of (n div 65536) # char_of (n div 256 mod 256) # char_of (n mod 256) # t) (base64_quanta s))"
| "base64_quanta [a, b, c] = (let n = a * 1024 + b * 16 + c div 4 in Some [char_of (n div 256), char_of (n mod 256)])"
| "base64_quanta [a, b] = Some [char_of (a * 4 + b div 16)]"
| "base64_quanta [a] = None"
| "base64_quanta [] = Some []"

fun all_some :: "'a option list \<Rightarrow> 'a list option" where
  "all_some [] = Some []"
| "all_some (None # xs) = None"
| "all_some (Some x # xs) = map_option ((#) x) (all_some xs)"

definition base64_Decode :: "string \<Rightarrow> string option" where
  "base64_Decode s =
     (case all_some (map base64_value (filter (\<lambda>c. c \<noteq> CHR 0x0A \<and> c \<noteq> CHR 0x0D) s)) of
        None \<Rightarrow> None
      | Some ns \<Rightarrow> base64_quanta ns)"

lemma base64_alphabet_facts: "length base64_alphabet = 64" "distinct base64_alphabet"
  by (simp_all add: base64_alphabet_def)

lemma index_of_nth: "distinct ys \<Longrightarrow> n < length ys \<Longrightarrow> index_of (ys ! n) ys = Some n"
proof (induction ys arbitrary: n)
  case (Cons y ys)
  then show ?case by (cases n) auto
qed simp

lemma base64_value_char [simp]: "n < 64 \<Longrightarrow> base64_value (base64_char n) = Some n"
  unfolding base64_value_def base64_char_def using base64_alphabet_facts by (intro index_of_nth) simp_all

definition base64_word :: "string \<Rightarrow> bool" where
  "base64_word s \<longleftrightarrow> set s \<subseteq> set base64_alphabet"

lemma base64_char_in [simp]: "n < 64 \<Longrightarrow> base64_char n \<in> set base64_alphabet"
  unfolding base64_char_def using base64_alphabet_facts(1) by (metis nth_mem)

lemma byte_bound: "(of_char c :: nat) < 256"
  by (metis of_char_mod_256 mod_less_divisor zero_less_numeral)

lemma base64_Encode_word: "base64_word (base64_Encode s)"
proof (induction s rule: base64_Encode.induct)
  case (1 a b c s)
  have "of_char a * 65536 + of_char b * 256 + of_char c < (16777216 :: nat)"
    using byte_bound [of a] byte_bound [of b] byte_bound [of c] by linarith
  with 1 show ?case by (simp add: base64_word_def Let_def less_mult_imp_div_less)
next
  case (2 a b)
  have "of_char a * 256 + of_char b < (65536 :: nat)" using byte_bound [of a] byte_bound [of b] by linarith
  moreover have "of_char b mod 16 * 4 < (64 :: nat)" by simp
  ultimately show ?case by (simp add: base64_word_def Let_def less_mult_imp_div_less)
next
  case (3 a)
  have "of_char a mod 4 * 16 < (64 :: nat)" by simp
  with byte_bound [of a] show ?case by (simp add: base64_word_def less_mult_imp_div_less)
qed (simp add: base64_word_def)

lemma base64_no_break: "base64_word s \<Longrightarrow> filter (\<lambda>c. c \<noteq> CHR 0x0A \<and> c \<noteq> CHR 0x0D) s = s"
  by (rule filter_True) (auto simp: base64_word_def base64_alphabet_def)

text \<open>The row separator never occurs in an encoding.\<close>

lemma base64_no_slash: "base64_word s \<Longrightarrow> CHR ''/'' \<notin> set s"
  by (auto simp: base64_word_def base64_alphabet_def)

lemma digits_sum: "n = q1 * 64 + r0 \<Longrightarrow> q1 = q2 * 64 + r1 \<Longrightarrow> q2 = q3 * 64 + r2 \<Longrightarrow> q3 * 262144 + r2 * 4096 + r1 * 64 + r0 = (n :: nat)"
  by simp

lemma digits4: "(n :: nat) div 262144 * 262144 + n div 4096 mod 64 * 4096 + n div 64 mod 64 * 64 + n mod 64 = n"
proof -
  have "n div 4096 = n div 64 div 64" using div_mult2_eq [of n 64 64] by simp
  moreover from this have "n div 262144 = n div 64 div 64 div 64" using div_mult2_eq [of n 4096 64] by simp
  ultimately show ?thesis
    using digits_sum [of n "n div 64" "n mod 64" "n div 64 div 64" "n div 64 mod 64" "n div 64 div 64 div 64" "n div 64 div 64 mod 64"]
    by (simp only: div_mult_mod_eq simp_thms)
qed

lemma bytes_of:
  assumes "b < 256" "c < (256 :: nat)"
  shows "(a * 65536 + b * 256 + c) div 65536 = a \<and> (a * 65536 + b * 256 + c) div 256 mod 256 = b \<and> (a * 65536 + b * 256 + c) mod 256 = c"
proof -
  let ?n = "a * 65536 + b * 256 + c"
  have q: "?n = c + (a * 256 + b) * 256" by simp
  have "?n mod 256 = c" unfolding q using assms(2) by (simp only: mod_mult_self1 mod_less)
  moreover have "?n div 256 = a * 256 + b" unfolding q using assms(2) by (subst div_mult_self1) simp_all
  moreover have "?n div 65536 = ?n div 256 div 256" using div_mult2_eq [of ?n 256 256] by simp
  ultimately show ?thesis using assms(1) by simp
qed

lemma base64_roundtrip_values: "\<exists>ns. all_some (map base64_value (base64_Encode s)) = Some ns \<and> base64_quanta ns = Some s"
proof (induction s rule: base64_Encode.induct)
  case (1 a b c s)
  let ?n = "of_char a * 65536 + of_char b * 256 + of_char c :: nat"
  note bytes = byte_bound [of a] byte_bound [of b] byte_bound [of c]
  then have n: "?n < 16777216" by linarith
  from 1 obtain ns where ns: "all_some (map base64_value (base64_Encode s)) = Some ns" "base64_quanta ns = Some s" by blast
  have digits: "?n div 262144 * 262144 + ?n div 4096 mod 64 * 4096 + ?n div 64 mod 64 * 64 + ?n mod 64 = ?n"
    by (rule digits4)
  have parts: "?n div 65536 = of_char a" "?n div 256 mod 256 = of_char b" "?n mod 256 = of_char c"
    using bytes_of [OF bytes(2,3), of "of_char a"] by simp_all
  have "char_of (?n div 65536) = a" "char_of (?n div 256) = b" "char_of ?n = c"
    using parts by (metis char_of_char char_of_mod_256)+
  with n ns show ?case by (simp add: Let_def less_mult_imp_div_less digits)
next
  case (2 a b)
  let ?n = "of_char a * 256 + of_char b :: nat"
  note bytes = byte_bound [of a] byte_bound [of b]
  then have n: "?n < 65536" by linarith
  have "?n div 1024 = ?n div 16 div 64" using div_mult2_eq [of ?n 16 64] by simp
  moreover have "?n div 16 * 16 + ?n mod 16 = ?n" "?n div 16 div 64 * 64 + ?n div 16 mod 64 = ?n div 16" by simp_all
  moreover have "n = q1 * 16 + r0 \<Longrightarrow> q1 = q2 * 64 + r1 \<Longrightarrow> q2 * 1024 + r1 * 16 + r0 = n" for n q1 q2 r0 r1 :: nat by simp
  ultimately have digits: "?n div 1024 * 1024 + ?n div 16 mod 64 * 16 + ?n mod 16 = ?n" by metis
  have parts: "?n div 256 = of_char a" "?n mod 256 = of_char b" using bytes_of [of 0 "of_char b" "of_char a"] bytes
      bytes_of [OF _ bytes(2), of "of_char a" 0] by simp_all
  have "char_of (?n div 256) = a" "char_of ?n = b" using parts by (metis char_of_char char_of_mod_256)+
  moreover have "?n mod 16 * 4 < 64" by simp
  ultimately show ?case using n digits by (simp add: Let_def less_mult_imp_div_less)
next
  case (3 a)
  have "of_char a div 4 * 4 + of_char a mod 4 * 16 div 16 = (of_char a :: nat)" "of_char a mod 4 * 16 < (64 :: nat)" by simp_all
  with byte_bound [of a] show ?case by (simp add: less_mult_imp_div_less)
qed simp

lemma base64_roundtrip [simp]: "base64_Decode (base64_Encode s) = Some s"
  using base64_roundtrip_values [of s] by (auto simp: base64_Decode_def base64_no_break [OF base64_Encode_word])

section \<open>Signed decimal numbers\<close>

definition strconv_FormatInt :: "int \<Rightarrow> string" where
  "strconv_FormatInt n = (if n < 0 then CHR ''-'' # dec_digits (nat (- n)) else dec_digits (nat n))"

text \<open>\<open>strconv.ParseInt(s, 10, 64)\<close> and \<open>strconv.Atoi\<close> on 64 bits.\<close>

definition strconv_ParseInt :: "string \<Rightarrow> int option" where
  "strconv_ParseInt s =
     (let neg = (s \<noteq> [] \<and> hd s = CHR ''-''); digits = (if s \<noteq> [] \<and> hd s \<in> {CHR ''-'', CHR ''+''} then tl s else s)
      in if digits = [] \<or> \<not> list_all is_digit digits then None
         else if neg then (if dec_value digits \<le> 2 ^ 63 then Some (- int (dec_value digits)) else None)
         else if dec_value digits < 2 ^ 63 then Some (int (dec_value digits)) else None)"

lemma sign_not_digit: "\<not> is_digit (CHR ''-'')" "\<not> is_digit (CHR ''+'')" "\<not> is_digit (CHR ''/'')"
  by (simp_all add: is_digit_def)

lemma dec_digits_nonempty [simp]: "dec_digits n \<noteq> []"
  by (simp add: dec_digits.simps [of n])

lemma dec_digits_hd: "hd (dec_digits n) \<notin> {CHR ''-'', CHR ''+''}"
proof -
  have "is_digit (hd (dec_digits n))" using dec_digits_are_digits [of n] by (cases "dec_digits n") auto
  with sign_not_digit show ?thesis by auto
qed

lemma ParseInt_FormatInt: "- (2 ^ 63) \<le> n \<Longrightarrow> n < 2 ^ 63 \<Longrightarrow> strconv_ParseInt (strconv_FormatInt n) = Some n"
  using dec_digits_hd [of "nat n"] dec_digits_are_digits [of "nat n"] dec_digits_are_digits [of "nat (- n)"]
  by (auto simp: strconv_ParseInt_def strconv_FormatInt_def Let_def)

lemma FormatInt_no_slash: "CHR ''/'' \<notin> set (strconv_FormatInt n)"
  using dec_digits_are_digits [of "nat n"] dec_digits_are_digits [of "nat (- n)"] sign_not_digit(3)
  by (auto simp: strconv_FormatInt_def list_all_iff)

section \<open>Cutting and splitting\<close>

fun strings_Cut :: "char \<Rightarrow> string \<Rightarrow> (string \<times> string) option" where
  "strings_Cut c [] = None"
| "strings_Cut c (x # s) = (if x = c then Some ([], s) else map_option (\<lambda>(a, b). (x # a, b)) (strings_Cut c s))"

text \<open>\<open>strings.SplitN\<close> at a byte, into at most \<open>Suc n\<close> parts.\<close>

fun splitN :: "nat \<Rightarrow> char \<Rightarrow> string \<Rightarrow> string list" where
  "splitN 0 c s = [s]"
| "splitN (Suc n) c s = (case strings_Cut c s of None \<Rightarrow> [s] | Some (a, b) \<Rightarrow> a # splitN n c b)"

definition strings_SplitN :: "nat \<Rightarrow> char \<Rightarrow> string \<Rightarrow> string list" where
  "strings_SplitN n c s = splitN (n - 1) c s"

definition strings_TrimSuffix :: "string \<Rightarrow> string \<Rightarrow> string" where
  "strings_TrimSuffix s suffix' = (case strings_CutSuffix s suffix' of None \<Rightarrow> s | Some t \<Rightarrow> t)"

lemma Cut_append [simp]: "c \<notin> set a \<Longrightarrow> strings_Cut c (a @ c # b) = Some (a, b)"
  by (induction a) auto

lemma Cut_None: "c \<notin> set s \<Longrightarrow> strings_Cut c s = None"
  by (induction s) auto

lemma Cut_Some: "strings_Cut c s = Some (a, b) \<Longrightarrow> s = a @ c # b \<and> c \<notin> set a"
  by (induction s arbitrary: a) (auto split: if_splits)

lemma append_byte_inject:
  fixes c :: char
  assumes "c \<notin> set a" "c \<notin> set b" "a @ c # x = b @ c # y"
  shows "a = b \<and> x = y"
proof -
  from assms(3) have "strings_Cut c (a @ c # x) = strings_Cut c (b @ c # y)" by (rule arg_cong)
  then show ?thesis unfolding Cut_append [OF assms(1)] Cut_append [OF assms(2)] by simp
qed

end
