(* ===== verification/Go_Time.thy ===== *)
theory Go_Time
  imports Go_Encoding "HOL-Library.Monad_Syntax"
begin

text \<open>
  What the object-store keys use of package \<open>time\<close>: the civil date of an instant, formatting a day, and \<open>time.Parse\<close> for
  the layouts of the keys, over instants counted in nanoseconds from the zero time, 1 January of year 1. Dates are
  modelled for the years 1 to 9999.
\<close>

definition second_ns :: int where "second_ns = 1000000000"
definition day_ns :: int where "day_ns = 86400 * 1000000000"
definition unix_epoch :: int where "unix_epoch = 62135596800"

definition time_Unix :: "gotime \<Rightarrow> int" where
  "time_Unix t = t div second_ns - unix_epoch"

definition time_of_Unix :: "int \<Rightarrow> gotime" where
  "time_of_Unix n = (n + unix_epoch) * second_ns"

section \<open>The calendar\<close>

definition is_leap :: "nat \<Rightarrow> bool" where
  "is_leap y \<longleftrightarrow> y mod 4 = 0 \<and> (y mod 100 \<noteq> 0 \<or> y mod 400 = 0)"

definition days_in :: "nat \<Rightarrow> nat \<Rightarrow> nat" where
  "days_in y m = (if m = 2 then (if is_leap y then 29 else 28) else if m \<in> {4, 6, 9, 11} then 30 else 31)"

definition days_before_year :: "nat \<Rightarrow> nat" where
  "days_before_year y = (let n = y - 1 in 365 * n + n div 4 - n div 100 + n div 400)"

definition days_before_month :: "nat \<Rightarrow> nat \<Rightarrow> nat" where
  "days_before_month y m = (\<Sum>k \<leftarrow> [1..<m]. days_in y k)"

text \<open>Day numbers from 0 on 1 January of year 1.\<close>

definition day_number :: "nat \<Rightarrow> nat \<Rightarrow> nat \<Rightarrow> nat" where
  "day_number y m d = days_before_year y + days_before_month y m + (d - 1)"

definition valid_date :: "nat \<Rightarrow> nat \<Rightarrow> nat \<Rightarrow> bool" where
  "valid_date y m d \<longleftrightarrow> 1 \<le> m \<and> m \<le> 12 \<and> 1 \<le> d \<and> d \<le> days_in y m"

definition year_of :: "nat \<Rightarrow> nat" where
  "year_of n = (case find (\<lambda>y. n < days_before_year (Suc y)) [n div 366 + 1..<10000] of Some y \<Rightarrow> y | None \<Rightarrow> 0)"

definition month_of :: "nat \<Rightarrow> nat \<Rightarrow> nat" where
  "month_of y n = (case find (\<lambda>m. n < days_before_month y (Suc m)) [1..<13] of Some m \<Rightarrow> m | None \<Rightarrow> 0)"

definition civil :: "nat \<Rightarrow> nat \<times> nat \<times> nat" where
  "civil n = (let y = year_of n; r = n - days_before_year y; m = month_of y r in (y, m, r - days_before_month y m + 1))"

section \<open>Formatting and parsing\<close>

definition day_of :: "gotime \<Rightarrow> nat" where
  "day_of t = nat (t div day_ns)"

text \<open>The layout \<open>2006/01/02\<close>.\<close>

definition format_day :: "nat \<Rightarrow> string" where
  "format_day n = (case civil n of (y, m, d) \<Rightarrow> zero_padded 4 y @ CHR ''/'' # zero_padded 2 m @ CHR ''/'' # zero_padded 2 d)"

text \<open>\<open>getnum\<close>: two digits, or one when the field is not fixed.\<close>

fun getnum :: "bool \<Rightarrow> string \<Rightarrow> (nat \<times> string) option" where
  "getnum fixed (a # b # s) =
     (if \<not> is_digit a then None
      else if \<not> is_digit b then (if fixed then None else Some (dec_value [a], b # s))
      else Some (dec_value [a, b], s))"
| "getnum fixed [a] = (if \<not> is_digit a \<or> fixed then None else Some (dec_value [a], []))"
| "getnum fixed [] = None"

definition getyear :: "string \<Rightarrow> (nat \<times> string) option" where
  "getyear s = (if 4 \<le> length s \<and> list_all is_digit (take 4 s) then Some (dec_value (take 4 s), drop 4 s) else None)"

fun skip_byte :: "char \<Rightarrow> string \<Rightarrow> string option" where
  "skip_byte c [] = None"
| "skip_byte c (x # s) = (if x = c then Some s else None)"

text \<open>A date with a separator; the day is checked against the month when the whole value was read.\<close>

definition getdate :: "char \<Rightarrow> string \<Rightarrow> ((nat \<times> nat \<times> nat) \<times> string) option" where
  "getdate sep s = do {
     (y, s) \<leftarrow> getyear s;
     s \<leftarrow> skip_byte sep s;
     (m, s) \<leftarrow> getnum True s;
     if m < 1 \<or> 12 < m then None else do {
     s \<leftarrow> skip_byte sep s;
     (d, s) \<leftarrow> getnum True s;
     Some ((y, m, d), s)
     }
   }"

definition fraction :: "string \<Rightarrow> int" where
  "fraction ds = (let ds = take 9 ds in foldl (\<lambda>n c. n * 10 + int (dec_value [c])) 0 ds * 10 ^ (9 - length ds))"

text \<open>A fraction after the seconds, with its point or comma, is read whether or not the layout has one.\<close>

fun getfraction :: "string \<Rightarrow> int \<times> string" where
  "getfraction (p # d # s) =
     (if p \<in> {CHR ''.'', CHR '',''} \<and> is_digit d
      then (fraction (takeWhile is_digit (d # s)), dropWhile is_digit (d # s)) else (0, p # d # s))"
| "getfraction s = (0, s)"

text \<open>Hours, minutes and seconds as nanoseconds of the day.\<close>

definition getclock :: "char \<Rightarrow> string \<Rightarrow> (int \<times> string) option" where
  "getclock sep s = do {
     (h, s) \<leftarrow> getnum False s;
     if 24 \<le> h then None else do {
     s \<leftarrow> skip_byte sep s;
     (mi, s) \<leftarrow> getnum True s;
     if 60 \<le> mi then None else do {
     s \<leftarrow> skip_byte sep s;
     (sec, s) \<leftarrow> getnum True s;
     if 60 \<le> sec then None else
     (case getfraction s of (ns, s) \<Rightarrow> Some (((int h * 60 + int mi) * 60 + int sec) * 1000000000 + ns, s))
     }}
   }"

definition instant :: "nat \<times> nat \<times> nat \<Rightarrow> int \<Rightarrow> gotime option" where
  "instant = (\<lambda>(y, m, d) ns. if d < 1 \<or> days_in y m < d then None
     else Some ((365 * (int y - 1) + (int y - 1) div 4 - (int y - 1) div 100 + (int y - 1) div 400 + int (days_before_month y m) + int d - 1) * day_ns + ns))"

definition parse_day :: "string \<Rightarrow> gotime option" where
  "parse_day s = do { (date, s) \<leftarrow> getdate (CHR ''/'') s; if s \<noteq> [] then None else instant date 0 }"

text \<open>The layouts \<open>2006-01-02-15-04-05\<close> and \<open>2006/01/02/15:04:05\<close>.\<close>

definition parse_stamp :: "char \<Rightarrow> char \<Rightarrow> string \<Rightarrow> gotime option" where
  "parse_stamp dsep csep s = do {
     (date, s) \<leftarrow> getdate dsep s;
     s \<leftarrow> skip_byte dsep s;
     (ns, s) \<leftarrow> getclock csep s;
     if s \<noteq> [] then None else instant date ns
   }"

text \<open>The zone of \<open>time.RFC3339Nano\<close>: \<open>Z\<close> or an offset, in nanoseconds east.\<close>

definition getzone :: "string \<Rightarrow> (int \<times> string) option" where
  "getzone s =
     (if s \<noteq> [] \<and> hd s = CHR ''Z'' then Some (0, tl s)
      else if length s < 6 \<or> s ! 3 \<noteq> CHR '':'' then None
      else do {
        (hr, _) \<leftarrow> getnum True (take 2 (drop 1 s));
        (mm, _) \<leftarrow> getnum True (take 2 (drop 4 s));
        if 24 < hr \<or> 60 < mm then None
        else if hd s = CHR ''+'' then Some (int ((hr * 60 + mm) * 60) * second_ns, drop 6 s)
        else if hd s = CHR ''-'' then Some (- int ((hr * 60 + mm) * 60) * second_ns, drop 6 s)
        else None
      })"

definition parse_rfc3339 :: "string \<Rightarrow> gotime option" where
  "parse_rfc3339 s = do {
     (date, s) \<leftarrow> getdate (CHR ''-'') s;
     s \<leftarrow> skip_byte (CHR ''T'') s;
     (ns, s) \<leftarrow> getclock (CHR '':'') s;
     (off, s) \<leftarrow> getzone s;
     if s \<noteq> [] then None else map_option (\<lambda>t. t - off) (instant date ns)
   }"

section \<open>A formatted day is parsed back\<close>

lemma leap_sum:
  assumes "b \<le> 365 * k" "e100 \<Longrightarrow> e4" "e400 \<Longrightarrow> e100"
  shows "365 * Suc k + (a + of_bool e4) - (b + of_bool e100) + (c + of_bool e400) =
    365 * k + a - b + c + 365 + (if e4 \<and> (\<not> e100 \<or> e400) then 1 else (0 :: nat))"
  using assms by (cases e4; cases e100; cases e400) auto

lemma days_before_year_Suc: "1 \<le> y \<Longrightarrow> days_before_year (Suc y) = days_before_year y + 365 + (if is_leap y then 1 else 0)"
proof -
  assume "1 \<le> y"
  then obtain k where y: "y = Suc k" by (cases y) auto
  have step: "y div c = k div c + of_bool (y mod c = 0)" for c by (simp add: y div_Suc)
  have le: "k div 100 \<le> 365 * k" by (rule order_trans [of _ k]) simp_all
  have dvd: "y mod 100 = 0 \<Longrightarrow> y mod 4 = 0" "y mod 400 = 0 \<Longrightarrow> y mod 100 = 0"
    using dvd_trans [of 4 100 y] dvd_trans [of 100 400 y] by (auto simp: mod_eq_0_iff_dvd)
  have "Suc y - 1 = Suc k" "y - 1 = k" by (simp_all add: y)
  then show ?thesis
    unfolding days_before_year_def is_leap_def Let_def
    using leap_sum [where ?e4.0 = "y mod 4 = 0" and ?e100.0 = "y mod 100 = 0" and ?e400.0 = "y mod 400 = 0" and a = "k div 4" and c = "k div 400", OF le dvd]
    unfolding step [symmetric] by (simp only: y)
qed

lemma days_before_month_Suc: "1 \<le> m \<Longrightarrow> days_before_month y (Suc m) = days_before_month y m + days_in y m"
  by (simp add: days_before_month_def)

lemma days_before_month_one [simp]: "days_before_month y (Suc 0) = 0" "days_before_year (Suc 0) = 0"
  by (simp_all add: days_before_month_def days_before_year_def)

lemma days_in_year: "days_before_month y 13 = 365 + (if is_leap y then 1 else 0)"
  by (simp add: days_before_month_def days_in_def upt_rec)

text \<open>The first index whose successor lies beyond a value, in a sequence that starts below it.\<close>

lemma find_first:
  fixes f :: "nat \<Rightarrow> nat"
  assumes "f a \<le> n" "n < f b" "a \<le> b"
  shows "\<exists>y. find (\<lambda>y. n < f (Suc y)) [a..<b] = Some y \<and> a \<le> y \<and> y < b \<and> f y \<le> n \<and> n < f (Suc y)"
  using assms
proof (induction "b - a" arbitrary: a)
  case (Suc k)
  then have ab: "[a..<b] = a # [Suc a..<b]" "a < b" by (simp_all add: upt_conv_Cons)
  show ?case
  proof (cases "n < f (Suc a)")
    case True
    with ab Suc.prems show ?thesis by auto
  next
    case False
    then have "f (Suc a) \<le> n" by simp
    moreover have "k = b - Suc a" "Suc a \<le> b" using Suc.hyps(2) ab(2) by simp_all
    ultimately obtain y where
      "find (\<lambda>y. n < f (Suc y)) [Suc a..<b] = Some y" "Suc a \<le> y" "y < b" "f y \<le> n" "n < f (Suc y)"
      using Suc.hyps(1) [of "Suc a"] Suc.prems(2) by blast
    with False ab(1) show ?thesis by auto
  qed
qed auto

lemma year_of_spec:
  assumes "n < 3652059"
  shows "1 \<le> year_of n \<and> year_of n < 10000 \<and> days_before_year (year_of n) \<le> n \<and> n < days_before_year (Suc (year_of n))"
proof -
  have low: "days_before_year (n div 366 + 1) \<le> n"
  proof -
    let ?k = "n div 366"
    have "?k div 400 \<le> ?k div 4" by (simp add: div_le_mono2)
    moreover have "2 * (?k div 4) \<le> ?k" using div_times_less_eq_dividend [of ?k 4] by (simp add: mult.commute)
    moreover have "c \<le> a \<Longrightarrow> 2 * a \<le> k \<Longrightarrow> 365 * k + a - b + c \<le> 366 * k" for a b c k :: nat by simp
    ultimately have "365 * ?k + ?k div 4 - ?k div 100 + ?k div 400 \<le> 366 * ?k" by blast
    then have "365 * ?k + ?k div 4 - ?k div 100 + ?k div 400 \<le> n" by (rule order_trans) simp
    then show ?thesis unfolding days_before_year_def Let_def by (simp only: add_diff_cancel_right')
  qed
  have top': "n < days_before_year 10000" using assms by (simp add: days_before_year_def)
  have "n div 366 + 1 \<le> 10000" using assms by simp
  from find_first [of days_before_year, OF low top' this] show ?thesis unfolding year_of_def by auto
qed

lemma month_of_spec:
  assumes "n < days_before_month y 13"
  shows "1 \<le> month_of y n \<and> month_of y n \<le> 12 \<and> days_before_month y (month_of y n) \<le> n \<and> n < days_before_month y (Suc (month_of y n))"
proof -
  have "days_before_month y 1 \<le> n" by simp
  from find_first [of "days_before_month y", OF this assms] show ?thesis unfolding month_of_def by auto
qed

lemma civil_spec:
  assumes "n < 3652059" "civil n = (y, m, d)"
  shows "1 \<le> y \<and> y < 10000 \<and> valid_date y m d \<and> day_number y m d = n"
proof -
  let ?y = "year_of n" let ?r = "n - days_before_year ?y" let ?m = "month_of ?y ?r"
  from year_of_spec [OF assms(1)] have y: "1 \<le> ?y" "?y < 10000" "days_before_year ?y \<le> n" "n < days_before_year (Suc ?y)" by auto
  then have "?r < days_before_month ?y 13" by (simp add: days_before_year_Suc days_in_year)
  from month_of_spec [OF this] have m: "1 \<le> ?m" "?m \<le> 12" "days_before_month ?y ?m \<le> ?r" "?r < days_before_month ?y (Suc ?m)" by auto
  from assms(2) have "y = ?y" "m = ?m" "d = ?r - days_before_month ?y ?m + 1" by (auto simp: civil_def Let_def)
  moreover from m(3,4) have "?r - days_before_month ?y ?m < days_in ?y ?m" using m(1) by (simp add: days_before_month_Suc less_diff_conv2)
  moreover from m(3) y(3) have "days_before_year ?y + days_before_month ?y ?m + (?r - days_before_month ?y ?m) = n" by simp
  ultimately show ?thesis using y(1,2) m(1,2) by (simp add: valid_date_def day_number_def)
qed

lemma getnum_padded: "x < 100 \<Longrightarrow> getnum f (zero_padded 2 x @ s) = Some (x, s)"
proof -
  assume "x < 100"
  then have "length (zero_padded 2 x) = 2" by (simp add: length_zero_padded)
  then obtain a b where ab: "zero_padded 2 x = [a, b]" by (auto simp: numeral_2_eq_2 length_Suc_conv)
  with zero_padded_digits [of 2 x] zero_padded_value [of 2 x] show ?thesis by (simp del: zero_padded_value)
qed

lemma getyear_padded: "x < 10000 \<Longrightarrow> getyear (zero_padded 4 x @ s) = Some (x, s)"
  using length_zero_padded [of x 4] zero_padded_digits [of 4 x] by (simp add: getyear_def)

lemma days_in_bounds: "days_in y m \<le> 31"
  by (simp add: days_in_def)

lemma instant_day_number:
  assumes "1 \<le> y" "valid_date y m d"
  shows "instant (y, m, d) ns = Some (int (day_number y m d) * day_ns + ns)"
proof -
  have "(y - 1) div 100 \<le> (y - 1) div 4" by (simp add: div_le_mono2)
  then have "int (days_before_year y) = 365 * (int y - 1) + (int y - 1) div 4 - (int y - 1) div 100 + (int y - 1) div 400"
    using assms(1) unfolding days_before_year_def Let_def by (simp add: of_nat_diff zdiv_int)
  with assms show ?thesis by (auto simp: instant_def valid_date_def day_number_def of_nat_diff)
qed

lemma parse_format_day: "n < 3652059 \<Longrightarrow> parse_day (format_day n) = Some (int n * day_ns)"
proof -
  assume n: "n < 3652059"
  obtain y m d where c: "civil n = (y, m, d)" by (metis prod.exhaust)
  from civil_spec [OF n c] have s: "1 \<le> y" "y < 10000" "valid_date y m d" "day_number y m d = n" by auto
  then have "m < 100" "d < 100" using days_in_bounds [of y m] by (auto simp: valid_date_def)
  with s have "getdate (CHR ''/'') (format_day n) = Some ((y, m, d), [])"
    using getnum_padded [of d True "[]"]
    by (auto simp: getdate_def format_day_def c getyear_padded getnum_padded valid_date_def)
  with instant_day_number [OF s(1,3), of 0] s(4) show ?thesis by (simp add: parse_day_def)
qed

lemma format_day_shape: "n < 3652059 \<Longrightarrow> length (format_day n) = 10"
proof -
  assume n: "n < 3652059"
  obtain y m d where c: "civil n = (y, m, d)" by (metis prod.exhaust)
  from civil_spec [OF n c] have s: "y < 10000" "valid_date y m d" by auto
  then have "m < 100" "d < 100" using days_in_bounds [of y m] by (auto simp: valid_date_def)
  with s show ?thesis by (simp add: format_day_def c length_zero_padded)
qed

end
