(* ===== verification/Object_Keys.thy ===== *)
theory Object_Keys
  imports Go_Time
begin

text \<open>
  \<open>src/internal/collector/objectstore/key.go\<close> and the parts of \<open>state.go\<close> and \<open>objectstore.go\<close> that decide which prefixes
  are listed and which keys are admitted: the timestamp and codec in an object's name, the day partitions and flat
  prefix of a layout, which persisted prefix still belongs to the layout, the listing lower bound and the horizon.
\<close>

section \<open>Object names\<close>

datatype Layout = LayoutPartitioned | LayoutFlat | LayoutRecorder

datatype compression = compNone | compZstd | compGzip

definition suffixes :: "(string \<times> compression) list" where
  "suffixes =
     [(''.ndjson.zst'', compZstd), (''.ndjson.zstd'', compZstd), (''.ndjson.gz'', compGzip), (''.ndjson.gzip'', compGzip), (''.ndjson'', compNone),
      (''.json.zst'', compZstd), (''.json.zstd'', compZstd), (''.json.gz'', compGzip), (''.json.gzip'', compGzip), (''.json'', compNone)]"

definition recorderSuffixes :: "(string \<times> compression) list" where
  "recorderSuffixes = [(''.event'', compNone), (''.cast'', compNone)]"

definition maxClockSkew :: duration where "maxClockSkew = 5 * 60 * second_ns"

definition isFutureKey :: "gotime \<Rightarrow> gotime \<Rightarrow> bool" where
  "isFutureKey at now \<longleftrightarrow> now + maxClockSkew < at"

definition base_name :: "string \<Rightarrow> string" where
  "base_name key = (case strings_LastIndexByte key (CHR ''/'') of None \<Rightarrow> key | Some i \<Rightarrow> drop (Suc i) key)"

text \<open>The time-only basename takes its date from the three directories above it.\<close>

definition partition_stamp :: "string \<Rightarrow> string \<Rightarrow> gotime option" where
  "partition_stamp key stem =
     (let parts = split_byte (CHR ''/'') (strings_TrimSuffix key ''/''); n = length parts
      in if n < 4 then None
         else parse_stamp (CHR ''/'') (CHR '':'') (join_byte (CHR ''/'') (take 3 (drop (n - 4) parts)) @ ''/'' @ stem))"

fun suffix_loop :: "(string \<times> compression) list \<Rightarrow> string \<Rightarrow> string \<Rightarrow> (gotime \<times> compression) option" where
  "suffix_loop [] key base = None"
| "suffix_loop ((ext, cmp) # rest) key base =
     (case strings_CutSuffix base ext of
        None \<Rightarrow> suffix_loop rest key base
      | Some stem \<Rightarrow>
          (case parse_stamp (CHR ''-'') (CHR ''-'') stem of
             Some t \<Rightarrow> Some (t, cmp)
           | None \<Rightarrow> map_option (\<lambda>t. (t, cmp)) (partition_stamp key stem)))"

fun recorder_loop :: "(string \<times> compression) list \<Rightarrow> string \<Rightarrow> (gotime \<times> compression) option" where
  "recorder_loop [] base = None"
| "recorder_loop ((ext, cmp) # rest) base =
     (case strings_CutSuffix base ext of
        None \<Rightarrow> recorder_loop rest base
      | Some stem \<Rightarrow> map_option (\<lambda>t. (t, cmp)) (parse_rfc3339 stem))"

definition parseRecorderKey :: "string \<Rightarrow> (gotime \<times> compression) option" where
  "parseRecorderKey key = recorder_loop recorderSuffixes (base_name key)"

definition parseKey :: "string \<Rightarrow> Layout \<Rightarrow> (gotime \<times> compression) option" where
  "parseKey key layout =
     (if layout = LayoutRecorder then parseRecorderKey key else suffix_loop suffixes key (base_name key))"

section \<open>Prefixes\<close>

definition scanBase :: "string \<Rightarrow> string" where
  "scanBase prefix' = strings_TrimSuffix prefix' ''/''"

definition flatPrefix :: "string \<Rightarrow> string" where
  "flatPrefix base = (let b = scanBase base in if b = [] then [] else b @ ''/'')"

definition maxDayPrefixes :: nat where "maxDayPrefixes = 14"

definition day_prefix :: "string \<Rightarrow> int \<Rightarrow> string" where
  "day_prefix base day = (let p = format_day (nat day) @ ''/'' in if base \<noteq> [] then base @ ''/'' @ p else p)"

text \<open>The walk from the newest day back, with the room that is left.\<close>

fun day_loop :: "string \<Rightarrow> int \<Rightarrow> int \<Rightarrow> nat \<Rightarrow> string list" where
  "day_loop base first day 0 = []"
| "day_loop base first day (Suc n) = (if day < first then [] else day_prefix base day # day_loop base first (day - 1) n)"

definition dayPrefixes :: "string \<Rightarrow> gotime \<Rightarrow> gotime \<Rightarrow> nat \<Rightarrow> string list" where
  "dayPrefixes base start stop maxDays =
     (if stop < start then [] else rev (day_loop (scanBase base) (start div day_ns) (stop div day_ns) maxDays))"

definition scanPrefixes :: "Layout \<Rightarrow> string \<Rightarrow> gotime \<Rightarrow> gotime \<Rightarrow> string list" where
  "scanPrefixes layout prefix' start now =
     (if layout = LayoutFlat \<or> layout = LayoutRecorder then [flatPrefix prefix'] else dayPrefixes prefix' start now maxDayPrefixes)"

definition isConfiguredDayPrefix :: "string \<Rightarrow> string \<Rightarrow> bool" where
  "isConfiguredDayPrefix prefix' configuredBasePrefix =
     (let base = scanBase configuredBasePrefix
      in case (if base \<noteq> [] then strings_CutPrefix prefix' (base @ ''/'') else Some prefix') of
           None \<Rightarrow> False
         | Some datePart \<Rightarrow>
             if length datePart \<noteq> 11 \<or> last datePart \<noteq> CHR ''/'' then False
             else parse_day (strings_TrimSuffix datePart ''/'') \<noteq> None)"

definition isConfiguredScanPrefix :: "string \<Rightarrow> string \<Rightarrow> Layout \<Rightarrow> bool" where
  "isConfiguredScanPrefix prefix' configuredBasePrefix layout =
     (if layout = LayoutFlat then prefix' = flatPrefix configuredBasePrefix
      else isConfiguredDayPrefix prefix' configuredBasePrefix)"

definition truncatedStartAfter :: "string \<Rightarrow> Layout \<Rightarrow> string" where
  "truncatedStartAfter pos layout =
     (if pos = [] \<or> layout \<noteq> LayoutRecorder then pos
      else let cut = (case strings_LastIndexByte pos (CHR ''/'') of None \<Rightarrow> 0 | Some i \<Rightarrow> Suc i);
               base = drop cut pos
           in case strings_IndexByte base (CHR ''.'') of
                None \<Rightarrow> pos
              | Some dot \<Rightarrow> take cut pos @ take dot base)"

fun add_current :: "string list \<Rightarrow> string list \<Rightarrow> string list \<Rightarrow> string list" where
  "add_current seen [] out = out"
| "add_current seen (p # ps) out =
     (if length out = maxDayPrefixes then out
      else if p \<in> set seen then add_current seen ps out
      else add_current seen ps (out @ [p]))"

text \<open>\<open>None\<close> when there are more saved positions than prefixes are listed.\<close>

definition listingPrefixes :: "(string, string) gomap \<Rightarrow> string list \<Rightarrow> string list option" where
  "listingPrefixes positions current =
     (if maxDayPrefixes < length positions then None
      else Some (sort_Strings (add_current (map fst positions) current (sort_Strings (map fst positions)))))"

section \<open>The horizon\<close>

text \<open>A cutoff of the zero time admits everything.\<close>

definition newHorizonAdmission :: "gotime \<Rightarrow> duration \<Rightarrow> gotime" where
  "newHorizonAdmission now age = (if age \<le> 0 then 0 else now - age)"

definition admission_allows :: "gotime \<Rightarrow> gotime \<Rightarrow> bool" where
  "admission_allows cutoff at \<longleftrightarrow> cutoff = 0 \<or> cutoff \<le> at"

definition admission_start :: "gotime \<Rightarrow> gotime \<Rightarrow> gotime" where
  "admission_start cutoff at = (if \<not> admission_allows cutoff at then cutoff else at)"

definition expiredPartition :: "gotime \<Rightarrow> string \<Rightarrow> Layout \<Rightarrow> bool" where
  "expiredPartition cutoff prefix' layout =
     (if cutoff = 0 \<or> layout \<noteq> LayoutPartitioned \<or> length prefix' < 11 then False
      else let tail' = drop (length prefix' - 11) prefix'
           in if last tail' \<noteq> CHR ''/'' then False
              else case parse_day (butlast tail') of None \<Rightarrow> False | Some day \<Rightarrow> day + day_ns \<le> cutoff)"

definition beforeLowerBound :: "Layout \<Rightarrow> gotime \<Rightarrow> gotime \<Rightarrow> bool \<Rightarrow> bool" where
  "beforeLowerBound layout at start active =
     (if \<not> at < start then False else \<not> active \<or> layout = LayoutFlat \<or> layout = LayoutRecorder)"

section \<open>What the prefixes are\<close>

definition calendar_day :: "int \<Rightarrow> bool" where
  "calendar_day day \<longleftrightarrow> 0 \<le> day \<and> day < 3652059"

lemma TrimSuffix_append [simp]: "strings_TrimSuffix (s @ t) t = s"
  by (simp add: strings_TrimSuffix_def)

lemma day_loop_spec:
  "day_loop base first day n = map (\<lambda>k. day_prefix base (day - int k)) [0..<min n (nat (day - first + 1))]"
proof (induction n arbitrary: day)
  case (Suc n)
  show ?case
  proof (cases "day < first")
    case False
    then obtain k where k: "nat (day - first + 1) = Suc k" "nat (day - 1 - first + 1) = k"
      by (metis Suc_nat_eq_nat_zadd1 add.commute diff_add_cancel diff_ge_0_iff_ge linorder_not_less add_diff_eq diff_diff_eq2)
    have "map (\<lambda>j. day_prefix base (day - int j)) [0..<Suc m] =
        day_prefix base day # map (\<lambda>j. day_prefix base (day - 1 - int j)) [0..<m]" for m
      by (simp add: upt_conv_Cons map_Suc_upt [symmetric] del: upt_Suc) (simp add: algebra_simps)
    with Suc False k show ?thesis by (simp add: min_def)
  qed simp
qed simp

lemma day_prefix_recognised:
  assumes "calendar_day day"
  shows "isConfiguredDayPrefix (day_prefix (scanBase base) day) base"
proof -
  from assms have n: "nat day < 3652059" unfolding calendar_day_def by linarith
  let ?b = "scanBase base" and ?p = "format_day (nat day) @ ''/''"
  have "(if ?b \<noteq> [] then strings_CutPrefix (day_prefix ?b day) (?b @ ''/'') else Some (day_prefix ?b day)) = Some ?p"
    using CutPrefix_append [of "?b @ ''/''" ?p] by (simp add: day_prefix_def)
  moreover have "length ?p = 11" "last ?p = CHR ''/''" using format_day_shape [OF n] by simp_all
  moreover have "parse_day (strings_TrimSuffix ?p ''/'') \<noteq> None" using parse_format_day [OF n] TrimSuffix_append [of "format_day (nat day)" "''/''"] by simp
  ultimately show ?thesis by (simp add: isConfiguredDayPrefix_def Let_def)
qed

text \<open>The partitioned layout lists the day partitions from the start of the window to now, oldest first, and when there are more than
  fourteen the most recent fourteen; and every prefix that the partitioned or the flat layout lists is one whose
  saved scan position the next cycle recognises as its own.\<close>

theorem scan_prefixes_recognised:
  assumes "calendar_day (start div day_ns)" "calendar_day (now div day_ns)" "start \<le> now"
  shows "scanPrefixes LayoutPartitioned base start now =
      map (day_prefix (scanBase base)) [max (start div day_ns) (now div day_ns - 13)..now div day_ns] \<and>
    (\<forall>layout \<in> {LayoutPartitioned, LayoutFlat}. \<forall>p \<in> set (scanPrefixes layout base start now). isConfiguredScanPrefix p base layout)"
proof -
  let ?f = "start div day_ns" and ?t = "now div day_ns"
  have le: "?f \<le> ?t" using assms(3) by (rule zdiv_mono1) (simp add: day_ns_def)
  have rev_days: "rev (map (\<lambda>k. g (?t - int k)) [0..<m]) = map g [?t - int m + 1..?t]" for g :: "int \<Rightarrow> string" and m
  proof (induction m)
    case (Suc m)
    have "[?t - int (Suc m) + 1..?t] = (?t - int m) # [?t - int m + 1..?t]" by (subst upto_rec1) auto
    with Suc show ?case by simp
  qed simp
  have "int (min 14 (nat (?t - ?f + 1))) = min 14 (?t - ?f + 1)" using le by simp
  then have "?t - int (min 14 (nat (?t - ?f + 1))) + 1 = max ?f (?t - 13)" by simp
  then have list: "scanPrefixes LayoutPartitioned base start now = map (day_prefix (scanBase base)) [max ?f (?t - 13)..?t]"
    using assms(3) rev_days [of "day_prefix (scanBase base)"]
    by (simp add: scanPrefixes_def dayPrefixes_def day_loop_spec maxDayPrefixes_def)
  moreover have "isConfiguredScanPrefix p base LayoutPartitioned" if "p \<in> set (scanPrefixes LayoutPartitioned base start now)" for p
    using that assms(1,2) unfolding list by (auto simp: isConfiguredScanPrefix_def calendar_day_def intro!: day_prefix_recognised)
  moreover have "isConfiguredScanPrefix p base LayoutFlat" if "p \<in> set (scanPrefixes LayoutFlat base start now)" for p
    using that by (simp add: isConfiguredScanPrefix_def scanPrefixes_def)
  ultimately show ?thesis by blast
qed

theorem scan_prefixes_recognised_witness:
  "scanPrefixes LayoutPartitioned ''flow/'' (20 * day_ns) (40 * day_ns) = map (day_prefix ''flow'') [27..40]"
  using scan_prefixes_recognised [of "20 * day_ns" "40 * day_ns" "''flow/''"]
  by (simp add: calendar_day_def day_ns_def scanBase_def strings_TrimSuffix_def strings_CutSuffix_def strings_HasSuffix_def)


end
