(* ===== verification/Object_State.thy ===== *)
theory Object_State
  imports Object_Keys Checkpoint_Store Sha256
begin

text \<open>
  \<open>src/internal/collector/objectstore/state.go\<close>: the durable rows of an object-store feed in its checkpoint
  namespace (scan positions, gaps, seen identities) and the batch in which a cycle stages its changes. An error is its text.
\<close>

section \<open>Scan positions\<close>

definition scanPrefix :: string where "scanPrefix = ''scan/''"
definition scanStartMarker :: string where "scanStartMarker = ''-''"
definition gapPrefix :: string where "gapPrefix = ''gap/''"
definition cursorKey :: string where "cursorKey = ''cursor''"
definition seenPrefix :: string where "seenPrefix = ''seen/''"

record scanState =
  ss_Positions :: "(string, string) gomap"
  ss_StaleKeys :: "string list"

text \<open>The prefix and key a scan row names.\<close>

definition decodeScanRow :: "string \<Rightarrow> string + string \<times> string" where
  "decodeScanRow encoded =
     (case strings_Cut (CHR ''/'') encoded of
        None \<Rightarrow> Inl ''invalid scan checkpoint''
      | Some (encodedPrefix, encodedKey) \<Rightarrow>
          if encodedKey = [] \<or> CHR ''/'' \<in> set encodedKey then Inl ''invalid scan checkpoint''
          else case base64_Decode encodedPrefix of
            None \<Rightarrow> Inl ''decode scan prefix''
          | Some prefix' \<Rightarrow>
              (case (if encodedKey \<noteq> scanStartMarker then base64_Decode encodedKey else Some []) of
                 None \<Rightarrow> Inl ''decode scan key''
               | Some key \<Rightarrow>
                   if key \<noteq> [] \<and> \<not> strings_HasPrefix key prefix' then Inl ''scan key is outside its prefix''
                   else Inr (prefix', key)))"

fun scan_loop :: "string list \<Rightarrow> string \<Rightarrow> Layout \<Rightarrow> scanState \<Rightarrow> string + scanState" where
  "scan_loop [] base layout state = Inr state"
| "scan_loop (row # rows) base layout state =
     (case strings_CutPrefix row scanPrefix of
        None \<Rightarrow> scan_loop rows base layout state
      | Some encoded \<Rightarrow>
          (case decodeScanRow encoded of
             Inl e \<Rightarrow> Inl e
           | Inr (prefix', key) \<Rightarrow>
               if \<not> isConfiguredScanPrefix prefix' base layout
               then scan_loop rows base layout (state\<lparr>ss_StaleKeys := ss_StaleKeys state @ [row]\<rparr>)
               else if map_of (ss_Positions state) prefix' \<noteq> None then Inl ''duplicate scan checkpoint''
               else scan_loop rows base layout (state\<lparr>ss_Positions := AList.update prefix' key (ss_Positions state)\<rparr>)))"

definition loadScanState :: "'s CheckpointStore \<Rightarrow> 's \<Rightarrow> string \<Rightarrow> Layout \<Rightarrow> string + scanState" where
  "loadScanState cp s base layout =
     (case scan_loop (cs_Keys cp s) base layout \<lparr>ss_Positions = [], ss_StaleKeys = []\<rparr> of
        Inl e \<Rightarrow> Inl e
      | Inr state \<Rightarrow> Inr (state\<lparr>ss_StaleKeys := sort_Strings (ss_StaleKeys state)\<rparr>))"

definition scanRowPrefix :: "string \<Rightarrow> string" where
  "scanRowPrefix prefix' = scanPrefix @ base64_Encode prefix' @ ''/''"

section \<open>Gaps\<close>

record gapState =
  gp_Identity :: string
  gp_Key :: string
  gp_FirstFailed :: gotime
  gp_NextAttempt :: gotime
  gp_Attempts :: int
  gp_Quarantined :: bool

definition encodeGapRow :: "gapState \<Rightarrow> string" where
  "encodeGapRow gap =
     (let status = (if gp_Quarantined gap then ''quarantined'' else ''pending'');
          next' = (if gp_Quarantined gap then 0 else time_Unix (gp_NextAttempt gap))
      in gapPrefix @ status @ ''/'' @ strconv_FormatInt (gp_Attempts gap) @ ''/'' @ strconv_FormatInt next' @ ''/'' @
         base64_Encode (gp_Identity gap) @ ''/'' @ base64_Encode (gp_Key gap))"

definition decodeGapParts :: "string list \<Rightarrow> gotime \<Rightarrow> string + gapState" where
  "decodeGapParts parts firstFailed =
     (if length parts \<noteq> 5 then Inl ''invalid gap checkpoint''
      else case strconv_ParseInt (parts ! 1) of
        None \<Rightarrow> Inl ''invalid gap attempt count''
      | Some attempts \<Rightarrow>
          if attempts < 1 then Inl ''invalid gap attempt count''
          else case strconv_ParseInt (parts ! 2) of
            None \<Rightarrow> Inl ''invalid gap retry time''
          | Some nextUnix \<Rightarrow>
              (case (base64_Decode (parts ! 3), base64_Decode (parts ! 4)) of
                 (Some identity, Some key) \<Rightarrow>
                   if identity = [] then Inl ''invalid gap object identity''
                   else if key = [] then Inl ''invalid gap object key''
                   else let gap = \<lparr>gp_Identity = identity, gp_Key = key, gp_FirstFailed = firstFailed, gp_NextAttempt = 0,
                                   gp_Attempts = attempts, gp_Quarantined = False\<rparr>
                        in if parts ! 0 = ''pending''
                           then (if nextUnix \<le> 0 then Inl ''pending gap has no retry time''
                                 else Inr (gap\<lparr>gp_NextAttempt := time_of_Unix nextUnix\<rparr>))
                           else if parts ! 0 = ''quarantined''
                           then (if nextUnix \<noteq> 0 then Inl ''quarantined gap has a retry time''
                                 else Inr (gap\<lparr>gp_Quarantined := True\<rparr>))
                           else Inl ''invalid gap status''
               | (None, _) \<Rightarrow> Inl ''invalid gap object identity''
               | (Some identity, None) \<Rightarrow> Inl (if identity = [] then ''invalid gap object identity'' else ''invalid gap object key'')))"

definition decodeGapRow :: "string \<Rightarrow> gotime \<Rightarrow> string + gapState" where
  "decodeGapRow row firstFailed =
     (case strings_CutPrefix row gapPrefix of
        None \<Rightarrow> Inl ''invalid gap checkpoint''
      | Some encoded \<Rightarrow> decodeGapParts (strings_SplitN 5 (CHR ''/'') encoded) firstFailed)"

fun gap_loop :: "'s CheckpointStore \<Rightarrow> 's \<Rightarrow> string list \<Rightarrow> string list \<Rightarrow> gapState list \<Rightarrow> string + gapState list" where
  "gap_loop cp s [] seen gaps = Inr gaps"
| "gap_loop cp s (row # rows) seen gaps =
     (if \<not> strings_HasPrefix row gapPrefix then gap_loop cp s rows seen gaps
      else case cs_Get cp row s of
        None \<Rightarrow> Inl ''gap checkpoint disappeared while loading''
      | Some firstFailed \<Rightarrow>
          (case decodeGapRow row firstFailed of
             Inl e \<Rightarrow> Inl e
           | Inr gap \<Rightarrow>
               if gp_Identity gap \<in> set seen then Inl ''duplicate gap checkpoint''
               else gap_loop cp s rows (gp_Identity gap # seen) (gaps @ [gap])))"

definition gap_less :: "gapState \<Rightarrow> gapState \<Rightarrow> bool" where
  "gap_less x y = (if gp_FirstFailed x = gp_FirstFailed y then gp_Identity x < gp_Identity y else gp_FirstFailed x < gp_FirstFailed y)"

definition loadGaps :: "'s CheckpointStore \<Rightarrow> 's \<Rightarrow> string + gapState list" where
  "loadGaps cp s = (case gap_loop cp s (cs_Keys cp s) [] [] of Inl e \<Rightarrow> Inl e | Inr gaps \<Rightarrow> Inr (go_sort gap_less gaps))"

section \<open>Seen identities\<close>

definition seenRow :: "string \<Rightarrow> string" where
  "seenRow identity = seenPrefix @ base64_Encode identity"

definition decodeIdentity :: "string \<Rightarrow> string option" where
  "decodeIdentity encoded = (case base64_Decode encoded of None \<Rightarrow> None | Some raw \<Rightarrow> if raw = [] then None else Some raw)"

fun seen_loop :: "string list \<Rightarrow> string list \<Rightarrow> string + string list" where
  "seen_loop [] out = Inr out"
| "seen_loop (k # ks) out =
     (case strings_CutPrefix k seenPrefix of
        None \<Rightarrow> seen_loop ks out
      | Some encoded \<Rightarrow>
          (case decodeIdentity encoded of
             None \<Rightarrow> Inl ''invalid seen object identity''
           | Some identity \<Rightarrow> seen_loop ks (set_insert identity out)))"

definition seenKeys :: "'s CheckpointStore \<Rightarrow> 's \<Rightarrow> string + string list" where
  "seenKeys cp s = seen_loop (cs_Keys cp s) []"

definition objectDigest :: "string \<Rightarrow> string" where
  "objectDigest key = hex_EncodeToString (take 6 (sha256 key))"

section \<open>The batch of a cycle\<close>

record checkpointBatch =
  cb_updates :: cursors
  cb_deletes :: "string list"

definition newCheckpointBatch :: checkpointBatch where
  "newCheckpointBatch = \<lparr>cb_updates = [], cb_deletes = []\<rparr>"

definition batch_set :: "string \<Rightarrow> gotime \<Rightarrow> checkpointBatch \<Rightarrow> checkpointBatch" where
  "batch_set key at b = b\<lparr>cb_updates := AList.update key at (cb_updates b)\<rparr>"

definition batch_delete :: "string \<Rightarrow> checkpointBatch \<Rightarrow> checkpointBatch" where
  "batch_delete key b = b\<lparr>cb_updates := AList.delete key (cb_updates b),
     cb_deletes := (if key \<in> set (cb_deletes b) then cb_deletes b else cb_deletes b @ [key])\<rparr>"

definition removeScanRows :: "'s CheckpointStore \<Rightarrow> 's \<Rightarrow> string \<Rightarrow> checkpointBatch \<Rightarrow> checkpointBatch" where
  "removeScanRows cp s rowPrefix b =
     (let b = fold batch_delete (filter (\<lambda>row. strings_HasPrefix row rowPrefix) (cs_Keys cp s)) b
      in b\<lparr>cb_updates := filter (\<lambda>(row, _). \<not> strings_HasPrefix row rowPrefix) (cb_updates b)\<rparr>)"

definition setScanPosition :: "'s CheckpointStore \<Rightarrow> 's \<Rightarrow> string \<Rightarrow> string \<Rightarrow> gotime \<Rightarrow> checkpointBatch \<Rightarrow> checkpointBatch" where
  "setScanPosition cp s prefix' key at b =
     (let rowPrefix = scanRowPrefix prefix'; encodedKey = (if key \<noteq> [] then base64_Encode key else scanStartMarker)
      in batch_set (rowPrefix @ encodedKey) at (removeScanRows cp s rowPrefix b))"

definition clearScanPosition :: "'s CheckpointStore \<Rightarrow> 's \<Rightarrow> string \<Rightarrow> checkpointBatch \<Rightarrow> checkpointBatch" where
  "clearScanPosition cp s prefix' b = removeScanRows cp s (scanRowPrefix prefix') b"

definition names_gap :: "string \<Rightarrow> string \<Rightarrow> gotime \<Rightarrow> bool" where
  "names_gap identity row firstFailed \<longleftrightarrow> strings_HasPrefix row gapPrefix \<and>
     (case decodeGapRow row firstFailed of Inl _ \<Rightarrow> False | Inr gap \<Rightarrow> gp_Identity gap = identity)"

definition removeGapRows :: "'s CheckpointStore \<Rightarrow> 's \<Rightarrow> string \<Rightarrow> checkpointBatch \<Rightarrow> checkpointBatch" where
  "removeGapRows cp s identity b =
     (let b = fold batch_delete (filter (\<lambda>row. case cs_Get cp row s of None \<Rightarrow> False | Some t \<Rightarrow> names_gap identity row t) (cs_Keys cp s)) b
      in b\<lparr>cb_updates := filter (\<lambda>(row, t). \<not> names_gap identity row t) (cb_updates b)\<rparr>)"

definition persistGap :: "'s CheckpointStore \<Rightarrow> 's \<Rightarrow> gapState \<Rightarrow> checkpointBatch \<Rightarrow> checkpointBatch" where
  "persistGap cp s gap b = batch_set (encodeGapRow gap) (gp_FirstFailed gap) (removeGapRows cp s (gp_Identity gap) b)"

definition resolveGap :: "'s CheckpointStore \<Rightarrow> 's \<Rightarrow> string \<Rightarrow> checkpointBatch \<Rightarrow> checkpointBatch" where
  "resolveGap = removeGapRows"

definition batch_apply :: "'s CheckpointStore \<Rightarrow> checkpointBatch \<Rightarrow> ('s, cp_error option) state" where
  "batch_apply cp b = UpdateCheckpointBatch cp (cb_updates b) (cb_deletes b)"

section \<open>Rows are read back\<close>

definition gap_ok :: "gapState \<Rightarrow> bool" where
  "gap_ok gap \<longleftrightarrow> gp_Identity gap \<noteq> [] \<and> gp_Key gap \<noteq> [] \<and> 1 \<le> gp_Attempts gap \<and> gp_Attempts gap < 2 ^ 63 \<and>
     (\<not> gp_Quarantined gap \<longrightarrow> 0 < time_Unix (gp_NextAttempt gap) \<and> time_Unix (gp_NextAttempt gap) < 2 ^ 63)"

text \<open>What a row keeps of a gap: the retry time to the second, none when quarantined.\<close>

definition gap_stored :: "gapState \<Rightarrow> gapState" where
  "gap_stored gap = gap\<lparr>gp_NextAttempt := (if gp_Quarantined gap then 0 else time_of_Unix (time_Unix (gp_NextAttempt gap)))\<rparr>"

lemma gap_row_parts:
  assumes "CHR ''/'' \<notin> set st"
  shows "strings_SplitN 5 (CHR ''/'') (st @ ''/'' @ strconv_FormatInt a @ ''/'' @ strconv_FormatInt n @ ''/'' @ base64_Encode i @ ''/'' @ base64_Encode k)
    = [st, strconv_FormatInt a, strconv_FormatInt n, base64_Encode i, base64_Encode k]"
  using assms FormatInt_no_slash base64_no_slash [OF base64_Encode_word]
  by (simp add: strings_SplitN_def numeral_eq_Suc)

lemma decode_gap_row:
  assumes "gap_ok gap"
  shows "decodeGapRow (encodeGapRow gap) (gp_FirstFailed gap) = Inr (gap_stored gap)"
proof -
  let ?st = "if gp_Quarantined gap then ''quarantined'' else ''pending''"
  let ?n = "if gp_Quarantined gap then 0 else time_Unix (gp_NextAttempt gap)"
  have "CHR ''/'' \<notin> set ?st" by simp
  note parts = gap_row_parts [OF this, of "gp_Attempts gap" ?n "gp_Identity gap" "gp_Key gap"]
  have "strconv_ParseInt (strconv_FormatInt (gp_Attempts gap)) = Some (gp_Attempts gap)" "strconv_ParseInt (strconv_FormatInt ?n) = Some ?n"
    using assms by (auto simp: gap_ok_def intro!: ParseInt_FormatInt)
  with assms show ?thesis
    unfolding decodeGapRow_def encodeGapRow_def Let_def
    by (simp only: CutPrefix_append option.case parts) (auto simp: decodeGapParts_def gap_ok_def gap_stored_def)
qed

text \<open>The rows a cycle writes are read back as what they stand for: a scan row as its prefix and key, a gap row
  as the gap with the retry time to the second, a seen row as the identity.\<close>

theorem checkpoint_rows_roundtrip:
  assumes "gap_ok gap" "key = [] \<or> strings_HasPrefix key prefix'" "identity \<noteq> []"
  shows "decodeGapRow (encodeGapRow gap) (gp_FirstFailed gap) = Inr (gap_stored gap) \<and>
    decodeScanRow (base64_Encode prefix' @ ''/'' @ (if key \<noteq> [] then base64_Encode key else scanStartMarker)) = Inr (prefix', key) \<and>
    seen_loop [seenRow identity] [] = Inr [identity]"
proof -
  have "base64_Encode key \<noteq> scanStartMarker \<and> base64_Encode key \<noteq> []" if "key \<noteq> []"
    using that by (cases key rule: base64_Encode.cases) (auto simp: scanStartMarker_def Let_def)
  with decode_gap_row [OF assms(1)] assms(2,3) base64_no_slash [OF base64_Encode_word] show ?thesis
    by (auto simp: decodeScanRow_def scanStartMarker_def seenRow_def decodeIdentity_def set_insert_def)
qed

theorem checkpoint_rows_roundtrip_witness:
  "decodeGapRow (encodeGapRow \<lparr>gp_Identity = ''id'', gp_Key = ''k'', gp_FirstFailed = 7, gp_NextAttempt = 0, gp_Attempts = 3, gp_Quarantined = True\<rparr>) 7 =
     Inr \<lparr>gp_Identity = ''id'', gp_Key = ''k'', gp_FirstFailed = 7, gp_NextAttempt = 0, gp_Attempts = 3, gp_Quarantined = True\<rparr>"
  using checkpoint_rows_roundtrip [of "\<lparr>gp_Identity = ''id'', gp_Key = ''k'', gp_FirstFailed = 7, gp_NextAttempt = 0, gp_Attempts = 3, gp_Quarantined = True\<rparr>"
      "[]" "''flow/''" "''id''"]
  unfolding gap_ok_def gap_stored_def by (simp del: base64_Encode.simps)

end
