(* ===== verification/Object_Cycle.thy ===== *)
theory Object_Cycle
  imports Object_State
begin

text \<open>
  \<open>src/internal/collector/objectstore/objectstore.go\<close>: one ingestion cycle of an object-store feed. What the outside does in
  a cycle is a \<open>feed\<close>: the pages the backend lists, what reading an object yields under given limits (network, zstd and
  gzip), how the signal prepares a row, and whether the context has ended. The rows committed are returned in order; the
  values of the emitted metrics are returned as a report.
\<close>

section \<open>Options and the outside\<close>

record Options =
  op_Prefix :: string
  op_Layout :: Layout
  op_Lookback :: duration
  op_InitialLookback :: duration
  op_LogMaxRecordAge :: duration
  op_MaxObjects :: int
  op_MaxSeenKeys :: int
  op_MaxObjectWireBytes :: int
  op_MaxObjectDecompressedBytes :: int
  op_MaxObjectRecords :: int
  op_MaxCycleWireBytes :: int
  op_MaxCycleDecompressedBytes :: int
  op_MaxCycleRecords :: int

definition or_default :: "int \<Rightarrow> int \<Rightarrow> int" where
  "or_default d x = (if x \<le> 0 then d else x)"

definition with_defaults :: "Options \<Rightarrow> Options" where
  "with_defaults opts = opts\<lparr>
     op_Lookback := or_default (3600 * second_ns) (op_Lookback opts),
     op_InitialLookback := or_default (6 * 3600 * second_ns) (op_InitialLookback opts),
     op_MaxObjects := or_default 200 (op_MaxObjects opts),
     op_MaxSeenKeys := or_default 5000 (op_MaxSeenKeys opts),
     op_MaxObjectDecompressedBytes := or_default (32 * 2 ^ 20) (op_MaxObjectDecompressedBytes opts),
     op_MaxObjectWireBytes := or_default (64 * 2 ^ 20) (op_MaxObjectWireBytes opts),
     op_MaxObjectRecords := or_default 100000 (op_MaxObjectRecords opts),
     op_MaxCycleDecompressedBytes := or_default (256 * 2 ^ 20) (op_MaxCycleDecompressedBytes opts),
     op_MaxCycleWireBytes := or_default (512 * 2 ^ 20) (op_MaxCycleWireBytes opts),
     op_MaxCycleRecords := or_default 500000 (op_MaxCycleRecords opts)\<rparr>"

definition parseLayout :: "string \<Rightarrow> Layout option" where
  "parseLayout s =
     (if s = [] \<or> s = ''partitioned'' then Some LayoutPartitioned
      else if s = ''flat'' then Some LayoutFlat
      else if s = ''recorder'' then Some LayoutRecorder
      else None)"

record object =
  ob_Key :: string
  ob_Identity :: string

record page =
  pa_Objects :: "object list"
  pa_Truncated :: bool

datatype read_err = ZstdLimit | ReadFailed

text \<open>Reading an object: an error of the decompressor's set-up, the lines scanned with the decompressed and wire bytes
  consumed when each was returned, the totals at the end and the scanner's error.\<close>

record body =
  bd_open :: "read_err option"
  bd_scans :: "(string \<times> int \<times> int) list"
  bd_decompressed :: int
  bd_wire :: int
  bd_err :: "read_err option"

text \<open>The outcome of \<open>PrepareRecord\<close>: the record, if any, whether there is an error and which sentinels it wraps.\<close>

record 'a prepared =
  pp_record :: "'a option"
  pp_err :: bool
  pp_decode :: bool
  pp_invalid :: bool

record 'a feed =
  fd_now :: gotime
  fd_list :: "string \<Rightarrow> string \<Rightarrow> int \<Rightarrow> page option"
  fd_get :: "string \<Rightarrow> (compression \<Rightarrow> int \<Rightarrow> int \<Rightarrow> body) option"
  fd_prepare :: "string \<Rightarrow> 'a prepared"
  fd_canceled :: "string \<Rightarrow> bool"

section \<open>Limits and failures\<close>

datatype limit_kind = ObjectWireBytes | CycleWireBytes | ObjectBytes | CycleBytes | ObjectRecords | CycleRecords

definition is_cycle :: "limit_kind \<Rightarrow> bool" where
  "is_cycle kind \<longleftrightarrow> kind \<in> {CycleWireBytes, CycleBytes, CycleRecords}"

record expansionLimitError =
  el_kind :: limit_kind
  el_measured :: int
  el_limit :: int
  el_lowerBound :: bool

datatype ingest_error =
    CycleLimit expansionLimitError
  | ObjectFailed string bool "expansionLimitError option"

definition newExpansionError :: "limit_kind \<Rightarrow> int \<Rightarrow> int \<Rightarrow> bool \<Rightarrow> ingest_error" where
  "newExpansionError kind measured lm lower =
     (let err = \<lparr>el_kind = kind, el_measured = measured, el_limit = lm, el_lowerBound = lower\<rparr>
      in if is_cycle kind then CycleLimit err
         else ObjectFailed (if kind = ObjectWireBytes then ''wire_bytes_limit'' else if kind = ObjectBytes then ''decompressed_bytes_limit''
           else ''records_limit'') True (Some err))"

definition lowerLimit :: "int \<Rightarrow> int \<Rightarrow> limit_kind \<Rightarrow> limit_kind \<Rightarrow> int \<times> limit_kind" where
  "lowerLimit object' cycle objectKind cycleKind = (if cycle < object' then (cycle, cycleKind) else (object', objectKind))"

definition maxInt64 :: int where "maxInt64 = 2 ^ 63 - 1"

definition over :: "int \<Rightarrow> int" where
  "over lm = (if lm < maxInt64 then lm + 1 else lm)"

definition gapRetryBase :: duration where "gapRetryBase = 60 * second_ns"
definition gapRetryMax :: duration where "gapRetryMax = 3600 * second_ns"

fun gap_retry_loop :: "nat \<Rightarrow> duration \<Rightarrow> duration" where
  "gap_retry_loop 0 delay = (if gapRetryMax < delay then gapRetryMax else delay)"
| "gap_retry_loop (Suc n) delay =
     (if \<not> delay < gapRetryMax then (if gapRetryMax < delay then gapRetryMax else delay)
      else if gapRetryMax div 2 \<le> delay then gapRetryMax
      else gap_retry_loop n (delay * 2))"

definition gapRetryDelay :: "int \<Rightarrow> duration" where
  "gapRetryDelay attempts = gap_retry_loop (nat (attempts - 1)) gapRetryBase"

section \<open>Ingesting one object\<close>

record ingestLimits =
  li_wireBytes :: int
  li_decompressedBytes :: int
  li_records :: int

record ingestResult =
  ir_acceptedRecords :: int
  ir_rows :: int
  ir_wireBytes :: int
  ir_decompressedBytes :: int

text \<open>The scan loop: the rows counted, the staged lines or the error that ends it.\<close>

fun scan_lines :: "int \<Rightarrow> limit_kind \<Rightarrow> int \<Rightarrow> limit_kind \<Rightarrow> (string \<times> int \<times> int) list \<Rightarrow> int \<Rightarrow> string list \<Rightarrow>
  ingestResult \<times> (ingest_error + string list)" where
  "scan_lines byteLimit byteKind recordLimit recordKind [] rows staged =
     (\<lparr>ir_acceptedRecords = 0, ir_rows = rows, ir_wireBytes = 0, ir_decompressedBytes = 0\<rparr>, Inr staged)"
| "scan_lines byteLimit byteKind recordLimit recordKind ((line, dec, wire) # rest) rows staged =
     (let at = (\<lambda>r. \<lparr>ir_acceptedRecords = 0, ir_rows = r, ir_wireBytes = wire, ir_decompressedBytes = dec\<rparr>)
      in if byteLimit < dec then (at rows, Inl (newExpansionError byteKind dec byteLimit False))
         else if strings_TrimSpace line = [] then scan_lines byteLimit byteKind recordLimit recordKind rest rows staged
         else if recordLimit < rows + 1 then (at (rows + 1), Inl (newExpansionError recordKind (rows + 1) recordLimit False))
         else scan_lines byteLimit byteKind recordLimit recordKind rest (rows + 1) (staged @ [line]))"

text \<open>Preparing the staged rows: the actions with whether they are accepted, and the numbers of row-local failures.\<close>

fun prepare_rows :: "(string \<Rightarrow> 'a prepared) \<Rightarrow> string list \<Rightarrow> ingest_error + (('a \<times> bool) list \<times> int \<times> int)" where
  "prepare_rows prepare [] = Inr ([], 0, 0)"
| "prepare_rows prepare (line # lines) =
     (let p = prepare line; fails = Inl (ObjectFailed ''process'' False None);
          more = (\<lambda>f. case prepare_rows prepare lines of Inl e \<Rightarrow> Inl e | Inr r \<Rightarrow> Inr (f r))
      in if pp_decode p \<and> pp_invalid p then fails
         else if pp_decode p then
           (if pp_record p \<noteq> None then fails else more (\<lambda>(as, bad, sem). (as, bad + 1, sem)))
         else if pp_invalid p then
           (case pp_record p of None \<Rightarrow> fails | Some r \<Rightarrow> more (\<lambda>(as, bad, sem). ((r, False) # as, bad, sem + 1)))
         else if pp_err p then fails
         else case pp_record p of None \<Rightarrow> fails | Some r \<Rightarrow> more (\<lambda>(as, bad, sem). ((r, True) # as, bad, sem)))"

definition stageUndecodableObject :: string where "stageUndecodableObject = ''undecodable_object''"

definition accepted_rows :: "('a \<times> bool) list \<Rightarrow> int" where
  "accepted_rows as = int (length (filter snd as))"

text \<open>Rows are committed only when every row was prepared; a failed object commits nothing.\<close>

definition commit_rows ::
  "'a feed \<Rightarrow> string \<Rightarrow> string list \<Rightarrow> ingestResult \<Rightarrow> ingestResult \<times> ingest_error option \<times> ('a \<times> bool) list" where
  "commit_rows feed identity staged result =
     (case prepare_rows (fd_prepare feed) staged of
        Inl e \<Rightarrow> (result, Some e, [])
      | Inr (actions, bad, semanticBad) \<Rightarrow>
          if fd_canceled feed identity then (result, Some (ObjectFailed ''process'' False None), [])
          else if accepted_rows actions = 0 \<and> 0 < bad + semanticBad
          then (result, Some (ObjectFailed stageUndecodableObject False None), [])
          else (result\<lparr>ir_acceptedRecords := accepted_rows actions\<rparr>, None, actions))"

definition ingest ::
  "Options \<Rightarrow> 'a feed \<Rightarrow> string \<Rightarrow> compression \<Rightarrow> ingestLimits \<Rightarrow> ingestResult \<times> ingest_error option \<times> ('a \<times> bool) list" where
  "ingest opts feed identity cmp cycle =
     (let nothing = \<lparr>ir_acceptedRecords = 0, ir_rows = 0, ir_wireBytes = 0, ir_decompressedBytes = 0\<rparr>
      in case fd_get feed identity of
           None \<Rightarrow> (nothing, Some (ObjectFailed ''fetch'' False None), [])
         | Some read \<Rightarrow>
             (case (lowerLimit (op_MaxObjectWireBytes opts) (li_wireBytes cycle) ObjectWireBytes CycleWireBytes,
                    lowerLimit (op_MaxObjectDecompressedBytes opts) (li_decompressedBytes cycle) ObjectBytes CycleBytes,
                    lowerLimit (op_MaxObjectRecords opts) (li_records cycle) ObjectRecords CycleRecords) of
                ((wireLimit, wireKind), (byteLimit, byteKind), (recordLimit, recordKind)) \<Rightarrow>
                  let b = read cmp wireLimit byteLimit; opened = nothing\<lparr>ir_wireBytes := bd_wire b\<rparr>
                  in case bd_open b of
                       Some err \<Rightarrow>
                         (opened,
                          Some (if wireLimit < bd_wire b then newExpansionError wireKind (bd_wire b) wireLimit False
                            else if err = ZstdLimit then newExpansionError byteKind (over byteLimit) byteLimit True
                            else ObjectFailed ''decompress'' True None), [])
                     | None \<Rightarrow>
                         (case scan_lines byteLimit byteKind recordLimit recordKind (bd_scans b) 0 [] of
                            (result, Inl e) \<Rightarrow> (result, Some e, [])
                          | (result, Inr staged) \<Rightarrow>
                              let result = result\<lparr>ir_wireBytes := bd_wire b, ir_decompressedBytes := bd_decompressed b\<rparr>
                              in if byteLimit < bd_decompressed b
                                 then (result, Some (newExpansionError byteKind (bd_decompressed b) byteLimit False), [])
                                 else case bd_err b of
                                   Some err \<Rightarrow>
                                     (result,
                                      Some (if wireLimit < bd_wire b then newExpansionError wireKind (bd_wire b) wireLimit False
                                        else if err = ZstdLimit
                                        then newExpansionError byteKind (max (bd_decompressed b) (over byteLimit)) byteLimit True
                                        else ObjectFailed ''read'' False None), [])
                                 | None \<Rightarrow>
                                     if wireLimit < bd_wire b
                                     then (result, Some (newExpansionError wireKind (bd_wire b) wireLimit False), [])
                                     else commit_rows feed identity staged result)))"

section \<open>Listing\<close>

record candidate =
  cd_obj :: object
  cd_at :: gotime
  cd_comp :: compression

record listedObject =
  lo_key :: string
  lo_identity :: string
  lo_safe :: bool

record prefixProgress =
  pf_prefix :: string
  pf_startAfter :: string
  pf_active :: bool
  pf_objects :: "listedObject list"
  pf_truncated :: bool

record enumeration =
  en_candidates :: "candidate list"
  en_prefixes :: "prefixProgress list"
  en_newestKeyAt :: gotime
  en_unparsed :: int
  en_already :: int
  en_stale :: int
  en_future :: int

text \<open>How the switch of \<open>enumerate\<close> decides about a listed object.\<close>

datatype verdict = Unparsed | Future | Stale | Pending | Already | Admitted gotime compression

definition judge ::
  "Layout \<Rightarrow> gotime \<Rightarrow> gotime \<Rightarrow> gotime \<Rightarrow> string list \<Rightarrow> (string, gapState) gomap \<Rightarrow> bool \<Rightarrow> object \<Rightarrow> verdict" where
  "judge layout cutoff start now seen gaps active o' =
     (case parseKey (ob_Key o') layout of
        None \<Rightarrow> Unparsed
      | Some (at, cmp) \<Rightarrow>
          if isFutureKey at now then Future
          else if \<not> admission_allows cutoff at then Stale
          else if beforeLowerBound layout at start active then Stale
          else if map_of gaps (ob_Identity o') \<noteq> None then Pending
          else if ob_Identity o' \<in> set seen then Already
          else Admitted at cmp)"

definition verdict_safe :: "verdict \<Rightarrow> bool" where
  "verdict_safe v \<longleftrightarrow> v \<in> {Unparsed, Stale, Pending, Already}"

definition add_listed :: "Layout \<Rightarrow> gotime \<Rightarrow> object \<Rightarrow> verdict \<Rightarrow> enumeration \<Rightarrow> enumeration" where
  "add_listed layout now o' v en = en\<lparr>
     en_candidates := (case v of Admitted at cmp \<Rightarrow> en_candidates en @ [\<lparr>cd_obj = o', cd_at = at, cd_comp = cmp\<rparr>] | _ \<Rightarrow> en_candidates en),
     en_unparsed := en_unparsed en + of_bool (v = Unparsed),
     en_already := en_already en + of_bool (v = Already),
     en_stale := en_stale en + of_bool (v = Stale),
     en_future := en_future en + of_bool (v = Future),
     en_newestKeyAt := (case parseKey (ob_Key o') layout of
        Some (at, _) \<Rightarrow> if \<not> isFutureKey at now \<and> en_newestKeyAt en < at then at else en_newestKeyAt en
      | None \<Rightarrow> en_newestKeyAt en)\<rparr>"

fun list_objects ::
  "Layout \<Rightarrow> gotime \<Rightarrow> gotime \<Rightarrow> gotime \<Rightarrow> string list \<Rightarrow> (string, gapState) gomap \<Rightarrow> bool \<Rightarrow> object list \<Rightarrow>
   listedObject list \<Rightarrow> enumeration \<Rightarrow> string + listedObject list \<times> enumeration" where
  "list_objects layout cutoff start now seen gaps active [] items en = Inr (items, en)"
| "list_objects layout cutoff start now seen gaps active (o' # os) items en =
     (if ob_Identity o' = [] then Inl ''provider returned an object with an empty identity''
      else let v = judge layout cutoff start now seen gaps active o' in
        list_objects layout cutoff start now seen gaps active os
          (items @ [\<lparr>lo_key = ob_Key o', lo_identity = ob_Identity o', lo_safe = verdict_safe v\<rparr>]) (add_listed layout now o' v en))"

fun list_prefixes ::
  "Options \<Rightarrow> 'a feed \<Rightarrow> gotime \<Rightarrow> gotime \<Rightarrow> gotime \<Rightarrow> string list \<Rightarrow> (string, gapState) gomap \<Rightarrow> (string, string) gomap \<Rightarrow> string list \<Rightarrow>
   enumeration \<Rightarrow> string + enumeration" where
  "list_prefixes opts feed cutoff start now seen gaps positions [] en = Inr en"
| "list_prefixes opts feed cutoff start now seen gaps positions (p # ps) en =
     (let pos = (case map_of positions p of None \<Rightarrow> [] | Some k \<Rightarrow> k); active = (map_of positions p \<noteq> None)
      in case fd_list feed p (truncatedStartAfter pos (op_Layout opts)) (op_MaxObjects opts * 4) of
           None \<Rightarrow> Inl ''list''
         | Some pg \<Rightarrow>
             (case list_objects (op_Layout opts) cutoff start now seen gaps active (pa_Objects pg) [] en of
                Inl e \<Rightarrow> Inl e
              | Inr (items, en) \<Rightarrow>
                  list_prefixes opts feed cutoff start now seen gaps positions ps
                    (en\<lparr>en_prefixes := en_prefixes en @ [\<lparr>pf_prefix = p, pf_startAfter = pos, pf_active = active, pf_objects = items,
                       pf_truncated = pa_Truncated pg\<rparr>]\<rparr>)))"

definition candidate_less :: "candidate \<Rightarrow> candidate \<Rightarrow> bool" where
  "candidate_less x y = (if cd_at x \<noteq> cd_at y then cd_at x < cd_at y else ob_Key (cd_obj x) < ob_Key (cd_obj y))"

definition sortCandidates :: "candidate list \<Rightarrow> candidate list" where
  "sortCandidates = go_sort candidate_less"

definition enumerate' ::
  "Options \<Rightarrow> 'a feed \<Rightarrow> gotime \<Rightarrow> gotime \<Rightarrow> gotime \<Rightarrow> string list \<Rightarrow> (string, gapState) gomap \<Rightarrow> (string, string) gomap \<Rightarrow> string + enumeration" where
  "enumerate' opts feed cutoff start now seen gaps positions =
     (case listingPrefixes positions (scanPrefixes (op_Layout opts) (op_Prefix opts) start now) of
        None \<Rightarrow> Inl ''active scan prefixes exceed limit''
      | Some ps \<Rightarrow>
          (case list_prefixes opts feed cutoff start now seen gaps positions ps
             \<lparr>en_candidates = [], en_prefixes = [], en_newestKeyAt = 0, en_unparsed = 0, en_already = 0, en_stale = 0, en_future = 0\<rparr> of
             Inl e \<Rightarrow> Inl e
           | Inr en \<Rightarrow> Inr (en\<lparr>en_candidates := sortCandidates (en_candidates en)\<rparr>)))"

section \<open>The cycle\<close>

record 'a cycle =
  cy_batch :: checkpointBatch
  cy_gaps :: "(string, gapState) gomap"
  cy_seen :: "string list"
  cy_durable :: "string list"
  cy_newest :: gotime
  cy_objects :: int
  cy_records :: int
  cy_wireUsed :: int
  cy_decoded :: int
  cy_rows :: int
  cy_remaining :: int
  cy_commits :: "(string \<times> ('a \<times> bool) list) list"

definition canAttempt :: "Options \<Rightarrow> 'a cycle \<Rightarrow> bool" where
  "canAttempt opts c \<longleftrightarrow> cy_wireUsed c < op_MaxCycleWireBytes opts \<and> cy_decoded c < op_MaxCycleDecompressedBytes opts \<and>
     cy_rows c < op_MaxCycleRecords opts"

text \<open>The gap a failed attempt leaves.\<close>

definition failed_gap :: "gotime \<Rightarrow> object \<Rightarrow> bool \<Rightarrow> (string, gapState) gomap \<Rightarrow> gapState" where
  "failed_gap now o' quarantine gaps =
     (let gap = (case map_of gaps (ob_Identity o') of
            Some gap \<Rightarrow> gap\<lparr>gp_Attempts := gp_Attempts gap + 1\<rparr>
          | None \<Rightarrow> \<lparr>gp_Identity = ob_Identity o', gp_Key = ob_Key o', gp_FirstFailed = now, gp_NextAttempt = 0, gp_Attempts = 1, gp_Quarantined = False\<rparr>)
      in gap\<lparr>gp_Quarantined := quarantine, gp_NextAttempt := (if quarantine then 0 else now + gapRetryDelay (gp_Attempts gap))\<rparr>)"

definition attempt_failed ::
  "'s CheckpointStore \<Rightarrow> 's \<Rightarrow> gotime \<Rightarrow> object \<Rightarrow> gotime \<Rightarrow> bool \<Rightarrow> 'a cycle \<Rightarrow> 'a cycle" where
  "attempt_failed cp s now o' at quarantine c =
     (let gap = failed_gap now o' quarantine (cy_gaps c);
          batch = persistGap cp s gap (cy_batch c);
          c = c\<lparr>cy_gaps := AList.update (ob_Identity o') gap (cy_gaps c), cy_batch := batch\<rparr>;
          c = (if quarantine then c\<lparr>cy_seen := set_insert (ob_Identity o') (cy_seen c), cy_batch := batch_set (seenRow (ob_Identity o')) at batch\<rparr> else c)
      in c\<lparr>cy_durable := set_insert (ob_Identity o') (cy_durable c)\<rparr>)"

definition attempt_done ::
  "'s CheckpointStore \<Rightarrow> 's \<Rightarrow> object \<Rightarrow> gotime \<Rightarrow> int \<Rightarrow> ('a \<times> bool) list \<Rightarrow> 'a cycle \<Rightarrow> 'a cycle" where
  "attempt_done cp s o' at accepted rows c =
     (let i = ob_Identity o';
          c = (if map_of (cy_gaps c) i \<noteq> None
               then c\<lparr>cy_gaps := AList.delete i (cy_gaps c), cy_batch := resolveGap cp s i (cy_batch c)\<rparr> else c)
      in c\<lparr>cy_durable := set_insert i (cy_durable c), cy_seen := set_insert i (cy_seen c), cy_objects := cy_objects c + 1,
           cy_records := cy_records c + accepted, cy_newest := (if cy_newest c < at then at else cy_newest c),
           cy_batch := batch_set (seenRow i) at (cy_batch c), cy_commits := cy_commits c @ [(i, rows)]\<rparr>)"

text \<open>\<open>attempt\<close>: false when the budget of the cycle is used up.\<close>

definition attempt ::
  "Options \<Rightarrow> 'a feed \<Rightarrow> 's CheckpointStore \<Rightarrow> 's \<Rightarrow> object \<Rightarrow> compression \<Rightarrow> gotime \<Rightarrow> 'a cycle \<Rightarrow> bool \<times> 'a cycle" where
  "attempt opts feed cp s o' cmp at c =
     (case ingest opts feed (ob_Identity o') cmp
        \<lparr>li_wireBytes = op_MaxCycleWireBytes opts - cy_wireUsed c, li_decompressedBytes = op_MaxCycleDecompressedBytes opts - cy_decoded c,
         li_records = op_MaxCycleRecords opts - cy_rows c\<rparr> of
        (result, err, rows) \<Rightarrow>
          let c = c\<lparr>cy_wireUsed := cy_wireUsed c + ir_wireBytes result, cy_decoded := cy_decoded c + ir_decompressedBytes result,
                    cy_rows := cy_rows c + ir_rows result\<rparr>
          in case err of
               Some (CycleLimit _) \<Rightarrow> (False, c)
             | Some (ObjectFailed stage quarantine _) \<Rightarrow> (True, attempt_failed cp s (fd_now feed) o' at quarantine c)
             | None \<Rightarrow> (True, attempt_done cp s o' at (ir_acceptedRecords result) rows c))"

record retry_state =
  rs_deferred :: int
  rs_expired :: int
  rs_retried :: int
  rs_exhausted :: bool

fun retry_gaps ::
  "Options \<Rightarrow> 'a feed \<Rightarrow> 's CheckpointStore \<Rightarrow> 's \<Rightarrow> gotime \<Rightarrow> gapState list \<Rightarrow> retry_state \<Rightarrow> 'a cycle \<Rightarrow> retry_state \<times> 'a cycle" where
  "retry_gaps opts feed cp s cutoff [] r c = (r, c)"
| "retry_gaps opts feed cp s cutoff (gap # gaps) r c =
     (let i = gp_Identity gap; parsed = parseKey (gp_Key gap) (op_Layout opts); now = fd_now feed
      in if (case parsed of Some (at, _) \<Rightarrow> \<not> admission_allows cutoff at | None \<Rightarrow> False)
         then retry_gaps opts feed cp s cutoff gaps (r\<lparr>rs_expired := rs_expired r + 1\<rparr>)
                (c\<lparr>cy_gaps := AList.delete i (cy_gaps c), cy_batch := resolveGap cp s i (cy_batch c)\<rparr>)
         else if gp_Quarantined gap \<or> now < gp_NextAttempt gap then retry_gaps opts feed cp s cutoff gaps r c
         else if cy_remaining c = 0 \<or> rs_exhausted r \<or> \<not> canAttempt opts c
         then retry_gaps opts feed cp s cutoff gaps (r\<lparr>rs_deferred := rs_deferred r + 1\<rparr>) c
         else case parsed of
           None \<Rightarrow>
             let gap' = gap\<lparr>gp_Attempts := gp_Attempts gap + 1, gp_Quarantined := True, gp_NextAttempt := 0\<rparr>
             in retry_gaps opts feed cp s cutoff gaps r
                  (c\<lparr>cy_gaps := AList.update i gap' (cy_gaps c), cy_batch := persistGap cp s gap' (cy_batch c)\<rparr>)
         | Some (at, cmp) \<Rightarrow>
             (case attempt opts feed cp s \<lparr>ob_Key = gp_Key gap, ob_Identity = i\<rparr> cmp at (c\<lparr>cy_remaining := cy_remaining c - 1\<rparr>) of
                (ok, c) \<Rightarrow> retry_gaps opts feed cp s cutoff gaps
                  (r\<lparr>rs_retried := rs_retried r + 1, rs_exhausted := (if ok then rs_exhausted r else True)\<rparr>) c))"

text \<open>The candidates, oldest first, until the budget ends: how many were settled.\<close>

fun try_candidates ::
  "Options \<Rightarrow> 'a feed \<Rightarrow> 's CheckpointStore \<Rightarrow> 's \<Rightarrow> bool \<Rightarrow> candidate list \<Rightarrow> 'a cycle \<Rightarrow> int \<times> 'a cycle" where
  "try_candidates opts feed cp s exhausted [] c = (0, c)"
| "try_candidates opts feed cp s exhausted (cand # cands) c =
     (if exhausted \<or> \<not> canAttempt opts c then (0, c)
      else case attempt opts feed cp s (cd_obj cand) (cd_comp cand) (cd_at cand) c of
        (False, c) \<Rightarrow> (0, c)
      | (True, c) \<Rightarrow> (case try_candidates opts feed cp s exhausted cands c of (n, c) \<Rightarrow> (n + 1, c)))"

section \<open>Staging the durable state\<close>

fun keep_entry :: "string \<Rightarrow> gotime \<Rightarrow> (string \<times> gotime) list \<Rightarrow> (string \<times> gotime) list" where
  "keep_entry k at [] = [(k, at)]"
| "keep_entry k at ((k', at') # entries) = (if k' = k then (k, at) # entries else (k', at') # keep_entry k at entries)"

definition seen_rows :: "'s CheckpointStore \<Rightarrow> 's \<Rightarrow> (string \<times> gotime) list" where
  "seen_rows cp s = map (\<lambda>k. (k, case cs_Get cp k s of None \<Rightarrow> 0 | Some at \<Rightarrow> at)) (filter (\<lambda>k. strings_HasPrefix k seenPrefix) (cs_Keys cp s))"

definition stagePruneSeen :: "Options \<Rightarrow> 's CheckpointStore \<Rightarrow> 's \<Rightarrow> gotime \<Rightarrow> checkpointBatch \<Rightarrow> checkpointBatch" where
  "stagePruneSeen opts cp s cursor b =
     (let cutoff = cursor - 2 * op_Lookback opts;
          rows = seen_rows cp s;
          b = fold (\<lambda>(k, at). batch_delete k) (filter (\<lambda>(k, at). at < cutoff) rows) b;
          entries = fold (\<lambda>(k, at). keep_entry k at) (filter (\<lambda>(k, at). strings_HasPrefix k seenPrefix) (cb_updates b))
                   (filter (\<lambda>(k, at). \<not> at < cutoff) rows)
      in if op_MaxSeenKeys opts < int (length entries)
         then fold (\<lambda>(k, at). batch_delete k)
                (take (nat (int (length entries) - op_MaxSeenKeys opts)) (go_sort (\<lambda>x y. snd x < snd y) entries)) b
         else b)"

text \<open>The last key up to which every listed object is accounted for, and whether all are.\<close>

fun last_safe :: "string list \<Rightarrow> listedObject list \<Rightarrow> string \<Rightarrow> string \<times> bool" where
  "last_safe durable [] k = (k, True)"
| "last_safe durable (o' # os) k =
     (if \<not> lo_safe o' \<and> lo_identity o' \<notin> set durable then (k, False) else last_safe durable os (lo_key o'))"

definition stage_position ::
  "'s CheckpointStore \<Rightarrow> 's \<Rightarrow> gotime \<Rightarrow> string list \<Rightarrow> prefixProgress \<Rightarrow> checkpointBatch \<Rightarrow> checkpointBatch" where
  "stage_position cp s now durable progress b =
     (case last_safe durable (pf_objects progress) (pf_startAfter progress) of
        (lastSafe, allSafe) \<Rightarrow>
          if allSafe \<and> \<not> pf_truncated progress then clearScanPosition cp s (pf_prefix progress) b
          else if lastSafe \<noteq> pf_startAfter progress \<or> \<not> pf_active progress
          then setScanPosition cp s (pf_prefix progress) lastSafe now b
          else b)"

definition scan_open :: "string list \<Rightarrow> prefixProgress \<Rightarrow> bool" where
  "scan_open durable progress \<longleftrightarrow>
     \<not> (snd (last_safe durable (pf_objects progress) (pf_startAfter progress)) \<and> \<not> pf_truncated progress)"

section \<open>Collect\<close>

record 'a report =
  rp_cycle :: "'a cycle"
  rp_listing :: enumeration
  rp_retry :: retry_state
  rp_settled :: int
  rp_scanTruncated :: bool

definition index_gaps :: "gapState list \<Rightarrow> (string, gapState) gomap" where
  "index_gaps gaps = fold (\<lambda>g. AList.update (gp_Identity g) g) gaps []"

definition start_cycle ::
  "Options \<Rightarrow> 's CheckpointStore \<Rightarrow> 's \<Rightarrow> gotime \<Rightarrow> scanState \<Rightarrow> gapState list \<Rightarrow> string list \<Rightarrow> gotime \<Rightarrow> (string, string) gomap \<times> 'a cycle" where
  "start_cycle opts cp s cutoff state gaps seen cursor =
     (let expired = filter (\<lambda>p. expiredPartition cutoff p (op_Layout opts)) (map fst (ss_Positions state));
          batch = fold batch_delete (ss_StaleKeys state) newCheckpointBatch;
          batch = fold (clearScanPosition cp s) expired batch
      in (filter (\<lambda>(p, _). p \<notin> set expired) (ss_Positions state),
          \<lparr>cy_batch = batch, cy_gaps = index_gaps gaps, cy_seen = seen, cy_durable = [], cy_newest = cursor, cy_objects = 0, cy_records = 0,
           cy_wireUsed = 0, cy_decoded = 0, cy_rows = 0, cy_remaining = op_MaxObjects opts, cy_commits = []\<rparr>))"

definition finish_batch ::
  "Options \<Rightarrow> 's CheckpointStore \<Rightarrow> 's \<Rightarrow> gotime \<Rightarrow> gotime \<Rightarrow> enumeration \<Rightarrow> 'a cycle \<Rightarrow> checkpointBatch" where
  "finish_batch opts cp s now cursor listing c =
     (let batch = (if cursor < cy_newest c then batch_set cursorKey (cy_newest c) (cy_batch c) else cy_batch c);
          batch = stagePruneSeen opts cp s (cy_newest c) batch
      in fold (stage_position cp s now (cy_durable c)) (en_prefixes listing) batch)"

definition run_cycle :: "Options \<Rightarrow> 'a feed \<Rightarrow> 's CheckpointStore \<Rightarrow> 's \<Rightarrow> gotime \<Rightarrow> gotime \<Rightarrow> string + 'a report" where
  "run_cycle opts feed cp s cutoff cursor =
     (case loadScanState cp s (op_Prefix opts) (op_Layout opts) of
        Inl e \<Rightarrow> Inl e
      | Inr state \<Rightarrow>
     (case loadGaps cp s of
        Inl e \<Rightarrow> Inl e
      | Inr gaps \<Rightarrow>
     (case seenKeys cp s of
        Inl e \<Rightarrow> Inl e
      | Inr seen \<Rightarrow>
     (case start_cycle opts cp s cutoff state gaps seen cursor of
        (positions, c) \<Rightarrow>
     (case retry_gaps opts feed cp s cutoff gaps \<lparr>rs_deferred = 0, rs_expired = 0, rs_retried = 0, rs_exhausted = False\<rparr> c of
        (r, c) \<Rightarrow>
     (case enumerate' opts feed cutoff (admission_start cutoff (cursor - op_Lookback opts)) (fd_now feed) (cy_seen c) (cy_gaps c) positions of
        Inl e \<Rightarrow> Inl e
      | Inr listing \<Rightarrow>
     (case try_candidates opts feed cp s (rs_exhausted r)
         (take (nat (min (int (length (en_candidates listing))) (cy_remaining c))) (en_candidates listing)) c of
        (n, c) \<Rightarrow>
          let c = c\<lparr>cy_remaining := cy_remaining c - n\<rparr>;
              c = c\<lparr>cy_batch := finish_batch opts cp s (fd_now feed) cursor listing c\<rparr>
          in Inr \<lparr>rp_cycle = c, rp_listing = listing, rp_retry = r, rp_settled = n,
                  rp_scanTruncated = list_ex (scan_open (cy_durable c)) (en_prefixes listing)\<rparr>)))))))"

datatype collect_error = CollectText string | CollectStore cp_error

text \<open>Where the cycle starts: the saved cursor, or the initial look-back on a cold start.\<close>

definition cycle_cursor :: "Options \<Rightarrow> gotime \<Rightarrow> gotime option \<Rightarrow> gotime" where
  "cycle_cursor opts now saved =
     (case saved of None \<Rightarrow> now - op_InitialLookback opts | Some t \<Rightarrow> if t = 0 then now - op_InitialLookback opts else t)"

definition collect_from ::
  "Options \<Rightarrow> 'a feed \<Rightarrow> 's CheckpointStore \<Rightarrow> gotime \<Rightarrow> gotime \<Rightarrow> ('s, collect_error option \<times> 'a report option) state" where
  "collect_from opts feed cp cutoff cursor = do {
     s \<leftarrow> State_Monad.get;
     case run_cycle opts feed cp s cutoff cursor of
       Inl e \<Rightarrow> State_Monad.return (Some (CollectText e), None)
     | Inr r \<Rightarrow> do {
         e \<leftarrow> batch_apply cp (cy_batch (rp_cycle r));
         State_Monad.return (map_option CollectStore e, Some r)
       }
   }"

definition Collect :: "Options \<Rightarrow> 'a feed \<Rightarrow> 's CheckpointStore \<Rightarrow> ('s, collect_error option \<times> 'a report option) state" where
  "Collect opts feed cp = do {
     s \<leftarrow> State_Monad.get;
     let cutoff = newHorizonAdmission (fd_now feed) (op_LogMaxRecordAge opts);
     let cursor = cycle_cursor opts (fd_now feed) (cs_Get cp cursorKey s);
     let floor' = admission_start cutoff cursor;
     if cursor < floor' then do {
       e \<leftarrow> cs_Set cp cursorKey floor';
       case e of
         Some err \<Rightarrow> State_Monad.return (Some (CollectStore err), None)
       | None \<Rightarrow> collect_from opts feed cp cutoff floor'
     }
     else collect_from opts feed cp cutoff cursor
   }"

end
