(* ===== verification/Object_Safety.thy ===== *)
theory Object_Safety
  imports Object_Cycle "HOL-Library.Code_Target_Nat"
begin

text \<open>
  What a cycle of the object-store collector guarantees: its batch refines operations on the map of durable rows, the saved scan position
  never passes a listed object that is not accounted for, an object is committed whole or not at all,
  and the work of a cycle is bounded.
\<close>

section \<open>The batch as a map of rows\<close>

definition view :: "'s CheckpointStore \<Rightarrow> 's \<Rightarrow> checkpointBatch \<Rightarrow> string \<Rightarrow> gotime option" where
  "view cp s b = batch_view (cb_updates b) (cb_deletes b) (\<lambda>n. cs_Get cp n s)"

abbreviation batch_ok :: "checkpointBatch \<Rightarrow> bool" where
  "batch_ok b \<equiv> gomap_ok (cb_updates b)"

text \<open>The object a gap row stands for.\<close>

definition row_gap :: "string \<Rightarrow> string option" where
  "row_gap row = (case decodeGapRow row 0 of Inl _ \<Rightarrow> None | Inr gap \<Rightarrow> Some (gp_Identity gap))"

lemma map_of_rev: "gomap_ok m \<Longrightarrow> map_of (rev m) = map_of m"
  by (intro map_of_eqI) (auto simp: rev_map [symmetric] distinct_map)

lemma view_eq: "batch_ok b \<Longrightarrow> view cp s b k =
    (case map_of (cb_updates b) k of Some t \<Rightarrow> Some t | None \<Rightarrow> if k \<in> set (cb_deletes b) then None else cs_Get cp k s)"
  by (simp add: view_def batch_view_def map_of_rev)

lemma view_new [simp]: "view cp s newCheckpointBatch k = cs_Get cp k s" "batch_ok newCheckpointBatch"
  by (simp_all add: view_def batch_view_def newCheckpointBatch_def)

lemma batch_set_ok [simp]: "batch_ok b \<Longrightarrow> batch_ok (batch_set k t b)"
  by (simp add: batch_set_def)

lemma view_set [simp]: "batch_ok b \<Longrightarrow> view cp s (batch_set k t b) = (view cp s b)(k \<mapsto> t)"
  by (rule ext) (auto simp: view_eq batch_set_def update_conv' split: option.split)

lemma batch_delete_ok [simp]: "batch_ok b \<Longrightarrow> batch_ok (batch_delete k b)"
  by (simp add: batch_delete_def)

lemma view_delete [simp]: "batch_ok b \<Longrightarrow> view cp s (batch_delete k b) = (view cp s b)(k := None)"
  by (rule ext) (auto simp: view_eq batch_delete_def delete_conv' split: option.split)

lemma deletes_fold:
  "set (cb_deletes (fold batch_delete ks b)) = set ks \<union> set (cb_deletes b)"
  "map_of (cb_updates (fold batch_delete ks b)) k = (if k \<in> set ks then None else map_of (cb_updates b) k)"
  "batch_ok b \<Longrightarrow> batch_ok (fold batch_delete ks b)"
  by (induction ks arbitrary: b) (auto simp: batch_delete_def delete_conv')

lemma view_deletes: "batch_ok b \<Longrightarrow> view cp s (fold batch_delete ks b) = (\<lambda>k. if k \<in> set ks then None else view cp s b k)"
  by (rule ext) (auto simp: view_eq deletes_fold split: option.split)

lemma map_of_filter_key: "map_of (filter (\<lambda>(row, t). \<not> P row) m) k = (if P k then None else map_of m k)"
  by (induction m) auto

lemma names_gap_iff: "names_gap i row t \<longleftrightarrow> row_gap row = Some i"
proof -
  have "(case decodeGapParts ps t of Inl _ \<Rightarrow> None | Inr g \<Rightarrow> Some (gp_Identity g)) =
      (case decodeGapParts ps 0 of Inl _ \<Rightarrow> None | Inr g \<Rightarrow> Some (gp_Identity g))" for ps
    by (simp add: decodeGapParts_def Let_def split: option.split)
  then have "(case decodeGapRow row t of Inl _ \<Rightarrow> None | Inr g \<Rightarrow> Some (gp_Identity g)) = row_gap row"
    unfolding decodeGapRow_def row_gap_def by (simp split: option.split)
  moreover have "strings_HasPrefix row gapPrefix" if "row_gap row \<noteq> None"
    using that by (auto simp: row_gap_def decodeGapRow_def strings_CutPrefix_def split: option.splits if_splits)
  ultimately show ?thesis by (auto simp: names_gap_def split: sum.splits)
qed

text \<open>Rows the store has are listed by it, so clearing the listed rows and the staged ones clears all.\<close>

context checkpoint_store
begin

lemma view_filter:
  assumes "ok s" "batch_ok b"
    and "b' = (fold batch_delete (filter P (cs_Keys st s)) b)\<lparr>cb_updates := filter (\<lambda>(row, t). \<not> P row) (cb_updates (fold batch_delete (filter P (cs_Keys st s)) b))\<rparr>"
  shows "batch_ok b' \<and> view st s b' = (\<lambda>k. if P k then None else view st s b k)"
proof -
  let ?d = "fold batch_delete (filter P (cs_Keys st s)) b"
  have d: "batch_ok ?d" using assms(2) by (rule deletes_fold(3))
  then have ok': "batch_ok b'" by (simp add: assms(3) distinct_map_filter)
  have parts: "map_of (cb_updates b') k = (if P k then None else map_of (cb_updates b) k)"
    "set (cb_deletes b') = set (filter P (cs_Keys st s)) \<union> set (cb_deletes b)" for k
    by (simp_all add: assms(3) map_of_filter_key deletes_fold)
  have "view st s b' k = (if P k then None else view st s b k)" for k
    using Keys [OF assms(1)] by (auto simp: view_eq [OF ok'] view_eq [OF assms(2)] parts split: option.split)
  with ok' show ?thesis by blast
qed

lemma view_removeScanRows:
  assumes "ok s" "batch_ok b"
  shows "batch_ok (removeScanRows st s rp b) \<and> view st s (removeScanRows st s rp b) = (\<lambda>k. if strings_HasPrefix k rp then None else view st s b k)"
  using view_filter [OF assms, of _ "\<lambda>row. strings_HasPrefix row rp"] by (simp add: removeScanRows_def Let_def)

lemma view_removeGapRows:
  assumes "ok s" "batch_ok b"
  shows "batch_ok (removeGapRows st s i b) \<and> view st s (removeGapRows st s i b) = (\<lambda>k. if row_gap k = Some i then None else view st s b k)"
proof -
  have "(case cs_Get st row s of None \<Rightarrow> False | Some t \<Rightarrow> names_gap i row t) = (row_gap row = Some i)" if "row \<in> set (cs_Keys st s)" for row
    using that Keys [OF assms(1)] by (auto simp: names_gap_iff)
  then have "filter (\<lambda>row. case cs_Get st row s of None \<Rightarrow> False | Some t \<Rightarrow> names_gap i row t) (cs_Keys st s) = filter (\<lambda>row. row_gap row = Some i) (cs_Keys st s)"
    by (intro filter_cong) auto
  with view_filter [OF assms, of _ "\<lambda>row. row_gap row = Some i"] show ?thesis by (simp add: removeGapRows_def Let_def names_gap_iff)
qed

end

section \<open>What the rows stand for\<close>

definition row_seen :: "string \<Rightarrow> string option" where
  "row_seen row = (case strings_CutPrefix row seenPrefix of None \<Rightarrow> None | Some encoded \<Rightarrow> decodeIdentity encoded)"

definition row_scan :: "string \<Rightarrow> (string \<times> string) option" where
  "row_scan row = (case strings_CutPrefix row scanPrefix of None \<Rightarrow> None
     | Some encoded \<Rightarrow> (case decodeScanRow encoded of Inl _ \<Rightarrow> None | Inr pk \<Rightarrow> Some pk))"

definition scanRow :: "string \<Rightarrow> string \<Rightarrow> string" where
  "scanRow prefix' key = scanRowPrefix prefix' @ (if key \<noteq> [] then base64_Encode key else scanStartMarker)"

definition has_row :: "'s CheckpointStore \<Rightarrow> 's \<Rightarrow> (string \<Rightarrow> bool) \<Rightarrow> bool" where
  "has_row cp s P \<longleftrightarrow> (\<exists>row. cs_Get cp row s \<noteq> None \<and> P row)"

text \<open>A row that keeps the gap of an object: one read as its gap, or one written for it.\<close>

definition marks :: "string \<Rightarrow> string \<Rightarrow> bool" where
  "marks identity row \<longleftrightarrow> row_gap row = Some identity \<or> (\<exists>gap. gp_Identity gap = identity \<and> row = encodeGapRow gap)"

lemma decodeGapParts_identity: "decodeGapParts ps t = Inr gap \<Longrightarrow> base64_Decode (ps ! 3) = Some (gp_Identity gap)"
  by (auto simp: decodeGapParts_def Let_def split: option.splits if_splits)

lemma encodeGapRow_identity: "row_gap (encodeGapRow gap) \<in> {None, Some (gp_Identity gap)}"
proof -
  let ?st = "if gp_Quarantined gap then ''quarantined'' else ''pending''"
  let ?n = "if gp_Quarantined gap then 0 else time_Unix (gp_NextAttempt gap)"
  have "CHR ''/'' \<notin> set ?st" by simp
  note parts = gap_row_parts [OF this, of "gp_Attempts gap" ?n "gp_Identity gap" "gp_Key gap"]
  have "row_gap (encodeGapRow gap) = (case decodeGapParts [?st, strconv_FormatInt (gp_Attempts gap), strconv_FormatInt ?n,
      base64_Encode (gp_Identity gap), base64_Encode (gp_Key gap)] 0 of Inl _ \<Rightarrow> None | Inr g \<Rightarrow> Some (gp_Identity g))"
    unfolding row_gap_def decodeGapRow_def encodeGapRow_def Let_def by (simp only: CutPrefix_append option.case parts)
  then show ?thesis by (auto dest!: decodeGapParts_identity split: sum.split)
qed

lemma marks_identity: "marks i row \<Longrightarrow> row_gap row = Some j \<Longrightarrow> j = i"
  unfolding marks_def using encodeGapRow_identity by (metis insertE option.distinct(1) option.sel singletonD)

text \<open>The kinds of rows are told apart by their prefixes.\<close>

lemma row_kinds:
  "strings_HasPrefix row gapPrefix \<Longrightarrow> \<not> strings_HasPrefix row scanPrefix \<and> \<not> strings_HasPrefix row seenPrefix \<and> row \<noteq> cursorKey"
  "strings_HasPrefix row scanPrefix \<Longrightarrow> \<not> strings_HasPrefix row gapPrefix \<and> \<not> strings_HasPrefix row seenPrefix \<and> row \<noteq> cursorKey"
  by (auto simp: HasPrefix_iff gapPrefix_def scanPrefix_def seenPrefix_def cursorKey_def)

lemma row_prefixes [simp]:
  "strings_HasPrefix (encodeGapRow gap) gapPrefix" "strings_HasPrefix (seenRow i) seenPrefix"
  "strings_HasPrefix (scanRow p k) (scanRowPrefix p)" "strings_HasPrefix (scanRow p k) scanPrefix"
  by (simp_all add: encodeGapRow_def seenRow_def scanRow_def scanRowPrefix_def Let_def HasPrefix_iff)

lemma row_gap_prefix: "row_gap row = Some i \<Longrightarrow> strings_HasPrefix row gapPrefix"
  by (auto simp: row_gap_def decodeGapRow_def strings_CutPrefix_def split: option.splits if_splits)

lemma row_scan_prefix: "row_scan row = Some pk \<Longrightarrow> strings_HasPrefix row scanPrefix"
  by (auto simp: row_scan_def strings_CutPrefix_def split: option.splits if_splits)

lemma marks_prefix: "marks i row \<Longrightarrow> strings_HasPrefix row gapPrefix"
  by (auto simp: marks_def row_gap_prefix)

lemma scanRowPrefix_scan: "strings_HasPrefix row (scanRowPrefix p) \<Longrightarrow> strings_HasPrefix row scanPrefix"
  by (auto simp: HasPrefix_iff scanRowPrefix_def)

lemma row_scan_of_prefix:
  assumes "strings_HasPrefix row (scanRowPrefix p)" "row_scan row = Some (q, k)"
  shows "q = p"
proof -
  from assms(1) obtain t where row: "row = scanPrefix @ base64_Encode p @ CHR ''/'' # t"
    by (auto simp: HasPrefix_iff scanRowPrefix_def)
  have "row_scan row = (case decodeScanRow (base64_Encode p @ CHR ''/'' # t) of Inl _ \<Rightarrow> None | Inr pk \<Rightarrow> Some pk)"
    unfolding row row_scan_def by simp
  with assms(2) show ?thesis using base64_no_slash [OF base64_Encode_word, of p]
    by (auto simp: decodeScanRow_def split: option.splits if_splits sum.splits)
qed

lemma scanRow_key: "scanStartMarker \<noteq> base64_Encode k"
  by (cases k rule: base64_Encode.cases) (auto simp: scanStartMarker_def Let_def)

lemma row_scan_scanRow:
  "row_scan (scanRow p k) = (if k = [] \<or> strings_HasPrefix k p then Some (p, k) else None)"
proof -
  have "base64_Encode k \<noteq> []" if "k \<noteq> []" using that by (cases k rule: base64_Encode.cases) (auto simp: Let_def)
  moreover have "row_scan (scanRow p k) = (case decodeScanRow (base64_Encode p @ CHR ''/'' # (if k \<noteq> [] then base64_Encode k else scanStartMarker)) of
      Inl _ \<Rightarrow> None | Inr pk \<Rightarrow> Some pk)"
    unfolding row_scan_def scanRow_def scanRowPrefix_def by simp
  ultimately show ?thesis using base64_no_slash [OF base64_Encode_word] scanRow_key [of k]
    by (auto simp: decodeScanRow_def scanStartMarker_def)
qed

section \<open>The invariant of a cycle\<close>

text \<open>An object is settled when it was committed in the cycle or has a gap.\<close>

definition settled :: "'a cycle \<Rightarrow> string \<Rightarrow> bool" where
  "settled c i \<longleftrightarrow> i \<in> fst ` set (cy_commits c) \<or> map_of (cy_gaps c) i \<noteq> None"

text \<open>Every gap has a row in the batch, durable objects are settled, and scan rows are as \<open>v\<close> has them.\<close>

definition cycle_ok :: "'s CheckpointStore \<Rightarrow> 's \<Rightarrow> (string \<Rightarrow> gotime option) \<Rightarrow> string set \<Rightarrow> 'a cycle \<Rightarrow> bool" where
  "cycle_ok cp s v seen0 c \<longleftrightarrow> batch_ok (cy_batch c) \<and>
     (\<forall>i gap. map_of (cy_gaps c) i = Some gap \<longrightarrow> gp_Identity gap = i \<and> (\<exists>row. view cp s (cy_batch c) row \<noteq> None \<and> marks i row)) \<and>
     (\<forall>row. strings_HasPrefix row scanPrefix \<longrightarrow> view cp s (cy_batch c) row = v row) \<and>
     (\<forall>i \<in> set (cy_durable c). settled c i) \<and> set (cy_seen c) \<subseteq> seen0 \<union> set (cy_durable c)"

text \<open>The changes of the rows that keep the invariant: the rows of other gaps and the scan rows stay.\<close>

definition gap_change :: "string \<Rightarrow> (string \<Rightarrow> gotime option) \<Rightarrow> (string \<Rightarrow> gotime option) \<Rightarrow> bool" where
  "gap_change i v v' \<longleftrightarrow> (\<forall>row. (strings_HasPrefix row scanPrefix \<longrightarrow> v' row = v row) \<and>
     (v row \<noteq> None \<longrightarrow> row_gap row \<noteq> Some i \<longrightarrow> v' row \<noteq> None))"

lemma gap_change_set: "gap_change i v v' \<Longrightarrow> \<not> strings_HasPrefix row scanPrefix \<Longrightarrow> gap_change i v (v'(row \<mapsto> t))"
  by (auto simp: gap_change_def)

lemma gap_change_refl: "gap_change i v v"
  by (simp add: gap_change_def)

lemma cycle_ok_change:
  assumes "cycle_ok cp s v seen0 c" "batch_ok (cy_batch c')" "gap_change i (view cp s (cy_batch c)) (view cp s (cy_batch c'))"
    and "\<And>j. j \<noteq> i \<Longrightarrow> map_of (cy_gaps c') j = map_of (cy_gaps c) j"
    and "\<And>gap. map_of (cy_gaps c') i = Some gap \<Longrightarrow> gp_Identity gap = i \<and> (\<exists>row. view cp s (cy_batch c') row \<noteq> None \<and> marks i row)"
    and "\<And>j. j \<in> set (cy_durable c') \<Longrightarrow> settled c' j" "set (cy_seen c') \<subseteq> seen0 \<union> set (cy_durable c')"
  shows "cycle_ok cp s v seen0 c'"
proof -
  have "gp_Identity gap = j \<and> (\<exists>row. view cp s (cy_batch c') row \<noteq> None \<and> marks j row)" if g: "map_of (cy_gaps c') j = Some gap" for j gap
  proof (cases "j = i")
    case False
    with g assms(1,4) obtain row where "gp_Identity gap = j" "view cp s (cy_batch c) row \<noteq> None" "marks j row"
      unfolding cycle_ok_def by metis
    with False assms(3) marks_identity show ?thesis unfolding gap_change_def by metis
  qed (use g assms(5) in simp)
  with assms show ?thesis unfolding cycle_ok_def gap_change_def by metis
qed

lemma failed_gap_identity:
  "(\<And>gap. map_of gaps (ob_Identity o') = Some gap \<Longrightarrow> gp_Identity gap = ob_Identity o') \<Longrightarrow> gp_Identity (failed_gap now o' quarantine gaps) = ob_Identity o'"
  by (simp add: failed_gap_def Let_def split: option.split)

text \<open>An attempt settles the object, unsettles none, and is durable for no other.\<close>

definition progress :: "string \<Rightarrow> 'a cycle \<Rightarrow> 'a cycle \<Rightarrow> bool" where
  "progress i c c' \<longleftrightarrow> (\<forall>j. settled c j \<longrightarrow> settled c' j) \<and> set (cy_durable c) \<subseteq> set (cy_durable c') \<and> set (cy_durable c') \<subseteq> insert i (set (cy_durable c)) \<and>
     cy_remaining c' = cy_remaining c"

context checkpoint_store
begin

lemma resolve_change:
  assumes "ok s" "batch_ok b"
  shows "batch_ok (resolveGap st s i b) \<and> gap_change i (view st s b) (view st s (resolveGap st s i b))"
  using view_removeGapRows [OF assms, of i] row_kinds(2) row_gap_prefix by (auto simp: resolveGap_def gap_change_def)

lemma persist_change:
  assumes "ok s" "batch_ok b" "gp_Identity gap = i"
  shows "batch_ok (persistGap st s gap b) \<and> gap_change i (view st s b) (view st s (persistGap st s gap b)) \<and>
    (\<exists>row. view st s (persistGap st s gap b) row \<noteq> None \<and> marks i row)"
proof -
  let ?b = "removeGapRows st s (gp_Identity gap) b"
  from resolve_change [OF assms(1,2), of i] assms(3) have b: "batch_ok ?b" "gap_change i (view st s b) (view st s ?b)"
    by (auto simp: resolveGap_def)
  moreover have "\<not> strings_HasPrefix (encodeGapRow gap) scanPrefix" using row_kinds(1) [OF row_prefixes(1)] by blast
  moreover have "view st s (persistGap st s gap b) = (view st s ?b)(encodeGapRow gap \<mapsto> gp_FirstFailed gap)"
    using b(1) by (simp add: persistGap_def)
  moreover have "marks i (encodeGapRow gap)" using assms(3) by (auto simp: marks_def)
  moreover have "batch_ok (persistGap st s gap b)" using b(1) by (simp add: persistGap_def)
  ultimately show ?thesis using gap_change_set by auto
qed

lemma attempt_failed_ok:
  assumes "ok s" "cycle_ok st s v seen0 c" and c'_def: "c' = attempt_failed st s now o' at quarantine c"
  shows "cycle_ok st s v seen0 c' \<and> progress (ob_Identity o') c c'"
proof -
  let ?i = "ob_Identity o'" and ?gap = "failed_gap now o' quarantine (cy_gaps c)"
  have "gp_Identity ?gap = ?i" using assms(2) by (intro failed_gap_identity) (auto simp: cycle_ok_def)
  moreover have ok: "batch_ok (cy_batch c)" using assms(2) by (simp add: cycle_ok_def)
  ultimately have p: "batch_ok (persistGap st s ?gap (cy_batch c))" "gp_Identity ?gap = ?i"
    "gap_change ?i (view st s (cy_batch c)) (view st s (persistGap st s ?gap (cy_batch c)))"
    "\<exists>row. view st s (persistGap st s ?gap (cy_batch c)) row \<noteq> None \<and> marks ?i row"
    using persist_change [OF assms(1)] by auto
  have seen: "\<not> strings_HasPrefix (seenRow ?i) scanPrefix" using row_kinds(2) row_prefixes(2) by blast
  have gaps: "cy_gaps c' = AList.update ?i ?gap (cy_gaps c)" and durable: "cy_durable c' = set_insert ?i (cy_durable c)"
    and commits: "cy_commits c' = cy_commits c" and remaining: "cy_remaining c' = cy_remaining c"
    by (simp_all add: c'_def attempt_failed_def Let_def)
  have view': "view st s (cy_batch c') = (if quarantine then (view st s (persistGap st s ?gap (cy_batch c)))(seenRow ?i \<mapsto> at) else view st s (persistGap st s ?gap (cy_batch c)))"
    using p(1) by (cases quarantine) (simp_all add: c'_def attempt_failed_def Let_def)
  have settled': "settled c' j \<longleftrightarrow> j = ?i \<or> settled c j" for j
    by (auto simp: settled_def gaps commits update_conv')
  have "set (cy_seen c') \<subseteq> seen0 \<union> set (cy_durable c')"
    using assms(2) by (auto simp: cycle_ok_def c'_def attempt_failed_def Let_def split: if_splits)
  moreover have "batch_ok (cy_batch c')" using p(1) by (cases quarantine) (simp_all add: c'_def attempt_failed_def Let_def)
  moreover have "gap_change ?i (view st s (cy_batch c)) (view st s (cy_batch c'))"
    using p(3) gap_change_set [OF p(3) seen] by (cases quarantine) (simp_all add: view')
  moreover have "\<exists>row. view st s (cy_batch c') row \<noteq> None \<and> marks ?i row" using p(4) by (cases quarantine) (simp_all add: view', metis fun_upd_apply option.distinct(1))
  ultimately have "cycle_ok st s v seen0 c'"
    using p(2) assms(2) by (intro cycle_ok_change [OF assms(2), where i = ?i]) (auto simp: gaps durable update_conv' settled' cycle_ok_def)
  then show ?thesis using settled' by (auto simp: progress_def durable remaining)
qed

lemma attempt_done_ok:
  assumes "ok s" "cycle_ok st s v seen0 c" and c'_def: "c' = attempt_done st s o' at accepted rows c"
  shows "cycle_ok st s v seen0 c' \<and> progress (ob_Identity o') c c'"
proof -
  let ?i = "ob_Identity o'"
  have ok: "batch_ok (cy_batch c)" using assms(2) by (simp add: cycle_ok_def)
  define b where "b = (if map_of (cy_gaps c) ?i \<noteq> None then resolveGap st s ?i (cy_batch c) else cy_batch c)"
  have b: "batch_ok b \<and> gap_change ?i (view st s (cy_batch c)) (view st s b)"
    using resolve_change [OF assms(1) ok, of ?i] ok gap_change_refl by (simp add: b_def)
  have seen: "\<not> strings_HasPrefix (seenRow ?i) scanPrefix" using row_kinds(2) row_prefixes(2) by blast
  have gaps: "map_of (cy_gaps c') j = (if j = ?i then None else map_of (cy_gaps c) j)" for j
    by (auto simp: c'_def attempt_done_def Let_def delete_conv')
  have durable: "cy_durable c' = set_insert ?i (cy_durable c)" and commits: "cy_commits c' = cy_commits c @ [(?i, rows)]"
    and cseen: "cy_seen c' = set_insert ?i (cy_seen c)" and batch: "cy_batch c' = batch_set (seenRow ?i) at b" and remaining: "cy_remaining c' = cy_remaining c"
    by (simp_all add: c'_def attempt_done_def Let_def b_def)
  have settled': "settled c' j \<longleftrightarrow> j = ?i \<or> settled c j" for j
    by (auto simp: settled_def gaps commits)
  have "gap_change ?i (view st s (cy_batch c)) (view st s (cy_batch c'))"
    using b gap_change_set [OF conjunct2 [OF b] seen] by (simp add: batch)
  moreover have "batch_ok (cy_batch c')" using b by (simp add: batch)
  moreover have "\<forall>j \<in> set (cy_durable c'). settled c' j" "set (cy_seen c') \<subseteq> seen0 \<union> set (cy_durable c')"
    using assms(2) by (auto simp: durable cseen settled' cycle_ok_def)
  ultimately have "cycle_ok st s v seen0 c'"
    by (intro cycle_ok_change [OF assms(2), where i = ?i]) (auto simp: gaps)
  then show ?thesis using settled' by (auto simp: progress_def durable remaining)
qed

lemma attempt_ok:
  assumes "ok s" "cycle_ok st s v seen0 c" "attempt opts feed st s o' cmp at c = (r, c')"
  shows "cycle_ok st s v seen0 c' \<and> progress (ob_Identity o') c c'"
proof -
  obtain result err rows where i: "ingest opts feed (ob_Identity o') cmp
        \<lparr>li_wireBytes = op_MaxCycleWireBytes opts - cy_wireUsed c, li_decompressedBytes = op_MaxCycleDecompressedBytes opts - cy_decoded c,
         li_records = op_MaxCycleRecords opts - cy_rows c\<rparr> = (result, err, rows)" by (rule prod_cases3)
  let ?c = "c\<lparr>cy_wireUsed := cy_wireUsed c + ir_wireBytes result, cy_decoded := cy_decoded c + ir_decompressedBytes result,
                    cy_rows := cy_rows c + ir_rows result\<rparr>"
  have c: "cycle_ok st s v seen0 ?c" "progress j ?c d \<longleftrightarrow> progress j c d" "progress j c ?c" for j d
    using assms(2) by (simp_all add: cycle_ok_def settled_def progress_def subset_insertI2)
  from assms(3) i consider "c' = ?c" | qu where "c' = attempt_failed st s (fd_now feed) o' at qu ?c"
    | "c' = attempt_done st s o' at (ir_acceptedRecords result) rows ?c"
    unfolding attempt_def by (auto simp: Let_def split: option.splits ingest_error.splits)
  then show ?thesis using c(1,3) attempt_failed_ok [OF assms(1) c(1), unfolded c(2)] attempt_done_ok [OF assms(1) c(1), unfolded c(2)] by cases auto
qed

text \<open>A gap that is retried later is not durable yet, so retiring an expired one unsettles nothing durable.\<close>

lemma retry_gaps_ok:
  assumes "ok s" "cycle_ok st s v seen0 c" "distinct (map gp_Identity gaps)" "set (map gp_Identity gaps) \<inter> set (cy_durable c) = {}"
    and "retry_gaps opts feed st s cutoff gaps r c = (r', c')"
  shows "cycle_ok st s v seen0 c'"
  using assms(2-)
proof (induction gaps arbitrary: r c)
  case (Cons gap gaps)
  let ?i = "gp_Identity gap" and ?parsed = "parseKey (gp_Key gap) (op_Layout opts)"
  have fresh: "?i \<notin> set (cy_durable c)" "?i \<notin> set (map gp_Identity gaps)" "distinct (map gp_Identity gaps)"
    "set (map gp_Identity gaps) \<inter> set (cy_durable c) = {}" using Cons.prems by auto
  have ok: "batch_ok (cy_batch c)" using Cons.prems(1) by (simp add: cycle_ok_def)
  let ?gap = "gap\<lparr>gp_Attempts := gp_Attempts gap + 1, gp_Quarantined := True, gp_NextAttempt := 0\<rparr>"
  let ?gone = "c\<lparr>cy_gaps := AList.delete ?i (cy_gaps c), cy_batch := resolveGap st s ?i (cy_batch c)\<rparr>"
  let ?bad = "c\<lparr>cy_gaps := AList.update ?i ?gap (cy_gaps c), cy_batch := persistGap st s ?gap (cy_batch c)\<rparr>"
  have gone: "cycle_ok st s v seen0 ?gone"
    using resolve_change [OF assms(1) ok] Cons.prems(1) fresh(1)
    by (intro cycle_ok_change [OF Cons.prems(1), where i = ?i]) (auto simp: delete_conv' settled_def cycle_ok_def)
  have bad: "cycle_ok st s v seen0 ?bad"
    using persist_change [OF assms(1) ok, of ?gap ?i] Cons.prems(1) fresh(1)
    by (intro cycle_ok_change [OF Cons.prems(1), where i = ?i]) (auto simp: update_conv' settled_def cycle_ok_def)
  have tried: "cycle_ok st s v seen0 d \<and> set (map gp_Identity gaps) \<inter> set (cy_durable d) = {}"
    if "attempt opts feed st s \<lparr>ob_Key = gp_Key gap, ob_Identity = ?i\<rparr> cmp at (c\<lparr>cy_remaining := cy_remaining c - 1\<rparr>) = (ok', d)" for cmp at ok' d
  proof -
    have "cycle_ok st s v seen0 (c\<lparr>cy_remaining := cy_remaining c - 1\<rparr>)" using Cons.prems(1) by (simp add: cycle_ok_def settled_def)
    from attempt_ok [OF assms(1) this that] have "cycle_ok st s v seen0 d" "set (cy_durable d) \<subseteq> insert ?i (set (cy_durable c))"
      by (simp_all add: progress_def)
    with fresh(2,4) show ?thesis by blast
  qed
  from Cons.prems(4) consider
      r1 where "retry_gaps opts feed st s cutoff gaps r1 ?gone = (r', c')"
    | r1 where "retry_gaps opts feed st s cutoff gaps r1 c = (r', c')"
    | r1 where "retry_gaps opts feed st s cutoff gaps r1 ?bad = (r', c')"
    | cmp at ok' d r1 where "attempt opts feed st s \<lparr>ob_Key = gp_Key gap, ob_Identity = ?i\<rparr> cmp at (c\<lparr>cy_remaining := cy_remaining c - 1\<rparr>) = (ok', d)"
        "retry_gaps opts feed st s cutoff gaps r1 d = (r', c')"
    by (auto simp: Let_def split: if_splits option.splits prod.splits)
  then show ?case
  proof cases
    case 1
    show ?thesis by (rule Cons.IH [OF gone fresh(3) _ 1]) (use fresh(4) in simp)
  next
    case 2
    show ?thesis by (rule Cons.IH [OF Cons.prems(1) fresh(3,4) 2])
  next
    case 3
    show ?thesis by (rule Cons.IH [OF bad fresh(3) _ 3]) (use fresh(4) in simp)
  next
    case 4
    from tried [OF 4(1)] show ?thesis by (blast intro: Cons.IH [OF _ fresh(3) _ 4(2)])
  qed
qed simp

lemma try_candidates_ok:
  assumes "ok s" "cycle_ok st s v seen0 c" "try_candidates opts feed st s exhausted cands c = (n, c')"
  shows "cycle_ok st s v seen0 c' \<and> (\<forall>i. settled c i \<longrightarrow> settled c' i)"
  using assms(2-)
proof (induction cands arbitrary: n c)
  case (Cons cand cands)
  show ?case
  proof (cases "exhausted \<or> \<not> canAttempt opts c")
    case False
    obtain r d where a: "attempt opts feed st s (cd_obj cand) (cd_comp cand) (cd_at cand) c = (r, d)" by fastforce
    from attempt_ok [OF assms(1) Cons.prems(1) a] have d: "cycle_ok st s v seen0 d" "\<forall>i. settled c i \<longrightarrow> settled d i"
      by (auto simp: progress_def)
    with Cons.prems(2) a False Cons.IH [OF d(1)] show ?thesis by (cases r) (fastforce split: prod.splits)+
  qed (use Cons.prems in simp)
qed simp

end

section \<open>Loading the rows\<close>

text \<open>Every scan row is read; one of a prefix that is listed is its position, any other is stale.\<close>

definition scan_ok :: "string set \<Rightarrow> string \<Rightarrow> Layout \<Rightarrow> scanState \<Rightarrow> bool" where
  "scan_ok rows base layout state \<longleftrightarrow>
     (\<forall>row p k. row \<in> rows \<longrightarrow> row_scan row = Some (p, k) \<longrightarrow> isConfiguredScanPrefix p base layout \<longrightarrow> map_of (ss_Positions state) p = Some k) \<and>
     (\<forall>row p k. row \<in> rows \<longrightarrow> row_scan row = Some (p, k) \<longrightarrow> \<not> isConfiguredScanPrefix p base layout \<longrightarrow> row \<in> set (ss_StaleKeys state)) \<and>
     (\<forall>p k. map_of (ss_Positions state) p = Some k \<longrightarrow> isConfiguredScanPrefix p base layout \<and> (\<exists>row \<in> rows. row_scan row = Some (p, k))) \<and>
     (\<forall>row \<in> set (ss_StaleKeys state). row \<in> rows \<and> (\<exists>p k. row_scan row = Some (p, k) \<and> \<not> isConfiguredScanPrefix p base layout))"

lemma scan_okI:
  assumes "\<And>row p k. row \<in> rows \<Longrightarrow> row_scan row = Some (p, k) \<Longrightarrow> isConfiguredScanPrefix p base layout \<Longrightarrow> map_of (ss_Positions state) p = Some k"
    and "\<And>row p k. row \<in> rows \<Longrightarrow> row_scan row = Some (p, k) \<Longrightarrow> \<not> isConfiguredScanPrefix p base layout \<Longrightarrow> row \<in> set (ss_StaleKeys state)"
    and "\<And>p k. map_of (ss_Positions state) p = Some k \<Longrightarrow> isConfiguredScanPrefix p base layout \<and> (\<exists>row \<in> rows. row_scan row = Some (p, k))"
    and "\<And>row. row \<in> set (ss_StaleKeys state) \<Longrightarrow> row \<in> rows \<and> (\<exists>p k. row_scan row = Some (p, k) \<and> \<not> isConfiguredScanPrefix p base layout)"
  shows "scan_ok rows base layout state"
  unfolding scan_ok_def by (intro conjI [OF _ conjI [OF _ conjI]] ballI allI impI) (fact assms | assumption)+

lemma scan_okD:
  assumes "scan_ok rows base layout state"
  shows "row \<in> rows \<Longrightarrow> row_scan row = Some (p, k) \<Longrightarrow> isConfiguredScanPrefix p base layout \<Longrightarrow> map_of (ss_Positions state) p = Some k"
    and "row \<in> rows \<Longrightarrow> row_scan row = Some (p, k) \<Longrightarrow> \<not> isConfiguredScanPrefix p base layout \<Longrightarrow> row \<in> set (ss_StaleKeys state)"
    and "map_of (ss_Positions state) p = Some k \<Longrightarrow> isConfiguredScanPrefix p base layout \<and> (\<exists>row \<in> rows. row_scan row = Some (p, k))"
    and "row \<in> set (ss_StaleKeys state) \<Longrightarrow> row \<in> rows \<and> (\<exists>p k. row_scan row = Some (p, k) \<and> \<not> isConfiguredScanPrefix p base layout)"
  using assms unfolding scan_ok_def by (meson, meson, blast, blast)

lemma scan_ok_position:
  assumes "scan_ok seen base layout state" "map_of (ss_Positions state) p = None" "isConfiguredScanPrefix p base layout" "row_scan row = Some (p, k)"
  shows "scan_ok (insert row seen) base layout (state\<lparr>ss_Positions := AList.update p k (ss_Positions state)\<rparr>)"
proof (rule scan_okI, goal_cases)
  case (1 row' q k')
  show ?case
  proof (cases "row' = row")
    case False
    with 1 have "map_of (ss_Positions state) q = Some k'" by (intro scan_okD(1) [OF assms(1)]) simp_all
    with assms(2) show ?thesis by (auto simp: update_conv')
  qed (use 1 assms(4) in \<open>simp add: update_conv'\<close>)
next
  case (2 row' q k')
  with assms(3,4) scan_okD(2) [OF assms(1), of row' q k'] show ?case by auto
next
  case (3 q k')
  with assms(3,4) scan_okD(3) [OF assms(1), of q k'] show ?case by (auto simp: update_conv' split: if_splits)
next
  case (4 row')
  with scan_okD(4) [OF assms(1), of row'] show ?case by simp
qed

lemma scan_ok_stale:
  assumes "scan_ok seen base layout state" "\<not> isConfiguredScanPrefix p base layout" "row_scan row = Some (p, k)"
  shows "scan_ok (insert row seen) base layout (state\<lparr>ss_StaleKeys := ss_StaleKeys state @ [row]\<rparr>)"
proof (rule scan_okI, goal_cases)
  case (1 row' q k')
  with assms(2,3) scan_okD(1) [OF assms(1), of row' q k'] show ?case by auto
next
  case (2 row' q k')
  with scan_okD(2) [OF assms(1), of row' q k'] show ?case by auto
next
  case (3 q k')
  with scan_okD(3) [OF assms(1), of q k'] show ?case by auto
next
  case (4 row')
  with assms(2,3) scan_okD(4) [OF assms(1), of row'] show ?case by auto
qed

lemma scan_ok_other: "scan_ok seen base layout state \<Longrightarrow> row_scan row = None \<Longrightarrow> scan_ok (insert row seen) base layout state"
  by (rule scan_okI) (auto dest: scan_okD)

lemma scan_loop_ok:
  assumes "scan_loop rows base layout state = Inr state'" "scan_ok seen base layout state"
  shows "scan_ok (seen \<union> set rows) base layout state'"
  using assms
proof (induction rows arbitrary: state seen)
  case (Cons row rows)
  have more: "scan_ok (insert row seen) base layout st \<Longrightarrow> scan_loop rows base layout st = Inr state' \<Longrightarrow> ?case" for st
    using Cons.IH [of st "insert row seen"] by simp
  show ?case
  proof (cases "row_scan row")
    case None
    with Cons.prems have "scan_loop rows base layout state = Inr state'"
      by (auto simp: row_scan_def split: option.splits sum.splits)
    with more scan_ok_other [OF Cons.prems(2) None] show ?thesis by blast
  next
    case (Some pk)
    obtain p k where pk: "row_scan row = Some (p, k)" using Some by (cases pk) auto
    show ?thesis
    proof (cases "isConfiguredScanPrefix p base layout")
      case True
      with pk Cons.prems(1) have "map_of (ss_Positions state) p = None"
        "scan_loop rows base layout (state\<lparr>ss_Positions := AList.update p k (ss_Positions state)\<rparr>) = Inr state'"
        by (auto simp: row_scan_def split: option.splits sum.splits if_splits)
      with more scan_ok_position [OF Cons.prems(2) _ True pk] show ?thesis by blast
    next
      case False
      with pk Cons.prems(1) have "scan_loop rows base layout (state\<lparr>ss_StaleKeys := ss_StaleKeys state @ [row]\<rparr>) = Inr state'"
        by (auto simp: row_scan_def split: option.splits sum.splits if_splits)
      with more scan_ok_stale [OF Cons.prems(2) False pk] show ?thesis by blast
    qed
  qed
qed simp

lemma loadScanState_ok:
  assumes "loadScanState cp s base layout = Inr state"
  shows "scan_ok (set (cs_Keys cp s)) base layout state"
proof -
  from assms obtain st where l: "scan_loop (cs_Keys cp s) base layout \<lparr>ss_Positions = [], ss_StaleKeys = []\<rparr> = Inr st"
    and st: "state = st\<lparr>ss_StaleKeys := sort_Strings (ss_StaleKeys st)\<rparr>" by (auto simp: loadScanState_def split: sum.splits)
  have "scan_ok {} base layout \<lparr>ss_Positions = [], ss_StaleKeys = []\<rparr>" by (simp add: scan_ok_def)
  from scan_loop_ok [OF l this] have "scan_ok (set (cs_Keys cp s)) base layout st" by simp
  moreover have "scan_ok rows base layout state = scan_ok rows base layout st" for rows
    unfolding scan_ok_def by (simp add: st sort_Strings_def)
  ultimately show ?thesis by blast
qed

lemma decode_row_gap:
  assumes "decodeGapRow row t = Inr gap"
  shows "row_gap row = Some (gp_Identity gap)"
proof -
  from assms have "strings_HasPrefix row gapPrefix"
    by (cases "strings_HasPrefix row gapPrefix") (simp_all add: decodeGapRow_def strings_CutPrefix_def)
  with assms show ?thesis by (simp add: names_gap_def flip: names_gap_iff [of "gp_Identity gap" row t])
qed

lemma gap_loop_ok:
  assumes "gap_loop cp s rows seen gaps = Inr out" "distinct (map gp_Identity gaps)" "set (map gp_Identity gaps) \<subseteq> set seen"
    and "\<And>gap. gap \<in> set gaps \<Longrightarrow> has_row cp s (\<lambda>row. row_gap row = Some (gp_Identity gap))"
  shows "distinct (map gp_Identity out) \<and> (\<forall>gap \<in> set out. has_row cp s (\<lambda>row. row_gap row = Some (gp_Identity gap)))"
  using assms
proof (induction rows arbitrary: seen gaps)
  case (Cons row rows)
  show ?case
  proof (cases "strings_HasPrefix row gapPrefix")
    case True
    with Cons.prems(1) obtain t gap where g: "cs_Get cp row s = Some t" "decodeGapRow row t = Inr gap" "gp_Identity gap \<notin> set seen"
      "gap_loop cp s rows (gp_Identity gap # seen) (gaps @ [gap]) = Inr out" by (auto split: option.splits sum.splits if_splits)
    have "has_row cp s (\<lambda>row. row_gap row = Some (gp_Identity gap))"
      using g(1) decode_row_gap [OF g(2)] by (auto simp: has_row_def)
    with Cons.prems(2-) g(3) show ?thesis by (intro Cons.IH [OF g(4)]) auto
  next
    case False
    with Cons.prems show ?thesis by (intro Cons.IH [of seen gaps]) auto
  qed
qed simp

lemma loadGaps_ok:
  assumes "loadGaps cp s = Inr gaps"
  shows "distinct (map gp_Identity gaps) \<and> (\<forall>gap \<in> set gaps. has_row cp s (\<lambda>row. row_gap row = Some (gp_Identity gap)))"
proof -
  from assms obtain out where "gap_loop cp s (cs_Keys cp s) [] [] = Inr out" "gaps = go_sort gap_less out"
    by (auto simp: loadGaps_def split: sum.splits)
  with gap_loop_ok [of cp s "cs_Keys cp s" "[]" "[]" out] show ?thesis by (simp add: distinct_map_go_sort)
qed

lemma seen_loop_ok:
  "seen_loop ks out = Inr seen \<Longrightarrow> set seen \<subseteq> set out \<union> {i. \<exists>k \<in> set ks. row_seen k = Some i}"
proof (induction ks arbitrary: out)
  case (Cons k ks)
  then show ?case by (fastforce simp: row_seen_def split: option.splits)
qed simp

lemma index_gaps_ok: "map_of (index_gaps gaps) i = Some gap \<Longrightarrow> gap \<in> set gaps \<and> gp_Identity gap = i"
proof -
  have "map_of (fold (\<lambda>g. AList.update (gp_Identity g) g) gaps m) i = Some gap \<Longrightarrow> (gap \<in> set gaps \<and> gp_Identity gap = i) \<or> map_of m i = Some gap" for m
    by (induction gaps arbitrary: m) (simp, fastforce simp: update_conv' split: if_splits)
  from this [of "[]"] show "map_of (index_gaps gaps) i = Some gap \<Longrightarrow> gap \<in> set gaps \<and> gp_Identity gap = i" by (simp add: index_gaps_def)
qed

section \<open>The start and the end of a cycle\<close>

lemma cycle_ok_start:
  assumes "batch_ok (cy_batch c)" "\<And>row. strings_HasPrefix row gapPrefix \<Longrightarrow> view cp s (cy_batch c) row = cs_Get cp row s"
    and "\<And>row. strings_HasPrefix row scanPrefix \<Longrightarrow> view cp s (cy_batch c) row = v row"
    and "cy_gaps c = index_gaps gaps" "\<forall>gap \<in> set gaps. has_row cp s (\<lambda>row. row_gap row = Some (gp_Identity gap))"
    and "cy_durable c = []" "set (cy_seen c) \<subseteq> seen0"
  shows "cycle_ok cp s v seen0 c"
proof -
  have "gp_Identity gap = i \<and> (\<exists>row. view cp s (cy_batch c) row \<noteq> None \<and> marks i row)" if "map_of (cy_gaps c) i = Some gap" for i gap
  proof -
    from that index_gaps_ok assms(4) have g: "gap \<in> set gaps" "gp_Identity gap = i" by metis+
    with assms(5) obtain row where "cs_Get cp row s \<noteq> None" "row_gap row = Some i" unfolding has_row_def by blast
    with g(2) assms(2) row_gap_prefix show ?thesis unfolding marks_def by metis
  qed
  with assms show ?thesis unfolding cycle_ok_def by auto
qed

lemma keep_entry_keys: "x \<in> set (keep_entry k t es) \<Longrightarrow> x = (k, t) \<or> x \<in> set es"
  by (induction es) (auto split: if_splits)

lemma fold_keep_keys: "x \<in> set (fold (\<lambda>(k, t). keep_entry k t) us es) \<Longrightarrow> x \<in> set us \<or> x \<in> set es"
proof (induction us arbitrary: es)
  case (Cons u us)
  obtain k t where "u = (k, t)" by fastforce
  with Cons.prems Cons.IH [of "keep_entry k t es"] keep_entry_keys [of x k t es] show ?case by auto
qed simp

lemma stagePruneSeen_ok:
  assumes "batch_ok b"
  shows "batch_ok (stagePruneSeen opts cp s cursor b) \<and>
    (\<forall>row. \<not> strings_HasPrefix row seenPrefix \<longrightarrow> view cp s (stagePruneSeen opts cp s cursor b) row = view cp s b row)"
proof -
  define rows where "rows = seen_rows cp s"
  define old where "old = map fst (filter (\<lambda>(k, at). at < cursor - 2 * op_Lookback opts) rows)"
  define b1 where "b1 = fold batch_delete old b"
  define entries where "entries = fold (\<lambda>(k, at). keep_entry k at) (filter (\<lambda>(k, at). strings_HasPrefix k seenPrefix) (cb_updates b1))
     (filter (\<lambda>(k, at). \<not> at < cursor - 2 * op_Lookback opts) rows)"
  define more where "more = (if op_MaxSeenKeys opts < int (length entries)
     then map fst (take (nat (int (length entries) - op_MaxSeenKeys opts)) (go_sort (\<lambda>x y. snd x < snd y) entries)) else [])"
  have del: "fold (\<lambda>(k, at). batch_delete k) es bb = fold batch_delete (map fst es) bb" for es :: "(string \<times> gotime) list" and bb
    by (induction es arbitrary: bb) auto
  have eq: "stagePruneSeen opts cp s cursor b = fold batch_delete more b1"
    by (simp add: stagePruneSeen_def Let_def del more_def entries_def b1_def old_def rows_def)
  have rows: "\<forall>e \<in> set rows. strings_HasPrefix (fst e) seenPrefix" by (auto simp: rows_def seen_rows_def)
  then have "\<forall>k \<in> set old. strings_HasPrefix k seenPrefix" by (auto simp: old_def)
  moreover have "\<forall>e \<in> set entries. strings_HasPrefix (fst e) seenPrefix"
    using rows unfolding entries_def by (auto dest!: fold_keep_keys)
  then have "\<forall>k \<in> set more. strings_HasPrefix k seenPrefix" by (fastforce simp: more_def dest!: in_set_takeD)
  moreover have ok: "batch_ok b1" unfolding b1_def using assms by (rule deletes_fold(3))
  moreover have "view cp s b1 = (\<lambda>k. if k \<in> set old then None else view cp s b k)"
    unfolding b1_def using assms by (rule view_deletes)
  ultimately show ?thesis using deletes_fold(3) [OF ok, of more] unfolding eq by (auto simp: view_deletes)
qed

context checkpoint_store
begin

lemma view_clear_all:
  assumes "ok s" "batch_ok b"
  shows "batch_ok (fold (clearScanPosition st s) ps b) \<and>
    view st s (fold (clearScanPosition st s) ps b) = (\<lambda>row. if \<exists>p \<in> set ps. strings_HasPrefix row (scanRowPrefix p) then None else view st s b row)"
  using assms(2)
proof (induction ps arbitrary: b)
  case (Cons p ps)
  from view_removeScanRows [OF assms(1) Cons.prems, of "scanRowPrefix p"]
  have p: "batch_ok (clearScanPosition st s p b)"
    "view st s (clearScanPosition st s p b) = (\<lambda>row. if strings_HasPrefix row (scanRowPrefix p) then None else view st s b row)"
    by (auto simp: clearScanPosition_def)
  from Cons.IH [OF p(1)] show ?case by (auto simp: p(2))
qed simp

text \<open>The scan rows after the start of a cycle: the stale ones and those of expired partitions are gone.\<close>

lemma start_cycle_ok:
  assumes "ok s" "scan_ok (set (cs_Keys st s)) (op_Prefix opts) (op_Layout opts) state"
    and "\<forall>gap \<in> set gaps. has_row st s (\<lambda>row. row_gap row = Some (gp_Identity gap))"
    and "start_cycle opts st s cutoff state gaps seen cursor = (positions, c)"
    and "set seen \<subseteq> seen0"
  defines "v \<equiv> \<lambda>row. if row \<in> set (ss_StaleKeys state) \<or>
      (\<exists>p. p \<in> fst ` set (ss_Positions state) \<and> expiredPartition cutoff p (op_Layout opts) \<and> strings_HasPrefix row (scanRowPrefix p)) then None else cs_Get st row s"
  shows "cycle_ok st s v seen0 c \<and> cy_durable c = [] \<and> cy_remaining c = op_MaxObjects opts \<and> cy_newest c = cursor \<and>
    positions = filter (\<lambda>(p, _). \<not> (p \<in> fst ` set (ss_Positions state) \<and> expiredPartition cutoff p (op_Layout opts))) (ss_Positions state)"
proof -
  define ex where "ex = filter (\<lambda>p. expiredPartition cutoff p (op_Layout opts)) (map fst (ss_Positions state))"
  define b where "b = fold batch_delete (ss_StaleKeys state) newCheckpointBatch"
  have bo: "batch_ok b" unfolding b_def by (rule deletes_fold(3)) simp
  have bv: "view st s b = (\<lambda>k. if k \<in> set (ss_StaleKeys state) then None else cs_Get st k s)"
    unfolding b_def by (subst view_deletes) (auto simp: fun_eq_iff)
  have c: "cy_batch c = fold (clearScanPosition st s) ex b" "cy_gaps c = index_gaps gaps" "cy_durable c = []" "cy_seen c = seen"
    "cy_remaining c = op_MaxObjects opts" "cy_newest c = cursor" "positions = filter (\<lambda>(p, _). p \<notin> set ex) (ss_Positions state)"
    using assms(4) by (auto simp: start_cycle_def Let_def ex_def b_def)
  from view_clear_all [OF assms(1) bo, of ex] have batch: "batch_ok (cy_batch c)" "view st s (cy_batch c) = v"
    by (auto simp: c(1) bv v_def ex_def fun_eq_iff)
  have "v row = cs_Get st row s" if "strings_HasPrefix row gapPrefix" for row
  proof -
    have "row \<notin> set (ss_StaleKeys state)" using row_kinds(1) [OF that] scan_okD(4) [OF assms(2)] row_scan_prefix by blast
    moreover have "\<not> strings_HasPrefix row (scanRowPrefix p)" for p using row_kinds(1) [OF that] scanRowPrefix_scan by blast
    ultimately show ?thesis by (simp add: v_def)
  qed
  then have "cycle_ok st s v seen0 c"
    using batch c assms(3,5) by (intro cycle_ok_start [where gaps = gaps]) auto
  moreover have "positions = filter (\<lambda>(p, _). \<not> (p \<in> fst ` set (ss_Positions state) \<and> expiredPartition cutoff p (op_Layout opts))) (ss_Positions state)"
    unfolding c(7) ex_def by (intro filter_cong) auto
  ultimately show ?thesis using c by simp
qed

end

section \<open>Listing and saving the positions\<close>

definition listed_item :: "Layout \<Rightarrow> gotime \<Rightarrow> gotime \<Rightarrow> gotime \<Rightarrow> string list \<Rightarrow> (string, gapState) gomap \<Rightarrow> bool \<Rightarrow> object \<Rightarrow> listedObject" where
  "listed_item layout cutoff start now seen gaps active o' =
     \<lparr>lo_key = ob_Key o', lo_identity = ob_Identity o', lo_safe = verdict_safe (judge layout cutoff start now seen gaps active o')\<rparr>"

lemma add_listed_prefixes [simp]: "en_prefixes (add_listed layout now o' v en) = en_prefixes en"
  by (simp add: add_listed_def)

lemma list_objects_spec:
  "list_objects layout cutoff start now seen gaps active os items en = Inr (items', en') \<Longrightarrow>
    items' = items @ map (listed_item layout cutoff start now seen gaps active) os \<and> en_prefixes en' = en_prefixes en"
proof (induction os arbitrary: items en)
  case (Cons o' os)
  from Cons.prems Cons.IH show ?case by (fastforce simp: listed_item_def Let_def split: if_splits)
qed simp

text \<open>The progress record of a prefix and the page it was made from.\<close>

definition listed_page :: "Options \<Rightarrow> 'a feed \<Rightarrow> (string, string) gomap \<Rightarrow> prefixProgress \<Rightarrow> page \<Rightarrow> bool" where
  "listed_page opts feed positions prog pg \<longleftrightarrow>
     pf_active prog = (map_of positions (pf_prefix prog) \<noteq> None) \<and>
     pf_startAfter prog = (case map_of positions (pf_prefix prog) of None \<Rightarrow> [] | Some k \<Rightarrow> k) \<and>
     fd_list feed (pf_prefix prog) (truncatedStartAfter (pf_startAfter prog) (op_Layout opts)) (op_MaxObjects opts * 4) = Some pg \<and>
     pf_truncated prog = pa_Truncated pg"

definition listed :: "Options \<Rightarrow> 'a feed \<Rightarrow> gotime \<Rightarrow> gotime \<Rightarrow> gotime \<Rightarrow> string list \<Rightarrow> (string, gapState) gomap \<Rightarrow> (string, string) gomap \<Rightarrow>
  prefixProgress \<Rightarrow> page \<Rightarrow> bool" where
  "listed opts feed cutoff start now seen gaps positions prog pg \<longleftrightarrow> listed_page opts feed positions prog pg \<and>
     pf_objects prog = map (listed_item (op_Layout opts) cutoff start now seen gaps (pf_active prog)) (pa_Objects pg)"

lemma listed_unique:
  "listed opts feed cutoff start now seen gaps positions x pg \<Longrightarrow> listed opts feed cutoff start now seen gaps positions y pg' \<Longrightarrow>
    pf_prefix x = pf_prefix y \<Longrightarrow> x = y"
  by (cases x; cases y) (auto simp: listed_def listed_page_def)

lemma list_prefixes_spec:
  "list_prefixes opts feed cutoff start now seen gaps positions ps en = Inr en' \<Longrightarrow> prog \<in> set (en_prefixes en') \<Longrightarrow>
    prog \<in> set (en_prefixes en) \<or> (\<exists>pg. listed opts feed cutoff start now seen gaps positions prog pg)"
proof (induction ps arbitrary: en)
  case (Cons p ps)
  define pos where "pos = (case map_of positions p of None \<Rightarrow> [] | Some k \<Rightarrow> k)"
  from Cons.prems(1) obtain pg items e where l: "fd_list feed p (truncatedStartAfter pos (op_Layout opts)) (op_MaxObjects opts * 4) = Some pg"
    "list_objects (op_Layout opts) cutoff start now seen gaps (map_of positions p \<noteq> None) (pa_Objects pg) [] en = Inr (items, e)"
    and more: "list_prefixes opts feed cutoff start now seen gaps positions ps (e\<lparr>en_prefixes := en_prefixes e @
       [\<lparr>pf_prefix = p, pf_startAfter = pos, pf_active = (map_of positions p \<noteq> None), pf_objects = items, pf_truncated = pa_Truncated pg\<rparr>]\<rparr>) = Inr en'"
    by (auto simp: Let_def pos_def split: option.splits sum.splits prod.splits)
  have "listed opts feed cutoff start now seen gaps positions
      \<lparr>pf_prefix = p, pf_startAfter = pos, pf_active = (map_of positions p \<noteq> None), pf_objects = items, pf_truncated = pa_Truncated pg\<rparr> pg"
    using l list_objects_spec [OF l(2)] by (auto simp: listed_def listed_page_def pos_def)
  with Cons.IH [OF more Cons.prems(2)] list_objects_spec [OF l(2)] show ?case by auto
qed simp

lemma enumerate_spec:
  "enumerate' opts feed cutoff start now seen gaps positions = Inr en \<Longrightarrow> prog \<in> set (en_prefixes en) \<Longrightarrow>
    \<exists>pg. listed opts feed cutoff start now seen gaps positions prog pg"
  unfolding enumerate'_def by (fastforce dest: list_prefixes_spec split: option.splits sum.splits)

text \<open>A position stands for the first \<open>n\<close> objects of the page, all of them safe or durable.\<close>

lemma last_safe_spec:
  "\<exists>n \<le> length os. fst (last_safe durable os k) = (if n = 0 then k else lo_key (os ! (n - 1))) \<and>
     (\<forall>o' \<in> set (take n os). lo_safe o' \<or> lo_identity o' \<in> set durable) \<and> (snd (last_safe durable os k) \<longrightarrow> n = length os)"
proof (induction os arbitrary: k)
  case (Cons x os)
  show ?case
  proof (cases "\<not> lo_safe x \<and> lo_identity x \<notin> set durable")
    case False
    from Cons.IH [of "lo_key x"] obtain n where n: "n \<le> length os" "fst (last_safe durable os (lo_key x)) = (if n = 0 then lo_key x else lo_key (os ! (n - 1)))"
      "\<forall>o' \<in> set (take n os). lo_safe o' \<or> lo_identity o' \<in> set durable" "snd (last_safe durable os (lo_key x)) \<longrightarrow> n = length os" by auto
    have "fst (last_safe durable (x # os) k) = lo_key ((x # os) ! n)" using n(2) False by (auto simp: nth_Cons')
    with n False show ?thesis by (intro exI [of _ "Suc n"]) auto
  qed auto
qed simp

definition stage_row :: "gotime \<Rightarrow> string list \<Rightarrow> string \<Rightarrow> prefixProgress \<Rightarrow> gotime option \<Rightarrow> gotime option" where
  "stage_row now durable row prog x =
     (if \<not> strings_HasPrefix row (scanRowPrefix (pf_prefix prog)) then x
      else case last_safe durable (pf_objects prog) (pf_startAfter prog) of
        (k, allSafe) \<Rightarrow>
          if allSafe \<and> \<not> pf_truncated prog then None
          else if k \<noteq> pf_startAfter prog \<or> \<not> pf_active prog then (if row = scanRow (pf_prefix prog) k then Some now else None)
          else x)"

lemma scanRowPrefix_unique:
  assumes "strings_HasPrefix row (scanRowPrefix p)" "strings_HasPrefix row (scanRowPrefix q)"
  shows "p = q"
proof -
  from assms obtain t u where "scanRowPrefix p @ t = scanRowPrefix q @ u" unfolding HasPrefix_iff by metis
  then have "base64_Encode p @ CHR ''/'' # t = base64_Encode q @ CHR ''/'' # u" by (simp add: scanRowPrefix_def)
  then have "strings_Cut (CHR ''/'') (base64_Encode p @ CHR ''/'' # t) = strings_Cut (CHR ''/'') (base64_Encode q @ CHR ''/'' # u)" by (rule arg_cong)
  then have "base64_Encode p = base64_Encode q"
    unfolding Cut_append [OF base64_no_slash [OF base64_Encode_word]] by blast
  then show ?thesis by (metis base64_roundtrip option.sel)
qed

lemma fold_stage_row:
  assumes "\<And>q. q \<in> set progs \<Longrightarrow> pf_prefix q = pf_prefix prog \<Longrightarrow> q = prog" "strings_HasPrefix row (scanRowPrefix (pf_prefix prog))"
  shows "fold (stage_row now durable row) progs x = (if prog \<in> set progs then stage_row now durable row prog x else x)"
  using assms(1)
proof (induction progs arbitrary: x)
  case (Cons q progs)
  have again: "stage_row now durable row prog (stage_row now durable row prog y) = stage_row now durable row prog y" for y
    by (cases "last_safe durable (pf_objects prog) (pf_startAfter prog)") (simp add: stage_row_def)
  have other: "stage_row now durable row q y = y" if "q \<noteq> prog" for y
    using Cons.prems [of q] that scanRowPrefix_unique [OF _ assms(2)] by (auto simp: stage_row_def)
  have rec: "fold (stage_row now durable row) progs y = (if prog \<in> set progs then stage_row now durable row prog y else y)" for y
    using Cons.prems by (intro Cons.IH) auto
  show ?case by (cases "q = prog") (auto simp: again other rec)
qed simp

section \<open>A cycle accounts for what it passes\<close>

text \<open>A listed object is accounted for when it is none of the feed or below its bounds, was remembered as ingested, was
  committed in this cycle, or has a gap row afterwards.\<close>

definition accounted :: "'s CheckpointStore \<Rightarrow> 's \<Rightarrow> 's \<Rightarrow> Layout \<Rightarrow> gotime \<Rightarrow> gotime \<Rightarrow> gotime \<Rightarrow> bool \<Rightarrow> 'a report \<Rightarrow> object \<Rightarrow> bool" where
  "accounted cp s s' layout cutoff start now active r o' \<longleftrightarrow>
     (case parseKey (ob_Key o') layout of
        None \<Rightarrow> True
      | Some (at, _) \<Rightarrow> \<not> isFutureKey at now \<and> (\<not> admission_allows cutoff at \<or> beforeLowerBound layout at start active)) \<or>
     has_row cp s (\<lambda>row. row_seen row = Some (ob_Identity o')) \<or>
     ob_Identity o' \<in> fst ` set (cy_commits (rp_cycle r)) \<or>
     has_row cp s' (marks (ob_Identity o'))"

text \<open>Scan rows are written in one way only.\<close>

definition scan_rows_canonical :: "'s CheckpointStore \<Rightarrow> 's \<Rightarrow> bool" where
  "scan_rows_canonical cp s \<longleftrightarrow> (\<forall>row p k. cs_Get cp row s \<noteq> None \<longrightarrow> row_scan row = Some (p, k) \<longrightarrow> row = scanRow p k)"

text \<open>The backend lists objects under the prefix it was asked for.\<close>

definition lists_under_prefix :: "'a feed \<Rightarrow> bool" where
  "lists_under_prefix feed \<longleftrightarrow> (\<forall>p after n pg. fd_list feed p after n = Some pg \<longrightarrow> (\<forall>o' \<in> set (pa_Objects pg). strings_HasPrefix (ob_Key o') p))"

definition position_saved :: "'s CheckpointStore \<Rightarrow> 's \<Rightarrow> string \<Rightarrow> string \<Rightarrow> bool" where
  "position_saved cp s p k \<longleftrightarrow> has_row cp s (\<lambda>row. row_scan row = Some (p, k))"

text \<open>What the saved positions of a prefix say after a cycle about the page that was listed in it.\<close>

definition passes_accounted ::
  "'s CheckpointStore \<Rightarrow> 's \<Rightarrow> 's \<Rightarrow> (object \<Rightarrow> bool) \<Rightarrow> prefixProgress \<Rightarrow> page \<Rightarrow> bool" where
  "passes_accounted cp s s' acc prog pg \<longleftrightarrow>
     (if pf_active prog then position_saved cp s (pf_prefix prog) (pf_startAfter prog) else pf_startAfter prog = []) \<and>
     (\<forall>k. position_saved cp s' (pf_prefix prog) k \<longrightarrow>
       (\<exists>n \<le> length (pa_Objects pg). k = (if n = 0 then pf_startAfter prog else ob_Key (pa_Objects pg ! (n - 1))) \<and>
          (\<forall>o' \<in> set (take n (pa_Objects pg)). acc o'))) \<and>
     ((\<nexists>k. position_saved cp s' (pf_prefix prog) k) \<longrightarrow> \<not> pa_Truncated pg \<and> (\<forall>o' \<in> set (pa_Objects pg). acc o'))"

lemma safe_accounted:
  assumes "verdict_safe (judge layout cutoff start now (cy_seen c1) (cy_gaps c1) active o') \<or> ob_Identity o' \<in> set (cy_durable c2)"
    and "set (cy_seen c1) \<subseteq> {i. has_row cp s (\<lambda>row. row_seen row = Some i)} \<union> set (cy_durable c1)" "\<forall>i \<in> set (cy_durable c1). settled c1 i"
    and "\<And>i. settled c1 i \<Longrightarrow> settled c2 i" "\<forall>i \<in> set (cy_durable c2). settled c2 i"
    and "\<And>i. settled c2 i \<Longrightarrow> i \<in> fst ` set (cy_commits (rp_cycle r)) \<or> has_row cp s' (marks i)"
  shows "accounted cp s s' layout cutoff start now active r o'"
proof -
  let ?i = "ob_Identity o'"
  have done_: "accounted cp s s' layout cutoff start now active r o'" if "settled c2 ?i" using assms(6) [OF that] by (auto simp: accounted_def)
  show ?thesis
  proof (cases "?i \<in> set (cy_durable c2)")
    case False
    define v where "v = judge layout cutoff start now (cy_seen c1) (cy_gaps c1) active o'"
    from False assms(1) have "v = Unparsed \<or> v = Stale \<or> v = Pending \<or> v = Already" by (auto simp: verdict_safe_def v_def)
    moreover have "accounted cp s s' layout cutoff start now active r o'" if "v = Unparsed \<or> v = Stale"
      using that by (auto simp: v_def judge_def accounted_def split: option.splits prod.splits if_splits)
    moreover have "settled c1 ?i" if "v = Pending"
      using that by (auto simp: v_def judge_def settled_def split: option.splits prod.splits if_splits)
    moreover have "?i \<in> set (cy_seen c1)" if "v = Already"
      using that by (auto simp: v_def judge_def split: option.splits prod.splits if_splits)
    ultimately show ?thesis using assms(2-4) done_ by (auto simp: accounted_def)
  qed (use assms(5) done_ in blast)
qed

lemma run_cycle_parts:
  assumes "run_cycle opts feed cp s cutoff cursor = Inr r"
  obtains state gaps seen positions c0 rs c1 listing n c2 where
    "loadScanState cp s (op_Prefix opts) (op_Layout opts) = Inr state" "loadGaps cp s = Inr gaps" "seenKeys cp s = Inr seen"
    "start_cycle opts cp s cutoff state gaps seen cursor = (positions, c0)"
    "retry_gaps opts feed cp s cutoff gaps \<lparr>rs_deferred = 0, rs_expired = 0, rs_retried = 0, rs_exhausted = False\<rparr> c0 = (rs, c1)"
    "enumerate' opts feed cutoff (admission_start cutoff (cursor - op_Lookback opts)) (fd_now feed) (cy_seen c1) (cy_gaps c1) positions = Inr listing"
    "try_candidates opts feed cp s (rs_exhausted rs)
         (take (nat (min (int (length (en_candidates listing))) (cy_remaining c1))) (en_candidates listing)) c1 = (n, c2)"
    "rp_listing r = listing" "rp_cycle r = c2\<lparr>cy_remaining := cy_remaining c2 - n, cy_batch := finish_batch opts cp s (fd_now feed) cursor listing (c2\<lparr>cy_remaining := cy_remaining c2 - n\<rparr>)\<rparr>"
    "rp_retry r = rs" "rp_settled r = n"
  using assms unfolding run_cycle_def by (auto simp: Let_def split: sum.splits prod.splits)

lemma finish_batch_remaining [simp]: "finish_batch opts cp s now cursor listing (c\<lparr>cy_remaining := m\<rparr>) = finish_batch opts cp s now cursor listing c"
  by (simp add: finish_batch_def)

context checkpoint_store
begin

lemma view_stage:
  assumes "ok s" "batch_ok b"
  shows "batch_ok (stage_position st s now durable prog b) \<and>
    view st s (stage_position st s now durable prog b) = (\<lambda>row. stage_row now durable row prog (view st s b row))"
proof -
  let ?p = "pf_prefix prog"
  obtain k all where l: "last_safe durable (pf_objects prog) (pf_startAfter prog) = (k, all)" by fastforce
  note rm = view_removeScanRows [OF assms, of "scanRowPrefix ?p"]
  have set: "setScanPosition st s ?p k now b = batch_set (scanRow ?p k) now (removeScanRows st s (scanRowPrefix ?p) b)"
    by (simp add: setScanPosition_def Let_def scanRow_def)
  show ?thesis
  proof (cases "all \<and> \<not> pf_truncated prog \<or> k = pf_startAfter prog \<and> pf_active prog")
    case True
    with l rm assms(2) show ?thesis by (auto simp: stage_position_def stage_row_def clearScanPosition_def fun_eq_iff)
  next
    case False
    with l rm have "stage_position st s now durable prog b = setScanPosition st s ?p k now b" by (auto simp: stage_position_def)
    with l rm False show ?thesis by (auto simp: set stage_row_def fun_eq_iff)
  qed
qed

lemma view_stages:
  assumes "ok s" "batch_ok b"
  shows "batch_ok (fold (stage_position st s now durable) progs b) \<and>
    view st s (fold (stage_position st s now durable) progs b) row = fold (stage_row now durable row) progs (view st s b row)"
  using assms(2)
proof (induction progs arbitrary: b)
  case (Cons prog progs)
  from view_stage [OF assms(1) Cons.prems, of now durable prog] Cons.IH [of "stage_position st s now durable prog b"] show ?case by simp
qed simp

lemma view_finish:
  assumes "ok s" "batch_ok (cy_batch c)" "\<not> strings_HasPrefix row seenPrefix" "row \<noteq> cursorKey"
  shows "batch_ok (finish_batch opts st s now cursor listing c) \<and> view st s (finish_batch opts st s now cursor listing c) row =
    fold (stage_row now (cy_durable c) row) (en_prefixes listing) (view st s (cy_batch c) row)"
proof -
  define b where "b = (if cursor < cy_newest c then batch_set cursorKey (cy_newest c) (cy_batch c) else cy_batch c)"
  have b: "batch_ok b" "view st s b row = view st s (cy_batch c) row" using assms(2,4) by (auto simp: b_def)
  from stagePruneSeen_ok [OF b(1), of opts st s "cy_newest c"] assms(3) b(2)
  have "batch_ok (stagePruneSeen opts st s (cy_newest c) b)" "view st s (stagePruneSeen opts st s (cy_newest c) b) row = view st s (cy_batch c) row" by auto
  with view_stages [OF assms(1), of "stagePruneSeen opts st s (cy_newest c) b"] show ?thesis
    by (simp add: finish_batch_def Let_def b_def)
qed

lemma saved_canonical:
  "scan_rows_canonical st x \<Longrightarrow> position_saved st x p q \<longleftrightarrow> cs_Get st (scanRow p q) x \<noteq> None \<and> row_scan (scanRow p q) = Some (p, q)"
  unfolding position_saved_def has_row_def scan_rows_canonical_def by metis

text \<open>The position a prefix is continued from is a saved one, unless its partition has expired.\<close>

lemma active_position:
  assumes "scan_ok (set (cs_Keys st s)) base layout state" "scan_rows_canonical st s" "ok s"
    and positions: "positions = filter (\<lambda>(p, _). \<not> (p \<in> fst ` set (ss_Positions state) \<and> expiredPartition cutoff p layout)) (ss_Positions state)"
    and "map_of positions p = Some k"
  shows "\<not> expiredPartition cutoff p layout" "isConfiguredScanPrefix p base layout" "map_of (ss_Positions state) p = Some k" "position_saved st s p k"
    "cs_Get st (scanRow p k) s \<noteq> None" "row_scan (scanRow p k) = Some (p, k)"
proof -
  have keys: "row \<in> set (cs_Keys st s) \<longleftrightarrow> cs_Get st row s \<noteq> None" for row using Keys [OF assms(3)] by blast
  have "map_of positions p = (if p \<in> fst ` set (ss_Positions state) \<and> expiredPartition cutoff p layout then None else map_of (ss_Positions state) p)"
    unfolding positions by (rule map_of_filter_key)
  with assms(5) show p: "\<not> expiredPartition cutoff p layout" "map_of (ss_Positions state) p = Some k"
    by (auto split: if_splits dest: map_of_SomeD intro: rev_image_eqI)
  from scan_okD(3) [OF assms(1) p(2)] keys obtain row where r: "isConfiguredScanPrefix p base layout" "cs_Get st row s \<noteq> None" "row_scan row = Some (p, k)" by auto
  then show "isConfiguredScanPrefix p base layout" "position_saved st s p k" by (auto simp: position_saved_def has_row_def)
  then show "cs_Get st (scanRow p k) s \<noteq> None" "row_scan (scanRow p k) = Some (p, k)" using saved_canonical [OF assms(2)] by blast+
qed

text \<open>Rows that the end of a cycle leaves alone name the position the prefix was continued from.\<close>

lemma kept_position:
  assumes "scan_ok (set (cs_Keys st s)) base layout state" "scan_rows_canonical st s" "ok s"
    and positions: "positions = filter (\<lambda>(p, _). \<not> (p \<in> fst ` set (ss_Positions state) \<and> expiredPartition cutoff p layout)) (ss_Positions state)"
    and k: "map_of positions p = Some k" and canonical: "scan_rows_canonical st s'"
    and after: "\<And>row. strings_HasPrefix row (scanRowPrefix p) \<Longrightarrow> cs_Get st row s' =
      (if row \<in> set (ss_StaleKeys state) \<or> (\<exists>p. p \<in> fst ` set (ss_Positions state) \<and> expiredPartition cutoff p layout \<and> strings_HasPrefix row (scanRowPrefix p))
       then None else cs_Get st row s)"
  shows "position_saved st s' p q \<longleftrightarrow> q = k"
proof -
  note active = active_position [OF assms(1-3) positions k]
  have same: "cs_Get st (scanRow p q) s' = cs_Get st (scanRow p q) s" if "row_scan (scanRow p q) = Some (p, q)" for q
  proof -
    have "scanRow p q \<notin> set (ss_StaleKeys state)" using scan_okD(4) [OF assms(1)] active(2) that by fastforce
    moreover have "\<not> (\<exists>p'. p' \<in> fst ` set (ss_Positions state) \<and> expiredPartition cutoff p' layout \<and> strings_HasPrefix (scanRow p q) (scanRowPrefix p'))"
      using active(1) scanRowPrefix_unique [OF row_prefixes(3)] by blast
    ultimately show ?thesis unfolding after [OF row_prefixes(3)] by (simp only: if_False disj_not1 simp_thms)
  qed
  have "q = k" if "position_saved st s' p q"
  proof -
    from that saved_canonical [OF canonical] same have "row_scan (scanRow p q) = Some (p, q)" "cs_Get st (scanRow p q) s \<noteq> None" by auto
    with scan_okD(1) [OF assms(1)] Keys [OF assms(3)] active(2) have "map_of (ss_Positions state) p = Some q" by blast
    with active(3) show ?thesis by simp
  qed
  moreover have "position_saved st s' p k" using saved_canonical [OF canonical] same active(5,6) by auto
  ultimately show ?thesis by blast
qed

lemma last_safe_listed:
  assumes "pf_objects prog = map (listed_item layout cutoff start now seen gaps active) (pa_Objects pg)"
    and "last_safe durable (pf_objects prog) k0 = (k, all)"
    and "\<And>o'. verdict_safe (judge layout cutoff start now seen gaps active o') \<or> ob_Identity o' \<in> set durable \<Longrightarrow> acc o'"
  shows "\<exists>n \<le> length (pa_Objects pg). k = (if n = 0 then k0 else ob_Key (pa_Objects pg ! (n - 1))) \<and> (\<forall>o' \<in> set (take n (pa_Objects pg)). acc o') \<and>
    (all \<longrightarrow> n = length (pa_Objects pg))"
proof -
  from last_safe_spec [of "pf_objects prog" durable k0] obtain n where n: "n \<le> length (pf_objects prog)"
    "k = (if n = 0 then k0 else lo_key (pf_objects prog ! (n - 1)))" "\<forall>o' \<in> set (take n (pf_objects prog)). lo_safe o' \<or> lo_identity o' \<in> set durable"
    "all \<longrightarrow> n = length (pf_objects prog)" by (auto simp: assms(2))
  have "\<forall>o' \<in> set (take n (pa_Objects pg)). acc o'" using n(3) assms(3) by (auto simp: assms(1) take_map listed_item_def)
  with n show ?thesis by (intro exI [of _ n]) (auto simp: assms(1) listed_item_def)
qed

text \<open>What the positions of a prefix are after a cycle, given what the scan rows were when its positions were staged.\<close>

lemma positions_after:
  fixes acc :: "object \<Rightarrow> bool"
  assumes "scan_ok (set (cs_Keys st s)) base layout state" "scan_rows_canonical st s" "ok s"
    and positions: "positions = filter (\<lambda>(p, _). \<not> (p \<in> fst ` set (ss_Positions state) \<and> expiredPartition cutoff p layout)) (ss_Positions state)"
    and listed: "listed opts feed cutoff start now seen gaps positions prog pg" "lists_under_prefix feed"
    and after: "\<And>row. strings_HasPrefix row (scanRowPrefix (pf_prefix prog)) \<Longrightarrow> cs_Get st row s' =
      stage_row t durable row prog (if row \<in> set (ss_StaleKeys state) \<or>
      (\<exists>p. p \<in> fst ` set (ss_Positions state) \<and> expiredPartition cutoff p layout \<and> strings_HasPrefix row (scanRowPrefix p)) then None else cs_Get st row s)"
    and canonical: "scan_rows_canonical st s'"
    and acc: "\<And>o'. verdict_safe (judge (op_Layout opts) cutoff start now seen gaps (pf_active prog) o') \<or> ob_Identity o' \<in> set durable \<Longrightarrow> acc o'"
  shows "passes_accounted st s s' acc prog pg"
proof -
  let ?p = "pf_prefix prog" and ?k0 = "pf_startAfter prog" and ?os = "pa_Objects pg"
  from listed(1) have pg: "fd_list feed ?p (truncatedStartAfter ?k0 (op_Layout opts)) (op_MaxObjects opts * 4) = Some pg" "pf_truncated prog = pa_Truncated pg"
    and k0: "pf_active prog \<Longrightarrow> map_of positions ?p = Some ?k0" "\<not> pf_active prog \<Longrightarrow> ?k0 = []"
    and os: "pf_objects prog = map (listed_item (op_Layout opts) cutoff start now seen gaps (pf_active prog)) ?os"
    by (auto simp: listed_def listed_page_def)
  note active = active_position [OF assms(1-3) positions k0(1)]
  obtain k all where l: "last_safe durable (pf_objects prog) ?k0 = (k, all)" by fastforce
  have "\<exists>n \<le> length ?os. k = (if n = 0 then ?k0 else ob_Key (?os ! (n - 1))) \<and> (\<forall>o' \<in> set (take n ?os). acc o') \<and> (all \<longrightarrow> n = length ?os)"
    by (rule last_safe_listed [OF os l]) (rule acc)
  then obtain n where n: "n \<le> length ?os" "k = (if n = 0 then ?k0 else ob_Key (?os ! (n - 1)))" "\<forall>o' \<in> set (take n ?os). acc o'" "all \<longrightarrow> n = length ?os"
    by (elim exE conjE)
  have kp: "k = [] \<or> strings_HasPrefix k ?p"
  proof (cases "n = 0")
    case True
    then have "k = ?k0" using n(2) by simp
    moreover have "?k0 = [] \<or> strings_HasPrefix ?k0 ?p" using k0(2) active(6) row_scan_scanRow [of ?p ?k0] by (metis option.distinct(1))
    ultimately show ?thesis by simp
  next
    case False
    with n(1) have "?os ! (n - 1) \<in> set ?os" by simp
    with False n(2) pg(1) listed(2) show ?thesis unfolding lists_under_prefix_def by metis
  qed
  have start: "if pf_active prog then position_saved st s ?p ?k0 else ?k0 = []" using k0(2) active(4) by auto
  show ?thesis
  proof (cases "all \<and> \<not> pf_truncated prog")
    case True
    then have "cs_Get st (scanRow ?p q) s' = None" for q using after [OF row_prefixes(3)] l by (simp add: stage_row_def)
    then show ?thesis using start saved_canonical [OF canonical] n True pg(2) unfolding passes_accounted_def by auto
  next
    case False
    have "position_saved st s' ?p q \<longleftrightarrow> q = k" for q
    proof (cases "k \<noteq> ?k0 \<or> \<not> pf_active prog")
      case True
      with False have "cs_Get st (scanRow ?p q) s' = (if scanRow ?p q = scanRow ?p k then Some t else None)" for q
        unfolding after [OF row_prefixes(3)] stage_row_def l by (auto simp del: disj_not1)
      then show ?thesis using saved_canonical [OF canonical] row_scan_scanRow [of ?p k] kp by (metis option.distinct(1) option.sel prod.inject)
    next
      case inactive: False
      have "cs_Get st row s' = (if row \<in> set (ss_StaleKeys state) \<or>
          (\<exists>p. p \<in> fst ` set (ss_Positions state) \<and> expiredPartition cutoff p layout \<and> strings_HasPrefix row (scanRowPrefix p)) then None else cs_Get st row s)"
        if "strings_HasPrefix row (scanRowPrefix ?p)" for row using after [OF that] that l inactive False by (simp add: stage_row_def)
      with inactive show ?thesis using kept_position [OF assms(1-3) positions k0(1) canonical] by blast
    qed
    then have "\<forall>q. position_saved st s' ?p q \<longrightarrow> (\<exists>n \<le> length ?os. q = (if n = 0 then ?k0 else ob_Key (?os ! (n - 1))) \<and> (\<forall>o' \<in> set (take n ?os). acc o'))"
      "position_saved st s' ?p k" using n(1-3) by blast+
    then show ?thesis using start unfolding passes_accounted_def by blast
  qed
qed

lemma stage_row_source:
  "stage_row now durable row prog x \<noteq> None \<Longrightarrow> stage_row now durable row prog x = x \<or> (\<exists>p k. row = scanRow p k)"
  by (auto simp: stage_row_def split: prod.splits if_splits)

lemma fold_stage_source:
  "fold (stage_row now durable row) progs x \<noteq> None \<Longrightarrow> x \<noteq> None \<or> (\<exists>p k. row = scanRow p k)"
proof (induction progs arbitrary: x)
  case (Cons prog progs)
  from Cons.prems Cons.IH [of "stage_row now durable row prog x"] stage_row_source [of now durable row prog x] show ?case by auto
qed simp

lemma fold_stage_other:
  "\<not> strings_HasPrefix row scanPrefix \<Longrightarrow> fold (stage_row now durable row) progs x = x"
  using scanRowPrefix_scan by (induction progs arbitrary: x) (auto simp: stage_row_def)

text \<open>The cycle, from the rows at its start to those after its batch was applied.\<close>

lemma cycle_accounts:
  assumes "ok s" "scan_rows_canonical st s" "lists_under_prefix feed"
    and run: "run_cycle opts feed st s cutoff cursor = Inr r"
    and after: "\<And>row. cs_Get st row s' = view st s (cy_batch (rp_cycle r)) row"
  shows "scan_rows_canonical st s' \<and> (\<forall>prog \<in> set (en_prefixes (rp_listing r)). \<exists>pg.
    fd_list feed (pf_prefix prog) (truncatedStartAfter (pf_startAfter prog) (op_Layout opts)) (op_MaxObjects opts * 4) = Some pg \<and>
    passes_accounted st s s' (accounted st s s' (op_Layout opts) cutoff (admission_start cutoff (cursor - op_Lookback opts)) (fd_now feed) (pf_active prog) r) prog pg)"
proof -
  let ?start = "admission_start cutoff (cursor - op_Lookback opts)" and ?now = "fd_now feed" and ?layout = "op_Layout opts"
  let ?seen0 = "{i. has_row st s (\<lambda>row. row_seen row = Some i)}"
  from run obtain state gaps seen positions c0 rs c1 listing n c2 where parts:
    "loadScanState st s (op_Prefix opts) ?layout = Inr state" "loadGaps st s = Inr gaps" "seenKeys st s = Inr seen"
    "start_cycle opts st s cutoff state gaps seen cursor = (positions, c0)"
    "retry_gaps opts feed st s cutoff gaps \<lparr>rs_deferred = 0, rs_expired = 0, rs_retried = 0, rs_exhausted = False\<rparr> c0 = (rs, c1)"
    "enumerate' opts feed cutoff ?start ?now (cy_seen c1) (cy_gaps c1) positions = Inr listing"
    "try_candidates opts feed st s (rs_exhausted rs)
         (take (nat (min (int (length (en_candidates listing))) (cy_remaining c1))) (en_candidates listing)) c1 = (n, c2)"
    and r: "rp_listing r = listing" "cy_batch (rp_cycle r) = finish_batch opts st s ?now cursor listing c2" "cy_commits (rp_cycle r) = cy_commits c2"
    by (rule run_cycle_parts) auto
  have scan: "scan_ok (set (cs_Keys st s)) (op_Prefix opts) ?layout state" using parts(1) by (rule loadScanState_ok)
  have gaps: "distinct (map gp_Identity gaps)" "\<forall>gap \<in> set gaps. has_row st s (\<lambda>row. row_gap row = Some (gp_Identity gap))"
    using loadGaps_ok [OF parts(2)] by auto
  have "set seen \<subseteq> ?seen0" using seen_loop_ok [OF parts(3) [unfolded seenKeys_def]] Keys [OF assms(1)] by (fastforce simp: has_row_def)
  note start = start_cycle_ok [OF assms(1) scan gaps(2) parts(4) this]
  define v where "v = (\<lambda>row. if row \<in> set (ss_StaleKeys state) \<or>
      (\<exists>p. p \<in> fst ` set (ss_Positions state) \<and> expiredPartition cutoff p ?layout \<and> strings_HasPrefix row (scanRowPrefix p)) then None else cs_Get st row s)"
  have c0: "cycle_ok st s v ?seen0 c0" "cy_durable c0 = []" using start by (auto simp: v_def)
  then have c1: "cycle_ok st s v ?seen0 c1" using retry_gaps_ok [OF assms(1) c0(1) gaps(1) _ parts(5)] by simp
  then have c2: "cycle_ok st s v ?seen0 c2" "\<And>i. settled c1 i \<Longrightarrow> settled c2 i" using try_candidates_ok [OF assms(1) c1 parts(7)] by auto
  then have ok2: "batch_ok (cy_batch c2)" by (simp add: cycle_ok_def)
  have rows: "cs_Get st row s' = fold (stage_row ?now (cy_durable c2) row) (en_prefixes listing) (view st s (cy_batch c2) row)"
    if "strings_HasPrefix row gapPrefix \<or> strings_HasPrefix row scanPrefix" for row
    using view_finish [OF assms(1) ok2] that row_kinds unfolding after r(2) by blast
  have scan_rows: "cs_Get st row s' = fold (stage_row ?now (cy_durable c2) row) (en_prefixes listing) (v row)" if "strings_HasPrefix row scanPrefix" for row
    using rows [of row] c2(1) that unfolding cycle_ok_def by simp
  have canonical: "scan_rows_canonical st s'"
    unfolding scan_rows_canonical_def
  proof (intro allI impI)
    fix row p k assume a: "cs_Get st row s' \<noteq> None" "row_scan row = Some (p, k)"
    with scan_rows row_scan_prefix fold_stage_source have "v row \<noteq> None \<or> (\<exists>p k. row = scanRow p k)" by metis
    then show "row = scanRow p k"
      using a(2) assms(2) row_scan_scanRow unfolding scan_rows_canonical_def v_def by (metis option.distinct(1) option.sel prod.inject)
  qed
  have kept: "i \<in> fst ` set (cy_commits (rp_cycle r)) \<or> has_row st s' (marks i)" if "settled c2 i" for i
  proof (cases "map_of (cy_gaps c2) i")
    case (Some gap)
    with c2(1) obtain row where "view st s (cy_batch c2) row \<noteq> None" "marks i row" unfolding cycle_ok_def by metis
    moreover from this(2) have "strings_HasPrefix row gapPrefix" by (rule marks_prefix)
    ultimately have "cs_Get st row s' \<noteq> None" using rows [of row] fold_stage_other row_kinds(1) by metis
    with \<open>marks i row\<close> show ?thesis by (auto simp: has_row_def)
  qed (use that r(3) in \<open>simp add: settled_def\<close>)
  have "\<exists>pg. fd_list feed (pf_prefix prog) (truncatedStartAfter (pf_startAfter prog) ?layout) (op_MaxObjects opts * 4) = Some pg \<and>
    passes_accounted st s s' (accounted st s s' ?layout cutoff ?start ?now (pf_active prog) r) prog pg" if prog: "prog \<in> set (en_prefixes listing)" for prog
  proof -
    from enumerate_spec [OF parts(6) prog] obtain pg where pg: "listed opts feed cutoff ?start ?now (cy_seen c1) (cy_gaps c1) positions prog pg" by blast
    have same: "q = prog" if "q \<in> set (en_prefixes listing)" "pf_prefix q = pf_prefix prog" for q
      using enumerate_spec [OF parts(6) that(1)] pg that(2) listed_unique by metis
    have staged: "cs_Get st row s' = stage_row ?now (cy_durable c2) row prog (v row)" if "strings_HasPrefix row (scanRowPrefix (pf_prefix prog))" for row
      using scan_rows [OF scanRowPrefix_scan [OF that]] fold_stage_row [OF same that] prog by simp
    have safe: "accounted st s s' ?layout cutoff ?start ?now (pf_active prog) r o'"
      if "verdict_safe (judge ?layout cutoff ?start ?now (cy_seen c1) (cy_gaps c1) (pf_active prog) o') \<or> ob_Identity o' \<in> set (cy_durable c2)" for o'
      by (rule safe_accounted [OF that _ _ c2(2) _ kept]) (use c1 c2(1) in \<open>simp_all add: cycle_ok_def\<close>)
    have "passes_accounted st s s' (accounted st s s' ?layout cutoff ?start ?now (pf_active prog) r) prog pg"
      by (rule positions_after [OF scan assms(2,1) conjunct2 [OF conjunct2 [OF conjunct2 [OF conjunct2 [OF start]]]] pg assms(3)
            staged [unfolded v_def] canonical safe])
    with pg show ?thesis by (auto simp: listed_def listed_page_def)
  qed
  with canonical r(1) show ?thesis by blast
qed

lemma collect_from_success:
  assumes "ok s" "run_state (collect_from opts feed st cutoff cursor) s = ((None, Some r), s')"
  shows "run_cycle opts feed st s cutoff cursor = Inr r" "cs_Get st row s' = view st s (cy_batch (rp_cycle r)) row"
proof -
  from assms(2) show run: "run_cycle opts feed st s cutoff cursor = Inr r"
    by (auto simp: collect_from_def State_Monad.bind_def State_Monad.get_def State_Monad.return_def split: sum.splits prod.splits)
  with assms(2) have b: "run_state (batch_apply st (cy_batch (rp_cycle r))) s = (None, s')"
    by (auto simp: collect_from_def State_Monad.bind_def State_Monad.get_def State_Monad.return_def split: prod.splits)
  from UpdateCheckpointBatch_spec [OF assms(1), of "cb_updates (cy_batch (rp_cycle r))" "cb_deletes (cy_batch (rp_cycle r))"] b
  show "cs_Get st row s' = view st s (cy_batch (rp_cycle r)) row" by (simp add: batch_apply_def view_def)
qed

end

text \<open>The bounds of a cycle: the absolute one, and the one its listings start from.\<close>

definition cycle_cutoff :: "Options \<Rightarrow> 'a feed \<Rightarrow> gotime" where
  "cycle_cutoff opts feed = newHorizonAdmission (fd_now feed) (op_LogMaxRecordAge opts)"

definition cycle_from :: "Options \<Rightarrow> 'a feed \<Rightarrow> 's CheckpointStore \<Rightarrow> 's \<Rightarrow> gotime" where
  "cycle_from opts feed cp s = admission_start (cycle_cutoff opts feed) (cycle_cursor opts (fd_now feed) (cs_Get cp cursorKey s))"

definition cycle_start :: "Options \<Rightarrow> 'a feed \<Rightarrow> 's CheckpointStore \<Rightarrow> 's \<Rightarrow> gotime" where
  "cycle_start opts feed cp s = admission_start (cycle_cutoff opts feed) (cycle_from opts feed cp s - op_Lookback opts)"

text \<open>Moving the cursor to the horizon changes no row of a cycle.\<close>

lemma Collect_success:
  assumes "checkpoint_store cp ok" "ok s" "run_state (Collect opts feed cp) s = ((None, Some r), s')"
  obtains s1 where "ok s1" "\<And>row. row \<noteq> cursorKey \<Longrightarrow> cs_Get cp row s1 = cs_Get cp row s"
    "run_state (collect_from opts feed cp (cycle_cutoff opts feed) (cycle_from opts feed cp s)) s1 = ((None, Some r), s')"
proof -
  let ?cursor = "cycle_cursor opts (fd_now feed) (cs_Get cp cursorKey s)"
  show thesis
  proof (cases "?cursor < cycle_from opts feed cp s")
    case True
    obtain e s1 where e: "run_state (cs_Set cp cursorKey (cycle_from opts feed cp s)) s = (e, s1)" by fastforce
    then have s1: "s1 = after (cs_Set cp cursorKey (cycle_from opts feed cp s)) s" by simp
    from assms(3) True e have "e = None" "run_state (collect_from opts feed cp (cycle_cutoff opts feed) (cycle_from opts feed cp s)) s1 = ((None, Some r), s')"
      by (auto simp: Collect_def cycle_from_def cycle_cutoff_def Let_def State_Monad.bind_def State_Monad.get_def State_Monad.return_def split: option.splits)
    with assms(1,2) show thesis unfolding s1 by (intro that) (auto simp: checkpoint_store.ok_Set checkpoint_store.Get_Set)
  next
    case False
    then have "cycle_from opts feed cp s = ?cursor" by (auto simp: cycle_from_def admission_start_def admission_allows_def split: if_splits)
    with assms(2,3) False show thesis
      by (intro that [of s]) (auto simp: Collect_def cycle_from_def cycle_cutoff_def Let_def State_Monad.bind_def State_Monad.get_def)
  qed
qed

lemma has_row_cong: "(\<And>row. P row \<Longrightarrow> cs_Get cp row s1 = cs_Get cp row s) \<Longrightarrow> has_row cp s1 P = has_row cp s P"
  unfolding has_row_def by metis

text \<open>C5. The scan position that a successful cycle saves for a prefix never passes an object that is not accounted for: it is the
  position the listing was continued from, or the key of the nth object of the page, and every object up to there is not one of
  the feed or below its bounds, was remembered as ingested before, was committed in this cycle, or has a gap row in the state that was saved
  with the position. A prefix without a saved position was listed to its end with all of its objects accounted for. The cycle keeps the
  canonical form of the scan rows. The backend is assumed to list keys under the prefix it is asked for.\<close>

theorem scan_never_passes_unaccounted:
  assumes "checkpoint_store cp ok" "ok s" "scan_rows_canonical cp s" "lists_under_prefix feed"
    and "run_state (Collect opts feed cp) s = ((None, Some r), s')"
  shows "scan_rows_canonical cp s' \<and> (\<forall>prog \<in> set (en_prefixes (rp_listing r)). \<exists>pg.
    fd_list feed (pf_prefix prog) (truncatedStartAfter (pf_startAfter prog) (op_Layout opts)) (op_MaxObjects opts * 4) = Some pg \<and>
    passes_accounted cp s s' (accounted cp s s' (op_Layout opts) (cycle_cutoff opts feed) (cycle_start opts feed cp s) (fd_now feed) (pf_active prog) r) prog pg)"
proof -
  let ?cutoff = "cycle_cutoff opts feed" and ?cursor = "cycle_from opts feed cp s"
  from assms(1,2,5) obtain s1 where s1: "ok s1" and same: "\<And>row. row \<noteq> cursorKey \<Longrightarrow> cs_Get cp row s1 = cs_Get cp row s"
    and run: "run_state (collect_from opts feed cp ?cutoff ?cursor) s1 = ((None, Some r), s')" by (rule Collect_success) blast
  have kinds: "row_scan row = Some pk \<Longrightarrow> row \<noteq> cursorKey" "row_seen row = Some i \<Longrightarrow> row \<noteq> cursorKey" for row pk i
    by (auto simp: row_scan_def row_seen_def cursorKey_def strings_CutPrefix_def strings_HasPrefix_def scanPrefix_def seenPrefix_def)
  have "scan_rows_canonical cp s1" using assms(3) same kinds(1) unfolding scan_rows_canonical_def by metis
  note cycle = checkpoint_store.cycle_accounts [OF assms(1) s1 this assms(4) checkpoint_store.collect_from_success(1) [OF assms(1) s1 run]
      checkpoint_store.collect_from_success(2) [OF assms(1) s1 run]]
  have "has_row cp s1 (\<lambda>row. row_seen row = Some i) = has_row cp s (\<lambda>row. row_seen row = Some i)" for i
    by (rule has_row_cong) (use same kinds(2) in blast)
  then have "accounted cp s1 s' = (accounted cp s s' :: _ \<Rightarrow> _ \<Rightarrow> _ \<Rightarrow> _ \<Rightarrow> _ \<Rightarrow> 'b report \<Rightarrow> _)"
    unfolding accounted_def by (intro ext) simp
  moreover have "position_saved cp s1 p k = position_saved cp s p k" for p k
    unfolding position_saved_def by (rule has_row_cong) (use same kinds(1) in blast)
  then have "passes_accounted cp s1 = passes_accounted cp s" unfolding passes_accounted_def by (intro ext) simp
  ultimately show ?thesis using cycle by (simp add: cycle_start_def)
qed

text \<open>A cycle on a flat feed with two objects: the first is committed, the second cannot be decompressed and is quarantined, and the page is truncated.\<close>

definition example_opts :: Options where
  "example_opts = with_defaults \<lparr>op_Prefix = [], op_Layout = LayoutFlat, op_Lookback = 0, op_InitialLookback = 0, op_LogMaxRecordAge = 0,
     op_MaxObjects = 0, op_MaxSeenKeys = 0, op_MaxObjectWireBytes = 0, op_MaxObjectDecompressedBytes = 0, op_MaxObjectRecords = 0,
     op_MaxCycleWireBytes = 0, op_MaxCycleDecompressedBytes = 0, op_MaxCycleRecords = 0\<rparr>"

definition example_feed :: "string feed" where
  "example_feed = \<lparr>fd_now = 2 * 3600 * second_ns,
     fd_list = (\<lambda>p after n. Some \<lparr>pa_Objects = map (\<lambda>d. \<lparr>ob_Key = p @ ''0001-01-01-00-0'' @ d @ ''-00.json'', ob_Identity = ''id'' @ d\<rparr>) [''1'', ''2''], pa_Truncated = True\<rparr>),
     fd_get = (\<lambda>i. Some (\<lambda>cmp wl bl. \<lparr>bd_open = (if i = ''id1'' then None else Some ReadFailed), bd_scans = [(''{}'', 2, 2)],
       bd_decompressed = 2, bd_wire = 2, bd_err = None\<rparr>)),
     fd_prepare = (\<lambda>line. \<lparr>pp_record = Some line, pp_err = False, pp_decode = False, pp_invalid = False\<rparr>),
     fd_canceled = (\<lambda>i. False)\<rparr>"

lemma example_cycle:
  "\<exists>r s'. run_state (Collect example_opts example_feed memoryStore) [] = ((None, Some r), s') \<and>
     length (en_prefixes (rp_listing r)) = 1 \<and> map fst (cy_commits (rp_cycle r)) = [''id1'']"
proof -
  have "case run_state (Collect example_opts example_feed memoryStore) [] of
      ((None, Some r), s') \<Rightarrow> length (en_prefixes (rp_listing r)) = 1 \<and> map fst (cy_commits (rp_cycle r)) = [''id1''] | _ \<Rightarrow> False"
    by code_simp
  then show ?thesis by (auto split: prod.splits option.splits)
qed

theorem scan_never_passes_unaccounted_witness:
  "\<exists>r s'. run_state (Collect example_opts example_feed memoryStore) [] = ((None, Some r), s') \<and>
     length (en_prefixes (rp_listing r)) = 1 \<and> map fst (cy_commits (rp_cycle r)) = [''id1''] \<and>
     (\<forall>prog \<in> set (en_prefixes (rp_listing r)). \<exists>pg. passes_accounted memoryStore [] s'
        (accounted memoryStore [] s' (op_Layout example_opts) (cycle_cutoff example_opts example_feed) (cycle_start example_opts example_feed memoryStore [])
           (fd_now example_feed) (pf_active prog) r) prog pg)"
proof -
  obtain r s' where run: "run_state (Collect example_opts example_feed memoryStore) [] = ((None, Some r), s')"
    "length (en_prefixes (rp_listing r)) = 1" "map fst (cy_commits (rp_cycle r)) = [''id1'']"
    using example_cycle by (elim exE conjE) (rule that)
  have "scan_rows_canonical memoryStore []" by (simp add: scan_rows_canonical_def memoryStore_def memory_Get_def)
  moreover have "lists_under_prefix example_feed" by (auto simp: lists_under_prefix_def example_feed_def)
  ultimately show ?thesis
    using scan_never_passes_unaccounted [OF memory.checkpoint_store_axioms _ _ _ run(1)] run by auto
qed

end
