(* ===== verification/Object_Work.thy ===== *)
theory Object_Work
  imports Object_Safety
begin

text \<open>
  The work of an object-store cycle: an object is committed whole or not at all, within the budgets of object and cycle; the remembered
  identities and the attempts of a cycle are bounded; the retry delay of a gap doubles up to an hour; and the rows of a cycle are read
  back as what they stand for.
\<close>

section \<open>Committed whole or not at all\<close>

text \<open>A preparation that follows the contract of a signal: which record goes with which error.\<close>

definition prepared_ok :: "'a prepared \<Rightarrow> bool" where
  "prepared_ok p \<longleftrightarrow> \<not> (pp_decode p \<and> pp_invalid p) \<and>
     (if pp_decode p then pp_record p = None else pp_record p \<noteq> None \<and> (pp_invalid p \<or> \<not> pp_err p))"

definition row_action :: "'a prepared \<Rightarrow> ('a \<times> bool) option" where
  "row_action p = (if pp_decode p then None else map_option (\<lambda>r. (r, \<not> pp_invalid p)) (pp_record p))"

lemma prepare_rows_spec:
  "prepare_rows prepare lines = Inr (as, bad, sem) \<Longrightarrow>
    (\<forall>line \<in> set lines. prepared_ok (prepare line)) \<and> as = List.map_filter (\<lambda>line. row_action (prepare line)) lines \<and>
    bad = int (length (filter (\<lambda>line. pp_decode (prepare line)) lines)) \<and> sem = int (length (filter (\<lambda>line. pp_invalid (prepare line)) lines))"
proof (induction lines arbitrary: as bad sem)
  case (Cons line lines)
  from Cons.prems obtain r where r: "prepare_rows prepare lines = Inr r"
    by (auto simp: Let_def split: if_splits sum.splits option.splits)
  obtain as' bad' sem' where r': "r = (as', bad', sem')" by (rule prod_cases3)
  from Cons.IH [OF r [unfolded r']] Cons.prems r r' show ?case
    by (auto simp: Let_def map_filter_simps prepared_ok_def row_action_def split: if_splits option.splits)
qed (simp add: map_filter_simps)

abbreviation rows_of :: "(string \<times> int \<times> int) list \<Rightarrow> string list" where
  "rows_of scans \<equiv> filter (\<lambda>line. strings_TrimSpace line \<noteq> []) (map fst scans)"

lemma scan_lines_spec:
  "scan_lines byteLimit byteKind recordLimit recordKind scans n staged = (result, Inr lines) \<Longrightarrow> 0 \<le> n \<Longrightarrow> n \<le> recordLimit \<Longrightarrow>
    lines = staged @ rows_of scans \<and> ir_rows result = n + int (length (rows_of scans)) \<and> ir_rows result \<le> recordLimit"
proof (induction scans arbitrary: n staged)
  case (Cons scan scans)
  obtain line dec wire where "scan = (line, dec, wire)" by (rule prod_cases3)
  with Cons.prems Cons.IH [of "n + 1" "staged @ [line]"] Cons.IH [of n staged] show ?case by (auto simp: Let_def split: if_splits)
qed auto

text \<open>What an object that was ingested was: read to its end within the limits, every row that is not blank prepared according to
  the contract, the actions in the order of the rows, and at least one row accepted unless the object has no row.\<close>

definition read_whole :: "Options \<Rightarrow> 'a feed \<Rightarrow> string \<Rightarrow> compression \<Rightarrow> ingestLimits \<Rightarrow> ingestResult \<Rightarrow> ('a \<times> bool) list \<Rightarrow> bool" where
  "read_whole opts feed identity cmp lim result rows \<longleftrightarrow>
     (\<exists>read b. fd_get feed identity = Some read \<and>
        b = read cmp (min (op_MaxObjectWireBytes opts) (li_wireBytes lim)) (min (op_MaxObjectDecompressedBytes opts) (li_decompressedBytes lim)) \<and>
        bd_open b = None \<and> bd_err b = None \<and> \<not> fd_canceled feed identity \<and>
        bd_wire b \<le> min (op_MaxObjectWireBytes opts) (li_wireBytes lim) \<and>
        bd_decompressed b \<le> min (op_MaxObjectDecompressedBytes opts) (li_decompressedBytes lim) \<and>
        ir_rows result = int (length (rows_of (bd_scans b))) \<and> ir_rows result \<le> min (op_MaxObjectRecords opts) (li_records lim) \<and>
        (\<forall>line \<in> set (rows_of (bd_scans b)). prepared_ok (fd_prepare feed line)) \<and>
        rows = List.map_filter (\<lambda>line. row_action (fd_prepare feed line)) (rows_of (bd_scans b)) \<and>
        ir_acceptedRecords result = int (length (filter snd rows)) \<and>
        (rows_of (bd_scans b) \<noteq> [] \<longrightarrow> filter snd rows \<noteq> []))"

lemma lowerLimit_min: "fst (lowerLimit object' cycle objectKind cycleKind) = min object' cycle"
  by (simp add: lowerLimit_def min_def)

lemma commit_rows_spec:
  assumes "commit_rows feed identity staged result = (result', None, rows)"
  shows "\<not> fd_canceled feed identity" "\<forall>line \<in> set staged. prepared_ok (fd_prepare feed line)"
    "rows = List.map_filter (\<lambda>line. row_action (fd_prepare feed line)) staged" "result' = result\<lparr>ir_acceptedRecords := accepted_rows rows\<rparr>"
    "staged \<noteq> [] \<Longrightarrow> filter snd rows \<noteq> []"
proof -
  from assms obtain bad sem where p: "prepare_rows (fd_prepare feed) staged = Inr (rows, bad, sem)" and c: "\<not> fd_canceled feed identity"
    and some: "\<not> (accepted_rows rows = 0 \<and> 0 < bad + sem)" and r: "result' = result\<lparr>ir_acceptedRecords := accepted_rows rows\<rparr>"
    by (auto simp: commit_rows_def split: sum.splits prod.splits if_splits)
  note spec = prepare_rows_spec [OF p]
  show "\<not> fd_canceled feed identity" "\<forall>line \<in> set staged. prepared_ok (fd_prepare feed line)"
    "rows = List.map_filter (\<lambda>line. row_action (fd_prepare feed line)) staged" "result' = result\<lparr>ir_acceptedRecords := accepted_rows rows\<rparr>"
    using spec c r by auto
  assume "staged \<noteq> []"
  then obtain line where line: "line \<in> set staged" by (meson list.set_sel(1))
  show "filter snd rows \<noteq> []"
  proof
    assume none: "filter snd rows = []"
    then have "bad + sem \<le> 0" using some by (simp add: accepted_rows_def)
    with spec have "int (length (filter (\<lambda>line. pp_decode (fd_prepare feed line)) staged)) + int (length (filter (\<lambda>line. pp_invalid (fd_prepare feed line)) staged)) \<le> 0"
      by simp
    then have "length (filter (\<lambda>line. pp_decode (fd_prepare feed line)) staged) = 0" "length (filter (\<lambda>line. pp_invalid (fd_prepare feed line)) staged) = 0"
      by linarith+
    with line have "\<not> pp_decode (fd_prepare feed line)" "\<not> pp_invalid (fd_prepare feed line)" by (auto simp: filter_empty_conv)
    moreover have "prepared_ok (fd_prepare feed line)" using spec line by blast
    ultimately obtain r where "row_action (fd_prepare feed line) = Some (r, True)" by (auto simp: prepared_ok_def row_action_def)
    with spec line have "(r, True) \<in> set rows" by (force simp: List.map_filter_def)
    with none show False by (auto simp: filter_empty_conv)
  qed
qed

lemma ingest_failed_commits_nothing:
  assumes "ingest opts feed identity cmp lim = (result, Some e, rows)"
  shows "rows = []"
proof -
  have "commit_rows feed i staged r = (result, Some e, rows) \<Longrightarrow> rows = []" for i staged r
    by (auto simp: commit_rows_def split: sum.splits prod.splits if_splits)
  with assms show ?thesis
    unfolding ingest_def Let_def by (auto split: option.splits prod.splits sum.splits if_splits)
qed

lemma ingest_success:
  assumes "ingest opts feed identity cmp lim = (result, None, rows)" "0 \<le> min (op_MaxObjectRecords opts) (li_records lim)"
  shows "read_whole opts feed identity cmp lim result rows"
proof -
  let ?wl = "min (op_MaxObjectWireBytes opts) (li_wireBytes lim)" and ?bl = "min (op_MaxObjectDecompressedBytes opts) (li_decompressedBytes lim)"
    and ?rl = "min (op_MaxObjectRecords opts) (li_records lim)"
  obtain wk bk rk where kinds: "lowerLimit (op_MaxObjectWireBytes opts) (li_wireBytes lim) ObjectWireBytes CycleWireBytes = (?wl, wk)"
    "lowerLimit (op_MaxObjectDecompressedBytes opts) (li_decompressedBytes lim) ObjectBytes CycleBytes = (?bl, bk)"
    "lowerLimit (op_MaxObjectRecords opts) (li_records lim) ObjectRecords CycleRecords = (?rl, rk)"
    using lowerLimit_min by (metis prod.collapse)
  from assms(1) obtain read where get: "fd_get feed identity = Some read" by (auto simp: ingest_def Let_def split: option.splits)
  define b where "b = read cmp ?wl ?bl"
  from assms(1) get kinds obtain r staged where "bd_open b = None" "scan_lines ?bl bk ?rl rk (bd_scans b) 0 [] = (r, Inr staged)"
    and rest: "bd_decompressed b \<le> ?bl" "bd_err b = None" "bd_wire b \<le> ?wl"
      "commit_rows feed identity staged (r\<lparr>ir_wireBytes := bd_wire b, ir_decompressedBytes := bd_decompressed b\<rparr>) = (result, None, rows)"
    unfolding ingest_def Let_def b_def by (auto simp: not_less split: option.splits prod.splits sum.splits if_splits)
  moreover from this(2) scan_lines_spec [of ?bl bk ?rl rk "bd_scans b" 0 "[]" r staged] assms(2)
  have "staged = rows_of (bd_scans b)" "ir_rows r = int (length (rows_of (bd_scans b)))" "ir_rows r \<le> ?rl" by auto
  moreover note commit_rows_spec [OF rest(4)]
  ultimately show ?thesis
    unfolding read_whole_def using get by (intro exI [of _ read] exI [of _ b]) (auto simp: b_def [symmetric] accepted_rows_def)
qed

text \<open>C13. An object is ingested whole or not at all: an attempt that reports an error has committed no row, and one that reports none has read the
  object to its end within the byte and row budgets of object and cycle, prepared every row that is not blank according to the
  contract of the signal, committed exactly their records in order, and accepted at least one unless the object has no row.\<close>

theorem object_ingested_whole_or_not:
  assumes "0 \<le> min (op_MaxObjectRecords opts) (li_records lim)"
  shows "case ingest opts feed identity cmp lim of
      (result, Some e, rows) \<Rightarrow> rows = []
    | (result, None, rows) \<Rightarrow> read_whole opts feed identity cmp lim result rows"
proof -
  obtain result err rows where i: "ingest opts feed identity cmp lim = (result, err, rows)" by (rule prod_cases3)
  with ingest_failed_commits_nothing [of opts feed identity cmp lim result _ rows] ingest_success [OF _ assms, of feed identity cmp result rows]
  show ?thesis by (cases err) auto
qed

theorem object_ingested_whole_or_not_witness:
  "\<exists>result. ingest example_opts example_feed ''id1'' compNone \<lparr>li_wireBytes = 100, li_decompressedBytes = 100, li_records = 100\<rparr> = (result, None, [(''{}'', True)]) \<and>
     read_whole example_opts example_feed ''id1'' compNone \<lparr>li_wireBytes = 100, li_decompressedBytes = 100, li_records = 100\<rparr> result [(''{}'', True)]"
proof -
  let ?lim = "\<lparr>li_wireBytes = 100, li_decompressedBytes = 100, li_records = 100\<rparr>"
  have "snd (ingest example_opts example_feed ''id1'' compNone ?lim) = (None, [(''{}'', True)])" by code_simp
  then obtain result where "ingest example_opts example_feed ''id1'' compNone ?lim = (result, None, [(''{}'', True)])" by (metis prod.collapse)
  moreover have "0 \<le> min (op_MaxObjectRecords example_opts) (li_records ?lim)" by code_simp
  ultimately show ?thesis using object_ingested_whole_or_not [of example_opts ?lim example_feed "''id1''" compNone] by simp
qed

section \<open>Bounds\<close>

lemma attempt_commits:
  assumes "attempt opts feed cp s o' cmp at c = (r, c')"
  shows "length (cy_commits c') \<le> Suc (length (cy_commits c)) \<and> cy_remaining c' = cy_remaining c"
  using assms unfolding attempt_def
  by (auto simp: Let_def attempt_failed_def attempt_done_def split: prod.splits option.splits ingest_error.splits if_splits)

lemma retry_gaps_commits:
  "retry_gaps opts feed cp s cutoff gaps r c = (r', c') \<Longrightarrow> 0 \<le> cy_remaining c \<Longrightarrow>
    0 \<le> cy_remaining c' \<and> int (length (cy_commits c')) + cy_remaining c' \<le> int (length (cy_commits c)) + cy_remaining c"
proof (induction gaps arbitrary: r c)
  case (Cons gap gaps)
  have step: ?case if "retry_gaps opts feed cp s cutoff gaps r1 d = (r', c')" "0 \<le> cy_remaining d"
      "int (length (cy_commits d)) + cy_remaining d \<le> int (length (cy_commits c)) + cy_remaining c" for r1 d
    using Cons.IH [OF that(1,2)] that(3) by linarith
  show ?case
  proof (cases "\<exists>at cmp ok' d r1. cy_remaining c \<noteq> 0 \<and>
      attempt opts feed cp s \<lparr>ob_Key = gp_Key gap, ob_Identity = gp_Identity gap\<rparr> cmp at (c\<lparr>cy_remaining := cy_remaining c - 1\<rparr>) = (ok', d) \<and>
      retry_gaps opts feed cp s cutoff gaps r1 d = (r', c')")
    case True
    then obtain at cmp ok' d r1 where a: "cy_remaining c \<noteq> 0" "retry_gaps opts feed cp s cutoff gaps r1 d = (r', c')"
      "attempt opts feed cp s \<lparr>ob_Key = gp_Key gap, ob_Identity = gp_Identity gap\<rparr> cmp at (c\<lparr>cy_remaining := cy_remaining c - 1\<rparr>) = (ok', d)" by blast
    from attempt_commits [OF a(3)] a(1) Cons.prems(2) show ?thesis by (intro step [OF a(2)]) auto
  next
    case False
    from Cons.prems(1) consider
        r1 where "retry_gaps opts feed cp s cutoff gaps r1 c = (r', c')"
      | r1 gs b where "retry_gaps opts feed cp s cutoff gaps r1 (c\<lparr>cy_gaps := gs, cy_batch := b\<rparr>) = (r', c')"
      using False by (auto simp: Let_def split: if_splits option.splits prod.splits)
    then show ?thesis using Cons.prems(2) step by cases simp_all
  qed
qed simp

lemma try_candidates_commits:
  "try_candidates opts feed cp s ex cands c = (n, c') \<Longrightarrow> length (cy_commits c') \<le> length (cy_commits c) + length cands"
proof (induction cands arbitrary: n c)
  case (Cons cand cands)
  show ?case
  proof (cases "ex \<or> \<not> canAttempt opts c")
    case False
    obtain r d where a: "attempt opts feed cp s (cd_obj cand) (cd_comp cand) (cd_at cand) c = (r, d)" by fastforce
    with Cons.prems False attempt_commits [OF a] Cons.IH [of d] show ?thesis by (cases r) (fastforce split: prod.splits)+
  qed (use Cons.prems in auto)
qed simp

lemma list_prefixes_length:
  "list_prefixes opts feed cutoff start now seen gaps positions ps en = Inr en' \<Longrightarrow> length (en_prefixes en') = length (en_prefixes en) + length ps"
proof (induction ps arbitrary: en)
  case (Cons p ps)
  then show ?case using list_objects_spec by (fastforce simp: Let_def split: option.splits sum.splits prod.splits)
qed simp

lemma add_current_length: "length out \<le> maxDayPrefixes \<Longrightarrow> length (add_current seen ps out) \<le> maxDayPrefixes"
  by (induction seen ps out rule: add_current.induct) auto

lemma enumerate_length:
  assumes "enumerate' opts feed cutoff start now seen gaps positions = Inr en"
  shows "length (en_prefixes en) \<le> maxDayPrefixes"
proof -
  let ?ps = "sort_Strings (add_current (map fst positions) (scanPrefixes (op_Layout opts) (op_Prefix opts) start now) (sort_Strings (map fst positions)))"
  let ?en = "\<lparr>en_candidates = [], en_prefixes = [], en_newestKeyAt = 0, en_unparsed = 0, en_already = 0, en_stale = 0, en_future = 0\<rparr>"
  from assms obtain e where "length positions \<le> maxDayPrefixes" and e: "list_prefixes opts feed cutoff start now seen gaps positions ?ps ?en = Inr e" "en_prefixes en = en_prefixes e"
    unfolding enumerate'_def listingPrefixes_def by (auto split: if_splits sum.splits)
  then have "length ?ps \<le> maxDayPrefixes" by (simp add: sort_Strings_def add_current_length)
  with list_prefixes_length [OF e(1)] e(2) show ?thesis by simp
qed

text \<open>The entries that pruning keeps are one per row.\<close>

lemma keep_entry_fst: "fst ` set (keep_entry k t es) = insert k (fst ` set es)"
proof (induction es)
  case (Cons e es)
  obtain k' t' where "e = (k', t')" by fastforce
  with Cons show ?case by (simp add: insert_commute)
qed simp

lemma keep_entry_distinct: "distinct (map fst es) \<Longrightarrow> distinct (map fst (keep_entry k t es))"
proof (induction es)
  case (Cons e es)
  obtain k' t' where e: "e = (k', t')" by fastforce
  have "k' \<notin> fst ` set (keep_entry k t es)" if "k' \<noteq> k" using Cons.prems that by (simp add: keep_entry_fst e)
  with Cons e show ?case by auto
qed simp

lemma fold_keep_fst:
  "fst ` set (fold (\<lambda>(k, t). keep_entry k t) us es) = fst ` set us \<union> fst ` set es \<and>
    (distinct (map fst es) \<longrightarrow> distinct (map fst (fold (\<lambda>(k, t). keep_entry k t) us es)))"
proof (induction us arbitrary: es)
  case (Cons u us)
  obtain k t where "u = (k, t)" by fastforce
  with Cons.IH [of "keep_entry k t es"] keep_entry_distinct [of es k t] show ?case by (simp add: keep_entry_fst)
qed simp

lemma card_rest:
  assumes "distinct (map fst es)" "0 \<le> m"
  shows "card (fst ` set es - set (if m < int (length es) then map fst (take (nat (int (length es) - m)) (go_sort lt es)) else [])) \<le> nat m"
proof (cases "m < int (length es)")
  case True
  let ?k = "nat (int (length es) - m)" and ?s = "map fst (go_sort lt es)"
  have s: "distinct ?s" "fst ` set es = set ?s" "length ?s = length es" using assms(1) by (simp_all add: distinct_map_go_sort)
  have "set ?s - set (take ?k ?s) \<subseteq> set (drop ?k ?s)" by (metis Diff_subset_conv Un_commute append_take_drop_id set_append subset_refl)
  then have "card (set ?s - set (take ?k ?s)) \<le> length (drop ?k ?s)" by (meson card_length card_mono finite_set order_trans)
  also have "\<dots> = nat m" using True assms(2) s(3) by simp
  finally have "card (set ?s - set (take ?k ?s)) \<le> nat m" .
  moreover have "(if m < int (length es) then map fst (take ?k (go_sort lt es)) else []) = take ?k ?s" using True by (simp add: take_map)
  ultimately show ?thesis by (simp only: s(2))
next
  case False
  have "card (fst ` set es) = length es" using assms(1) by (metis distinct_card length_map list.set_map)
  with False assms(2) show ?thesis by simp
qed

definition seen_count :: "(string \<Rightarrow> gotime option) \<Rightarrow> nat" where
  "seen_count v = card {row. strings_HasPrefix row seenPrefix \<and> v row \<noteq> None}"

context checkpoint_store
begin

lemma prune_bounds_seen:
  assumes "ok s" "batch_ok b" "0 \<le> op_MaxSeenKeys opts"
  shows "seen_count (view st s (stagePruneSeen opts st s cursor b)) \<le> nat (op_MaxSeenKeys opts)"
proof -
  define cut where "cut = cursor - 2 * op_Lookback opts"
  define rows where "rows = seen_rows st s"
  define old where "old = map fst (filter (\<lambda>(k, at). at < cut) rows)"
  define b1 where "b1 = fold batch_delete old b"
  define us where "us = filter (\<lambda>(k, at). strings_HasPrefix k seenPrefix) (cb_updates b1)"
  define fresh where "fresh = filter (\<lambda>(k, at). \<not> at < cut) rows"
  define entries where "entries = fold (\<lambda>(k, at). keep_entry k at) us fresh"
  define more where "more = (if op_MaxSeenKeys opts < int (length entries)
     then map fst (take (nat (int (length entries) - op_MaxSeenKeys opts)) (go_sort (\<lambda>x y. snd x < snd y) entries)) else [])"
  have del: "fold (\<lambda>(k, at). batch_delete k) es bb = fold batch_delete (map fst es) bb" for es :: "(string \<times> gotime) list" and bb
    by (induction es arbitrary: bb) auto
  have eq: "stagePruneSeen opts st s cursor b = fold batch_delete more b1"
    by (simp add: stagePruneSeen_def Let_def del more_def entries_def us_def fresh_def b1_def old_def rows_def cut_def)
  have ok1: "batch_ok b1" unfolding b1_def using assms(2) by (rule deletes_fold(3))
  have get: "map fst rows = filter (\<lambda>k. strings_HasPrefix k seenPrefix) (cs_Keys st s)" by (simp add: rows_def seen_rows_def comp_def)
  then have "distinct (map fst rows)" using Keys [OF assms(1)] by simp
  then have "distinct (map fst fresh)" unfolding fresh_def by (rule distinct_map_filter)
  then have entries: "distinct (map fst entries)" "fst ` set entries = fst ` set us \<union> fst ` set fresh" by (simp_all add: entries_def fold_keep_fst)
  have "row \<in> fst ` set entries - set more"
    if "strings_HasPrefix row seenPrefix" "view st s (fold batch_delete more b1) row \<noteq> None" for row
  proof -
    from that(2) have v: "row \<notin> set more" "view st s b1 row \<noteq> None" by (auto simp: view_deletes [OF ok1] split: if_splits)
    have "row \<in> fst ` set us \<or> row \<in> fst ` set fresh"
    proof (cases "map_of (cb_updates b1) row")
      case None
      with v(2) have "row \<notin> set (cb_deletes b1)" "cs_Get st row s \<noteq> None" by (auto simp: view_eq [OF ok1] split: if_splits)
      then have "row \<notin> set old" "row \<in> set (map fst rows)" using get that(1) Keys [OF assms(1)] by (auto simp: b1_def deletes_fold)
      then show ?thesis by (force simp: old_def fresh_def)
    next
      case (Some t)
      with that(1) have "(row, t) \<in> set us" by (simp add: us_def map_of_SomeD)
      then show ?thesis by force
    qed
    with v(1) entries(2) show ?thesis by blast
  qed
  then have "seen_count (view st s (stagePruneSeen opts st s cursor b)) \<le> card (fst ` set entries - set more)"
    unfolding seen_count_def eq by (intro card_mono) auto
  also have "\<dots> \<le> nat (op_MaxSeenKeys opts)" unfolding more_def by (rule card_rest [OF entries(1) assms(3)])
  finally show ?thesis .
qed

lemma finish_bounds_seen:
  assumes "ok s" "batch_ok (cy_batch c)" "0 \<le> op_MaxSeenKeys opts"
  shows "seen_count (view st s (finish_batch opts st s now cursor listing c)) \<le> nat (op_MaxSeenKeys opts)"
proof -
  define b where "b = (if cursor < cy_newest c then batch_set cursorKey (cy_newest c) (cy_batch c) else cy_batch c)"
  let ?p = "stagePruneSeen opts st s (cy_newest c) b"
  have b: "batch_ok b" using assms(2) by (simp add: b_def)
  then have p: "batch_ok ?p" by (rule conjunct1 [OF stagePruneSeen_ok])
  have "view st s (finish_batch opts st s now cursor listing c) row = view st s ?p row" if "strings_HasPrefix row seenPrefix" for row
    using view_stages [OF assms(1) p, of now "cy_durable c" "en_prefixes listing" row] fold_stage_other [of row] row_kinds(2) [of row] that
    by (auto simp: finish_batch_def Let_def b_def)
  then have "seen_count (view st s (finish_batch opts st s now cursor listing c)) = seen_count (view st s ?p)"
    unfolding seen_count_def by (metis (no_types, lifting))
  with prune_bounds_seen [OF assms(1) b assms(3)] show ?thesis by simp
qed

lemma cycle_batch_ok:
  assumes "ok s" "start_cycle opts st s cutoff state gaps seen cursor = (positions, c0)" "loadGaps st s = Inr gaps"
    and "loadScanState st s (op_Prefix opts) (op_Layout opts) = Inr state"
    and "retry_gaps opts feed st s cutoff gaps r c0 = (rs, c1)" "try_candidates opts feed st s ex cands c1 = (n, c2)"
  shows "batch_ok (cy_batch c2)"
proof -
  note gaps = loadGaps_ok [OF assms(3)]
  from start_cycle_ok [OF assms(1) loadScanState_ok [OF assms(4)] conjunct2 [OF gaps] assms(2) subset_refl]
  obtain v where c0: "cycle_ok st s v (set seen) c0" "cy_durable c0 = []" by blast
  have "cycle_ok st s v (set seen) c1" using retry_gaps_ok [OF assms(1) c0(1) conjunct1 [OF gaps] _ assms(5)] c0(2) by simp
  from try_candidates_ok [OF assms(1) this assms(6)] show ?thesis by (simp add: cycle_ok_def)
qed

lemma cycle_bounds:
  assumes "ok s" "run_cycle opts feed st s cutoff cursor = Inr r" "0 \<le> op_MaxObjects opts" "0 \<le> op_MaxSeenKeys opts"
  shows "length (cy_commits (rp_cycle r)) \<le> nat (op_MaxObjects opts)" "length (en_prefixes (rp_listing r)) \<le> maxDayPrefixes"
    "seen_count (view st s (cy_batch (rp_cycle r))) \<le> nat (op_MaxSeenKeys opts)"
proof -
  from assms(2) obtain state gaps seen positions c0 rs c1 listing n c2 where parts:
    "loadScanState st s (op_Prefix opts) (op_Layout opts) = Inr state" "loadGaps st s = Inr gaps"
    "start_cycle opts st s cutoff state gaps seen cursor = (positions, c0)"
    "retry_gaps opts feed st s cutoff gaps \<lparr>rs_deferred = 0, rs_expired = 0, rs_retried = 0, rs_exhausted = False\<rparr> c0 = (rs, c1)"
    "enumerate' opts feed cutoff (admission_start cutoff (cursor - op_Lookback opts)) (fd_now feed) (cy_seen c1) (cy_gaps c1) positions = Inr listing"
    "try_candidates opts feed st s (rs_exhausted rs)
         (take (nat (min (int (length (en_candidates listing))) (cy_remaining c1))) (en_candidates listing)) c1 = (n, c2)"
    and r: "rp_listing r = listing" "cy_batch (rp_cycle r) = finish_batch opts st s (fd_now feed) cursor listing c2" "cy_commits (rp_cycle r) = cy_commits c2"
    by (rule run_cycle_parts) auto
  have "cy_remaining c0 = op_MaxObjects opts" "cy_commits c0 = []" using parts(3) by (auto simp: start_cycle_def Let_def)
  with retry_gaps_commits [OF parts(4)] assms(3) have "0 \<le> cy_remaining c1" "int (length (cy_commits c1)) + cy_remaining c1 \<le> op_MaxObjects opts" by auto
  with try_candidates_commits [OF parts(6)] r(3) show "length (cy_commits (rp_cycle r)) \<le> nat (op_MaxObjects opts)" by auto
  show "length (en_prefixes (rp_listing r)) \<le> maxDayPrefixes" using enumerate_length [OF parts(5)] r(1) by simp
  show "seen_count (view st s (cy_batch (rp_cycle r))) \<le> nat (op_MaxSeenKeys opts)"
    unfolding r(2) by (rule finish_bounds_seen [OF assms(1) cycle_batch_ok [OF assms(1) parts(3,2,1,4,6)] assms(4)])
qed

end

lemma defaults_positive: "0 < op_MaxObjects (with_defaults opts)" "0 < op_MaxSeenKeys (with_defaults opts)"
  by (simp_all add: with_defaults_def or_default_def)

text \<open>C14. With the defaults applied, a successful cycle commits at most \<open>MaxObjects\<close> objects, lists at most fourteen prefixes, and leaves at most
  \<open>MaxSeenKeys\<close> remembered identities in the checkpoint namespace, however many it found there.\<close>

theorem cycle_work_bounded:
  assumes "checkpoint_store cp ok" "ok s" "opts = with_defaults base" "run_state (Collect opts feed cp) s = ((None, Some r), s')"
  shows "length (cy_commits (rp_cycle r)) \<le> nat (op_MaxObjects opts) \<and> length (en_prefixes (rp_listing r)) \<le> 14 \<and>
    seen_count (\<lambda>row. cs_Get cp row s') \<le> nat (op_MaxSeenKeys opts)"
proof -
  from assms(1,2,4) obtain s1 where s1: "ok s1"
    and run: "run_state (collect_from opts feed cp (cycle_cutoff opts feed) (cycle_from opts feed cp s)) s1 = ((None, Some r), s')"
    by (rule Collect_success) blast
  note cycle = checkpoint_store.collect_from_success [OF assms(1) s1 run]
  have "0 \<le> op_MaxObjects opts" "0 \<le> op_MaxSeenKeys opts" using defaults_positive [of base] assms(3) by auto
  note bounds = checkpoint_store.cycle_bounds [OF assms(1) s1 cycle(1) this]
  have "(\<lambda>row. cs_Get cp row s') = view cp s1 (cy_batch (rp_cycle r))" using cycle(2) by blast
  with bounds show ?thesis by (simp add: maxDayPrefixes_def)
qed

theorem cycle_work_bounded_witness:
  "\<exists>r s'. run_state (Collect example_opts example_feed memoryStore) [] = ((None, Some r), s') \<and> seen_count (\<lambda>row. cs_Get memoryStore row s') \<le> 5000"
proof -
  obtain r s' where run: "run_state (Collect example_opts example_feed memoryStore) [] = ((None, Some r), s')" using example_cycle by (elim exE conjE) (rule that)
  have "gomap_ok []" "nat (op_MaxSeenKeys example_opts) = 5000" by (simp_all add: example_opts_def with_defaults_def or_default_def)
  with cycle_work_bounded [OF memory.checkpoint_store_axioms _ example_opts_def run] run show ?thesis by auto
qed

section \<open>Retries and rows\<close>

lemma gap_retry_loop_exact: "gapRetryBase \<le> d \<Longrightarrow> gap_retry_loop n d = min gapRetryMax (d * 2 ^ n)"
proof (induction n arbitrary: d)
  case (Suc n)
  have "1 \<le> (2::int) ^ n" by simp
  moreover have "0 < d" using Suc.prems by (simp add: gapRetryBase_def second_ns_def)
  ultimately have grow: "d * 1 \<le> d * 2 ^ n" by (intro mult_left_mono) auto
  show ?case
  proof (cases "gapRetryMax div 2 \<le> d")
    case True
    with grow have "1800000000000 \<le> d * 2 ^ n" unfolding gapRetryMax_def second_ns_def by linarith
    then have "gapRetryMax \<le> d * 2 ^ n * 2" by (simp add: gapRetryMax_def second_ns_def)
    with True show ?thesis by (auto simp: min_def gapRetryMax_def second_ns_def)
  next
    case False
    then have "d < gapRetryMax" by (simp add: gapRetryMax_def second_ns_def)
    with Suc False show ?thesis by (simp add: mult.assoc gapRetryBase_def second_ns_def)
  qed
qed (auto simp: min_def)

text \<open>The delay of the nth retry of a gap: a minute, doubled with each further attempt, capped at an hour.\<close>

lemma gapRetryDelay_exact: "gapRetryDelay attempts = min gapRetryMax (gapRetryBase * 2 ^ nat (attempts - 1))"
  by (simp add: gapRetryDelay_def gap_retry_loop_exact)

end
