(* ===== verification/Object_Setup.thy ===== *)
theory Object_Setup
  imports Object_Work
begin

text \<open>
  Setting up an object-store collector: \<open>src/internal/collector/objectstore/scope.go\<close> (the checkpoint namespace of a feed),
  \<open>migration.go\<close> (the rows of the layout before it) and \<open>New\<close> of \<open>objectstore.go\<close>. Different feeds get namespaces neither of which reaches
  into the other, and the migration moves every recognised row and no other.
\<close>

section \<open>The namespace of a feed\<close>

record CheckpointScope =
  sc_Tailnet :: string
  sc_Provider :: string
  sc_Signal :: string
  sc_Feed :: string

definition feed_bytes :: "string list \<Rightarrow> string" where
  "feed_bytes parts = concat (map (\<lambda>part. PutUint64 (of_nat (length part)) @ part) parts)"

definition FeedID :: "string list \<Rightarrow> string" where
  "FeedID parts = hex_EncodeToString (take 12 (sha256 (feed_bytes parts)))"

definition scope_field :: "string \<Rightarrow> string \<Rightarrow> string option" where
  "scope_field name val =
     (if val = [] then Some (''objectstore: checkpoint scope '' @ name @ '' is required'')
      else if CHR ''/'' \<in> set val \<or> CHR 0x5C \<in> set val then Some (''objectstore: checkpoint scope '' @ name @ '' contains a path separator'')
      else None)"

fun scope_fields :: "(string \<times> string) list \<Rightarrow> string option" where
  "scope_fields [] = None"
| "scope_fields ((name, val) # fs) = (case scope_field name val of Some e \<Rightarrow> Some e | None \<Rightarrow> scope_fields fs)"

definition scope_Namespace :: "CheckpointScope \<Rightarrow> string + string" where
  "scope_Namespace s =
     (if sc_Tailnet s = [] then Inl ''objectstore: checkpoint scope tailnet is required''
      else case scope_fields [(''provider'', sc_Provider s), (''signal'', sc_Signal s), (''feed'', sc_Feed s)] of
        Some e \<Rightarrow> Inl e
      | None \<Rightarrow> Inr (''objectstore/v1/'' @ base64_Encode (sc_Tailnet s) @ ''/'' @ sc_Provider s @ ''/'' @ sc_Signal s @ ''/'' @ sc_Feed s))"

section \<open>Migration\<close>

definition legacyCursorKey :: string where "legacyCursorKey = ''objectstore.flowlogs.cursor''"
definition legacySeenPrefix :: string where "legacySeenPrefix = ''objectstore.flowlogs.seen/''"
definition legacyScanPrefix :: string where "legacyScanPrefix = ''objectstore.flowlogs.scan/''"
definition legacyGapPrefix :: string where "legacyGapPrefix = ''objectstore.flowlogs.gap/''"

definition decodeLegacyGapParts :: "string list \<Rightarrow> gotime \<Rightarrow> string + gapState" where
  "decodeLegacyGapParts parts firstFailed =
     (if length parts \<noteq> 4 then Inl ''invalid legacy gap checkpoint''
      else case strconv_ParseInt (parts ! 1) of
        None \<Rightarrow> Inl ''invalid legacy gap attempt count''
      | Some attempts \<Rightarrow>
          if attempts < 1 then Inl ''invalid legacy gap attempt count''
          else case strconv_ParseInt (parts ! 2) of
            None \<Rightarrow> Inl ''invalid legacy gap retry time''
          | Some nextUnix \<Rightarrow>
              (case base64_Decode (parts ! 3) of
                 None \<Rightarrow> Inl ''invalid legacy gap object identity''
               | Some key \<Rightarrow>
                   if key = [] then Inl ''invalid legacy gap object identity''
                   else let gap = \<lparr>gp_Identity = key, gp_Key = key, gp_FirstFailed = firstFailed, gp_NextAttempt = 0,
                                   gp_Attempts = attempts, gp_Quarantined = False\<rparr>
                        in if parts ! 0 = ''pending''
                           then (if nextUnix \<le> 0 then Inl ''legacy pending gap has no retry time''
                                 else Inr (gap\<lparr>gp_NextAttempt := time_of_Unix nextUnix\<rparr>))
                           else if parts ! 0 = ''quarantined''
                           then (if nextUnix \<noteq> 0 then Inl ''legacy quarantined gap has a retry time''
                                 else Inr (gap\<lparr>gp_Quarantined := True\<rparr>))
                           else Inl ''invalid legacy gap status''))"

definition decodeLegacyGapRow :: "string \<Rightarrow> gotime \<Rightarrow> string + gapState" where
  "decodeLegacyGapRow row firstFailed =
     (case strings_CutPrefix row legacyGapPrefix of
        None \<Rightarrow> Inl ''invalid legacy gap checkpoint''
      | Some encoded \<Rightarrow> decodeLegacyGapParts (strings_SplitN 4 (CHR ''/'') encoded) firstFailed)"

text \<open>The row a legacy row becomes: an error, nothing when it is not one, or its new name.\<close>

definition legacy_target :: "string \<Rightarrow> gotime \<Rightarrow> string + string option" where
  "legacy_target key val =
     (if key = legacyCursorKey then Inr (Some cursorKey)
      else case strings_CutPrefix key legacySeenPrefix of
        Some identity \<Rightarrow> if identity = [] then Inl ''invalid legacy seen checkpoint'' else Inr (Some (seenRow identity))
      | None \<Rightarrow>
          (case strings_CutPrefix key legacyScanPrefix of
             Some suffix' \<Rightarrow> if suffix' = [] then Inl ''invalid legacy scan checkpoint'' else Inr (Some (scanPrefix @ suffix'))
           | None \<Rightarrow>
               if strings_HasPrefix key legacyGapPrefix
               then (case decodeLegacyGapRow key val of Inl e \<Rightarrow> Inl e | Inr gap \<Rightarrow> Inr (Some (encodeGapRow gap)))
               else Inr None))"

definition migrateLegacyRow :: "'s CheckpointStore \<Rightarrow> 's \<Rightarrow> string \<Rightarrow> string \<Rightarrow> string + (string \<times> gotime) option" where
  "migrateLegacyRow cp s source legacyKey =
     (case cs_Get cp source s of
        None \<Rightarrow> Inl ''legacy checkpoint disappeared while migrating''
      | Some val \<Rightarrow>
          (case legacy_target legacyKey val of
             Inl e \<Rightarrow> Inl e
           | Inr None \<Rightarrow> Inr None
           | Inr (Some target) \<Rightarrow> Inr (Some (target, val))))"

fun migrate_loop :: "'s CheckpointStore \<Rightarrow> 's \<Rightarrow> string \<Rightarrow> string \<Rightarrow> string list \<Rightarrow> checkpointBatch \<Rightarrow> string + checkpointBatch" where
  "migrate_loop cp s legacyRoot canonicalRoot [] b = Inr b"
| "migrate_loop cp s legacyRoot canonicalRoot (source # sources) b =
     (case strings_CutPrefix source legacyRoot of
        None \<Rightarrow> migrate_loop cp s legacyRoot canonicalRoot sources b
      | Some legacyKey \<Rightarrow>
          (case migrateLegacyRow cp s source legacyKey of
             Inl e \<Rightarrow> Inl e
           | Inr None \<Rightarrow> migrate_loop cp s legacyRoot canonicalRoot sources b
           | Inr (Some (target, val)) \<Rightarrow>
               let b = (if cs_Get cp (canonicalRoot @ target) s = None then batch_set (canonicalRoot @ target) val b else b)
               in migrate_loop cp s legacyRoot canonicalRoot sources (b\<lparr>cb_deletes := cb_deletes b @ [source]\<rparr>)))"

definition migrateLegacyState :: "'s CheckpointStore \<Rightarrow> string \<Rightarrow> string \<Rightarrow> ('s, collect_error option) state" where
  "migrateLegacyState cp legacyNamespace canonicalNamespace = do {
     s \<leftarrow> State_Monad.get;
     case migrate_loop cp s (if legacyNamespace = [] then [] else legacyNamespace @ ''/'') (canonicalNamespace @ ''/'') (cs_Keys cp s) newCheckpointBatch of
       Inl e \<Rightarrow> State_Monad.return (Some (CollectText e))
     | Inr b \<Rightarrow>
         if cb_updates b = [] \<and> cb_deletes b = [] then State_Monad.return None
         else do { e \<leftarrow> UpdateCheckpointBatch cp (cb_updates b) (cb_deletes b); State_Monad.return (map_option CollectStore e) }
   }"

section \<open>New\<close>

text \<open>\<open>New\<close>: a missing backend or signal, the scope, the migration (flow only), the layout, the defaults and the namespaced store.\<close>

definition objectstore_New ::
  "bool \<Rightarrow> string option \<Rightarrow> 's CheckpointStore \<Rightarrow> Options \<Rightarrow> string \<Rightarrow> CheckpointScope \<Rightarrow> string \<Rightarrow> ('s, collect_error + Options \<times> 's CheckpointStore) state" where
  "objectstore_New hasBackend signal cp opts layout scope legacyNamespace =
     (if \<not> hasBackend then State_Monad.return (Inl (CollectText ''objectstore: backend is required''))
      else case signal of
        None \<Rightarrow> State_Monad.return (Inl (CollectText ''objectstore: signal processor is required''))
      | Some sig \<Rightarrow>
          (case scope_Namespace scope of
             Inl e \<Rightarrow> State_Monad.return (Inl (CollectText e))
           | Inr namespace \<Rightarrow>
               if sc_Signal scope \<noteq> sig then State_Monad.return (Inl (CollectText ''objectstore: checkpoint scope signal does not match processor signal''))
               else do {
                 e \<leftarrow> (if sig = ''flow'' then migrateLegacyState cp legacyNamespace namespace else State_Monad.return None);
                 case e of
                   Some err \<Rightarrow> State_Monad.return (Inl err)
                 | None \<Rightarrow>
                     (case parseLayout layout of
                        None \<Rightarrow> State_Monad.return (Inl (CollectText ''objectstore: layout is not supported''))
                      | Some l \<Rightarrow> State_Monad.return (Inr (with_defaults (opts\<lparr>op_Layout := l\<rparr>), Namespaced cp namespace)))
               }))"

section \<open>Namespaces of different feeds do not overlap\<close>

lemma scope_Namespace_Inr:
  assumes "scope_Namespace s = Inr ns"
  shows "sc_Tailnet s \<noteq> []" "CHR ''/'' \<notin> set (sc_Provider s)" "CHR ''/'' \<notin> set (sc_Signal s)" "CHR ''/'' \<notin> set (sc_Feed s)"
    "ns = ''objectstore/v1/'' @ base64_Encode (sc_Tailnet s) @ ''/'' @ sc_Provider s @ ''/'' @ sc_Signal s @ ''/'' @ sc_Feed s"
  using assms unfolding scope_Namespace_def by (auto simp: scope_field_def split: if_splits option.splits)

text \<open>C15. The checkpoint namespaces of two different scopes (tailnet, provider, signal, feed) never overlap: no row of the one is a row of the
  other, whatever the names are, as a path separator is refused in the parts that are written as they are.\<close>

theorem feed_namespaces_disjoint:
  assumes "scope_Namespace a = Inr p" "scope_Namespace b = Inr q" "a \<noteq> b"
  shows "p @ ''/'' @ x \<noteq> q @ ''/'' @ y"
proof
  assume eq: "p @ ''/'' @ x = q @ ''/'' @ y"
  note pa = scope_Namespace_Inr [OF assms(1)] and pb = scope_Namespace_Inr [OF assms(2)]
  have "base64_Encode (sc_Tailnet a) @ CHR ''/'' # (sc_Provider a @ CHR ''/'' # (sc_Signal a @ CHR ''/'' # (sc_Feed a @ CHR ''/'' # x))) =
      base64_Encode (sc_Tailnet b) @ CHR ''/'' # (sc_Provider b @ CHR ''/'' # (sc_Signal b @ CHR ''/'' # (sc_Feed b @ CHR ''/'' # y)))"
    using eq unfolding pa(5) pb(5) by simp
  from append_byte_inject [OF base64_no_slash [OF base64_Encode_word] base64_no_slash [OF base64_Encode_word] this]
  have t: "base64_Encode (sc_Tailnet a) = base64_Encode (sc_Tailnet b)"
    and r: "sc_Provider a @ CHR ''/'' # (sc_Signal a @ CHR ''/'' # (sc_Feed a @ CHR ''/'' # x)) =
      sc_Provider b @ CHR ''/'' # (sc_Signal b @ CHR ''/'' # (sc_Feed b @ CHR ''/'' # y))" by blast+
  from append_byte_inject [OF pa(2) pb(2) r] have "sc_Provider a = sc_Provider b"
    and r: "sc_Signal a @ CHR ''/'' # (sc_Feed a @ CHR ''/'' # x) = sc_Signal b @ CHR ''/'' # (sc_Feed b @ CHR ''/'' # y)" by blast+
  moreover from append_byte_inject [OF pa(3) pb(3) r] have "sc_Signal a = sc_Signal b"
    and r: "sc_Feed a @ CHR ''/'' # x = sc_Feed b @ CHR ''/'' # y" by blast+
  moreover from append_byte_inject [OF pa(4) pb(4) r] have "sc_Feed a = sc_Feed b" by blast
  moreover from t have "sc_Tailnet a = sc_Tailnet b" by (metis base64_roundtrip option.sel)
  ultimately have "a = b" by (cases a; cases b) simp
  with assms(3) show False by blast
qed

theorem feed_namespaces_disjoint_witness:
  "''objectstore/v1/dA/s3/flow/f'' @ ''/'' @ ''cursor'' \<noteq> ''objectstore/v1/dA/s3/audit/f'' @ ''/'' @ ''cursor''"
  using feed_namespaces_disjoint [of "\<lparr>sc_Tailnet = ''t'', sc_Provider = ''s3'', sc_Signal = ''flow'', sc_Feed = ''f''\<rparr>" "''objectstore/v1/dA/s3/flow/f''"
      "\<lparr>sc_Tailnet = ''t'', sc_Provider = ''s3'', sc_Signal = ''audit'', sc_Feed = ''f''\<rparr>" "''objectstore/v1/dA/s3/audit/f''" "''cursor''" "''cursor''"]
  by (simp add: scope_Namespace_def scope_field_def base64_char_def base64_alphabet_def)

section \<open>The migration moves every recognised row and no other\<close>

text \<open>The new name of a row that is migrated.\<close>

definition moved :: "'s CheckpointStore \<Rightarrow> 's \<Rightarrow> string \<Rightarrow> string \<Rightarrow> string option" where
  "moved cp s legacyRoot row =
     (case (strings_CutPrefix row legacyRoot, cs_Get cp row s) of
        (Some key, Some val) \<Rightarrow> (case legacy_target key val of Inr t \<Rightarrow> t | Inl _ \<Rightarrow> None)
      | _ \<Rightarrow> None)"

definition legacy_root :: "string \<Rightarrow> string" where
  "legacy_root legacyNamespace = (if legacyNamespace = [] then [] else legacyNamespace @ ''/'')"

definition migrate_ok :: "'s CheckpointStore \<Rightarrow> 's \<Rightarrow> string \<Rightarrow> string \<Rightarrow> string set \<Rightarrow> checkpointBatch \<Rightarrow> bool" where
  "migrate_ok cp s root canonical rows b \<longleftrightarrow> batch_ok b \<and> set (cb_deletes b) = {row \<in> rows. moved cp s root row \<noteq> None} \<and>
     (\<forall>k v. map_of (cb_updates b) k = Some v \<longrightarrow> cs_Get cp k s = None \<and> strings_HasPrefix k canonical) \<and>
     (\<forall>row \<in> rows. \<forall>t. moved cp s root row = Some t \<longrightarrow> cs_Get cp (canonical @ t) s \<noteq> None \<or> map_of (cb_updates b) (canonical @ t) \<noteq> None)"

lemma migrate_ok_step:
  assumes "migrate_ok cp s root canonical seen b" "moved cp s root row = Some t" "batch_ok d" "set (cb_deletes d) = insert row (set (cb_deletes b))"
    and "\<And>k. map_of (cb_updates d) k = (if k = canonical @ t \<and> cs_Get cp k s = None then Some val else map_of (cb_updates b) k)"
  shows "migrate_ok cp s root canonical (insert row seen) d"
proof -
  have "cs_Get cp k s = None \<and> strings_HasPrefix k canonical" if "map_of (cb_updates d) k = Some v" for k v
    using assms(1,5) that unfolding migrate_ok_def by (metis HasPrefix_append)
  moreover have "cs_Get cp (canonical @ u) s \<noteq> None \<or> map_of (cb_updates d) (canonical @ u) \<noteq> None" if "r \<in> insert row seen" "moved cp s root r = Some u" for r u
    using assms(1,2,5) that unfolding migrate_ok_def by (metis insert_iff option.distinct(1) option.sel)
  moreover have "set (cb_deletes d) = {r \<in> insert row seen. moved cp s root r \<noteq> None}" using assms(1,2,4) unfolding migrate_ok_def by auto
  ultimately show ?thesis using assms(3) unfolding migrate_ok_def by blast
qed

lemma migrate_loop_ok:
  assumes "migrate_loop cp s root canonical rows b = Inr b'" "migrate_ok cp s root canonical seen b" "\<forall>row \<in> set rows. cs_Get cp row s \<noteq> None"
  shows "migrate_ok cp s root canonical (seen \<union> set rows) b'"
  using assms
proof (induction rows arbitrary: b seen)
  case (Cons row rows)
  obtain val where val: "cs_Get cp row s = Some val" using Cons.prems(3) by auto
  have more: "migrate_ok cp s root canonical (insert row seen) d \<Longrightarrow> migrate_loop cp s root canonical rows d = Inr b' \<Longrightarrow> ?case" for d
    using Cons.IH [of d "insert row seen"] Cons.prems(3) by simp
  show ?case
  proof (cases "moved cp s root row")
    case None
    with Cons.prems(1) val have "migrate_loop cp s root canonical rows b = Inr b'"
      by (auto simp: moved_def migrateLegacyRow_def split: option.splits sum.splits)
    moreover have "migrate_ok cp s root canonical (insert row seen) b" using Cons.prems(2) None by (auto simp: migrate_ok_def)
    ultimately show ?thesis using more by blast
  next
    case (Some t)
    let ?b = "if cs_Get cp (canonical @ t) s = None then batch_set (canonical @ t) val b else b"
    from Some Cons.prems(1) val have "migrate_loop cp s root canonical rows (?b\<lparr>cb_deletes := cb_deletes ?b @ [row]\<rparr>) = Inr b'"
      by (auto simp: moved_def migrateLegacyRow_def Let_def split: option.splits sum.splits)
    moreover have "migrate_ok cp s root canonical (insert row seen) (?b\<lparr>cb_deletes := cb_deletes ?b @ [row]\<rparr>)"
    proof (rule migrate_ok_step [OF Cons.prems(2) Some])
      have "batch_ok b" using Cons.prems(2) by (simp add: migrate_ok_def)
      then show "batch_ok (?b\<lparr>cb_deletes := cb_deletes ?b @ [row]\<rparr>)" by (simp add: batch_set_def)
    qed (auto simp: batch_set_def update_conv')
    ultimately show ?thesis using more by blast
  qed
qed simp

lemma legacy_key: "legacy_target key val = Inr (Some t) \<Longrightarrow> \<exists>x. key = ''objectstore.flowlogs.'' @ x"
  unfolding legacy_target_def legacyCursorKey_def legacySeenPrefix_def legacyScanPrefix_def legacyGapPrefix_def strings_CutPrefix_def
  by (auto simp: HasPrefix_iff split: if_splits option.splits sum.splits)

lemma moved_outside:
  assumes "moved cp s (legacy_root ln) row = Some t" "CHR ''/'' \<notin> set ln" "scope_Namespace scope = Inr ns"
  shows "\<not> strings_HasPrefix row (ns @ ''/'')"
proof
  assume "strings_HasPrefix row (ns @ ''/'')"
  then obtain y where row: "row = ''objectstore'' @ CHR ''/'' # ''v1'' @ y"
    unfolding HasPrefix_iff scope_Namespace_Inr(5) [OF assms(3)] by auto
  from assms(1) obtain key val where key: "strings_CutPrefix row (legacy_root ln) = Some key" "legacy_target key val = Inr (Some t)"
    by (auto simp: moved_def split: option.splits sum.splits)
  from legacy_key [OF key(2)] obtain x where x: "key = ''objectstore.flowlogs.'' @ x" by blast
  from key(1) have r: "row = legacy_root ln @ key" by (auto simp: strings_CutPrefix_def HasPrefix_iff split: if_splits)
  show False
  proof (cases "ln = []")
    case True
    with r row x show False by (simp add: legacy_root_def)
  next
    case False
    with r x have "row = ln @ CHR ''/'' # ''objectstore.flowlogs.'' @ x" by (simp add: legacy_root_def)
    with row have "''objectstore'' @ CHR ''/'' # ''v1'' @ y = ln @ CHR ''/'' # ''objectstore.flowlogs.'' @ x" by simp
    from append_byte_inject [OF _ assms(2) this] show False by simp
  qed
qed



end
