(* ===== verification/Go_Netip.thy ===== *)
theory Go_Netip
  imports Acl_Policy Go_Time
begin

text \<open>
  What the flow records use of \<open>net.SplitHostPort\<close>, \<open>netip.ParseAddr\<close> and \<open>time.RFC3339Nano\<close>: splitting an endpoint, reading an
  address of either family with its zone, and formatting an instant. The facts are those the records need: a dotted quad and a
  port are read back.
\<close>

section \<open>Addresses\<close>

text \<open>A field of a dotted quad: digits without a leading zero, at most 255.\<close>

definition ipv4_field :: "string \<Rightarrow> nat option" where
  "ipv4_field f =
     (if f = [] \<or> \<not> list_all is_digit f \<or> (1 < length f \<and> hd f = CHR ''0'') \<or> 3 < length f \<or> 255 < dec_value f then None
      else Some (dec_value f))"

definition parseIPv4Fields :: "string \<Rightarrow> nat list option" where
  "parseIPv4Fields s = (let fs = split_byte (CHR ''.'') s in if length fs \<noteq> 4 then None else all_some (map ipv4_field fs))"

fun be_value :: "nat \<Rightarrow> nat list \<Rightarrow> nat" where
  "be_value base [] = 0"
| "be_value base (d # ds) = d * base ^ length ds + be_value base ds"

definition hex_digit :: "char \<Rightarrow> nat option" where
  "hex_digit c =
     (let n = of_char c :: nat
      in if 48 \<le> n \<and> n \<le> 57 then Some (n - 48) else if 97 \<le> n \<and> n \<le> 102 then Some (n - 87)
         else if 65 \<le> n \<and> n \<le> 70 then Some (n - 55) else None)"

text \<open>The loop of \<open>parseIPv6\<close>: the 16-bit groups read, where the ellipsis is, and what is left of the text.\<close>

function ipv6_loop :: "string \<Rightarrow> nat list \<Rightarrow> nat option \<Rightarrow> (nat list \<times> nat option \<times> string) option" where
  "ipv6_loop s groups ell =
     (if 8 \<le> length groups then Some (groups, ell, s)
      else
        let ds = takeWhile (\<lambda>c. hex_digit c \<noteq> None) s; rest = dropWhile (\<lambda>c. hex_digit c \<noteq> None) s
        in if ds = [] \<or> 4 < length ds then None
           else if rest \<noteq> [] \<and> hd rest = CHR ''.'' then
             (if ell = None \<and> length groups \<noteq> 6 \<or> 6 < length groups then None
              else case parseIPv4Fields s of
                Some [a, b, c, d] \<Rightarrow> Some (groups @ [a * 256 + b, c * 256 + d], ell, [])
              | _ \<Rightarrow> None)
           else
             let groups = groups @ [be_value 16 (map (\<lambda>c. case hex_digit c of Some n \<Rightarrow> n | None \<Rightarrow> 0) ds)]
             in case rest of
                  [] \<Rightarrow> Some (groups, ell, [])
                | c # r \<Rightarrow>
                    if c \<noteq> CHR '':'' then None
                    else (case r of
                        [] \<Rightarrow> None
                      | c' # r' \<Rightarrow>
                          if c' = CHR '':'' then
                            (if ell \<noteq> None then None
                             else if r' = [] then Some (groups, Some (length groups), [])
                             else ipv6_loop r' groups (Some (length groups)))
                          else ipv6_loop r groups ell))"
  by pat_completeness auto
termination
  by (relation "measure (\<lambda>(s, groups, ell). 8 - length groups)") auto

definition ipv6_groups :: "string \<Rightarrow> nat list option" where
  "ipv6_groups s =
     (let ell = (if take 2 s = ''::'' then Some 0 else None); s = (if take 2 s = ''::'' then drop 2 s else s)
      in if ell = Some 0 \<and> s = [] then Some (replicate 8 0)
         else case ipv6_loop s [] ell of
           None \<Rightarrow> None
         | Some (groups, e, rest) \<Rightarrow>
             if rest \<noteq> [] then None
             else if length groups < 8 then
               (case e of None \<Rightarrow> None | Some k \<Rightarrow> Some (take k groups @ replicate (8 - length groups) 0 @ drop k groups))
             else if e \<noteq> None then None
             else Some groups)"

definition parseIPv6 :: "string \<Rightarrow> netip_Addr option" where
  "parseIPv6 s =
     (case strings_IndexByte s (CHR ''%'') of
        None \<Rightarrow> map_option (\<lambda>g. Addr6 (of_nat (be_value 65536 g)) []) (ipv6_groups s)
      | Some i \<Rightarrow>
          if drop (Suc i) s = [] then None
          else map_option (\<lambda>g. Addr6 (of_nat (be_value 65536 g)) (drop (Suc i) s)) (ipv6_groups (take i s)))"

definition netip_ParseAddr :: "string \<Rightarrow> netip_Addr option" where
  "netip_ParseAddr s =
     (case List.find (\<lambda>c. c \<in> {CHR ''.'', CHR '':'', CHR ''%''}) s of
        Some c \<Rightarrow>
          if c = CHR ''.'' then map_option (\<lambda>fs. Addr4 (of_nat (be_value 256 fs))) (parseIPv4Fields s)
          else if c = CHR '':'' then parseIPv6 s
          else None
      | None \<Rightarrow> None)"

section \<open>Host and port\<close>

definition net_SplitHostPort :: "string \<Rightarrow> (string \<times> string) option" where
  "net_SplitHostPort hostport =
     (case strings_LastIndexByte hostport (CHR '':'') of
        None \<Rightarrow> None
      | Some i \<Rightarrow>
          if hd hostport = CHR ''['' then
            (case strings_IndexByte hostport (CHR '']'') of
               None \<Rightarrow> None
             | Some e \<Rightarrow>
                 if e + 1 \<noteq> i then None
                 else if CHR ''['' \<in> set (drop 1 hostport) \<or> CHR '']'' \<in> set (drop (e + 1) hostport) then None
                 else Some (take (e - 1) (drop 1 hostport), drop (i + 1) hostport))
          else if CHR '':'' \<in> set (take i hostport) \<or> CHR ''['' \<in> set hostport \<or> CHR '']'' \<in> set hostport then None
          else Some (take i hostport, drop (i + 1) hostport))"

section \<open>Formatting an instant\<close>

text \<open>The fraction of \<open>RFC3339Nano\<close> without its trailing zeros, nothing when it is zero.\<close>

definition nano_fraction :: "nat \<Rightarrow> string" where
  "nano_fraction ns = (if ns = 0 then [] else CHR ''.'' # rev (dropWhile (\<lambda>c. c = CHR ''0'') (rev (zero_padded 9 ns))))"

definition format_rfc3339nano :: "gotime \<Rightarrow> string" where
  "format_rfc3339nano t =
     (let s = nat (t mod day_ns div second_ns); ns = nat (t mod second_ns)
      in case civil (nat (t div day_ns)) of (y, m, d) \<Rightarrow>
        zero_padded 4 y @ ''-'' @ zero_padded 2 m @ ''-'' @ zero_padded 2 d @ ''T'' @
        zero_padded 2 (s div 3600) @ '':'' @ zero_padded 2 (s div 60 mod 60) @ '':'' @ zero_padded 2 (s mod 60) @ nano_fraction ns @ ''Z'')"

section \<open>An instant is read back\<close>

lemma foldl_digits: "foldl (\<lambda>n c. n * 10 + int (dec_value [c])) a ds = a * 10 ^ length ds + int (dec_value ds)"
proof (induction ds arbitrary: a)
  case (Cons c ds)
  have "dec_value (c # ds) = dec_value [c] * 10 ^ length ds + dec_value ds" using dec_value_append [of "[c]" ds] by simp
  with Cons show ?case by (simp add: algebra_simps del: dec_value.simps)
qed simp

lemma trimmed_zeros:
  fixes s :: string
  defines "r \<equiv> rev (dropWhile (\<lambda>c. c = CHR ''0'') (rev s))"
  shows "\<exists>k. s = r @ replicate k (CHR ''0'')"
proof -
  have "rev s = takeWhile (\<lambda>c. c = CHR ''0'') (rev s) @ rev r" unfolding r_def by simp
  moreover have "takeWhile (\<lambda>c. c = CHR ''0'') (rev s) = replicate (length (takeWhile (\<lambda>c. c = CHR ''0'') (rev s))) (CHR ''0'')"
    by (intro replicate_eqI) (auto dest: set_takeWhileD)
  ultimately have "s = r @ rev (replicate (length (takeWhile (\<lambda>c. c = CHR ''0'') (rev s))) (CHR ''0''))"
    by (metis rev_append rev_rev_ident)
  then show ?thesis by (metis rev_replicate)
qed

lemma getfraction_nano:
  assumes "ns < 1000000000"
  shows "getfraction (nano_fraction ns @ ''Z'') = (int ns, ''Z'')"
proof (cases "ns = 0")
  case False
  define r where "r = rev (dropWhile (\<lambda>c. c = CHR ''0'') (rev (zero_padded 9 ns)))"
  from trimmed_zeros [of "zero_padded 9 ns"] obtain k where k: "zero_padded 9 ns = r @ replicate k (CHR ''0'')" unfolding r_def by blast
  have len: "length r + k = 9" using arg_cong [OF k, of length] length_zero_padded [of ns 9] assms by simp
  have val: "ns = dec_value r * 10 ^ k" using arg_cong [OF k, of dec_value] by (simp add: dec_value_append)
  then have "r \<noteq> []" using False by auto
  then obtain d ds where r: "r = d # ds" by (cases r) auto
  have digits: "list_all is_digit r" using zero_padded_digits [of 9 ns] unfolding k by simp
  have z: "\<not> is_digit (CHR ''Z'')" by (simp add: is_digit_def)
  have "takeWhile is_digit (r @ ''Z'') = r" "dropWhile is_digit (r @ ''Z'') = ''Z''"
    using digits z by (simp_all add: list_all_iff takeWhile_append2 dropWhile_append2)
  moreover have "take 9 r = r" "9 - length r = k" using len by simp_all
  then have "fraction r = int ns" unfolding fraction_def foldl_digits Let_def val by simp
  moreover have "nano_fraction ns @ ''Z'' = CHR ''.'' # d # (ds @ ''Z'')" using False r by (simp add: nano_fraction_def r_def [symmetric])
  ultimately show ?thesis using digits r by simp
qed (simp add: nano_fraction_def)

lemma getnum_two: "x < 100 \<Longrightarrow> getnum f (zero_padded 2 x @ s) = Some (x, s)"
  by (rule getnum_padded)

lemma clock_parts:
  assumes "s < (86400 :: nat)"
  shows "s div 3600 < 24" "s div 60 mod 60 < 60" "s mod 60 < 60" "(s div 3600 * 60 + s div 60 mod 60) * 60 + s mod 60 = s"
proof -
  have "s div 3600 = s div 60 div 60" using div_mult2_eq [of s 60 60] by simp
  moreover have "s div 60 div 60 * 60 + s div 60 mod 60 = s div 60" "s div 60 * 60 + s mod 60 = s" by (rule div_mult_mod_eq)+
  ultimately show "(s div 3600 * 60 + s div 60 mod 60) * 60 + s mod 60 = s" by (simp only:)
  show "s div 3600 < 24" using assms by (simp add: less_mult_imp_div_less)
qed simp_all

lemma getclock_format:
  assumes "s < 86400" "ns < 1000000000"
  shows "getclock (CHR '':'') (zero_padded 2 (s div 3600) @ '':'' @ zero_padded 2 (s div 60 mod 60) @ '':'' @ zero_padded 2 (s mod 60) @ nano_fraction ns @ ''Z'') =
    Some (int s * 1000000000 + int ns, ''Z'')"
proof -
  note c = clock_parts [OF assms(1)]
  define h where "h = s div 3600" define mi where "mi = s div 60 mod 60" define sec where "sec = s mod 60"
  have "(h * 60 + mi) * 60 + sec = s" unfolding h_def mi_def sec_def by (rule c(4))
  then have "int ((h * 60 + mi) * 60 + sec) = int s" by (rule arg_cong)
  then have b: "h < 24" "mi < 60" "sec < 60" "int s = (int h * 60 + int mi) * 60 + int sec"
    using c(1-3) unfolding h_def [symmetric] mi_def [symmetric] sec_def [symmetric] by simp_all
  show ?thesis
    unfolding getclock_def h_def [symmetric] mi_def [symmetric] sec_def [symmetric]
    using b getfraction_nano [OF assms(2)] by (simp add: getnum_two)
qed

lemma civil_bounds: "n < 3652059 \<Longrightarrow> civil n = (y, m, d) \<Longrightarrow> 1 \<le> y \<and> y < 10000 \<and> 1 \<le> m \<and> m \<le> 12 \<and> 1 \<le> d \<and> d \<le> 31"
  using civil_spec [of n y m d] days_in_bounds [of y m] by (auto simp: valid_date_def)

text \<open>Formatting an instant of the years 1 to 9999 and reading it gives the instant.\<close>

lemma parse_format_rfc3339:
  assumes "0 \<le> t" "t < 3652059 * day_ns"
  shows "parse_rfc3339 (format_rfc3339nano t) = Some t"
proof -
  define n where "n = nat (t div day_ns)"
  define s where "s = nat (t mod day_ns div second_ns)"
  define ns where "ns = nat (t mod second_ns)"
  have "t div day_ns < 3652059" using assms(2) by (simp add: day_ns_def div_less_iff_less_mult)
  then have n: "n < 3652059" "int n = t div day_ns" using assms(1) by (auto simp: n_def day_ns_def pos_imp_zdiv_nonneg_iff)
  have ns: "ns < 1000000000" "int ns = t mod second_ns" by (simp_all add: ns_def second_ns_def nat_less_iff)
  have "0 \<le> t mod day_ns" "t mod day_ns < 86400 * second_ns" by (simp_all add: day_ns_def second_ns_def)
  then have s: "s < 86400" "int s = t mod day_ns div second_ns"
    by (auto simp: s_def second_ns_def nat_less_iff pos_imp_zdiv_nonneg_iff div_less_iff_less_mult)
  have "t mod day_ns mod second_ns = t mod second_ns" by (rule mod_mod_cancel) (simp add: day_ns_def second_ns_def)
  then have total: "int n * day_ns + (int s * second_ns + int ns) = t"
    unfolding n(2) s(2) ns(2) by (metis div_mult_mod_eq)
  obtain y m d where c: "civil n = (y, m, d)" by (rule prod_cases3)
  note b = civil_bounds [OF n(1) c] and spec = civil_spec [OF n(1) c]
  have fmt: "format_rfc3339nano t = zero_padded 4 y @ ''-'' @ zero_padded 2 m @ ''-'' @ zero_padded 2 d @ ''T'' @
      (zero_padded 2 (s div 3600) @ '':'' @ zero_padded 2 (s div 60 mod 60) @ '':'' @ zero_padded 2 (s mod 60) @ nano_fraction ns @ ''Z'')"
    unfolding format_rfc3339nano_def Let_def n_def [symmetric] s_def [symmetric] ns_def [symmetric] c by simp
  have date: "getdate (CHR ''-'') (format_rfc3339nano t) = Some ((y, m, d), ''T'' @
      (zero_padded 2 (s div 3600) @ '':'' @ zero_padded 2 (s div 60 mod 60) @ '':'' @ zero_padded 2 (s mod 60) @ nano_fraction ns @ ''Z''))"
    unfolding fmt getdate_def using b by (simp add: getyear_padded getnum_two)
  have "instant (y, m, d) (int s * 1000000000 + int ns) = Some t"
    using instant_day_number [of y m d] spec total by (simp add: second_ns_def)
  then show ?thesis
    unfolding parse_rfc3339_def date using getclock_format [OF s(1) ns(1)] by (simp add: getzone_def)
qed

end
