(* ===== verification/Flow_Record.thy ===== *)
theory Flow_Record
  imports Go_Netip Dedup
begin

text \<open>
  The flow records of \<open>src/internal/flowlog\<close>: their types and the node references in them (\<open>record.go\<close>), their timestamps (\<open>timing.go\<close>),
  the structural validation (\<open>validation.go\<close>) and the identity under which a connection is deduplicated (\<open>dedup.go\<close>), on top of the
  deduplicating set of \<open>Dedup\<close>.
\<close>

section \<open>Records\<close>

record NodeRef =
  nr_NodeID :: string
  nr_Name :: string
  nr_Addresses :: "string list"
  nr_Tags :: "string list"
  nr_User :: string
  nr_OS :: string

record ConnectionCounts =
  cc_Proto :: int
  cc_Src :: string
  cc_Dst :: string
  cc_TxPkts :: int
  cc_TxBytes :: int
  cc_RxPkts :: int
  cc_RxBytes :: int
  cc_protoPresent :: bool

record FlowLog =
  fl_Logged :: gotime
  fl_NodeID :: string
  fl_Start :: gotime
  fl_End :: gotime
  fl_VirtualTraffic :: "ConnectionCounts list"
  fl_SubnetTraffic :: "ConnectionCounts list"
  fl_ExitTraffic :: "ConnectionCounts list"
  fl_PhysicalTraffic :: "ConnectionCounts list"
  fl_SrcNode :: "NodeRef option"
  fl_DstNodes :: "NodeRef list"

definition ref_Hostname :: "NodeRef \<Rightarrow> string" where
  "ref_Hostname n = (case strings_IndexByte (nr_Name n) (CHR ''.'') of Some i \<Rightarrow> if 0 < i then take i (nr_Name n) else nr_Name n | None \<Rightarrow> nr_Name n)"

definition ref_Addrs :: "NodeRef \<Rightarrow> netip_Addr list" where
  "ref_Addrs n = List.map_filter netip_ParseAddr (nr_Addresses n)"

record DeviceMeta =
  dm_NodeID :: string
  dm_Name :: string
  dm_Hostname :: string
  dm_OS :: string
  dm_User :: string
  dm_Tags :: "string list"
  dm_Addrs :: "netip_Addr list"

definition ref_deviceMeta :: "NodeRef \<Rightarrow> DeviceMeta option" where
  "ref_deviceMeta n =
     (if nr_NodeID n = [] then None
      else Some \<lparr>dm_NodeID = nr_NodeID n, dm_Name = nr_Name n, dm_Hostname = ref_Hostname n, dm_OS = nr_OS n, dm_User = nr_User n,
                 dm_Tags = nr_Tags n, dm_Addrs = ref_Addrs n\<rparr>)"

definition flow_nodeRefs :: "FlowLog \<Rightarrow> DeviceMeta list" where
  "flow_nodeRefs f =
     (case fl_SrcNode f of None \<Rightarrow> [] | Some n \<Rightarrow> (case ref_deviceMeta n of None \<Rightarrow> [] | Some m \<Rightarrow> [m])) @ List.map_filter ref_deviceMeta (fl_DstNodes f)"

definition flow_refByAddr :: "FlowLog \<Rightarrow> string \<Rightarrow> NodeRef option" where
  "flow_refByAddr f addr =
     (if addr = [] then None
      else case netip_ParseAddr addr of
        None \<Rightarrow> None
      | Some a \<Rightarrow>
          (case fl_SrcNode f of
             Some n \<Rightarrow> if a \<in> set (ref_Addrs n) then Some n else List.find (\<lambda>n. a \<in> set (ref_Addrs n)) (fl_DstNodes f)
           | None \<Rightarrow> List.find (\<lambda>n. a \<in> set (ref_Addrs n)) (fl_DstNodes f)))"

text \<open>\<open>UnmarshalJSON\<close> after the decoder has filled the wire form, whose protocol is a pointer.\<close>

definition connection_of_wire :: "int option \<Rightarrow> string \<Rightarrow> string \<Rightarrow> int \<Rightarrow> int \<Rightarrow> int \<Rightarrow> int \<Rightarrow> ConnectionCounts" where
  "connection_of_wire proto src dst txPkts txBytes rxPkts rxBytes =
     \<lparr>cc_Proto = (case proto of None \<Rightarrow> 0 | Some p \<Rightarrow> p), cc_Src = src, cc_Dst = dst, cc_TxPkts = txPkts, cc_TxBytes = txBytes,
      cc_RxPkts = rxPkts, cc_RxBytes = rxBytes, cc_protoPresent = (proto \<noteq> None)\<rparr>"

definition protocolPresent :: "ConnectionCounts \<Rightarrow> bool" where
  "protocolPresent c \<longleftrightarrow> cc_protoPresent c \<or> cc_Proto c \<noteq> 0"

definition EventTimestamp :: "FlowLog \<Rightarrow> gotime" where
  "EventTimestamp log = (if fl_End log \<noteq> 0 then fl_End log else if fl_Start log \<noteq> 0 then fl_Start log else fl_Logged log)"

definition CaptureTimestamp :: "FlowLog \<Rightarrow> gotime" where
  "CaptureTimestamp log = fl_Logged log"

section \<open>Validation\<close>

definition defaultMaxFutureSkew :: duration where "defaultMaxFutureSkew = 5 * 60 * second_ns"

datatype ViolationKind =
    ViolationNegativeCounters
  | ViolationInvertedWindow
  | ViolationInvalidEndpoint
  | ViolationFutureTimestamp
  | ViolationInvalidProtocol

definition allConnections :: "FlowLog \<Rightarrow> ConnectionCounts list" where
  "allConnections log = fl_VirtualTraffic log @ fl_SubnetTraffic log @ fl_ExitTraffic log @ fl_PhysicalTraffic log"

definition timestampAfter :: "gotime \<Rightarrow> gotime \<Rightarrow> bool" where
  "timestampAfter timestamp lm \<longleftrightarrow> timestamp \<noteq> 0 \<and> lm < timestamp"

definition validPort :: "string \<Rightarrow> bool" where
  "validPort port \<longleftrightarrow> port \<noteq> [] \<and> list_all is_digit port \<and> strconv_ParseUint 16 port \<noteq> None"

definition label_byte :: "char \<Rightarrow> bool" where
  "label_byte c \<longleftrightarrow> (let n = of_char c :: nat in (97 \<le> n \<and> n \<le> 122) \<or> (65 \<le> n \<and> n \<le> 90) \<or> (48 \<le> n \<and> n \<le> 57) \<or> c = CHR ''-'')"

definition validHostnameLabel :: "string \<Rightarrow> bool" where
  "validHostnameLabel label \<longleftrightarrow> label \<noteq> [] \<and> length label \<le> 63 \<and> hd label \<noteq> CHR ''-'' \<and> last label \<noteq> CHR ''-'' \<and> list_all label_byte label"

definition validHost :: "string \<Rightarrow> bool" where
  "validHost host =
     (if host = [] then False
      else if netip_ParseAddr host \<noteq> None then True
      else if CHR '':'' \<in> set host then False
      else if 253 < length host then False
      else let host = strings_TrimSuffix host ''.''
           in host \<noteq> [] \<and> list_all validHostnameLabel (split_byte (CHR ''.'') host))"

definition validEndpoint :: "string \<Rightarrow> bool" where
  "validEndpoint endpoint = (case net_SplitHostPort endpoint of None \<Rightarrow> False | Some (host, port) \<Rightarrow> validHost host \<and> validPort port)"

text \<open>The loop over the connections: which kinds have been seen.\<close>

fun connection_violations :: "ConnectionCounts list \<Rightarrow> ViolationKind list \<Rightarrow> ViolationKind list" where
  "connection_violations [] seen = seen"
| "connection_violations (c # cs) seen =
     (let seen = (if cc_TxPkts c < 0 \<or> cc_TxBytes c < 0 \<or> cc_RxPkts c < 0 \<or> cc_RxBytes c < 0 then set_insert ViolationNegativeCounters seen else seen);
          seen = (if (cc_Src c \<noteq> [] \<and> \<not> validEndpoint (cc_Src c)) \<or> (cc_Dst c \<noteq> [] \<and> \<not> validEndpoint (cc_Dst c)) then set_insert ViolationInvalidEndpoint seen else seen);
          seen = (if cc_Proto c < 0 \<or> 255 < cc_Proto c then set_insert ViolationInvalidProtocol seen else seen)
      in connection_violations cs seen)"

definition violation_order :: "ViolationKind list" where
  "violation_order = [ViolationNegativeCounters, ViolationInvertedWindow, ViolationInvalidEndpoint, ViolationFutureTimestamp, ViolationInvalidProtocol]"

definition Validate :: "FlowLog \<Rightarrow> gotime \<Rightarrow> duration \<Rightarrow> ViolationKind list" where
  "Validate log now skew =
     (let maxFutureSkew = (if skew = 0 then defaultMaxFutureSkew else skew);
          seen = connection_violations (allConnections log) [];
          seen = (if fl_Start log \<noteq> 0 \<and> fl_End log \<noteq> 0 \<and> fl_End log < fl_Start log then set_insert ViolationInvertedWindow seen else seen);
          lm = now + maxFutureSkew;
          seen = (if timestampAfter (fl_Start log) lm \<or> timestampAfter (fl_End log) lm \<or> timestampAfter (fl_Logged log) lm
                  then set_insert ViolationFutureTimestamp seen else seen)
      in filter (\<lambda>kind. kind \<in> set seen) violation_order)"

definition boundedValidationSource :: "string \<Rightarrow> string" where
  "boundedValidationSource source = (if source \<in> {''poll'', ''stream'', ''objectstore''} then source else ''other'')"

definition boundedViolationKind :: "ViolationKind \<Rightarrow> string" where
  "boundedViolationKind kind = (case kind of
       ViolationNegativeCounters \<Rightarrow> ''negative_counters''
     | ViolationInvertedWindow \<Rightarrow> ''inverted_window''
     | ViolationInvalidEndpoint \<Rightarrow> ''invalid_endpoint''
     | ViolationFutureTimestamp \<Rightarrow> ''future_timestamp''
     | ViolationInvalidProtocol \<Rightarrow> ''invalid_protocol'')"

text \<open>The points \<open>ObserveDataQuality\<close> emits: source and reason of each.\<close>

definition ObserveDataQuality :: "string \<Rightarrow> ViolationKind list \<Rightarrow> (string \<times> string) list" where
  "ObserveDataQuality source violations = map (\<lambda>v. (boundedValidationSource source, boundedViolationKind v)) violations"

section \<open>Identity of a connection\<close>

definition boundedTrafficType :: "string \<Rightarrow> string" where
  "boundedTrafficType trafficType = (if trafficType \<in> {''virtual'', ''subnet'', ''exit'', ''physical''} then trafficType else ''unknown'')"

definition ConnectionKey :: "FlowLog \<Rightarrow> string \<Rightarrow> ConnectionCounts \<Rightarrow> string" where
  "ConnectionKey fl trafficType cc =
     fl_NodeID fl @ ''|'' @ format_rfc3339nano (fl_Start fl) @ ''|'' @ format_rfc3339nano (fl_End fl) @ ''|'' @
     boundedTrafficType trafficType @ ''|'' @ strconv_FormatInt (cc_Proto cc) @ ''|'' @ cc_Src cc @ ''|'' @ cc_Dst cc"

definition connectionFingerprint :: "ConnectionCounts \<Rightarrow> string" where
  "connectionFingerprint cc =
     strconv_FormatInt (cc_TxBytes cc) @ ''|'' @ strconv_FormatInt (cc_RxBytes cc) @ ''|'' @
     strconv_FormatInt (cc_TxPkts cc) @ ''|'' @ strconv_FormatInt (cc_RxPkts cc)"

datatype DuplicateResult = DuplicateNew | DuplicateExact | DuplicateConflict

definition CompareConnection ::
  "(nat \<Rightarrow> nat) \<Rightarrow> gotime \<Rightarrow> FlowLog \<Rightarrow> string \<Rightarrow> ConnectionCounts \<Rightarrow> dedup_Set \<Rightarrow> (DuplicateResult \<times> dedup_Set) option" where
  "CompareConnection grow now fl trafficType cc seen =
     map_option (\<lambda>(r, s). (case r of ResultNew \<Rightarrow> DuplicateNew | ResultExact \<Rightarrow> DuplicateExact | ResultConflict \<Rightarrow> DuplicateConflict, s))
       (dedup_CompareAndAdd grow now (ConnectionKey fl trafficType cc) (connectionFingerprint cc) seen)"

section \<open>What validation reports\<close>

definition bad_counters :: "ConnectionCounts \<Rightarrow> bool" where
  "bad_counters c \<longleftrightarrow> cc_TxPkts c < 0 \<or> cc_TxBytes c < 0 \<or> cc_RxPkts c < 0 \<or> cc_RxBytes c < 0"

definition bad_endpoint :: "ConnectionCounts \<Rightarrow> bool" where
  "bad_endpoint c \<longleftrightarrow> (\<exists>e \<in> {cc_Src c, cc_Dst c}. e \<noteq> [] \<and> \<not> validEndpoint e)"

definition bad_protocol :: "ConnectionCounts \<Rightarrow> bool" where
  "bad_protocol c \<longleftrightarrow> cc_Proto c \<notin> {0..255}"

definition violates :: "FlowLog \<Rightarrow> gotime \<Rightarrow> ViolationKind \<Rightarrow> bool" where
  "violates log lm kind \<longleftrightarrow> (case kind of
       ViolationNegativeCounters \<Rightarrow> \<exists>c \<in> set (allConnections log). bad_counters c
     | ViolationInvertedWindow \<Rightarrow> fl_Start log \<noteq> 0 \<and> fl_End log \<noteq> 0 \<and> fl_End log < fl_Start log
     | ViolationInvalidEndpoint \<Rightarrow> \<exists>c \<in> set (allConnections log). bad_endpoint c
     | ViolationFutureTimestamp \<Rightarrow> \<exists>t \<in> {fl_Start log, fl_End log, fl_Logged log}. t \<noteq> 0 \<and> lm < t
     | ViolationInvalidProtocol \<Rightarrow> \<exists>c \<in> set (allConnections log). bad_protocol c)"

lemma connection_violations_set:
  "set (connection_violations cs seen) = set seen \<union> {k. k = ViolationNegativeCounters \<and> (\<exists>c \<in> set cs. bad_counters c) \<or>
     k = ViolationInvalidEndpoint \<and> (\<exists>c \<in> set cs. bad_endpoint c) \<or> k = ViolationInvalidProtocol \<and> (\<exists>c \<in> set cs. bad_protocol c)}"
proof (induction cs arbitrary: seen)
  case (Cons c cs)
  let ?s1 = "if bad_counters c then set_insert ViolationNegativeCounters seen else seen"
  let ?s2 = "if bad_endpoint c then set_insert ViolationInvalidEndpoint ?s1 else ?s1"
  let ?s3 = "if bad_protocol c then set_insert ViolationInvalidProtocol ?s2 else ?s2"
  have tests: "(cc_TxPkts c < 0 \<or> cc_TxBytes c < 0 \<or> cc_RxPkts c < 0 \<or> cc_RxBytes c < 0) = bad_counters c"
    "((cc_Src c \<noteq> [] \<and> \<not> validEndpoint (cc_Src c)) \<or> (cc_Dst c \<noteq> [] \<and> \<not> validEndpoint (cc_Dst c))) = bad_endpoint c"
    "(cc_Proto c < 0 \<or> 255 < cc_Proto c) = bad_protocol c"
    by (auto simp: bad_counters_def bad_endpoint_def bad_protocol_def)
  have "connection_violations (c # cs) seen = connection_violations cs ?s3"
    by (simp only: connection_violations.simps Let_def tests)
  moreover have "k \<in> set ?s3 \<longleftrightarrow> k \<in> set seen \<or> (k = ViolationNegativeCounters \<and> bad_counters c) \<or> (k = ViolationInvalidEndpoint \<and> bad_endpoint c) \<or>
      (k = ViolationInvalidProtocol \<and> bad_protocol c)" for k by auto
  ultimately show ?case unfolding Cons.IH set_eq_iff by (simp del: connection_violations.simps add: Cons.IH) blast
qed simp


section \<open>Endpoints and identities\<close>

text \<open>An address and port written in the usual way are a valid endpoint.\<close>

lemma dec_digits_chars: "c \<in> set (dec_digits n) \<Longrightarrow> is_digit c"
  using dec_digits_are_digits [of n] by (simp add: list_all_iff)

lemma split_byte_append: "c \<notin> set a \<Longrightarrow> split_byte c (a @ c # s) = a # split_byte c s"
  by (induction a) auto

lemma split_byte_single: "c \<notin> set a \<Longrightarrow> split_byte c a = [a]"
  by (induction a) auto

lemma ipv4_field_digits:
  assumes "n \<le> 255"
  shows "ipv4_field (dec_digits n) = Some n"
proof -
  have "length (dec_digits n) \<le> 3" using assms by (intro length_dec_digits) auto
  moreover have "hd (dec_digits n) \<noteq> CHR ''0''" if "1 < length (dec_digits n)"
  proof
    assume "hd (dec_digits n) = CHR ''0''"
    then obtain s where s: "dec_digits n = CHR ''0'' # s" by (cases "dec_digits n") auto
    have "length s = length (dec_digits n) - 1" using s by simp
    have "n = dec_value s" using dec_value_digits [of n] s by simp
    have "dec_value s < 10 ^ length s"
    proof -
      have "list_all is_digit s" using dec_digits_are_digits [of n] s by simp
      then show ?thesis
      proof (induction s)
        case (Cons c s)
        then have "(of_char c :: nat) \<le> 57" by (simp add: is_digit_def)
        then have "of_char c - 48 \<le> (9 :: nat)" by linarith
        then have "(of_char c - 48 :: nat) * 10 ^ length s \<le> 9 * 10 ^ length s" by (intro mult_right_mono) auto
        moreover have "dec_value s < 10 ^ length s" using Cons by simp
        ultimately have "(of_char c - 48 :: nat) * 10 ^ length s + dec_value s < 9 * 10 ^ length s + 10 ^ length s" by (rule add_le_less_mono)
        then show ?case by simp
      qed simp
    qed
    moreover have "0 < length s" using that s by simp
    ultimately have "length (dec_digits n) \<le> length s" using length_dec_digits [of n "length s"] \<open>n = dec_value s\<close> by simp
    with s show False by simp
  qed
  ultimately show ?thesis using assms dec_digits_are_digits [of n] by (auto simp: ipv4_field_def)
qed

lemma digit_other: "is_digit c \<Longrightarrow> c \<notin> {CHR ''.'', CHR '':'', CHR ''%'', CHR ''['', CHR '']'', CHR ''|''}"
  by (auto simp: is_digit_def)

lemma find_skip: "(\<And>x. x \<in> set a \<Longrightarrow> \<not> P x) \<Longrightarrow> P c \<Longrightarrow> List.find P (a @ c # s) = Some c"
  by (induction a) auto

definition dotted :: "nat \<Rightarrow> nat \<Rightarrow> nat \<Rightarrow> nat \<Rightarrow> string" where
  "dotted a b c d = dec_digits a @ ''.'' @ dec_digits b @ ''.'' @ dec_digits c @ ''.'' @ dec_digits d"

lemma parse_dotted:
  assumes "a \<le> 255" "b \<le> 255" "c \<le> 255" "d \<le> 255"
  shows "netip_ParseAddr (dotted a b c d) \<noteq> None"
proof -
  have dot: "CHR ''.'' \<notin> set (dec_digits n)" for n using dec_digits_chars digit_other by blast
  have "split_byte (CHR ''.'') (dotted a b c d) = [dec_digits a, dec_digits b, dec_digits c, dec_digits d]"
    unfolding dotted_def by (simp add: split_byte_append split_byte_single dot)
  then have "parseIPv4Fields (dotted a b c d) = Some [a, b, c, d]" using assms by (simp add: parseIPv4Fields_def ipv4_field_digits)
  moreover have "List.find (\<lambda>c. c \<in> {CHR ''.'', CHR '':'', CHR ''%''}) (dotted a b c d) = Some (CHR ''.'')"
    unfolding dotted_def using dec_digits_chars digit_other by (simp only: append_Cons append_Nil) (rule find_skip, blast+)
  ultimately show ?thesis by (simp add: netip_ParseAddr_def)
qed

lemma IndexByte_absent: "c \<notin> set a \<Longrightarrow> strings_IndexByte (a @ c # s) c = Some (length a)"
  by (induction a) auto

lemma LastIndexByte_absent: "c \<notin> set b \<Longrightarrow> strings_LastIndexByte (a @ c # b) c = Some (length a)"
  using IndexByte_absent [of c "rev b" "rev a"] by (simp add: strings_LastIndexByte_def)

lemma SplitHostPort_plain:
  assumes "host \<noteq> []" "set host \<inter> {CHR '':'', CHR ''['', CHR '']''} = {}" "set port \<inter> {CHR '':'', CHR ''['', CHR '']''} = {}"
  shows "net_SplitHostPort (host @ '':'' @ port) = Some (host, port)"
proof -
  have "hd (host @ '':'' @ port) \<noteq> CHR ''[''" using assms(1,2) by (cases host) auto
  moreover have "strings_LastIndexByte (host @ '':'' @ port) (CHR '':'') = Some (length host)"
    using LastIndexByte_absent [of "CHR '':''" port host] assms(3) by simp
  moreover have "CHR '':'' \<notin> set host" "CHR ''['' \<notin> set (host @ '':'' @ port)" "CHR '']'' \<notin> set (host @ '':'' @ port)"
    using assms(2,3) by auto
  ultimately show ?thesis unfolding net_SplitHostPort_def by simp
qed

lemma dotted_endpoint_valid:
  assumes "a \<le> 255" "b \<le> 255" "c \<le> 255" "d \<le> 255" "p < 65536"
  shows "validEndpoint (dotted a b c d @ '':'' @ dec_digits p)"
proof -
  have digits: "x \<notin> set (dec_digits n)" if "x \<in> {CHR ''.'', CHR '':'', CHR ''%'', CHR ''['', CHR '']'', CHR ''|''}" for x n
    using that dec_digits_chars digit_other by blast
  have host: "x \<notin> set (dotted a b c d)" if "x \<in> {CHR '':'', CHR ''['', CHR '']''}" for x
    using that digits unfolding dotted_def by auto
  have ne: "dotted a b c d \<noteq> []" by (simp add: dotted_def)
  have "set (dotted a b c d) \<inter> {CHR '':'', CHR ''['', CHR '']''} = {}" "set (dec_digits p) \<inter> {CHR '':'', CHR ''['', CHR '']''} = {}"
    using host digits by blast+
  note split = SplitHostPort_plain [OF ne this]
  have "validHost (dotted a b c d)" using parse_dotted [OF assms(1-4)] ne by (simp add: validHost_def)
  moreover have "validPort (dec_digits p)"
    using assms(5) dec_digits_are_digits [of p] by (simp add: validPort_def strconv_ParseUint_def)
  ultimately show ?thesis unfolding validEndpoint_def split by simp
qed

text \<open>Numbers of 64 bits are told apart by their decimal forms.\<close>

abbreviation int64_range :: "int set" where "int64_range \<equiv> {- (2 ^ 63)..<2 ^ 63}"

lemma FormatInt_inject: "a \<in> int64_range \<Longrightarrow> b \<in> int64_range \<Longrightarrow> strconv_FormatInt a = strconv_FormatInt b \<Longrightarrow> a = b"
  by (metis ParseInt_FormatInt atLeastLessThan_iff option.sel)

lemma FormatInt_no_bar: "CHR ''|'' \<notin> set (strconv_FormatInt n)"
  using dec_digits_chars digit_other by (auto simp: strconv_FormatInt_def)

definition counters_of :: "ConnectionCounts \<Rightarrow> int list" where
  "counters_of cc = [cc_TxBytes cc, cc_RxBytes cc, cc_TxPkts cc, cc_RxPkts cc]"

lemma fingerprint_inject:
  assumes "set (counters_of x) \<subseteq> int64_range" "set (counters_of y) \<subseteq> int64_range" "connectionFingerprint x = connectionFingerprint y"
  shows "counters_of x = counters_of y"
proof -
  from assms(3) have "strconv_FormatInt (cc_TxBytes x) @ CHR ''|'' # (strconv_FormatInt (cc_RxBytes x) @ CHR ''|'' # (strconv_FormatInt (cc_TxPkts x) @ CHR ''|'' # strconv_FormatInt (cc_RxPkts x))) =
      strconv_FormatInt (cc_TxBytes y) @ CHR ''|'' # (strconv_FormatInt (cc_RxBytes y) @ CHR ''|'' # (strconv_FormatInt (cc_TxPkts y) @ CHR ''|'' # strconv_FormatInt (cc_RxPkts y)))"
    by (simp add: connectionFingerprint_def)
  from append_byte_inject [OF FormatInt_no_bar FormatInt_no_bar this]
  have 1: "strconv_FormatInt (cc_TxBytes x) = strconv_FormatInt (cc_TxBytes y)"
    and r: "strconv_FormatInt (cc_RxBytes x) @ CHR ''|'' # (strconv_FormatInt (cc_TxPkts x) @ CHR ''|'' # strconv_FormatInt (cc_RxPkts x)) =
      strconv_FormatInt (cc_RxBytes y) @ CHR ''|'' # (strconv_FormatInt (cc_TxPkts y) @ CHR ''|'' # strconv_FormatInt (cc_RxPkts y))" by blast+
  from append_byte_inject [OF FormatInt_no_bar FormatInt_no_bar r]
  have 2: "strconv_FormatInt (cc_RxBytes x) = strconv_FormatInt (cc_RxBytes y)"
    and r: "strconv_FormatInt (cc_TxPkts x) @ CHR ''|'' # strconv_FormatInt (cc_RxPkts x) = strconv_FormatInt (cc_TxPkts y) @ CHR ''|'' # strconv_FormatInt (cc_RxPkts y)" by blast+
  from append_byte_inject [OF FormatInt_no_bar FormatInt_no_bar r] 1 2 assms(1,2) show ?thesis
    unfolding counters_of_def using FormatInt_inject by auto
qed

text \<open>The instants that are formatted are those of the years 1 to 9999.\<close>

abbreviation instants :: "gotime set" where "instants \<equiv> {0..<3652059 * day_ns}"

lemma rfc3339_inject: "t \<in> instants \<Longrightarrow> u \<in> instants \<Longrightarrow> format_rfc3339nano t = format_rfc3339nano u \<Longrightarrow> t = u"
  by (metis parse_format_rfc3339 atLeastLessThan_iff option.sel)

lemma zero_padded_no_bar: "CHR ''|'' \<notin> set (zero_padded w n)"
  using zero_padded_digits [of w n] digit_other by (auto simp: list_all_iff)

lemma rfc3339_no_bar: "CHR ''|'' \<notin> set (format_rfc3339nano t)"
proof -
  have "CHR ''|'' \<notin> set (nano_fraction n)" for n
    using zero_padded_no_bar [of 9 n] by (auto simp: nano_fraction_def dest: set_dropWhileD)
  then show ?thesis unfolding format_rfc3339nano_def Let_def by (simp add: zero_padded_no_bar split: prod.split)
qed

lemma boundedTrafficType_no_bar: "CHR ''|'' \<notin> set (boundedTrafficType t)"
  by (auto simp: boundedTrafficType_def)



end
