(* ===== verification/Schema_Drift.thy ===== *)
theory Schema_Drift
  imports Go_Prelude Sha256
begin

text \<open>
  What the audit processors (\<open>src/internal/audit/processor.go\<close>, \<open>src/internal/k8saudit/processor.go\<close>) have in common: what they emit, and the bounded
  warnings about values outside the known vocabulary, whose code is the same in both. A warning is the field and the digest that are logged.
\<close>

section \<open>What a processor emits\<close>

type_synonym attrs = "(string, string) gomap"

datatype severity = SeverityInfo | SeverityWarn

datatype emission =
    LogEvent (le_name: string) (le_body: string) (le_severity: severity) (le_time: gotime) (le_attrs: attrs)
  | CounterPoint (cp_name: string) (cp_attrs: attrs)
  | HistogramPoint (hp_name: string) (hp_value: duration)

section \<open>Warnings about unknown values\<close>

definition schemaDriftWarningLimit :: nat where "schemaDriftWarningLimit = 128"
definition schemaDriftWarningWindow :: duration where "schemaDriftWarningWindow = 24 * 3600 * 1000000000"

record schema_window =
  unknownSchemaValues :: "string list"
  unknownSchemaWindow :: gotime
  unknownSchemaWindowSet :: bool

definition new_schema_window :: schema_window where
  "new_schema_window = \<lparr>unknownSchemaValues = [], unknownSchemaWindow = 0, unknownSchemaWindowSet = False\<rparr>"

definition schemaValueDigest :: "string \<Rightarrow> string" where
  "schemaValueDigest val = hex_EncodeToString (take 6 (sha256 val))"

text \<open>The window a call works in: the first call sets it, a call a window later starts a fresh one.\<close>

definition roll_window :: "gotime \<Rightarrow> schema_window \<Rightarrow> schema_window" where
  "roll_window now w =
     (if \<not> unknownSchemaWindowSet w then w\<lparr>unknownSchemaWindow := now, unknownSchemaWindowSet := True\<rparr>
      else if \<not> now < unknownSchemaWindow w + schemaDriftWarningWindow then w\<lparr>unknownSchemaValues := [], unknownSchemaWindow := now\<rparr>
      else w)"

definition warnUnknownSchemaValue :: "bool \<Rightarrow> gotime \<Rightarrow> string \<Rightarrow> string \<Rightarrow> schema_window \<Rightarrow> (string \<times> string) list \<times> schema_window" where
  "warnUnknownSchemaValue logger now fld val w =
     (if \<not> logger then ([], w)
      else let key = fld @ CHR 0x00 # val;
               w = roll_window now w
           in if schemaDriftWarningLimit \<le> length (unknownSchemaValues w) then ([], w)
              else if key \<in> set (unknownSchemaValues w) then ([], w)
              else ([(fld, schemaValueDigest val)], w\<lparr>unknownSchemaValues := unknownSchemaValues w @ [key]\<rparr>))"

section \<open>Warnings are bounded\<close>

text \<open>A sequence of calls, each with its time, field and value.\<close>

fun warn_all :: "bool \<Rightarrow> (gotime \<times> string \<times> string) list \<Rightarrow> schema_window \<Rightarrow> (string \<times> string) list \<times> schema_window" where
  "warn_all logger [] w = ([], w)"
| "warn_all logger ((now, fld, val) # cs) w =
     (let (ws, w) = warnUnknownSchemaValue logger now fld val w; (vs, w) = warn_all logger cs w in (ws @ vs, w))"

definition window_ok :: "schema_window \<Rightarrow> bool" where
  "window_ok w \<longleftrightarrow> length (unknownSchemaValues w) \<le> schemaDriftWarningLimit \<and> distinct (unknownSchemaValues w)"

lemma roll_window_ok: "window_ok w \<Longrightarrow> window_ok (roll_window now w)"
  by (auto simp: window_ok_def roll_window_def)

lemma warn_ok:
  assumes "window_ok w" "warnUnknownSchemaValue logger now fld val w = (ws, w')"
  shows "window_ok w'"
  using roll_window_ok [OF assms(1), of now] assms by (auto simp: warnUnknownSchemaValue_def window_ok_def Let_def split: if_splits)

text \<open>Within a window that stays open, every warning is one more remembered value.\<close>

definition open_at :: "gotime \<Rightarrow> schema_window \<Rightarrow> bool" where
  "open_at now w \<longleftrightarrow> unknownSchemaWindowSet w \<and> now < unknownSchemaWindow w + schemaDriftWarningWindow"

lemma warn_open:
  assumes "open_at now w" "warnUnknownSchemaValue logger now fld val w = (ws, w')"
  shows "length (unknownSchemaValues w') = length (unknownSchemaValues w) + length ws" "open_at t w' = open_at t w"
  using assms by (auto simp: warnUnknownSchemaValue_def open_at_def roll_window_def Let_def split: if_splits)

lemma warn_all_open:
  assumes "list_all (\<lambda>c. open_at (fst c) w) cs" "warn_all logger cs w = (ws, w')"
  shows "length (unknownSchemaValues w') = length (unknownSchemaValues w) + length ws"
  using assms
proof (induction cs arbitrary: w ws)
  case (Cons c cs)
  obtain now fld val where c: "c = (now, fld, val)" by (cases c)
  obtain us w1 where u: "warnUnknownSchemaValue logger now fld val w = (us, w1)" by fastforce
  obtain vs where v: "warn_all logger cs w1 = (vs, w')" and ws: "ws = us @ vs"
    using Cons.prems(2) by (auto simp: c u split: prod.splits)
  from Cons.prems(1) have "open_at now w" by (simp add: c)
  note o = warn_open [OF this u]
  have "list_all (\<lambda>c. open_at (fst c) w1) cs" using Cons.prems(1) by (simp add: o(2) c)
  from Cons.IH [OF this v] o(1) ws show ?case by simp
qed simp

lemma warn_all_ok:
  assumes "window_ok w" "warn_all logger cs w = (ws, w')"
  shows "window_ok w'"
  using assms
proof (induction cs arbitrary: w ws)
  case (Cons c cs)
  obtain now fld val where c: "c = (now, fld, val)" by (cases c)
  obtain us w1 where u: "warnUnknownSchemaValue logger now fld val w = (us, w1)" by fastforce
  obtain vs where "warn_all logger cs w1 = (vs, w')" using Cons.prems(2) by (auto simp: c u split: prod.splits)
  with Cons.IH [OF warn_ok [OF Cons.prems(1) u]] show ?case by blast
qed simp

lemma warn_all_quiet: "warn_all False cs w = ([], w)"
  by (induction cs) (auto simp: warnUnknownSchemaValue_def)

text \<open>A call that finds its window over works as in the fresh window, which stays open for a whole window.\<close>

lemma roll_window_closed:
  "\<not> open_at now w \<Longrightarrow> t < now + schemaDriftWarningWindow \<Longrightarrow> open_at t (roll_window now w)"
  by (auto simp: open_at_def roll_window_def)

lemma warn_rolls: "warnUnknownSchemaValue True now fld val (roll_window now w) = warnUnknownSchemaValue True now fld val w"
  by (simp add: warnUnknownSchemaValue_def roll_window_def schemaDriftWarningWindow_def Let_def)

lemma warn_all_bounded:
  assumes "window_ok w" "list_all (\<lambda>c. t0 \<le> fst c \<and> fst c < t0 + schemaDriftWarningWindow) cs" "warn_all True cs w = (ws, w')"
  shows "length ws \<le> schemaDriftWarningLimit - length (unknownSchemaValues w) + schemaDriftWarningLimit"
  using assms
proof (induction cs arbitrary: w ws)
  case (Cons c cs)
  obtain now fld val where c: "c = (now, fld, val)" by (cases c)
  obtain us w1 where u: "warnUnknownSchemaValue True now fld val w = (us, w1)" by fastforce
  obtain vs where v: "warn_all True cs w1 = (vs, w')" and ws: "ws = us @ vs"
    using Cons.prems(3) by (auto simp: c u split: prod.splits)
  show ?case
  proof (cases "open_at now w")
    case True
    from Cons.IH [OF warn_ok [OF Cons.prems(1) u] _ v] Cons.prems(2) warn_open(1) [OF True u] warn_ok [OF Cons.prems(1) u]
    show ?thesis by (auto simp: ws window_ok_def)
  next
    case False
    let ?w = "roll_window now w"
    have "list_all (\<lambda>c. open_at (fst c) ?w) (c # cs)"
      using Cons.prems(2) roll_window_closed [OF False] by (auto simp: list_all_iff c)
    moreover have "warn_all True (c # cs) ?w = (ws, w')" using Cons.prems(3) by (simp add: c warn_rolls)
    ultimately have "length (unknownSchemaValues w') = length (unknownSchemaValues ?w) + length ws" by (rule warn_all_open)
    with warn_all_ok [OF Cons.prems(1,3)] show ?thesis by (simp add: window_ok_def)
  qed
qed simp

lemma warn_step_reachable: "window_ok new_schema_window"
  by (simp add: window_ok_def new_schema_window_def)

text \<open>However many values outside the vocabulary arrive, and whatever came before, at most 256 warnings are logged in any 24 hours, as a window
  holds at most 128 and at most two windows meet that time; and never more than 128 values are remembered.\<close>

theorem schema_warnings_bounded:
  assumes "warn_all logger before_calls new_schema_window = (vs, w)"
    and "list_all (\<lambda>c. t \<le> fst c \<and> fst c < t + schemaDriftWarningWindow) cs" "warn_all logger cs w = (ws, w')"
  shows "length ws \<le> 2 * schemaDriftWarningLimit \<and> length (unknownSchemaValues w') \<le> schemaDriftWarningLimit"
proof (cases logger)
  case True
  note ok = warn_all_ok [OF warn_step_reachable assms(1)]
  from warn_all_bounded [OF ok assms(2)] assms(3) warn_all_ok [OF ok assms(3)] True show ?thesis by (auto simp: window_ok_def)
next
  case False
  with assms show ?thesis by (auto simp: warn_all_quiet new_schema_window_def)
qed

theorem schema_warnings_bounded_witness:
  "length (fst (warn_all True [(5, ''type'', ''x''), (5, ''type'', ''x''), (6, ''type'', ''y'')] new_schema_window)) \<le> 2 * schemaDriftWarningLimit"
  using schema_warnings_bounded [of True "[]" "[]" new_schema_window 0 "[(5, ''type'', ''x''), (5, ''type'', ''x''), (6, ''type'', ''y'')]"]
  by (cases "warn_all True [(5, ''type'', ''x''), (5, ''type'', ''x''), (6, ''type'', ''y'')] new_schema_window")
    (simp add: schemaDriftWarningWindow_def)

end
