(* ===== verification/Bounded_Text.thy ===== *)
theory Bounded_Text
  imports Go_Strings "HOL-Library.Sublist"
begin

text \<open>
  \<open>src/internal/boundedtext\<close>: byte ceilings for untrusted text that respect UTF-8. \<open>strings.ToValidUTF8\<close> and the bytes that start a rune are those of
  the Go library.
\<close>

section \<open>Runes\<close>

text \<open>The width a lead byte announces and the range of the byte after it, the table of \<open>unicode/utf8\<close>; the width of the rune at the front, as
  \<open>utf8.DecodeRuneInString\<close> reports it, with 0 for an invalid encoding.\<close>

definition lead_width :: "char \<Rightarrow> nat" where
  "lead_width a =
     (if in_range 0 127 a then 1 else if in_range 194 223 a then 2 else if in_range 224 239 a then 3 else if in_range 240 244 a then 4 else 0)"

definition second_ok :: "char \<Rightarrow> char \<Rightarrow> bool" where
  "second_ok a b \<longleftrightarrow>
     (let n = of_char a :: nat
      in in_range (if n = 224 then 160 else if n = 240 then 144 else 128) (if n = 237 then 159 else if n = 244 then 143 else 191) b)"

definition rune_len :: "string \<Rightarrow> nat" where
  "rune_len s =
     (if s = [] then 0
      else let w = lead_width (hd s)
           in if w \<le> length s \<and> (w \<le> 1 \<or> second_ok (hd s) (s ! 1)) \<and> list_all continuation (drop 2 (take w s)) then w else 0)"

definition RuneStart :: "char \<Rightarrow> bool" where
  "RuneStart c \<longleftrightarrow> \<not> continuation c"

definition replacement_rune :: string where
  "replacement_rune = map char_of [239 :: nat, 191, 189]"

text \<open>\<open>strings.ToValidUTF8(s, "\<dots>")\<close>: each run of invalid bytes becomes one replacement rune.\<close>

function to_valid :: "bool \<Rightarrow> string \<Rightarrow> string" where
  "to_valid invalid s =
     (if s = [] then []
      else if rune_len s = 0 then (if invalid then [] else replacement_rune) @ to_valid True (tl s)
      else take (rune_len s) s @ to_valid False (drop (rune_len s) s))"
  by pat_completeness auto
termination by (relation "measure (length \<circ> snd)") auto

declare to_valid.simps [simp del]

definition strings_ToValidUTF8 :: "string \<Rightarrow> string" where
  "strings_ToValidUTF8 s = to_valid False s"

section \<open>The program\<close>

fun keep_loop :: "string \<Rightarrow> nat \<Rightarrow> nat" where
  "keep_loop s 0 = 0"
| "keep_loop s (Suc n) = (if RuneStart (s ! Suc n) then Suc n else keep_loop s n)"

definition boundedtext_String :: "string \<Rightarrow> int \<Rightarrow> string" where
  "boundedtext_String s mx =
     (if mx \<le> 0 then []
      else let s = (if utf8_valid s then s else strings_ToValidUTF8 s)
           in if int (length s) \<le> mx then s else take (keep_loop s (nat mx)) s)"

fun StringsBudget :: "string list \<Rightarrow> int \<Rightarrow> int \<Rightarrow> string list" where
  "StringsBudget [] perValue remaining = []"
| "StringsBudget (v # vs) perValue remaining =
     (let lm = (if remaining < perValue then remaining else perValue);
          v = boundedtext_String v lm;
          remaining = remaining - int (length v);
          remaining = (if remaining < 0 then 0 else remaining)
      in v # StringsBudget vs perValue remaining)"

section \<open>Validity and length\<close>

lemma lead_width_cases:
  obtains "lead_width a = 1" "in_range 0 127 a"
  | "lead_width a = 2" "\<not> in_range 0 127 a" "in_range 194 223 a" "of_char a \<notin> {224, 237, 240, 244 :: nat}"
  | "lead_width a = 3" "\<not> in_range 0 127 a" "\<not> in_range 194 223 a" "in_range 224 239 a" "of_char a \<notin> {240, 244 :: nat}"
  | "lead_width a = 4" "\<not> in_range 0 127 a" "\<not> in_range 194 223 a" "\<not> in_range 224 239 a" "in_range 240 244 a" "of_char a \<notin> {224, 237 :: nat}"
  | "lead_width a = 0" "\<not> in_range 0 127 a" "\<not> in_range 194 223 a" "\<not> in_range 224 239 a" "\<not> in_range 240 244 a"
  by (cases "in_range 0 127 a"; cases "in_range 194 223 a"; cases "in_range 224 239 a"; cases "in_range 240 244 a")
    (auto simp: lead_width_def in_range_def)

lemma rune_len_le: "rune_len s \<le> length s" "rune_len s \<le> 4"
  by (auto simp: rune_len_def Let_def lead_width_def)

lemma rune_len_lead: "0 < rune_len s \<Longrightarrow> rune_len s = lead_width (hd s) \<and> s \<noteq> []"
  by (auto simp: rune_len_def Let_def split: if_splits)

lemmas utf8_valid_front = utf8_valid.simps(2) [THEN trans]

lemma utf8_valid_Cons:
  "utf8_valid (a # s) \<longleftrightarrow> 0 < rune_len (a # s) \<and> utf8_valid (drop (rune_len (a # s)) (a # s))"
  by (rule utf8_valid_front, cases a rule: lead_width_cases)
    (simp_all del: utf8_valid.simps add: rune_len_def second_ok_def Let_def split: list.split, blast+)

lemma utf8_valid_step: "utf8_valid s \<longleftrightarrow> s = [] \<or> 0 < rune_len s \<and> utf8_valid (drop (rune_len s) s)"
  by (cases s) (use utf8_valid_Cons in auto)

lemma rune_len_append:
  assumes "0 < rune_len s"
  shows "rune_len (take (rune_len s) s @ t) = rune_len s"
proof -
  let ?w = "lead_width (hd s)"
  from assms have s: "s \<noteq> []" and r: "rune_len s = ?w" and ok: "?w \<le> length s" "?w \<le> 1 \<or> second_ok (hd s) (s ! 1)" "list_all continuation (drop 2 (take ?w s))"
    by (auto simp: rune_len_def Let_def split: if_splits)
  have h: "hd (take ?w s @ t) = hd s" using assms s r by (cases s; cases ?w) auto
  have "1 < ?w \<Longrightarrow> (take ?w s @ t) ! 1 = s ! 1" using ok(1) by (simp add: nth_append)
  then show ?thesis unfolding r using ok s assms r by (cases "1 < ?w") (simp_all add: rune_len_def h Let_def)
qed

lemma utf8_valid_rune: "0 < rune_len s \<Longrightarrow> utf8_valid t \<Longrightarrow> utf8_valid (take (rune_len s) s @ t)"
  by (subst utf8_valid_step) (simp add: rune_len_append rune_len_le min_def)

lemma rune_continuation: "0 < i \<Longrightarrow> i < rune_len s \<Longrightarrow> continuation (s ! i)"
proof -
  assume i: "0 < i" "i < rune_len s"
  then have ok: "rune_len s = lead_width (hd s)" "lead_width (hd s) \<le> length s" "second_ok (hd s) (s ! 1)" "list_all continuation (drop 2 (take (lead_width (hd s)) s))"
    by (auto simp: rune_len_def Let_def split: if_splits)
  show "continuation (s ! i)"
  proof (cases "i = 1")
    case True
    with ok(3) show ?thesis by (auto simp: second_ok_def Let_def in_range_def split: if_splits)
  next
    case False
    with i obtain j where j: "i = Suc (Suc j)" by (metis One_nat_def Suc_lessE Suc_pred neq0_conv)
    with i ok have "s ! i = drop 2 (take (lead_width (hd s)) s) ! (i - 2)" "i - 2 < length (drop 2 (take (lead_width (hd s)) s))" by auto
    with ok(4) show ?thesis by (metis list_all_length)
  qed
qed

lemma utf8_valid_replacement: "utf8_valid t \<Longrightarrow> utf8_valid (replacement_rune @ t)"
  using utf8_valid_rune [of replacement_rune t] by (simp add: replacement_rune_def rune_len_def lead_width_def second_ok_def in_range_def)

lemma to_valid_valid: "utf8_valid (to_valid invalid s)"
proof (induction invalid s rule: to_valid.induct)
  case (1 invalid s)
  then show ?case
    by (subst to_valid.simps) (auto intro: utf8_valid_rune utf8_valid_replacement)
qed

lemma utf8_valid_take:
  "utf8_valid s \<Longrightarrow> n < length s \<Longrightarrow> RuneStart (s ! n) \<Longrightarrow> utf8_valid (take n s)"
proof (induction "length s" arbitrary: s n rule: less_induct)
  case less
  let ?r = "rune_len s"
  from less.prems(1,2) have r: "0 < ?r" and rest: "utf8_valid (drop ?r s)" using utf8_valid_step [of s] by auto
  show ?case
  proof (cases "n < ?r")
    case True
    with less.prems(3) rune_continuation [of n s] have "n = 0" by (auto simp: RuneStart_def)
    then show ?thesis by simp
  next
    case False
    then have "take n s = take ?r s @ take (n - ?r) (drop ?r s)" by (metis le_add_diff_inverse not_less take_add)
    moreover have "utf8_valid (take (n - ?r) (drop ?r s))"
      using less.prems False r by (intro less.hyps [OF _ rest]) (simp_all add: rune_len_le)
    ultimately show ?thesis using utf8_valid_rune [OF r] by simp
  qed
qed

lemma keep_loop_le: "keep_loop s n \<le> n"
  by (induction n) auto

lemma keep_loop_start: "keep_loop s n = 0 \<or> RuneStart (s ! keep_loop s n)"
  by (induction n) auto

lemma keep_loop_valid: "utf8_valid s \<Longrightarrow> n < length s \<Longrightarrow> utf8_valid (take (keep_loop s n) s)"
  using keep_loop_start [of s n] keep_loop_le [of s n] utf8_valid_take [of s "keep_loop s n"] by auto

lemma boundedtext_valid: "utf8_valid (boundedtext_String s mx)"
  unfolding boundedtext_String_def strings_ToValidUTF8_def Let_def
  by (auto intro!: to_valid_valid keep_loop_valid)

lemma boundedtext_length: "int (length (boundedtext_String s mx)) \<le> max 0 mx"
  unfolding boundedtext_String_def Let_def using keep_loop_le [of _ "nat mx"] by (auto simp: min_def) (smt (verit) int_nat_eq of_nat_mono)+

lemma boundedtext_fits: "utf8_valid s \<Longrightarrow> int (length s) \<le> mx \<Longrightarrow> boundedtext_String s mx = s"
  by (cases s) (auto simp: boundedtext_String_def)

lemma keep_loop_close:
  assumes "utf8_valid s" "n < length s"
  shows "n \<le> keep_loop s n + 3"
proof (rule ccontr)
  assume far: "\<not> n \<le> keep_loop s n + 3"
  have run: "\<And>m. m \<le> n \<Longrightarrow> keep_loop s n < m \<Longrightarrow> continuation (s ! m)" for n
    by (induction n) (auto simp: RuneStart_def le_Suc_eq split: if_splits)
  have "\<exists>m. n - 3 \<le> m \<and> m \<le> n \<and> RuneStart (s ! m)" using assms
  proof (induction "length s" arbitrary: s n rule: less_induct)
    case less
    let ?r = "rune_len s"
    from less.prems have r: "0 < ?r" and rest: "utf8_valid (drop ?r s)" using utf8_valid_step [of s] by auto
    show ?case
    proof (cases "n < ?r")
      case True
      from r have "RuneStart (s ! 0)"
        using rune_len_lead [OF r] by (cases s; cases "hd s" rule: lead_width_cases) (auto simp: RuneStart_def in_range_def)
      with True rune_len_le(2) [of s] show ?thesis by (intro exI [of _ 0]) simp
    next
      case False
      then have "n - ?r < length (drop ?r s)" "length (drop ?r s) < length s" using less.prems r by auto
      from less.hyps [OF this(2) rest this(1)] obtain m where "n - ?r - 3 \<le> m" "m \<le> n - ?r" "RuneStart (drop ?r s ! m)" by blast
      then show ?thesis using False rune_len_le(1) [of s] by (intro exI [of _ "m + ?r"]) (auto simp: add.commute)
    qed
  qed
  then obtain m where "n - 3 \<le> m" "m \<le> n" "RuneStart (s ! m)" by blast
  with far run [of m n] show False by (auto simp: RuneStart_def)
qed

lemma boundedtext_cut_close:
  "utf8_valid s \<Longrightarrow> 0 < mx \<Longrightarrow> mx < int (length s) \<Longrightarrow> mx \<le> int (length (boundedtext_String s mx)) + 3"
  using keep_loop_close [of s "nat mx"] keep_loop_le [of s "nat mx"] by (simp add: boundedtext_String_def) linarith

lemma boundedtext_prefix: "utf8_valid s \<Longrightarrow> prefix (boundedtext_String s mx) s"
  by (auto simp: boundedtext_String_def Let_def take_is_prefix)

lemma StringsBudget_length [simp]: "length (StringsBudget vs perValue remaining) = length vs"
  by (induction vs arbitrary: remaining) (auto simp: Let_def)

lemma StringsBudget_each:
  "v \<in> set (StringsBudget vs perValue remaining) \<Longrightarrow> utf8_valid v \<and> int (length v) \<le> max 0 perValue"
proof (induction vs arbitrary: remaining)
  case (Cons w vs)
  have "int (length (boundedtext_String w (min perValue remaining))) \<le> max 0 perValue"
    using boundedtext_length [of w "min perValue remaining"] by auto
  moreover have "v = boundedtext_String w (min perValue remaining) \<or> (\<exists>r. v \<in> set (StringsBudget vs perValue r))"
    using Cons.prems by (auto simp: Let_def min_def split: if_splits)
  ultimately show ?case using Cons.IH boundedtext_valid by blast
qed simp

lemma StringsBudget_sum: "0 \<le> remaining \<Longrightarrow> int (sum_list (map length (StringsBudget vs perValue remaining))) \<le> remaining"
proof (induction vs arbitrary: remaining)
  case (Cons w vs)
  let ?v = "boundedtext_String w (if remaining < perValue then remaining else perValue)"
  have "int (length ?v) \<le> remaining" using boundedtext_length [of w "if remaining < perValue then remaining else perValue"] Cons.prems by (auto split: if_splits)
  with Cons.IH [of "remaining - int (length ?v)"] show ?case by (simp add: Let_def)
qed simp

text \<open>A bounded text is valid UTF-8 of at most the given number of bytes; of a valid text it is a prefix, the text itself when it fits, and otherwise
  at most three bytes shorter than the limit. A group of texts bounded in order stays within the budget of each and of all together.\<close>

theorem bounded_text_exact:
  "utf8_valid (boundedtext_String s mx) \<and> int (length (boundedtext_String s mx)) \<le> max 0 mx \<and>
   (utf8_valid s \<longrightarrow> prefix (boundedtext_String s mx) s \<and> (int (length s) \<le> mx \<longrightarrow> boundedtext_String s mx = s) \<and>
     (0 < mx \<longrightarrow> mx < int (length s) \<longrightarrow> mx \<le> int (length (boundedtext_String s mx)) + 3)) \<and>
   (0 \<le> budget \<longrightarrow> int (sum_list (map length (StringsBudget vs perValue budget))) \<le> budget \<and>
     list_all (\<lambda>v. utf8_valid v \<and> int (length v) \<le> max 0 perValue) (StringsBudget vs perValue budget))"
  using boundedtext_valid boundedtext_length boundedtext_prefix boundedtext_fits boundedtext_cut_close StringsBudget_sum StringsBudget_each
  unfolding list_all_iff by blast

theorem bounded_text_exact_witness:
  "boundedtext_String (''ab'' @ replacement_rune) 4 = ''ab'' \<and> length (boundedtext_String (''ab'' @ replacement_rune) 4) + 3 \<ge> 4 \<and>
   sum_list (map length (StringsBudget [''abc'', ''de''] 2 3)) \<le> 3"
proof -
  have "boundedtext_String (''ab'' @ replacement_rune) 4 = ''ab''" "utf8_valid (''ab'' @ replacement_rune)"
    "length (''ab'' @ replacement_rune) = 5" by code_simp+
  with bounded_text_exact [of "''ab'' @ replacement_rune" 4 3 "[''abc'', ''de'']" 2] show ?thesis by linarith
qed

end
