(* ===== verification/Event_Store.thy ===== *)
theory Event_Store
  imports Bounded_Text Go_Prelude
begin

text \<open>
  \<open>src/internal/eventstore\<close>: the bounded ring of recent audit and webhook events. Case folding (\<open>strings.ToLower\<close>, \<open>strings.EqualFold\<close>) is Unicode's and
  comes as a parameter; sequence numbers are natural numbers, as 64 bits are not exhausted by one event after another.
\<close>

section \<open>Events and their bounds\<close>

definition DefaultCapacity :: nat where "DefaultCapacity = 5000"
definition MaxFieldBytes :: int where "MaxFieldBytes = 4096"
definition MaxEventBytes :: int where "MaxEventBytes = 32 * 1024"
definition MaxDetailBytes :: int where "MaxDetailBytes = MaxFieldBytes"

definition truncationSuffix :: string where
  "truncationSuffix = map char_of [226 :: nat, 128, 166] @ ''[truncated]''"

definition utf8Equivalent :: "string \<Rightarrow> bool" where
  "utf8Equivalent s \<longleftrightarrow> boundedtext_String s (int (length s)) = s"

definition Truncate :: "string \<Rightarrow> string \<times> bool" where
  "Truncate s =
     (if int (length s) \<le> MaxDetailBytes then (boundedtext_String s MaxDetailBytes, \<not> utf8Equivalent s)
      else (boundedtext_String s (MaxDetailBytes - int (length truncationSuffix)) @ truncationSuffix, True))"

record StoredEvent =
  se_Time :: gotime
  se_Source :: string
  se_Tailnet :: string
  se_Action :: string
  se_Type :: string
  se_Origin :: string
  se_ActorID :: string
  se_ActorName :: string
  se_ActorType :: string
  se_TargetID :: string
  se_TargetName :: string
  se_TargetType :: string
  se_TargetProperty :: string
  se_Severity :: string
  se_Error :: string
  se_Summary :: string
  se_Details :: string
  se_Truncated :: bool
  se_seq :: nat

definition event_values :: "StoredEvent \<Rightarrow> string list" where
  "event_values ev =
     [se_Source ev, se_Tailnet ev, se_Action ev, se_Type ev, se_Origin ev, se_ActorID ev, se_ActorName ev, se_ActorType ev,
      se_TargetID ev, se_TargetName ev, se_TargetType ev, se_TargetProperty ev, se_Severity ev, se_Error ev, se_Summary ev, se_Details ev]"

definition with_values :: "string list \<Rightarrow> StoredEvent \<Rightarrow> StoredEvent" where
  "with_values vs ev = ev\<lparr>se_Source := vs ! 0, se_Tailnet := vs ! 1, se_Action := vs ! 2, se_Type := vs ! 3, se_Origin := vs ! 4,
     se_ActorID := vs ! 5, se_ActorName := vs ! 6, se_ActorType := vs ! 7, se_TargetID := vs ! 8, se_TargetName := vs ! 9,
     se_TargetType := vs ! 10, se_TargetProperty := vs ! 11, se_Severity := vs ! 12, se_Error := vs ! 13, se_Summary := vs ! 14, se_Details := vs ! 15\<rparr>"

definition normalizeEvent :: "StoredEvent \<Rightarrow> StoredEvent \<times> bool" where
  "normalizeEvent ev =
     (let vs = StringsBudget (event_values ev) MaxFieldBytes MaxEventBytes
      in (with_values vs ev, vs \<noteq> event_values ev))"

definition eventStringBytes :: "StoredEvent \<Rightarrow> int" where
  "eventStringBytes ev = int (sum_list (map length (event_values ev)))"

section \<open>The store\<close>

record Memory =
  em_capacity :: nat
  em_events :: "StoredEvent list"
  em_start :: nat
  em_seq :: nat
  em_recorded :: nat
  em_evicted :: nat
  em_retainedBytes :: int

definition NewMemory :: "int \<Rightarrow> Memory" where
  "NewMemory capacity =
     \<lparr>em_capacity = (if capacity \<le> 0 then DefaultCapacity else nat capacity), em_events = [], em_start = 0, em_seq = 0,
      em_recorded = 0, em_evicted = 0, em_retainedBytes = 0\<rparr>"

definition liveLocked :: "Memory \<Rightarrow> StoredEvent list" where
  "liveLocked m = drop (em_start m) (em_events m)"

text \<open>The part of \<open>Record\<close> before the lock is taken: the clock for a missing time, and the ceilings.\<close>

definition prepare_event :: "gotime \<Rightarrow> StoredEvent \<Rightarrow> StoredEvent" where
  "prepare_event now ev =
     (let ev = (if se_Time ev = 0 then ev\<lparr>se_Time := now\<rparr> else ev);
          ev = (case Truncate (se_Details ev) of (s, changed) \<Rightarrow> if changed then ev\<lparr>se_Details := s, se_Truncated := True\<rparr> else ev);
          ev = (case Truncate (se_Summary ev) of (s, changed) \<Rightarrow> if changed then ev\<lparr>se_Summary := s, se_Truncated := True\<rparr> else ev)
      in case normalizeEvent ev of (ev, changed) \<Rightarrow> if changed then ev\<lparr>se_Truncated := True\<rparr> else ev)"

definition Record :: "gotime \<Rightarrow> StoredEvent \<Rightarrow> Memory \<Rightarrow> Memory" where
  "Record now ev m =
     (let ev = prepare_event now ev;
          m = (if em_capacity m \<le> length (liveLocked m)
               then m\<lparr>em_retainedBytes := em_retainedBytes m - eventStringBytes (em_events m ! em_start m),
                      em_start := em_start m + 1, em_evicted := em_evicted m + 1\<rparr> else m);
          ev = ev\<lparr>se_seq := em_seq m\<rparr>;
          m = m\<lparr>em_seq := em_seq m + 1, em_recorded := em_recorded m + 1, em_events := em_events m @ [ev],
                em_retainedBytes := em_retainedBytes m + eventStringBytes ev\<rparr>
      in if em_capacity m \<le> em_start m then m\<lparr>em_events := drop (em_start m) (em_events m), em_start := 0\<rparr> else m)"

section \<open>Queries\<close>

record Filter =
  ef_Source :: string
  ef_Actor :: string
  ef_Action :: string
  ef_Target :: string
  ef_Severity :: string
  ef_Type :: string
  ef_ErrorsOnly :: bool

definition filter_isZero :: "Filter \<Rightarrow> bool" where
  "filter_isZero f \<longleftrightarrow> f = \<lparr>ef_Source = [], ef_Actor = [], ef_Action = [], ef_Target = [], ef_Severity = [], ef_Type = [], ef_ErrorsOnly = False\<rparr>"

record folding =
  lib_ToLower :: "string \<Rightarrow> string"
  lib_EqualFold :: "string \<Rightarrow> string \<Rightarrow> bool"

definition strings_Contains :: "string \<Rightarrow> string \<Rightarrow> bool" where
  "strings_Contains s sub \<longleftrightarrow> sublist sub s"

definition containsFold :: "folding \<Rightarrow> string \<Rightarrow> string \<Rightarrow> bool" where
  "containsFold lib s sub \<longleftrightarrow> strings_Contains (lib_ToLower lib s) (lib_ToLower lib sub)"

definition filter_matches :: "folding \<Rightarrow> Filter \<Rightarrow> StoredEvent \<Rightarrow> bool" where
  "filter_matches lib f e =
     (if ef_Source f \<noteq> [] \<and> \<not> lib_EqualFold lib (se_Source e) (ef_Source f) then False
      else if ef_Actor f \<noteq> [] \<and> \<not> containsFold lib (se_ActorID e) (ef_Actor f) \<and> \<not> containsFold lib (se_ActorName e) (ef_Actor f) then False
      else if ef_Action f \<noteq> [] \<and> \<not> containsFold lib (se_Action e) (ef_Action f) then False
      else if ef_Target f \<noteq> [] \<and> \<not> containsFold lib (se_TargetID e) (ef_Target f) \<and> \<not> containsFold lib (se_TargetName e) (ef_Target f) then False
      else if ef_Severity f \<noteq> [] \<and> \<not> lib_EqualFold lib (se_Severity e) (ef_Severity f) then False
      else if ef_Type f \<noteq> [] \<and> \<not> lib_EqualFold lib (se_Type e) (ef_Type f) then False
      else if ef_ErrorsOnly f \<and> se_Error e = [] then False
      else True)"

record Query =
  q_Start :: gotime
  q_End :: gotime
  q_Limit :: int
  q_Cursor :: nat
  q_Filter :: Filter

record Page =
  pg_Rows :: "StoredEvent list"
  pg_NextCursor :: nat
  pg_Matched :: nat
  pg_Retained :: nat
  pg_Truncated :: bool

text \<open>The loop of \<open>Page\<close> over the live rows, newest first: the rows taken, the number matched, and whether more remain.\<close>

fun page_loop :: "folding \<Rightarrow> Query \<Rightarrow> gotime \<Rightarrow> StoredEvent list \<Rightarrow> StoredEvent list \<Rightarrow> nat \<Rightarrow> bool \<Rightarrow> StoredEvent list \<times> nat \<times> bool" where
  "page_loop lib q tend [] rows matched haveMore = (rows, matched, haveMore)"
| "page_loop lib q tend (e # es) rows matched haveMore =
     (if tend < se_Time e then page_loop lib q tend es rows matched haveMore
      else if q_Start q \<noteq> 0 \<and> se_Time e < q_Start q then page_loop lib q tend es rows matched haveMore
      else if \<not> filter_isZero (q_Filter q) \<and> \<not> filter_matches lib (q_Filter q) e then page_loop lib q tend es rows matched haveMore
      else if q_Cursor q \<noteq> 0 \<and> q_Cursor q \<le> se_seq e then page_loop lib q tend es rows (matched + 1) haveMore
      else if q_Limit q \<le> 0 \<or> q_Limit q \<le> int (length rows) then page_loop lib q tend es rows (matched + 1) True
      else page_loop lib q tend es (rows @ [e]) (matched + 1) haveMore)"

definition memory_Page :: "folding \<Rightarrow> gotime \<Rightarrow> Query \<Rightarrow> Memory \<Rightarrow> Page" where
  "memory_Page lib now q m =
     (let tend = (if q_End q = 0 then now else q_End q);
          live = liveLocked m
      in case page_loop lib q tend (rev live) [] 0 False of (rows, matched, haveMore) \<Rightarrow>
         \<lparr>pg_Rows = rows, pg_NextCursor = (if haveMore \<and> 0 < length rows then se_seq (last rows) else 0), pg_Matched = matched,
          pg_Retained = length live, pg_Truncated = (em_capacity m \<le> length live)\<rparr>)"

record Stats =
  st_Capacity :: nat
  st_Retained :: nat
  st_Recorded :: nat
  st_Evicted :: nat
  st_RetainedBytes :: int
  st_MaxBytes :: int
  st_Earliest :: gotime
  st_Latest :: gotime

fun stats_loop :: "StoredEvent list \<Rightarrow> gotime \<Rightarrow> gotime \<Rightarrow> gotime \<times> gotime" where
  "stats_loop [] earliest latest = (earliest, latest)"
| "stats_loop (e # es) earliest latest =
     stats_loop es (if earliest = 0 \<or> se_Time e < earliest then se_Time e else earliest) (if latest < se_Time e then se_Time e else latest)"

definition memory_Stats :: "Memory \<Rightarrow> Stats" where
  "memory_Stats m =
     (let live = liveLocked m
      in case stats_loop live 0 0 of (earliest, latest) \<Rightarrow>
         \<lparr>st_Capacity = em_capacity m, st_Retained = length live, st_Recorded = em_recorded m, st_Evicted = em_evicted m,
          st_RetainedBytes = em_retainedBytes m, st_MaxBytes = int (em_capacity m) * MaxEventBytes, st_Earliest = earliest, st_Latest = latest\<rparr>)"

section \<open>The store holds the last events, within its bounds\<close>

text \<open>What all calls of \<open>Record\<close> amount to: the events as prepared, numbered in order.\<close>

definition numbered :: "nat \<Rightarrow> gotime \<times> StoredEvent \<Rightarrow> StoredEvent" where
  "numbered i r = (prepare_event (fst r) (snd r))\<lparr>se_seq := i\<rparr>"

definition event_log :: "(gotime \<times> StoredEvent) list \<Rightarrow> StoredEvent list" where
  "event_log rs = map (\<lambda>(i, r). numbered i r) (enumerate 0 rs)"

definition record_all :: "(gotime \<times> StoredEvent) list \<Rightarrow> Memory \<Rightarrow> Memory" where
  "record_all rs m = foldl (\<lambda>m r. Record (fst r) (snd r) m) m rs"

definition memory_ok :: "Memory \<Rightarrow> StoredEvent list \<Rightarrow> bool" where
  "memory_ok m es \<longleftrightarrow> 0 < em_capacity m \<and> em_start m \<le> length (em_events m) \<and> em_start m < em_capacity m \<and>
     liveLocked m = lastn (em_capacity m) es \<and> em_seq m = length es \<and> em_recorded m = length es \<and>
     em_evicted m = length es - em_capacity m \<and> em_retainedBytes m = sum_list (map eventStringBytes (liveLocked m))"

lemma memory_okD:
  assumes "memory_ok m es"
  shows "0 < em_capacity m" "em_start m \<le> length (em_events m)" "em_start m < em_capacity m" "liveLocked m = lastn (em_capacity m) es"
    "em_seq m = length es" "em_recorded m = length es" "em_evicted m = length es - em_capacity m"
    "em_retainedBytes m = sum_list (map eventStringBytes (liveLocked m))"
  using assms by (auto simp: memory_ok_def)

lemma event_log_snoc: "event_log (rs @ [r]) = event_log rs @ [numbered (length rs) r]"
  by (simp add: event_log_def enumerate_append_eq)

lemma length_event_log [simp]: "length (event_log rs) = length rs"
  by (simp add: event_log_def)

lemma lastn_snoc_full: "0 < n \<Longrightarrow> n \<le> length xs \<Longrightarrow> lastn n (xs @ [x]) = tl (lastn n xs) @ [x]"
  by (simp add: lastn_def tl_drop Suc_diff_le drop_Suc)

lemma lastn_snoc_room: "length xs < n \<Longrightarrow> lastn n (xs @ [x]) = lastn n xs @ [x]"
  by simp

text \<open>The state after the eviction and the append, before the reclaiming of the dead prefix.\<close>

lemma Record_capacity [simp]: "em_capacity (Record now ev m) = em_capacity m"
  by (simp add: Record_def Let_def)

lemma Record_ok:
  assumes ok: "memory_ok m es"
  shows "memory_ok (Record now ev m) (es @ [numbered (length es) (now, ev)])"
proof -
  note inv = memory_okD [OF ok]
  have len: "length (liveLocked m) = min (em_capacity m) (length es)" using inv(4) by simp
  let ?e = "numbered (length es) (now, ev)" and ?c = "em_capacity m" and ?live = "liveLocked m"
  have e: "prepare_event now ev\<lparr>se_seq := length es\<rparr> = ?e" by (simp add: numbered_def)
  show ?thesis
  proof (cases "?c \<le> length ?live")
    case True
    then have full: "?c \<le> length es" and st: "em_start m < length (em_events m)" using inv(1) len by (auto simp: liveLocked_def)
    from st have live: "?live = em_events m ! em_start m # tl ?live" "drop (em_start m + 1) (em_events m) = tl ?live"
      using Cons_nth_drop_Suc [OF st, symmetric] by (simp_all add: liveLocked_def)
    have "sum_list (map eventStringBytes ?live) = eventStringBytes (em_events m ! em_start m) + sum_list (map eventStringBytes (tl ?live))"
      by (subst live(1)) simp
    moreover have "lastn ?c (es @ [?e]) = tl ?live @ [?e]" using lastn_snoc_full [OF inv(1) full] inv(4) by simp
    ultimately show ?thesis using True full st live(2) inv
      by (auto simp: memory_ok_def Record_def Let_def e liveLocked_def)
  next
    case False
    then have room: "length es < ?c" using len by auto
    with False inv lastn_snoc_room [OF room, of ?e] show ?thesis
      by (auto simp: memory_ok_def Record_def Let_def e liveLocked_def)
  qed
qed

lemma record_all_ok: "0 < em_capacity m \<Longrightarrow> memory_ok m [] \<Longrightarrow> memory_ok (record_all rs m) (event_log rs) \<and> em_capacity (record_all rs m) = em_capacity m"
proof (induction rs rule: rev_induct)
  case Nil
  then show ?case by (simp add: record_all_def event_log_def)
next
  case (snoc r rs)
  then have ih: "memory_ok (record_all rs m) (event_log rs)" "em_capacity (record_all rs m) = em_capacity m" by auto
  have r: "record_all (rs @ [r]) m = Record (fst r) (snd r) (record_all rs m)" by (simp add: record_all_def)
  from Record_ok [OF ih(1), of "fst r" "snd r"] ih(2) show ?case by (simp add: r event_log_snoc)
qed

lemma NewMemory_ok: "memory_ok (NewMemory c) []"
  by (simp add: memory_ok_def NewMemory_def liveLocked_def lastn_def DefaultCapacity_def)

lemma prepare_event_time: "se_Time (prepare_event now ev) = (if se_Time ev = 0 then now else se_Time ev)"
  by (simp add: prepare_event_def normalizeEvent_def with_values_def Let_def split: prod.split)

lemma length_event_values [simp]: "length (event_values ev) = 16"
  by (simp add: event_values_def)

lemma event_values_with: "length vs = 16 \<Longrightarrow> event_values (with_values vs ev) = vs"
  by (rule nth_equalityI) (auto simp: event_values_def with_values_def numeral_eq_Suc less_Suc_eq)

lemma event_values_prepared:
  "\<exists>ws. event_values (prepare_event now ev) = StringsBudget ws MaxFieldBytes MaxEventBytes"
proof -
  obtain w where w: "prepare_event now ev = (case normalizeEvent w of (ev, changed) \<Rightarrow> if changed then ev\<lparr>se_Truncated := True\<rparr> else ev)"
    unfolding prepare_event_def Let_def by blast
  have "event_values (x\<lparr>se_Truncated := True\<rparr>) = event_values x" for x by (simp add: event_values_def)
  moreover have "event_values (with_values (StringsBudget (event_values w) MaxFieldBytes MaxEventBytes) w) = StringsBudget (event_values w) MaxFieldBytes MaxEventBytes"
    by (rule event_values_with) simp
  ultimately have "event_values (prepare_event now ev) = StringsBudget (event_values w) MaxFieldBytes MaxEventBytes"
    unfolding w normalizeEvent_def Let_def prod.case by (simp only: if_distrib [of event_values] if_cancel)
  then show ?thesis by blast
qed

lemma event_values_numbered: "event_values (numbered i r) = event_values (prepare_event (fst r) (snd r))"
  by (simp add: numbered_def event_values_def)

lemma numbered_bounded: "eventStringBytes (numbered i r) \<le> MaxEventBytes"
  using event_values_prepared [of "fst r" "snd r"] StringsBudget_sum [of MaxEventBytes _ MaxFieldBytes]
  by (auto simp: eventStringBytes_def event_values_numbered MaxEventBytes_def)

text \<open>C25. After any calls of \<open>Record\<close> the store shows exactly the last events recorded, as many as its capacity, in order and each with its texts within the
  ceilings; what was recorded and evicted is counted exactly, and the retained bytes are those of the events shown, at most the capacity times
  the bytes of an event. The slice behind it never exceeds twice the capacity.\<close>

theorem event_store_exact:
  "let m = record_all rs (NewMemory c) in liveLocked m = lastn (em_capacity m) (event_log rs) \<and>
    st_Recorded (memory_Stats m) = length rs \<and> st_Recorded (memory_Stats m) = st_Evicted (memory_Stats m) + st_Retained (memory_Stats m) \<and>
    st_RetainedBytes (memory_Stats m) = sum_list (map eventStringBytes (liveLocked m)) \<and>
    st_RetainedBytes (memory_Stats m) \<le> st_MaxBytes (memory_Stats m) \<and>
    list_all (\<lambda>e. list_all (\<lambda>v. utf8_valid v \<and> int (length v) \<le> MaxFieldBytes) (event_values e)) (liveLocked m) \<and>
    length (em_events m) < 2 * em_capacity m"
proof -
  define m where "m = record_all rs (NewMemory c)"
  have ok: "memory_ok m (event_log rs)"
    unfolding m_def using record_all_ok [OF _ NewMemory_ok] memory_okD(1) [OF NewMemory_ok] by blast
  note inv = memory_okD [OF ok]
  have live: "e \<in> set (liveLocked m) \<Longrightarrow> \<exists>i r. e = numbered i r" for e
    unfolding inv(4) lastn_def event_log_def by (auto dest!: in_set_dropD) blast
  then have "sum_list (map eventStringBytes (liveLocked m)) \<le> int (length (liveLocked m)) * MaxEventBytes"
    using sum_list_mono [of "liveLocked m" eventStringBytes "\<lambda>_. MaxEventBytes"] numbered_bounded by (auto simp: sum_list_triv)
  moreover have len: "length (liveLocked m) = min (em_capacity m) (length rs)" using inv(4) by simp
  ultimately have "em_retainedBytes m \<le> int (em_capacity m) * MaxEventBytes"
    unfolding inv(8) by (auto simp: MaxEventBytes_def)
  moreover have "list_all (\<lambda>v. utf8_valid v \<and> int (length v) \<le> MaxFieldBytes) (event_values (numbered i r))" for i r
    using event_values_prepared [of "fst r" "snd r"] StringsBudget_each [of _ _ MaxFieldBytes MaxEventBytes]
    by (auto simp: event_values_numbered list_all_iff MaxFieldBytes_def)
  then have "list_all (\<lambda>e. list_all (\<lambda>v. utf8_valid v \<and> int (length v) \<le> MaxFieldBytes) (event_values e)) (liveLocked m)"
    unfolding list_all_iff [of _ "liveLocked m"] using live by metis
  moreover have "length (em_events m) < 2 * em_capacity m" using inv(2,3) len by (auto simp: liveLocked_def)
  ultimately show ?thesis unfolding m_def [symmetric] Let_def using inv(4,6,7,8) len
    by (auto simp: memory_Stats_def Let_def split: prod.split)
qed

section \<open>Pages\<close>

text \<open>The events a query asks for, newest first.\<close>

definition selected :: "folding \<Rightarrow> gotime \<Rightarrow> Query \<Rightarrow> StoredEvent \<Rightarrow> bool" where
  "selected lib now q e \<longleftrightarrow> se_Time e \<le> (if q_End q = 0 then now else q_End q) \<and> (q_Start q = 0 \<or> q_Start q \<le> se_Time e) \<and>
     (filter_isZero (q_Filter q) \<or> filter_matches lib (q_Filter q) e)"

definition behind :: "Query \<Rightarrow> StoredEvent \<Rightarrow> bool" where
  "behind q e \<longleftrightarrow> q_Cursor q = 0 \<or> se_seq e < q_Cursor q"

lemma behind_less: "behind q x \<Longrightarrow> se_seq e < se_seq x \<Longrightarrow> behind q e"
  by (auto simp: behind_def)

lemma behind_at: "n \<noteq> 0 \<Longrightarrow> behind (q\<lparr>q_Cursor := n\<rparr>) e \<longleftrightarrow> se_seq e < n"
  by (simp add: behind_def)

lemma page_loop_step:
  "page_loop lib q (if q_End q = 0 then now else q_End q) (e # es) rows n b =
     (let tend = (if q_End q = 0 then now else q_End q)
      in if \<not> selected lib now q e then page_loop lib q tend es rows n b
         else if \<not> behind q e then page_loop lib q tend es rows (n + 1) b
         else if nat (q_Limit q) \<le> length rows then page_loop lib q tend es rows (n + 1) True
         else page_loop lib q tend es (rows @ [e]) (n + 1) b)"
  by (auto simp: selected_def behind_def Let_def)

declare page_loop.simps(2) [simp del]

lemma page_loop_eq:
  fixes q :: Query and now :: gotime and lib :: folding
  assumes "length rows \<le> nat (q_Limit q)"
  shows "page_loop lib q (if q_End q = 0 then now else q_End q) es rows n b =
    (rows @ take (nat (q_Limit q) - length rows) (filter (\<lambda>e. selected lib now q e \<and> behind q e) es), n + length (filter (selected lib now q) es),
     b \<or> nat (q_Limit q) - length rows < length (filter (\<lambda>e. selected lib now q e \<and> behind q e) es))"
  using assms
proof (induction es arbitrary: rows n b)
  case (Cons e es)
  let ?N = "nat (q_Limit q)"
  consider "\<not> selected lib now q e" | "selected lib now q e" "\<not> behind q e" | "selected lib now q e" "behind q e" "?N \<le> length rows"
    | k where "selected lib now q e" "behind q e" "\<not> ?N \<le> length rows" "?N - length rows = Suc k" "?N - Suc (length rows) = k"
    by (metis Suc_diff_Suc not_le)
  then show ?case
  proof cases
    case 4
    then have "length (rows @ [e]) \<le> ?N" by simp
    from Cons.IH [OF this, of "n + 1" b] 4 show ?thesis unfolding page_loop_step Let_def by simp
  qed (simp_all only: page_loop_step Let_def Cons.IH [OF Cons.prems], simp_all)
qed simp

lemma memory_Page_eq:
  fixes q :: Query and now :: gotime and lib :: folding
  defines "rest \<equiv> \<lambda>m. filter (\<lambda>e. selected lib now q e \<and> behind q e) (rev (liveLocked m))"
  shows "memory_Page lib now q m =
    \<lparr>pg_Rows = take (nat (q_Limit q)) (rest m),
     pg_NextCursor = (if nat (q_Limit q) < length (rest m) \<and> 0 < q_Limit q then se_seq (last (take (nat (q_Limit q)) (rest m))) else 0),
     pg_Matched = length (filter (selected lib now q) (rev (liveLocked m))),
     pg_Retained = length (liveLocked m), pg_Truncated = (em_capacity m \<le> length (liveLocked m))\<rparr>"
  unfolding memory_Page_def Let_def rest_def by (subst page_loop_eq) auto

text \<open>Following the cursors from page to page.\<close>

fun page_walk :: "folding \<Rightarrow> gotime \<Rightarrow> Query \<Rightarrow> Memory \<Rightarrow> nat \<Rightarrow> StoredEvent list" where
  "page_walk lib now q m 0 = []"
| "page_walk lib now q m (Suc n) =
     (let p = memory_Page lib now q m
      in pg_Rows p @ (if pg_NextCursor p = 0 then [] else page_walk lib now (q\<lparr>q_Cursor := pg_NextCursor p\<rparr>) m n))"

lemma descending_cut:
  assumes "sorted_wrt (\<lambda>x y. f y < (f x :: nat)) xs" "0 < n" "n < length xs"
  shows "filter (\<lambda>x. f x < f (last (take n xs))) xs = drop n xs" "f (last (take n xs)) \<noteq> 0"
proof -
  from assms(1) have "sorted_wrt (\<lambda>x y. f y < f x) (take n xs @ drop n xs)" by simp
  then have lt: "\<And>x y. x \<in> set (take n xs) \<Longrightarrow> y \<in> set (drop n xs) \<Longrightarrow> f y < f x"
    and sorted: "sorted_wrt (\<lambda>x y. f y < f x) (take n xs)" unfolding sorted_wrt_append by blast+
  from assms have ne: "take n xs \<noteq> []" "drop n xs \<noteq> []" by auto
  then have l: "last (take n xs) \<in> set (take n xs)" by simp
  have ge: "f (last (take n xs)) \<le> f x" if "x \<in> set (take n xs)" for x
  proof -
    have ys: "butlast (take n xs) @ [last (take n xs)] = take n xs" using ne(1) by simp
    with sorted have "sorted_wrt (\<lambda>x y. f y < f x) (butlast (take n xs) @ [last (take n xs)])" by simp
    moreover from that have "x \<in> set (butlast (take n xs) @ [last (take n xs)])" unfolding ys .
    ultimately show ?thesis unfolding sorted_wrt_append by auto
  qed
  have "filter (\<lambda>x. f x < f (last (take n xs))) (take n xs @ drop n xs) = drop n xs"
    unfolding filter_append using ge lt [OF l] by (auto simp: filter_empty_conv not_less filter_id_conv)
  then show "filter (\<lambda>x. f x < f (last (take n xs))) xs = drop n xs" by simp
  from ne(2) lt [OF l hd_in_set [OF ne(2)]] show "f (last (take n xs)) \<noteq> 0" by simp
qed

lemma page_walk_rest:
  assumes "sorted_wrt (\<lambda>x y. se_seq y < se_seq x) (rev (liveLocked m))" "0 < q_Limit q"
    and "length (filter (\<lambda>e. selected lib now q e \<and> behind q e) (rev (liveLocked m))) < n"
  shows "page_walk lib now q m n = filter (\<lambda>e. selected lib now q e \<and> behind q e) (rev (liveLocked m))"
  using assms(2,3)
proof (induction n arbitrary: q)
  case (Suc n)
  let ?rest = "\<lambda>q. filter (\<lambda>e. selected lib now q e \<and> behind q e) (rev (liveLocked m))" and ?L = "nat (q_Limit q)"
  show ?case
  proof (cases "?L < length (?rest q)")
    case False
    then show ?thesis by (simp add: memory_Page_eq)
  next
    case True
    let ?c = "se_seq (last (take ?L (?rest q)))" and ?xs = "?rest q"
    let ?q = "q\<lparr>q_Cursor := ?c\<rparr>"
    have L: "0 < ?L" using Suc.prems(1) by simp
    have sorted: "sorted_wrt (\<lambda>x y. se_seq y < se_seq x) ?xs" using assms(1) by (rule sorted_wrt_filter)
    note cut = descending_cut [OF sorted L True]
    have mem: "last (take ?L ?xs) \<in> set ?xs" using L True by (metis in_set_takeD last_in_set length_greater_0_conv length_take min_less_iff_conj neq0_conv not_less_zero)
    then have "behind q (last (take ?L ?xs))" by (metis (mono_tags, lifting) mem_Collect_eq set_filter)
    then have b: "behind q e" if "se_seq e < ?c" for e using that by (rule behind_less)
    have sel: "selected lib now ?q e = selected lib now q e" for e by (simp add: selected_def)
    have beh: "behind ?q e \<longleftrightarrow> se_seq e < ?c" for e using cut(2) by (rule behind_at)
    have "?rest ?q = filter (\<lambda>e. se_seq e < ?c) ?xs"
      unfolding filter_filter sel beh by (rule filter_cong) (use b in blast)+
    with cut(1) have rest: "?rest ?q = drop ?L ?xs" by simp
    have "page_walk lib now ?q m n = ?rest ?q" using Suc.prems L True by (intro Suc.IH) (auto simp: rest)
    with True Suc.prems(1) cut(2) show ?thesis by (simp add: memory_Page_eq rest)
  qed
qed simp

lemma event_log_seq: "i < length rs \<Longrightarrow> se_seq (event_log rs ! i) = i"
  by (simp add: event_log_def nth_enumerate_eq numbered_def)

lemma live_descending:
  assumes "memory_ok m (event_log rs)"
  shows "sorted_wrt (\<lambda>x y. se_seq y < se_seq x) (rev (liveLocked m))"
proof -
  have "sorted_wrt (\<lambda>x y. se_seq x < se_seq y) (event_log rs)" by (simp add: sorted_wrt_iff_nth_less event_log_seq)
  then show ?thesis unfolding sorted_wrt_rev memory_okD(4) [OF assms] lastn_def by (rule sorted_wrt_drop)
qed

text \<open>C39. A page shows the retained events that the query selects and that lie behind its cursor, newest first, up to its limit, with the number of all that match;
  and following the cursor from the first page on, with a positive limit, shows every retained event that matches exactly once, newest first.\<close>

theorem event_paging_complete:
  assumes "m = record_all rs (NewMemory c)" "0 < q_Limit q" "q_Cursor q = 0" "length (liveLocked m) < n"
  shows "page_walk lib now q m n = filter (selected lib now q) (rev (liveLocked m)) \<and>
    pg_Rows (memory_Page lib now q m) = take (nat (q_Limit q)) (filter (selected lib now q) (rev (liveLocked m))) \<and>
    pg_Matched (memory_Page lib now q m) = length (filter (selected lib now q) (liveLocked m))"
proof -
  have ok: "memory_ok m (event_log rs)"
    unfolding assms(1) using record_all_ok [OF _ NewMemory_ok] memory_okD(1) [OF NewMemory_ok] by blast
  have b: "behind q e" for e by (simp add: behind_def assms(3))
  have "length (filter (\<lambda>e. selected lib now q e \<and> behind q e) (rev (liveLocked m))) < n"
    using assms(4) length_filter_le [of "\<lambda>e. selected lib now q e \<and> behind q e" "rev (liveLocked m)"] by simp
  from page_walk_rest [OF live_descending [OF ok] assms(2) this] show ?thesis
    by (simp add: memory_Page_eq b rev_filter [symmetric])
qed

definition blank_event :: StoredEvent where
  "blank_event = \<lparr>se_Time = 5, se_Source = ''audit'', se_Tailnet = [], se_Action = [], se_Type = [], se_Origin = [], se_ActorID = [], se_ActorName = [],
     se_ActorType = [], se_TargetID = [], se_TargetName = [], se_TargetType = [], se_TargetProperty = [], se_Severity = ''info'', se_Error = [],
     se_Summary = [], se_Details = [], se_Truncated = False, se_seq = 0\<rparr>"

definition blank_query :: Query where
  "blank_query = \<lparr>q_Start = 0, q_End = 9, q_Limit = 1, q_Cursor = 0,
     q_Filter = \<lparr>ef_Source = [], ef_Actor = [], ef_Action = [], ef_Target = [], ef_Severity = [], ef_Type = [], ef_ErrorsOnly = False\<rparr>\<rparr>"

definition ascii_folding :: folding where
  "ascii_folding = \<lparr>lib_ToLower = strings_ToLower, lib_EqualFold = (\<lambda>s t. strings_ToLower s = strings_ToLower t)\<rparr>"

theorem event_paging_complete_witness:
  "let m = record_all [(7, blank_event), (8, blank_event\<lparr>se_Time := 0\<rparr>), (8, blank_event)] (NewMemory 2)
   in length (page_walk ascii_folding 9 blank_query m 3) = 2 \<and> pg_Matched (memory_Page ascii_folding 9 blank_query m) = 2"
proof -
  let ?m = "record_all [(7, blank_event), (8, blank_event\<lparr>se_Time := 0\<rparr>), (8, blank_event)] (NewMemory 2)"
  have live: "liveLocked ?m = [numbered (Suc 0) (8, blank_event\<lparr>se_Time := 0\<rparr>), numbered (Suc (Suc 0)) (8, blank_event)]"
    using record_all_ok [OF _ NewMemory_ok, of 2 "[(7, blank_event), (8, blank_event\<lparr>se_Time := 0\<rparr>), (8, blank_event)]"]
    by (simp add: memory_ok_def NewMemory_def event_log_def lastn_def)
  then have len: "length (liveLocked ?m) = 2" "filter (selected ascii_folding 9 blank_query) (liveLocked ?m) = liveLocked ?m"
    by (simp_all add: selected_def filter_isZero_def blank_query_def numbered_def prepare_event_time blank_event_def)
  then have "length (liveLocked ?m) < 3" by simp
  from event_paging_complete [OF refl _ _ this, of blank_query ascii_folding 9] len show ?thesis
    by (simp add: blank_query_def rev_filter [symmetric])
qed

end
