(* ===== verification/Audit_Log.thy ===== *)
theory Audit_Log
  imports Schema_Drift Event_Store Dedup Checkpoint_Store Go_Netip
begin

text \<open>
  \<open>src/internal/audit\<close>: configuration audit events (\<open>record.go\<close>, \<open>timing.go\<close>), the vocabularies and change categories (\<open>classify.go\<close>), the key shared with the
  webhook receiver (\<open>crossdedup.go\<close>) and the processor that turns an event into a log record and counters (\<open>processor.go\<close>). \<open>strings.ToLower\<close> and the
  JSON functions are parameters; the times the processor and its sets read are given per call.
\<close>

section \<open>Records\<close>

record Actor =
  ac_ID :: string
  ac_Type :: string
  ac_LoginName :: string
  ac_DisplayName :: string
  ac_Tags :: "string list"

record Target =
  ta_ID :: string
  ta_Name :: string
  ta_Type :: string
  ta_Property :: string
  ta_IsEphemeral :: "bool option"

record AuditEvent =
  ae_EventTime :: gotime
  ae_Logged :: gotime
  ae_DeferredAt :: gotime
  ae_Type :: string
  ae_EventGroupID :: string
  ae_Origin :: string
  ae_Actor :: Actor
  ae_Target :: Target
  ae_Action :: string
  ae_Old :: string
  ae_New :: string
  ae_ActionDetails :: string
  ae_Error :: string

record ConfigurationResponse =
  cr_Version :: string
  cr_Tailnet :: string
  cr_TailnetID :: string
  cr_Logs :: "AuditEvent list"

definition TailnetName :: "ConfigurationResponse \<Rightarrow> string" where
  "TailnetName r = (if cr_TailnetID r \<noteq> [] then cr_TailnetID r else cr_Tailnet r)"

definition audit_EventTimestamp :: "AuditEvent \<Rightarrow> gotime" where
  "audit_EventTimestamp ev = (if ae_EventTime ev \<noteq> 0 then ae_EventTime ev else ae_Logged ev)"

definition audit_CaptureTimestamp :: "AuditEvent \<Rightarrow> gotime" where
  "audit_CaptureTimestamp ev = ae_Logged ev"

section \<open>Vocabularies\<close>

definition knownOrigins :: "string list" where
  "knownOrigins =
     [''ADMIN_CONSOLE'', ''CONFIG_API'', ''CONTROL'', ''IDENTITY_PROVIDER'', ''NODE'', ''SUPPORT_REQUEST'', ''STRIPE'', ''SECURITY_NOTIFICATION'',
      ''LEGAL_NOTIFICATION'', ''BORDER0_API'']"

definition deviceChurnActions :: "string list" where
  "deviceChurnActions =
     [''CREATE'', ''DELETE'', ''EXPIRED'']"

definition apiKeyActions :: "string list" where
  "apiKeyActions =
     [''CREATE'', ''DELETE'', ''REVOKE'']"

definition knownActions :: "string list" where
  "knownActions =
     [''LOGIN'', ''LOGOUT'', ''CREATE'', ''UPDATE'', ''DELETE'', ''CANCEL'', ''REVOKE'', ''APPROVE'', ''SUSPEND'', ''RESTORE'', ''ENABLE'', ''DISABLE'',
      ''ACCEPT'', ''EXPIRED'', ''PUSH_USER'', ''PUSH_GROUP'', ''VERIFY'', ''JOIN_WAITLIST'', ''INVITE'', ''JOIN'', ''LEAVE'', ''RESEND'',
      ''MIGRATE_AUTH_PROVIDER'']"

definition knownActorTypes :: "string list" where
  "knownActorTypes =
     [''USER'', ''NODE'', ''AUTOMATED_WORKER'', ''OAUTH_CLIENT'', ''SCIM'', ''MULLVAD'', ''LOGSTREAM'', ''SECRET_SCANNER'', ''PAM_CONNECTOR'',
      ''PAM_SERVICE_ACCOUNT'']"

definition propertyCategories :: "(string \<times> string) list" where
  "propertyCategories =
     [(''ACL'', ''acl''), (''KEY_EXPIRY'', ''key_expiry''), (''KEY_EXPIRY_TIME'', ''key_expiry''), (''EXIT_NODE'', ''exit_node''),
      (''NETWORK_FLOW_LOGGING'', ''network_flow_logging''), (''LOG_EXIT_FLOWS'', ''exit_flow_logging''), (''TKA'', ''tailnet_lock''),
      (''USER_ROLE'', ''user_role''), (''MACHINE_APPROVAL_NEEDED'', ''machine_approval''), (''USER_APPROVAL_REQUIRED'', ''user_approval''),
      (''POSTURE_INTEGRATION'', ''posture_integration''), (''COLLECT_POSTURE_IDENTITY'', ''collect_posture_identity''), (''MAGIC_DNS'', ''magic_dns''),
      (''DNS_CONFIG'', ''dns_config''), (''LOGSTREAM_ENDPOINT'', ''logstream_endpoint''), (''MAX_KEY_DURATION'', ''key_duration''),
      (''FILE_SHARING'', ''file_sharing''), (''HTTPS'', ''https''), (''SCIM'', ''scim''), (''SUBSCRIBED_EVENTS'', ''webhook_subscription''),
      (''SECURITY_EMAIL'', ''security_contact''), (''NODE_SHARE'', ''node_share''), (''TAILNET_INVITE'', ''tailnet_invite''),
      (''AUTH_PROVIDER'', ''auth_provider''), (''SECRET'', ''secret''), (''BORDER0_PROVISIONING'', ''pam_provisioning'')]"

definition pamTargetCategories :: "(string \<times> string) list" where
  "pamTargetCategories =
     [(''PAM_SERVICE'', ''pam_service''), (''PAM_CONNECTOR'', ''pam_connector''), (''PAM_SERVICE_ACCOUNT'', ''pam_service_account'')]"

definition propertyExclusions :: "string list" where
  "propertyExclusions =
     [''ACL_TAGS'', ''ACCOUNT_EMAIL'', ''ADDRESS'', ''ALLOWED_IPS'', ''AUTO_APPROVED_ROUTES'', ''ATTRIBUTES'', ''BILLING_OWNER'', ''COLLECT_SERVICES'',
      ''MULLVAD_VPN'', ''EMAIL'', ''FEATURE'', ''MACHINE_AUTH_NEEDED'', ''MACHINE_NAME'', ''GEOSTEERING'', ''ROUTE_SELECTION'', ''PAYMENT_INFO'',
      ''POSTURE_IDENTITY'', ''STRIPE_CUSTOMER_ID'', ''SUBSCRIPTION'', ''SUPPORT_EMAIL'', ''TCD'']"

definition knownProperty :: "string list" where
  "knownProperty = map fst propertyCategories @ propertyExclusions"

definition normalizeOrigin :: "string \<Rightarrow> string" where
  "normalizeOrigin origin = (if origin \<in> set knownOrigins then origin else ''other'')"

definition normalizeAction :: "string \<Rightarrow> string" where
  "normalizeAction action = (if action \<in> set knownActions then action else ''other'')"

definition normalizeActorType :: "string \<Rightarrow> string" where
  "normalizeActorType actorType = (if actorType \<in> set knownActorTypes then actorType else ''other'')"

definition ChangeCategory :: "string \<Rightarrow> string \<Rightarrow> string \<Rightarrow> string option" where
  "ChangeCategory targetProperty targetType action =
     (case map_of propertyCategories targetProperty of
        Some cat \<Rightarrow> Some cat
      | None \<Rightarrow>
          (case map_of pamTargetCategories targetType of
             Some cat \<Rightarrow> Some cat
           | None \<Rightarrow>
               if targetType = ''NODE'' then (if action \<in> set deviceChurnActions then Some ''device'' else None)
               else if targetType = ''API_KEY'' then (if action \<in> set apiKeyActions then Some ''api_key'' else None)
               else None))"

definition classifyChange :: "AuditEvent \<Rightarrow> string option" where
  "classifyChange ev = ChangeCategory (ta_Property (ae_Target ev)) (ta_Type (ae_Target ev)) (ae_Action ev)"

section \<open>Keys\<close>

definition crossKeyBucket :: duration where "crossKeyBucket = second_ns"

text \<open>The time is truncated to the second before it is formatted, so that RFC 3339 with and without fraction agree.\<close>

definition NormalizedCrossKey :: "string \<Rightarrow> string \<Rightarrow> string \<Rightarrow> gotime \<Rightarrow> string option" where
  "NormalizedCrossKey verb subjectType subjectID t =
     (if verb = [] \<or> subjectType = [] \<or> subjectID = [] then None
      else Some (''xsrc|'' @ verb @ ''|'' @ subjectType @ ''|'' @ subjectID @ ''|'' @ format_rfc3339nano (t - t mod crossKeyBucket)))"

record audit_lib =
  al_ToLower :: "string \<Rightarrow> string"
  al_UnmarshalString :: "string \<Rightarrow> string option"
  al_Compact :: "string \<Rightarrow> string option"

definition CrossSourceKey :: "audit_lib \<Rightarrow> AuditEvent \<Rightarrow> string option" where
  "CrossSourceKey lib ev =
     NormalizedCrossKey (al_ToLower lib (ae_Action ev)) (al_ToLower lib (ta_Type (ae_Target ev))) (ta_ID (ae_Target ev)) (ae_EventTime ev)"

definition DedupKey :: "AuditEvent \<Rightarrow> string" where
  "DedupKey ev =
     (if ae_EventGroupID ev \<noteq> [] then ae_EventGroupID ev @ ''|'' @ ae_Action ev @ ''|'' @ ta_ID (ae_Target ev) @ ''|'' @ ta_Property (ae_Target ev)
      else format_rfc3339nano (ae_EventTime ev) @ ''|'' @ ae_Action ev @ ''|'' @ ta_ID (ae_Target ev))"

section \<open>Rendering\<close>

fun canonical_loop :: "string list \<Rightarrow> string list \<Rightarrow> string list" where
  "canonical_loop [] canonical = canonical"
| "canonical_loop (tag # tags) canonical =
     (let tag = strings_TrimSpace tag
      in if tag = [] then canonical_loop tags canonical
         else if tag \<in> set canonical then canonical_loop tags canonical
         else canonical_loop tags (canonical @ [tag]))"

definition canonicalTags :: "string list \<Rightarrow> string" where
  "canonicalTags tags = (if tags = [] then [] else join_byte (CHR '','') (sort_Strings (canonical_loop tags [])))"

definition renderRaw :: "audit_lib \<Rightarrow> string \<Rightarrow> string option" where
  "renderRaw lib raw =
     (let trimmed = strings_TrimSpace raw
      in if trimmed = [] \<or> trimmed = ''null'' then None
         else case (if hd trimmed = CHR 0x22 then al_UnmarshalString lib trimmed else None) of
           Some s \<Rightarrow> if s = [] then None else Some s
         | None \<Rightarrow> (case al_Compact lib trimmed of None \<Rightarrow> Some trimmed | Some b \<Rightarrow> Some b))"

definition summary :: "AuditEvent \<Rightarrow> string" where
  "summary ev =
     (if ta_Property (ae_Target ev) \<noteq> []
      then ae_Action ev @ '' on '' @ ta_Type (ae_Target ev) @ ''.'' @ ta_Property (ae_Target ev) @ '' via '' @ ae_Origin ev
      else ae_Action ev @ '' on '' @ ta_Type (ae_Target ev) @ '' via '' @ ae_Origin ev)"

definition auditDiff :: "audit_lib \<Rightarrow> AuditEvent \<Rightarrow> string" where
  "auditDiff lib ev =
     (case (renderRaw lib (ae_Old ev), renderRaw lib (ae_New ev)) of
        (Some o1, Some n1) \<Rightarrow> ''old: '' @ o1 @ CHR 0x0A # ''new: '' @ n1
      | (None, Some n1) \<Rightarrow> ''new: '' @ n1
      | (Some o1, None) \<Rightarrow> ''old: '' @ o1
      | (None, None) \<Rightarrow> [])"

definition storeEvent :: "audit_lib \<Rightarrow> AuditEvent \<Rightarrow> severity \<Rightarrow> StoredEvent" where
  "storeEvent lib ev sev =
     \<lparr>se_Time = ae_EventTime ev, se_Source = ''audit'', se_Tailnet = [], se_Action = ae_Action ev, se_Type = ae_Type ev, se_Origin = ae_Origin ev,
      se_ActorID = ac_ID (ae_Actor ev), se_ActorName = ac_LoginName (ae_Actor ev), se_ActorType = ac_Type (ae_Actor ev),
      se_TargetID = ta_ID (ae_Target ev), se_TargetName = ta_Name (ae_Target ev), se_TargetType = ta_Type (ae_Target ev),
      se_TargetProperty = ta_Property (ae_Target ev), se_Severity = (if sev = SeverityWarn then ''warn'' else ''info''),
      se_Error = ae_Error ev, se_Summary = summary ev, se_Details = auditDiff lib ev, se_Truncated = False, se_seq = 0\<rparr>"

section \<open>The processor\<close>

record 's AuditProcessor =
  ap_dedup :: "dedup_Set option"
  ap_crossDedup :: "dedup_Set option"
  ap_logger :: bool
  ap_store :: "Memory option"
  ap_checkpoints :: 's
  ap_schema :: schema_window
  ap_out :: "emission list"
  ap_warnings :: "(string \<times> string) list"

record clock =
  ck_dedup :: gotime
  ck_cross :: gotime
  ck_accepted :: gotime
  ck_warn :: "string \<Rightarrow> gotime"
  ck_store :: gotime

definition emit :: "emission \<Rightarrow> 's AuditProcessor \<Rightarrow> 's AuditProcessor" where
  "emit x p = p\<lparr>ap_out := ap_out p @ [x]\<rparr>"

text \<open>\<open>Add\<close> on an optional set: whether the key is new, where a missing set admits everything.\<close>

definition admit :: "(nat \<Rightarrow> nat) \<Rightarrow> gotime \<Rightarrow> string option \<Rightarrow> dedup_Set option \<Rightarrow> (bool \<times> dedup_Set option) option" where
  "admit grow now key ds =
     (case (key, ds) of
        (Some k, Some s) \<Rightarrow> map_option (\<lambda>(fresh, s). (fresh, Some s)) (dedup_Add grow now k s)
      | _ \<Rightarrow> Some (True, ds))"

definition attr_if :: "bool \<Rightarrow> string \<Rightarrow> string \<Rightarrow> attrs \<Rightarrow> attrs" where
  "attr_if b key v as = (if b then AList.update key v as else as)"

definition audit_attrs :: "audit_lib \<Rightarrow> AuditEvent \<Rightarrow> attrs" where
  "audit_attrs lib ev =
     (let as = [(''tailscale.audit.action'', ae_Action ev), (''tailscale.audit.origin'', ae_Origin ev), (''tailscale.audit.event_group_id'', ae_EventGroupID ev),
                (''user.id'', ac_ID (ae_Actor ev)), (''user.name'', ac_LoginName (ae_Actor ev)), (''user.full_name'', ac_DisplayName (ae_Actor ev)),
                (''tailscale.actor.type'', ac_Type (ae_Actor ev)), (''tailscale.target.id'', ta_ID (ae_Target ev)), (''tailscale.target.name'', ta_Name (ae_Target ev)),
                (''tailscale.target.type'', ta_Type (ae_Target ev)), (''tailscale.target.property'', ta_Property (ae_Target ev))];
          as = attr_if (ae_Error ev \<noteq> []) ''error.message'' (ae_Error ev) as;
          as = (case renderRaw lib (ae_Old ev) of Some s \<Rightarrow> AList.update ''tailscale.audit.old'' s as | None \<Rightarrow> as);
          as = (case renderRaw lib (ae_New ev) of Some s \<Rightarrow> AList.update ''tailscale.audit.new'' s as | None \<Rightarrow> as);
          as = attr_if (ae_ActionDetails ev \<noteq> []) ''tailscale.audit.details'' (ae_ActionDetails ev) as;
          as = attr_if (ae_Type ev \<noteq> []) ''tailscale.audit.type'' (ae_Type ev) as;
          as = attr_if (canonicalTags (ac_Tags (ae_Actor ev)) \<noteq> []) ''tailscale.actor.tags'' (canonicalTags (ac_Tags (ae_Actor ev))) as;
          as = (case ta_IsEphemeral (ae_Target ev) of
                  Some b \<Rightarrow> AList.update ''tailscale.target.ephemeral'' (if b then ''true'' else ''false'') as | None \<Rightarrow> as)
      in attr_if (ae_DeferredAt ev \<noteq> 0) ''tailscale.audit.deferred_at'' (format_rfc3339nano (ae_DeferredAt ev)) as)"

definition observeSchemaValue :: "clock \<Rightarrow> string \<Rightarrow> string \<Rightarrow> string list \<Rightarrow> 's AuditProcessor \<Rightarrow> 's AuditProcessor" where
  "observeSchemaValue ck fld val known p =
     (let p = (if val \<in> set known then p
               else case warnUnknownSchemaValue (ap_logger p) (ck_warn ck fld) fld val (ap_schema p) of (ws, w) \<Rightarrow>
                 p\<lparr>ap_schema := w, ap_warnings := ap_warnings p @ ws\<rparr>)
      in emit (CounterPoint ''tailscale.config.audit.schema_drift'' [(''field'', fld), (''status'', if val \<in> set known then ''known'' else ''unknown'')]) p)"

definition observeSchemaDrift :: "clock \<Rightarrow> AuditEvent \<Rightarrow> 's AuditProcessor \<Rightarrow> 's AuditProcessor" where
  "observeSchemaDrift ck ev p =
     (let p = observeSchemaValue ck ''action'' (ae_Action ev) knownActions p;
          p = observeSchemaValue ck ''origin'' (ae_Origin ev) knownOrigins p;
          p = observeSchemaValue ck ''actor_type'' (ac_Type (ae_Actor ev)) knownActorTypes p
      in if ta_Property (ae_Target ev) \<noteq> [] then observeSchemaValue ck ''target_property'' (ta_Property (ae_Target ev)) knownProperty p else p)"

definition ACLAuditChangeCheckpointKey :: string where "ACLAuditChangeCheckpointKey = ''acl/audit/last_change''"

definition persistACLChange :: "'s CheckpointStore option \<Rightarrow> gotime \<Rightarrow> 's AuditProcessor \<Rightarrow> 's AuditProcessor" where
  "persistACLChange cp at p =
     (case cp of
        None \<Rightarrow> p
      | Some st \<Rightarrow>
          if at = 0 then p
          else if (case cs_Get st ACLAuditChangeCheckpointKey (ap_checkpoints p) of Some current \<Rightarrow> \<not> current < at | None \<Rightarrow> False) then p
          else case run_state (cs_Set st ACLAuditChangeCheckpointKey at) (ap_checkpoints p) of (e, s) \<Rightarrow>
            (let p = p\<lparr>ap_checkpoints := s\<rparr>
             in if e = None then p
                else emit (CounterPoint ''tailscale2otel.checkpoint.persist.errors'' [(''tailscale.collector'', ''audit'')]) p))"

definition emitDelayHistograms :: "AuditEvent \<Rightarrow> gotime \<Rightarrow> 's AuditProcessor \<Rightarrow> 's AuditProcessor" where
  "emitDelayHistograms ev acceptedAt p =
     (let p = (if ae_DeferredAt ev \<noteq> 0 \<and> ae_EventTime ev \<noteq> 0 \<and> 0 \<le> time_Sub (ae_DeferredAt ev) (ae_EventTime ev)
               then emit (HistogramPoint ''tailscale.config.audit.deferred.delay'' (time_Sub (ae_DeferredAt ev) (ae_EventTime ev))) p else p);
          sourceTime = (if ae_DeferredAt ev \<noteq> 0 \<and> (ae_EventTime ev = 0 \<or> \<not> ae_DeferredAt ev < ae_EventTime ev) then ae_DeferredAt ev else ae_EventTime ev)
      in if sourceTime \<noteq> 0 \<and> 0 \<le> time_Sub acceptedAt sourceTime
         then emit (HistogramPoint ''tailscale.config.audit.processing.delay'' (time_Sub acceptedAt sourceTime)) p else p)"

definition emit_change :: "'s CheckpointStore option \<Rightarrow> AuditEvent \<Rightarrow> 's AuditProcessor \<Rightarrow> 's AuditProcessor" where
  "emit_change cp ev p =
     (case classifyChange ev of
        None \<Rightarrow> p
      | Some cat \<Rightarrow>
          let p = emit (CounterPoint ''tailscale.config.audit.changes''
            [(''tailscale.audit.change'', cat), (''tailscale.audit.action'', normalizeAction (ae_Action ev)),
             (''tailscale.actor.type'', normalizeActorType (ac_Type (ae_Actor ev)))]) p
          in if cat = ''acl'' then persistACLChange cp (audit_EventTimestamp ev) p else p)"

definition feed_store :: "gotime \<Rightarrow> StoredEvent \<Rightarrow> 's AuditProcessor \<Rightarrow> 's AuditProcessor" where
  "feed_store now e p = (case ap_store p of None \<Rightarrow> p | Some m \<Rightarrow> p\<lparr>ap_store := Some (Record now e m)\<rparr>)"

text \<open>What \<open>ProcessCtx\<close> does with an event that is not a duplicate.\<close>

definition emit_event :: "audit_lib \<Rightarrow> 's CheckpointStore option \<Rightarrow> clock \<Rightarrow> AuditEvent \<Rightarrow> 's AuditProcessor \<Rightarrow> 's AuditProcessor" where
  "emit_event lib cp ck ev p =
     (let severity = (if ae_Error ev \<noteq> [] then SeverityWarn else SeverityInfo);
          p = emit (LogEvent ''tailscale.config.audit'' (summary ev) severity (ae_EventTime ev) (audit_attrs lib ev)) p;
          p = emit (CounterPoint ''tailscale.config.audit.events''
                [(''tailscale.audit.action'', normalizeAction (ae_Action ev)), (''tailscale.audit.origin'', normalizeOrigin (ae_Origin ev))]) p;
          p = observeSchemaDrift ck ev p;
          p = emit_change cp ev p;
          p = emitDelayHistograms ev (ck_accepted ck) p
      in feed_store (ck_store ck) (storeEvent lib ev severity) p)"

definition ProcessCtx ::
  "audit_lib \<Rightarrow> 's CheckpointStore option \<Rightarrow> (nat \<Rightarrow> nat) \<Rightarrow> clock \<Rightarrow> AuditEvent \<Rightarrow> 's AuditProcessor \<Rightarrow> 's AuditProcessor option" where
  "ProcessCtx lib cp grow ck ev p =
     (case admit grow (ck_dedup ck) (Some (DedupKey ev)) (ap_dedup p) of
        None \<Rightarrow> None
      | Some (fresh, ds) \<Rightarrow>
          let p = p\<lparr>ap_dedup := ds\<rparr>
          in if \<not> fresh then Some p
             else case admit grow (ck_cross ck) (CrossSourceKey lib ev) (ap_crossDedup p) of
               None \<Rightarrow> None
             | Some (fresh, ds) \<Rightarrow>
                 let p = p\<lparr>ap_crossDedup := ds\<rparr> in if \<not> fresh then Some p else Some (emit_event lib cp ck ev p))"

fun ProcessAllCtx ::
  "audit_lib \<Rightarrow> 's CheckpointStore option \<Rightarrow> (nat \<Rightarrow> nat) \<Rightarrow> (clock \<times> AuditEvent) list \<Rightarrow> 's AuditProcessor \<Rightarrow> 's AuditProcessor option" where
  "ProcessAllCtx lib cp grow [] p = Some p"
| "ProcessAllCtx lib cp grow ((ck, ev) # evs) p =
     (case ProcessCtx lib cp grow ck ev p of None \<Rightarrow> None | Some p \<Rightarrow> ProcessAllCtx lib cp grow evs p)"

section \<open>The series an event can create\<close>

definition labels :: "string list \<Rightarrow> string set" where
  "labels known = insert ''other'' (set known)"

definition change_categories :: "string set" where
  "change_categories = insert ''device'' (insert ''api_key'' (set (map snd propertyCategories) \<union> set (map snd pamTargetCategories)))"

definition audit_series :: "(string \<times> attrs) set" where
  "audit_series =
     (\<lambda>(a, b). (''tailscale.config.audit.events'', [(''tailscale.audit.action'', a), (''tailscale.audit.origin'', b)])) ` (labels knownActions \<times> labels knownOrigins) \<union>
     (\<lambda>(a, b). (''tailscale.config.audit.schema_drift'', [(''field'', a), (''status'', b)])) `
       ({''action'', ''origin'', ''actor_type'', ''target_property''} \<times> {''known'', ''unknown''}) \<union>
     (\<lambda>(a, b, d). (''tailscale.config.audit.changes'', [(''tailscale.audit.change'', a), (''tailscale.audit.action'', b), (''tailscale.actor.type'', d)])) `
       (change_categories \<times> labels knownActions \<times> labels knownActorTypes) \<union>
     {(''tailscale2otel.checkpoint.persist.errors'', [(''tailscale.collector'', ''audit'')])}"

definition bounded_point :: "emission \<Rightarrow> bool" where
  "bounded_point x \<longleftrightarrow> (case x of LogEvent n b s t as \<Rightarrow> False | CounterPoint n as \<Rightarrow> (n, as) \<in> audit_series | HistogramPoint n v \<Rightarrow> True)"

text \<open>A step that only adds such points to the output.\<close>

definition adds_points :: "'s AuditProcessor \<Rightarrow> 's AuditProcessor \<Rightarrow> bool" where
  "adds_points p p' \<longleftrightarrow> (\<exists>xs. ap_out p' = ap_out p @ xs \<and> list_all bounded_point xs)"

lemma adds_points_refl: "ap_out p' = ap_out p \<Longrightarrow> adds_points p p'"
  by (auto simp: adds_points_def intro: exI [of _ "[]"])

lemma adds_points_trans [trans]: "adds_points p q \<Longrightarrow> adds_points q r \<Longrightarrow> adds_points p r"
  by (force simp: adds_points_def)

lemma adds_points_emit: "bounded_point x \<Longrightarrow> adds_points p (emit x p)"
  by (simp add: adds_points_def emit_def)

lemma adds_points_Let: "adds_points p q \<Longrightarrow> adds_points q (f q) \<Longrightarrow> adds_points p (let q' = q in f q')"
  by (simp add: Let_def adds_points_trans)

lemma labels_normalize: "normalizeAction a \<in> labels knownActions" "normalizeOrigin b \<in> labels knownOrigins" "normalizeActorType d \<in> labels knownActorTypes"
  by (auto simp: labels_def normalizeAction_def normalizeOrigin_def normalizeActorType_def)

lemma ChangeCategory_closed: "ChangeCategory a b d = Some cat \<Longrightarrow> cat \<in> change_categories"
  unfolding ChangeCategory_def change_categories_def
  by (auto split: option.splits if_splits dest!: map_of_SomeD intro: rev_image_eqI)

lemma observeSchemaValue_adds:
  assumes "fld \<in> {''action'', ''origin'', ''actor_type'', ''target_property''}"
  shows "adds_points p (observeSchemaValue ck fld val known p)"
proof -
  have "bounded_point (CounterPoint ''tailscale.config.audit.schema_drift'' [(''field'', fld), (''status'', if val \<in> set known then ''known'' else ''unknown'')])"
    using assms unfolding bounded_point_def audit_series_def by auto
  then show ?thesis unfolding observeSchemaValue_def
    by (intro adds_points_Let adds_points_emit) (auto intro: adds_points_refl split: prod.split)
qed

lemma observeSchemaDrift_adds: "adds_points p (observeSchemaDrift ck ev p)"
  unfolding observeSchemaDrift_def
  by (intro adds_points_Let observeSchemaValue_adds) (auto intro: observeSchemaValue_adds adds_points_refl)

lemma persistACLChange_adds: "adds_points p (persistACLChange cp at p)"
proof -
  have "bounded_point (CounterPoint ''tailscale2otel.checkpoint.persist.errors'' [(''tailscale.collector'', ''audit'')])"
    by (simp add: bounded_point_def audit_series_def)
  then show ?thesis by (auto simp: persistACLChange_def emit_def Let_def adds_points_def split: option.split prod.split)
qed

lemma emitDelayHistograms_adds: "adds_points p (emitDelayHistograms ev acceptedAt p)"
  unfolding emitDelayHistograms_def by (auto simp: Let_def emit_def adds_points_def bounded_point_def)

lemma changes_bounded:
  assumes "cat \<in> change_categories"
  shows "bounded_point (CounterPoint ''tailscale.config.audit.changes''
       [(''tailscale.audit.change'', cat), (''tailscale.audit.action'', normalizeAction a), (''tailscale.actor.type'', normalizeActorType d)])"
proof -
  have "(''tailscale.config.audit.changes'', [(''tailscale.audit.change'', cat), (''tailscale.audit.action'', normalizeAction a), (''tailscale.actor.type'', normalizeActorType d)])
    \<in> (\<lambda>(a, b, d). (''tailscale.config.audit.changes'', [(''tailscale.audit.change'', a), (''tailscale.audit.action'', b), (''tailscale.actor.type'', d)])) `
       (change_categories \<times> labels knownActions \<times> labels knownActorTypes)"
    by (rule rev_image_eqI [of "(cat, normalizeAction a, normalizeActorType d)"]) (use assms labels_normalize in auto)
  then show ?thesis unfolding bounded_point_def audit_series_def emission.case by blast
qed

definition audit_log_record :: "audit_lib \<Rightarrow> AuditEvent \<Rightarrow> emission" where
  "audit_log_record lib ev =
     LogEvent ''tailscale.config.audit'' (summary ev) (if ae_Error ev \<noteq> [] then SeverityWarn else SeverityInfo) (ae_EventTime ev) (audit_attrs lib ev)"

lemma emit_change_adds: "adds_points p (emit_change cp ev p)"
proof (cases "classifyChange ev")
  case (Some cat)
  note b = changes_bounded [OF ChangeCategory_closed [OF Some [unfolded classifyChange_def]]]
  show ?thesis unfolding emit_change_def Some option.case
    by (intro adds_points_Let adds_points_emit b) (auto intro: persistACLChange_adds adds_points_refl)
qed (simp add: emit_change_def adds_points_refl)

lemma feed_store_adds: "adds_points p (feed_store now e p)"
  by (rule adds_points_refl) (simp add: feed_store_def split: option.split)

lemma events_bounded:
  "bounded_point (CounterPoint ''tailscale.config.audit.events''
     [(''tailscale.audit.action'', normalizeAction a), (''tailscale.audit.origin'', normalizeOrigin b)])"
  using labels_normalize(1,2) by (auto simp: bounded_point_def audit_series_def)

lemma emit_event_adds: "adds_points (emit (audit_log_record lib ev) p) (emit_event lib cp ck ev p)"
  unfolding emit_event_def audit_log_record_def
  by (simp only: Let_def)
    (rule adds_points_trans [OF adds_points_trans [OF adds_points_trans [OF adds_points_trans
        [OF adds_points_emit [OF events_bounded] observeSchemaDrift_adds] emit_change_adds] emitDelayHistograms_adds] feed_store_adds])

text \<open>The sets the processor shares are touched by \<open>Add\<close> alone.\<close>

lemma emit_fields [simp]:
  "ap_dedup (emit x p) = ap_dedup p" "ap_crossDedup (emit x p) = ap_crossDedup p" "ap_checkpoints (emit x p) = ap_checkpoints p"
  by (simp_all add: emit_def)

lemma observeSchemaValue_fields [simp]:
  "ap_dedup (observeSchemaValue ck fld val known p) = ap_dedup p"
  "ap_crossDedup (observeSchemaValue ck fld val known p) = ap_crossDedup p"
  "ap_checkpoints (observeSchemaValue ck fld val known p) = ap_checkpoints p"
  by (simp_all add: observeSchemaValue_def Let_def split: prod.split)

lemma observeSchemaDrift_fields [simp]:
  "ap_dedup (observeSchemaDrift ck ev p) = ap_dedup p" "ap_crossDedup (observeSchemaDrift ck ev p) = ap_crossDedup p"
  "ap_checkpoints (observeSchemaDrift ck ev p) = ap_checkpoints p"
  by (simp_all add: observeSchemaDrift_def Let_def)

lemma persistACLChange_fields [simp]:
  "ap_dedup (persistACLChange cp at p) = ap_dedup p" "ap_crossDedup (persistACLChange cp at p) = ap_crossDedup p"
  by (simp_all add: persistACLChange_def Let_def split: option.split prod.split)

lemma emit_change_fields [simp]:
  "ap_dedup (emit_change cp ev p) = ap_dedup p" "ap_crossDedup (emit_change cp ev p) = ap_crossDedup p"
  by (simp_all add: emit_change_def Let_def split: option.split)

lemma emitDelayHistograms_fields [simp]:
  "ap_dedup (emitDelayHistograms ev at p) = ap_dedup p" "ap_crossDedup (emitDelayHistograms ev at p) = ap_crossDedup p"
  "ap_checkpoints (emitDelayHistograms ev at p) = ap_checkpoints p"
  by (simp_all add: emitDelayHistograms_def Let_def)

lemma feed_store_fields [simp]:
  "ap_dedup (feed_store now e p) = ap_dedup p" "ap_crossDedup (feed_store now e p) = ap_crossDedup p"
  "ap_checkpoints (feed_store now e p) = ap_checkpoints p"
  by (simp_all add: feed_store_def split: option.split)

lemma emit_event_fields [simp]:
  "ap_dedup (emit_event lib cp ck ev p) = ap_dedup p" "ap_crossDedup (emit_event lib cp ck ev p) = ap_crossDedup p"
  by (simp_all add: emit_event_def Let_def)

section \<open>Every event is logged once\<close>

definition remembered :: "string option \<Rightarrow> dedup_Set option \<Rightarrow> bool" where
  "remembered key ds \<longleftrightarrow> (\<exists>k s. key = Some k \<and> ds = Some s \<and> map_of (dedup_abs s) (sha256 k) \<noteq> None)"

definition set_ok :: "dedup_Set option \<Rightarrow> bool" where
  "set_ok ds \<longleftrightarrow> (\<forall>s. ds = Some s \<longrightarrow> dedup_ok s)"

lemma lastn_snoc_mem: "0 < c \<Longrightarrow> x \<in> set (lastn c (xs @ [x]))"
  by (cases c) (auto simp: lastn_def)

lemma dedup_spec_remembers:
  assumes "dedup_spec c k v xs = (r, ys)" "0 < c"
  shows "(r = ResultNew) = (map_of xs k = None)" "map_of ys k \<noteq> None"
proof -
  show "(r = ResultNew) = (map_of xs k = None)" using assms(1) by (auto simp: dedup_spec_def split: option.splits if_splits)
  show "map_of ys k \<noteq> None"
  proof (cases "map_of xs k")
    case None
    with assms(1) have "ys = lastn c (xs @ [(k, v)])" by (simp add: dedup_spec_def)
    with lastn_snoc_mem [OF assms(2), of "(k, v)" xs] show ?thesis by (metis map_of_eq_None_iff fst_conv image_eqI)
  next
    case (Some p)
    with assms(1) show ?thesis by (auto simp: dedup_spec_def split: if_splits)
  qed
qed

lemma admit_spec:
  assumes "set_ok ds"
  shows "\<exists>ds'. admit grow now key ds = Some (\<not> remembered key ds, ds') \<and> set_ok ds' \<and> (key \<noteq> None \<longrightarrow> ds \<noteq> None \<longrightarrow> remembered key ds')"
proof (cases "key = None \<or> ds = None")
  case True
  then show ?thesis using assms by (auto simp: admit_def remembered_def split: option.split)
next
  case False
  then obtain k s where k: "key = Some k" "ds = Some s" by auto
  with assms have ok: "dedup_ok s" by (simp add: set_ok_def)
  then have c: "0 < ds_capacity s" by (simp add: dedup_ok_def dedup_wf_def)
  from dedup_CompareAndAdd_step [OF ok, of grow now k "[]"] obtain r s' where
    r: "dedup_CompareAndAdd grow now k [] s = Some (r, s')" "dedup_ok s'" "dedup_spec (ds_capacity s) (sha256 k) (sha256 []) (dedup_abs s) = (r, dedup_abs s')"
    by metis
  note sp = dedup_spec_remembers [OF r(3) c]
  from r(1) sp(1) have "admit grow now key ds = Some (\<not> remembered key ds, Some s')" by (simp add: k admit_def dedup_Add_def remembered_def)
  with r(2) sp(2) show ?thesis by (auto simp: k set_ok_def remembered_def)
qed

definition duplicate :: "audit_lib \<Rightarrow> AuditEvent \<Rightarrow> 's AuditProcessor \<Rightarrow> bool" where
  "duplicate lib ev p \<longleftrightarrow> remembered (Some (DedupKey ev)) (ap_dedup p) \<or> remembered (CrossSourceKey lib ev) (ap_crossDedup p)"

text \<open>One call: it never panics, keeps the sets, remembers the key, and emits for a new event only.\<close>

lemma ProcessCtx_step:
  assumes "set_ok (ap_dedup p)" "set_ok (ap_crossDedup p)"
  shows "\<exists>p' d c. ProcessCtx lib cp grow ck ev p = Some p' \<and> set_ok (ap_dedup p') \<and> set_ok (ap_crossDedup p') \<and>
    (ap_dedup p \<noteq> None \<longrightarrow> remembered (Some (DedupKey ev)) (ap_dedup p')) \<and>
    p' = (if duplicate lib ev p then p\<lparr>ap_dedup := d, ap_crossDedup := c\<rparr> else emit_event lib cp ck ev (p\<lparr>ap_dedup := d, ap_crossDedup := c\<rparr>))"
proof -
  from admit_spec [OF assms(1), of grow "ck_dedup ck" "Some (DedupKey ev)"] obtain d where
    d: "admit grow (ck_dedup ck) (Some (DedupKey ev)) (ap_dedup p) = Some (\<not> remembered (Some (DedupKey ev)) (ap_dedup p), d)" "set_ok d"
      "ap_dedup p \<noteq> None \<longrightarrow> remembered (Some (DedupKey ev)) d" by auto
  from admit_spec [OF assms(2), of grow "ck_cross ck" "CrossSourceKey lib ev"] obtain c where
    c: "admit grow (ck_cross ck) (CrossSourceKey lib ev) (ap_crossDedup p) = Some (\<not> remembered (CrossSourceKey lib ev) (ap_crossDedup p), c)" "set_ok c" by auto
  show ?thesis
  proof (cases "remembered (Some (DedupKey ev)) (ap_dedup p)")
    case True
    with d assms(2) show ?thesis
      by (intro exI [of _ "p\<lparr>ap_dedup := d\<rparr>"] exI [of _ d] exI [of _ "ap_crossDedup p"]) (simp add: ProcessCtx_def duplicate_def)
  next
    case False
    let ?q = "p\<lparr>ap_dedup := d, ap_crossDedup := c\<rparr>"
    from False d c show ?thesis
      by (intro exI [of _ "if duplicate lib ev p then ?q else emit_event lib cp ck ev ?q"] exI [of _ d] exI [of _ c])
        (simp add: ProcessCtx_def duplicate_def)
  qed
qed


definition sample_event :: AuditEvent where
  "sample_event = \<lparr>ae_EventTime = 5, ae_Logged = 0, ae_DeferredAt = 0, ae_Type = ''CONFIG'', ae_EventGroupID = ''g'', ae_Origin = ''ADMIN_CONSOLE'',
     ae_Actor = \<lparr>ac_ID = ''u'', ac_Type = ''USER'', ac_LoginName = ''l'', ac_DisplayName = ''d'', ac_Tags = []\<rparr>,
     ae_Target = \<lparr>ta_ID = ''t'', ta_Name = ''n'', ta_Type = ''TAILNET'', ta_Property = ''ACL'', ta_IsEphemeral = None\<rparr>,
     ae_Action = ''UPDATE'', ae_Old = [], ae_New = [], ae_ActionDetails = [], ae_Error = []\<rparr>"

definition sample_lib :: audit_lib where
  "sample_lib = \<lparr>al_ToLower = strings_ToLower, al_UnmarshalString = (\<lambda>s. None), al_Compact = Some\<rparr>"

definition sample_clock :: clock where
  "sample_clock = \<lparr>ck_dedup = 6, ck_cross = 6, ck_accepted = 6, ck_warn = (\<lambda>_. 6), ck_store = 6\<rparr>"

definition sample_processor :: "cursors AuditProcessor" where
  "sample_processor = \<lparr>ap_dedup = Some (dedup_New 2), ap_crossDedup = None, ap_logger = True, ap_store = None, ap_checkpoints = [],
     ap_schema = new_schema_window, ap_out = [], ap_warnings = []\<rparr>"


section \<open>The set of series is closed, whatever arrives\<close>

lemma ProcessCtx_cases:
  assumes "ProcessCtx lib cp grow ck ev p = Some p'"
  obtains d c where "p' = p\<lparr>ap_dedup := d, ap_crossDedup := c\<rparr>"
  | d c where "p' = emit_event lib cp ck ev (p\<lparr>ap_dedup := d, ap_crossDedup := c\<rparr>)"
proof -
  from assms obtain f d where d: "admit grow (ck_dedup ck) (Some (DedupKey ev)) (ap_dedup p) = Some (f, d)"
    by (auto simp: ProcessCtx_def split: option.splits)
  show thesis
  proof (cases f)
    case False
    with assms d have p': "p' = p\<lparr>ap_dedup := d\<rparr>" by (simp add: ProcessCtx_def)
    have "p' = p\<lparr>ap_dedup := d, ap_crossDedup := ap_crossDedup p\<rparr>" unfolding p' by (cases p) simp
    then show thesis by (rule that(1))
  next
    case True
    with assms d obtain g c where "admit grow (ck_cross ck) (CrossSourceKey lib ev) (ap_crossDedup p) = Some (g, c)"
      by (auto simp: ProcessCtx_def split: option.splits)
    with assms d True that show thesis by (cases g) (auto simp: ProcessCtx_def)
  qed
qed

lemma bounded_CounterPoint: "bounded_point (CounterPoint n as) \<Longrightarrow> (n, as) \<in> audit_series"
  by (simp add: bounded_point_def)

lemma ProcessCtx_counters:
  assumes "ProcessCtx lib cp grow ck ev p = Some p'" "CounterPoint n as \<in> set (ap_out p')"
  shows "CounterPoint n as \<in> set (ap_out p) \<or> (n, as) \<in> audit_series"
proof -
  from assms(1) have "\<exists>q. ap_out q = ap_out p \<and> (p' = q \<or> p' = emit_event lib cp ck ev q)"
  proof (cases rule: ProcessCtx_cases)
    case (1 d c)
    then show ?thesis by (intro exI [of _ "p\<lparr>ap_dedup := d, ap_crossDedup := c\<rparr>"]) simp
  next
    case (2 d c)
    then show ?thesis by (intro exI [of _ "p\<lparr>ap_dedup := d, ap_crossDedup := c\<rparr>"]) simp
  qed
  then obtain q where q: "ap_out q = ap_out p" "p' = q \<or> p' = emit_event lib cp ck ev q" by blast
  have "\<exists>xs. ap_out (emit_event lib cp ck ev q) = ap_out q @ audit_log_record lib ev # xs \<and> list_all bounded_point xs"
    using emit_event_adds [of lib ev q cp ck] by (auto simp: adds_points_def emit_def)
  then obtain xs where xs: "ap_out (emit_event lib cp ck ev q) = ap_out q @ audit_log_record lib ev # xs" "list_all bounded_point xs" by blast
  have "CounterPoint n as \<in> set xs \<Longrightarrow> (n, as) \<in> audit_series" using xs(2) unfolding list_all_iff by (auto dest: bounded_CounterPoint)
  with q assms(2) xs(1) show ?thesis by (auto simp: audit_log_record_def)
qed

lemma card_labels: "card (labels xs) \<le> Suc (length xs)" "finite (labels xs)"
  unfolding labels_def by (auto intro: le_trans [OF card_insert_le_m1] simp: card_insert_if card_length le_SucI)

lemma card_change_categories: "card change_categories \<le> 31" "finite change_categories"
proof -
  have "card (set (map snd propertyCategories) \<union> set (map snd pamTargetCategories)) \<le> length propertyCategories + length pamTargetCategories"
    by (rule le_trans [OF card_Un_le]) (metis add_mono card_length length_map)
  also have "\<dots> = 29" by (simp add: propertyCategories_def pamTargetCategories_def)
  finally show "card change_categories \<le> 31" unfolding change_categories_def by (simp add: card_insert_if)
  show "finite change_categories" by (simp add: change_categories_def)
qed

lemma card_image_le': "finite A \<Longrightarrow> card A \<le> n \<Longrightarrow> card (f ` A) \<le> n"
  using card_image_le le_trans by blast

lemma card_Un4:
  assumes "card A \<le> a" "card B \<le> b" "card C \<le> c"
  shows "card (A \<union> B \<union> C \<union> {x}) \<le> a + b + c + 1"
  using card_Un_le [of "A \<union> B \<union> C" "{x}"] card_Un_le [of "A \<union> B" C] card_Un_le [of A B] assms by simp

lemma card_audit_series: "finite audit_series" "card audit_series \<le> 8457"
proof -
  let ?A = "labels knownActions" and ?O = "labels knownOrigins" and ?T = "labels knownActorTypes"
  have A: "card ?A \<le> 24" and O: "card ?O \<le> 11" and T: "card ?T \<le> 11"
    using card_labels(1) [of knownActions] card_labels(1) [of knownOrigins] card_labels(1) [of knownActorTypes]
    by (simp_all add: knownActions_def knownOrigins_def knownActorTypes_def)
  note fin = card_labels(2) card_change_categories(2)
  show "finite audit_series" unfolding audit_series_def using fin by simp
  have 1: "card (?A \<times> ?O) \<le> 264" using mult_le_mono [OF A O] by (simp add: card_cartesian_product)
  have 2: "card ({''action'', ''origin'', ''actor_type'', ''target_property''} \<times> {''known'', ''unknown''}) \<le> 8" by simp
  have 3: "card (change_categories \<times> ?A \<times> ?T) \<le> 8184"
    using mult_le_mono [OF card_change_categories(1) mult_le_mono [OF A T]] by (simp add: card_cartesian_product)
  have "card audit_series \<le> 264 + 8 + 8184 + 1" unfolding audit_series_def
    by (intro card_Un4 card_image_le' 1 2 3) (simp_all add: fin)
  then show "card audit_series \<le> 8457" by simp
qed

text \<open>C27. Whatever events arrive, in any number and with any contents, the counters the processor emits belong to a fixed set of at most 8457 series
  (name and attributes): every value that is not of the known vocabulary is folded, so that nobody who can send events can create series.\<close>

theorem audit_series_bounded:
  assumes "ProcessAllCtx lib cp grow evs p = Some p'" "ap_out p = []"
  shows "{(n, as). CounterPoint n as \<in> set (ap_out p')} \<subseteq> audit_series \<and> finite audit_series \<and> card audit_series \<le> 8457"
proof -
  have "CounterPoint n as \<in> set (ap_out p') \<Longrightarrow> CounterPoint n as \<in> set (ap_out p) \<or> (n, as) \<in> audit_series" for n as
    using assms(1)
  proof (induction evs arbitrary: p)
    case (Cons e evs)
    obtain ck ev where e: "e = (ck, ev)" by (cases e)
    from Cons.prems(2) obtain q where q: "ProcessCtx lib cp grow ck ev p = Some q" "ProcessAllCtx lib cp grow evs q = Some p'"
      by (auto simp: e split: option.splits)
    from Cons.IH [OF Cons.prems(1) q(2)] ProcessCtx_counters [OF q(1)] show ?case by blast
  qed simp
  with assms(2) card_audit_series show ?thesis by auto
qed

theorem audit_series_bounded_witness:
  "\<exists>p'. ProcessAllCtx sample_lib None Suc [(sample_clock, sample_event), (sample_clock, sample_event\<lparr>ae_Action := ''x''\<rparr>)] (sample_processor\<lparr>ap_dedup := None\<rparr>) = Some p' \<and>
     {(n, as). CounterPoint n as \<in> set (ap_out p')} \<subseteq> audit_series"
proof -
  let ?evs = "[(sample_clock, sample_event), (sample_clock, sample_event\<lparr>ae_Action := ''x''\<rparr>)]" and ?p = "sample_processor\<lparr>ap_dedup := None\<rparr>"
  have ok: "set_ok (ap_dedup ?p)" "set_ok (ap_crossDedup ?p)" by (simp_all add: sample_processor_def set_ok_def)
  obtain p1 where 1: "ProcessCtx sample_lib None Suc sample_clock sample_event ?p = Some p1" "set_ok (ap_dedup p1)" "set_ok (ap_crossDedup p1)"
    using ProcessCtx_step [OF ok] by metis
  obtain p2 where "ProcessCtx sample_lib None Suc sample_clock (sample_event\<lparr>ae_Action := ''x''\<rparr>) p1 = Some p2"
    using ProcessCtx_step [OF 1(2,3)] by metis
  with 1 have run: "ProcessAllCtx sample_lib None Suc ?evs ?p = Some p2" by simp
  moreover have "ap_out ?p = []" by (simp add: sample_processor_def)
  ultimately show ?thesis using audit_series_bounded by blast
qed

section \<open>The time of the last policy change\<close>

abbreviation last_change :: "'s CheckpointStore \<Rightarrow> 's \<Rightarrow> gotime option" where
  "last_change st s \<equiv> cs_Get st ACLAuditChangeCheckpointKey s"

definition not_back :: "gotime option \<Rightarrow> gotime option \<Rightarrow> bool" where
  "not_back a b \<longleftrightarrow> (\<forall>t. a = Some t \<longrightarrow> (\<exists>u. b = Some u \<and> t \<le> u))"

lemma not_back_refl [simp]: "not_back a a"
  by (simp add: not_back_def)

lemma not_back_trans: "not_back a b \<Longrightarrow> not_back b c \<Longrightarrow> not_back a c"
  by (force simp: not_back_def)

context checkpoint_store
begin

lemma persistACLChange_forward:
  assumes "ok (ap_checkpoints p)"
  shows "ok (ap_checkpoints (persistACLChange (Some st) at p))"
    and "not_back (last_change st (ap_checkpoints p)) (last_change st (ap_checkpoints (persistACLChange (Some st) at p)))"
    and "at \<noteq> 0 \<Longrightarrow> not_back (Some at) (last_change st (ap_checkpoints (persistACLChange (Some st) at p)))"
proof -
  obtain e s where r: "run_state (cs_Set st ACLAuditChangeCheckpointKey at) (ap_checkpoints p) = (e, s)" by fastforce
  from ok_Set [OF assms, of ACLAuditChangeCheckpointKey at] Get_Set [OF assms, of ACLAuditChangeCheckpointKey ACLAuditChangeCheckpointKey at]
  have s: "ok s" "last_change st s = Some at" by (simp_all add: r)
  let ?p = "persistACLChange (Some st) at p"
  have set: "ap_checkpoints (if e = None then p\<lparr>ap_checkpoints := s\<rparr> else emit x (p\<lparr>ap_checkpoints := s\<rparr>)) = s" for x by simp
  consider "ap_checkpoints ?p = ap_checkpoints p" "at = 0 \<or> (\<exists>c. last_change st (ap_checkpoints p) = Some c \<and> at \<le> c)"
    | "ap_checkpoints ?p = s" "\<forall>c. last_change st (ap_checkpoints p) = Some c \<longrightarrow> c < at"
    by (cases "at = 0"; cases "last_change st (ap_checkpoints p)"; cases "the (last_change st (ap_checkpoints p)) < at")
      (auto simp: persistACLChange_def r Let_def set)
  then show "ok (ap_checkpoints ?p)" "not_back (last_change st (ap_checkpoints p)) (last_change st (ap_checkpoints ?p))"
    "at \<noteq> 0 \<Longrightarrow> not_back (Some at) (last_change st (ap_checkpoints ?p))"
    using assms s by (cases; force simp: not_back_def)+
qed

lemma emit_event_forward:
  assumes "ok (ap_checkpoints p)"
  shows "ok (ap_checkpoints (emit_event lib (Some st) ck ev p))"
    and "not_back (last_change st (ap_checkpoints p)) (last_change st (ap_checkpoints (emit_event lib (Some st) ck ev p)))"
    and "classifyChange ev = Some ''acl'' \<Longrightarrow> audit_EventTimestamp ev \<noteq> 0 \<Longrightarrow>
      not_back (Some (audit_EventTimestamp ev)) (last_change st (ap_checkpoints (emit_event lib (Some st) ck ev p)))"
proof -
  have fwd: "ok (ap_checkpoints (emit_change (Some st) ev q)) \<and> not_back (last_change st (ap_checkpoints q)) (last_change st (ap_checkpoints (emit_change (Some st) ev q))) \<and>
      (classifyChange ev = Some ''acl'' \<longrightarrow> audit_EventTimestamp ev \<noteq> 0 \<longrightarrow>
        not_back (Some (audit_EventTimestamp ev)) (last_change st (ap_checkpoints (emit_change (Some st) ev q))))" if q: "ok (ap_checkpoints q)" for q :: "'s AuditProcessor"
  proof (cases "classifyChange ev")
    case (Some cat)
    have "ok (ap_checkpoints (emit x q))" for x using q by simp
    note f = persistACLChange_forward [OF this, where at = "audit_EventTimestamp ev"]
    show ?thesis
    proof (cases "cat = ''acl''")
      case True
      with Some f show ?thesis by (simp add: emit_change_def)
    qed (simp add: emit_change_def Some q)
  qed (simp add: emit_change_def q)
  from fwd [of "observeSchemaDrift ck ev (emit _ (emit _ p))"] assms
  show "ok (ap_checkpoints (emit_event lib (Some st) ck ev p))"
    "not_back (last_change st (ap_checkpoints p)) (last_change st (ap_checkpoints (emit_event lib (Some st) ck ev p)))"
    "classifyChange ev = Some ''acl'' \<Longrightarrow> audit_EventTimestamp ev \<noteq> 0 \<Longrightarrow>
      not_back (Some (audit_EventTimestamp ev)) (last_change st (ap_checkpoints (emit_event lib (Some st) ck ev p)))"
    by (simp_all add: emit_event_def Let_def)
qed

lemma ProcessAllCtx_forward:
  assumes "ok (ap_checkpoints p)" "ProcessAllCtx lib (Some st) grow evs p = Some p'"
  shows "ok (ap_checkpoints p') \<and> not_back (last_change st (ap_checkpoints p)) (last_change st (ap_checkpoints p'))"
  using assms
proof (induction evs arbitrary: p)
  case (Cons e evs)
  obtain ck ev where e: "e = (ck, ev)" by (cases e)
  from Cons.prems(2) obtain q where q: "ProcessCtx lib (Some st) grow ck ev p = Some q" "ProcessAllCtx lib (Some st) grow evs q = Some p'"
    by (auto simp: e split: option.splits)
  from q(1) have "ok (ap_checkpoints q) \<and> not_back (last_change st (ap_checkpoints p)) (last_change st (ap_checkpoints q))"
  proof (cases rule: ProcessCtx_cases)
    case (2 d c)
    from Cons.prems(1) have "ok (ap_checkpoints (p\<lparr>ap_dedup := d, ap_crossDedup := c\<rparr>))" by simp
    note f = emit_event_forward(1,2) [OF this, of lib ck ev]
    from f show ?thesis unfolding 2 by simp
  qed (use Cons.prems(1) in simp)
  with Cons.IH [OF _ q(2)] show ?case using not_back_trans by blast
qed simp

end

text \<open>C30. Over any events, with any failures of the store to persist, the recorded time of the last policy change never moves back; and after an event that changes the
  policy and is not a duplicate it is not before that event.\<close>

theorem acl_change_never_moves_back:
  assumes "checkpoint_store st ok" "ok (ap_checkpoints p)" "ProcessAllCtx lib (Some st) grow evs p = Some q"
    and "set_ok (ap_dedup q)" "set_ok (ap_crossDedup q)"
  shows "not_back (last_change st (ap_checkpoints p)) (last_change st (ap_checkpoints q)) \<and>
    (\<forall>ck ev. \<not> duplicate lib ev q \<longrightarrow> classifyChange ev = Some ''acl'' \<longrightarrow> audit_EventTimestamp ev \<noteq> 0 \<longrightarrow>
      (\<exists>q'. ProcessCtx lib (Some st) grow ck ev q = Some q' \<and> not_back (Some (audit_EventTimestamp ev)) (last_change st (ap_checkpoints q'))))"
proof -
  have f: "ok (ap_checkpoints q)" "not_back (last_change st (ap_checkpoints p)) (last_change st (ap_checkpoints q))"
    using checkpoint_store.ProcessAllCtx_forward [OF assms(1-3)] by blast+
  have "\<exists>q'. ProcessCtx lib (Some st) grow ck ev q = Some q' \<and> not_back (Some (audit_EventTimestamp ev)) (last_change st (ap_checkpoints q'))"
    if ev: "\<not> duplicate lib ev q" "classifyChange ev = Some ''acl''" "audit_EventTimestamp ev \<noteq> 0" for ck ev
  proof -
    from ProcessCtx_step [OF assms(4,5), of lib "Some st" grow ck ev] ev(1) obtain d c where
      r: "ProcessCtx lib (Some st) grow ck ev q = Some (emit_event lib (Some st) ck ev (q\<lparr>ap_dedup := d, ap_crossDedup := c\<rparr>))" by auto
    from f(1) have "ok (ap_checkpoints (q\<lparr>ap_dedup := d, ap_crossDedup := c\<rparr>))" by simp
    from checkpoint_store.emit_event_forward(3) [OF assms(1) this ev(2,3), of lib ck] r show ?thesis by blast
  qed
  with f(2) show ?thesis by blast
qed

theorem acl_change_never_moves_back_witness:
  "\<exists>q'. ProcessCtx sample_lib (Some memoryStore) Suc sample_clock sample_event sample_processor = Some q' \<and>
     not_back (Some 5) (last_change memoryStore (ap_checkpoints q'))"
proof -
  have run: "ProcessAllCtx sample_lib (Some memoryStore) Suc [] sample_processor = Some sample_processor" by simp
  have sets: "set_ok (ap_dedup sample_processor)" "set_ok (ap_crossDedup sample_processor)"
    using dedup_New_ok [of 2] by (simp_all add: sample_processor_def set_ok_def)
  have "\<not> duplicate sample_lib sample_event sample_processor"
    by (auto simp: sample_processor_def duplicate_def remembered_def dedup_New_def dedup_abs_def dedup_live_def)
  moreover have "classifyChange sample_event = Some ''acl''" "audit_EventTimestamp sample_event = 5"
    by (simp_all add: classifyChange_def ChangeCategory_def sample_event_def propertyCategories_def audit_EventTimestamp_def)
  ultimately show ?thesis
    using acl_change_never_moves_back [OF memory.checkpoint_store_axioms _ run sets] by (force simp: sample_processor_def)
qed

end
