(* ===== verification/K8s_Audit.thy ===== *)
theory K8s_Audit
  imports Schema_Drift Event_Store Go_Time
begin

text \<open>
  \<open>src/internal/k8saudit\<close>: Kubernetes API-audit events and session recordings (\<open>record.go\<close>, \<open>cast.go\<close>), the closed vocabularies of their labels
  (\<open>classify.go\<close>) and the processor (\<open>processor.go\<close>). JSON decoding and case folding are parameters; the warning window is that of \<open>Schema_Drift\<close>.
\<close>

section \<open>Records\<close>

record RequestInfo =
  ri_Method :: string
  ri_Path :: string
  ri_Body :: string
  ri_QueryParameters :: "(string, string list) gomap option"

record KubernetesInfo =
  ki_IsResourceRequest :: bool
  ki_Path :: string
  ki_Verb :: string
  ki_APIPrefix :: string
  ki_APIGroup :: string
  ki_APIVersion :: string
  ki_Namespace :: string
  ki_Resource :: string
  ki_Subresource :: string
  ki_Name :: string
  ki_Parts :: "string list"
  ki_FieldSelector :: string
  ki_LabelSelector :: string

record Source =
  so_Node :: string
  so_NodeID :: string
  so_NodeTags :: "string list"
  so_NodeUserID :: int
  so_NodeUser :: string

record Destination =
  de_Node :: string
  de_NodeID :: string

record K8sEvent =
  ke_Type :: string
  ke_ID :: string
  ke_Timestamp :: int
  ke_UserAgent :: string
  ke_Request :: RequestInfo
  ke_Kubernetes :: KubernetesInfo
  ke_Source :: Source
  ke_Destination :: Destination

record K8sObject =
  ko_StableID :: string
  ko_Event :: K8sEvent
  ko_Timestamp :: string

record CastKubernetes =
  ca_PodName :: string
  ca_Namespace :: string
  ca_Container :: string
  ca_SessionType :: string

record CastHeader =
  ch_Version :: int
  ch_Width :: int
  ch_Height :: int
  ch_Timestamp :: int
  ch_Command :: string
  ch_SrcNode :: string
  ch_SrcNodeID :: string
  ch_DstNode :: string
  ch_DstNodeID :: string
  ch_SrcNodeTags :: "string list"
  ch_SrcNodeUserID :: int
  ch_SrcNodeUser :: string
  ch_SSHUser :: string
  ch_LocalUser :: string
  ch_ConnectionID :: string
  ch_Kubernetes :: "CastKubernetes option"

definition EventTypeKubernetesAPIRequest :: string where "EventTypeKubernetesAPIRequest = ''kubernetes-api-request''"

text \<open>Decoding, on top of \<open>json.Unmarshal\<close> as a parameter that fails or fills the record.\<close>

definition DecodeObject :: "(string \<Rightarrow> K8sObject option) \<Rightarrow> string \<Rightarrow> K8sObject option" where
  "DecodeObject unmarshal line =
     (case unmarshal line of
        None \<Rightarrow> None
      | Some obj \<Rightarrow> if ke_Type (ko_Event obj) = [] \<and> ke_ID (ko_Event obj) = [] \<and> ke_Timestamp (ko_Event obj) = 0 then None else Some obj)"

definition IsCastFrame :: "string \<Rightarrow> bool" where
  "IsCastFrame line \<longleftrightarrow> (let trimmed = strings_TrimSpace line in 0 < length trimmed \<and> hd trimmed = CHR ''['')"

definition DecodeCastHeader :: "(string \<Rightarrow> CastHeader option) \<Rightarrow> string \<Rightarrow> CastHeader option" where
  "DecodeCastHeader unmarshal line =
     (case unmarshal line of None \<Rightarrow> None | Some h \<Rightarrow> if ch_Version h = 0 then None else Some h)"

definition k8s_EventTimestamp :: "K8sObject \<Rightarrow> gotime" where
  "k8s_EventTimestamp ob = (if ke_Timestamp (ko_Event ob) = 0 then 0 else time_of_Unix (ke_Timestamp (ko_Event ob)))"

definition k8s_CaptureTimestamp :: "K8sObject \<Rightarrow> gotime" where
  "k8s_CaptureTimestamp ob = k8s_EventTimestamp ob"

section \<open>Vocabularies\<close>

definition AttrOther :: string where "AttrOther = ''other''"

definition validCommandClasses :: "string list" where
  "validCommandClasses =
     [''interactive_shell'', ''recon'', ''package_mgmt'', ''net_tool'', ''file_transfer'', ''credential_read'', ''none'', ''other'']"

definition shellBinaries :: "string list" where
  "shellBinaries =
     [''sh'', ''bash'', ''ash'', ''zsh'', ''dash'', ''fish'']"

definition validVerbs :: "string list" where
  "validVerbs =
     [''get'', ''list'', ''watch'', ''create'', ''update'', ''patch'', ''delete'', ''deletecollection'', ''proxy'', ''connect'', ''head'', ''post'', ''put'',
      ''options'']"

definition validResources :: "string list" where
  "validResources =
     [''pods'', ''services'', ''endpoints'', ''namespaces'', ''nodes'', ''events'', ''secrets'', ''configmaps'', ''serviceaccounts'', ''persistentvolumes'',
      ''persistentvolumeclaims'', ''deployments'', ''replicasets'', ''statefulsets'', ''daemonsets'', ''jobs'', ''cronjobs'', ''ingresses'',
      ''networkpolicies'', ''endpointslices'', ''customresourcedefinitions'', ''roles'', ''rolebindings'', ''clusterroles'', ''clusterrolebindings'',
      ''selfsubjectrulesreviews'', ''selfsubjectaccessreviews'', ''selfsubjectreviews'', ''subjectaccessreviews'', ''tokenreviews'',
      ''certificatesigningrequests'', ''leases'', ''podmetrics'']"

definition validAPIGroups :: "string list" where
  "validAPIGroups =
     [''apps'', ''batch'', ''authorization.k8s.io'', ''authentication.k8s.io'', ''rbac.authorization.k8s.io'', ''networking.k8s.io'', ''discovery.k8s.io'',
      ''metrics.k8s.io'', ''apiextensions.k8s.io'', ''storage.k8s.io'', ''policy'', ''coordination.k8s.io'', ''certificates.k8s.io'', ''autoscaling'']"

definition validSubresources :: "string list" where
  "validSubresources =
     [''exec'', ''attach'', ''portforward'', ''log'', ''status'', ''proxy'', ''binding'', ''eviction'', ''scale'', ''token'', ''finalize'', ''approval'']"

definition validUserAgents :: "string list" where
  "validUserAgents =
     [''kubectl'', ''freelens'', ''lens'', ''node-fetch'', ''helm'', ''k9s'', ''argocd'', ''terraform'', ''kubernetes-client'', ''client-go'',
      ''python-requests'', ''go-http-client'', ''curl'', ''octant'']"

definition sensitiveResources :: "string list" where
  "sensitiveResources =
     [''secrets'', ''serviceaccounts'', ''roles'', ''rolebindings'', ''clusterroles'', ''clusterrolebindings'', ''tokenreviews'',
      ''certificatesigningrequests'']"

definition commandPatterns :: "(string \<times> string list) list" where
  "commandPatterns =
     [(''credential_read'', [''serviceaccount/token'', ''/var/run/secrets'', ''id_rsa'', ''.kube/config'', ''printenv'', ''/proc/self/environ'']),
      (''recon'', [''whoami'', ''uname'', ''hostname'', ''ifconfig'', ''ip a'', ''netstat'', ''ps aux'', ''mount'', ''env'', '' id;'', '' id '', '';id'']),
      (''package_mgmt'', [''apt-get'', ''apt '', ''apk '', ''yum '', ''dnf '', ''pip install'', ''npm install'', ''gem install'']),
      (''net_tool'', [''curl'', ''wget'', ''nc '', ''ncat'', ''nmap'', ''ssh '', ''dig '', ''nslookup'']),
      (''file_transfer'', [''tar '', ''scp '', ''rsync'', ''base64'', ''dd '']),
      (''interactive_shell'', [''bash'', ''/bin/sh'', ''ash'', ''zsh'', ''/bin/dash''])]"

definition rbacProbeResources :: "string list" where
  "rbacProbeResources = [''selfsubjectrulesreviews'', ''selfsubjectaccessreviews'', ''selfsubjectreviews'', ''subjectaccessreviews'']"

definition readVerbs :: "string list" where "readVerbs = [''get'', ''list'', ''watch'']"
definition mutationVerbs :: "string list" where "mutationVerbs = [''create'', ''update'', ''patch'', ''delete'', ''deletecollection'']"
definition execSubresources :: "string list" where "execSubresources = [''exec'', ''attach'', ''portforward'']"

fun join_space :: "string list \<Rightarrow> string" where
  "join_space [] = []"
| "join_space [s] = s"
| "join_space (s # t # ss) = s @ '' '' @ join_space (t # ss)"

fun pattern_loop :: "(string \<times> string list) list \<Rightarrow> string \<Rightarrow> string option" where
  "pattern_loop [] joined = None"
| "pattern_loop ((cls, toks) # ps) joined = (if list_ex (strings_Contains joined) toks then Some cls else pattern_loop ps joined)"

definition ClassifyCommand :: "folding \<Rightarrow> string list \<Rightarrow> string" where
  "ClassifyCommand lib argv =
     (if argv = [] then ''none''
      else case pattern_loop commandPatterns (lib_ToLower lib (join_space argv)) of
        Some cls \<Rightarrow> cls
      | None \<Rightarrow>
          (let base = hd argv;
               base = (case strings_LastIndexByte base (CHR ''/'') of Some i \<Rightarrow> drop (i + 1) base | None \<Rightarrow> base)
           in if lib_ToLower lib base \<in> set shellBinaries then ''interactive_shell'' else AttrOther))"

definition ExecCommand :: "K8sObject \<Rightarrow> string list" where
  "ExecCommand ob =
     (case ri_QueryParameters (ke_Request (ko_Event ob)) of
        None \<Rightarrow> [] | Some m \<Rightarrow> (case map_of m ''command'' of None \<Rightarrow> [] | Some vs \<Rightarrow> vs))"

text \<open>What the four normalizers of a field have in common: the value for the empty field, and \<open>AttrOther\<close> outside the vocabulary.\<close>

definition normalize :: "folding \<Rightarrow> string list \<Rightarrow> string \<Rightarrow> string \<Rightarrow> string" where
  "normalize lib known blank v =
     (let v = lib_ToLower lib (strings_TrimSpace v) in if v = [] then blank else if v \<in> set known then v else AttrOther)"

definition NormalizeVerb :: "folding \<Rightarrow> string \<Rightarrow> string" where "NormalizeVerb lib = normalize lib validVerbs ''none''"
definition NormalizeResource :: "folding \<Rightarrow> string \<Rightarrow> string" where "NormalizeResource lib = normalize lib validResources ''none''"
definition NormalizeAPIGroup :: "folding \<Rightarrow> string \<Rightarrow> string" where "NormalizeAPIGroup lib = normalize lib validAPIGroups ''core''"
definition NormalizeSubresource :: "folding \<Rightarrow> string \<Rightarrow> string" where "NormalizeSubresource lib = normalize lib validSubresources ''none''"

definition NormalizeUserAgent :: "folding \<Rightarrow> string \<Rightarrow> string" where
  "NormalizeUserAgent lib ua =
     (let ua = strings_TrimSpace ua
      in if ua = [] then ''unknown''
         else let product = lib_ToLower lib (takeWhile (\<lambda>c. c \<notin> {CHR ''/'', CHR '' ''}) ua)
              in if product \<in> set validUserAgents then product else AttrOther)"

definition IsSensitive :: "folding \<Rightarrow> string \<Rightarrow> bool" where
  "IsSensitive lib resource \<longleftrightarrow> lib_ToLower lib (strings_TrimSpace resource) \<in> set sensitiveResources"

section \<open>The processor\<close>

datatype k8s_emission =
    K8sCounter string attrs
  | K8sLog (kl_name: string) (kl_body: string) (kl_time: gotime) (kl_observed: gotime) (kl_attrs: attrs)

record K8sProcessor =
  kp_logger :: bool
  kp_emitCommandText :: bool
  kp_schema :: schema_window

definition requestSummary :: "string \<Rightarrow> string \<Rightarrow> string \<Rightarrow> string \<Rightarrow> string" where
  "requestSummary verb resource subresource ns =
     (let target = (if subresource \<noteq> [] \<and> subresource \<noteq> ''none'' then resource @ ''/'' @ subresource else resource)
      in if ns \<noteq> [] then verb @ '' '' @ target @ '' in '' @ ns else verb @ '' '' @ target)"

definition sessionSummary :: "string \<Rightarrow> string \<Rightarrow> string" where
  "sessionSummary sessionType ns = (if ns \<noteq> [] then sessionType @ '' session started in '' @ ns else sessionType @ '' session started'')"

definition k8s_observeSchemaDrift ::
  "gotime \<Rightarrow> string \<Rightarrow> string \<Rightarrow> K8sProcessor \<Rightarrow> k8s_emission list \<times> (string \<times> string) list \<times> K8sProcessor" where
  "k8s_observeSchemaDrift now fld val p =
     (case warnUnknownSchemaValue (kp_logger p) now fld val (kp_schema p) of (ws, w) \<Rightarrow>
        ([K8sCounter ''tailscale.k8s.schema_drift'' [(''field'', fld), (''status'', ''unknown'')]], ws, p\<lparr>kp_schema := w\<rparr>))"

text \<open>The signals of an API request.\<close>

definition request_signals :: "folding \<Rightarrow> bool \<Rightarrow> gotime \<Rightarrow> K8sObject \<Rightarrow> k8s_emission list" where
  "request_signals lib emitCommandText now ob =
     (let k = ke_Kubernetes (ko_Event ob);
          verb = NormalizeVerb lib (ki_Verb k); resource = NormalizeResource lib (ki_Resource k);
          subresource = NormalizeSubresource lib (ki_Subresource k); apiGroup = NormalizeAPIGroup lib (ki_APIGroup k);
          userAgent = NormalizeUserAgent lib (ke_UserAgent (ko_Event ob));
          ns = ki_Namespace k; user = so_NodeUser (ke_Source (ko_Event ob)); recorder = de_Node (ke_Destination (ko_Event ob));
          aVerb = (''tailscale.k8s.verb'', verb); aResource = (''tailscale.k8s.resource'', resource);
          aSub = (''tailscale.k8s.subresource'', subresource); aGroup = (''tailscale.k8s.api_group'', apiGroup);
          aNs = (''tailscale.k8s.namespace'', ns); aUA = (''tailscale.k8s.user_agent'', userAgent);
          aUser = (''tailscale.k8s.user'', user); aRec = (''tailscale.k8s.recorder'', recorder);
          commandClass = ClassifyCommand lib (if subresource \<in> set execSubresources then ExecCommand ob else []);
          pod = (if lib_EqualFold lib resource ''pods'' then ki_Name k else []);
          container = (case ri_QueryParameters (ke_Request (ko_Event ob)) of
                         None \<Rightarrow> [] | Some m \<Rightarrow> (case map_of m ''container'' of None \<Rightarrow> [] | Some cs \<Rightarrow> join_byte (CHR '','') cs));
          as = [aVerb, aResource, aSub, aGroup, aNs, (''tailscale.k8s.object_name'', ki_Name k), (''tailscale.k8s.label_selector'', ki_LabelSelector k),
                (''tailscale.k8s.field_selector'', ki_FieldSelector k), aUA, aUser, (''tailscale.k8s.src_node'', so_Node (ke_Source (ko_Event ob))),
                (''tailscale.k8s.src_node_id'', so_NodeID (ke_Source (ko_Event ob))), aRec, (''tailscale.k8s.command_class'', commandClass),
                (''tailscale.k8s.path'', ki_Path k)]
               @ (if pod \<noteq> [] then [(''tailscale.k8s.pod'', pod)] else [])
               @ (if container \<noteq> [] then [(''tailscale.k8s.container'', container)] else [])
               @ (if emitCommandText \<and> ExecCommand ob \<noteq> [] then [(''tailscale.k8s.command'', join_space (ExecCommand ob))] else [])
      in [K8sCounter ''tailscale.k8s.api.requests'' [aVerb, aResource, aSub, aGroup, aNs, aUA, aUser, aRec]]
         @ (if IsSensitive lib resource \<and> verb \<in> set readVerbs then [K8sCounter ''tailscale.k8s.api.sensitive_reads'' [aResource, aNs, aUser, aUA]] else [])
         @ (if verb \<in> set mutationVerbs then [K8sCounter ''tailscale.k8s.api.mutations'' [aVerb, aResource, aNs, aUser]] else [])
         @ (if resource \<in> set rbacProbeResources then [K8sCounter ''tailscale.k8s.api.rbac_probes'' [aResource, aNs, aUser]] else [])
         @ (if subresource \<in> set execSubresources
            then [K8sCounter ''tailscale.k8s.api.exec_sessions''
                    [aNs, (''tailscale.k8s.command_class'', commandClass), (''tailscale.k8s.session_type'', subresource), aUser]] else [])
         @ [K8sLog ''tailscale.k8s.api_request'' (requestSummary verb resource subresource ns) (k8s_EventTimestamp ob) now as])"

definition k8s_Process ::
  "folding \<Rightarrow> gotime \<Rightarrow> K8sObject \<Rightarrow> K8sProcessor \<Rightarrow> k8s_emission list \<times> (string \<times> string) list \<times> K8sProcessor" where
  "k8s_Process lib now ob p =
     (if ke_Type (ko_Event ob) \<noteq> EventTypeKubernetesAPIRequest then k8s_observeSchemaDrift now ''type'' (ke_Type (ko_Event ob)) p
      else (request_signals lib (kp_emitCommandText p) now ob, [], p))"

text \<open>\<open>strings.Fields\<close>: split around runs of white space.\<close>

function fields_loop :: "string \<Rightarrow> string \<Rightarrow> string list" where
  "fields_loop cur s =
     (if s = [] then (if cur = [] then [] else [cur])
      else case cut_space_front s of
        Some rest \<Rightarrow> (if cur = [] then [] else [cur]) @ fields_loop [] rest
      | None \<Rightarrow> fields_loop (cur @ [hd s]) (tl s))"
  by pat_completeness auto
termination by (relation "measure (length \<circ> snd)") (auto dest: cut_space_front_shorter)

declare fields_loop.simps [simp del]

definition ProcessSession :: "folding \<Rightarrow> gotime \<Rightarrow> CastHeader \<Rightarrow> K8sProcessor \<Rightarrow> k8s_emission list" where
  "ProcessSession lib now h p =
     (let ns = (case ch_Kubernetes h of None \<Rightarrow> [] | Some k \<Rightarrow> ca_Namespace k);
          pod = (case ch_Kubernetes h of None \<Rightarrow> [] | Some k \<Rightarrow> ca_PodName k);
          container = (case ch_Kubernetes h of None \<Rightarrow> [] | Some k \<Rightarrow> ca_Container k);
          sessionType = (case ch_Kubernetes h of None \<Rightarrow> ''none'' | Some k \<Rightarrow> NormalizeSubresource lib (ca_SessionType k));
          argv = fields_loop [] (ch_Command h);
          commandClass = ClassifyCommand lib argv;
          base = [(''tailscale.k8s.session_type'', sessionType), (''tailscale.k8s.namespace'', ns), (''tailscale.k8s.command_class'', commandClass),
                  (''tailscale.k8s.user'', ch_SrcNodeUser h)];
          as = base @ [(''tailscale.k8s.src_node'', ch_SrcNode h), (''tailscale.k8s.recorder'', ch_DstNode h)]
               @ (if pod \<noteq> [] then [(''tailscale.k8s.pod'', pod)] else [])
               @ (if container \<noteq> [] then [(''tailscale.k8s.container'', container)] else [])
               @ (if kp_emitCommandText p \<and> argv \<noteq> [] then [(''tailscale.k8s.command'', ch_Command h)] else [])
      in [K8sCounter ''tailscale.k8s.session.started'' base,
          K8sLog ''tailscale.k8s.session'' (sessionSummary sessionType ns) (time_of_Unix (ch_Timestamp h)) now as])"

section \<open>Labels come from closed vocabularies\<close>

definition vocabulary :: "(string \<times> string list) list" where
  "vocabulary =
     [(''tailscale.k8s.verb'', ''none'' # AttrOther # validVerbs), (''tailscale.k8s.resource'', ''none'' # AttrOther # validResources),
      (''tailscale.k8s.subresource'', ''none'' # AttrOther # validSubresources), (''tailscale.k8s.api_group'', ''core'' # AttrOther # validAPIGroups),
      (''tailscale.k8s.user_agent'', ''unknown'' # AttrOther # validUserAgents), (''tailscale.k8s.command_class'', validCommandClasses),
      (''tailscale.k8s.session_type'', ''none'' # AttrOther # validSubresources), (''field'', [''type'']), (''status'', [''unknown''])]"

text \<open>The attributes that are bounded by the cluster and the tailnet instead.\<close>

definition identity_keys :: "string list" where
  "identity_keys = [''tailscale.k8s.namespace'', ''tailscale.k8s.user'', ''tailscale.k8s.recorder'']"

definition closed_label :: "string \<times> string \<Rightarrow> bool" where
  "closed_label a \<longleftrightarrow> fst a \<in> set identity_keys \<or> (\<exists>vs. map_of vocabulary (fst a) = Some vs \<and> snd a \<in> set vs)"

lemma normalize_closed: "normalize lib known blank v \<in> set (blank # AttrOther # known)"
  by (simp add: normalize_def Let_def)

lemma pattern_loop_class: "pattern_loop ps joined = Some cls \<Longrightarrow> cls \<in> set (map fst ps)"
  by (induction ps) (auto split: if_splits)

lemma ClassifyCommand_closed: "ClassifyCommand lib argv \<in> set validCommandClasses"
proof -
  have "set (map fst commandPatterns) \<subseteq> set validCommandClasses" by (simp add: commandPatterns_def validCommandClasses_def)
  moreover have "{''none'', ''interactive_shell'', AttrOther} \<subseteq> set validCommandClasses" by (simp add: validCommandClasses_def AttrOther_def)
  ultimately show ?thesis
    unfolding ClassifyCommand_def Let_def by (auto split: option.split dest!: pattern_loop_class)
qed

lemma NormalizeUserAgent_closed: "NormalizeUserAgent lib ua \<in> set (''unknown'' # AttrOther # validUserAgents)"
  by (simp add: NormalizeUserAgent_def Let_def)

lemma closed_labels:
  "closed_label (''tailscale.k8s.verb'', NormalizeVerb lib v)" "closed_label (''tailscale.k8s.resource'', NormalizeResource lib v)"
  "closed_label (''tailscale.k8s.subresource'', NormalizeSubresource lib v)" "closed_label (''tailscale.k8s.api_group'', NormalizeAPIGroup lib v)"
  "closed_label (''tailscale.k8s.user_agent'', NormalizeUserAgent lib v)" "closed_label (''tailscale.k8s.command_class'', ClassifyCommand lib argv)"
  "closed_label (''tailscale.k8s.session_type'', NormalizeSubresource lib v)" "closed_label (''tailscale.k8s.session_type'', ''none'')"
  "closed_label (''tailscale.k8s.namespace'', x)" "closed_label (''tailscale.k8s.user'', x)" "closed_label (''tailscale.k8s.recorder'', x)"
  "closed_label (''field'', ''type'')" "closed_label (''status'', ''unknown'')"
  using normalize_closed [of lib validVerbs "''none''" v] normalize_closed [of lib validResources "''none''" v]
    normalize_closed [of lib validSubresources "''none''" v] normalize_closed [of lib validAPIGroups "''core''" v]
    NormalizeUserAgent_closed [of lib v] ClassifyCommand_closed [of lib argv]
  unfolding NormalizeVerb_def NormalizeResource_def NormalizeSubresource_def NormalizeAPIGroup_def
  by (simp_all add: closed_label_def vocabulary_def identity_keys_def)

text \<open>C40. Whatever a client of the cluster sends, every attribute of every counter is a value of a fixed vocabulary, or the namespace, the user or the recorder: the
  command text, the path, the object name and the selectors are never attributes of a metric.\<close>

theorem k8s_labels_closed:
  assumes "K8sCounter name as \<in> set (fst (k8s_Process lib now ob p)) \<union> set (ProcessSession lib now h p)"
  shows "list_all closed_label as"
proof -
  have "list_all closed_label as" if "K8sCounter name as \<in> set (request_signals lib b now ob)" for b
    using that unfolding request_signals_def Let_def by (auto simp: closed_labels)
  moreover have "list_all closed_label as" if "K8sCounter name as \<in> set (fst (k8s_observeSchemaDrift now ''type'' v p))" for v
    using that by (auto simp: k8s_observeSchemaDrift_def closed_labels split: prod.splits)
  moreover have "list_all closed_label as" if "K8sCounter name as \<in> set (ProcessSession lib now h p)"
    using that unfolding ProcessSession_def Let_def by (auto simp: closed_labels split: option.split)
  ultimately show ?thesis using assms by (auto simp: k8s_Process_def split: if_splits)
qed

definition sample_object :: K8sObject where
  "sample_object = \<lparr>ko_StableID = ''s'',
     ko_Event = \<lparr>ke_Type = EventTypeKubernetesAPIRequest, ke_ID = ''i'', ke_Timestamp = 7, ke_UserAgent = ''kubectl/v1'',
       ke_Request = \<lparr>ri_Method = ''GET'', ri_Path = ''/exec?command=sh'', ri_Body = [], ri_QueryParameters = Some [(''command'', [''sh''])]\<rparr>,
       ke_Kubernetes = \<lparr>ki_IsResourceRequest = True, ki_Path = ''/exec'', ki_Verb = ''create'', ki_APIPrefix = [], ki_APIGroup = [], ki_APIVersion = [],
         ki_Namespace = ''n'', ki_Resource = ''pods'', ki_Subresource = ''exec'', ki_Name = ''p'', ki_Parts = [], ki_FieldSelector = [], ki_LabelSelector = []\<rparr>,
       ke_Source = \<lparr>so_Node = [], so_NodeID = [], so_NodeTags = [], so_NodeUserID = 0, so_NodeUser = ''u''\<rparr>,
       ke_Destination = \<lparr>de_Node = ''r'', de_NodeID = []\<rparr>\<rparr>, ko_Timestamp = []\<rparr>"

definition sample_header :: CastHeader where
  "sample_header = \<lparr>ch_Version = 2, ch_Width = 80, ch_Height = 24, ch_Timestamp = 7, ch_Command = ''sh'', ch_SrcNode = [], ch_SrcNodeID = [], ch_DstNode = [],
     ch_DstNodeID = [], ch_SrcNodeTags = [], ch_SrcNodeUserID = 0, ch_SrcNodeUser = ''u'', ch_SSHUser = [], ch_LocalUser = [], ch_ConnectionID = [], ch_Kubernetes = None\<rparr>"

definition sample_k8s :: K8sProcessor where
  "sample_k8s = \<lparr>kp_logger = True, kp_emitCommandText = False, kp_schema = new_schema_window\<rparr>"

theorem k8s_labels_closed_witness:
  "list_all closed_label (case hd (fst (k8s_Process ascii_folding 9 sample_object sample_k8s)) of K8sCounter n as \<Rightarrow> as | _ \<Rightarrow> [])"
proof -
  obtain n as where e: "hd (fst (k8s_Process ascii_folding 9 sample_object sample_k8s)) = K8sCounter n as"
      "fst (k8s_Process ascii_folding 9 sample_object sample_k8s) \<noteq> []"
    by (simp add: k8s_Process_def request_signals_def sample_object_def Let_def)
  then have "K8sCounter n as \<in> set (fst (k8s_Process ascii_folding 9 sample_object sample_k8s)) \<union> set (ProcessSession ascii_folding 9 sample_header sample_k8s)"
    by (metis UnI1 hd_in_set)
  from k8s_labels_closed [OF this] e show ?thesis by simp
qed

section \<open>The raw request stays inside\<close>

definition set_request :: "RequestInfo \<Rightarrow> K8sObject \<Rightarrow> K8sObject" where
  "set_request r ob = ob\<lparr>ko_Event := (ko_Event ob)\<lparr>ke_Request := r\<rparr>\<rparr>"

definition query_values :: "string \<Rightarrow> RequestInfo \<Rightarrow> string list" where
  "query_values key r = (case ri_QueryParameters r of None \<Rightarrow> [] | Some m \<Rightarrow> (case map_of m key of None \<Rightarrow> [] | Some vs \<Rightarrow> vs))"

lemma container_query:
  "(case ri_QueryParameters r of None \<Rightarrow> [] | Some m \<Rightarrow> (case map_of m ''container'' of None \<Rightarrow> [] | Some cs \<Rightarrow> join_byte c cs)) =
     join_byte c (query_values ''container'' r)"
  by (simp add: query_values_def split: option.split)

lemma ExecCommand_query: "ExecCommand ob = query_values ''command'' (ke_Request (ko_Event ob))"
  by (simp add: ExecCommand_def query_values_def)

text \<open>C29. Of the raw HTTP request only the values of the parameters \<open>command\<close> and \<open>container\<close> can influence anything the processor does: two events that differ in method, path
  with query string, body or other parameters are processed alike. With the command text switched off, the command itself shows only in its class.\<close>

theorem k8s_raw_request_hidden:
  assumes "query_values ''container'' r = query_values ''container'' r'"
    and "query_values ''command'' r = query_values ''command'' r' \<or>
      \<not> kp_emitCommandText p \<and> ClassifyCommand lib (query_values ''command'' r) = ClassifyCommand lib (query_values ''command'' r')"
  shows "k8s_Process lib now (set_request r ob) p = k8s_Process lib now (set_request r' ob) p"
proof -
  have "request_signals lib (kp_emitCommandText p) now (set_request r ob) = request_signals lib (kp_emitCommandText p) now (set_request r' ob)"
    using assms(2)
  proof
    assume "query_values ''command'' r = query_values ''command'' r'"
    with assms(1) show ?thesis
      by (simp only: request_signals_def ExecCommand_query container_query) (simp add: set_request_def k8s_EventTimestamp_def Let_def)
  next
    assume "\<not> kp_emitCommandText p \<and> ClassifyCommand lib (query_values ''command'' r) = ClassifyCommand lib (query_values ''command'' r')"
    with assms(1) show ?thesis
      by (simp only: request_signals_def ExecCommand_query container_query) (simp add: set_request_def k8s_EventTimestamp_def Let_def)
  qed
  then show ?thesis by (simp add: k8s_Process_def set_request_def)
qed

theorem k8s_raw_request_hidden_witness:
  "k8s_Process ascii_folding 9 (set_request \<lparr>ri_Method = ''GET'', ri_Path = ''/exec?command=bash+-c+x'', ri_Body = [], ri_QueryParameters = Some [(''command'', [''bash'', ''-c x''])]\<rparr> sample_object) sample_k8s =
   k8s_Process ascii_folding 9 (set_request \<lparr>ri_Method = ''POST'', ri_Path = ''/exec?command=zsh'', ri_Body = ''b'', ri_QueryParameters = Some [(''command'', [''zsh''])]\<rparr> sample_object) sample_k8s"
proof (rule k8s_raw_request_hidden)
  have "ClassifyCommand ascii_folding [''bash'', ''-c x''] = ''interactive_shell''" "ClassifyCommand ascii_folding [''zsh''] = ''interactive_shell''"
    by code_simp+
  then show "query_values ''command'' \<lparr>ri_Method = ''GET'', ri_Path = ''/exec?command=bash+-c+x'', ri_Body = [], ri_QueryParameters = Some [(''command'', [''bash'', ''-c x''])]\<rparr> =
      query_values ''command'' \<lparr>ri_Method = ''POST'', ri_Path = ''/exec?command=zsh'', ri_Body = ''b'', ri_QueryParameters = Some [(''command'', [''zsh''])]\<rparr> \<or>
      \<not> kp_emitCommandText sample_k8s \<and>
      ClassifyCommand ascii_folding (query_values ''command'' \<lparr>ri_Method = ''GET'', ri_Path = ''/exec?command=bash+-c+x'', ri_Body = [], ri_QueryParameters = Some [(''command'', [''bash'', ''-c x''])]\<rparr>) =
      ClassifyCommand ascii_folding (query_values ''command'' \<lparr>ri_Method = ''POST'', ri_Path = ''/exec?command=zsh'', ri_Body = ''b'', ri_QueryParameters = Some [(''command'', [''zsh''])]\<rparr>)"
    by (simp add: query_values_def sample_k8s_def)
qed (simp add: query_values_def)

end
