(* ===== verification/Object_Signals.thy ===== *)
theory Object_Signals
  imports Object_Work Flow_Record Audit_Log K8s_Audit
begin

text \<open>
  \<open>src/internal/collector/objectstore/signal.go\<close>: the three signals that turn a line of an object into a prepared record, on top of the records of \<open>Flow_Record\<close>,
  \<open>Audit_Log\<close> and \<open>K8s_Audit\<close>, and the times a committed record reports. \<open>json.Unmarshal\<close> is a parameter for each record type.
\<close>

section \<open>Prepared records\<close>

datatype prepared_record =
    AcceptedFlow FlowLog
  | InvalidFlow "ViolationKind list"
  | AcceptedAudit AuditEvent
  | AcceptedK8sAudit K8sObject
  | AcceptedK8sSession CastHeader
  | CastFrame

text \<open>The three outcomes of the contract: a record, a malformed line, a record that is not valid.\<close>

definition accepted :: "'a \<Rightarrow> 'a prepared" where
  "accepted r = \<lparr>pp_record = Some r, pp_err = False, pp_decode = False, pp_invalid = False\<rparr>"

definition ErrRecordDecode :: "'a prepared" where
  "ErrRecordDecode = \<lparr>pp_record = None, pp_err = True, pp_decode = True, pp_invalid = False\<rparr>"

definition ErrRecordInvalid :: "'a \<Rightarrow> 'a prepared" where
  "ErrRecordInvalid r = \<lparr>pp_record = Some r, pp_err = True, pp_decode = False, pp_invalid = True\<rparr>"

definition flow_PrepareRecord :: "(string \<Rightarrow> FlowLog option) \<Rightarrow> gotime \<Rightarrow> string \<Rightarrow> prepared_record prepared" where
  "flow_PrepareRecord unmarshal now line =
     (case unmarshal line of
        None \<Rightarrow> ErrRecordDecode
      | Some r \<Rightarrow>
          let violations = Validate r now 0
          in if violations \<noteq> [] then ErrRecordInvalid (InvalidFlow violations) else accepted (AcceptedFlow r))"

definition audit_PrepareRecord :: "(string \<Rightarrow> AuditEvent option) \<Rightarrow> string \<Rightarrow> prepared_record prepared" where
  "audit_PrepareRecord unmarshal line =
     (case unmarshal line of
        None \<Rightarrow> ErrRecordDecode
      | Some ev \<Rightarrow>
          if ae_Action ev = [] \<and> ae_EventTime ev = 0 \<and> ae_Logged ev = 0 then ErrRecordDecode else accepted (AcceptedAudit ev))"

definition k8s_PrepareRecord :: "(string \<Rightarrow> K8sObject option) \<Rightarrow> (string \<Rightarrow> CastHeader option) \<Rightarrow> string \<Rightarrow> prepared_record prepared" where
  "k8s_PrepareRecord unmarshalObject unmarshalHeader line =
     (if IsCastFrame line then accepted CastFrame
      else case DecodeObject unmarshalObject line of
        Some ob \<Rightarrow> accepted (AcceptedK8sAudit ob)
      | None \<Rightarrow>
          (case DecodeCastHeader unmarshalHeader line of
             Some h \<Rightarrow> accepted (AcceptedK8sSession h)
           | None \<Rightarrow> ErrRecordDecode))"

record RecordTimestamps =
  rt_EventTime :: gotime
  rt_CaptureTime :: gotime

text \<open>The times \<open>Commit\<close> returns.\<close>

definition commit_times :: "prepared_record \<Rightarrow> RecordTimestamps" where
  "commit_times r = (case r of
       AcceptedFlow f \<Rightarrow> \<lparr>rt_EventTime = EventTimestamp f, rt_CaptureTime = CaptureTimestamp f\<rparr>
     | InvalidFlow vs \<Rightarrow> \<lparr>rt_EventTime = 0, rt_CaptureTime = 0\<rparr>
     | AcceptedAudit ev \<Rightarrow> \<lparr>rt_EventTime = audit_EventTimestamp ev, rt_CaptureTime = audit_CaptureTimestamp ev\<rparr>
     | AcceptedK8sAudit ob \<Rightarrow> \<lparr>rt_EventTime = k8s_EventTimestamp ob, rt_CaptureTime = k8s_CaptureTimestamp ob\<rparr>
     | AcceptedK8sSession h \<Rightarrow>
         if ch_Timestamp h = 0 then \<lparr>rt_EventTime = 0, rt_CaptureTime = 0\<rparr>
         else \<lparr>rt_EventTime = time_of_Unix (ch_Timestamp h), rt_CaptureTime = time_of_Unix (ch_Timestamp h)\<rparr>
     | CastFrame \<Rightarrow> \<lparr>rt_EventTime = 0, rt_CaptureTime = 0\<rparr>)"

section \<open>Every signal keeps the contract\<close>

lemma contract_outcomes [simp]: "prepared_ok (accepted r)" "prepared_ok ErrRecordDecode" "prepared_ok (ErrRecordInvalid r)"
  by (simp_all add: prepared_ok_def accepted_def ErrRecordDecode_def ErrRecordInvalid_def)

lemma contract_actions [simp]: "row_action (accepted r) = Some (r, True)" "row_action ErrRecordDecode = None" "row_action (ErrRecordInvalid r) = Some (r, False)"
  by (simp_all add: row_action_def accepted_def ErrRecordDecode_def ErrRecordInvalid_def)

lemma prepare_rows_total: "\<forall>line. prepared_ok (prepare line) \<Longrightarrow> \<exists>r. prepare_rows prepare lines = Inr r"
proof (induction lines)
  case (Cons line lines)
  then obtain as bad sem where "prepare_rows prepare lines = Inr (as, bad, sem)" by (metis prod_cases3)
  with Cons.prems [THEN spec, of line] show ?case by (auto simp: prepared_ok_def Let_def split: if_splits)
qed simp

lemma signals_ok:
  "prepared_ok (flow_PrepareRecord uf now line)" "prepared_ok (audit_PrepareRecord ua line)" "prepared_ok (k8s_PrepareRecord uo uh line)"
  by (simp_all add: flow_PrepareRecord_def audit_PrepareRecord_def k8s_PrepareRecord_def Let_def split: option.split)

text \<open>The records that belong to a signal.\<close>

definition record_of :: "string \<Rightarrow> prepared_record \<Rightarrow> bool" where
  "record_of signal r = (case r of
       AcceptedFlow f \<Rightarrow> signal = ''flow'' | InvalidFlow vs \<Rightarrow> signal = ''flow'' \<and> vs \<noteq> [] | AcceptedAudit ev \<Rightarrow> signal = ''audit''
     | AcceptedK8sAudit ob \<Rightarrow> signal = ''k8s_audit'' | AcceptedK8sSession h \<Rightarrow> signal = ''k8s_audit'' | CastFrame \<Rightarrow> signal = ''k8s_audit'')"

text \<open>C28. Each signal prepares only records of its own kind and follows the contract of the engine on every line, whatever the decoder answers, so that no line can fail
  the preparation of an object; the rows of a flow feed are exactly the lines that decode, in order, accepted when validation finds no violation and kept as an
  observation of the violations otherwise.\<close>

theorem signals_prepare_typed:
  "(\<exists>as bad sem. prepare_rows (flow_PrepareRecord uf now) lines = Inr (as, bad, sem) \<and> list_all (record_of ''flow'' \<circ> fst) as \<and>
     as = List.map_filter (\<lambda>line. map_option (\<lambda>r. if Validate r now 0 = [] then (AcceptedFlow r, True) else (InvalidFlow (Validate r now 0), False)) (uf line)) lines) \<and>
   (\<exists>as bad. prepare_rows (audit_PrepareRecord ua) lines = Inr (as, bad, 0) \<and> list_all (\<lambda>a. record_of ''audit'' (fst a) \<and> snd a) as) \<and>
   (\<exists>as bad. prepare_rows (k8s_PrepareRecord uo uh) lines = Inr (as, bad, 0) \<and> list_all (\<lambda>a. record_of ''k8s_audit'' (fst a) \<and> snd a) as)"
proof (intro conjI)
  have act: "row_action (flow_PrepareRecord uf now line) =
      map_option (\<lambda>r. if Validate r now 0 = [] then (AcceptedFlow r, True) else (InvalidFlow (Validate r now 0), False)) (uf line)" for line
    by (simp add: flow_PrepareRecord_def Let_def split: option.split)
  from prepare_rows_total [of "flow_PrepareRecord uf now" lines] signals_ok(1) obtain as bad sem where
    r: "prepare_rows (flow_PrepareRecord uf now) lines = Inr (as, bad, sem)" by (metis prod_cases3)
  from prepare_rows_spec [OF r] act have as: "as = List.map_filter (\<lambda>line. map_option (\<lambda>r. if Validate r now 0 = [] then (AcceptedFlow r, True)
      else (InvalidFlow (Validate r now 0), False)) (uf line)) lines" by simp
  then have "list_all (record_of ''flow'' \<circ> fst) as" by (auto simp: list_all_iff List.map_filter_def record_of_def)
  with r as show "\<exists>as bad sem. prepare_rows (flow_PrepareRecord uf now) lines = Inr (as, bad, sem) \<and> list_all (record_of ''flow'' \<circ> fst) as \<and>
     as = List.map_filter (\<lambda>line. map_option (\<lambda>r. if Validate r now 0 = [] then (AcceptedFlow r, True) else (InvalidFlow (Validate r now 0), False)) (uf line)) lines" by blast
next
  have act: "\<not> pp_invalid (audit_PrepareRecord ua line) \<and> (row_action (audit_PrepareRecord ua line) = Some a \<longrightarrow> record_of ''audit'' (fst a) \<and> snd a)" for line a
    by (auto simp: audit_PrepareRecord_def record_of_def accepted_def ErrRecordDecode_def row_action_def split: option.split)
  from prepare_rows_total [of "audit_PrepareRecord ua" lines] signals_ok(2) obtain as bad sem where
    r: "prepare_rows (audit_PrepareRecord ua) lines = Inr (as, bad, sem)" by (metis prod_cases3)
  from prepare_rows_spec [OF r] act have "sem = 0" "list_all (\<lambda>a. record_of ''audit'' (fst a) \<and> snd a) as"
    by (auto simp: list_all_iff List.map_filter_def)
  with r show "\<exists>as bad. prepare_rows (audit_PrepareRecord ua) lines = Inr (as, bad, 0) \<and> list_all (\<lambda>a. record_of ''audit'' (fst a) \<and> snd a) as" by blast
next
  have act: "\<not> pp_invalid (k8s_PrepareRecord uo uh line) \<and> (row_action (k8s_PrepareRecord uo uh line) = Some a \<longrightarrow> record_of ''k8s_audit'' (fst a) \<and> snd a)" for line a
    by (auto simp: k8s_PrepareRecord_def record_of_def accepted_def ErrRecordDecode_def row_action_def split: option.split)
  from prepare_rows_total [of "k8s_PrepareRecord uo uh" lines] signals_ok(3) obtain as bad sem where
    r: "prepare_rows (k8s_PrepareRecord uo uh) lines = Inr (as, bad, sem)" by (metis prod_cases3)
  from prepare_rows_spec [OF r] act have "sem = 0" "list_all (\<lambda>a. record_of ''k8s_audit'' (fst a) \<and> snd a) as"
    by (auto simp: list_all_iff List.map_filter_def)
  with r show "\<exists>as bad. prepare_rows (k8s_PrepareRecord uo uh) lines = Inr (as, bad, 0) \<and> list_all (\<lambda>a. record_of ''k8s_audit'' (fst a) \<and> snd a) as" by blast
qed

end
