(* ===== verification/Spec2Isabelle.thy ===== *)
theory Spec2Isabelle
  imports Ring_Buffer Dedup Acl_Policy Rollup Series_Cardinality Ingress_Wal_Live Collector_Scheduler Ingress_Custody Object_Setup Object_Signals
begin

text \<open>
  A verification development of tailscale2otel (\<open>src/\<close>), a daemon that polls the Tailscale control plane, receives
  streamed logs and webhooks, and turns them into OpenTelemetry metrics and logs.

  \<^bold>\<open>The program and its parts.\<close> Receivers (\<open>internal/stream\<close>, \<open>internal/webhook\<close>) hand accepted bodies to the ingress
  coordinator (\<open>internal/app/ingresswal.go\<close>), which appends them to a write-ahead log
  (\<open>internal/ingresswal\<close>) before the client is answered. A worker prepares bounded windows of the log, turns every
  original into work and applies it to the telemetry provider of its route (\<open>internal/telemetry\<close>: receipts,
  first-cover groups, scheduled collections, bounded export parts, acknowledgement), and commits an original
  only when the receipt of its work is eligible. Beside that, a scheduler (\<open>internal/collector\<close>) runs one loop per
  collector; collectors of logs poll time windows from a cursor kept in a checkpoint store, which is a file replaced
  atomically. Flow records are aggregated into bounded rollups
  (\<open>internal/flowlog\<close>), checked against the compiled policy (\<open>internal/aclpolicy\<close>), deduplicated
  (\<open>internal/dedup\<close>), and the cardinality of what is emitted is tracked. Exported logs are also read from object stores
  (\<open>internal/collector/objectstore\<close>), and audit events (\<open>internal/audit\<close>) become log records, bounded counters and rows of a recent-events view
  (\<open>internal/eventstore\<close>).

  \<^bold>\<open>How it is modelled.\<close> Structs are records and enums datatypes with the names of the source (record fields have a
  prefix, names that clash a suffix); Go maps are association lists with distinct keys, and where the code ranges over a map the
  theorem holds for every order. Stateful code is in the state monad, with the structure of the Go function; errors
  are values. Files and directories are the disk of \<open>Wal_Disk\<close>: the current bindings, for every name the set of
  bindings a crash can leave, the list of these sets after every past operation, and a script of outcomes, so that
  each call can succeed, fail before or fail after its effect. Goroutines are steps of an inductive relation
  (\<open>pstep\<close>, \<open>background\<close>), and a coordinator call runs with a script of what the other goroutines do between its calls.
  Third-party codecs and the larger standard-library ones (JSON, hujson, Unicode case folding) are parameters, with named
  hypotheses where a property relies on them.

  \<^bold>\<open>Theories.\<close>
  \<^item> \<open>Go_Prelude\<close>, \<open>Go_Strings\<close>, \<open>Sha256\<close>, \<open>State_Hoare\<close>: maps, sorting, strings, time, the hash, and the rules for triples in the
    state monad that the component proofs use.
  \<^item> \<open>Ring_Buffer\<close> (\<open>internal/ringbuf\<close>): the ring shows exactly the last values added.
  \<^item> \<open>Dedup\<close> (\<open>internal/dedup\<close>): the set with eviction and compaction refines a bounded FIFO list.
  \<^item> \<open>Acl_Policy\<close> (\<open>internal/aclpolicy\<close>): compilation, three-valued matching, evaluation and version.
  \<^item> \<open>Rollup\<close> (\<open>internal/flowlog/rollup.go\<close>): the accumulator conserves totals, is bounded and independent of map order.
  \<^item> \<open>Series_Cardinality\<close> (\<open>internal/telemetry/cardinality.go\<close>): counts and label values are exact up to the caps.
  \<^item> \<open>Wal_Format\<close>, \<open>Wal_Disk\<close>, \<open>Ingress_Wal\<close>, \<open>Ingress_Window\<close> (\<open>internal/ingresswal\<close>): records, names, the store and its
    windows; \<open>Ingress_Wal_Inv\<close> states as a locale what every operation keeps and interprets it for the index, the
    files and a single protected entry; \<open>Ingress_Wal_Safety\<close>, \<open>Ingress_Wal_Durable\<close>, \<open>Ingress_Wal_Recovery\<close> and
    \<open>Ingress_Wal_Live\<close> give capacity, durability, recovery after a crash and progress without faults.
  \<^item> \<open>Atomic_File\<close>, \<open>Checkpoint_Store\<close> (\<open>internal/collector/atomicfile.go\<close>, \<open>checkpoint.go\<close>): a file is never torn and a
    flush without error survives a restart.
  \<^item> \<open>Collector_Status\<close>, \<open>Collector_Scheduler\<close> (\<open>internal/collector\<close>): ticks, windows and cursors; no gaps, progress, bounds.
  \<^item> \<open>Export_Ack\<close>, \<open>Metric_Parts\<close>, \<open>Ingress_Delivery\<close> (\<open>internal/telemetry\<close>): export outcomes, export parts and the delivery of
    work; \<open>Ingress_Delivery_Inv\<close> is the invariant of the interleaved goroutines, \<open>Ingress_Delivery_Safety\<close> what an
    eligible receipt means, \<open>Delivery_Evolution\<close> what other goroutines can change of a receipt.
  \<^item> \<open>Ingress_Coordinator\<close> (\<open>internal/app/ingresswal.go\<close>) composes log and providers; \<open>Coordinator_Passes\<close> takes what the
    stages keep to all calls, \<open>Ingress_Coordinator_Safety\<close> shows that a commit is asked only for delivered work, and
    \<open>Ingress_Custody\<close> that an accepted body is either delivered or recoverable at every instant.
  \<^item> \<open>Go_Encoding\<close>, \<open>Go_Time\<close>, \<open>Go_Netip\<close>: what the code below uses of base64, numbers, civil dates, RFC 3339 and addresses.
  \<^item> \<open>Object_Keys\<close>, \<open>Object_State\<close>, \<open>Object_Cycle\<close> (\<open>internal/collector/objectstore\<close>): keys and prefixes, the durable rows and their batch, and a whole
    \<open>Collect\<close> cycle over any checkpoint store, with the backend and the signal as the outside world. \<open>Object_Safety\<close> shows that a saved position never passes an
    object that is not accounted for, \<open>Object_Work\<close> that an object is ingested whole or not at all and that the work of a cycle is bounded, \<open>Object_Setup\<close> that
    feeds have disjoint namespaces and that the migration of the earlier layout moves every row.
  \<^item> \<open>Flow_Record\<close> (\<open>internal/flowlog\<close>: \<open>record.go\<close>, \<open>timing.go\<close>, \<open>validation.go\<close>, \<open>dedup.go\<close>): validation reports exactly the violations, and the key of a
    connection identifies it.
  \<^item> \<open>Bounded_Text\<close>, \<open>Event_Store\<close> (\<open>internal/boundedtext\<close>, \<open>internal/eventstore\<close>): ceilings for text, and the ring of recent events with its pages.
  \<^item> \<open>Schema_Drift\<close>, \<open>Audit_Log\<close> (\<open>internal/audit\<close>): bounded warnings about unknown values, and the processing of an audit event: logged once, closed set of
    series, the time of the last policy change never moving back.
  \<^item> \<open>K8s_Audit\<close> (\<open>internal/k8saudit\<close>): labels from closed vocabularies, and a raw request that stays inside; \<open>Object_Signals\<close> (\<open>signal.go\<close> of the object-store
    collector) ties the records to the engine: every signal follows its contract on every line.

  \<^bold>\<open>Bounds and fuel.\<close> Loops that end by construction are structural recursions. The staging name is tried 32 times
  and \<open>os.CreateTemp\<close> 10000 times, as in the code. The point loop of the export parts is a
  \<open>partial_function (option)\<close> and shown to return. Loops that wait (\<open>Replay\<close>, \<open>Run\<close>, \<open>Drain\<close>, the scheduler) are given the
  outcomes of their waits as a list, of any length. Integers are unbounded where the code stays within its
  width by its own limits, and words or explicit saturation where it does not (fingerprints, sequences, rollup floats).

  \<^bold>\<open>Not modelled.\<close> HTTP handlers, clients and TLS; the OpenTelemetry SDK, SQLite, MaxMind and Kubernetes clients, which are third-party;
  generated code (\<open>internal/oas\<close>); tables of names and descriptions; metrics the program emits about itself; mutexes, where the
  operations are atomic under their lock. The manifest lists the remaining parts one by one.
\<close>

section \<open>Properties that span components\<close>

text \<open>The two retry back-offs are what they are described as: the one of the ingress coordinator is 100 ms doubled with every further failure,
  capped at 5 s, and the one of an object-store gap is a minute doubled with every further attempt, capped at an hour.\<close>

theorem retry_delays_exact:
  "ingressWALRetryDelay failures = min ingressWALMaximumRetry (ingressWALInitialRetry * 2 ^ nat (failures - 1)) \<and>
   gapRetryDelay attempts = min gapRetryMax (gapRetryBase * 2 ^ nat (attempts - 1))"
  by (simp add: retry_delay_exact gapRetryDelay_exact)

end
